(* ===== verification/Prelude.thy ===== *)
theory Prelude
  imports Main "HOL-Library.List_Lexorder" "HOL-Library.Product_Lexorder" "HOL-Library.AList" "HOL-Library.Code_Target_Nat"
begin

text \<open>
  Shared ground of the development.

  \<^item> Python text is a list of Unicode code points (\<open>pystr\<close>), \<open>str.encode\<close> is the explicit
    UTF-8 encoder \<open>utf8\<close>, and Python's string and bytes comparisons are the lexicographic order
    of HOL-Library.List_Lexorder.
  \<^item> A raised exception is the left summand of \<open>res\<close>; the constructor says which \<open>except\<close>
    clause would catch it.
  \<^item> A Python dict is an association list in insertion order (\<open>AList.update\<close> overwrites in place
    and appends new keys, as a dict does) or, where only lookups matter, a map.
  \<^item> The generic lemmas on splitting, joining, sorting and indexing that the components share.
\<close>

section \<open>Values, errors, results\<close>

type_synonym pystr = "nat list"
type_synonym bytes = "nat list"

text \<open>
  \<open>ValidationError\<close> is pydantic's subclass of \<open>ValueError\<close>: an \<open>except ValueError\<close> clause
  catches both, an \<open>except ValidationError\<close> clause only itself. \<open>Diverges\<close> is the value of a
  loop whose fuel ran out; the components prove that it does not occur.
\<close>

datatype py_error =
    ValueError string
  | ValidationError
  | RuntimeError string
  | KeyError
  | IndexError
  | TypeError
  | InvalidStateError
  | AssertionError
  | OSError string
  | MaterializationError string string
  | ApiError string nat
  | Diverges

type_synonym 'a res = "py_error + 'a"

definition is_value_error :: "py_error \<Rightarrow> bool" where
  "is_value_error e \<longleftrightarrow>
     (case e of ValueError _ \<Rightarrow> True | ValidationError \<Rightarrow> True | MaterializationError _ _ \<Rightarrow> True
      | _ \<Rightarrow> False)"

definition bind_res :: "'a res \<Rightarrow> ('a \<Rightarrow> 'b res) \<Rightarrow> 'b res" where
  "bind_res m f = (case m of Inl e \<Rightarrow> Inl e | Inr x \<Rightarrow> f x)"

definition require :: "bool \<Rightarrow> py_error \<Rightarrow> unit res" where
  "require b e = (if b then Inr () else Inl e)"

lemma bind_res_simps [simp]:
  "bind_res (Inl e) f = Inl e"
  "bind_res (Inr x) f = f x"
  by (simp_all add: bind_res_def)

lemma bind_res_eq_Inr_iff [simp]:
  "bind_res m f = Inr y \<longleftrightarrow> (\<exists>x. m = Inr x \<and> f x = Inr y)"
  by (cases m) simp_all

lemma bind_res_eq_Inl_iff:
  "bind_res m f = Inl e \<longleftrightarrow> m = Inl e \<or> (\<exists>x. m = Inr x \<and> f x = Inl e)"
  by (cases m) simp_all

lemma bind_res_assoc: "bind_res (bind_res m f) g = bind_res m (\<lambda>x. bind_res (f x) g)"
  by (cases m) simp_all

lemma bind_res_cong [fundef_cong]:
  "m = m' \<Longrightarrow> (\<And>x. m' = Inr x \<Longrightarrow> f x = f' x) \<Longrightarrow> bind_res m f = bind_res m' f'"
  by (cases m') simp_all

lemma require_eq_Inr_iff [simp]: "require b e = Inr u \<longleftrightarrow> b"
  by (simp add: require_def)

lemma require_eq_Inl_iff [simp]: "require b e = Inl e' \<longleftrightarrow> \<not> b \<and> e' = e"
  by (auto simp: require_def)

text \<open>A Python loop over a list whose body may raise: it stops at the first exception.\<close>

fun each :: "('a \<Rightarrow> unit res) \<Rightarrow> 'a list \<Rightarrow> unit res" where
  "each f [] = Inr ()"
| "each f (x # xs) = bind_res (f x) (\<lambda>_. each f xs)"

fun traverse :: "('a \<Rightarrow> 'b res) \<Rightarrow> 'a list \<Rightarrow> 'b list res" where
  "traverse f [] = Inr []"
| "traverse f (x # xs) = bind_res (f x) (\<lambda>y. bind_res (traverse f xs) (\<lambda>ys. Inr (y # ys)))"

text \<open>A loop that updates a state and may raise.\<close>

fun fold_res :: "('s \<Rightarrow> 'a \<Rightarrow> 's res) \<Rightarrow> 's \<Rightarrow> 'a list \<Rightarrow> 's res" where
  "fold_res f s [] = Inr s"
| "fold_res f s (x # xs) = bind_res (f s x) (\<lambda>s'. fold_res f s' xs)"

lemma fold_res_append: "fold_res f s (xs @ ys) = bind_res (fold_res f s xs) (\<lambda>s'. fold_res f s' ys)"
  by (induction xs arbitrary: s) (simp_all add: bind_res_assoc)

lemma fold_res_cong [fundef_cong]:
  "s = s' \<Longrightarrow> xs = ys \<Longrightarrow> (\<And>t x. x \<in> set ys \<Longrightarrow> f t x = g t x) \<Longrightarrow> fold_res f s xs = fold_res g s' ys"
proof (induction ys arbitrary: xs s s')
  case (Cons y ys)
  then show ?case by (auto intro!: bind_res_cong)
qed simp

lemma fold_res_concat: "fold_res f s (concat xss) = fold_res (\<lambda>t xs. fold_res f t xs) s xss"
  by (induction xss arbitrary: s) (auto simp: fold_res_append intro!: bind_res_cong)

lemma fold_res_map: "fold_res f s (map g xs) = fold_res (\<lambda>t x. f t (g x)) s xs"
  by (induction xs arbitrary: s) (auto intro!: bind_res_cong)

text \<open>An invariant of the state that every round keeps and that excludes a failing round.\<close>

lemma fold_res_invariant:
  assumes "I s" "\<And>t x. I t \<Longrightarrow> x \<in> set xs \<Longrightarrow> \<exists>t'. f t x = Inr t' \<and> I t'"
  shows "\<exists>t. fold_res f s xs = Inr t \<and> I t"
  using assms
proof (induction xs arbitrary: s)
  case (Cons x xs)
  then obtain t where "f s x = Inr t" "I t" by fastforce
  with Cons show ?case by simp
qed simp

lemma each_eq_Inr_iff [simp]: "each f xs = Inr u \<longleftrightarrow> (\<forall>x \<in> set xs. f x = Inr ())"
  by (induction xs) auto

lemma each_eq_InlD: "each f xs = Inl e \<Longrightarrow> \<exists>x \<in> set xs. f x = Inl e"
  by (induction xs) (auto simp: bind_res_eq_Inl_iff)

lemma each_cong [fundef_cong]:
  "xs = ys \<Longrightarrow> (\<And>x. x \<in> set ys \<Longrightarrow> f x = g x) \<Longrightarrow> each f xs = each g ys"
proof (induction ys arbitrary: xs)
  case (Cons y ys)
  then show ?case by (auto intro!: bind_res_cong)
qed simp

lemma traverse_Inr: "(\<And>x. x \<in> set xs \<Longrightarrow> f x = Inr (g x)) \<Longrightarrow> traverse f xs = Inr (map g xs)"
  by (induction xs) auto

lemma traverse_eq_InrD:
  "traverse f xs = Inr ys \<Longrightarrow> length ys = length xs \<and> (\<forall>i < length xs. f (xs ! i) = Inr (ys ! i))"
proof (induction xs arbitrary: ys)
  case (Cons x xs)
  then show ?case by (fastforce simp: nth_Cons split: nat.splits)
qed simp

section \<open>Text: UTF-8, splitting and joining\<close>

text \<open>
  The UTF-8 bytes of one code point. Python refuses to encode the surrogates U+D800 to U+DFFF;
  the modelled code rejects them before it encodes (\<open>validate_relative_path\<close>,
  \<open>validate_shape\<close>), so the encoder is total here.
\<close>

definition utf8_char :: "nat \<Rightarrow> bytes" where
  "utf8_char c =
     (if c < 128 then [c]
      else if c < 2048 then [192 + c div 64, 128 + c mod 64]
      else if c < 65536 then [224 + c div 4096, 128 + c div 64 mod 64, 128 + c mod 64]
      else [240 + c div 262144, 128 + c div 4096 mod 64, 128 + c div 64 mod 64, 128 + c mod 64])"

definition utf8 :: "pystr \<Rightarrow> bytes" where
  "utf8 s = concat (map utf8_char s)"

text \<open>The text of an ASCII literal.\<close>

definition lit :: "string \<Rightarrow> pystr" where
  "lit s = map of_char s"

abbreviation slash :: nat where "slash \<equiv> 47"
abbreviation backslash :: nat where "backslash \<equiv> 92"
abbreviation dot :: pystr where "dot \<equiv> [46]"
abbreviation dotdot :: pystr where "dotdot \<equiv> [46, 46]"

text \<open>\<open>str.split(d)\<close> and \<open>d.join(parts)\<close> for a one-character separator.\<close>

fun split_on :: "nat \<Rightarrow> pystr \<Rightarrow> pystr list" where
  "split_on d [] = [[]]"
| "split_on d (c # s) =
     (if c = d then [] # split_on d s
      else (case split_on d s of [] \<Rightarrow> [[c]] | w # ws \<Rightarrow> (c # w) # ws))"

fun join_with :: "nat \<Rightarrow> pystr list \<Rightarrow> pystr" where
  "join_with d [] = []"
| "join_with d [w] = w"
| "join_with d (w # v # ws) = w @ d # join_with d (v # ws)"

definition starts_with :: "pystr \<Rightarrow> pystr \<Rightarrow> bool" where
  "starts_with s p \<longleftrightarrow> take (length p) s = p"

definition ends_with :: "pystr \<Rightarrow> pystr \<Rightarrow> bool" where
  "ends_with s p \<longleftrightarrow> length p \<le> length s \<and> drop (length s - length p) s = p"

text \<open>\<open>path.split("/", 1)[0]\<close>: the first component of a path.\<close>

definition top_component :: "pystr \<Rightarrow> pystr" where
  "top_component s = takeWhile (\<lambda>c. c \<noteq> slash) s"

text \<open>\<open>path == parent or path.startswith(parent + "/")\<close>, a test the code repeats.\<close>

definition within :: "pystr \<Rightarrow> pystr \<Rightarrow> bool" where
  "within path parent \<longleftrightarrow> path = parent \<or> starts_with path (parent @ [slash])"

lemma split_on_not_Nil [simp]: "split_on d s \<noteq> []"
  by (induction s) (auto split: list.splits)

lemma length_split_on_pos [simp]: "0 < length (split_on d s)"
  by simp

lemma split_on_no_sep: "w \<in> set (split_on d s) \<Longrightarrow> d \<notin> set w"
proof (induction s arbitrary: w)
  case (Cons c s)
  then show ?case by (auto split: if_splits list.splits)
qed simp

lemma join_split [simp]: "join_with d (split_on d s) = s"
proof (induction s)
  case (Cons c s)
  obtain w ws where ws: "split_on d s = w # ws"
    by (cases "split_on d s") simp_all
  with Cons.IH show ?case by (cases ws) auto
qed simp

lemma split_append_sep: "d \<notin> set w \<Longrightarrow> split_on d (w @ d # s) = w # split_on d s"
  by (induction w) auto

lemma split_no_sep: "d \<notin> set w \<Longrightarrow> split_on d w = [w]"
  by (induction w) auto

lemma split_join:
  "ws \<noteq> [] \<Longrightarrow> (\<And>w. w \<in> set ws \<Longrightarrow> d \<notin> set w) \<Longrightarrow> split_on d (join_with d ws) = ws"
  by (induction d ws rule: join_with.induct) (auto simp: split_append_sep split_no_sep)

lemma split_on_inject: "split_on d s = split_on d t \<longleftrightarrow> s = t"
  by (metis join_split)

lemma join_append:
  "us \<noteq> [] \<Longrightarrow> vs \<noteq> [] \<Longrightarrow> join_with d (us @ vs) = join_with d us @ d # join_with d vs"
proof (induction d us rule: join_with.induct)
  case (2 d w)
  then show ?case by (cases vs) simp_all
next
  case (3 d w v ws)
  then show ?case by simp
qed simp

lemma starts_with_iff: "starts_with s p \<longleftrightarrow> (\<exists>t. s = p @ t)"
  unfolding starts_with_def by (metis append_eq_conv_conj)

lemma within_iff: "within p q \<longleftrightarrow> p = q \<or> (\<exists>t. p = q @ slash # t)"
  by (simp add: within_def starts_with_iff)

lemma within_refl [simp]: "within p p"
  by (simp add: within_def)

lemma within_trans: "within p q \<Longrightarrow> within q r \<Longrightarrow> within p r"
  unfolding within_iff by auto

lemma within_split:
  "within p q \<longleftrightarrow> (\<exists>ws. split_on slash p = split_on slash q @ ws)"
proof
  assume "within p q"
  then consider "p = q" | t where "p = q @ slash # t"
    by (auto simp: within_iff)
  then show "\<exists>ws. split_on slash p = split_on slash q @ ws"
  proof cases
    case 2
    have "split_on slash (q @ slash # t) = split_on slash q @ split_on slash t"
      by (induction q) (auto split: list.splits)
    with 2 show ?thesis by blast
  qed auto
next
  assume "\<exists>ws. split_on slash p = split_on slash q @ ws"
  then obtain ws where ws: "split_on slash p = split_on slash q @ ws" by blast
  then have p: "p = join_with slash (split_on slash q @ ws)"
    by (metis join_split)
  show "within p q"
    by (cases "ws = []") (use p in \<open>auto simp: within_iff join_append\<close>)
qed

lemma within_antisym: "within p q \<Longrightarrow> within q p \<Longrightarrow> p = q"
  unfolding within_iff by auto

lemma within_linear: "within p q \<Longrightarrow> within p r \<Longrightarrow> within q r \<or> within r q"
  unfolding within_split by (metis append_eq_append_conv2)

lemma top_component_split: "top_component s = hd (split_on slash s)"
  unfolding top_component_def by (induction s) (auto split: list.splits)

lemma top_component_within: "within p q \<Longrightarrow> top_component p = top_component q"
  unfolding within_split top_component_split by (metis hd_append2 split_on_not_Nil)

lemma within_top: "within p (top_component p)"
proof -
  have "split_on slash (top_component p) = [top_component p]"
    unfolding top_component_def by (rule split_no_sep) (auto dest: set_takeWhileD)
  then show ?thesis
    unfolding within_split top_component_split
    by (metis append_Cons append_Nil list.exhaust_sel split_on_not_Nil)
qed

section \<open>UTF-8 order is code point order\<close>

text \<open>
  The code sorts paths by their UTF-8 bytes in some places and by Python's own string order in
  others. Both agree: the encoder is strictly monotone, because the bytes of two different code
  points differ at a position both have.
\<close>

lemma div_mod_less_cases:
  fixes x y q :: nat
  assumes "x < y"
  shows "x div q < y div q \<or> x div q = y div q \<and> x mod q < y mod q"
proof (cases "x div q = y div q")
  case True
  have "x = x div q * q + x mod q" "y = y div q * q + y mod q" by simp_all
  with True assms have "x mod q < y mod q"
    by (metis add_less_cancel_left)
  with True show ?thesis by simp
next
  case False
  moreover have "x div q \<le> y div q" using assms by (simp add: div_le_mono)
  ultimately show ?thesis by simp
qed

lemma utf8_char_less:
  assumes cd: "c < d"
  shows "utf8_char c @ xs < utf8_char d @ ys"
proof -
  have e: "x div 4096 = x div 64 div 64" "x div 262144 = x div 64 div 64 div 64" for x :: nat
    by (simp_all flip: div_mult2_eq)
  note d1 = div_mod_less_cases [OF cd, of 64]
  have d2: "c div 64 div 64 < d div 64 div 64 \<or> c div 64 div 64 = d div 64 div 64
      \<and> (c div 64 mod 64 < d div 64 mod 64 \<or> c div 64 mod 64 = d div 64 mod 64 \<and> c mod 64 < d mod 64)"
    using d1 div_mod_less_cases [of "c div 64" "d div 64" 64] by auto
  have d3: "c div 64 div 64 div 64 < d div 64 div 64 div 64
      \<or> c div 64 div 64 div 64 = d div 64 div 64 div 64
      \<and> (c div 64 div 64 mod 64 < d div 64 div 64 mod 64 \<or> c div 64 div 64 = d div 64 div 64)"
    using d2 div_mod_less_cases [of "c div 64 div 64" "d div 64 div 64" 64] by auto
  consider "d < 128" | "128 \<le> d" "d < 2048" | "2048 \<le> d" "d < 65536" | "65536 \<le> d"
    by linarith
  then show ?thesis
  proof cases
    case 2
    then show ?thesis using cd d1 by (auto simp: utf8_char_def)
  next
    case 3
    then have "c < 2048 \<Longrightarrow> c div 64 < 32" by (simp add: less_mult_imp_div_less)
    with 3 cd d2 show ?thesis by (auto simp: utf8_char_def e)
  next
    case 4
    then have "c < 2048 \<Longrightarrow> c div 64 < 32" "c < 65536 \<Longrightarrow> c div 64 div 64 < 16"
      by (simp_all add: less_mult_imp_div_less)
    with 4 cd d2 d3 show ?thesis by (auto simp: utf8_char_def e)
  qed (use cd in \<open>auto simp: utf8_char_def\<close>)
qed

lemma utf8_Cons: "utf8 (c # s) = utf8_char c @ utf8 s"
  by (simp add: utf8_def)

lemma utf8_Nil [simp]: "utf8 [] = []"
  by (simp add: utf8_def)

lemma utf8_char_not_Nil [simp]: "utf8_char c \<noteq> []"
  by (simp add: utf8_char_def)

lemma utf8_eq_Nil_iff [simp]: "utf8 s = [] \<longleftrightarrow> s = []"
  by (cases s) (simp_all add: utf8_Cons)

lemma append_less_same [simp]: "(xs :: nat list) @ ys < xs @ zs \<longleftrightarrow> ys < zs"
  by (induction xs) auto

lemma utf8_less: "s < t \<Longrightarrow> utf8 s < utf8 t"
proof (induction s arbitrary: t)
  case Nil
  then obtain c t' where "t = c # t'" by (cases t) auto
  then have "utf8 t \<noteq> []" by simp
  then show ?case by (cases "utf8 t") auto
next
  case (Cons c s)
  then obtain d t' where t: "t = d # t'" by (cases t) auto
  with Cons.prems consider "c < d" | "c = d" "s < t'" by auto
  then show ?case
    by cases (use t Cons.IH in \<open>auto simp: utf8_Cons utf8_char_less\<close>)
qed

lemma utf8_less_iff [simp]: "utf8 s < utf8 t \<longleftrightarrow> s < t"
  by (metis less_asym less_linear utf8_less)

lemma utf8_inject [simp]: "utf8 s = utf8 t \<longleftrightarrow> s = t"
  by (metis less_irrefl less_linear utf8_less)

lemma utf8_le_iff [simp]: "utf8 s \<le> utf8 t \<longleftrightarrow> s \<le> t"
  by (metis leD leI utf8_less_iff)

section \<open>Sorting by an order-equivalent key\<close>

lemma insort_key_order_cong:
  "(\<And>x y. f x \<le> f y \<longleftrightarrow> g x \<le> g y) \<Longrightarrow> insort_key f a xs = insort_key g a xs"
  by (induction xs) auto

lemma sort_key_order_cong:
  assumes "\<And>x y. f x \<le> f y \<longleftrightarrow> g x \<le> g y"
  shows "sort_key f xs = sort_key g xs"
proof -
  have "insort_key f a ys = insort_key g a ys" for a ys
    using assms by (rule insort_key_order_cong)
  then have "insort_key f = insort_key g" by (intro ext)
  then show ?thesis by (simp add: sort_key_def)
qed

lemma sort_key_utf8 [simp]: "sort_key (\<lambda>x. utf8 (f x)) xs = sort_key f xs"
  by (rule sort_key_order_cong) simp

lemma sort_key_utf8_id [simp]: "sort_key utf8 xs = sort xs"
  by (rule sort_key_order_cong) simp

lemma map_utf8_le_iff [simp]: "map utf8 xs \<le> map utf8 ys \<longleftrightarrow> xs \<le> ys"
proof (induction xs arbitrary: ys)
  case (Cons x xs)
  then show ?case by (cases ys) auto
qed simp

lemma sort_key_map_utf8 [simp]: "sort_key (map utf8) xs = sort xs"
  by (rule sort_key_order_cong) simp

lemma strict_sorted_by_set_unique:
  fixes f :: "'a \<Rightarrow> 'b::linorder"
  assumes "sorted_wrt (<) (map f xs)" "sorted_wrt (<) (map f ys)" "set xs = set ys"
    and inj: "inj_on f (set xs)"
  shows "xs = ys"
proof -
  have "set (map f xs) = set (map f ys)" using assms(3) by simp
  with assms(1,2) have "map f xs = map f ys"
    by (simp add: strict_sorted_equal)
  with inj assms(3) show ?thesis
    by (metis map_inj_on inf_sup_absorb sup.idem)
qed

lemma sorted_wrt_filter_map:
  "sorted_wrt R (map f xs) \<Longrightarrow> sorted_wrt R (map f (filter P xs))"
  by (induction xs) auto

lemma strict_sorted_sort_key:
  assumes "distinct (map f xs)"
  shows "sorted_wrt (<) (map f (sort_key f xs))"
  using assms by (simp add: strict_sorted_iff distinct_map)

section \<open>Dicts\<close>

text \<open>
  \<open>{key(x): x for x in xs}\<close>: a later element with the same key replaces an earlier one.
\<close>

definition index_by :: "('a \<Rightarrow> 'k) \<Rightarrow> 'a list \<Rightarrow> ('k \<rightharpoonup> 'a)" where
  "index_by f xs = map_of (rev (map (\<lambda>x. (f x, x)) xs))"

lemma index_by_Some: "index_by f xs k = Some x \<Longrightarrow> x \<in> set xs \<and> f x = k"
  unfolding index_by_def by (auto dest: map_of_SomeD)

lemma index_by_None_iff: "index_by f xs k = None \<longleftrightarrow> k \<notin> f ` set xs"
  unfolding index_by_def by (auto simp: map_of_eq_None_iff image_image)

lemma dom_index_by: "dom (index_by f xs) = f ` set xs"
proof (rule set_eqI)
  fix k
  show "k \<in> dom (index_by f xs) \<longleftrightarrow> k \<in> f ` set xs"
    using index_by_None_iff [of f xs k] by (cases "index_by f xs k") (simp_all add: domIff)
qed

lemma index_by_distinct:
  assumes "distinct (map f xs)"
  shows "index_by f xs k = Some x \<longleftrightarrow> x \<in> set xs \<and> f x = k"
proof
  assume x: "x \<in> set xs \<and> f x = k"
  then have "k \<in> dom (index_by f xs)" by (auto simp only: dom_index_by)
  then obtain y where y: "index_by f xs k = Some y" by blast
  then have "y \<in> set xs" "f y = f x" using x by (auto dest: index_by_Some)
  moreover have "inj_on f (set xs)" using assms by (simp add: distinct_map)
  ultimately have "y = x" using x by (simp add: inj_on_def)
  with y show "index_by f xs k = Some x" by simp
next
  assume "index_by f xs k = Some x"
  then show "x \<in> set xs \<and> f x = k" by (rule index_by_Some)
qed

lemma index_by_append_one: "index_by f (xs @ [x]) = (index_by f xs)(f x \<mapsto> x)"
  by (simp add: index_by_def)

lemma index_by_filter_key: "index_by f (filter (\<lambda>e. P (f e)) es) k = (if P k then index_by f es k else None)"
  by (induction es rule: rev_induct) (auto simp: index_by_append_one, simp_all add: index_by_def)

lemma index_by_Nil [simp]: "index_by f [] = Map.empty"
  by (simp add: index_by_def)

lemma index_by_filter:
  assumes "distinct (map f xs)"
  shows "index_by f (filter P xs) k =
    (case index_by f xs k of None \<Rightarrow> None | Some x \<Rightarrow> if P x then Some x else None)"
proof -
  have d: "distinct (map f (filter P xs))"
    using assms by (simp add: distinct_map_filter)
  show ?thesis
  proof (cases "index_by f xs k")
    case None
    then have "index_by f (filter P xs) k = None" by (auto simp: index_by_None_iff)
    with None show ?thesis by simp
  next
    case (Some x)
    then have x: "x \<in> set xs" "f x = k" by (auto dest: index_by_Some)
    show ?thesis
    proof (cases "P x")
      case True
      with x have "index_by f (filter P xs) k = Some x"
        by (simp add: index_by_distinct [OF d])
      with Some True show ?thesis by simp
    next
      case False
      have "k \<notin> f ` set (filter P xs)"
        using False x assms by (auto simp: distinct_map dest: inj_onD)
      then have "index_by f (filter P xs) k = None" by (simp only: index_by_None_iff not_False_eq_True)
      with Some False show ?thesis by simp
    qed
  qed
qed

section \<open>Dicts as association lists\<close>

lemma map_of_update: "map_of (AList.update k v al) = (map_of al)(k \<mapsto> v)"
  by (rule ext) (simp add: update_conv)

lemma map_of_filter_key: "map_of (filter (\<lambda>(k, v). P k) al) k = (if P k then map_of al k else None)"
  by (induction al) auto

lemma distinct_filter_key: "distinct (map fst al) \<Longrightarrow> distinct (map fst (filter P al))"
  by (rule distinct_map_filter)

text \<open>A dict that indexes its values: \<open>f\<close> of a value is its key.\<close>

definition dict_by :: "('a \<Rightarrow> 'k) \<Rightarrow> ('k \<times> 'a) list \<Rightarrow> bool" where
  "dict_by f al \<longleftrightarrow> distinct (map fst al) \<and> (\<forall>(k, v) \<in> set al. f v = k)"

lemma dict_by_Nil [simp]: "dict_by f []"
  by (simp add: dict_by_def)

lemma dict_by_keys: "dict_by f al \<Longrightarrow> map f (map snd al) = map fst al"
  by (auto simp: dict_by_def)

lemma dict_by_filter: "dict_by f al \<Longrightarrow> dict_by f (filter P al)"
  by (auto simp: dict_by_def distinct_map_filter)

lemma dict_by_update: "dict_by f al \<Longrightarrow> f v = k \<Longrightarrow> dict_by f (AList.update k v al)"
proof -
  have "set (AList.update k v al) \<subseteq> insert (k, v) (set al)"
    by (induction al) auto
  then show "dict_by f al \<Longrightarrow> f v = k \<Longrightarrow> dict_by f (AList.update k v al)"
    by (auto simp: dict_by_def distinct_update)
qed

lemma index_by_dict:
  assumes "dict_by f al"
  shows "index_by f (map snd al) = map_of al"
proof
  fix k
  have d: "distinct (map f (map snd al))" using assms dict_by_keys [OF assms] by (simp only: dict_by_def)
  have "index_by f (map snd al) k = Some v \<longleftrightarrow> map_of al k = Some v" for v
    using assms by (force simp: index_by_distinct [OF d] dict_by_def)
  then show "index_by f (map snd al) k = map_of al k" by (metis not_None_eq)
qed

lemma index_by_sort_key:
  "distinct (map f xs) \<Longrightarrow> index_by f (sort_key g xs) = index_by f xs"
proof
  fix k assume d: "distinct (map f xs)"
  then have d': "distinct (map f (sort_key g xs))" by (simp add: distinct_map)
  have "index_by f (sort_key g xs) k = Some v \<longleftrightarrow> index_by f xs k = Some v" for v
    by (simp add: index_by_distinct [OF d] index_by_distinct [OF d'])
  then show "index_by f (sort_key g xs) k = index_by f xs k" by (metis not_None_eq)
qed

section \<open>Linked nodes and sorted partitions\<close>

text \<open>
  The equivalence on a set of nodes that its edges generate.
\<close>

definition linked :: "'a set \<Rightarrow> ('a \<times> 'a) set \<Rightarrow> ('a \<times> 'a) set" where
  "linked K E = (E \<union> E\<inverse>)\<^sup>* \<inter> K \<times> K"

lemma equiv_linked: "equiv K (linked K E)"
proof (rule equivI)
  show "sym (linked K E)"
    unfolding linked_def
    by (rule sym_Int [OF sym_rtrancl]) (auto simp: sym_def)
  show "trans (linked K E)" by (auto simp: linked_def trans_def)
qed (auto simp: linked_def refl_on_def)

lemma linked_mono: "E \<subseteq> E' \<Longrightarrow> linked K E \<subseteq> linked K E'"
  unfolding linked_def by (intro Int_mono rtrancl_mono) auto

lemma linked_edge: "(l, r) \<in> E \<Longrightarrow> l \<in> K \<Longrightarrow> r \<in> K \<Longrightarrow> (l, r) \<in> linked K E"
  by (auto simp: linked_def)

text \<open>
  A sorted partition: every group strictly sorted, the groups strictly sorted, and together they
  are the classes of the relation. Such a list is unique, so it depends on nothing else.
\<close>

definition is_partition :: "'a::linorder list list \<Rightarrow> 'a set \<Rightarrow> ('a \<times> 'a) set \<Rightarrow> bool" where
  "is_partition us K R \<longleftrightarrow>
     (\<forall>u \<in> set us. sorted_wrt (<) u) \<and> sorted_wrt (<) us \<and> set ` set us = K // R"

lemma is_partition_unique:
  assumes "is_partition us K R" "is_partition vs K R"
  shows "us = vs"
proof -
  have "u \<in> set vs" if u: "u \<in> set us" and p: "is_partition us K R" "is_partition vs K R" for u us vs
  proof -
    have "set u \<in> set ` set vs" using u p by (auto simp: is_partition_def)
    then obtain v where v: "v \<in> set vs" "set v = set u" by auto
    with u p have "v = u" by (auto simp: is_partition_def intro: strict_sorted_equal)
    with v show ?thesis by simp
  qed
  with assms have "set us = set vs" by blast
  with assms show ?thesis by (auto simp: is_partition_def intro: strict_sorted_equal)
qed

end
