(* ===== verification/Manifest.thy ===== *)
theory Manifest
  imports Prelude
begin

text \<open>
  The tree manifest of a skill directory (\<open>schemas/skill_manifest.py\<close>): the relative path
  check, one entry and its shape check, the ordered tree with its parents and links, and the
  resolution of relative links inside the manifest.

  \<open>nfc s\<close> stands for \<open>unicodedata.normalize("NFC", s) == s\<close>, whose Unicode tables are not
  part of the repository; the control and surrogate categories are written out. The constructors
  \<open>new_entry\<close> and \<open>new_manifest\<close> are pydantic's: any failed check is a \<open>ValidationError\<close>.
\<close>

section \<open>Paths\<close>

definition is_control :: "nat \<Rightarrow> bool" where
  "is_control c \<longleftrightarrow> c < 32 \<or> 127 \<le> c \<and> c < 160"

definition is_surrogate :: "nat \<Rightarrow> bool" where
  "is_surrogate c \<longleftrightarrow> 55296 \<le> c \<and> c < 57344"

definition forbidden_char :: "nat \<Rightarrow> bool" where
  "forbidden_char c \<longleftrightarrow> is_control c \<or> is_surrogate c"

definition bad_component :: "pystr \<Rightarrow> bool" where
  "bad_component w \<longleftrightarrow> w = [] \<or> w = dot \<or> w = dotdot \<or> length (utf8 w) > 255"

definition validate_relative_path :: "(pystr \<Rightarrow> bool) \<Rightarrow> pystr \<Rightarrow> pystr res" where
  "validate_relative_path nfc path =
     (if path = [] \<or> starts_with path [slash] \<or> backslash \<in> set path
      then Inl (ValueError ''skill path must be relative POSIX text'')
      else if \<not> nfc path
      then Inl (ValueError ''skill path must be NFC normalized'')
      else if list_ex forbidden_char path
      then Inl (ValueError ''skill path contains forbidden characters'')
      else if length (utf8 path) > 4096
      then Inl (ValueError ''skill path is too long'')
      else if list_ex bad_component (split_on slash path)
      then Inl (ValueError ''skill path contains an invalid component'')
      else Inr path)"

lemma validate_relative_path_Inr_iff:
  "validate_relative_path nfc path = Inr v \<longleftrightarrow>
     v = path \<and> path \<noteq> [] \<and> hd path \<noteq> slash \<and> backslash \<notin> set path \<and> nfc path \<and>
     \<not> list_ex forbidden_char path \<and> length (utf8 path) \<le> 4096 \<and>
     \<not> list_ex bad_component (split_on slash path)"
  by (cases path) (auto simp: validate_relative_path_def starts_with_def)

section \<open>Entries\<close>

datatype entry_kind = File | Directory | Symlink | Runtime_link
datatype content_kind = No_content | Text | Binary

record entry =
  e_path :: pystr
  e_kind :: entry_kind
  e_mode :: int
  e_size :: int
  e_sha256 :: pystr
  e_target :: pystr
  e_content :: content_kind
  e_dependency :: pystr

definition max_bytes :: int where "max_bytes = 2 ^ 63 - 1"

definition is_lower_hex :: "nat \<Rightarrow> bool" where
  "is_lower_hex c \<longleftrightarrow> 48 \<le> c \<and> c \<le> 57 \<or> 97 \<le> c \<and> c \<le> 102"

definition is_lower :: "nat \<Rightarrow> bool" where
  "is_lower c \<longleftrightarrow> 97 \<le> c \<and> c \<le> 122"

text \<open>The regular expressions \<open>[a-f0-9]{64}\<close> and \<open>[a-z][a-z0-9_.-]{0,63}\<close>.\<close>

definition is_hex64 :: "pystr \<Rightarrow> bool" where
  "is_hex64 s \<longleftrightarrow> length s = 64 \<and> list_all is_lower_hex s"

definition is_dependency :: "pystr \<Rightarrow> bool" where
  "is_dependency s \<longleftrightarrow>
     (case s of [] \<Rightarrow> False
      | c # cs \<Rightarrow> is_lower c \<and> length cs \<le> 63 \<and>
          list_all (\<lambda>x. is_lower x \<or> 48 \<le> x \<and> x \<le> 57 \<or> x = 95 \<or> x = 46 \<or> x = 45) cs)"

text \<open>The declared field constraints, checked before the shape.\<close>

definition entry_fields_ok :: "(pystr \<Rightarrow> bool) \<Rightarrow> entry \<Rightarrow> bool" where
  "entry_fields_ok nfc e \<longleftrightarrow>
     validate_relative_path nfc (e_path e) = Inr (e_path e) \<and>
     0 \<le> e_mode e \<and> e_mode e \<le> 511 \<and> 0 \<le> e_size e \<and> e_size e \<le> max_bytes \<and>
     (e_sha256 e = [] \<or> is_hex64 (e_sha256 e)) \<and>
     (e_dependency e = [] \<or> is_dependency (e_dependency e))"

definition validate_shape :: "(pystr \<Rightarrow> bool) \<Rightarrow> entry \<Rightarrow> entry res" where
  "validate_shape nfc e =
     (if e_kind e = File then
        (if e_sha256 e = [] \<or> e_content e = No_content \<or> e_target e \<noteq> [] \<or> e_dependency e \<noteq> []
         then Inl (ValueError ''file entry has inconsistent metadata'')
         else Inr e)
      else if e_size e \<noteq> 0 \<or> e_sha256 e \<noteq> [] \<or> e_content e \<noteq> No_content
      then Inl (ValueError ''non-file entry cannot contain file metadata'')
      else if e_kind e = Directory then
        (if e_target e \<noteq> [] \<or> e_dependency e \<noteq> []
         then Inl (ValueError ''directory cannot contain a link target'')
         else Inr e)
      else if e_mode e \<noteq> 511 \<or> e_target e = [] \<or> backslash \<in> set (e_target e)
      then Inl (ValueError ''link entry requires a target and mode 0777'')
      else if list_ex forbidden_char (e_target e)
      then Inl (ValueError ''link target contains forbidden characters'')
      else if length (utf8 (e_target e)) > 4096
      then Inl (ValueError ''link target is too long'')
      else if \<not> nfc (e_target e)
      then Inl (ValueError ''link target must be NFC normalized'')
      else if e_kind e = Runtime_link then
        (if \<not> starts_with (e_target e) [slash] \<or> e_dependency e = []
         then Inl (ValueError ''runtime link requires an absolute target and dependency'')
         else bind_res (validate_relative_path nfc (tl (e_target e))) (\<lambda>_. Inr e))
      else if starts_with (e_target e) [slash] \<or> e_dependency e \<noteq> []
      then Inl (ValueError ''ordinary link must stay relative and cannot claim a dependency'')
      else Inr e)"

definition new_entry :: "(pystr \<Rightarrow> bool) \<Rightarrow> entry \<Rightarrow> entry res" where
  "new_entry nfc e =
     (if \<not> entry_fields_ok nfc e then Inl ValidationError
      else (case validate_shape nfc e of Inl _ \<Rightarrow> Inl ValidationError | Inr e' \<Rightarrow> Inr e'))"

definition entry_ok :: "(pystr \<Rightarrow> bool) \<Rightarrow> entry \<Rightarrow> bool" where
  "entry_ok nfc e \<longleftrightarrow> new_entry nfc e = Inr e"

lemma validate_shape_Inr: "validate_shape nfc e = Inr e' \<Longrightarrow> e' = e"
  by (auto simp: validate_shape_def split: if_splits)

lemma entry_ok_fields: "entry_ok nfc e \<Longrightarrow> entry_fields_ok nfc e"
  by (auto simp: entry_ok_def new_entry_def split: if_splits)

lemma entry_ok_shape: "entry_ok nfc e \<Longrightarrow> validate_shape nfc e = Inr e"
  by (auto simp: entry_ok_def new_entry_def split: if_splits sum.splits dest: validate_shape_Inr)

lemma entry_ok_size: "entry_ok nfc e \<Longrightarrow> 0 \<le> e_size e"
  by (auto dest: entry_ok_fields simp: entry_fields_ok_def)

lemma entry_ok_path: "entry_ok nfc e \<Longrightarrow> e_path e \<noteq> []"
  by (auto dest: entry_ok_fields simp: entry_fields_ok_def validate_relative_path_Inr_iff)

section \<open>Links\<close>

text \<open>
  The loop of \<open>resolve_manifest_link\<close>: \<open>resolved\<close> and \<open>pending\<close> are the two component
  lists, \<open>hops\<close> counts followed links, \<open>deps\<close> is the insertion-ordered \<open>dependencies\<close> dict.
  Every round either shortens \<open>pending\<close> or raises \<open>hops\<close>, which stays below 41.
\<close>

definition set_default :: "pystr list \<Rightarrow> pystr \<Rightarrow> pystr list" where
  "set_default ks k = (if k \<in> set ks then ks else ks @ [k])"

function resolve_from ::
  "(pystr \<rightharpoonup> entry) \<Rightarrow> pystr list \<Rightarrow> pystr list \<Rightarrow> nat \<Rightarrow> pystr list \<Rightarrow> (pystr list \<times> pystr list) res"
where
  "resolve_from entries resolved [] hops deps = Inr (resolved, deps)"
| "resolve_from entries resolved (component # pending) hops deps =
     (if component = [] \<or> component = dot
      then resolve_from entries resolved pending hops deps
      else if component = dotdot then
        (if resolved = [] then Inl (ValueError ''link escapes manifest root'')
         else resolve_from entries (butlast resolved) pending hops deps)
      else (case entries (join_with slash (resolved @ [component])) of
          None \<Rightarrow> Inl (ValueError ''link target is missing from manifest'')
        | Some target \<Rightarrow>
            (if e_kind target = Symlink then
               (if hops + 1 > 40 then Inl (ValueError ''link resolution exceeds the cycle limit'')
                else resolve_from entries resolved (split_on slash (e_target target) @ pending)
                  (hops + 1) (set_default deps (e_path target)))
             else if pending \<noteq> [] \<and> e_kind target \<noteq> Directory
             then Inl (ValueError ''link traverses a non-directory entry'')
             else resolve_from entries (resolved @ [component]) pending hops
               (set_default deps (e_path target)))))"
  by pat_completeness auto
termination
  by (relation "measures [\<lambda>(_, _, _, hops, _). 41 - hops, \<lambda>(_, _, pending, _, _). length pending]") auto

definition resolve_manifest_link :: "entry \<Rightarrow> (pystr \<rightharpoonup> entry) \<Rightarrow> (pystr \<times> pystr list) res" where
  "resolve_manifest_link e entries =
     bind_res (resolve_from entries (butlast (split_on slash (e_path e)))
                 (split_on slash (e_target e)) 0 [])
       (\<lambda>(resolved, deps).
          if resolved = []
          then Inl (ValueError ''link to the manifest root creates a directory cycle'')
          else (let result = join_with slash resolved in
            if starts_with (e_path e) (result @ [slash])
            then Inl (ValueError ''link to an ancestor directory creates a cycle'')
            else Inr (result, deps)))"

section \<open>Trees\<close>

record manifest =
  version :: int
  entries :: "entry list"

definition ancestors :: "pystr \<Rightarrow> pystr list" where
  "ancestors p = (let parts = split_on slash p in map (\<lambda>i. join_with slash (take i parts)) [1..<length parts])"

fun validate_entries :: "(pystr \<rightharpoonup> entry) \<Rightarrow> bytes \<Rightarrow> int \<Rightarrow> entry list \<Rightarrow> (pystr \<rightharpoonup> entry) res" where
  "validate_entries by_path previous acc [] = Inr by_path"
| "validate_entries by_path previous acc (e # es) =
     (let encoded = utf8 (e_path e); acc' = acc + e_size e in
      if encoded \<le> previous
      then Inl (ValueError ''manifest paths must be unique and UTF-8 sorted'')
      else if acc' > max_bytes
      then Inl (ValueError ''skill tree byte count overflows the protocol'')
      else if \<not> list_all (\<lambda>a. case by_path a of None \<Rightarrow> False | Some d \<Rightarrow> e_kind d = Directory)
                 (ancestors (e_path e))
      then Inl (ValueError ''manifest requires explicit directory parents'')
      else validate_entries (by_path(e_path e \<mapsto> e)) encoded acc' es)"

definition validate_tree :: "entry list \<Rightarrow> unit res" where
  "validate_tree es =
     bind_res (validate_entries Map.empty [] 0 es)
       (\<lambda>by_path. each (\<lambda>e. if e_kind e = Symlink
                              then bind_res (resolve_manifest_link e by_path) (\<lambda>_. Inr ())
                              else Inr ()) es)"

definition new_manifest :: "entry list \<Rightarrow> manifest res" where
  "new_manifest es =
     (if length es > 100000 then Inl ValidationError
      else (case validate_tree es of
          Inl _ \<Rightarrow> Inl ValidationError
        | Inr _ \<Rightarrow> Inr \<lparr>version = 1, entries = es\<rparr>))"

definition total_bytes :: "manifest \<Rightarrow> int" where
  "total_bytes m = sum_list (map e_size (entries m))"

abbreviation by_path :: "entry list \<Rightarrow> (pystr \<rightharpoonup> entry)" where
  "by_path \<equiv> index_by e_path"

text \<open>
  A value of the class \<open>SkillTreeManifest\<close>: its entries passed the entry check and the tree check.
\<close>

definition manifest_ok :: "(pystr \<Rightarrow> bool) \<Rightarrow> manifest \<Rightarrow> bool" where
  "manifest_ok nfc m \<longleftrightarrow> new_manifest (entries m) = Inr m \<and> list_all (entry_ok nfc) (entries m)"

section \<open>Ancestors\<close>

lemma split_on_append_sep: "split_on d (q @ d # t) = split_on d q @ split_on d t"
  by (induction q) (auto split: list.splits)

lemma join_take_within: "0 < i \<Longrightarrow> within p (join_with slash (take i (split_on slash p)))"
proof -
  assume i: "0 < i"
  have "split_on slash (join_with slash (take i (split_on slash p))) = take i (split_on slash p)"
    by (rule split_join) (use i in \<open>auto simp: take_eq_Nil dest!: in_set_takeD split_on_no_sep\<close>)
  then show ?thesis
    unfolding within_split by (metis append_take_drop_id)
qed

lemma set_ancestors: "set (ancestors p) = {a. within p a \<and> a \<noteq> p}"
proof (rule set_eqI, unfold mem_Collect_eq)
  fix a
  show "a \<in> set (ancestors p) \<longleftrightarrow> within p a \<and> a \<noteq> p"
  proof
    assume "a \<in> set (ancestors p)"
    then obtain i where i: "1 \<le> i" "i < length (split_on slash p)"
      and a: "a = join_with slash (take i (split_on slash p))"
      by (auto simp: ancestors_def Let_def)
    have "split_on slash a = take i (split_on slash p)"
      unfolding a by (rule split_join) (use i in \<open>auto simp: take_eq_Nil dest!: in_set_takeD split_on_no_sep\<close>)
    with i have "length (split_on slash a) < length (split_on slash p)" by simp
    then have "a \<noteq> p" by auto
    with i a show "within p a \<and> a \<noteq> p" by (simp add: join_take_within)
  next
    assume h: "within p a \<and> a \<noteq> p"
    then obtain ws where ws: "split_on slash p = split_on slash a @ ws"
      by (auto simp: within_split)
    with h have "ws \<noteq> []" by (auto simp: split_on_inject)
    let ?i = "length (split_on slash a)"
    have "1 \<le> ?i" by (simp add: Suc_le_eq)
    moreover have "?i < length (split_on slash p)" using ws \<open>ws \<noteq> []\<close> by simp
    moreover have "a = join_with slash (take ?i (split_on slash p))" using ws by simp
    ultimately show "a \<in> set (ancestors p)"
      unfolding ancestors_def Let_def set_map
      by (intro image_eqI [where x = ?i]) simp_all
  qed
qed

lemma within_less: "within p a \<Longrightarrow> a \<noteq> p \<Longrightarrow> a < p"
proof -
  assume "within p a" "a \<noteq> p"
  then obtain t where "p = a @ slash # t" by (auto simp: within_iff)
  moreover have "a @ [] < a @ slash # t" by (simp only: append_less_same Nil_less_Cons)
  ultimately show ?thesis by simp
qed

lemma ancestors_less: "a \<in> set (ancestors p) \<Longrightarrow> a < p"
  by (auto simp: set_ancestors intro: within_less)

section \<open>What the tree check accepts\<close>

text \<open>
  The declarative reading of \<open>validate_tree\<close>: strictly sorted non-empty paths, a bounded byte sum,
  every ancestor of an entry present as a directory, every relative link resolvable.
\<close>

definition parents_closed :: "entry list \<Rightarrow> bool" where
  "parents_closed es \<longleftrightarrow>
     (\<forall>e \<in> set es. \<forall>a \<in> set (ancestors (e_path e)).
        \<exists>d \<in> set es. e_path d = a \<and> e_kind d = Directory)"

definition links_ok :: "entry list \<Rightarrow> bool" where
  "links_ok es \<longleftrightarrow>
     (\<forall>e \<in> set es. e_kind e = Symlink \<longrightarrow> (\<exists>r. resolve_manifest_link e (by_path es) = Inr r))"

definition paths_sorted :: "entry list \<Rightarrow> bool" where
  "paths_sorted es \<longleftrightarrow> sorted_wrt (<) (map e_path es)"

definition tree_ok :: "entry list \<Rightarrow> bool" where
  "tree_ok es \<longleftrightarrow>
     paths_sorted es \<and> [] \<notin> e_path ` set es \<and> sum_list (map e_size es) \<le> max_bytes \<and>
     parents_closed es \<and> links_ok es"

definition sizes_nonneg :: "entry list \<Rightarrow> bool" where
  "sizes_nonneg es \<longleftrightarrow> (\<forall>e \<in> set es. 0 \<le> e_size e)"

lemma paths_sorted_distinct: "paths_sorted es \<Longrightarrow> distinct (map e_path es)"
  unfolding paths_sorted_def by (simp add: strict_sorted_iff)

lemma paths_sorted_filter: "paths_sorted es \<Longrightarrow> paths_sorted (filter P es)"
  unfolding paths_sorted_def by (rule sorted_wrt_filter_map)

lemma by_path_iff: "paths_sorted es \<Longrightarrow> by_path es p = Some e \<longleftrightarrow> e \<in> set es \<and> e_path e = p"
  by (simp add: index_by_distinct paths_sorted_distinct)

lemma paths_sorted_unique: "paths_sorted xs \<Longrightarrow> paths_sorted ys \<Longrightarrow> set xs = set ys \<Longrightarrow> xs = ys"
  unfolding paths_sorted_def
  by (rule strict_sorted_by_set_unique) (auto simp: distinct_map strict_sorted_iff)

lemma paths_sorted_by_path_unique:
  "paths_sorted xs \<Longrightarrow> paths_sorted ys \<Longrightarrow> by_path xs = by_path ys \<Longrightarrow> xs = ys"
proof (rule paths_sorted_unique)
  assume h: "paths_sorted xs" "paths_sorted ys" "by_path xs = by_path ys"
  have "e \<in> set xs \<longleftrightarrow> e \<in> set ys" for e
    using by_path_iff [OF h(1), of "e_path e" e] by_path_iff [OF h(2), of "e_path e" e] h(3) by simp
  then show "set xs = set ys" by blast
qed

lemma sum_sizes_nonneg: "sizes_nonneg es \<Longrightarrow> 0 \<le> sum_list (map e_size es)"
  unfolding sizes_nonneg_def by (induction es) auto

lemma sorted_wrt_snoc: "sorted_wrt (<) (xs @ [x]) \<longleftrightarrow> sorted_wrt (<) xs \<and> (\<forall>y \<in> set xs. y < x)"
  by (auto simp: sorted_wrt_append)

lemma sorted_snoc_last:
  assumes "sorted_wrt (<) (xs :: pystr list)" "xs \<noteq> []"
  shows "sorted_wrt (<) (xs @ [x]) \<longleftrightarrow> last xs < x"
proof
  assume "sorted_wrt (<) (xs @ [x])"
  then show "last xs < x" using assms by (simp add: sorted_wrt_snoc)
next
  assume l: "last xs < x"
  have "y \<le> last xs" if "y \<in> set xs" for y
    using assms that by (metis append_butlast_last_id in_set_conv_decomp_last in_set_butlastD
        last_in_set linorder_le_cases order.strict_implies_order sorted_wrt_snoc rotate1.simps(2)
        set_rotate1 set_ConsD order_refl)
  with assms l show "sorted_wrt (<) (xs @ [x])" by (force simp: sorted_wrt_snoc)
qed

lemma index_by_case:
  assumes "distinct (map f xs)"
  shows "(case index_by f xs k of None \<Rightarrow> False | Some d \<Rightarrow> P d) \<longleftrightarrow> (\<exists>d \<in> set xs. f d = k \<and> P d)"
proof (cases "index_by f xs k")
  case None
  then have "k \<notin> f ` set xs" by (simp only: index_by_None_iff not_False_eq_True)
  with None show ?thesis by auto
next
  case (Some x)
  then have x: "x \<in> set xs" "f x = k" by (auto dest: index_by_Some)
  have "d = x" if "d \<in> set xs" "f d = k" for d
    using index_by_distinct [OF assms, of k d] that Some by simp
  with x have "(\<exists>d \<in> set xs. f d = k \<and> P d) \<longleftrightarrow> P x" by blast
  with Some show ?thesis by simp
qed

lemma validate_entries_iff:
  assumes "sorted_wrt (<) ([] # map e_path pre)" and "sizes_nonneg es"
    and "sum_list (map e_size pre) \<le> max_bytes"
  shows "validate_entries (by_path pre) (utf8 (last ([] # map e_path pre))) (sum_list (map e_size pre)) es = Inr m \<longleftrightarrow>
     m = by_path (pre @ es) \<and> sorted_wrt (<) ([] # map e_path (pre @ es)) \<and>
     sum_list (map e_size (pre @ es)) \<le> max_bytes \<and>
     (\<forall>e \<in> set es. \<forall>a \<in> set (ancestors (e_path e)).
        \<exists>d \<in> set (pre @ es). e_path d = a \<and> e_kind d = Directory)"
  using assms
proof (induction es arbitrary: pre)
  case Nil
  then show ?case by auto
next
  case (Cons e es)
  let ?last = "last ([] # map e_path pre)"
  let ?sorted = "sorted_wrt (<) ([] # map e_path (pre @ e # es))"
  have s1: "sorted_wrt (<) ([] # map e_path (pre @ [e])) \<longleftrightarrow> ?last < e_path e"
    using sorted_snoc_last [OF Cons.prems(1), of "e_path e"] by simp
  have nn: "sizes_nonneg es" "0 \<le> e_size e"
    using Cons.prems(2) by (auto simp: sizes_nonneg_def)
  show ?case
  proof (cases "?last < e_path e \<and> sum_list (map e_size pre) + e_size e \<le> max_bytes")
    case False
    then consider "\<not> ?last < e_path e" | "\<not> sum_list (map e_size pre) + e_size e \<le> max_bytes" by blast
    then show ?thesis
    proof cases
      case 1
      then have "\<not> ?sorted" using s1 by (auto simp: sorted_wrt_append)
      with 1 show ?thesis by (auto simp: Let_def not_less)
    next
      case 2
      with sum_sizes_nonneg [OF nn(1)] show ?thesis by (auto simp: Let_def)
    qed
  next
    case True
    let ?dirs = "\<lambda>es'. \<forall>a \<in> set (ancestors (e_path e)). \<exists>d \<in> set es'. e_path d = a \<and> e_kind d = Directory"
    have sp: "sorted_wrt (<) ([] # map e_path (pre @ [e]))" using s1 True by simp
    then have dp: "distinct (map e_path pre)" by (auto simp: sorted_wrt_append strict_sorted_iff)
    have parents: "list_all (\<lambda>a. case by_path pre a of None \<Rightarrow> False | Some d \<Rightarrow> e_kind d = Directory)
        (ancestors (e_path e)) \<longleftrightarrow> ?dirs pre"
      by (simp add: list_all_iff index_by_case [OF dp])
    have up: "?dirs pre \<longleftrightarrow> ?dirs (pre @ e # es)" if "?sorted"
    proof
      assume "?dirs (pre @ e # es)"
      then show "?dirs pre"
        using that by (fastforce simp: sorted_wrt_append dest: ancestors_less)
    qed auto
    have ih: "validate_entries (by_path (pre @ [e])) (utf8 (e_path e)) (sum_list (map e_size pre) + e_size e) es = Inr m \<longleftrightarrow>
       m = by_path (pre @ e # es) \<and> ?sorted \<and> sum_list (map e_size (pre @ e # es)) \<le> max_bytes \<and>
       (\<forall>x \<in> set es. \<forall>a \<in> set (ancestors (e_path x)).
          \<exists>d \<in> set (pre @ e # es). e_path d = a \<and> e_kind d = Directory)"
      using Cons.IH [of "pre @ [e]"] sp nn(1) True by simp
    have "validate_entries (by_path pre) (utf8 ?last) (sum_list (map e_size pre)) (e # es) = Inr m \<longleftrightarrow>
      ?dirs pre \<and> validate_entries (by_path (pre @ [e])) (utf8 (e_path e)) (sum_list (map e_size pre) + e_size e) es = Inr m"
    proof -
      have "\<not> utf8 (e_path e) \<le> utf8 ?last" using True by (simp only: utf8_le_iff not_le)
      moreover have "\<not> max_bytes < sum_list (map e_size pre) + e_size e" using True by simp
      ultimately show ?thesis
        by (simp only: validate_entries.simps Let_def if_False parents index_by_append_one
            split: if_split) blast
    qed
    with ih up show ?thesis by auto
  qed
qed

lemma validate_tree_iff:
  assumes "sizes_nonneg es"
  shows "validate_tree es = Inr u \<longleftrightarrow> tree_ok es"
proof -
  have "validate_entries Map.empty [] 0 es = Inr m \<longleftrightarrow>
     m = by_path es \<and> sorted_wrt (<) ([] # map e_path es) \<and> sum_list (map e_size es) \<le> max_bytes \<and>
     parents_closed es" for m
    using validate_entries_iff [of "[]" es m] assms by (simp add: max_bytes_def parents_closed_def)
  moreover have "sorted_wrt (<) ([] # map e_path es) \<longleftrightarrow> paths_sorted es \<and> [] \<notin> e_path ` set es"
    by (auto simp: paths_sorted_def neq_Nil_conv image_iff)
      (metis Nil_less_Cons list.exhaust)
  ultimately show ?thesis
    by (auto simp: validate_tree_def tree_ok_def links_ok_def split: if_splits)
qed

lemma new_manifest_iff:
  assumes "sizes_nonneg es"
  shows "new_manifest es = Inr m \<longleftrightarrow>
    m = \<lparr>version = 1, entries = es\<rparr> \<and> length es \<le> 100000 \<and> tree_ok es"
  using validate_tree_iff [OF assms] by (auto simp: new_manifest_def split: sum.splits)

lemma new_manifest_Inl: "new_manifest es = Inl e \<Longrightarrow> e = ValidationError"
  by (auto simp: new_manifest_def split: if_splits sum.splits)

lemma new_manifest_entries: "new_manifest es = Inr m \<Longrightarrow> entries m = es"
  by (auto simp: new_manifest_def split: if_splits sum.splits)

lemma validate_entries_sorted:
  "validate_entries m previous acc es = Inr m' \<Longrightarrow> sorted_wrt (<) (previous # map (\<lambda>e. utf8 (e_path e)) es)"
proof (induction es arbitrary: m previous acc)
  case (Cons e es)
  from Cons.prems have "validate_entries (m(e_path e \<mapsto> e)) (utf8 (e_path e)) (acc + e_size e) es = Inr m'"
    and "previous < utf8 (e_path e)"
    by (simp_all only: validate_entries.simps Let_def sum.distinct not_le split: if_splits)
  with Cons.IH show ?case by (fastforce simp del: utf8_less_iff)
qed simp

lemma new_manifest_sorted: "new_manifest es = Inr m \<Longrightarrow> paths_sorted es"
  using validate_entries_sorted [of Map.empty "[]" 0 es]
  by (auto simp: new_manifest_def validate_tree_def paths_sorted_def sorted_wrt_map split: if_splits sum.splits)

end
