(* ===== verification/Links.thy ===== *)
theory Links
  imports Manifest
begin

text \<open>
  What the resolution of a relative link guarantees: it only reads the entries it records as
  dependencies (so it gives the same answer in every tree that agrees on them), and in a checked
  tree its result is an existing entry that is no link and no ancestor of the link.
\<close>

definition keyed :: "(pystr \<rightharpoonup> entry) \<Rightarrow> bool" where
  "keyed m \<longleftrightarrow> (\<forall>k d. m k = Some d \<longrightarrow> e_path d = k)"

definition dirs_closed :: "(pystr \<rightharpoonup> entry) \<Rightarrow> bool" where
  "dirs_closed m \<longleftrightarrow>
     (\<forall>k d. m k = Some d \<longrightarrow> (\<forall>a \<in> set (ancestors k). \<exists>p. m a = Some p \<and> e_kind p = Directory))"

lemma keyed_by_path [simp]: "keyed (by_path es)"
  by (auto simp: keyed_def dest: index_by_Some)

lemma dirs_closed_by_path: "paths_sorted es \<Longrightarrow> parents_closed es \<Longrightarrow> dirs_closed (by_path es)"
  unfolding dirs_closed_def parents_closed_def by (auto simp: by_path_iff)

lemma set_set_default [simp]: "set (set_default ks k) = insert k (set ks)"
  by (auto simp: set_default_def)

lemma distinct_set_default [simp]: "distinct (set_default ks k) \<longleftrightarrow> distinct ks"
  by (auto simp: set_default_def)

lemmas resolve_splits = if_splits option.splits

lemma resolve_from_deps_mono:
  "resolve_from m r p h d = Inr (r', d') \<Longrightarrow> set d \<subseteq> set d'"
proof (induction m r p h d rule: resolve_from.induct)
  case (2 m r c p h d)
  then show ?case by (auto split: resolve_splits)
qed simp

lemma resolve_from_deps_dom:
  "resolve_from m r p h d = Inr (r', d') \<Longrightarrow> keyed m \<Longrightarrow> set d \<subseteq> dom m \<Longrightarrow> set d' \<subseteq> dom m"
proof (induction m r p h d rule: resolve_from.induct)
  case (2 m r c p h d)
  have "e_path t \<in> dom m" if "m k = Some t" for k t
    using that 2(6) by (auto simp: keyed_def)
  with 2 show ?case by (auto split: resolve_splits)
qed simp

lemma resolve_from_agree:
  "resolve_from m r p h d = Inr (r', d') \<Longrightarrow> keyed m \<Longrightarrow> (\<And>k. k \<in> set d' \<Longrightarrow> m' k = m k) \<Longrightarrow>
   resolve_from m' r p h d = Inr (r', d')"
proof (induction m r p h d rule: resolve_from.induct)
  case (2 m r c p h d)
  show ?case
  proof (cases "c = [] \<or> c = dot \<or> c = dotdot")
    case True
    then show ?thesis using 2 by (auto split: if_splits)
  next
    case plain: False
    then obtain t where t: "m (join_with slash (r @ [c])) = Some t"
      using "2.prems"(1) by (auto split: resolve_splits)
    then have key: "e_path t = join_with slash (r @ [c])"
      using "2.prems"(2) by (auto simp: keyed_def)
    have "e_path t \<in> set d'"
      using "2.prems"(1) plain t
      by (auto split: if_splits dest!: resolve_from_deps_mono)
    then have "m' (join_with slash (r @ [c])) = Some t" using "2.prems"(3) t key by simp
    then show ?thesis using 2 plain t by (auto split: if_splits)
  qed
qed simp

lemma resolve_link_agree:
  assumes "resolve_manifest_link e m = Inr (r, deps)" "keyed m" "\<And>k. k \<in> set deps \<Longrightarrow> m' k = m k"
  shows "resolve_manifest_link e m' = Inr (r, deps)"
proof -
  obtain rs where rs: "resolve_from m (butlast (split_on slash (e_path e))) (split_on slash (e_target e)) 0 [] = Inr (rs, deps)"
    using assms(1) by (auto simp: resolve_manifest_link_def Let_def split: if_splits)
  then have "resolve_from m' (butlast (split_on slash (e_path e))) (split_on slash (e_target e)) 0 [] = Inr (rs, deps)"
    using assms(2,3) by (rule resolve_from_agree)
  with rs assms(1) show ?thesis by (auto simp: resolve_manifest_link_def)
qed

text \<open>
  The loop keeps \<open>resolved\<close> at the root or at a directory of the tree; only its last round may
  step on a file or a runtime link.
\<close>

definition at_directory :: "(pystr \<rightharpoonup> entry) \<Rightarrow> pystr list \<Rightarrow> bool" where
  "at_directory m r \<longleftrightarrow>
     r = [] \<or> (\<exists>d. m (join_with slash r) = Some d \<and> e_kind d = Directory)"

definition at_entry :: "(pystr \<rightharpoonup> entry) \<Rightarrow> pystr list \<Rightarrow> bool" where
  "at_entry m r \<longleftrightarrow>
     r = [] \<or> (\<exists>d. m (join_with slash r) = Some d \<and> e_kind d \<noteq> Symlink)"

definition no_slash :: "pystr list \<Rightarrow> bool" where
  "no_slash ws \<longleftrightarrow> (\<forall>w \<in> set ws. slash \<notin> set w)"

lemma no_slash_split [simp]: "no_slash (split_on slash s)"
  by (auto simp: no_slash_def dest: split_on_no_sep)

lemma no_slash_simps [simp]:
  "no_slash []"
  "no_slash (w # ws) \<longleftrightarrow> slash \<notin> set w \<and> no_slash ws"
  "no_slash (us @ vs) \<longleftrightarrow> no_slash us \<and> no_slash vs"
  by (auto simp: no_slash_def)

lemma no_slash_butlast: "no_slash ws \<Longrightarrow> no_slash (butlast ws)"
  by (auto simp: no_slash_def dest: in_set_butlastD)

lemma split_join_no_slash: "no_slash ws \<Longrightarrow> ws \<noteq> [] \<Longrightarrow> split_on slash (join_with slash ws) = ws"
  by (rule split_join) (auto simp: no_slash_def)

lemma butlast_ancestor:
  assumes "no_slash ws" "butlast ws \<noteq> []"
  shows "join_with slash (butlast ws) \<in> set (ancestors (join_with slash ws))"
proof -
  have ne: "ws \<noteq> []" using assms(2) by auto
  have s: "split_on slash (join_with slash ws) = ws"
    "split_on slash (join_with slash (butlast ws)) = butlast ws"
    using assms ne by (simp_all add: split_join_no_slash no_slash_butlast)
  then have "within (join_with slash ws) (join_with slash (butlast ws))"
    unfolding within_split by (metis append_butlast_last_id ne)
  moreover have "join_with slash (butlast ws) \<noteq> join_with slash ws"
    using s by (metis ne append_butlast_last_id self_append_conv not_Cons_self2)
  ultimately show ?thesis by (simp add: set_ancestors)
qed

lemma at_directory_butlast:
  assumes "at_directory m r" "dirs_closed m" "no_slash r"
  shows "at_directory m (butlast r)"
proof (cases "butlast r = []")
  case False
  then have "r \<noteq> []" by auto
  with assms(1) obtain d where "m (join_with slash r) = Some d" by (auto simp: at_directory_def)
  with assms(2) butlast_ancestor [OF assms(3) False] show ?thesis
    by (auto simp: at_directory_def dirs_closed_def)
qed (simp add: at_directory_def)

lemma resolve_from_at_entry:
  "resolve_from m r p h d = Inr (r', d') \<Longrightarrow> dirs_closed m \<Longrightarrow> no_slash r \<Longrightarrow> no_slash p \<Longrightarrow>
   (if p = [] then at_entry m r else at_directory m r) \<Longrightarrow> at_entry m r' \<and> no_slash r'"
proof (induction m r p h d rule: resolve_from.induct)
  case (2 m r c p h d)
  have weaken: "if q = [] then at_entry m s else at_directory m s" if "at_directory m s" for q s
    using that by (auto simp: at_directory_def at_entry_def)
  have dir: "at_directory m r" using "2.prems"(5) by simp
  show ?case
  proof (cases "c = [] \<or> c = dot")
    case True
    with 2 weaken [OF dir] show ?thesis by auto
  next
    case c1: False
    show ?thesis
    proof (cases "c = dotdot")
      case True
      with c1 2 weaken [OF at_directory_butlast [OF dir "2.prems"(2,3)]] show ?thesis
        by (auto split: if_splits simp: no_slash_butlast)
    next
      case c2: False
      with c1 obtain t where t: "m (join_with slash (r @ [c])) = Some t"
        using "2.prems"(1) by (auto split: resolve_splits)
      show ?thesis
      proof (cases "e_kind t = Symlink")
        case True
        have "split_on slash (e_target t) @ p \<noteq> []" by simp
        with True c1 c2 t 2 dir show ?thesis by (auto split: if_splits)
      next
        case False
        have "if p = [] then at_entry m (r @ [c]) else at_directory m (r @ [c])"
          using "2.prems"(1) c1 c2 t False by (auto simp: at_entry_def at_directory_def split: if_splits)
        with False c1 c2 t 2 show ?thesis by (auto split: if_splits)
      qed
    qed
  qed
qed simp

lemma resolve_link_target:
  assumes r: "resolve_manifest_link e m = Inr (r, deps)"
    and e: "m (e_path e) = Some e" "e_kind e = Symlink" and m: "keyed m" "dirs_closed m"
  shows "\<exists>t. m r = Some t \<and> e_kind t \<noteq> Symlink" "\<not> within (e_path e) r" "set deps \<subseteq> dom m"
proof -
  let ?parts = "split_on slash (e_path e)"
  obtain rs where rs: "resolve_from m (butlast ?parts) (split_on slash (e_target e)) 0 [] = Inr (rs, deps)"
    and ne: "rs \<noteq> []" and req: "r = join_with slash rs" and na: "\<not> starts_with (e_path e) (r @ [slash])"
    using r by (auto simp: resolve_manifest_link_def Let_def split: if_splits)
  have "at_directory m (butlast ?parts)"
  proof (cases "butlast ?parts = []")
    case False
    with butlast_ancestor [OF no_slash_split this] e(1) m(2) show ?thesis
      by (auto simp: at_directory_def dirs_closed_def)
  qed (simp add: at_directory_def)
  then have "at_entry m rs"
    using resolve_from_at_entry [OF rs m(2)] by (simp add: no_slash_butlast)
  with ne req show t: "\<exists>t. m r = Some t \<and> e_kind t \<noteq> Symlink"
    by (auto simp: at_entry_def)
  with e have "r \<noteq> e_path e" by auto
  with na show "\<not> within (e_path e) r" by (auto simp: within_def)
  show "set deps \<subseteq> dom m"
    using resolve_from_deps_dom [OF rs m(1)] by simp
qed

text \<open>Resolution in a subtree that keeps the recorded dependencies, and in a supertree.\<close>

lemma resolve_link_by_path_agree:
  assumes "resolve_manifest_link e (by_path es) = Inr (r, deps)"
    and "paths_sorted es" "paths_sorted es'"
    and "\<And>k x. k \<in> set deps \<Longrightarrow> x \<in> set es \<Longrightarrow> e_path x = k \<Longrightarrow> x \<in> set es'"
  shows "resolve_manifest_link e (by_path es') = Inr (r, deps)"
proof (rule resolve_link_agree [OF assms(1)])
  fix k assume k: "k \<in> set deps"
  obtain rs where "resolve_from (by_path es) (butlast (split_on slash (e_path e))) (split_on slash (e_target e)) 0 [] = Inr (rs, deps)"
    using assms(1) by (auto simp: resolve_manifest_link_def Let_def split: if_splits)
  then have "set deps \<subseteq> dom (by_path es)" by (rule resolve_from_deps_dom) auto
  with k obtain x where x: "by_path es k = Some x" by blast
  then have "x \<in> set es'" "e_path x = k" using assms(4) [OF k] by (auto dest: index_by_Some)
  then have "by_path es' k = Some x" by (simp add: by_path_iff assms(3))
  with x show "by_path es' k = by_path es k" by simp
qed simp

section \<open>Properties\<close>

text \<open>
  C37. In a checked manifest every relative link resolves, inside the manifest, to an existing
  entry that is itself no relative link, that is neither the link nor an ancestor directory of it,
  through dependencies that are all entries of the manifest. So no stored tree holds a dangling
  link, a link cycle or a link out of the tree.
\<close>

theorem manifest_links_resolve:
  assumes "manifest_ok nfc m" "e \<in> set (entries m)" "e_kind e = Symlink"
  shows "\<exists>r deps t. resolve_manifest_link e (by_path (entries m)) = Inr (r, deps) \<and>
    t \<in> set (entries m) \<and> e_path t = r \<and> e_kind t \<noteq> Symlink \<and> \<not> within (e_path e) r \<and>
    set deps \<subseteq> e_path ` set (entries m)"
proof -
  have "sizes_nonneg (entries m)"
    using assms(1) by (auto simp: manifest_ok_def sizes_nonneg_def list_all_iff dest: entry_ok_size)
  then have ok: "tree_ok (entries m)"
    using assms(1) by (auto simp: manifest_ok_def new_manifest_iff)
  then have s: "paths_sorted (entries m)" and p: "parents_closed (entries m)"
    by (simp_all add: tree_ok_def)
  from ok assms(2,3) obtain r deps where r: "resolve_manifest_link e (by_path (entries m)) = Inr (r, deps)"
    by (fastforce simp: tree_ok_def links_ok_def)
  have e: "by_path (entries m) (e_path e) = Some e" using s assms(2) by (simp add: by_path_iff)
  note t = resolve_link_target [OF r e assms(3) keyed_by_path dirs_closed_by_path [OF s p]]
  with r s show ?thesis by (auto simp: by_path_iff dom_index_by)
qed

end
