(* ===== verification/Samples.thy ===== *)
theory Samples
  imports Links
begin

text \<open>
  Small concrete trees used as inputs of the witnesses: the ASCII test stands for the NFC test
  (every ASCII text is NFC normalized).
\<close>

definition ascii :: "pystr \<Rightarrow> bool" where
  "ascii s \<longleftrightarrow> list_all (\<lambda>c. c < 128) s"

definition s_dir :: "pystr \<Rightarrow> entry" where
  "s_dir p = \<lparr>e_path = p, e_kind = Directory, e_mode = 493, e_size = 0, e_sha256 = [], e_target = [],
     e_content = No_content, e_dependency = []\<rparr>"

definition s_file :: "pystr \<Rightarrow> nat \<Rightarrow> entry" where
  "s_file p digit = \<lparr>e_path = p, e_kind = File, e_mode = 420, e_size = 5,
     e_sha256 = replicate 64 (48 + digit), e_target = [], e_content = Text, e_dependency = []\<rparr>"

definition s_link :: "pystr \<Rightarrow> pystr \<Rightarrow> entry" where
  "s_link p t = \<lparr>e_path = p, e_kind = Symlink, e_mode = 511, e_size = 0, e_sha256 = [], e_target = t,
     e_content = No_content, e_dependency = []\<rparr>"

text \<open>A directory \<open>a\<close> with a file \<open>a/f\<close> and a link \<open>a/l\<close> to it.\<close>

definition s_tree :: manifest where
  "s_tree = \<lparr>version = 1, entries = [s_dir [97], s_file [97, 47, 102] 1, s_link [97, 47, 108] [102]]\<rparr>"

lemma s_tree_ok: "manifest_ok ascii s_tree"
  by code_simp

theorem manifest_links_resolve_witness:
  "\<exists>r deps t. resolve_manifest_link (s_link [97, 47, 108] [102]) (by_path (entries s_tree)) = Inr (r, deps) \<and>
    t \<in> set (entries s_tree) \<and> e_path t = r \<and> e_kind t \<noteq> Symlink \<and> \<not> within [97, 47, 108] r \<and>
    set deps \<subseteq> e_path ` set (entries s_tree)"
proof -
  have "s_link [97, 47, 108] [102] \<in> set (entries s_tree)" by (simp add: s_tree_def)
  moreover have "e_kind (s_link [97, 47, 108] [102]) = Symlink" by (simp add: s_link_def)
  ultimately show ?thesis
    using manifest_links_resolve [OF s_tree_ok, of "s_link [97, 47, 108] [102]"] by (simp add: s_link_def)
qed

end
