(* ===== verification/Merge.thy ===== *)
theory Merge
  imports Samples
begin

text \<open>
  The conservative three-way merge of one tree (\<open>skill_manager/merge.py\<close>, result types of
  \<open>schemas/skill_merge.py\<close>): a path changed on one side takes that side, a path changed on both
  sides differently is a conflict, a change of opaque data (binary files, databases) beside any
  other divergence conflicts as a whole, and a result with a conflict carries no tree.
\<close>

datatype merge_reason = Changed_both | Opaque_divergence | Invalid_tree | Source_conflict

record conflict =
  c_path :: pystr
  c_reason :: merge_reason
  c_unit :: "pystr list"

record merge_result =
  merged :: "manifest option"
  conflicts :: "conflict list"

definition merged_result :: "manifest \<Rightarrow> merge_result" where
  "merged_result m = \<lparr>merged = Some m, conflicts = []\<rparr>"

definition conflict_result :: "conflict list \<Rightarrow> merge_result" where
  "conflict_result cs = \<lparr>merged = None, conflicts = cs\<rparr>"

text \<open>
  \<open>str.lower\<close> on ASCII. Outside ASCII only U+0130 and U+212A lower to text that contains an ASCII
  letter (\<open>i\<close> with a combining dot, and \<open>k\<close>), and no suffix below contains \<open>k\<close> or ends
  in \<open>i\<close>, so the suffix test is the source's.
\<close>

definition lower_char :: "nat \<Rightarrow> nat" where
  "lower_char c = (if 65 \<le> c \<and> c \<le> 90 then c + 32 else c)"

definition opaque_suffixes :: "pystr list" where
  "opaque_suffixes =
     map lit [''.db'', ''.sqlite'', ''.sqlite3'', ''-wal'', ''-shm'', ''-journal'']"

definition opaque_entry :: "entry \<Rightarrow> bool" where
  "opaque_entry e \<longleftrightarrow>
     e_kind e = File \<and>
     (let name = map lower_char (last (split_on slash (e_path e))) in
      e_content e = Binary \<or> list_ex (ends_with name) opaque_suffixes)"

definition opaque_change :: "pystr list \<Rightarrow> (pystr \<rightharpoonup> entry) \<Rightarrow> (pystr \<rightharpoonup> entry) \<Rightarrow> bool" where
  "opaque_change paths base branch \<longleftrightarrow>
     list_ex (\<lambda>p. base p \<noteq> branch p \<and>
       ((case base p of None \<Rightarrow> False | Some e \<Rightarrow> opaque_entry e) \<or>
        (case branch p of None \<Rightarrow> False | Some e \<Rightarrow> opaque_entry e))) paths"

text \<open>\<open>sorted(a.keys() | b.keys() | c.keys(), key=str.encode)\<close>\<close>

definition sorted_paths :: "manifest list \<Rightarrow> pystr list" where
  "sorted_paths ms = sort_key utf8 (remdups (concat (map (\<lambda>m. map e_path (entries m)) ms)))"

fun merge_paths ::
  "(pystr \<rightharpoonup> entry) \<Rightarrow> (pystr \<rightharpoonup> entry) \<Rightarrow> (pystr \<rightharpoonup> entry) \<Rightarrow> pystr list \<Rightarrow> entry list \<times> conflict list"
where
  "merge_paths original left right [] = ([], [])"
| "merge_paths original left right (p # ps) =
     (let old = original p; ours = left p; theirs = right p;
          (ms, cs) = merge_paths original left right ps;
          keep = (\<lambda>selected. case selected of None \<Rightarrow> ms | Some e \<Rightarrow> e # ms)
      in if ours = theirs \<or> theirs = old then (keep ours, cs)
         else if ours = old then (keep theirs, cs)
         else (ms, \<lparr>c_path = p, c_reason = Changed_both, c_unit = []\<rparr> # cs))"

definition merge_manifests :: "manifest \<Rightarrow> manifest \<Rightarrow> manifest \<Rightarrow> merge_result" where
  "merge_manifests base current incoming =
     (if current = incoming \<or> incoming = base then merged_result current
      else if current = base then merged_result incoming
      else
        (let original = by_path (entries base); left = by_path (entries current);
             right = by_path (entries incoming)
         in if opaque_change (sorted_paths [base, current]) original left \<or>
               opaque_change (sorted_paths [base, incoming]) original right
            then conflict_result [\<lparr>c_path = dot, c_reason = Opaque_divergence, c_unit = []\<rparr>]
            else (case merge_paths original left right (sorted_paths [base, current, incoming]) of
                (ms, []) \<Rightarrow>
                  (case new_manifest ms of
                      Inl _ \<Rightarrow> conflict_result [\<lparr>c_path = dot, c_reason = Invalid_tree, c_unit = []\<rparr>]
                    | Inr m \<Rightarrow> merged_result m)
              | (_, cs) \<Rightarrow> conflict_result cs)))"

section \<open>The path loop\<close>

text \<open>One path of the merge, and whether it conflicts.\<close>

definition three_way :: "'a \<Rightarrow> 'a \<Rightarrow> 'a \<Rightarrow> 'a" where
  "three_way old ours theirs = (if ours = theirs \<or> theirs = old then ours else theirs)"

definition both_changed :: "'a \<Rightarrow> 'a \<Rightarrow> 'a \<Rightarrow> bool" where
  "both_changed old ours theirs \<longleftrightarrow> ours \<noteq> theirs \<and> theirs \<noteq> old \<and> ours \<noteq> old"

lemma three_way_commute: "\<not> both_changed old a b \<Longrightarrow> three_way old a b = three_way old b a"
  by (auto simp: three_way_def both_changed_def)

lemma both_changed_commute: "both_changed old a b \<longleftrightarrow> both_changed old b a"
  by (auto simp: both_changed_def)

definition conflict_at :: "pystr \<Rightarrow> conflict" where
  "conflict_at p = \<lparr>c_path = p, c_reason = Changed_both, c_unit = []\<rparr>"

lemma merge_paths_eq:
  "merge_paths old l r ps =
     (List.map_filter (\<lambda>p. if both_changed (old p) (l p) (r p) then None
                      else three_way (old p) (l p) (r p)) ps,
      map conflict_at (filter (\<lambda>p. both_changed (old p) (l p) (r p)) ps))"
  by (induction ps)
    (auto simp: Let_def three_way_def both_changed_def conflict_at_def List.map_filter_simps
      split: option.splits)

lemma merge_paths_commute: "merge_paths old l r ps = merge_paths old r l ps"
proof -
  have "(if both_changed (old p) (l p) (r p) then None else three_way (old p) (l p) (r p)) =
    (if both_changed (old p) (r p) (l p) then None else three_way (old p) (r p) (l p))" for p
    by (auto simp: three_way_commute both_changed_commute)
  then show ?thesis by (simp add: merge_paths_eq both_changed_commute)
qed

lemma set_sorted_paths [simp]: "set (sorted_paths ms) = (\<Union>m \<in> set ms. e_path ` set (entries m))"
  by (auto simp: sorted_paths_def)

lemma sorted_sorted_paths: "sorted_wrt (<) (sorted_paths ms)"
  by (simp add: sorted_paths_def strict_sorted_iff)

lemma sorted_paths_cong:
  "(\<Union>m \<in> set ms. e_path ` set (entries m)) = (\<Union>m \<in> set ms'. e_path ` set (entries m)) \<Longrightarrow>
   sorted_paths ms = sorted_paths ms'"
  by (rule strict_sorted_equal [OF sorted_sorted_paths sorted_sorted_paths]) simp

lemma merge_manifests_commute_aux:
  "current \<noteq> incoming \<Longrightarrow> merge_manifests base current incoming = merge_manifests base incoming current"
proof -
  assume ne: "current \<noteq> incoming"
  have s: "sorted_paths [base, current, incoming] = sorted_paths [base, incoming, current]"
    by (rule sorted_paths_cong) auto
  show ?thesis
    using ne by (auto simp: merge_manifests_def Let_def s merge_paths_commute [of _ "by_path (entries current)"])
qed

section \<open>The merged tree\<close>

text \<open>A manifest whose entries are checked, in the declarative form the proofs use.\<close>

definition wf_tree :: "(pystr \<Rightarrow> bool) \<Rightarrow> entry list \<Rightarrow> bool" where
  "wf_tree nfc es \<longleftrightarrow> length es \<le> 100000 \<and> tree_ok es \<and> list_all (entry_ok nfc) es"

lemma wf_tree_sizes: "wf_tree nfc es \<Longrightarrow> sizes_nonneg es"
  by (auto simp: wf_tree_def sizes_nonneg_def list_all_iff dest: entry_ok_size)

lemma manifest_ok_iff:
  "manifest_ok nfc m \<longleftrightarrow> version m = 1 \<and> wf_tree nfc (entries m)"
proof -
  have "list_all (entry_ok nfc) (entries m) \<Longrightarrow> sizes_nonneg (entries m)"
    by (auto simp: sizes_nonneg_def list_all_iff dest: entry_ok_size)
  then show ?thesis
    by (cases m) (auto simp: manifest_ok_def wf_tree_def new_manifest_iff)
qed

lemma wf_tree_sorted: "wf_tree nfc es \<Longrightarrow> paths_sorted es"
  by (simp add: wf_tree_def tree_ok_def)

lemma manifest_eq_iff:
  "manifest_ok nfc m \<Longrightarrow> manifest_ok nfc m' \<Longrightarrow> m = m' \<longleftrightarrow> by_path (entries m) = by_path (entries m')"
  by (cases m; cases m') (auto simp: manifest_ok_iff dest: wf_tree_sorted intro: paths_sorted_by_path_unique)

lemma sorted_map_filter_paths:
  assumes "sorted_wrt (<) ps" "\<And>p e. f p = Some e \<Longrightarrow> e_path e = p"
  shows "paths_sorted (List.map_filter f ps)"
proof -
  have "map e_path (List.map_filter f ps) = filter (\<lambda>p. f p \<noteq> None) ps"
    by (induction ps) (auto simp: List.map_filter_simps assms(2) split: option.splits)
  with assms(1) show ?thesis by (simp add: paths_sorted_def sorted_wrt_filter)
qed

lemma set_map_filter: "set (List.map_filter f ps) = {e. \<exists>p \<in> set ps. f p = Some e}"
  by (induction ps) (auto simp: List.map_filter_simps split: option.splits)

lemma by_path_map_filter:
  assumes "sorted_wrt (<) ps" "\<And>p e. f p = Some e \<Longrightarrow> e_path e = p \<and> p \<in> set ps"
  shows "by_path (List.map_filter f ps) = f"
proof
  fix p
  have s: "paths_sorted (List.map_filter f ps)"
    using assms by (intro sorted_map_filter_paths) auto
  show "by_path (List.map_filter f ps) p = f p"
  proof (cases "f p")
    case None
    then have "p \<notin> e_path ` set (List.map_filter f ps)" using assms(2) by (auto simp: set_map_filter)
    then have "by_path (List.map_filter f ps) p = None" by (simp only: index_by_None_iff not_False_eq_True)
    with None show ?thesis by simp
  next
    case (Some e)
    with assms(2) show ?thesis by (auto simp: by_path_iff [OF s] set_map_filter)
  qed
qed

lemma merge_manifests_merged_cases:
  assumes "merged (merge_manifests base current incoming) = Some m"
    and sorted: "paths_sorted (entries base)" "paths_sorted (entries current)" "paths_sorted (entries incoming)"
  shows "(m = current \<or> m = incoming \<or> new_manifest (entries m) = Inr m) \<and> paths_sorted (entries m) \<and>
    (\<forall>p. \<not> both_changed (by_path (entries base) p) (by_path (entries current) p) (by_path (entries incoming) p)) \<and>
    by_path (entries m) = (\<lambda>p. three_way (by_path (entries base) p) (by_path (entries current) p) (by_path (entries incoming) p))"
proof (cases "current = incoming \<or> incoming = base \<or> current = base")
  case True
  then have "m = (if current = incoming \<or> incoming = base then current else incoming)"
    using assms(1) by (auto simp: merge_manifests_def merged_result_def)
  with True sorted show ?thesis by (auto simp: both_changed_def three_way_def split: if_splits)
next
  case False
  let ?b = "by_path (entries base)" and ?l = "by_path (entries current)" and ?r = "by_path (entries incoming)"
  let ?ps = "sorted_paths [base, current, incoming]"
  let ?f = "\<lambda>p. if both_changed (?b p) (?l p) (?r p) then None else three_way (?b p) (?l p) (?r p)"
  have nm: "new_manifest (List.map_filter ?f ?ps) = Inr m"
    and nc: "filter (\<lambda>p. both_changed (?b p) (?l p) (?r p)) ?ps = []"
    using assms(1) False
    by (auto simp: merge_manifests_def Let_def merge_paths_eq conflict_result_def merged_result_def
        split: if_splits list.splits sum.splits)
  have no_entry: "?b p = None \<and> ?l p = None \<and> ?r p = None" if "p \<notin> set ?ps" for p
    using that by (simp add: index_by_None_iff)
  have nb: "\<not> both_changed (?b p) (?l p) (?r p)" for p
    using nc no_entry [of p] by (cases "p \<in> set ?ps") (auto simp: filter_empty_conv both_changed_def)
  have f: "?f = (\<lambda>p. three_way (?b p) (?l p) (?r p))" using nb by auto
  have key: "e_path e = p \<and> p \<in> set ?ps" if e: "?f p = Some e" for p e
  proof -
    from e have "?l p = Some e \<or> ?r p = Some e" by (auto simp: three_way_def split: if_splits)
    moreover from this have "p \<in> set ?ps"
      by (rule contrapos_pp) (use no_entry [of p] in \<open>simp del: set_sorted_paths\<close>)
    ultimately show "e_path e = p \<and> p \<in> set ?ps" by (auto dest: index_by_Some)
  qed
  have "by_path (List.map_filter ?f ?ps) = ?f"
    by (rule by_path_map_filter [OF sorted_sorted_paths key])
  moreover have "paths_sorted (List.map_filter ?f ?ps)"
    by (rule sorted_map_filter_paths [OF sorted_sorted_paths]) (use key in blast)
  ultimately show ?thesis using nm nb f new_manifest_entries [OF nm] by auto
qed

lemma merge_manifests_result:
  "(\<exists>m. merge_manifests base current incoming = merged_result m) \<or>
   (\<exists>c cs. merge_manifests base current incoming = conflict_result (c # cs))"
  by (auto simp: merge_manifests_def Let_def split: list.splits sum.splits prod.splits)

lemma merged_NoneE:
  assumes "merged (merge_manifests base current incoming) = None"
  obtains c cs where "merge_manifests base current incoming = conflict_result (c # cs)"
  using assms merge_manifests_result [of base current incoming] by (auto simp: merged_result_def)

section \<open>Properties\<close>

text \<open>
  C8. No update is lost: when the merge returns a tree, every path that either side changed has
  that side's entry (or is deleted as that side deleted it), and every path neither side changed
  keeps the base entry.
\<close>

theorem merge_no_lost_update:
  assumes "manifest_ok nfc base" "manifest_ok nfc current" "manifest_ok nfc incoming"
    and "merged (merge_manifests base current incoming) = Some m"
  shows "\<forall>p.
    (by_path (entries current) p = by_path (entries base) p \<or> by_path (entries m) p = by_path (entries current) p) \<and>
    (by_path (entries incoming) p = by_path (entries base) p \<or> by_path (entries m) p = by_path (entries incoming) p) \<and>
    (by_path (entries m) p = by_path (entries current) p \<or> by_path (entries m) p = by_path (entries incoming) p)"
proof
  fix p
  note m = merge_manifests_merged_cases [OF assms(4)]
  have "paths_sorted (entries base)" "paths_sorted (entries current)" "paths_sorted (entries incoming)"
    using assms(1-3) by (auto simp: manifest_ok_iff dest: wf_tree_sorted)
  from m [OF this] show "
    (by_path (entries current) p = by_path (entries base) p \<or> by_path (entries m) p = by_path (entries current) p) \<and>
    (by_path (entries incoming) p = by_path (entries base) p \<or> by_path (entries m) p = by_path (entries incoming) p) \<and>
    (by_path (entries m) p = by_path (entries current) p \<or> by_path (entries m) p = by_path (entries incoming) p)"
    by (auto simp: three_way_def both_changed_def)
qed

text \<open>
  The merge does not depend on which side is called current: swapping the two sides gives the
  same result, tree and conflicts included, for any three manifests.
\<close>

theorem merge_manifests_commute:
  "merge_manifests base current incoming = merge_manifests base incoming current"
proof (cases "current = incoming")
  case False
  then show ?thesis by (rule merge_manifests_commute_aux)
qed simp

text \<open>
  Atomicity: the merge returns either a tree and no conflict, or at least one conflict and no
  tree; it never exposes a partial tree and never fails silently.
\<close>

theorem merge_atomic:
  "(merged (merge_manifests base current incoming) = None) = (conflicts (merge_manifests base current incoming) \<noteq> [])"
  using merge_manifests_result [of base current incoming]
  by (auto simp: merged_result_def conflict_result_def)

lemma entry_ok_by_path: "wf_tree nfc es \<Longrightarrow> by_path es p = Some e \<Longrightarrow> entry_ok nfc e"
  by (auto simp: wf_tree_def list_all_iff dest: index_by_Some)

lemma merge_manifests_ok:
  assumes "manifest_ok nfc base" "manifest_ok nfc current" "manifest_ok nfc incoming"
    and "merged (merge_manifests base current incoming) = Some m"
  shows "manifest_ok nfc m"
proof -
  have s: "paths_sorted (entries base)" "paths_sorted (entries current)" "paths_sorted (entries incoming)"
    using assms(1-3) by (auto simp: manifest_ok_iff dest: wf_tree_sorted)
  note m = merge_manifests_merged_cases [OF assms(4) s]
  show ?thesis
  proof (cases "m = current \<or> m = incoming")
    case True
    with assms show ?thesis by blast
  next
    case False
    with m have nm: "new_manifest (entries m) = Inr m" by blast
    from m have s: "paths_sorted (entries m)" by blast
    have "entry_ok nfc e" if "e \<in> set (entries m)" for e
    proof -
      have "by_path (entries m) (e_path e) = Some e" using s that by (simp add: by_path_iff)
      with m have "by_path (entries current) (e_path e) = Some e \<or> by_path (entries incoming) (e_path e) = Some e"
        by (auto simp: three_way_def split: if_splits)
      with assms(2,3) show ?thesis by (auto simp: manifest_ok_iff dest: entry_ok_by_path)
    qed
    with nm show ?thesis by (simp add: manifest_ok_def list_all_iff)
  qed
qed

text \<open>
  A merged tree is again a checked manifest: ordered, with explicit parents, bounded, with
  every link resolvable, and made of checked entries only.
\<close>

theorem merge_result_valid:
  assumes "manifest_ok nfc base" "manifest_ok nfc current" "manifest_ok nfc incoming"
    and "merged (merge_manifests base current incoming) = Some m"
  shows "manifest_ok nfc m"
  using assms by (rule merge_manifests_ok)

text \<open>
  Without an opaque change the reported path conflicts are exactly the paths that both sides
  changed differently, in byte order and each once.
\<close>

theorem merge_conflicts_exact:
  assumes "\<not> opaque_change (sorted_paths [base, current]) (by_path (entries base)) (by_path (entries current))"
    and "\<not> opaque_change (sorted_paths [base, incoming]) (by_path (entries base)) (by_path (entries incoming))"
  shows "map c_path (filter (\<lambda>c. c_reason c = Changed_both) (conflicts (merge_manifests base current incoming))) =
    filter (\<lambda>p. by_path (entries current) p \<noteq> by_path (entries incoming) p \<and>
                by_path (entries incoming) p \<noteq> by_path (entries base) p \<and>
                by_path (entries current) p \<noteq> by_path (entries base) p)
      (sorted_paths [base, current, incoming])"
proof -
  let ?bad = "\<lambda>p. both_changed (by_path (entries base) p) (by_path (entries current) p) (by_path (entries incoming) p)"
  have at: "map c_path (filter (\<lambda>c. c_reason c = Changed_both) (map conflict_at ps)) = ps" for ps
    by (induction ps) (simp_all add: conflict_at_def)
  have "map c_path (filter (\<lambda>c. c_reason c = Changed_both) (conflicts (merge_manifests base current incoming))) =
    filter ?bad (sorted_paths [base, current, incoming])"
  proof (cases "current = incoming \<or> incoming = base \<or> current = base")
    case True
    then show ?thesis
      by (auto simp: merge_manifests_def merged_result_def both_changed_def filter_empty_conv)
  next
    case False
    then show ?thesis
      using assms at [of "filter ?bad (sorted_paths [base, current, incoming])"]
      by (auto simp: merge_manifests_def Let_def merge_paths_eq conflict_result_def merged_result_def
          split: list.split sum.split)
  qed
  then show ?thesis by (simp add: both_changed_def)
qed

text \<open>
  Opaque data is never merged path by path: when both sides left the base and differ from each
  other, one changed path whose old or new entry is a binary or database file turns the whole merge
  into the single opaque conflict.
\<close>

theorem merge_opaque_guard:
  assumes "current \<noteq> incoming" "incoming \<noteq> base" "current \<noteq> base"
    and "by_path (entries base) p \<noteq> by_path (entries branch) p" "branch = current \<or> branch = incoming"
    and "by_path (entries base) p = Some e \<or> by_path (entries branch) p = Some e" "opaque_entry e"
  shows "merge_manifests base current incoming =
    conflict_result [\<lparr>c_path = dot, c_reason = Opaque_divergence, c_unit = []\<rparr>]"
proof -
  have "p \<in> e_path ` set (entries base) \<union> e_path ` set (entries branch)"
    using assms(6) by (auto dest!: index_by_Some)
  then have "opaque_change (sorted_paths [base, branch]) (by_path (entries base)) (by_path (entries branch))"
    using assms(4,6,7) by (auto simp: opaque_change_def list_ex_iff intro!: bexI [of _ p])
  with assms(1,2,3,5) show ?thesis by (auto simp: merge_manifests_def Let_def)
qed

section \<open>Witnesses\<close>

text \<open>Two directories; the current side edits \<open>a/f\<close>, the incoming side deletes \<open>b\<close>.\<close>

definition m_base :: manifest where
  "m_base = \<lparr>version = 1, entries = [s_dir [97], s_file [97, 47, 102] 1, s_dir [98]]\<rparr>"

definition m_current :: manifest where
  "m_current = \<lparr>version = 1, entries = [s_dir [97], s_file [97, 47, 102] 2, s_dir [98]]\<rparr>"

definition m_incoming :: manifest where
  "m_incoming = \<lparr>version = 1, entries = [s_dir [97], s_file [97, 47, 102] 1]\<rparr>"

definition m_merged :: manifest where
  "m_merged = \<lparr>version = 1, entries = [s_dir [97], s_file [97, 47, 102] 2]\<rparr>"

lemma m_ok: "manifest_ok ascii m_base" "manifest_ok ascii m_current" "manifest_ok ascii m_incoming"
  by code_simp+

lemma m_merge: "merged (merge_manifests m_base m_current m_incoming) = Some m_merged"
  by code_simp

theorem merge_no_lost_update_witness:
  "by_path (entries m_merged) [97, 47, 102] = by_path (entries m_current) [97, 47, 102] \<and>
   by_path (entries m_merged) [98] = None"
proof -
  have d: "by_path (entries m_current) [97, 47, 102] \<noteq> by_path (entries m_base) [97, 47, 102]"
    "by_path (entries m_incoming) [98] \<noteq> by_path (entries m_base) [98]"
    "by_path (entries m_incoming) [98] = None"
    by code_simp+
  note u = merge_no_lost_update [OF m_ok m_merge, rule_format]
  from u [of "[97, 47, 102]"] u [of "[98]"] d show ?thesis by (simp only: simp_thms)
qed

theorem merge_result_valid_witness: "manifest_ok ascii m_merged"
  by (rule merge_result_valid [OF m_ok m_merge])

theorem merge_conflicts_exact_witness:
  "map c_path (filter (\<lambda>c. c_reason c = Changed_both)
     (conflicts (merge_manifests m_base m_current \<lparr>version = 1, entries = [s_dir [97], s_file [97, 47, 102] 3]\<rparr>)))
   = [[97, 47, 102]]"
proof -
  let ?i = "\<lparr>version = 1, entries = [s_dir [97], s_file [97, 47, 102] 3]\<rparr>"
  have "\<not> opaque_change (sorted_paths [m_base, m_current]) (by_path (entries m_base)) (by_path (entries m_current))"
    "\<not> opaque_change (sorted_paths [m_base, ?i]) (by_path (entries m_base)) (by_path (entries ?i))"
    by code_simp+
  note e = merge_conflicts_exact [OF this]
  show ?thesis unfolding e by code_simp
qed

theorem merge_opaque_guard_witness:
  "merge_manifests m_base m_current
     \<lparr>version = 1, entries = [s_dir [97], s_file [97, 47, 102] 1, s_dir [98], s_file [98, 47, 120, 46, 68, 66] 4]\<rparr>
   = conflict_result [\<lparr>c_path = dot, c_reason = Opaque_divergence, c_unit = []\<rparr>]"
  (is "merge_manifests _ _ ?i = _")
proof -
  let ?p = "[98, 47, 120, 46, 68, 66]"
  have "m_current \<noteq> ?i" "?i \<noteq> m_base" "m_current \<noteq> m_base"
    "by_path (entries m_base) ?p \<noteq> by_path (entries ?i) ?p"
    "by_path (entries ?i) ?p = Some (s_file ?p 4)" "opaque_entry (s_file ?p 4)"
    by code_simp+
  then show ?thesis by (intro merge_opaque_guard [of m_current ?i m_base ?p ?i "s_file ?p 4"]) simp_all
qed

end
