(* ===== verification/Scopes.thy ===== *)
theory Scopes
  imports Prelude
begin

text \<open>
  The union-find of \<open>skill_manager/directory_merge.py\<close> (class \<open>_ConnectedScopes\<close>): a dict from
  scope to parent, \<open>root\<close> with its two loops (find, then path compression), \<open>connect\<close>, which
  hangs the larger root under the smaller, and \<open>units\<close>. The loops have fuel, the number of scopes:
  along a chain the parents strictly decrease, so a chain visits no scope twice; the lemmas show
  that the fuel is never used up.
\<close>

type_synonym parents = "(pystr \<times> pystr) list"

definition new_scopes :: "pystr list \<Rightarrow> parents" where
  "new_scopes scopes = map (\<lambda>s. (s, s)) scopes"

fun find_root :: "nat \<Rightarrow> parents \<Rightarrow> pystr \<Rightarrow> pystr res" where
  "find_root 0 ps root = Inl Diverges"
| "find_root (Suc n) ps root =
     (case map_of ps root of
        None \<Rightarrow> Inl KeyError
      | Some p \<Rightarrow> if p \<noteq> root then find_root n ps p else Inr root)"

fun compress :: "nat \<Rightarrow> parents \<Rightarrow> pystr \<Rightarrow> pystr \<Rightarrow> parents res" where
  "compress 0 ps root scope = (if scope \<noteq> root then Inl Diverges else Inr ps)"
| "compress (Suc n) ps root scope =
     (if scope \<noteq> root
      then (case map_of ps scope of
          None \<Rightarrow> Inl KeyError
        | Some parent \<Rightarrow> compress n (AList.update scope root ps) root parent)
      else Inr ps)"

definition root :: "parents \<Rightarrow> pystr \<Rightarrow> (pystr \<times> parents) res" where
  "root ps scope =
     bind_res (find_root (Suc (length ps)) ps scope)
       (\<lambda>r. bind_res (compress (Suc (length ps)) ps r scope) (\<lambda>ps'. Inr (r, ps')))"

definition connect :: "parents \<Rightarrow> pystr \<Rightarrow> pystr \<Rightarrow> parents res" where
  "connect ps left right =
     bind_res (root ps left) (\<lambda>(a, ps1).
       bind_res (root ps1 right) (\<lambda>(b, ps2).
         Inr (if a \<noteq> b then AList.update (max a b) (min a b) ps2 else ps2)))"

fun group_scopes ::
  "pystr list \<Rightarrow> parents \<Rightarrow> (pystr \<times> pystr list) list \<Rightarrow> ((pystr \<times> pystr list) list) res"
where
  "group_scopes [] ps groups = Inr groups"
| "group_scopes (scope # scopes) ps groups =
     bind_res (root ps scope) (\<lambda>(r, ps').
       group_scopes scopes ps'
         (AList.update r ((case map_of groups r of None \<Rightarrow> [] | Some g \<Rightarrow> g) @ [scope]) groups))"

definition units :: "parents \<Rightarrow> (pystr list list) res" where
  "units ps =
     bind_res (group_scopes (map fst ps) ps [])
       (\<lambda>groups. Inr (sort_key (map utf8) (map (\<lambda>g. sort_key utf8 (snd g)) groups)))"

section \<open>Representatives\<close>

inductive root_of :: "(pystr \<rightharpoonup> pystr) \<Rightarrow> pystr \<Rightarrow> pystr \<Rightarrow> bool" for m where
  at_root: "m r = Some r \<Longrightarrow> root_of m r r"
| up: "m s = Some p \<Longrightarrow> p \<noteq> s \<Longrightarrow> root_of m p r \<Longrightarrow> root_of m s r"

lemma root_of_fixpoint: "root_of m s r \<Longrightarrow> m r = Some r"
  by (induction rule: root_of.induct) auto

lemma root_of_unique: "root_of m s r \<Longrightarrow> root_of m s r' \<Longrightarrow> r = r'"
proof (induction arbitrary: r' rule: root_of.induct)
  case (at_root r)
  from at_root.prems at_root.hyps show ?case by cases auto
next
  case (up s p r)
  from up.prems up.hyps show ?case by cases (auto intro: up.IH)
qed

lemma root_of_dom: "root_of m s r \<Longrightarrow> s \<in> dom m"
  by (induction rule: root_of.induct) auto

text \<open>The invariant of the dict: no key twice, every parent a key that is not larger.\<close>

definition uf_ok :: "parents \<Rightarrow> bool" where
  "uf_ok ps \<longleftrightarrow> distinct (map fst ps) \<and> (\<forall>s p. map_of ps s = Some p \<longrightarrow> p \<le> s \<and> p \<in> fst ` set ps)"

definition below :: "parents \<Rightarrow> pystr \<Rightarrow> nat" where
  "below ps s = card {k \<in> fst ` set ps. k < s}"

lemma below_less:
  assumes "p < s" "p \<in> fst ` set ps"
  shows "below ps p < below ps s"
  unfolding below_def by (rule psubset_card_mono) (use assms in auto)

lemma below_bound: "below ps s \<le> length ps"
proof -
  have "below ps s \<le> card (fst ` set ps)" unfolding below_def by (rule card_mono) auto
  also have "\<dots> \<le> length ps"
    by (metis card_length length_map list.set_map)
  finally show ?thesis .
qed

lemma uf_ok_update:
  assumes "uf_ok ps" "s \<in> fst ` set ps" "r \<in> fst ` set ps" "r \<le> s"
  shows "uf_ok (AList.update s r ps)" "fst ` set (AList.update s r ps) = fst ` set ps"
    "map fst (AList.update s r ps) = map fst ps"
proof -
  show keys: "map fst (AList.update s r ps) = map fst ps"
    using assms(2) by (simp add: update_keys)
  then show "fst ` set (AList.update s r ps) = fst ` set ps"
    by (metis list.set_map)
  with keys assms show "uf_ok (AList.update s r ps)"
    by (auto simp: uf_ok_def update_conv')
qed

lemma find_root_ok:
  assumes "uf_ok ps" "s \<in> fst ` set ps" "below ps s < n"
  shows "\<exists>r. find_root n ps s = Inr r \<and> root_of (map_of ps) s r \<and> r \<le> s \<and> r \<in> fst ` set ps"
  using assms(2,3)
proof (induction n arbitrary: s)
  case (Suc n)
  from Suc.prems(1) obtain p where p: "map_of ps s = Some p"
    by (metis map_of_eq_None_iff not_None_eq)
  with assms(1) have le: "p \<le> s" "p \<in> fst ` set ps" by (auto simp: uf_ok_def)
  show ?case
  proof (cases "p = s")
    case True
    with p Suc.prems show ?thesis by (auto intro: root_of.at_root)
  next
    case False
    with le have "p < s" by simp
    then have "below ps p < n" using below_less [OF _ le(2)] Suc.prems(2) by fastforce
    with Suc.IH [OF le(2)] obtain r where
      r: "find_root n ps p = Inr r" "root_of (map_of ps) p r" "r \<le> p" "r \<in> fst ` set ps" by blast
    with False p le show ?thesis by (auto intro: root_of.up)
  qed
qed simp

lemma root_of_total: "uf_ok ps \<Longrightarrow> s \<in> fst ` set ps \<Longrightarrow> \<exists>r. root_of (map_of ps) s r"
  using find_root_ok [of ps s "Suc (below ps s)"] by auto

lemma root_of_le: "uf_ok ps \<Longrightarrow> root_of (map_of ps) s r \<Longrightarrow> r \<le> s \<and> r \<in> fst ` set ps"
  using find_root_ok [of ps s "Suc (below ps s)"] root_of_dom [of "map_of ps" s r]
  by (metis dom_map_of_conv_image_fst lessI root_of_unique)

text \<open>Pointing a scope directly at its own root changes no representative.\<close>

lemma root_of_compress_step:
  assumes "root_of m s r" "root_of m x y"
  shows "root_of (m(s \<mapsto> r)) x y"
  using assms(2)
proof (induction rule: root_of.induct)
  case (at_root y)
  show ?case
  proof (cases "y = s")
    case True
    with at_root assms(1) have "r = s" by (metis root_of.at_root root_of_unique)
    with True show ?thesis by (auto intro: root_of.at_root)
  next
    case False
    with at_root show ?thesis by (auto intro: root_of.at_root)
  qed
next
  case (up x p y)
  show ?case
  proof (cases "x = s")
    case True
    have "root_of m s y" using up True by (metis root_of.up)
    with assms(1) have y: "y = r" by (rule root_of_unique [symmetric])
    have "m r = Some r" using assms(1) by (rule root_of_fixpoint)
    with up True have "r \<noteq> s" by auto
    with \<open>m r = Some r\<close> True y show ?thesis
      by (auto intro!: root_of.up [where p = r] root_of.at_root)
  next
    case False
    with up show ?thesis by (auto intro: root_of.up)
  qed
qed

text \<open>Two dicts with the same keys and the same representatives.\<close>

definition same_roots :: "parents \<Rightarrow> parents \<Rightarrow> bool" where
  "same_roots ps ps' \<longleftrightarrow> map fst ps' = map fst ps \<and> uf_ok ps' \<and>
     (\<forall>x y. root_of (map_of ps') x y \<longleftrightarrow> root_of (map_of ps) x y)"

lemma same_roots_refl: "uf_ok ps \<Longrightarrow> same_roots ps ps"
  by (simp add: same_roots_def)

lemma same_roots_trans: "same_roots ps qs \<Longrightarrow> same_roots qs rs \<Longrightarrow> same_roots ps rs"
  by (simp add: same_roots_def)

lemma same_roots_keys: "same_roots ps qs \<Longrightarrow> fst ` set qs = fst ` set ps"
  unfolding same_roots_def by (metis list.set_map)

lemma same_roots_update:
  assumes "uf_ok ps" "root_of (map_of ps) s r"
  shows "same_roots ps (AList.update s r ps)"
proof -
  have s: "s \<in> fst ` set ps" using root_of_dom [OF assms(2)] by (simp add: dom_map_of_conv_image_fst)
  have r: "r \<le> s" "r \<in> fst ` set ps" using root_of_le [OF assms] by auto
  note u = uf_ok_update [OF assms(1) s r(2,1)]
  have fwd: "root_of (map_of (AList.update s r ps)) x y" if "root_of (map_of ps) x y" for x y
    using root_of_compress_step [OF assms(2) that] by (simp add: update_conv')
  have "root_of (map_of ps) x y" if xy: "root_of (map_of (AList.update s r ps)) x y" for x y
  proof -
    have "x \<in> fst ` set ps"
      using root_of_dom [OF xy] u(2) by (simp add: dom_map_of_conv_image_fst)
    then obtain y' where y': "root_of (map_of ps) x y'" using root_of_total [OF assms(1)] by blast
    with fwd xy have "y = y'" by (blast intro: root_of_unique)
    with y' show ?thesis by simp
  qed
  with fwd u show ?thesis by (auto simp: same_roots_def)
qed

lemma compress_ok:
  assumes "uf_ok ps" "root_of (map_of ps) s r" "below ps s < n"
  shows "\<exists>ps'. compress n ps r s = Inr ps' \<and> same_roots ps ps'"
  using assms
proof (induction n arbitrary: ps s)
  case (Suc n)
  show ?case
  proof (cases "s = r")
    case True
    with Suc.prems show ?thesis by (auto intro: same_roots_refl)
  next
    case False
    with Suc.prems(2) obtain p where p: "map_of ps s = Some p" "p \<noteq> s" "root_of (map_of ps) p r"
      by (auto elim: root_of.cases)
    have le: "p \<le> s" "p \<in> fst ` set ps" using Suc.prems(1) p(1) by (auto simp: uf_ok_def)
    let ?qs = "AList.update s r ps"
    have sr: "same_roots ps ?qs" using Suc.prems(1,2) by (rule same_roots_update)
    have "below ?qs p = below ps p" using same_roots_keys [OF sr] by (simp add: below_def)
    also have "\<dots> < n" using below_less [of p s ps] le p(2) Suc.prems(3) by fastforce
    finally obtain ps' where "compress n ?qs r p = Inr ps'" "same_roots ?qs ps'"
      using Suc.IH [of ?qs p] sr p(3) by (auto simp: same_roots_def)
    with False p sr show ?thesis by (auto intro: same_roots_trans)
  qed
qed simp

lemma root_ok:
  assumes "uf_ok ps" "s \<in> fst ` set ps"
  shows "\<exists>r ps'. root ps s = Inr (r, ps') \<and> root_of (map_of ps) s r \<and> same_roots ps ps'"
proof -
  have b: "below ps s < Suc (length ps)" using below_bound [of ps s] by simp
  from find_root_ok [OF assms b] obtain r where
    r: "find_root (Suc (length ps)) ps s = Inr r" "root_of (map_of ps) s r" by blast
  from compress_ok [OF assms(1) r(2) b] r show ?thesis by (auto simp: root_def)
qed

section \<open>Connecting\<close>

lemma root_of_link:
  assumes "m hi = Some hi" "m lo = Some lo" "hi \<noteq> lo" "root_of m x y"
  shows "root_of (m(hi \<mapsto> lo)) x (if y = hi then lo else y)"
  using assms(4)
proof (induction rule: root_of.induct)
  case (at_root y)
  show ?case
  proof (cases "y = hi")
    case True
    with assms show ?thesis
      by (auto intro!: root_of.up [where p = lo] root_of.at_root)
  next
    case False
    with at_root show ?thesis by (auto intro: root_of.at_root)
  qed
next
  case (up x p y)
  then have "x \<noteq> hi" using assms(1) by auto
  with up show ?case by (auto intro: root_of.up)
qed

text \<open>Two scopes are in one group when they have the same representative.\<close>

definition together :: "parents \<Rightarrow> (pystr \<times> pystr) set" where
  "together ps = {(x, y). \<exists>r. root_of (map_of ps) x r \<and> root_of (map_of ps) y r}"

lemma equiv_together: "uf_ok ps \<Longrightarrow> equiv (fst ` set ps) (together ps)"
proof (rule equivI)
  assume ok: "uf_ok ps"
  have sub: "x \<in> fst ` set ps" if "root_of (map_of ps) x r" for x r
    using root_of_dom [OF that] by (simp add: dom_map_of_conv_image_fst)
  show "together ps \<subseteq> fst ` set ps \<times> fst ` set ps"
    by (auto simp: together_def dest: sub)
  show "refl_on (fst ` set ps) (together ps)"
    unfolding refl_on_def together_def using root_of_total [OF ok] by (auto dest: sub)
  show "sym (together ps)" by (auto simp: sym_def together_def)
  show "trans (together ps)"
    by (rule transI) (auto simp: together_def dest: root_of_unique)
qed

lemma connect_ok:
  assumes ok: "uf_ok ps" and keys: "l \<in> fst ` set ps" "r \<in> fst ` set ps"
  shows "\<exists>ps'. connect ps l r = Inr ps' \<and> uf_ok ps' \<and> map fst ps' = map fst ps \<and>
    together ps' = {(x, y). (x, y) \<in> together ps \<or>
      (x, l) \<in> together ps \<and> (r, y) \<in> together ps \<or> (x, r) \<in> together ps \<and> (l, y) \<in> together ps}"
proof -
  obtain a ps1 where a: "root ps l = Inr (a, ps1)" "root_of (map_of ps) l a" "same_roots ps ps1"
    using root_ok [OF ok keys(1)] by blast
  have ok1: "uf_ok ps1" using a(3) by (simp add: same_roots_def)
  obtain b ps2 where b: "root ps1 r = Inr (b, ps2)" "root_of (map_of ps1) r b" "same_roots ps1 ps2"
    using root_ok [OF ok1, of r] keys(2) same_roots_keys [OF a(3)] by blast
  have s2: "same_roots ps ps2" using a(3) b(3) by (rule same_roots_trans)
  have b': "root_of (map_of ps) r b" using b(2) a(3) by (simp add: same_roots_def)
  have ra: "root_of (map_of ps2) l a" and rb: "root_of (map_of ps2) r b"
    using a(2) b' s2 by (simp_all add: same_roots_def)
  have ok2: "uf_ok ps2" using s2 by (simp add: same_roots_def)
  have tog: "together ps2 = together ps" using s2 by (simp add: together_def same_roots_def)
  show ?thesis
  proof (cases "a = b")
    case True
    have lr: "(l, r) \<in> together ps" using a(2) b' True by (auto simp: together_def)
    have "(x, y) \<in> together ps" if "(x, l) \<in> together ps \<and> (r, y) \<in> together ps \<or>
        (x, r) \<in> together ps \<and> (l, y) \<in> together ps" for x y
      using that lr equiv_together [OF ok] by (meson equivE symD transD)
    then have "together ps = {(x, y). (x, y) \<in> together ps \<or>
      (x, l) \<in> together ps \<and> (r, y) \<in> together ps \<or> (x, r) \<in> together ps \<and> (l, y) \<in> together ps}"
      by blast
    then show ?thesis using a b True ok2 s2 tog by (auto simp: connect_def same_roots_def)
  next
    case False
    define hi lo where "hi = max a b" and "lo = min a b"
    have hl: "hi \<noteq> lo" "lo \<le> hi" "(hi = a \<and> lo = b) \<or> (hi = b \<and> lo = a)"
      using False by (auto simp: hi_def lo_def max_def min_def)
    have fp: "map_of ps2 hi = Some hi" "map_of ps2 lo = Some lo"
      using hl(3) root_of_fixpoint [OF ra] root_of_fixpoint [OF rb] by auto
    have inkeys: "hi \<in> fst ` set ps2" "lo \<in> fst ` set ps2"
      using fp by (force dest: map_of_SomeD)+
    let ?ps' = "AList.update hi lo ps2"
    note u = uf_ok_update [OF ok2 inkeys hl(2)]
    let ?j = "\<lambda>y. if y = hi then lo else y"
    have fwd: "root_of (map_of ?ps') x (?j y)" if "root_of (map_of ps2) x y" for x y
      using root_of_link [OF fp hl(1) that] by (simp add: update_conv')
    have conv: "\<exists>z. root_of (map_of ps2) x z \<and> y = ?j z" if xy: "root_of (map_of ?ps') x y" for x y
    proof -
      have "x \<in> fst ` set ps2" using root_of_dom [OF xy] u(2) by (simp add: dom_map_of_conv_image_fst)
      then obtain z where z: "root_of (map_of ps2) x z" using root_of_total [OF ok2] by blast
      with fwd xy have "y = ?j z" by (blast intro: root_of_unique)
      with z show ?thesis by blast
    qed
    have "(x, y) \<in> together ?ps' \<longleftrightarrow> (x, y) \<in> together ps2 \<or>
      (x, l) \<in> together ps2 \<and> (r, y) \<in> together ps2 \<or> (x, r) \<in> together ps2 \<and> (l, y) \<in> together ps2" for x y
    proof
      assume "(x, y) \<in> together ?ps'"
      then obtain w where w: "root_of (map_of ?ps') x w" "root_of (map_of ?ps') y w"
        unfolding together_def by blast
      from conv [OF w(1)] conv [OF w(2)]
      obtain z z' where z: "root_of (map_of ps2) x z" "root_of (map_of ps2) y z'" "?j z = ?j z'"
        by auto
      then have "z = z' \<or> z = hi \<and> z' = lo \<or> z = lo \<and> z' = hi" by (auto split: if_splits)
      with z hl(3) ra rb show "(x, y) \<in> together ps2 \<or>
        (x, l) \<in> together ps2 \<and> (r, y) \<in> together ps2 \<or> (x, r) \<in> together ps2 \<and> (l, y) \<in> together ps2"
        unfolding together_def by blast
    next
      assume "(x, y) \<in> together ps2 \<or>
        (x, l) \<in> together ps2 \<and> (r, y) \<in> together ps2 \<or> (x, r) \<in> together ps2 \<and> (l, y) \<in> together ps2"
      then consider z where "root_of (map_of ps2) x z" "root_of (map_of ps2) y z"
        | "root_of (map_of ps2) x a" "root_of (map_of ps2) y b"
        | "root_of (map_of ps2) x b" "root_of (map_of ps2) y a"
        unfolding together_def using ra rb by (auto dest: root_of_unique)
      then show "(x, y) \<in> together ?ps'"
      proof cases
        case (1 z)
        then show ?thesis unfolding together_def using fwd by blast
      next
        case 2
        from fwd [OF 2(1)] fwd [OF 2(2)] hl show ?thesis unfolding together_def by auto
      next
        case 3
        from fwd [OF 3(1)] fwd [OF 3(2)] hl show ?thesis unfolding together_def by auto
      qed
    qed
    then have "together ?ps' = {(x, y). (x, y) \<in> together ps \<or>
      (x, l) \<in> together ps \<and> (r, y) \<in> together ps \<or> (x, r) \<in> together ps \<and> (l, y) \<in> together ps}"
      by (simp only: tog [symmetric]) auto
    moreover have "connect ps l r = Inr ?ps'"
      using a(1) b(1) False by (simp add: connect_def hi_def lo_def)
    ultimately show ?thesis using u s2 by (auto simp: same_roots_def)
  qed
qed

section \<open>A list of edges\<close>

definition connect_all :: "parents \<Rightarrow> (pystr \<times> pystr) list \<Rightarrow> parents res" where
  "connect_all ps edges = fold_res (\<lambda>ps (l, r). connect ps l r) ps edges"

lemma equiv_trans_step: "equiv K R \<Longrightarrow> (x, y) \<in> R \<Longrightarrow> (y, z) \<in> R \<Longrightarrow> (x, z) \<in> R"
  by (auto elim!: equivE dest: transD)

lemma linked_insert:
  assumes "E \<subseteq> K \<times> K" "l \<in> K" "r \<in> K"
  shows "linked K (insert (l, r) E) = {(x, y). (x, y) \<in> linked K E \<or>
    (x, l) \<in> linked K E \<and> (r, y) \<in> linked K E \<or> (x, r) \<in> linked K E \<and> (l, y) \<in> linked K E}"
    (is "?new = ?R")
proof
  note eq = equiv_linked [of K E] and eq' = equiv_linked [of K "insert (l, r) E"]
  have lr: "(l, r) \<in> ?new" "(r, l) \<in> ?new"
    using linked_edge [of l r "insert (l, r) E" K] assms eq' by (auto elim: equivE symE dest: symD)
  have "linked K E \<subseteq> ?new" by (rule linked_mono) auto
  then show "?R \<subseteq> ?new"
    using lr equiv_trans_step [OF eq'] by blast
  show "?new \<subseteq> ?R"
  proof (rule subrelI)
    fix x y assume "(x, y) \<in> ?new"
    then have xy: "(x, y) \<in> (insert (l, r) E \<union> (insert (l, r) E)\<inverse>)\<^sup>*" "x \<in> K"
      by (auto simp only: linked_def)
    show "(x, y) \<in> ?R"
      using xy(1)
    proof (induction rule: rtrancl_induct)
      case base
      then show ?case using eq xy(2) by (auto elim: equivE dest: refl_onD)
    next
      case (step y z)
      have "y \<in> K" using step.IH eq by (auto elim!: equivE)
      from step(2) consider "(y, z) \<in> E \<union> E\<inverse>" | "(y, z) = (l, r)" | "(y, z) = (r, l)" by auto
      then show ?case
      proof cases
        case 1
        then have "(y, z) \<in> linked K E" using assms(1) by (auto simp: linked_def)
        with step.IH eq show ?thesis by (auto elim!: equivE dest: transD)
      next
        case 2
        with step.IH eq assms(2,3) show ?thesis
          by (auto elim!: equivE dest: transD symD refl_onD)
      next
        case 3
        with step.IH eq assms(2,3) show ?thesis
          by (auto elim!: equivE dest: transD symD refl_onD)
      qed
    qed
  qed
qed

lemma connect_all_ok:
  assumes "uf_ok ps" "together ps = linked (fst ` set ps) E" "E \<subseteq> (fst ` set ps) \<times> (fst ` set ps)"
    and "set edges \<subseteq> (fst ` set ps) \<times> (fst ` set ps)"
  shows "\<exists>ps'. connect_all ps edges = Inr ps' \<and> uf_ok ps' \<and> map fst ps' = map fst ps \<and>
    together ps' = linked (fst ` set ps) (E \<union> set edges)"
  using assms
proof (induction edges arbitrary: ps E)
  case Nil
  then show ?case by (simp add: connect_all_def)
next
  case (Cons e edges)
  obtain l r where e: "e = (l, r)" by (cases e)
  with Cons.prems(4) have lr: "l \<in> fst ` set ps" "r \<in> fst ` set ps" by auto
  from connect_ok [OF Cons.prems(1) lr] obtain ps1 where
    c: "connect ps l r = Inr ps1" "uf_ok ps1" "map fst ps1 = map fst ps"
    and t: "together ps1 = {(x, y). (x, y) \<in> together ps \<or>
      (x, l) \<in> together ps \<and> (r, y) \<in> together ps \<or> (x, r) \<in> together ps \<and> (l, y) \<in> together ps}"
    by blast
  have k: "fst ` set ps1 = fst ` set ps" using c(3) by (metis list.set_map)
  have "together ps1 = linked (fst ` set ps1) (insert (l, r) E)"
    unfolding t Cons.prems(2) k using linked_insert [OF Cons.prems(3) lr] by simp
  from Cons.IH [OF c(2) this] k lr Cons.prems(3,4) obtain ps' where
    "connect_all ps1 edges = Inr ps'" "uf_ok ps'" "map fst ps' = map fst ps1"
    "together ps' = linked (fst ` set ps) (insert (l, r) E \<union> set edges)" by auto
  with c e show ?case by (auto simp: connect_all_def)
qed

lemma new_scopes_ok:
  assumes "distinct scopes"
  shows "uf_ok (new_scopes scopes)" "map fst (new_scopes scopes) = scopes"
    "together (new_scopes scopes) = linked (set scopes) {}"
proof -
  show k: "map fst (new_scopes scopes) = scopes" by (simp add: new_scopes_def o_def)
  have m: "map_of (new_scopes scopes) s = (if s \<in> set scopes then Some s else None)" for s
    unfolding new_scopes_def by (induction scopes) auto
  show "uf_ok (new_scopes scopes)"
    using assms k by (auto simp: uf_ok_def m new_scopes_def image_image split: if_splits)
  have "root_of (map_of (new_scopes scopes)) x y \<longleftrightarrow> x = y \<and> x \<in> set scopes" for x y
  proof
    assume "root_of (map_of (new_scopes scopes)) x y"
    then show "x = y \<and> x \<in> set scopes" by cases (auto simp: m split: if_splits)
  next
    assume "x = y \<and> x \<in> set scopes"
    then show "root_of (map_of (new_scopes scopes)) x y" by (auto simp: m intro: root_of.at_root)
  qed
  then show "together (new_scopes scopes) = linked (set scopes) {}"
    by (auto simp: together_def linked_def)
qed

section \<open>The units\<close>

definition group_at :: "(pystr \<times> pystr list) list \<Rightarrow> pystr \<Rightarrow> pystr list" where
  "group_at groups r = (case map_of groups r of None \<Rightarrow> [] | Some g \<Rightarrow> g)"

lemma group_scopes_ok:
  assumes "uf_ok ps" "set scopes \<subseteq> fst ` set ps" "distinct (map fst groups)" "\<forall>(r, g) \<in> set groups. g \<noteq> []"
  shows "\<exists>groups'. group_scopes scopes ps groups = Inr groups' \<and> distinct (map fst groups') \<and>
    (\<forall>(r, g) \<in> set groups'. g \<noteq> []) \<and>
    (\<forall>r. group_at groups' r = group_at groups r @ filter (\<lambda>s. root_of (map_of ps) s r) scopes)"
  using assms
proof (induction scopes arbitrary: ps groups)
  case Nil
  then show ?case by simp
next
  case (Cons s scopes)
  from Cons.prems(1,2) obtain r ps' where
    r: "root ps s = Inr (r, ps')" "root_of (map_of ps) s r" "same_roots ps ps'"
    using root_ok [of ps s] by auto
  let ?g = "AList.update r (group_at groups r @ [s]) groups"
  have "set ?g \<subseteq> insert (r, group_at groups r @ [s]) (set groups)"
    by (induction groups) (auto simp: group_at_def)
  then have ne: "\<forall>(r, g) \<in> set ?g. g \<noteq> []"
    using Cons.prems(4) by fastforce
  have sr: "root_of (map_of ps') x y \<longleftrightarrow> root_of (map_of ps) x y" for x y
    using r(3) by (simp add: same_roots_def)
  have at: "group_at ?g q = (if q = r then group_at groups r @ [s] else group_at groups q)" for q
    by (simp add: group_at_def update_conv')
  have rq: "root_of (map_of ps) s q \<longleftrightarrow> q = r" for q using r(2) root_of_unique by blast
  have "uf_ok ps'" "set scopes \<subseteq> fst ` set ps'"
    using r(3) same_roots_keys [OF r(3)] Cons.prems(2) by (auto simp: same_roots_def)
  from Cons.IH [OF this distinct_update [OF Cons.prems(3)] ne] obtain groups' where
    "group_scopes scopes ps' ?g = Inr groups'" "distinct (map fst groups')" "\<forall>(r, g) \<in> set groups'. g \<noteq> []"
    "\<forall>q. group_at groups' q = group_at ?g q @ filter (\<lambda>s. root_of (map_of ps') s q) scopes" by blast
  with r(1) show ?case by (auto simp: at sr rq simp flip: group_at_def)
qed

lemma units_ok:
  assumes ok: "uf_ok ps"
  shows "\<exists>us. units ps = Inr us \<and> is_partition us (fst ` set ps) (together ps)"
proof -
  let ?ks = "map fst ps"
  from group_scopes_ok [OF ok, of ?ks "[]"] obtain gs where
    gs: "group_scopes ?ks ps [] = Inr gs" "distinct (map fst gs)" "\<forall>(r, g) \<in> set gs. g \<noteq> []"
    and at: "\<And>r. group_at gs r = filter (\<lambda>s. root_of (map_of ps) s r) ?ks"
    by (auto simp: group_at_def)
  have mem: "(r, g) \<in> set gs \<longleftrightarrow> g = filter (\<lambda>s. root_of (map_of ps) s r) ?ks \<and> g \<noteq> []" for r g
  proof
    assume rg: "(r, g) \<in> set gs"
    then have "map_of gs r = Some g" using gs(2) by simp
    then have "group_at gs r = g" by (simp add: group_at_def)
    with at rg gs(3) show "g = filter (\<lambda>s. root_of (map_of ps) s r) ?ks \<and> g \<noteq> []" by auto
  next
    assume g: "g = filter (\<lambda>s. root_of (map_of ps) s r) ?ks \<and> g \<noteq> []"
    then have "group_at gs r = g" "g \<noteq> []" using at by auto
    then have "map_of gs r = Some g" by (auto simp: group_at_def split: option.splits)
    then show "(r, g) \<in> set gs" by (rule map_of_SomeD)
  qed
  let ?us = "sort (map (\<lambda>g. sort (snd g)) gs)"
  have u: "units ps = Inr ?us" by (simp add: units_def gs(1))
  have dk: "distinct ?ks" using ok by (simp add: uf_ok_def)
  have setg: "set g = {s. root_of (map_of ps) s r}" if "(r, g) \<in> set gs" for r g
  proof -
    have "s \<in> set ?ks" if "root_of (map_of ps) s r" for s
      using root_of_dom [OF that] by (simp add: dom_map_of_conv_image_fst)
    moreover have "g = filter (\<lambda>s. root_of (map_of ps) s r) ?ks" using that mem by blast
    ultimately show ?thesis by auto
  qed
  have sorted: "\<forall>u \<in> set ?us. sorted_wrt (<) u"
  proof
    fix u assume "u \<in> set ?us"
    then obtain r g where "(r, g) \<in> set gs" "u = sort g" by auto
    moreover from this mem have "distinct g" using dk by auto
    ultimately show "sorted_wrt (<) u" by (simp add: strict_sorted_iff)
  qed
  have inj: "inj_on (\<lambda>g. sort (snd g)) (set gs)"
  proof (rule inj_onI, clarsimp)
    fix r g r' g' assume h: "(r, g) \<in> set gs" "(r', g') \<in> set gs" "sort g = sort g'"
    then have "set g = set g'" by (metis set_sort)
    moreover obtain s where "s \<in> set g" using h(1) mem by (metis last_in_set)
    ultimately have "root_of (map_of ps) s r" "root_of (map_of ps) s r'" using setg h by auto
    then have "r = r'" by (rule root_of_unique)
    with h mem show "r = r' \<and> g = g'" by simp
  qed
  have "distinct gs" using gs(2) by (simp add: distinct_map)
  with inj have "sorted_wrt (<) ?us" by (simp add: strict_sorted_iff distinct_map)
  moreover have "set ` set ?us = fst ` set ps // together ps"
  proof -
    have cls: "together ps `` {x} = {s. root_of (map_of ps) s r}" if "root_of (map_of ps) x r" for x r
      using that by (auto simp: together_def dest: root_of_unique)
    show ?thesis
    proof (rule set_eqI)
      fix A
      show "A \<in> set ` set ?us \<longleftrightarrow> A \<in> fst ` set ps // together ps"
      proof
        assume "A \<in> set ` set ?us"
        then obtain r g where g: "(r, g) \<in> set gs" "A = set g" by auto
        then obtain s where s: "s \<in> set g" using mem by (metis last_in_set)
        with g setg have "root_of (map_of ps) s r" by auto
        moreover have "s \<in> fst ` set ps" using s g(1) mem by auto
        ultimately show "A \<in> fst ` set ps // together ps"
          using cls g setg by (auto simp: quotient_def)
      next
        assume "A \<in> fst ` set ps // together ps"
        then obtain s where s: "s \<in> fst ` set ps" "A = together ps `` {s}"
          unfolding quotient_def by blast
        then obtain r where r: "root_of (map_of ps) s r" using root_of_total [OF ok] by blast
        let ?g = "filter (\<lambda>s. root_of (map_of ps) s r) ?ks"
        have "?g \<noteq> []" using s(1) r by (auto simp: filter_empty_conv)
        then have rg: "(r, ?g) \<in> set gs" using mem by blast
        then have "set (sort ?g) = A" using setg [OF rg] cls [OF r] s(2) by simp
        moreover have "sort ?g \<in> set ?us" using rg by force
        ultimately show "A \<in> set ` set ?us" by blast
      qed
    qed
  qed
  ultimately show ?thesis using u sorted by (auto simp: is_partition_def)
qed

lemma connected_units_ok:
  assumes "distinct scopes" "set edges \<subseteq> set scopes \<times> set scopes"
  shows "\<exists>us. bind_res (connect_all (new_scopes scopes) edges) units = Inr us \<and>
    is_partition us (set scopes) (linked (set scopes) (set edges))"
proof -
  note n = new_scopes_ok [OF assms(1)]
  have k: "fst ` set (new_scopes scopes) = set scopes" using n(2) by (metis list.set_map)
  from connect_all_ok [OF n(1), of "{}" edges] n(3) k assms(2) obtain ps where
    c: "connect_all (new_scopes scopes) edges = Inr ps" "uf_ok ps" "map fst ps = scopes"
    "together ps = linked (set scopes) (set edges)"
    using n(2) by auto
  have "fst ` set ps = set scopes" using c(3) by (metis list.set_map)
  with units_ok [OF c(2)] c(1,4) show ?thesis by auto
qed

section \<open>Properties\<close>

text \<open>
  The connected scopes compute the connected components: for scopes without repetition and any
  list of edges between them, connecting the edges and asking for the units never fails and never
  loops, and the answer lists, strictly sorted and each strictly sorted inside, exactly the classes
  of the equivalence generated by the edges.
\<close>

theorem units_are_components:
  assumes "distinct scopes" "set edges \<subseteq> set scopes \<times> set scopes"
  shows "\<exists>us. bind_res (connect_all (new_scopes scopes) edges) units = Inr us \<and>
    sorted_wrt (<) us \<and> (\<forall>u \<in> set us. sorted_wrt (<) u) \<and>
    set ` set us = set scopes // linked (set scopes) (set edges)"
  using connected_units_ok [OF assms] by (auto simp: is_partition_def)

text \<open>
  The units do not depend on the order in which the scopes and the links were visited, as the
  docstring of \<open>units\<close> says: any two traversals of the same scopes and links give the same list,
  although path compression leaves different parent dicts.
\<close>

theorem units_order_independent:
  assumes "distinct scopes" "distinct scopes'" "set scopes' = set scopes" "set edges' = set edges"
    and "set edges \<subseteq> set scopes \<times> set scopes"
  shows "bind_res (connect_all (new_scopes scopes') edges') units =
         bind_res (connect_all (new_scopes scopes) edges) units"
  using connected_units_ok [OF assms(1,5)] connected_units_ok [OF assms(2), of edges'] assms(3-5)
  by (auto dest: is_partition_unique)

section \<open>Witnesses\<close>

definition w_scopes :: "pystr list" where
  "w_scopes = [[98], [46], [97], [100], [99]]"

definition w_edges :: "(pystr \<times> pystr) list" where
  "w_edges = [([100], [99]), ([99], [97]), ([98], [98])]"

lemma w_units:
  "bind_res (connect_all (new_scopes w_scopes) w_edges) units = Inr [[[46]], [[97], [99], [100]], [[98]]]"
  by code_simp

theorem units_are_components_witness:
  "set ` set [[[46]], [[97], [99], [100]], [[98]]] = set w_scopes // linked (set w_scopes) (set w_edges)"
proof -
  have "distinct w_scopes" "set w_edges \<subseteq> set w_scopes \<times> set w_scopes"
    by (simp_all add: w_scopes_def w_edges_def)
  from units_are_components [OF this] w_units show ?thesis by auto
qed

theorem units_order_independent_witness:
  "bind_res (connect_all (new_scopes (rev w_scopes)) (rev w_edges)) units =
   Inr [[[46]], [[97], [99], [100]], [[98]]]"
proof -
  have "distinct w_scopes" "distinct (rev w_scopes)" "set (rev w_scopes) = set w_scopes"
    "set (rev w_edges) = set w_edges" "set w_edges \<subseteq> set w_scopes \<times> set w_scopes"
    by (simp_all only: distinct_rev set_rev) (simp_all add: w_scopes_def w_edges_def)
  from units_order_independent [OF this] show ?thesis by (simp only: w_units)
qed

end
