(* ===== verification/Directory_Merge.thy ===== *)
theory Directory_Merge
  imports Merge Scopes
begin

text \<open>
  The merge of a whole account directory (\<open>skill_manager/directory_merge.py\<close>): the top-level
  scopes, the units of scopes that relative links connect, and the atomic merge unit by unit. A
  Python set of names is a list here; the theorems do not depend on its order.
\<close>

definition scope_of :: "pystr list \<Rightarrow> pystr \<Rightarrow> pystr" where
  "scope_of item_names path =
     (let name = top_component path in if name \<in> set item_names then name else dot)"

text \<open>The loops over manifests, entries and dependencies that call \<open>connect\<close>.\<close>

definition connect_entry ::
  "pystr list \<Rightarrow> (pystr \<rightharpoonup> entry) \<Rightarrow> parents \<Rightarrow> entry \<Rightarrow> parents res"
where
  "connect_entry item_names index ps e =
     (if e_kind e \<noteq> Symlink then Inr ps
      else bind_res (resolve_manifest_link e index) (\<lambda>(_, dependencies).
        (let source = scope_of item_names (e_path e) in
         fold_res (\<lambda>ps dependency. connect ps source (scope_of item_names dependency)) ps dependencies)))"

definition directory_merge_units ::
  "(pystr \<Rightarrow> bool) \<Rightarrow> manifest list \<Rightarrow> pystr list \<Rightarrow> (pystr list list) res"
where
  "directory_merge_units nfc manifests item_names =
     bind_res (each (\<lambda>name. bind_res (validate_relative_path nfc name) (\<lambda>_.
                 require (slash \<notin> set name) (ValueError ''skill merge member must be a top-level name'')))
               item_names) (\<lambda>_.
     (let scopes = remdups (map (\<lambda>e. scope_of item_names (e_path e)) (concat (map entries manifests)))
      in bind_res (fold_res (\<lambda>ps m. fold_res (connect_entry item_names (by_path (entries m))) ps (entries m))
                     (new_scopes scopes) manifests)
           units))"

record directory_merge_result = merge_result +
  result_units :: "pystr list list"

text \<open>\<open>{name: index for index, unit in enumerate(units) for name in unit}\<close>\<close>

definition unit_for_scope :: "pystr list list \<Rightarrow> (pystr \<rightharpoonup> nat)" where
  "unit_for_scope us =
     map_of (rev (concat (map (\<lambda>(index, unit). map (\<lambda>name. (name, index)) unit) (enumerate 0 us))))"

text \<open>\<open>partitions[manifest][index]\<close>; a missing scope raises \<open>KeyError\<close>.\<close>

definition partition_entries :: "pystr list \<Rightarrow> pystr list list \<Rightarrow> manifest \<Rightarrow> (entry list list) res" where
  "partition_entries item_names us m =
     bind_res (each (\<lambda>e. require (scope_of item_names (e_path e) \<in> dom (unit_for_scope us)) KeyError) (entries m))
       (\<lambda>_. Inr (map (\<lambda>index. filter (\<lambda>e. unit_for_scope us (scope_of item_names (e_path e)) = Some index)
                   (entries m)) [0..<length us]))"

definition merge_unit ::
  "entry list list \<Rightarrow> entry list list \<Rightarrow> entry list list \<Rightarrow> entry list \<times> conflict list \<Rightarrow>
   nat \<times> pystr list \<Rightarrow> (entry list \<times> conflict list) res"
where
  "merge_unit base_parts current_parts incoming_parts acc iu =
     (case (acc, iu) of ((ms, cs), (index, unit)) \<Rightarrow>
        bind_res (new_manifest (base_parts ! index)) (\<lambda>b.
        bind_res (new_manifest (current_parts ! index)) (\<lambda>c.
        bind_res (new_manifest (incoming_parts ! index)) (\<lambda>i.
          (let result = merge_manifests b c i in
           Inr (ms @ (case merged result of None \<Rightarrow> [] | Some m \<Rightarrow> entries m),
                cs @ map (\<lambda>x. x\<lparr>c_unit := unit\<rparr>) (conflicts result)))))))"

definition merge_directory_manifests ::
  "(pystr \<Rightarrow> bool) \<Rightarrow> manifest \<Rightarrow> manifest \<Rightarrow> manifest \<Rightarrow> pystr list \<Rightarrow> directory_merge_result res"
where
  "merge_directory_manifests nfc base current incoming item_names =
     bind_res (directory_merge_units nfc [base, current, incoming] item_names) (\<lambda>us.
     bind_res (partition_entries item_names us base) (\<lambda>base_parts.
     bind_res (partition_entries item_names us current) (\<lambda>current_parts.
     bind_res (partition_entries item_names us incoming) (\<lambda>incoming_parts.
     bind_res (fold_res (merge_unit base_parts current_parts incoming_parts) ([], []) (enumerate 0 us))
       (\<lambda>(ms, cs).
         if cs \<noteq> []
         then Inr \<lparr>merged = None, conflicts = cs, result_units = us\<rparr>
         else bind_res (new_manifest (sort_key (\<lambda>e. utf8 (e_path e)) ms)) (\<lambda>complete.
           Inr \<lparr>merged = Some complete, conflicts = [], result_units = us\<rparr>))))))"

section \<open>Scopes of a path and its dependencies\<close>

lemma scope_of_within: "within p q \<Longrightarrow> scope_of names p = scope_of names q"
  unfolding scope_of_def by (metis top_component_within)

definition unit_edges :: "pystr list \<Rightarrow> entry list \<Rightarrow> (pystr \<times> pystr) list" where
  "unit_edges names es =
     concat (map (\<lambda>e. if e_kind e \<noteq> Symlink then []
                      else (case resolve_manifest_link e (by_path es) of
                          Inl _ \<Rightarrow> []
                        | Inr (_, deps) \<Rightarrow> map (\<lambda>d. (scope_of names (e_path e), scope_of names d)) deps)) es)"

lemma connect_entry_edges:
  assumes "e_kind e = Symlink \<Longrightarrow> \<exists>r. resolve_manifest_link e m = Inr r"
  shows "connect_entry names m ps e = connect_all ps
    (if e_kind e \<noteq> Symlink then []
     else (case resolve_manifest_link e m of
         Inl _ \<Rightarrow> []
       | Inr (_, deps) \<Rightarrow> map (\<lambda>d. (scope_of names (e_path e), scope_of names d)) deps))"
  using assms by (auto simp: connect_entry_def connect_all_def fold_res_map Let_def)

lemma connect_manifest_edges:
  assumes "links_ok (entries m)"
  shows "fold_res (connect_entry names (by_path (entries m))) ps (entries m) = connect_all ps (unit_edges names (entries m))"
proof -
  have "fold_res (connect_entry names (by_path (entries m))) ps xs = connect_all ps
      (concat (map (\<lambda>e. if e_kind e \<noteq> Symlink then []
                      else (case resolve_manifest_link e (by_path (entries m)) of
                          Inl _ \<Rightarrow> []
                        | Inr (_, deps) \<Rightarrow> map (\<lambda>d. (scope_of names (e_path e), scope_of names d)) deps)) xs))"
    if "set xs \<subseteq> set (entries m)" for xs
    using that
  proof (induction xs arbitrary: ps)
    case (Cons e xs)
    have "e_kind e = Symlink \<Longrightarrow> \<exists>r. resolve_manifest_link e (by_path (entries m)) = Inr r"
      using assms Cons.prems by (auto simp: links_ok_def)
    from connect_entry_edges [OF this] Cons show ?case
      by (auto simp: connect_all_def fold_res_append intro!: bind_res_cong)
  qed (simp add: connect_all_def)
  then show ?thesis by (simp add: unit_edges_def)
qed

lemma connect_manifests_edges:
  assumes "\<And>m. m \<in> set ms \<Longrightarrow> links_ok (entries m)"
  shows "fold_res (\<lambda>ps m. fold_res (connect_entry names (by_path (entries m))) ps (entries m)) ps ms =
    connect_all ps (concat (map (\<lambda>m. unit_edges names (entries m)) ms))"
  using assms
  by (induction ms arbitrary: ps)
    (auto simp: connect_manifest_edges connect_all_def fold_res_append intro!: bind_res_cong)

definition names_ok :: "(pystr \<Rightarrow> bool) \<Rightarrow> pystr list \<Rightarrow> bool" where
  "names_ok nfc names \<longleftrightarrow>
     list_all (\<lambda>n. validate_relative_path nfc n = Inr n \<and> slash \<notin> set n) names"

definition all_scopes :: "pystr list \<Rightarrow> manifest list \<Rightarrow> pystr set" where
  "all_scopes names ms = (\<Union>m \<in> set ms. (\<lambda>e. scope_of names (e_path e)) ` set (entries m))"

definition all_edges :: "pystr list \<Rightarrow> manifest list \<Rightarrow> (pystr \<times> pystr) set" where
  "all_edges names ms = (\<Union>m \<in> set ms. set (unit_edges names (entries m)))"

lemma wf_tree_parts:
  assumes "wf_tree nfc es"
  shows "paths_sorted es" "parents_closed es" "links_ok es" "sizes_nonneg es" "dirs_closed (by_path es)"
    "[] \<notin> e_path ` set es" "length es \<le> 100000" "sum_list (map e_size es) \<le> max_bytes"
  using assms wf_tree_sizes [OF assms] by (auto simp: wf_tree_def tree_ok_def dirs_closed_by_path)

lemma unit_edges_scopes:
  assumes "wf_tree nfc es"
  shows "set (unit_edges names es) \<subseteq> (\<lambda>e. scope_of names (e_path e)) ` set es \<times> (\<lambda>e. scope_of names (e_path e)) ` set es"
proof -
  note wf = wf_tree_parts [OF assms]
  have "d \<in> e_path ` set es"
    if e: "e \<in> set es" "e_kind e = Symlink" "resolve_manifest_link e (by_path es) = Inr (r, deps)" "d \<in> set deps"
    for e r deps d
  proof -
    have "by_path es (e_path e) = Some e" using e(1) wf(1) by (simp add: by_path_iff)
    from resolve_link_target(3) [OF e(3) this e(2) keyed_by_path wf(5)] e(4) show ?thesis
      by (auto simp: dom_index_by)
  qed
  then have dep: "scope_of names d \<in> (\<lambda>e. scope_of names (e_path e)) ` set es"
    if "e \<in> set es" "e_kind e = Symlink" "resolve_manifest_link e (by_path es) = Inr (r, deps)" "d \<in> set deps"
    for e r deps d
    using that by blast
  show ?thesis
  proof (rule subrelI)
    fix x y assume "(x, y) \<in> set (unit_edges names es)"
    then obtain e where e: "e \<in> set es" "e_kind e = Symlink"
      and xy: "(x, y) \<in> set (case resolve_manifest_link e (by_path es) of Inl _ \<Rightarrow> []
        | Inr (_, deps) \<Rightarrow> map (\<lambda>d. (scope_of names (e_path e), scope_of names d)) deps)"
      unfolding unit_edges_def by (auto split: if_splits)
    from xy obtain r deps where rd: "resolve_manifest_link e (by_path es) = Inr (r, deps)"
      by (cases "resolve_manifest_link e (by_path es)") auto
    with xy obtain d where "d \<in> set deps" "x = scope_of names (e_path e)" "y = scope_of names d" by auto
    with dep [OF e rd] e(1) show "(x, y) \<in> (\<lambda>e. scope_of names (e_path e)) ` set es \<times>
      (\<lambda>e. scope_of names (e_path e)) ` set es" by blast
  qed
qed

lemma directory_units_ok:
  assumes ms: "\<And>m. m \<in> set ms \<Longrightarrow> wf_tree nfc (entries m)" and names: "names_ok nfc names"
  shows "\<exists>us. directory_merge_units nfc ms names = Inr us \<and>
    is_partition us (all_scopes names ms) (linked (all_scopes names ms) (all_edges names ms))"
proof -
  let ?scopes = "remdups (map (\<lambda>e. scope_of names (e_path e)) (concat (map entries ms)))"
  let ?edges = "concat (map (\<lambda>m. unit_edges names (entries m)) ms)"
  have s: "set ?scopes = all_scopes names ms" by (auto simp: all_scopes_def)
  have e: "set ?edges = all_edges names ms" by (simp add: all_edges_def)
  have "all_edges names ms \<subseteq> all_scopes names ms \<times> all_scopes names ms"
    unfolding all_edges_def all_scopes_def using unit_edges_scopes [OF ms] by fastforce
  then have "set ?edges \<subseteq> set ?scopes \<times> set ?scopes" by (simp only: s e)
  from connected_units_ok [OF _ this] obtain us where
    us: "bind_res (connect_all (new_scopes ?scopes) ?edges) units = Inr us"
    "is_partition us (all_scopes names ms) (linked (all_scopes names ms) (all_edges names ms))"
    by (auto simp only: s e distinct_remdups)
  have "each (\<lambda>name. bind_res (validate_relative_path nfc name) (\<lambda>_.
      require (slash \<notin> set name) (ValueError ''skill merge member must be a top-level name''))) names = Inr ()"
    using names by (auto simp: names_ok_def list_all_iff)
  moreover have "fold_res (\<lambda>ps m. fold_res (connect_entry names (by_path (entries m))) ps (entries m))
      (new_scopes ?scopes) ms = connect_all (new_scopes ?scopes) ?edges"
    by (rule connect_manifests_edges) (use ms wf_tree_parts(3) in blast)
  ultimately have "directory_merge_units nfc ms names = bind_res (connect_all (new_scopes ?scopes) ?edges) units"
    unfolding directory_merge_units_def Let_def by (simp only: bind_res_simps)
  then have "directory_merge_units nfc ms names = Inr us" using us(1) by (rule trans)
  with us(2) show ?thesis by blast
qed

section \<open>Closed parts of a tree\<close>

text \<open>
  A part of a checked tree that keeps the parents and the link dependencies of its entries is a
  checked tree.
\<close>

lemma wf_tree_filter:
  assumes wf: "wf_tree nfc es"
    and anc: "\<And>e d. e \<in> set es \<Longrightarrow> P e \<Longrightarrow> d \<in> set es \<Longrightarrow> e_path d \<in> set (ancestors (e_path e)) \<Longrightarrow> P d"
    and dep: "\<And>e r deps d. e \<in> set es \<Longrightarrow> P e \<Longrightarrow> e_kind e = Symlink \<Longrightarrow>
      resolve_manifest_link e (by_path es) = Inr (r, deps) \<Longrightarrow> d \<in> set es \<Longrightarrow> e_path d \<in> set deps \<Longrightarrow> P d"
  shows "wf_tree nfc (filter P es)"
proof -
  note w = wf_tree_parts [OF wf]
  have s: "paths_sorted (filter P es)" using w(1) by (rule paths_sorted_filter)
  have sum: "sum_list (map e_size (filter P es)) \<le> sum_list (map e_size es)"
    using w(4) by (induction es) (auto simp: sizes_nonneg_def)
  have "parents_closed (filter P es)"
    unfolding parents_closed_def
  proof (intro ballI)
    fix e a assume e: "e \<in> set (filter P es)" "a \<in> set (ancestors (e_path e))"
    then have "\<exists>d \<in> set es. e_path d = a \<and> e_kind d = Directory"
      using w(2) unfolding parents_closed_def by (simp only: set_filter mem_Collect_eq) blast
    then obtain d where d: "d \<in> set es" "e_path d = a" "e_kind d = Directory" by blast
    have "P d" using anc [of e d] e d(1,2) by (simp only: set_filter mem_Collect_eq)
    with d show "\<exists>d \<in> set (filter P es). e_path d = a \<and> e_kind d = Directory"
      by (simp only: set_filter mem_Collect_eq) blast
  qed
  moreover have "links_ok (filter P es)"
    unfolding links_ok_def
  proof (intro ballI impI)
    fix e assume e: "e \<in> set (filter P es)" "e_kind e = Symlink"
    then have "\<exists>x. resolve_manifest_link e (by_path es) = Inr x" using w(3) by (simp add: links_ok_def)
    then obtain r deps where r: "resolve_manifest_link e (by_path es) = Inr (r, deps)" by auto
    have "resolve_manifest_link e (by_path (filter P es)) = Inr (r, deps)"
    proof (rule resolve_link_by_path_agree [OF r w(1) s])
      fix k x assume x: "k \<in> set deps" "x \<in> set es" "e_path x = k"
      have "e \<in> set es" "P e" using e(1) by (simp_all only: set_filter mem_Collect_eq)
      from dep [OF this e(2) r x(2)] x show "x \<in> set (filter P es)" by simp
    qed
    then show "\<exists>r. resolve_manifest_link e (by_path (filter P es)) = Inr r" by blast
  qed
  moreover have "length (filter P es) \<le> 100000" using w(7) length_filter_le [of P es] by linarith
  ultimately show ?thesis
    using s sum w(6,8) wf by (auto simp: wf_tree_def tree_ok_def list_all_iff)
qed

abbreviation mk_manifest :: "entry list \<Rightarrow> manifest" where
  "mk_manifest es \<equiv> \<lparr>version = 1, entries = es\<rparr>"

lemma new_manifest_wf: "wf_tree nfc es \<Longrightarrow> new_manifest es = Inr (mk_manifest es)"
  using wf_tree_sizes [of nfc es] by (simp add: new_manifest_iff wf_tree_def)

lemma manifest_ok_mk [simp]: "manifest_ok nfc (mk_manifest es) \<longleftrightarrow> wf_tree nfc es"
  by (simp add: manifest_ok_iff)

section \<open>The units as an index\<close>

lemma is_partition_distinct_concat:
  assumes p: "is_partition us K R" and eq: "equiv K R"
  shows "distinct (concat us)"
proof (rule distinct_concat)
  show "distinct us" using p by (simp add: is_partition_def strict_sorted_iff)
  show "distinct u" if "u \<in> set us" for u using p that by (auto simp: is_partition_def strict_sorted_iff)
  show "set u \<inter> set v = {}" if "u \<in> set us" "v \<in> set us" "u \<noteq> v" for u v
  proof -
    have "set u \<in> K // R" "set v \<in> K // R" using p that by (auto simp: is_partition_def)
    moreover have "set u \<noteq> set v"
    proof
      assume "set u = set v"
      moreover have "sorted_wrt (<) u" "sorted_wrt (<) v" using p that by (auto simp: is_partition_def)
      ultimately have "u = v" by (simp add: strict_sorted_equal)
      with that show False by simp
    qed
    ultimately show ?thesis using quotient_disj [OF eq] by blast
  qed
qed

lemma unit_for_scope_iff:
  assumes "distinct (concat us)"
  shows "unit_for_scope us s = Some i \<longleftrightarrow> i < length us \<and> s \<in> set (us ! i)"
proof -
  let ?L = "concat (map (\<lambda>(index, unit). map (\<lambda>name. (name, index)) unit) (enumerate 0 us))"
  have f: "map fst (concat (map (\<lambda>(index, unit). map (\<lambda>name. (name, index)) unit) (enumerate n us))) = concat us" for n
    by (induction us arbitrary: n) (auto simp: o_def)
  then have "distinct (map fst (rev ?L))" using assms by (simp add: rev_map [symmetric])
  then have "unit_for_scope us s = Some i \<longleftrightarrow> (s, i) \<in> set (rev ?L)"
    unfolding unit_for_scope_def by (rule map_of_eq_Some_iff)
  also have "\<dots> \<longleftrightarrow> i < length us \<and> s \<in> set (us ! i)"
  proof -
    have "(s, i) \<in> set ?L \<longleftrightarrow> (\<exists>x \<in> set (enumerate 0 us). i = fst x \<and> s \<in> set (snd x))"
      by (auto simp: split_def)
    also have "\<dots> \<longleftrightarrow> i < length us \<and> s \<in> set (us ! i)"
      by (auto simp: in_set_enumerate_eq intro!: bexI [of _ "(i, us ! i)"])
    finally show ?thesis by simp
  qed
  finally show ?thesis .
qed

lemma is_partition_cover:
  assumes p: "is_partition us K R" and eq: "equiv K R" and s: "s \<in> K"
  shows "\<exists>i < length us. s \<in> set (us ! i)"
proof -
  have "R `` {s} \<in> set ` set us" using p s by (auto simp: is_partition_def intro: quotientI)
  moreover have "s \<in> R `` {s}" using eq s by (rule equiv_class_self)
  ultimately obtain u where "u \<in> set us" "s \<in> set u" by auto
  then show ?thesis by (metis in_set_conv_nth)
qed

lemma is_partition_related:
  assumes p: "is_partition us K R" and eq: "equiv K R" and "(s, t) \<in> R" "i < length us"
  shows "s \<in> set (us ! i) \<longleftrightarrow> t \<in> set (us ! i)"
proof -
  have "set (us ! i) \<in> K // R" using p assms(4) by (force simp: is_partition_def)
  then show ?thesis using eq assms(3) by (auto simp: quotient_def elim!: equivE dest: symD transD)
qed

section \<open>The merge, unit by unit\<close>

text \<open>The part of a tree that belongs to one unit, and the merge of one unit.\<close>

definition unit_part :: "pystr list \<Rightarrow> pystr list \<Rightarrow> entry list \<Rightarrow> entry list" where
  "unit_part names u es = filter (\<lambda>e. scope_of names (e_path e) \<in> set u) es"

definition unit_result :: "pystr list \<Rightarrow> pystr list \<Rightarrow> manifest \<Rightarrow> manifest \<Rightarrow> manifest \<Rightarrow> merge_result" where
  "unit_result names u base current incoming =
     merge_manifests (mk_manifest (unit_part names u (entries base)))
       (mk_manifest (unit_part names u (entries current)))
       (mk_manifest (unit_part names u (entries incoming)))"

definition merged_entries :: "merge_result \<Rightarrow> entry list" where
  "merged_entries r = (case merged r of None \<Rightarrow> [] | Some m \<Rightarrow> entries m)"

text \<open>What the merge of the three checked trees works with.\<close>

definition merge_units_ok ::
  "(pystr \<Rightarrow> bool) \<Rightarrow> pystr list \<Rightarrow> manifest list \<Rightarrow> pystr list list \<Rightarrow> bool"
where
  "merge_units_ok nfc names ms us \<longleftrightarrow>
     list_all (\<lambda>m. wf_tree nfc (entries m)) ms \<and>
     is_partition us (all_scopes names ms) (linked (all_scopes names ms) (all_edges names ms))"

lemma merge_units_okD:
  assumes "merge_units_ok nfc names ms us"
  shows "distinct (concat us)" "m \<in> set ms \<Longrightarrow> wf_tree nfc (entries m)"
    "m \<in> set ms \<Longrightarrow> e \<in> set (entries m) \<Longrightarrow> \<exists>i < length us. scope_of names (e_path e) \<in> set (us ! i)"
proof -
  have p: "is_partition us (all_scopes names ms) (linked (all_scopes names ms) (all_edges names ms))"
    and w: "\<forall>m \<in> set ms. wf_tree nfc (entries m)"
    using assms by (simp_all add: merge_units_ok_def list_all_iff)
  show "distinct (concat us)" by (rule is_partition_distinct_concat [OF p equiv_linked])
  show "wf_tree nfc (entries m)" if "m \<in> set ms" using w that by blast
  show "\<exists>i < length us. scope_of names (e_path e) \<in> set (us ! i)" if "m \<in> set ms" "e \<in> set (entries m)"
    by (rule is_partition_cover [OF p equiv_linked]) (use that in \<open>auto simp: all_scopes_def\<close>)
qed

lemma unit_part_wf:
  assumes ok: "merge_units_ok nfc names ms us" and m: "m \<in> set ms" and u: "u \<in> set us"
  shows "wf_tree nfc (unit_part names u (entries m))"
  unfolding unit_part_def
proof (rule wf_tree_filter)
  show wf: "wf_tree nfc (entries m)" using ok m by (rule merge_units_okD)
  fix e d
  assume ed: "e \<in> set (entries m)" "d \<in> set (entries m)"
  show "scope_of names (e_path d) \<in> set u"
    if "scope_of names (e_path e) \<in> set u" "e_path d \<in> set (ancestors (e_path e))"
    using that scope_of_within [of "e_path e" "e_path d" names] by (simp add: set_ancestors)
  fix r deps
  assume e: "e_kind e = Symlink" "resolve_manifest_link e (by_path (entries m)) = Inr (r, deps)"
    and d: "e_path d \<in> set deps" and s: "scope_of names (e_path e) \<in> set u"
  let ?K = "all_scopes names ms" and ?E = "all_edges names ms"
  have "(scope_of names (e_path e), scope_of names (e_path d)) \<in> set (unit_edges names (entries m))"
    using ed e d by (force simp: unit_edges_def)
  then have "(scope_of names (e_path e), scope_of names (e_path d)) \<in> linked ?K ?E"
    using m ed by (intro linked_edge) (auto simp: all_edges_def all_scopes_def)
  moreover obtain i where "i < length us" "u = us ! i" using u by (metis in_set_conv_nth)
  ultimately show "scope_of names (e_path d) \<in> set u"
    using is_partition_related [OF _ equiv_linked, of us ?K ?E] ok s by (auto simp: merge_units_ok_def)
qed

lemma partition_entries_ok:
  assumes ok: "merge_units_ok nfc names ms us" and m: "m \<in> set ms"
  shows "partition_entries names us m = Inr (map (\<lambda>u. unit_part names u (entries m)) us)"
proof -
  note d = merge_units_okD [OF ok]
  have "scope_of names (e_path e) \<in> dom (unit_for_scope us)" if "e \<in> set (entries m)" for e
    using d(3) [OF m that] by (auto simp: unit_for_scope_iff [OF d(1)] dom_def)
  moreover have "map (\<lambda>i. filter (\<lambda>e. unit_for_scope us (scope_of names (e_path e)) = Some i) (entries m)) [0..<length us]
      = map (\<lambda>u. unit_part names u (entries m)) us"
    by (rule nth_equalityI) (auto simp: unit_part_def unit_for_scope_iff [OF d(1)] intro!: filter_cong)
  ultimately show ?thesis by (simp add: partition_entries_def)
qed

lemma merge_units_fold:
  assumes "\<And>u. u \<in> set us \<Longrightarrow> wf_tree nfc (f u) \<and> wf_tree nfc (g u) \<and> wf_tree nfc (h u)"
  shows "fold_res (merge_unit (map f us) (map g us) (map h us)) (ms, cs) (enumerate 0 us) =
    Inr (ms @ concat (map (\<lambda>u. merged_entries (merge_manifests (mk_manifest (f u)) (mk_manifest (g u)) (mk_manifest (h u)))) us),
         cs @ concat (map (\<lambda>u. map (\<lambda>x. x\<lparr>c_unit := u\<rparr>)
           (conflicts (merge_manifests (mk_manifest (f u)) (mk_manifest (g u)) (mk_manifest (h u))))) us))"
proof -
  have "fold_res (merge_unit (map f (vs @ us)) (map g (vs @ us)) (map h (vs @ us))) (ms, cs) (enumerate (length vs) us) =
    Inr (ms @ concat (map (\<lambda>u. merged_entries (merge_manifests (mk_manifest (f u)) (mk_manifest (g u)) (mk_manifest (h u)))) us),
         cs @ concat (map (\<lambda>u. map (\<lambda>x. x\<lparr>c_unit := u\<rparr>)
           (conflicts (merge_manifests (mk_manifest (f u)) (mk_manifest (g u)) (mk_manifest (h u))))) us))" for vs
    using assms
  proof (induction us arbitrary: vs ms cs)
    case (Cons u us)
    have "new_manifest (f u) = Inr (mk_manifest (f u))" "new_manifest (g u) = Inr (mk_manifest (g u))"
      "new_manifest (h u) = Inr (mk_manifest (h u))"
      using Cons.prems by (auto intro: new_manifest_wf)
    then have step: "merge_unit (map f (vs @ u # us)) (map g (vs @ u # us)) (map h (vs @ u # us)) (ms, cs) (length vs, u) =
      Inr (ms @ merged_entries (merge_manifests (mk_manifest (f u)) (mk_manifest (g u)) (mk_manifest (h u))),
           cs @ map (\<lambda>x. x\<lparr>c_unit := u\<rparr>) (conflicts (merge_manifests (mk_manifest (f u)) (mk_manifest (g u)) (mk_manifest (h u)))))"
      by (simp add: merge_unit_def nth_append merged_entries_def Let_def)
    show ?case
      using Cons.IH [of "vs @ [u]"] Cons.prems by (simp add: step del: map_append)
  qed simp
  from this [of "[]"] show ?thesis by simp
qed

lemma merge_directory_unfold:
  assumes "manifest_ok nfc base" "manifest_ok nfc current" "manifest_ok nfc incoming" "names_ok nfc names"
  shows "\<exists>us. directory_merge_units nfc [base, current, incoming] names = Inr us \<and>
    merge_units_ok nfc names [base, current, incoming] us \<and>
    merge_directory_manifests nfc base current incoming names =
      (let rs = map (\<lambda>u. unit_result names u base current incoming) us;
           cs = concat (map (\<lambda>u. map (\<lambda>x. x\<lparr>c_unit := u\<rparr>) (conflicts (unit_result names u base current incoming))) us)
       in if cs \<noteq> [] then Inr \<lparr>merged = None, conflicts = cs, result_units = us\<rparr>
          else bind_res (new_manifest (sort_key e_path (concat (map merged_entries rs)))) (\<lambda>m.
            Inr \<lparr>merged = Some m, conflicts = [], result_units = us\<rparr>))"
proof -
  let ?ms = "[base, current, incoming]"
  have wf: "\<And>m. m \<in> set ?ms \<Longrightarrow> wf_tree nfc (entries m)" using assms(1-3) by (auto simp: manifest_ok_iff)
  from directory_units_ok [OF wf assms(4)] obtain us where
    us: "directory_merge_units nfc ?ms names = Inr us"
    "is_partition us (all_scopes names ?ms) (linked (all_scopes names ?ms) (all_edges names ?ms))" by blast
  then have ok: "merge_units_ok nfc names ?ms us" using wf by (simp add: merge_units_ok_def)
  note parts = partition_entries_ok [OF ok]
  have "fold_res (merge_unit (map (\<lambda>u. unit_part names u (entries base)) us)
      (map (\<lambda>u. unit_part names u (entries current)) us)
      (map (\<lambda>u. unit_part names u (entries incoming)) us)) ([], []) (enumerate 0 us) =
    Inr (concat (map merged_entries (map (\<lambda>u. unit_result names u base current incoming) us)),
      concat (map (\<lambda>u. map (\<lambda>x. x\<lparr>c_unit := u\<rparr>) (conflicts (unit_result names u base current incoming))) us))"
    using merge_units_fold [of us nfc "\<lambda>u. unit_part names u (entries base)"
        "\<lambda>u. unit_part names u (entries current)" "\<lambda>u. unit_part names u (entries incoming)" "[]" "[]"]
      unit_part_wf [OF ok]
    by (simp add: unit_result_def o_def)
  with us ok parts show ?thesis
    by (simp add: merge_directory_manifests_def Let_def)
qed

section \<open>The merged directory\<close>

lemma distinct_concat_map:
  assumes "distinct us" "\<And>u. u \<in> set us \<Longrightarrow> distinct (f u)"
    and "\<And>u v. u \<in> set us \<Longrightarrow> v \<in> set us \<Longrightarrow> u \<noteq> v \<Longrightarrow> set (f u) \<inter> set (f v) = {}"
  shows "distinct (concat (map f us))"
  using assms
proof (induction us)
  case (Cons u us)
  have "set (f u) \<inter> set (concat (map f us)) = {}"
    using Cons.prems(1,3) by fastforce
  with Cons show ?case by auto
qed simp

lemma by_path_unit_part:
  assumes "paths_sorted es"
  shows "by_path (unit_part names u es) p = (if scope_of names p \<in> set u then by_path es p else None)"
proof -
  have "by_path (unit_part names u es) p =
    (case by_path es p of None \<Rightarrow> None | Some x \<Rightarrow> if scope_of names (e_path x) \<in> set u then Some x else None)"
    unfolding unit_part_def by (rule index_by_filter) (rule paths_sorted_distinct [OF assms])
  then show ?thesis by (auto split: option.splits dest: index_by_Some)
qed

text \<open>The situation in which no unit conflicts, with the merged trees \<open>M u\<close>.\<close>

lemma merged_units:
  assumes ok: "merge_units_ok nfc names [base, current, incoming] us"
    and M: "\<forall>u \<in> set us. merged (unit_result names u base current incoming) = Some (M u)"
  defines "L \<equiv> sort_key e_path (concat (map (\<lambda>u. entries (M u)) us))"
  shows "paths_sorted L"
    and "\<And>u. u \<in> set us \<Longrightarrow> manifest_ok nfc (M u)"
    and "by_path L = (\<lambda>p. three_way (by_path (entries base) p) (by_path (entries current) p) (by_path (entries incoming) p))"
    and "\<And>p. \<not> both_changed (by_path (entries base) p) (by_path (entries current) p) (by_path (entries incoming) p)"
    and "set L = (\<Union>u \<in> set us. set (entries (M u)))"
proof -
  let ?b = "by_path (entries base)" and ?c = "by_path (entries current)" and ?i = "by_path (entries incoming)"
  have wf: "wf_tree nfc (entries base)" "wf_tree nfc (entries current)" "wf_tree nfc (entries incoming)"
    using ok by (auto dest: merge_units_okD(2))
  note srt = wf(1) [THEN wf_tree_sorted] wf(2) [THEN wf_tree_sorted] wf(3) [THEN wf_tree_sorted]
  have part: "manifest_ok nfc (mk_manifest (unit_part names u (entries m)))" if "u \<in> set us" "m \<in> {base, current, incoming}" for u m
    using unit_part_wf [OF ok, of m u] that by auto
  have Mok: "manifest_ok nfc (M u)" if u: "u \<in> set us" for u
    using M [rule_format, OF u, unfolded unit_result_def]
    by (rule merge_manifests_ok [rotated 3]) (use part [OF u] in auto)
  show "\<And>u. u \<in> set us \<Longrightarrow> manifest_ok nfc (M u)" by (rule Mok)
  have Mb: "by_path (entries (M u)) p = (if scope_of names p \<in> set u then three_way (?b p) (?c p) (?i p) else None) \<and>
      (scope_of names p \<in> set u \<longrightarrow> \<not> both_changed (?b p) (?c p) (?i p))" if u: "u \<in> set us" for u p
  proof -
    have "paths_sorted (unit_part names u es)" if "paths_sorted es" for es
      unfolding unit_part_def using that by (rule paths_sorted_filter)
    with merge_manifests_merged_cases [OF M [rule_format, OF u, unfolded unit_result_def]] srt
    have "\<not> both_changed (by_path (unit_part names u (entries base)) p) (by_path (unit_part names u (entries current)) p)
        (by_path (unit_part names u (entries incoming)) p)"
      and "by_path (entries (M u)) p = three_way (by_path (unit_part names u (entries base)) p)
        (by_path (unit_part names u (entries current)) p) (by_path (unit_part names u (entries incoming)) p)"
      by simp_all
    then show ?thesis
      by (cases "scope_of names p \<in> set u") (simp_all add: by_path_unit_part srt three_way_def)
  qed
  have unit_scope: "scope_of names (e_path e) \<in> set u" if "u \<in> set us" "e \<in> set (entries (M u))" for u e
  proof -
    have "paths_sorted (entries (M u))"
      using Mok [OF that(1)] by (auto simp: manifest_ok_iff dest: wf_tree_sorted)
    then have "by_path (entries (M u)) (e_path e) = Some e" using that(2) by (simp add: by_path_iff)
    with Mb [OF that(1), of "e_path e"] show ?thesis by (simp split: if_splits)
  qed
  have dc: "distinct (concat us)" using ok by (rule merge_units_okD)
  have disj: "u = v" if "u \<in> set us" "v \<in> set us" "s \<in> set u" "s \<in> set v" for u v s
  proof -
    from that obtain i j where ij: "i < length us" "j < length us" "u = us ! i" "v = us ! j"
      by (metis in_set_conv_nth)
    with that unit_for_scope_iff [OF dc, of s i] unit_for_scope_iff [OF dc, of s j] show ?thesis by auto
  qed
  have du: "distinct us" using ok by (auto simp: merge_units_ok_def is_partition_def strict_sorted_iff)
  have dist: "distinct (map e_path (concat (map (\<lambda>u. entries (M u)) us)))"
  proof -
    have "distinct (concat (map (\<lambda>u. map e_path (entries (M u))) us))"
    proof (rule distinct_concat_map [OF du])
      show "distinct (map e_path (entries (M u)))" if "u \<in> set us" for u
        using Mok [OF that] by (auto simp: manifest_ok_iff dest: wf_tree_sorted paths_sorted_distinct)
      show "set (map e_path (entries (M u))) \<inter> set (map e_path (entries (M v))) = {}"
        if "u \<in> set us" "v \<in> set us" "u \<noteq> v" for u v
        using unit_scope that disj by fastforce
    qed
    then show ?thesis by (simp add: map_concat o_def)
  qed
  show s: "paths_sorted L"
    unfolding L_def paths_sorted_def using dist by (rule strict_sorted_sort_key)
  show setL: "set L = (\<Union>u \<in> set us. set (entries (M u)))" by (simp add: L_def)
  have cover: "\<exists>u \<in> set us. scope_of names p \<in> set u" if "?b p \<noteq> None \<or> ?c p \<noteq> None \<or> ?i p \<noteq> None" for p
  proof -
    from that obtain m e where "m \<in> set [base, current, incoming]" "e \<in> set (entries m)" "e_path e = p"
      by (auto dest!: index_by_Some)
    with merge_units_okD(3) [OF ok] show ?thesis by (metis nth_mem)
  qed
  have "by_path L p = three_way (?b p) (?c p) (?i p) \<and> \<not> both_changed (?b p) (?c p) (?i p)" for p
  proof (cases "\<exists>u \<in> set us. scope_of names p \<in> set u")
    case True
    then obtain u where u: "u \<in> set us" "scope_of names p \<in> set u" by blast
    have "by_path L p = by_path (entries (M u)) p"
    proof -
      have sM: "paths_sorted (entries (M u))"
        using Mok [OF u(1)] by (auto simp: manifest_ok_iff dest: wf_tree_sorted)
      have "by_path L p = Some e \<longleftrightarrow> by_path (entries (M u)) p = Some e" for e
        unfolding by_path_iff [OF s] by_path_iff [OF sM] setL
        using u unit_scope disj by blast
      then show ?thesis by (metis not_None_eq)
    qed
    with Mb [OF u(1), of p] u(2) show ?thesis by simp
  next
    case False
    with cover have "?b p = None" "?c p = None" "?i p = None" by blast+
    moreover have "by_path L p = None"
      unfolding index_by_None_iff setL using False unit_scope by fastforce
    ultimately show ?thesis by (simp add: three_way_def both_changed_def)
  qed
  then show "by_path L = (\<lambda>p. three_way (?b p) (?c p) (?i p))"
    and "\<And>p. \<not> both_changed (?b p) (?c p) (?i p)" by auto
qed

lemma merged_units_ok:
  assumes ok: "merge_units_ok nfc names [base, current, incoming] us"
    and M: "\<forall>u \<in> set us. merged (unit_result names u base current incoming) = Some (M u)"
  defines "L \<equiv> sort_key e_path (concat (map (\<lambda>u. entries (M u)) us))"
  shows "[] \<notin> e_path ` set L" "parents_closed L" "links_ok L" "list_all (entry_ok nfc) L"
proof -
  note mu = merged_units [OF ok M, folded L_def]
  have wf: "wf_tree nfc (entries (M u))" if "u \<in> set us" for u
    using mu(2) [OF that] by (simp add: manifest_ok_iff)
  show "[] \<notin> e_path ` set L" using wf_tree_parts(6) [OF wf] mu(5) by auto
  show "list_all (entry_ok nfc) L" using wf mu(5) by (auto simp: wf_tree_def list_all_iff)
  show "parents_closed L"
    unfolding parents_closed_def
  proof (intro ballI)
    fix e a assume e: "e \<in> set L" "a \<in> set (ancestors (e_path e))"
    then obtain u where u: "u \<in> set us" "e \<in> set (entries (M u))" using mu(5) by auto
    then have "\<exists>d \<in> set (entries (M u)). e_path d = a \<and> e_kind d = Directory"
      using wf_tree_parts(2) [OF wf [OF u(1)]] e(2) unfolding parents_closed_def by blast
    with mu(5) u(1) show "\<exists>d \<in> set L. e_path d = a \<and> e_kind d = Directory" by blast
  qed
  show "links_ok L"
    unfolding links_ok_def
  proof (intro ballI impI)
    fix e assume e: "e \<in> set L" "e_kind e = Symlink"
    then obtain u where u: "u \<in> set us" "e \<in> set (entries (M u))" using mu(5) by auto
    note w = wf_tree_parts [OF wf [OF u(1)]]
    from u e w(3) have "\<exists>x. resolve_manifest_link e (by_path (entries (M u))) = Inr x"
      by (simp add: links_ok_def)
    then obtain r deps where r: "resolve_manifest_link e (by_path (entries (M u))) = Inr (r, deps)" by auto
    have "resolve_manifest_link e (by_path L) = Inr (r, deps)"
      by (rule resolve_link_by_path_agree [OF r w(1) mu(1)]) (use mu(5) u(1) in blast)
    then show "\<exists>r. resolve_manifest_link e (by_path L) = Inr r" by blast
  qed
qed

lemma no_conflict_units:
  assumes "concat (map (\<lambda>u. map (\<lambda>x. x\<lparr>c_unit := u\<rparr>) (conflicts (unit_result names u base current incoming))) us) = []"
  shows "\<exists>M. \<forall>u \<in> set us. merged (unit_result names u base current incoming) = Some (M u)"
proof -
  have "\<exists>m. merged (unit_result names u base current incoming) = Some m" if "u \<in> set us" for u
  proof -
    have "conflicts (unit_result names u base current incoming) = []" using assms that by simp
    then show ?thesis
      using merge_manifests_result [of "mk_manifest (unit_part names u (entries base))"
          "mk_manifest (unit_part names u (entries current))" "mk_manifest (unit_part names u (entries incoming))"]
      by (auto simp: unit_result_def merged_result_def conflict_result_def)
  qed
  then show ?thesis by metis
qed

text \<open>Everything the successful merge of a directory guarantees.\<close>

lemma merge_directory_merged:
  assumes ok: "manifest_ok nfc base" "manifest_ok nfc current" "manifest_ok nfc incoming" "names_ok nfc names"
    and r: "merge_directory_manifests nfc base current incoming names = Inr r" "merged r = Some m"
  shows "manifest_ok nfc m"
    "by_path (entries m) = (\<lambda>p. three_way (by_path (entries base) p) (by_path (entries current) p) (by_path (entries incoming) p))"
    "\<not> both_changed (by_path (entries base) p) (by_path (entries current) p) (by_path (entries incoming) p)"
proof -
  from merge_directory_unfold [OF ok] obtain us where
    us: "merge_units_ok nfc names [base, current, incoming] us"
    and eq: "merge_directory_manifests nfc base current incoming names =
      (let rs = map (\<lambda>u. unit_result names u base current incoming) us;
           cs = concat (map (\<lambda>u. map (\<lambda>x. x\<lparr>c_unit := u\<rparr>) (conflicts (unit_result names u base current incoming))) us)
       in if cs \<noteq> [] then Inr \<lparr>merged = None, conflicts = cs, result_units = us\<rparr>
          else bind_res (new_manifest (sort_key e_path (concat (map merged_entries rs)))) (\<lambda>m.
            Inr \<lparr>merged = Some m, conflicts = [], result_units = us\<rparr>))" by blast
  have nc: "concat (map (\<lambda>u. map (\<lambda>x. x\<lparr>c_unit := u\<rparr>) (conflicts (unit_result names u base current incoming))) us) = []"
    using r unfolding eq Let_def by (auto split: if_splits)
  from no_conflict_units [OF nc] obtain M where
    M: "\<forall>u \<in> set us. merged (unit_result names u base current incoming) = Some (M u)" by blast
  let ?L = "sort_key e_path (concat (map (\<lambda>u. entries (M u)) us))"
  have rs: "map merged_entries (map (\<lambda>u. unit_result names u base current incoming) us) = map (\<lambda>u. entries (M u)) us"
    using M by (simp add: merged_entries_def)
  have nm: "new_manifest ?L = Inr m"
    using r nc unfolding eq Let_def rs by auto
  note mu = merged_units [OF us M] and mo = merged_units_ok [OF us M]
  have e: "entries m = ?L" using nm by (rule new_manifest_entries)
  with nm mo(4) show "manifest_ok nfc m" by (simp add: manifest_ok_def)
  show "by_path (entries m) = (\<lambda>p. three_way (by_path (entries base) p) (by_path (entries current) p) (by_path (entries incoming) p))"
    unfolding e by (rule mu(3))
  show "\<not> both_changed (by_path (entries base) p) (by_path (entries current) p) (by_path (entries incoming) p)"
    by (rule mu(4))
qed

lemma sum_list_subset:
  assumes "distinct xs" "set xs \<subseteq> set ys \<union> set zs" "\<And>x. x \<in> set ys \<union> set zs \<Longrightarrow> 0 \<le> (f x :: int)" "distinct ys" "distinct zs"
  shows "sum_list (map f xs) \<le> sum_list (map f ys) + sum_list (map f zs)"
proof -
  have "sum_list (map f xs) = sum f (set xs)" using assms(1) by (simp add: sum_list_distinct_conv_sum_set)
  also have "\<dots> \<le> sum f (set ys \<union> set zs)" using assms(2,3) by (intro sum_mono2) auto
  also have "\<dots> \<le> sum f (set ys) + sum f (set zs)"
    using sum.union_inter [of "set ys" "set zs" f] sum_nonneg [of "set ys \<inter> set zs" f] assms(3) by simp
  also have "\<dots> = sum_list (map f ys) + sum_list (map f zs)"
    using assms(4,5) by (simp add: sum_list_distinct_conv_sum_set)
  finally show ?thesis .
qed

lemma merge_directory_returns:
  assumes ok: "manifest_ok nfc base" "manifest_ok nfc current" "manifest_ok nfc incoming" "names_ok nfc names"
    and size: "length (entries current) + length (entries incoming) \<le> 100000"
      "total_bytes current + total_bytes incoming \<le> max_bytes"
  shows "\<exists>r. merge_directory_manifests nfc base current incoming names = Inr r \<and>
    (merged r = None \<longleftrightarrow> conflicts r \<noteq> []) \<and> c_unit ` set (conflicts r) \<subseteq> set (result_units r)"
proof -
  from merge_directory_unfold [OF ok] obtain us where
    us: "merge_units_ok nfc names [base, current, incoming] us"
    and eq: "merge_directory_manifests nfc base current incoming names =
      (let rs = map (\<lambda>u. unit_result names u base current incoming) us;
           cs = concat (map (\<lambda>u. map (\<lambda>x. x\<lparr>c_unit := u\<rparr>) (conflicts (unit_result names u base current incoming))) us)
       in if cs \<noteq> [] then Inr \<lparr>merged = None, conflicts = cs, result_units = us\<rparr>
          else bind_res (new_manifest (sort_key e_path (concat (map merged_entries rs)))) (\<lambda>m.
            Inr \<lparr>merged = Some m, conflicts = [], result_units = us\<rparr>))" by blast
  let ?cs = "concat (map (\<lambda>u. map (\<lambda>x. x\<lparr>c_unit := u\<rparr>) (conflicts (unit_result names u base current incoming))) us)"
  show ?thesis
  proof (cases "?cs = []")
    case False
    then show ?thesis unfolding eq Let_def by auto
  next
    case True
    from no_conflict_units [OF this] obtain M where
      M: "\<forall>u \<in> set us. merged (unit_result names u base current incoming) = Some (M u)" by blast
    let ?L = "sort_key e_path (concat (map (\<lambda>u. entries (M u)) us))"
    have rs: "map merged_entries (map (\<lambda>u. unit_result names u base current incoming) us) = map (\<lambda>u. entries (M u)) us"
      using M by (simp add: merged_entries_def)
    note mu = merged_units [OF us M] and mo = merged_units_ok [OF us M]
    have wc: "wf_tree nfc (entries current)" and wi: "wf_tree nfc (entries incoming)"
      using ok by (simp_all add: manifest_ok_iff)
    have d: "distinct (entries current)" "distinct (entries incoming)" "distinct ?L"
      using wc wi mu(1) by (auto dest!: wf_tree_sorted paths_sorted_distinct simp: distinct_map)
    have sub: "set ?L \<subseteq> set (entries current) \<union> set (entries incoming)"
    proof
      fix e assume "e \<in> set ?L"
      then have "by_path ?L (e_path e) = Some e" using mu(1) by (simp only: by_path_iff)
      then have "by_path (entries current) (e_path e) = Some e \<or> by_path (entries incoming) (e_path e) = Some e"
        using fun_cong [OF mu(3), of "e_path e"] by (auto simp: three_way_def split: if_splits)
      then show "e \<in> set (entries current) \<union> set (entries incoming)" by (auto dest: index_by_Some)
    qed
    have "length ?L = card (set ?L)" by (rule distinct_card [OF d(3), symmetric])
    also have "\<dots> \<le> card (set (entries current) \<union> set (entries incoming))"
      using sub by (intro card_mono) auto
    also have "\<dots> \<le> card (set (entries current)) + card (set (entries incoming))" by (rule card_Un_le)
    also have "\<dots> \<le> 100000"
      using size(1) card_length [of "entries current"] card_length [of "entries incoming"] by linarith
    finally have len: "length ?L \<le> 100000" .
    have "sum_list (map e_size ?L) \<le> sum_list (map e_size (entries current)) + sum_list (map e_size (entries incoming))"
      by (rule sum_list_subset [OF d(3) sub _ d(1,2)])
        (use wf_tree_sizes [OF wc] wf_tree_sizes [OF wi] in \<open>auto simp: sizes_nonneg_def\<close>)
    then have sum: "sum_list (map e_size ?L) \<le> max_bytes" using size(2) by (simp add: total_bytes_def)
    have "sizes_nonneg ?L" using mo(4) by (auto simp: sizes_nonneg_def list_all_iff dest: entry_ok_size)
    then have "new_manifest ?L = Inr (mk_manifest ?L)"
      using len sum mu(1) mo by (simp only: new_manifest_iff tree_ok_def simp_thms)
    with True show ?thesis unfolding eq Let_def rs by simp
  qed
qed

section \<open>Properties\<close>

text \<open>
  C23. A directory merge loses no update of either side: when it returns a tree, that tree is a
  checked manifest, every path holds what the side that changed it left there (or deleted), and no
  path was changed differently by both sides.
\<close>

theorem directory_merge_no_lost_update:
  assumes "manifest_ok nfc base" "manifest_ok nfc current" "manifest_ok nfc incoming" "names_ok nfc names"
    and "merge_directory_manifests nfc base current incoming names = Inr r" "merged r = Some m"
  shows "manifest_ok nfc m \<and> (\<forall>p.
    (by_path (entries current) p \<noteq> by_path (entries base) p \<longrightarrow>
      by_path (entries m) p = by_path (entries current) p) \<and>
    (by_path (entries incoming) p \<noteq> by_path (entries base) p \<longrightarrow>
      by_path (entries m) p = by_path (entries incoming) p) \<and>
    (by_path (entries current) p = by_path (entries base) p \<and>
      by_path (entries incoming) p = by_path (entries base) p \<longrightarrow>
      by_path (entries m) p = by_path (entries base) p))"
  using merge_directory_merged(1) [OF assms] merge_directory_merged(2) [OF assms]
    merge_directory_merged(3) [OF assms]
  by (auto simp: three_way_def both_changed_def)

text \<open>
  The merge units never separate what a link needs: every path of the input trees lies in
  exactly one unit, and the scope of a link and the scopes of all paths its resolution reads are in
  the same unit.
\<close>

theorem directory_units_keep_links:
  assumes "list_all (manifest_ok nfc) ms" "names_ok nfc names"
    and "directory_merge_units nfc ms names = Inr us" "m \<in> set ms" "e \<in> set (entries m)"
  shows "(\<exists>!u. u \<in> set us \<and> scope_of names (e_path e) \<in> set u) \<and>
    (e_kind e = Symlink \<longrightarrow> (\<exists>target deps. resolve_manifest_link e (by_path (entries m)) = Inr (target, deps) \<and>
      (\<forall>u \<in> set us. \<forall>d \<in> set deps. scope_of names (e_path e) \<in> set u \<longleftrightarrow> scope_of names d \<in> set u)))"
proof -
  let ?K = "all_scopes names ms" and ?E = "all_edges names ms"
  have wf: "wf_tree nfc (entries m)" if "m \<in> set ms" for m
    using assms(1) that by (simp add: list_all_iff manifest_ok_iff)
  have p: "is_partition us ?K (linked ?K ?E)"
    using directory_units_ok [of ms, OF wf assms(2)] assms(3) by auto
  have sK: "scope_of names (e_path e) \<in> ?K" using assms(4,5) by (auto simp: all_scopes_def)
  have "\<exists>!u. u \<in> set us \<and> scope_of names (e_path e) \<in> set u"
    using is_partition_cover [OF p equiv_linked sK] is_partition_distinct_concat [OF p equiv_linked]
      unit_for_scope_iff [of us "scope_of names (e_path e)"]
    by (metis in_set_conv_nth option.inject)
  moreover have "\<exists>target deps. resolve_manifest_link e (by_path (entries m)) = Inr (target, deps) \<and>
      (\<forall>u \<in> set us. \<forall>d \<in> set deps. scope_of names (e_path e) \<in> set u \<longleftrightarrow> scope_of names d \<in> set u)"
    if k: "e_kind e = Symlink"
  proof -
    obtain t deps where r: "resolve_manifest_link e (by_path (entries m)) = Inr (t, deps)"
      using wf_tree_parts(3) [OF wf [OF assms(4)]] assms(5) k by (auto simp: links_ok_def)
    have "(scope_of names (e_path e), scope_of names d) \<in> linked ?K ?E" if "d \<in> set deps" for d
    proof (rule linked_edge)
      show "(scope_of names (e_path e), scope_of names d) \<in> ?E"
        using assms(4,5) k r that by (force simp: all_edges_def unit_edges_def)
      then show "scope_of names d \<in> ?K"
        using unit_edges_scopes [OF wf, of _ names] by (fastforce simp: all_edges_def all_scopes_def)
    qed (rule sK)
    then have "\<forall>u \<in> set us. \<forall>d \<in> set deps. scope_of names (e_path e) \<in> set u \<longleftrightarrow> scope_of names d \<in> set u"
      using is_partition_related [OF p equiv_linked] by (metis in_set_conv_nth)
    with r show ?thesis by blast
  qed
  ultimately show ?thesis by blast
qed

text \<open>
  On checked trees whose two sides together stay within the limits of one manifest, the
  directory merge always returns: a tree or conflicts, never both and never neither, with every
  conflict attributed to one of the listed units.
\<close>

theorem directory_merge_atomic:
  assumes "manifest_ok nfc base" "manifest_ok nfc current" "manifest_ok nfc incoming" "names_ok nfc names"
    and "length (entries current) + length (entries incoming) \<le> 100000"
    and "total_bytes current + total_bytes incoming \<le> max_bytes"
  shows "\<exists>r. merge_directory_manifests nfc base current incoming names = Inr r \<and>
    (merged r = None \<longleftrightarrow> conflicts r \<noteq> []) \<and> c_unit ` set (conflicts r) \<subseteq> set (result_units r)"
  using assms by (rule merge_directory_returns)

section \<open>Witnesses\<close>

text \<open>
  Two skills \<open>a\<close> and \<open>b\<close> and a third \<open>c\<close> whose link reads \<open>a/f\<close>; the current side edits \<open>b\<close>, the
  incoming side removes the link.
\<close>

definition d_entries :: "nat \<Rightarrow> entry list \<Rightarrow> manifest" where
  "d_entries digit links = \<lparr>version = 1, entries =
     [s_dir [97], s_file [97, 47, 102] 1, s_dir [98], s_file [98, 47, 102] digit, s_dir [99]] @ links\<rparr>"

definition d_base :: manifest where
  "d_base = d_entries 1 [s_link [99, 47, 108] [46, 46, 47, 97, 47, 102]]"

definition d_current :: manifest where
  "d_current = d_entries 2 [s_link [99, 47, 108] [46, 46, 47, 97, 47, 102]]"

definition d_incoming :: manifest where
  "d_incoming = d_entries 1 []"

definition d_names :: "pystr list" where
  "d_names = [[97], [98], [99]]"

lemma d_ok: "manifest_ok ascii d_base" "manifest_ok ascii d_current" "manifest_ok ascii d_incoming"
  "names_ok ascii d_names"
  by code_simp+

lemma d_merge: "merge_directory_manifests ascii d_base d_current d_incoming d_names =
  Inr \<lparr>merged = Some (d_entries 2 []), conflicts = [], result_units = [[[97], [99]], [[98]]]\<rparr>"
  by code_simp

theorem directory_merge_no_lost_update_witness:
  "by_path (entries (d_entries 2 [])) [98, 47, 102] = by_path (entries d_current) [98, 47, 102] \<and>
   by_path (entries (d_entries 2 [])) [99, 47, 108] = by_path (entries d_incoming) [99, 47, 108]"
proof -
  have "by_path (entries d_current) [98, 47, 102] \<noteq> by_path (entries d_base) [98, 47, 102]"
    "by_path (entries d_incoming) [99, 47, 108] \<noteq> by_path (entries d_base) [99, 47, 108]"
    by code_simp+
  moreover note l = directory_merge_no_lost_update [OF d_ok d_merge, of "d_entries 2 []", simplified]
  ultimately show ?thesis
    using conjunct2 [OF l, rule_format, of "[98, 47, 102]"] conjunct2 [OF l, rule_format, of "[99, 47, 108]"]
    by simp
qed

theorem directory_units_keep_links_witness:
  "(\<exists>!u. u \<in> set [[[97], [99]], [[98]]] \<and> scope_of d_names [99, 47, 108] \<in> set u)"
proof -
  have "list_all (manifest_ok ascii) [d_base, d_current, d_incoming]" using d_ok by simp
  moreover have "directory_merge_units ascii [d_base, d_current, d_incoming] d_names = Inr [[[97], [99]], [[98]]]"
    by code_simp
  moreover have "d_base \<in> set [d_base, d_current, d_incoming]" by simp
  moreover have "s_link [99, 47, 108] [46, 46, 47, 97, 47, 102] \<in> set (entries d_base)"
    by (simp add: d_base_def d_entries_def)
  ultimately have "\<exists>!u. u \<in> set [[[97], [99]], [[98]]] \<and>
      scope_of d_names (e_path (s_link [99, 47, 108] [46, 46, 47, 97, 47, 102])) \<in> set u"
    using directory_units_keep_links [OF _ d_ok(4)] by blast
  then show ?thesis by (simp add: s_link_def)
qed

theorem directory_merge_atomic_witness:
  "\<exists>r. merge_directory_manifests ascii d_base d_current d_incoming d_names = Inr r \<and>
    (merged r = None \<longleftrightarrow> conflicts r \<noteq> []) \<and> c_unit ` set (conflicts r) \<subseteq> set (result_units r)"
proof -
  have "length (entries d_current) + length (entries d_incoming) \<le> 100000"
    "total_bytes d_current + total_bytes d_incoming \<le> max_bytes"
    by code_simp+
  then show ?thesis by (rule directory_merge_atomic [OF d_ok])
qed

text \<open>
  The size bound of the previous theorem is needed: two sides that add one maximal file each,
  in different skills, make the merge of the units exceed the byte limit, and the validation error
  of the combined tree leaves \<open>merge_directory_manifests\<close> instead of becoming a conflict, although
  \<open>merge_manifests\<close> on the same trees reports an \<open>invalid_tree\<close> conflict.
\<close>

definition big_side :: "pystr \<Rightarrow> manifest" where
  "big_side name = \<lparr>version = 1, entries =
     [s_dir name, (s_file (name @ [47, 102]) 1)\<lparr>e_size := max_bytes\<rparr>]\<rparr>"

definition big_base :: manifest where
  "big_base = \<lparr>version = 1, entries = []\<rparr>"

theorem directory_merge_overflow_raises:
  "manifest_ok ascii (big_side [97]) \<and> manifest_ok ascii (big_side [98]) \<and>
   merge_directory_manifests ascii big_base (big_side [97]) (big_side [98]) [[97], [98]] = Inl ValidationError \<and>
   merge_manifests big_base (big_side [97]) (big_side [98]) =
     conflict_result [\<lparr>c_path = dot, c_reason = Invalid_tree, c_unit = []\<rparr>]"
  by code_simp

end
