(* ===== verification/Digest.thy ===== *)
theory Digest
  imports Samples
begin

text \<open>
  The directory digest (\<open>manifest_digest\<close> in \<open>skill_manager/manifest.py\<close>). SHA-256 with its
  hexadecimal form is the parameter \<open>sha\<close>; the byte string it is applied to is the model's.
\<close>

section \<open>Definitions\<close>

text \<open>\<open>str\<close> of an int.\<close>

fun dec_digits :: "nat \<Rightarrow> pystr" where
  "dec_digits n = (if n < 10 then [48 + n] else dec_digits (n div 10) @ [48 + n mod 10])"

declare dec_digits.simps [simp del]

definition py_str :: "int \<Rightarrow> pystr" where
  "py_str i = (if i < 0 then 45 # dec_digits (nat (- i)) else dec_digits (nat i))"

fun kind_text :: "entry_kind \<Rightarrow> pystr" where
  "kind_text File = lit ''file''"
| "kind_text Directory = lit ''directory''"
| "kind_text Symlink = lit ''symlink''"
| "kind_text Runtime_link = lit ''runtime_link''"

fun content_text :: "content_kind \<Rightarrow> pystr" where
  "content_text No_content = []"
| "content_text Text = lit ''text''"
| "content_text Binary = lit ''binary''"

definition digest_fields :: "entry \<Rightarrow> pystr list" where
  "digest_fields e = [e_path e, kind_text (e_kind e), py_str (e_mode e), py_str (e_size e),
     e_sha256 e, e_target e, content_text (e_content e), e_dependency e]"

text \<open>Everything fed to the hash, in order.\<close>

definition digest_input :: "manifest \<Rightarrow> bytes" where
  "digest_input m = utf8 (lit ''agent-remote-skill-tree-v1'') @ [0] @
     concat (map (\<lambda>v. utf8 v @ [0]) (concat (map digest_fields (entries m))))"

definition manifest_digest :: "(bytes \<Rightarrow> pystr) \<Rightarrow> manifest \<Rightarrow> pystr" where
  "manifest_digest sha m = sha (digest_input m)"

section \<open>The fields can be read back\<close>

fun dec_value :: "nat \<Rightarrow> pystr \<Rightarrow> nat" where
  "dec_value acc [] = acc"
| "dec_value acc (c # cs) = dec_value (10 * acc + (c - 48)) cs"

lemma dec_value_append: "dec_value acc (xs @ [c]) = 10 * dec_value acc xs + (c - 48)"
  by (induction xs arbitrary: acc) auto

lemma dec_value_digits: "dec_value 0 (dec_digits n) = n"
proof (induction n rule: dec_digits.induct)
  case (1 n)
  then show ?case by (subst dec_digits.simps) (auto simp: dec_value_append)
qed

lemma dec_digits_chars: "c \<in> set (dec_digits n) \<Longrightarrow> 48 \<le> c \<and> c \<le> 57"
proof (induction n rule: dec_digits.induct)
  case (1 n)
  then show ?case by (subst (asm) (2) dec_digits.simps) (auto split: if_splits)
qed

lemma py_str_inj: "0 \<le> i \<Longrightarrow> 0 \<le> j \<Longrightarrow> py_str i = py_str j \<longleftrightarrow> i = j"
  unfolding py_str_def by (metis dec_value_digits eq_nat_nat_iff linorder_not_le)

lemma py_str_nul: "0 \<notin> set (py_str i)"
  by (auto simp: py_str_def dest: dec_digits_chars)

lemma kind_text_inj: "kind_text a = kind_text b \<longleftrightarrow> a = b"
  by (cases a; cases b) (simp_all add: lit_def)

lemma content_text_inj: "content_text a = content_text b \<longleftrightarrow> a = b"
  by (cases a; cases b) (simp_all add: lit_def)

text \<open>NUL is not a byte of the encoding of a text without NUL.\<close>

lemma utf8_char_nul: "0 \<in> set (utf8_char c) \<longleftrightarrow> c = 0"
  by (auto simp: utf8_char_def)

lemma utf8_nul: "0 \<in> set (utf8 s) \<longleftrightarrow> 0 \<in> set s"
  by (induction s) (auto simp: utf8_def utf8_char_nul)

lemma terminated_inj:
  assumes "\<forall>x \<in> set (a # xs) \<union> set (b # ys). 0 \<notin> set x"
  shows "a @ [0 :: nat] @ r = b @ [0] @ s \<longleftrightarrow> a = b \<and> r = s"
proof -
  have "takeWhile (\<lambda>c. c \<noteq> 0) (x @ [0] @ t) = x" if "0 \<notin> set x" for x and t :: "nat list"
    using that by (induction x) auto
  then show ?thesis using assms by (metis UnI1 UnI2 append_same_eq list.set_intros(1) same_append_eq)
qed

lemma terminated_concat_inj:
  assumes "\<forall>x \<in> set xs \<union> set ys. 0 \<notin> set x"
  shows "concat (map (\<lambda>v. v @ [0 :: nat]) xs) = concat (map (\<lambda>v. v @ [0]) ys) \<longleftrightarrow> xs = ys"
  using assms
proof (induction xs arbitrary: ys)
  case Nil
  then show ?case by (cases ys) auto
next
  case (Cons x xs)
  show ?case
  proof (cases ys)
    case (Cons y ys')
    then show ?thesis
      using Cons.IH [of ys'] Cons.prems terminated_inj [of x "[]" y "[]"] by auto
  qed auto
qed

lemma entry_field_nul:
  assumes "entry_ok nfc e" "v \<in> set (digest_fields e)"
  shows "0 \<notin> set v"
proof -
  have fb: "forbidden_char 0" by (simp add: forbidden_char_def is_control_def)
  note f = entry_ok_fields [OF assms(1)] and s = entry_ok_shape [OF assms(1)]
  have "0 \<notin> set (e_path e)"
    using f fb by (auto simp: entry_fields_ok_def validate_relative_path_Inr_iff list_ex_iff)
  moreover have "0 \<notin> set (e_sha256 e)"
    using f by (auto simp: entry_fields_ok_def is_hex64_def is_lower_hex_def list_all_iff)
  moreover have "0 \<notin> set (e_dependency e)"
    using f by (auto simp: entry_fields_ok_def is_dependency_def is_lower_def list_all_iff split: list.splits)
  moreover have "0 \<notin> set (e_target e)"
    using s fb by (auto simp: validate_shape_def list_ex_iff split: if_splits)
  moreover have "0 \<notin> set (kind_text (e_kind e))" "0 \<notin> set (content_text (e_content e))"
    by (cases "e_kind e"; simp add: lit_def) (cases "e_content e"; simp add: lit_def)
  ultimately show ?thesis using assms(2) by (auto simp: digest_fields_def py_str_nul)
qed

lemma digest_fields_inj:
  assumes "entry_ok nfc a" "entry_ok nfc b" "digest_fields a = digest_fields b"
  shows "a = b"
  using assms entry_ok_fields [OF assms(1)] entry_ok_fields [OF assms(2)]
  by (auto simp: digest_fields_def kind_text_inj content_text_inj entry_fields_ok_def py_str_inj
      intro!: entry.equality)

lemma concat_fixed_inj:
  assumes "length (concat (map f xs)) = length (concat (map f ys)) \<Longrightarrow> length xs = length ys"
    and "\<And>x. length (f x) = n" "concat (map f xs) = concat (map f ys)"
  shows "map f xs = map f ys"
proof -
  have "length xs = length ys" using assms(1,3) by simp
  then show ?thesis using assms(2,3)
    by (induction xs ys rule: list_induct2) auto
qed

lemma digest_input_inj:
  assumes "manifest_ok nfc a" "manifest_ok nfc b" "digest_input a = digest_input b"
  shows "a = b"
proof -
  let ?F = "\<lambda>m. concat (map digest_fields (entries m))"
  have ok: "list_all (entry_ok nfc) (entries a)" "list_all (entry_ok nfc) (entries b)"
    using assms(1,2) by (simp_all add: manifest_ok_def)
  have "concat (map (\<lambda>v. v @ [0]) (map utf8 (?F a))) = concat (map (\<lambda>v. v @ [0]) (map utf8 (?F b)))"
    using assms(3) by (simp add: digest_input_def o_def)
  moreover have "\<forall>x \<in> set (map utf8 (?F a)) \<union> set (map utf8 (?F b)). 0 \<notin> set x"
    using ok entry_field_nul [of nfc] unfolding list_all_iff by (force simp: utf8_nul)
  ultimately have "map utf8 (?F a) = map utf8 (?F b)" by (simp only: terminated_concat_inj)
  then have fields: "?F a = ?F b" by (simp add: inj_map_eq_map inj_def)
  have len: "length (concat (map digest_fields es)) = 8 * length es" for es
    by (induction es) (simp_all add: digest_fields_def)
  have "map digest_fields (entries a) = map digest_fields (entries b)"
    by (rule concat_fixed_inj [OF _ _ fields, of 8]) (simp_all add: len, simp add: digest_fields_def)
  moreover have "inj_on digest_fields (set (entries a) \<union> set (entries b))"
    using ok unfolding inj_on_def list_all_iff by (blast intro: digest_fields_inj)
  ultimately have "entries a = entries b" by (rule map_inj_on)
  then show ?thesis using assms(1,2) by (simp add: manifest_ok_def)
qed

section \<open>Properties\<close>

text \<open>
  C38. The digest identifies a checked tree: two different checked manifests feed different bytes
  to the hash, so equal digests of different trees exhibit a collision of the hash itself.
\<close>

theorem manifest_digest_identifies:
  assumes "manifest_ok nfc a" "manifest_ok nfc b" "a \<noteq> b"
  shows "digest_input a \<noteq> digest_input b \<and>
    (manifest_digest sha a = manifest_digest sha b \<longrightarrow>
      (\<exists>x y. x \<noteq> y \<and> sha x = sha y \<and> x = digest_input a \<and> y = digest_input b))"
  using assms digest_input_inj by (auto simp: manifest_digest_def)

text \<open>A sample pair of trees that differ in the mode of one directory.\<close>

definition g_tree :: manifest where
  "g_tree = \<lparr>version = 1, entries = [(s_dir [97])\<lparr>e_mode := 448\<rparr>]\<rparr>"

definition h_tree :: manifest where
  "h_tree = \<lparr>version = 1, entries = [s_dir [97]]\<rparr>"

theorem manifest_digest_identifies_witness:
  "manifest_digest (\<lambda>b. b) g_tree \<noteq> manifest_digest (\<lambda>b. b) h_tree"
proof -
  have "manifest_ok ascii g_tree" "manifest_ok ascii h_tree" "g_tree \<noteq> h_tree" by code_simp+
  from manifest_digest_identifies [OF this, of "\<lambda>b. b"] show ?thesis by (simp add: manifest_digest_def)
qed

end
