(* ===== verification/Resolution.thy ===== *)
theory Resolution
  imports Directory_Merge Digest
begin

text \<open>
  The explicit resolution of saved conflicts (\<open>skill_manager/resolution.py\<close> and the choice of
  \<open>schemas/skill_resolution.py\<close>): the choice and its validation, the scope a choice replaces, the
  overlap test and the replacement of the scopes on top of the merged default.

  \<open>sha\<close> is the hexadecimal SHA-256 of the directory digest. The dict \<open>entries\<close> that the code
  rewrites is an association list; its order never matters because the values are sorted at the end.
\<close>

section \<open>Choices\<close>

datatype side = Current | Incoming

record choice =
  ch_path :: "pystr option"
  ch_unit :: "pystr list"
  ch_use :: "side option"
  ch_file :: "pystr option"
  ch_directory :: "pystr option"

definition is_whole :: "choice \<Rightarrow> bool" where
  "is_whole c \<longleftrightarrow> ch_path c = None \<and> ch_unit c = []"

text \<open>\<open>file_tree_digest or directory_tree_digest\<close>\<close>

definition tree_digest :: "choice \<Rightarrow> pystr option" where
  "tree_digest c = (case ch_file c of None \<Rightarrow> ch_directory c | Some d \<Rightarrow> if d = [] then ch_directory c else Some d)"

definition choice_fields_ok :: "choice \<Rightarrow> bool" where
  "choice_fields_ok c \<longleftrightarrow>
     (case ch_path c of None \<Rightarrow> True | Some p \<Rightarrow> length p \<le> 4096) \<and>
     (case ch_file c of None \<Rightarrow> True | Some d \<Rightarrow> is_hex64 d) \<and>
     (case ch_directory c of None \<Rightarrow> True | Some d \<Rightarrow> is_hex64 d)"

definition validate_choice :: "(pystr \<Rightarrow> bool) \<Rightarrow> choice \<Rightarrow> choice res" where
  "validate_choice nfc c =
     bind_res (require (length (filter id [ch_use c \<noteq> None, ch_file c \<noteq> None, ch_directory c \<noteq> None]) = 1)
                 (ValueError ''choose exactly one side, file or directory'')) (\<lambda>_.
     bind_res (case ch_path c of
         Some p \<Rightarrow> bind_res (validate_relative_path nfc p) (\<lambda>_.
           require (ch_unit c = [] \<and> ch_directory c = None)
             (ValueError ''path cannot be combined with a unit or directory''))
       | None \<Rightarrow> require (ch_file c = None) (ValueError ''file choice requires a conflict path'')) (\<lambda>_.
     bind_res (require (distinct (ch_unit c) \<and> sort (ch_unit c) = ch_unit c)
                 (ValueError ''unit scopes must be unique and sorted'')) (\<lambda>_.
     bind_res (each (\<lambda>name. if name = dot then Inr ()
                 else bind_res (validate_relative_path nfc name) (\<lambda>_.
                   require (slash \<notin> set name) (ValueError ''unit members must be top-level identities'')))
               (ch_unit c)) (\<lambda>_. Inr c))))"

definition new_choice :: "(pystr \<Rightarrow> bool) \<Rightarrow> choice \<Rightarrow> choice res" where
  "new_choice nfc c =
     (if \<not> choice_fields_ok c then Inl ValidationError
      else (case validate_choice nfc c of Inl _ \<Rightarrow> Inl ValidationError | Inr c' \<Rightarrow> Inr c'))"

record loaded =
  lc_choice :: choice
  lc_tree :: "manifest option"

section \<open>Scopes\<close>

definition in_scope :: "choice \<Rightarrow> pystr \<Rightarrow> pystr list \<Rightarrow> bool" where
  "in_scope c path names \<longleftrightarrow>
     (if is_whole c then True
      else (case ch_path c of
          Some p \<Rightarrow> within path p
        | None \<Rightarrow> (let root = top_component path in (if root \<in> set names then root else dot) \<in> set (ch_unit c))))"

definition covers :: "choice \<Rightarrow> conflict \<Rightarrow> pystr list \<Rightarrow> bool" where
  "covers c x names \<longleftrightarrow>
     (if is_whole c then True
      else if ch_unit c \<noteq> [] then c_unit x \<noteq> [] \<and> set (c_unit x) \<subseteq> set (ch_unit c)
      else if c_reason x = Opaque_divergence \<or> c_reason x = Invalid_tree then False
      else in_scope c (c_path x) names)"

definition choices_overlap :: "choice \<Rightarrow> choice \<Rightarrow> pystr list \<Rightarrow> bool" where
  "choices_overlap l r names \<longleftrightarrow>
     (if is_whole l \<or> is_whole r then True
      else (case ch_path l of
          Some p \<Rightarrow> (case ch_path r of
              Some q \<Rightarrow> within p q \<or> within q p
            | None \<Rightarrow> in_scope r p names)
        | None \<Rightarrow> (case ch_path r of
              Some q \<Rightarrow> in_scope l q names
            | None \<Rightarrow> set (ch_unit l) \<inter> set (ch_unit r) \<noteq> {})))"

section \<open>Validation of a loaded choice\<close>

definition entry_at :: "manifest \<Rightarrow> pystr \<Rightarrow> entry option" where
  "entry_at m p = List.find (\<lambda>e. e_path e = p) (entries m)"

definition is_file_at :: "manifest \<Rightarrow> pystr \<Rightarrow> bool" where
  "is_file_at m p \<longleftrightarrow> (case entry_at m p of None \<Rightarrow> False | Some e \<Rightarrow> e_kind e = File)"

definition validate_loaded ::
  "(bytes \<Rightarrow> pystr) \<Rightarrow> manifest \<Rightarrow> manifest \<Rightarrow> conflict list \<Rightarrow> pystr list list \<Rightarrow> loaded \<Rightarrow> unit res"
where
  "validate_loaded sha current incoming cs us l =
     (let c = lc_choice l in
      bind_res (require ((tree_digest c = None) = (lc_tree l = None))
                  (ValueError ''resolution content does not match its declared method'')) (\<lambda>_.
      bind_res (require (case lc_tree l of None \<Rightarrow> True | Some t \<Rightarrow> Some (manifest_digest sha t) = tree_digest c)
                  (ValueError ''loaded resolution content differs from its digest'')) (\<lambda>_.
      bind_res (require (\<not> (ch_unit c \<noteq> [] \<and> (ch_unit c \<notin> set us \<or>
                     \<not> list_ex (\<lambda>x. c_unit x \<noteq> [] \<and> set (c_unit x) \<subseteq> set (ch_unit c)) cs)))
                  (ValueError ''choice does not select a complete conflicting unit'')) (\<lambda>_.
      (case ch_path c of None \<Rightarrow> Inr ()
       | Some p \<Rightarrow>
           (let root = top_component p;
                scope = (if root \<in> set (concat us) then root else dot);
                matches = filter (\<lambda>x. c_path x = p) cs in
            bind_res (require (\<not> list_ex (\<lambda>x. c_reason x = Opaque_divergence \<and> scope \<in> set (c_unit x)) cs)
                        (ValueError ''opaque state requires a complete unit choice'')) (\<lambda>_.
            bind_res (require (\<not> (matches = [] \<or>
                          list_ex (\<lambda>x. c_reason x = Opaque_divergence \<or> c_reason x = Invalid_tree) matches))
                        (ValueError ''path is not an independently resolvable conflict'')) (\<lambda>_.
            if ch_file c = None then Inr ()
            else
              bind_res (require (\<not> list_ex (\<lambda>x. c_reason x = Source_conflict) matches)
                          (ValueError ''a file cannot resolve source identity'')) (\<lambda>_.
              bind_res (require (is_file_at current p \<and> is_file_at incoming p)
                          (ValueError ''file choice is only valid for ordinary file content conflicts'')) (\<lambda>_.
              require (case lc_tree l of None \<Rightarrow> False
                       | Some t \<Rightarrow> (case entries t of [e] \<Rightarrow> e_kind e = File | _ \<Rightarrow> False))
                (ValueError ''file choice requires exactly one ordinary file'')))))))))))"

section \<open>The replacement\<close>

text \<open>The default selection of every path, before the choices are applied.\<close>

definition default_selection :: "'a \<Rightarrow> 'a \<Rightarrow> 'a \<Rightarrow> 'a" where
  "default_selection old ours theirs =
     (let selected = (if ours = old then theirs else ours) in
      if ours = theirs \<or> theirs = old then ours else selected)"

definition initial_entries :: "manifest \<Rightarrow> manifest \<Rightarrow> manifest \<Rightarrow> (pystr \<times> entry) list" where
  "initial_entries base current incoming =
     List.map_filter (\<lambda>p. map_option (Pair p)
         (default_selection (by_path (entries base) p) (by_path (entries current) p) (by_path (entries incoming) p)))
       (sorted_paths [base, current, incoming])"

definition choice_source :: "manifest \<Rightarrow> manifest \<Rightarrow> loaded \<Rightarrow> manifest res" where
  "choice_source current incoming l =
     (if tree_digest (lc_choice l) \<noteq> None
      then (case lc_tree l of None \<Rightarrow> Inl AssertionError | Some t \<Rightarrow> Inr t)
      else Inr (if ch_use (lc_choice l) = Some Current then current else incoming))"

text \<open>\<open>entries.setdefault(ancestor, parent)\<close> for a directory of the source.\<close>

definition add_parent :: "entry list \<Rightarrow> pystr \<Rightarrow> (pystr \<times> entry) list \<Rightarrow> (pystr \<times> entry) list" where
  "add_parent source a al =
     (case by_path source a of
        Some d \<Rightarrow> if e_kind d = Directory \<and> a \<notin> fst ` set al then AList.update a d al else al
      | None \<Rightarrow> al)"

definition apply_choice ::
  "pystr list \<Rightarrow> manifest \<Rightarrow> manifest \<Rightarrow> (pystr \<times> entry) list \<Rightarrow> loaded \<Rightarrow> ((pystr \<times> entry) list) res"
where
  "apply_choice names current incoming al l =
     (let c = lc_choice l in
      bind_res (choice_source current incoming l) (\<lambda>source.
      (let kept = filter (\<lambda>(path, _). \<not> in_scope c path names) al in
       if ch_file c \<noteq> None then
         (case ch_path c of None \<Rightarrow> Inl AssertionError
          | Some p \<Rightarrow> (case entries source of [] \<Rightarrow> Inl IndexError
              | e # _ \<Rightarrow> Inr (AList.update p (e\<lparr>e_path := p\<rparr>) kept)))
       else
         (let updated = fold (\<lambda>e. AList.update (e_path e) e)
                          (filter (\<lambda>e. in_scope c (e_path e) names) (entries source)) kept in
          case ch_path c of None \<Rightarrow> Inr updated
          | Some p \<Rightarrow> Inr (if p \<in> fst ` set updated then fold (add_parent (entries source)) (ancestors p) updated
                          else updated)))))"

definition resolve_directory_conflicts ::
  "(bytes \<Rightarrow> pystr) \<Rightarrow> (pystr \<Rightarrow> bool) \<Rightarrow> manifest \<Rightarrow> manifest \<Rightarrow> manifest \<Rightarrow> pystr list \<Rightarrow>
   conflict list \<Rightarrow> loaded list \<Rightarrow> merge_result res"
where
  "resolve_directory_conflicts sha nfc base current incoming names cs ls =
     bind_res (directory_merge_units nfc [base, current, incoming] names) (\<lambda>us.
     bind_res (each (\<lambda>index. bind_res (validate_loaded sha current incoming cs us (ls ! index)) (\<lambda>_.
                 require (\<not> list_ex (\<lambda>other. choices_overlap (lc_choice (ls ! index)) (lc_choice other) names) (take index ls))
                   (ValueError ''resolution choices overlap''))) [0..<length ls]) (\<lambda>_.
     (let remaining = filter (\<lambda>x. \<not> list_ex (\<lambda>l. covers (lc_choice l) x names) ls) cs in
      if remaining \<noteq> [] then Inr (conflict_result remaining)
      else
        bind_res (fold_res (apply_choice names current incoming) (initial_entries base current incoming) ls) (\<lambda>al.
        Inr (case new_manifest (sort_key (\<lambda>e. utf8 (e_path e)) (map snd al)) of
            Inr m \<Rightarrow> merged_result m
          | Inl _ \<Rightarrow> conflict_result [\<lparr>c_path = dot, c_reason = Invalid_tree,
                       c_unit = sort (remdups (names @ [dot]))\<rparr>])))))"

section \<open>Scopes and overlap\<close>

lemma default_selection_three_way: "\<not> both_changed old a b \<Longrightarrow> default_selection old a b = three_way old a b"
  by (auto simp: default_selection_def three_way_def both_changed_def)

lemma in_scope_alt:
  "in_scope c path names \<longleftrightarrow> is_whole c \<or> (case ch_path c of Some p \<Rightarrow> within path p
      | None \<Rightarrow> scope_of names path \<in> set (ch_unit c))"
  by (auto simp: in_scope_def scope_of_def Let_def split: option.splits)

lemma in_scope_within: "in_scope c q names \<Longrightarrow> within p q \<Longrightarrow> in_scope c p names"
  by (auto simp: in_scope_alt scope_of_within dest: within_trans split: option.splits)

lemma in_scope_overlap: "in_scope a p names \<Longrightarrow> in_scope b p names \<Longrightarrow> choices_overlap a b names"
  using scope_of_within [of p _ names]
  by (auto simp: in_scope_alt choices_overlap_def dest: within_linear split: option.splits)

lemma ancestor_scope_overlap:
  "in_scope a p names \<Longrightarrow> ch_path b = Some q \<Longrightarrow> p \<in> set (ancestors q) \<Longrightarrow> choices_overlap a b names"
proof -
  assume a: "in_scope a p names" and b: "ch_path b = Some q" and p: "p \<in> set (ancestors q)"
  from p have "within q p" by (simp add: set_ancestors)
  with a have "in_scope a q names" by (rule in_scope_within)
  moreover have "in_scope b q names" using b by (simp add: in_scope_alt)
  ultimately show ?thesis by (rule in_scope_overlap)
qed

lemma choices_overlap_sym: "choices_overlap a b names \<longleftrightarrow> choices_overlap b a names"
  by (auto simp: choices_overlap_def split: option.splits)

section \<open>One choice\<close>

definition replacement :: "manifest \<Rightarrow> manifest \<Rightarrow> loaded \<Rightarrow> pystr \<Rightarrow> entry option" where
  "replacement current incoming l p =
     (case choice_source current incoming l of
        Inl _ \<Rightarrow> None
      | Inr source \<Rightarrow>
          if ch_file (lc_choice l) = None then by_path (entries source) p
          else if ch_path (lc_choice l) = Some p
          then (case entries source of [] \<Rightarrow> None | e # _ \<Rightarrow> Some (e\<lparr>e_path := p\<rparr>))
          else None)"

lemma map_of_fold_update:
  "map_of (fold (\<lambda>e. AList.update (f e) e) es al) = map_of al ++ index_by f es"
proof (induction es arbitrary: al rule: rev_induct)
  case (snoc e es)
  then show ?case by (auto simp: map_of_update index_by_append_one map_add_def fun_eq_iff)
qed simp

lemma dict_by_fold_update: "dict_by f al \<Longrightarrow> dict_by f (fold (\<lambda>e. AList.update (f e) e) es al)"
  by (induction es arbitrary: al) (auto intro: dict_by_update)

lemma add_parent_map_of:
  "map_of (add_parent src a al) p =
     (if p = a \<and> map_of al p = None \<and> (\<exists>d. by_path src p = Some d \<and> e_kind d = Directory)
      then by_path src p else map_of al p)"
  by (auto simp: add_parent_def map_of_update map_of_eq_None_iff image_iff split: option.splits)

lemma add_parents_map_of:
  "map_of (fold (add_parent src) as al) p =
     (if p \<in> set as \<and> map_of al p = None \<and> (\<exists>d. by_path src p = Some d \<and> e_kind d = Directory)
      then by_path src p else map_of al p)"
  by (induction as arbitrary: al) (auto simp: add_parent_map_of)

lemma dict_by_add_parents: "dict_by e_path al \<Longrightarrow> dict_by e_path (fold (add_parent src) as al)"
proof (induction as arbitrary: al)
  case (Cons a as)
  have "dict_by e_path (add_parent src a al)"
    using Cons.prems by (auto simp: add_parent_def split: option.splits intro: dict_by_update dest: index_by_Some)
  then show ?case using Cons.IH by simp
qed simp

lemma not_ancestor_in_scope: "ch_path c = Some q \<Longrightarrow> p \<in> set (ancestors q) \<Longrightarrow> \<not> is_whole c \<Longrightarrow> \<not> in_scope c p names"
  by (auto simp: in_scope_alt set_ancestors dest: within_antisym)

lemma apply_choice_ok:
  assumes r: "apply_choice names current incoming al l = Inr al'" and al: "dict_by e_path al"
  shows "dict_by e_path al'"
    and "in_scope (lc_choice l) p names \<Longrightarrow> map_of al' p = replacement current incoming l p"
    and "\<not> in_scope (lc_choice l) p names \<Longrightarrow> map_of al' p = map_of al p \<or>
      (map_of al p = None \<and> (\<exists>q d. ch_path (lc_choice l) = Some q \<and> p \<in> set (ancestors q) \<and>
        map_of al' p = Some d \<and> e_kind d = Directory \<and> replacement current incoming l p = Some d))"
proof -
  let ?c = "lc_choice l"
  let ?kept = "filter (\<lambda>(path, _). \<not> in_scope ?c path names) al"
  obtain source where src: "choice_source current incoming l = Inr source"
    using r by (auto simp: apply_choice_def Let_def)
  have k: "dict_by e_path ?kept" using al by (rule dict_by_filter)
  have km: "map_of ?kept q = (if \<not> in_scope ?c q names then map_of al q else None)" for q
    by (rule map_of_filter_key)
  have "dict_by e_path al' \<and> (in_scope ?c p names \<longrightarrow> map_of al' p = replacement current incoming l p) \<and>
    (\<not> in_scope ?c p names \<longrightarrow> map_of al' p = map_of al p \<or>
      (map_of al p = None \<and> (\<exists>q d. ch_path ?c = Some q \<and> p \<in> set (ancestors q) \<and>
        map_of al' p = Some d \<and> e_kind d = Directory \<and> replacement current incoming l p = Some d)))"
  proof (cases "ch_file ?c = None")
    case False
    then obtain q e es where q: "ch_path ?c = Some q" and e: "entries source = e # es"
      and al': "al' = AList.update q (e\<lparr>e_path := q\<rparr>) ?kept"
      using r src by (auto simp: apply_choice_def Let_def split: option.splits list.splits)
    have "in_scope ?c q names" using q by (simp add: in_scope_alt)
    moreover have "dict_by e_path al'" unfolding al' by (rule dict_by_update [OF k]) simp
    ultimately show ?thesis
      using q e src False by (auto simp: al' map_of_update km replacement_def)
  next
    case True
    let ?u = "fold (\<lambda>e. AList.update (e_path e) e) (filter (\<lambda>e. in_scope ?c (e_path e) names) (entries source)) ?kept"
    have u: "dict_by e_path ?u" using k by (rule dict_by_fold_update)
    have um: "map_of ?u q = (if in_scope ?c q names then by_path (entries source) q else map_of al q)" for q
      by (simp add: map_of_fold_update map_add_def km index_by_filter_key [of e_path "\<lambda>q. in_scope ?c q names"] split: option.splits)
    from True r src consider "al' = ?u"
      | q where "ch_path ?c = Some q" "al' = fold (add_parent (entries source)) (ancestors q) ?u"
      by (auto simp: apply_choice_def Let_def split: option.splits if_splits)
    then show ?thesis
    proof cases
      case 1
      then show ?thesis using u src True by (simp add: um replacement_def)
    next
      case (2 q)
      have nw: "\<not> is_whole ?c" using 2(1) by (simp add: is_whole_def)
      note na = not_ancestor_in_scope [OF 2(1) _ nw]
      show ?thesis
        using u src True 2 na dict_by_add_parents [OF u]
        by (auto simp: add_parents_map_of um replacement_def)
    qed
  qed
  then show "dict_by e_path al'"
    and "in_scope ?c p names \<Longrightarrow> map_of al' p = replacement current incoming l p"
    and "\<not> in_scope ?c p names \<Longrightarrow> map_of al' p = map_of al p \<or>
      (map_of al p = None \<and> (\<exists>q d. ch_path ?c = Some q \<and> p \<in> set (ancestors q) \<and>
        map_of al' p = Some d \<and> e_kind d = Directory \<and> replacement current incoming l p = Some d))"
    by blast+
qed

section \<open>The whole plan\<close>

definition disjoint_plan :: "loaded list \<Rightarrow> pystr list \<Rightarrow> bool" where
  "disjoint_plan ls names \<longleftrightarrow> (\<forall>i < length ls. \<forall>j < i. \<not> choices_overlap (lc_choice (ls ! i)) (lc_choice (ls ! j)) names)"

lemma disjoint_plan_snoc:
  "disjoint_plan (ls @ [l]) names \<longleftrightarrow>
     disjoint_plan ls names \<and> (\<forall>k \<in> set ls. \<not> choices_overlap (lc_choice l) (lc_choice k) names)"
  by (auto simp: disjoint_plan_def nth_append less_Suc_eq all_set_conv_all_nth)

lemma apply_choices_ok:
  assumes "fold_res (apply_choice names current incoming) al ls = Inr al'" "dict_by e_path al"
    and "disjoint_plan ls names"
  shows "dict_by e_path al' \<and>
    (\<forall>l \<in> set ls. \<forall>p. in_scope (lc_choice l) p names \<longrightarrow> map_of al' p = replacement current incoming l p) \<and>
    (\<forall>p. (\<forall>l \<in> set ls. \<not> in_scope (lc_choice l) p names) \<longrightarrow> map_of al' p = map_of al p \<or>
      (map_of al p = None \<and> (\<exists>l \<in> set ls. \<exists>q d. ch_path (lc_choice l) = Some q \<and> p \<in> set (ancestors q) \<and>
        map_of al' p = Some d \<and> e_kind d = Directory \<and> replacement current incoming l p = Some d)))"
  using assms
proof (induction ls arbitrary: al' rule: rev_induct)
  case (snoc l ls)
  from snoc.prems(1) obtain mid where mid: "fold_res (apply_choice names current incoming) al ls = Inr mid"
    and last: "apply_choice names current incoming mid l = Inr al'"
    by (auto simp: fold_res_append)
  from snoc.prems(3) have dis: "disjoint_plan ls names"
    and no: "\<And>k. k \<in> set ls \<Longrightarrow> \<not> choices_overlap (lc_choice k) (lc_choice l) names"
    by (auto simp: disjoint_plan_snoc choices_overlap_sym)
  note IH = snoc.IH [OF mid snoc.prems(2) dis]
  note step = apply_choice_ok [OF last]
  have d: "dict_by e_path mid" using IH by blast
  have keep: "map_of al' p = map_of mid p" if "k \<in> set ls" "in_scope (lc_choice k) p names" for k p
  proof -
    have "\<not> in_scope (lc_choice l) p names"
      using no [OF that(1)] in_scope_overlap [OF that(2)] by blast
    from step(3) [OF d this] no [OF that(1)] ancestor_scope_overlap [OF that(2)] show ?thesis by blast
  qed
  have "map_of al' p = replacement current incoming k p"
    if "k \<in> set (ls @ [l])" "in_scope (lc_choice k) p names" for k p
    using that keep IH step(2) [OF d] by auto
  moreover have "map_of al' p = map_of al p \<or>
      (map_of al p = None \<and> (\<exists>l \<in> set (ls @ [l]). \<exists>q d. ch_path (lc_choice l) = Some q \<and> p \<in> set (ancestors q) \<and>
        map_of al' p = Some d \<and> e_kind d = Directory \<and> replacement current incoming l p = Some d))"
    if out: "\<forall>l \<in> set (ls @ [l]). \<not> in_scope (lc_choice l) p names" for p
  proof -
    have "\<not> in_scope (lc_choice l) p names" "\<forall>l \<in> set ls. \<not> in_scope (lc_choice l) p names" using out by simp_all
    with step(3) [OF d, of p] IH show ?thesis by fastforce
  qed
  ultimately show ?case using step(1) [OF d] by blast
qed simp

text \<open>The result of a resolution that returns a tree.\<close>

lemma initial_entries_ok:
  "dict_by e_path (initial_entries base current incoming)"
  "map_of (initial_entries base current incoming) p =
     default_selection (by_path (entries base) p) (by_path (entries current) p) (by_path (entries incoming) p)"
proof -
  let ?s = "\<lambda>p. default_selection (by_path (entries base) p) (by_path (entries current) p) (by_path (entries incoming) p)"
  let ?al = "\<lambda>ps. List.map_filter (\<lambda>p. map_option (Pair p) (?s p)) ps"
  have key: "e_path e = p" if "?s p = Some e" for p e
    using that by (auto simp: default_selection_def Let_def split: if_splits dest: index_by_Some)
  have keys: "fst ` set (?al ps) \<subseteq> set ps" for ps
    by (induction ps) (auto simp: List.map_filter_simps split: option.splits)
  have "dict_by e_path (?al ps)" if "distinct ps" for ps
    using that
  proof (induction ps)
    case (Cons p ps)
    have "p \<notin> fst ` set (?al ps)" using Cons.prems keys [of ps] by auto
    with Cons key [of p] show ?case by (auto simp: List.map_filter_simps dict_by_def split: option.splits)
  qed (simp add: List.map_filter_simps)
  moreover have "distinct (sorted_paths [base, current, incoming])"
    using sorted_sorted_paths strict_sorted_iff by blast
  ultimately show "dict_by e_path (initial_entries base current incoming)"
    by (simp add: initial_entries_def)
  have m: "map_of (?al ps) p = (if p \<in> set ps then ?s p else None)" for ps
    by (induction ps) (auto simp: List.map_filter_simps split: option.splits)
  have "p \<in> set (sorted_paths [base, current, incoming]) \<or> ?s p = None"
  proof (cases "?s p")
    case (Some e)
    then have "by_path (entries base) p = Some e \<or> by_path (entries current) p = Some e \<or> by_path (entries incoming) p = Some e"
      by (auto simp: default_selection_def Let_def split: if_splits)
    then show ?thesis by (auto dest!: index_by_Some)
  qed simp
  then show "map_of (initial_entries base current incoming) p = ?s p"
    by (auto simp: initial_entries_def m)
qed

lemma each_plan:
  assumes "each (\<lambda>i. bind_res (f (ls ! i)) (\<lambda>_. require (\<not> list_ex (\<lambda>k. choices_overlap (lc_choice (ls ! i)) (lc_choice k) names) (take i ls)) err)) [0..<length ls] = Inr ()"
  shows "disjoint_plan ls names" "l \<in> set ls \<Longrightarrow> f l = Inr ()"
proof -
  have *: "f (ls ! i) = Inr ()"
    "\<not> list_ex (\<lambda>k. choices_overlap (lc_choice (ls ! i)) (lc_choice k) names) (take i ls)" if "i < length ls" for i
    using assms that by auto
  show "disjoint_plan ls names"
    unfolding disjoint_plan_def
  proof (intro allI impI)
    fix i j assume ij: "i < length ls" "j < i"
    then have "ls ! j \<in> set (take i ls)" by (auto simp: in_set_conv_nth intro!: exI [of _ j])
    with *(2) [OF ij(1)] show "\<not> choices_overlap (lc_choice (ls ! i)) (lc_choice (ls ! j)) names"
      by (auto simp: list_ex_iff)
  qed
  show "f l = Inr ()" if "l \<in> set ls"
    using that *(1) by (metis in_set_conv_nth)
qed

lemma resolution_merged:
  assumes r: "resolve_directory_conflicts sha nfc base current incoming names cs ls = Inr r" "merged r = Some m"
  shows "\<exists>us al. directory_merge_units nfc [base, current, incoming] names = Inr us \<and>
    (\<forall>l \<in> set ls. validate_loaded sha current incoming cs us l = Inr ()) \<and> disjoint_plan ls names \<and>
    (\<forall>x \<in> set cs. \<exists>l \<in> set ls. covers (lc_choice l) x names) \<and>
    fold_res (apply_choice names current incoming) (initial_entries base current incoming) ls = Inr al \<and>
    new_manifest (sort_key e_path (map snd al)) = Inr m \<and> by_path (entries m) = map_of al"
proof -
  let ?E = "\<lambda>us. each (\<lambda>index. bind_res (validate_loaded sha current incoming cs us (ls ! index)) (\<lambda>_.
      require (\<not> list_ex (\<lambda>other. choices_overlap (lc_choice (ls ! index)) (lc_choice other) names) (take index ls))
        (ValueError ''resolution choices overlap''))) [0..<length ls]"
  from r(1) obtain us u where us: "directory_merge_units nfc [base, current, incoming] names = Inr us"
    and u: "?E us = Inr u"
    unfolding resolve_directory_conflicts_def bind_res_eq_Inr_iff by blast
  have "u = ()" by (cases u)
  from this u have ev: "?E us = Inr ()" by (rule subst)
  note plan = each_plan [OF ev]
  let ?rem = "filter (\<lambda>x. \<not> list_ex (\<lambda>l. covers (lc_choice l) x names) ls) cs"
  from r us ev have rem: "?rem = []"
    unfolding resolve_directory_conflicts_def
    by (cases "?rem = []") (simp_all only: bind_res_simps Let_def conflict_result_def, auto)
  with r(1) us ev obtain al where al: "fold_res (apply_choice names current incoming) (initial_entries base current incoming) ls = Inr al"
    and req: "r = (case new_manifest (sort_key e_path (map snd al)) of Inr m \<Rightarrow> merged_result m
      | Inl _ \<Rightarrow> conflict_result [\<lparr>c_path = dot, c_reason = Invalid_tree, c_unit = sort (remdups (names @ [dot]))\<rparr>])"
    unfolding resolve_directory_conflicts_def by (simp only: bind_res_simps Let_def) auto
  have m: "new_manifest (sort_key e_path (map snd al)) = Inr m"
    using req r(2)
    by (cases "new_manifest (sort_key e_path (map snd al))") (simp_all add: conflict_result_def merged_result_def)
  have d: "dict_by e_path al" using apply_choices_ok [OF al initial_entries_ok(1) plan(1)] by blast
  have dm: "distinct (map e_path (map snd al))" using d dict_by_keys [OF d] by (simp only: dict_by_def)
  have "by_path (entries m) = map_of al"
    using new_manifest_entries [OF m] index_by_sort_key [OF dm, of e_path] index_by_dict [OF d] by simp
  with us plan al m rem show ?thesis by (auto simp: filter_empty_conv list_ex_iff)
qed

section \<open>Conflicts of the merge and their cover\<close>

definition choice_ok :: "(pystr \<Rightarrow> bool) \<Rightarrow> choice \<Rightarrow> bool" where
  "choice_ok nfc c \<longleftrightarrow> new_choice nfc c = Inr c"

lemma choice_okD:
  assumes "choice_ok nfc c"
  shows "ch_path c = Some p \<Longrightarrow> validate_relative_path nfc p = Inr p \<and> ch_unit c = []"
proof -
  have "\<exists>c'. validate_choice nfc c = Inr c'"
    using assms by (auto simp: choice_ok_def new_choice_def split: if_splits sum.splits)
  then show "ch_path c = Some p \<Longrightarrow> validate_relative_path nfc p = Inr p \<and> ch_unit c = []"
    by (auto simp: validate_choice_def validate_relative_path_Inr_iff)
qed

lemma both_changed_conflict:
  assumes "both_changed (by_path (entries b) p) (by_path (entries c) p) (by_path (entries i) p)"
  shows "\<exists>x \<in> set (conflicts (merge_manifests b c i)).
    c_reason x = Opaque_divergence \<or> c_reason x = Changed_both \<and> c_path x = p"
proof -
  have ne: "c \<noteq> i" "i \<noteq> b" "c \<noteq> b" using assms by (auto simp: both_changed_def)
  have "by_path (entries c) p \<noteq> None \<or> by_path (entries i) p \<noteq> None \<or> by_path (entries b) p \<noteq> None"
    using assms by (auto simp: both_changed_def)
  then have p: "p \<in> set (sorted_paths [b, c, i])" by (auto dest!: index_by_Some)
  define bad where "bad = filter (\<lambda>p. both_changed (by_path (entries b) p) (by_path (entries c) p) (by_path (entries i) p)) (sorted_paths [b, c, i])"
  have bad: "p \<in> set bad" unfolding bad_def using p assms by (simp only: set_filter mem_Collect_eq simp_thms)
  have "conflict_at p \<in> set (conflicts (merge_manifests b c i)) \<or>
      conflicts (merge_manifests b c i) = [\<lparr>c_path = dot, c_reason = Opaque_divergence, c_unit = []\<rparr>]"
    unfolding merge_manifests_def Let_def merge_paths_eq bad_def [symmetric]
    using ne bad by (cases bad) (auto simp: conflict_result_def)
  then show ?thesis
  proof
    assume "conflict_at p \<in> set (conflicts (merge_manifests b c i))"
    then show ?thesis by (rule rev_bexI) (simp add: conflict_at_def)
  qed simp
qed

lemma directory_both_changed:
  assumes ok: "manifest_ok nfc base" "manifest_ok nfc current" "manifest_ok nfc incoming" "names_ok nfc names"
    and d: "merge_directory_manifests nfc base current incoming names = Inr d"
    and bc: "both_changed (by_path (entries base) p) (by_path (entries current) p) (by_path (entries incoming) p)"
  shows "\<exists>x \<in> set (conflicts d). scope_of names p \<in> set (c_unit x) \<and>
    (c_reason x = Opaque_divergence \<or> c_reason x = Changed_both \<and> c_path x = p)"
proof -
  from merge_directory_unfold [OF ok] obtain us where
    us: "merge_units_ok nfc names [base, current, incoming] us"
    and eq: "merge_directory_manifests nfc base current incoming names =
      (let rs = map (\<lambda>u. unit_result names u base current incoming) us;
           cs = concat (map (\<lambda>u. map (\<lambda>x. x\<lparr>c_unit := u\<rparr>) (conflicts (unit_result names u base current incoming))) us)
       in if cs \<noteq> [] then Inr \<lparr>merged = None, conflicts = cs, result_units = us\<rparr>
          else bind_res (new_manifest (sort_key e_path (concat (map merged_entries rs)))) (\<lambda>m.
            Inr \<lparr>merged = Some m, conflicts = [], result_units = us\<rparr>))" by blast
  let ?cs = "concat (map (\<lambda>u. map (\<lambda>x. x\<lparr>c_unit := u\<rparr>) (conflicts (unit_result names u base current incoming))) us)"
  obtain m e where m: "m \<in> set [base, current, incoming]" "e \<in> set (entries m)" "e_path e = p"
  proof -
    have "by_path (entries base) p \<noteq> None \<or> by_path (entries current) p \<noteq> None \<or> by_path (entries incoming) p \<noteq> None"
      using bc by (auto simp: both_changed_def)
    then show ?thesis using that by (auto dest!: index_by_Some)
  qed
  from merge_units_okD(3) [OF us m(1,2)] m(3) obtain u where u: "u \<in> set us" "scope_of names p \<in> set u"
    by (metis nth_mem)
  have srt: "paths_sorted (entries base)" "paths_sorted (entries current)" "paths_sorted (entries incoming)"
    using ok by (auto simp: manifest_ok_iff dest: wf_tree_sorted)
  from both_changed_conflict [of "mk_manifest (unit_part names u (entries base))" p
      "mk_manifest (unit_part names u (entries current))" "mk_manifest (unit_part names u (entries incoming))"] bc u(2)
  obtain x where x: "x \<in> set (conflicts (unit_result names u base current incoming))"
    "c_reason x = Opaque_divergence \<or> c_reason x = Changed_both \<and> c_path x = p"
    by (auto simp: by_path_unit_part [OF srt(1)] by_path_unit_part [OF srt(2)] by_path_unit_part [OF srt(3)] unit_result_def)
  have x': "x\<lparr>c_unit := u\<rparr> \<in> set ?cs" using u(1) x(1) by auto
  then have "?cs \<noteq> []" by (metis length_greater_0_conv length_pos_if_in_set)
  with d eq have "conflicts d = ?cs" unfolding Let_def by auto
  with x' x(2) u(2) show ?thesis by (intro bexI [of _ "x\<lparr>c_unit := u\<rparr>"]) simp_all
qed

lemma cover_in_scope:
  assumes "covers c x names" "choice_ok nfc c" "scope_of names p \<in> set (c_unit x)"
    and "c_reason x = Opaque_divergence \<or> c_reason x = Changed_both \<and> c_path x = p"
  shows "in_scope c p names"
  using assms choice_okD [OF assms(2)]
  by (cases "ch_path c") (auto simp: covers_def in_scope_alt split: if_splits)

lemma entry_ok_moved: "entry_ok nfc e \<Longrightarrow> validate_relative_path nfc p = Inr p \<Longrightarrow> entry_ok nfc (e\<lparr>e_path := p\<rparr>)"
  by (auto simp: entry_ok_def new_entry_def entry_fields_ok_def validate_shape_def split: if_splits sum.splits)

section \<open>Properties\<close>

text \<open>
  A resolved tree follows the plan: inside the scope of every choice it holds exactly what the
  chosen side, tree or file holds there; outside all scopes it holds the default selection, or a
  parent directory of a chosen path that was missing.
\<close>

theorem resolution_follows_plan:
  assumes "resolve_directory_conflicts sha nfc base current incoming names cs ls = Inr r" "merged r = Some m"
  shows "(\<forall>l \<in> set ls. \<forall>p. in_scope (lc_choice l) p names \<longrightarrow> by_path (entries m) p = replacement current incoming l p) \<and>
    (\<forall>p. (\<forall>l \<in> set ls. \<not> in_scope (lc_choice l) p names) \<longrightarrow>
      by_path (entries m) p = default_selection (by_path (entries base) p) (by_path (entries current) p) (by_path (entries incoming) p) \<or>
      (\<exists>l \<in> set ls. \<exists>q d. ch_path (lc_choice l) = Some q \<and> p \<in> set (ancestors q) \<and>
        by_path (entries m) p = Some d \<and> e_kind d = Directory \<and> replacement current incoming l p = Some d))"
proof -
  from resolution_merged [OF assms] obtain al where
    "fold_res (apply_choice names current incoming) (initial_entries base current incoming) ls = Inr al"
    "disjoint_plan ls names" "by_path (entries m) = map_of al" by blast
  with apply_choices_ok [OF this(1) initial_entries_ok(1) this(2)] show ?thesis
    by (simp only: initial_entries_ok(2)) blast
qed

text \<open>
  No update is lost silently: when the resolved conflicts are those of the directory merge, a
  path that both sides changed differently is inside the scope of some explicit choice.
\<close>

theorem resolution_no_silent_loss:
  assumes "manifest_ok nfc base" "manifest_ok nfc current" "manifest_ok nfc incoming" "names_ok nfc names"
    and "merge_directory_manifests nfc base current incoming names = Inr d"
    and "resolve_directory_conflicts sha nfc base current incoming names (conflicts d) ls = Inr r" "merged r = Some m"
    and "list_all (\<lambda>l. choice_ok nfc (lc_choice l)) ls"
    and "by_path (entries current) p \<noteq> by_path (entries base) p" "by_path (entries incoming) p \<noteq> by_path (entries base) p"
      "by_path (entries current) p \<noteq> by_path (entries incoming) p"
  shows "\<exists>l \<in> set ls. in_scope (lc_choice l) p names \<and> by_path (entries m) p = replacement current incoming l p"
proof -
  have "both_changed (by_path (entries base) p) (by_path (entries current) p) (by_path (entries incoming) p)"
    using assms(9-11) by (simp add: both_changed_def)
  from directory_both_changed [OF assms(1-5) this] obtain x where x: "x \<in> set (conflicts d)"
    "scope_of names p \<in> set (c_unit x)" "c_reason x = Opaque_divergence \<or> c_reason x = Changed_both \<and> c_path x = p"
    by blast
  from resolution_merged [OF assms(6,7)] obtain al where al:
    "fold_res (apply_choice names current incoming) (initial_entries base current incoming) ls = Inr al"
    "disjoint_plan ls names" "by_path (entries m) = map_of al"
    and cov: "\<forall>x \<in> set (conflicts d). \<exists>l \<in> set ls. covers (lc_choice l) x names" by blast
  from cov x(1) obtain l where l: "l \<in> set ls" "covers (lc_choice l) x names" by blast
  then have "in_scope (lc_choice l) p names"
    using cover_in_scope [OF l(2) _ x(2,3), of nfc] assms(8) by (simp add: list_all_iff)
  with l(1) apply_choices_ok [OF al(1) initial_entries_ok(1) al(2)] al(3) show ?thesis by auto
qed

text \<open>
  A resolution returns a tree or conflicts, never both; conflicts that no choice covers are
  returned exactly, in their order, and then no tree is exposed.
\<close>

theorem resolution_atomic:
  assumes "resolve_directory_conflicts sha nfc base current incoming names cs ls = Inr r"
  shows "(merged r = None \<longleftrightarrow> conflicts r \<noteq> []) \<and>
    (filter (\<lambda>x. \<forall>l \<in> set ls. \<not> covers (lc_choice l) x names) cs \<noteq> [] \<longrightarrow>
      conflicts r = filter (\<lambda>x. \<forall>l \<in> set ls. \<not> covers (lc_choice l) x names) cs)"
proof -
  define R where "R = filter (\<lambda>x. \<not> list_ex (\<lambda>l. covers (lc_choice l) x names) ls) cs"
  define F where "F = (\<lambda>al :: (pystr \<times> entry) list. case new_manifest (sort_key (\<lambda>e. utf8 (e_path e)) (map snd al)) of
            Inr m \<Rightarrow> merged_result m
          | Inl _ \<Rightarrow> conflict_result [\<lparr>c_path = dot, c_reason = Invalid_tree,
                       c_unit = sort (remdups (names @ [dot]))\<rparr>])"
  have rem: "filter (\<lambda>x. \<forall>l \<in> set ls. \<not> covers (lc_choice l) x names) cs = R"
    unfolding R_def by (rule filter_cong) (auto simp: list_ex_iff)
  have F: "merged (F al) = None \<longleftrightarrow> conflicts (F al) \<noteq> []" for al
    by (simp add: F_def conflict_result_def merged_result_def split: sum.split)
  from assms have "(if R \<noteq> [] then Inr (conflict_result R)
      else bind_res (fold_res (apply_choice names current incoming) (initial_entries base current incoming) ls)
        (\<lambda>al. Inr (F al))) = Inr r"
    unfolding resolve_directory_conflicts_def bind_res_eq_Inr_iff Let_def R_def F_def by blast
  then have "r = conflict_result R \<and> R \<noteq> [] \<or> R = [] \<and> (\<exists>al. r = F al)"
    by (auto split: if_splits)
  then show ?thesis unfolding rem using F by (auto simp: conflict_result_def)
qed

text \<open>
  A resolved tree is a checked manifest, including the entries of uploaded trees and a file
  moved to the chosen path.
\<close>

theorem resolution_result_valid:
  assumes "manifest_ok nfc base" "manifest_ok nfc current" "manifest_ok nfc incoming"
    and "list_all (\<lambda>l. choice_ok nfc (lc_choice l) \<and> (\<forall>t. lc_tree l = Some t \<longrightarrow> manifest_ok nfc t)) ls"
    and "resolve_directory_conflicts sha nfc base current incoming names cs ls = Inr r" "merged r = Some m"
  shows "manifest_ok nfc m"
proof -
  from resolution_merged [OF assms(5,6)] obtain al where al:
    "fold_res (apply_choice names current incoming) (initial_entries base current incoming) ls = Inr al"
    "disjoint_plan ls names" "by_path (entries m) = map_of al"
    "new_manifest (sort_key e_path (map snd al)) = Inr m" by blast
  have eok: "entry_ok nfc e" if "manifest_ok nfc t" "by_path (entries t) p = Some e" for t p e
    using that by (auto simp: manifest_ok_def list_all_iff dest: index_by_Some)
  have rep: "entry_ok nfc e" if l: "l \<in> set ls" "replacement current incoming l p = Some e" for l p e
  proof -
    have c: "choice_ok nfc (lc_choice l)" and t: "\<And>t. lc_tree l = Some t \<Longrightarrow> manifest_ok nfc t"
      using l(1) assms(4) by (auto simp: list_all_iff)
    obtain source where src: "choice_source current incoming l = Inr source"
      using l(2) by (cases "choice_source current incoming l") (simp_all add: replacement_def)
    have s: "manifest_ok nfc source"
      using src t assms(2,3) by (auto simp: choice_source_def split: if_splits option.splits)
    show ?thesis
      using l(2) src eok [OF s] choice_okD [OF c] s
      by (auto simp: replacement_def manifest_ok_def split: if_splits list.splits intro: entry_ok_moved)
  qed
  note ap = apply_choices_ok [OF al(1) initial_entries_ok(1) al(2)]
  have ok: "entry_ok nfc e" if "map_of al p = Some e" for p e
  proof -
    have "default_selection (by_path (entries base) p) (by_path (entries current) p) (by_path (entries incoming) p) = Some e
      \<Longrightarrow> entry_ok nfc e"
      using eok assms(1-3) by (auto simp: default_selection_def Let_def split: if_splits)
    with that rep ap show ?thesis
      unfolding initial_entries_ok(2) by (metis option.inject)
  qed
  have "entry_ok nfc e" if "e \<in> set (entries m)" for e
  proof -
    from that obtain k where "(k, e) \<in> set al" using new_manifest_entries [OF al(4)] by auto
    with ap have "map_of al k = Some e" by (simp add: dict_by_def)
    then show ?thesis by (rule ok)
  qed
  then have "list_all (entry_ok nfc) (entries m)" by (simp add: list_all_iff)
  moreover have "new_manifest (entries m) = Inr m" using al(4) new_manifest_entries [OF al(4)] by simp
  ultimately show ?thesis by (simp add: manifest_ok_def)
qed

section \<open>Witnesses\<close>

text \<open>
  Both sides edit \<open>a/f\<close>, the incoming side also adds \<open>a/g\<close>; the plan takes \<open>a/f\<close> from the incoming
  side.
\<close>

definition r_tree :: "nat \<Rightarrow> entry list \<Rightarrow> manifest" where
  "r_tree digit added = \<lparr>version = 1, entries = [s_dir [97], s_file [97, 47, 102] digit] @ added\<rparr>"

definition r_choice :: choice where
  "r_choice = \<lparr>ch_path = Some [97, 47, 102], ch_unit = [], ch_use = Some Incoming, ch_file = None, ch_directory = None\<rparr>"

definition r_plan :: "loaded list" where
  "r_plan = [\<lparr>lc_choice = r_choice, lc_tree = None\<rparr>]"

abbreviation "r_incoming \<equiv> r_tree 3 [s_file [97, 47, 103] 4]"

definition r_conflict :: conflict where
  "r_conflict = \<lparr>c_path = [97, 47, 102], c_reason = Changed_both, c_unit = [[97]]\<rparr>"

lemma r_ok: "manifest_ok ascii (r_tree 1 [])" "manifest_ok ascii (r_tree 2 [])" "manifest_ok ascii r_incoming"
  "names_ok ascii [[97]]"
  by code_simp+

lemma r_merge: "merge_directory_manifests ascii (r_tree 1 []) (r_tree 2 []) r_incoming [[97]] =
  Inr \<lparr>merged = None, conflicts = [r_conflict], result_units = [[[97]]]\<rparr>"
  by code_simp

lemma r_resolve: "resolve_directory_conflicts (\<lambda>b. b) ascii (r_tree 1 []) (r_tree 2 []) r_incoming [[97]]
    [r_conflict] r_plan = Inr (merged_result r_incoming)"
  by code_simp

lemma r_merged: "merged (merged_result r_incoming) = Some r_incoming"
  by (simp add: merged_result_def)

lemma r_choice_ok: "choice_ok ascii r_choice"
  by code_simp

theorem resolution_follows_plan_witness:
  "by_path (entries r_incoming) [97, 47, 102] = replacement (r_tree 2 []) r_incoming (hd r_plan) [97, 47, 102]"
proof -
  have "in_scope (lc_choice (hd r_plan)) [97, 47, 102] [[97]]" by code_simp
  moreover have "hd r_plan \<in> set r_plan" by (simp add: r_plan_def)
  ultimately show ?thesis using resolution_follows_plan [OF r_resolve r_merged] by blast
qed

theorem resolution_no_silent_loss_witness:
  "\<exists>l \<in> set r_plan. in_scope (lc_choice l) [97, 47, 102] [[97]] \<and>
     by_path (entries r_incoming) [97, 47, 102] = replacement (r_tree 2 []) r_incoming l [97, 47, 102]"
proof -
  have c: "conflicts \<lparr>merged = None, conflicts = [r_conflict], result_units = [[[97]]]\<rparr> = [r_conflict]" by simp
  have "list_all (\<lambda>l. choice_ok ascii (lc_choice l)) r_plan" using r_choice_ok by (simp add: r_plan_def)
  moreover have "by_path (entries (r_tree 2 [])) [97, 47, 102] \<noteq> by_path (entries (r_tree 1 [])) [97, 47, 102]"
    "by_path (entries r_incoming) [97, 47, 102] \<noteq> by_path (entries (r_tree 1 [])) [97, 47, 102]"
    "by_path (entries (r_tree 2 [])) [97, 47, 102] \<noteq> by_path (entries r_incoming) [97, 47, 102]"
    by code_simp+
  ultimately show ?thesis
    by (rule resolution_no_silent_loss [OF r_ok r_merge, unfolded c, OF r_resolve r_merged])
qed

theorem resolution_atomic_witness:
  "conflicts (conflict_result [r_conflict]) = filter (\<lambda>x. \<forall>l \<in> set []. \<not> covers (lc_choice l) x [[97]]) [r_conflict]"
proof -
  have "resolve_directory_conflicts (\<lambda>b. b) ascii (r_tree 1 []) (r_tree 2 []) r_incoming [[97]] [r_conflict] [] =
    Inr (conflict_result [r_conflict])"
    by code_simp
  from resolution_atomic [OF this] show ?thesis by simp
qed

theorem resolution_result_valid_witness: "manifest_ok ascii r_incoming"
proof -
  have "list_all (\<lambda>l. choice_ok ascii (lc_choice l) \<and> (\<forall>t. lc_tree l = Some t \<longrightarrow> manifest_ok ascii t)) r_plan"
    using r_choice_ok by (simp add: r_plan_def)
  then show ?thesis by (rule resolution_result_valid [OF r_ok(1-3) _ r_resolve r_merged])
qed

end
