(* ===== verification/Migration.thy ===== *)
theory Migration
  imports Resolution
begin

text \<open>
  The resolution of a migration (\<open>skill_manager/migration_resolution.py\<close>): the linked unit of the
  migrated skill over four trees, the scope checks of the choices, the linked and the single case,
  and the completion of the account directory.
\<close>

section \<open>Definitions\<close>

record migration_inputs =
  mi_name :: pystr
  mi_names :: "pystr list"
  mi_base :: manifest
  mi_current :: manifest
  mi_incoming :: manifest
  mi_directory :: manifest
  mi_conflicts :: "conflict list"

definition migration_resolution_unit :: "(pystr \<Rightarrow> bool) \<Rightarrow> migration_inputs \<Rightarrow> (pystr list) res" where
  "migration_resolution_unit nfc x =
     (if mi_name x \<notin> set (mi_names x) \<or> mi_name x = dot \<or> slash \<in> set (mi_name x)
      then Inl (ValueError ''migration target must be one authorized top-level identity'')
      else bind_res (directory_merge_units nfc [mi_base x, mi_current x, mi_incoming x, mi_directory x] (mi_names x))
        (\<lambda>us. Inr (case List.find (\<lambda>u. mi_name x \<in> set u) us of Some u \<Rightarrow> u | None \<Rightarrow> [mi_name x])))"

definition in_unit :: "pystr \<Rightarrow> pystr list \<Rightarrow> pystr list \<Rightarrow> bool" where
  "in_unit path unit names \<longleftrightarrow>
     (let root = top_component path in (if root \<in> set names then root else dot) \<in> set unit)"

definition migration_member :: "manifest \<Rightarrow> pystr \<Rightarrow> manifest res" where
  "migration_member tree name = new_manifest (filter (\<lambda>e. within (e_path e) name) (entries tree))"

definition validate_scope ::
  "(bytes \<Rightarrow> pystr) \<Rightarrow> migration_inputs \<Rightarrow> pystr list \<Rightarrow> loaded \<Rightarrow> unit res"
where
  "validate_scope sha x unit l =
     (let c = lc_choice l in
      bind_res (require ((tree_digest c = None) = (lc_tree l = None))
                  (ValueError ''resolution content does not match its method'')) (\<lambda>_.
      bind_res (require (case lc_tree l of None \<Rightarrow> True | Some t \<Rightarrow> Some (manifest_digest sha t) = tree_digest c)
                  (ValueError ''resolution content differs from declared digest'')) (\<lambda>_.
      bind_res (require (\<not> (ch_unit c \<noteq> [] \<and> ch_unit c \<noteq> unit))
                  (ValueError ''migration choice requires the complete target unit'')) (\<lambda>_.
      bind_res (require (case ch_path c of None \<Rightarrow> True | Some p \<Rightarrow> within p (mi_name x))
                  (ValueError ''migration path is outside the target'')) (\<lambda>_.
      bind_res (require (\<not> (length unit > 1 \<and> ch_path c \<noteq> None))
                  (ValueError ''linked migration state requires a complete unit choice'')) (\<lambda>_.
      if ch_directory c = None then Inr ()
      else (case lc_tree l of
          None \<Rightarrow> Inl AssertionError
        | Some t \<Rightarrow>
            require (\<not> list_ex (\<lambda>e. \<not> in_unit (e_path e) unit (mi_names x) \<and>
                        by_path (entries (mi_directory x)) (e_path e) \<noteq> Some e) (entries t))
              (ValueError ''custom migration tree changes an independent context source''))))))))"

definition migration_complete :: "migration_inputs \<Rightarrow> entry list \<Rightarrow> pystr list \<Rightarrow> merge_result" where
  "migration_complete x selected unit =
     (let es = filter (\<lambda>e. \<not> in_unit (e_path e) unit (mi_names x)) (entries (mi_directory x)) @ selected in
      case new_manifest (sort_key (\<lambda>e. utf8 (e_path e)) es) of
        Inr m \<Rightarrow> merged_result m
      | Inl _ \<Rightarrow> conflict_result [\<lparr>c_path = mi_name x, c_reason = Invalid_tree, c_unit = unit\<rparr>])"

definition linked_selection :: "migration_inputs \<Rightarrow> loaded \<Rightarrow> pystr list \<Rightarrow> entry list" where
  "linked_selection x l unit =
     (if ch_use (lc_choice l) = Some Current
      then filter (\<lambda>e. within (e_path e) (mi_name x)) (entries (mi_current x)) @
           filter (\<lambda>e. in_unit (e_path e) unit (mi_names x) \<and> \<not> within (e_path e) (mi_name x)) (entries (mi_directory x))
      else (let source = (case lc_tree l of Some t \<Rightarrow> t | None \<Rightarrow> mi_incoming x) in
        filter (\<lambda>e. in_unit (e_path e) unit (mi_names x)) (entries source)))"

definition migration_linked :: "migration_inputs \<Rightarrow> loaded list \<Rightarrow> pystr list \<Rightarrow> merge_result res" where
  "migration_linked x ls unit =
     (case ls of
        [] \<Rightarrow> Inr (conflict_result (mi_conflicts x))
      | [l] \<Rightarrow> Inr (migration_complete x (linked_selection x l unit) unit)
      | _ \<Rightarrow> Inl (ValueError ''migration choices overlap on a linked unit''))"

definition resolve_migration_conflicts ::
  "(bytes \<Rightarrow> pystr) \<Rightarrow> (pystr \<Rightarrow> bool) \<Rightarrow> migration_inputs \<Rightarrow> loaded list \<Rightarrow> merge_result res"
where
  "resolve_migration_conflicts sha nfc x ls =
     (if mi_conflicts x = [] then Inl (ValueError ''migration resolution requires a saved conflict'')
      else bind_res (migration_resolution_unit nfc x) (\<lambda>unit.
        bind_res (each (validate_scope sha x unit) ls) (\<lambda>_.
        if length unit > 1 then migration_linked x ls unit
        else
          bind_res (migration_member (mi_base x) (mi_name x)) (\<lambda>base.
          bind_res (migration_member (mi_current x) (mi_name x)) (\<lambda>current.
          bind_res (migration_member (mi_incoming x) (mi_name x)) (\<lambda>incoming.
          bind_res (resolve_directory_conflicts sha nfc base current incoming [mi_name x] (mi_conflicts x) ls) (\<lambda>result.
            Inr (case merged result of
                None \<Rightarrow> result
              | Some m \<Rightarrow> migration_complete x (filter (\<lambda>e. within (e_path e) (mi_name x)) (entries m)) unit))))))))"

section \<open>The target unit\<close>

lemma in_unit_scope: "in_unit p u names \<longleftrightarrow> scope_of names p \<in> set u"
  by (simp add: in_unit_def scope_of_def Let_def)

lemma within_member:
  assumes "slash \<notin> set name"
  shows "within p name \<longleftrightarrow> top_component p = name"
proof
  assume "within p name"
  then have "top_component p = top_component name" by (rule top_component_within)
  moreover have "top_component name = name"
    unfolding top_component_def takeWhile_eq_all_conv using assms by metis
  ultimately show "top_component p = name" by simp
qed (use within_top [of p] in auto)

lemma member_in_unit:
  "slash \<notin> set name \<Longrightarrow> name \<in> set names \<Longrightarrow> name \<in> set u \<Longrightarrow> within p name \<Longrightarrow> in_unit p u names"
  by (simp add: within_member in_unit_def)

lemma find_SomeD': "List.find P xs = Some y \<Longrightarrow> P y \<and> y \<in> set xs"
  by (induction xs) (auto split: if_splits)

lemma migration_unit_target:
  assumes "migration_resolution_unit nfc x = Inr u"
  shows "mi_name x \<in> set u" "mi_name x \<in> set (mi_names x)" "slash \<notin> set (mi_name x)"
  using assms by (auto simp: migration_resolution_unit_def split: if_splits option.splits dest: find_SomeD')

section \<open>Completion\<close>

lemma migration_complete_merged:
  assumes "merged (migration_complete x selected u) = Some m"
    and "\<And>e. e \<in> set selected \<Longrightarrow> in_unit (e_path e) u (mi_names x)"
    and "paths_sorted (entries (mi_directory x))"
  shows "by_path (entries m) p =
    (if in_unit p u (mi_names x) then by_path selected p else by_path (entries (mi_directory x)) p)"
proof -
  let ?out = "filter (\<lambda>e. \<not> in_unit (e_path e) u (mi_names x)) (entries (mi_directory x))"
  let ?es = "?out @ selected"
  have "new_manifest (sort_key e_path ?es) = Inr m"
    using assms(1) by (auto simp: migration_complete_def Let_def conflict_result_def merged_result_def split: sum.splits)
  then have e: "entries m = sort_key e_path ?es"
    and s: "paths_sorted (sort_key e_path ?es)"
    by (auto dest: new_manifest_entries new_manifest_sorted)
  have d: "distinct (map e_path ?es)"
    using paths_sorted_distinct [OF s] by (simp only: distinct_map distinct_sort set_sort)
  have "by_path (entries m) p = Some e \<longleftrightarrow>
    (if in_unit p u (mi_names x) then by_path selected p else by_path (entries (mi_directory x)) p) = Some e" for e
  proof -
    have "by_path (entries m) p = Some e \<longleftrightarrow> e \<in> set ?es \<and> e_path e = p"
      unfolding e index_by_sort_key [OF d] by (rule index_by_distinct [OF d])
    moreover have "distinct (map e_path selected)" using d by simp
    ultimately show ?thesis
      using assms(2) by (auto simp: index_by_distinct by_path_iff [OF assms(3)])
  qed
  then show ?thesis by (metis not_None_eq)
qed

lemma migration_single_unit:
  assumes "migration_resolution_unit nfc x = Inr u" "length u \<le> 1"
  shows "u = [mi_name x]"
  using migration_unit_target(1) [OF assms(1)] assms(2) by (cases u) auto

lemma linked_selection_in_unit:
  assumes "migration_resolution_unit nfc x = Inr u" "e \<in> set (linked_selection x l u)"
  shows "in_unit (e_path e) u (mi_names x)"
  using assms(2) migration_unit_target [OF assms(1)]
  by (auto simp: linked_selection_def Let_def intro: member_in_unit split: if_splits)

text \<open>Where a migration result comes from.\<close>

lemma migration_merged_cases:
  assumes "resolve_migration_conflicts sha nfc x ls = Inr r" "merged r = Some m"
    and "migration_resolution_unit nfc x = Inr u"
  obtains l where "length u > 1" "ls = [l]" "merged (migration_complete x (linked_selection x l u) u) = Some m"
  | b c i d t where "length u \<le> 1" "migration_member (mi_base x) (mi_name x) = Inr b"
      "migration_member (mi_current x) (mi_name x) = Inr c" "migration_member (mi_incoming x) (mi_name x) = Inr i"
      "resolve_directory_conflicts sha nfc b c i [mi_name x] (mi_conflicts x) ls = Inr d" "merged d = Some t"
      "merged (migration_complete x (filter (\<lambda>e. within (e_path e) (mi_name x)) (entries t)) u) = Some m"
proof (cases "length u > 1")
  case True
  with assms have "migration_linked x ls u = Inr r"
    by (auto simp: resolve_migration_conflicts_def split: if_splits)
  with assms(2) True that(1) show ?thesis
    by (auto simp: migration_linked_def conflict_result_def split: list.splits)
next
  case False
  with assms(1,3) obtain b c i d where
    bci: "migration_member (mi_base x) (mi_name x) = Inr b" "migration_member (mi_current x) (mi_name x) = Inr c"
      "migration_member (mi_incoming x) (mi_name x) = Inr i"
      "resolve_directory_conflicts sha nfc b c i [mi_name x] (mi_conflicts x) ls = Inr d"
    and r: "r = (case merged d of None \<Rightarrow> d
      | Some m \<Rightarrow> migration_complete x (filter (\<lambda>e. within (e_path e) (mi_name x)) (entries m)) u)"
    by (auto simp: resolve_migration_conflicts_def split: if_splits)
  from r assms(2) obtain t where "merged d = Some t"
    "merged (migration_complete x (filter (\<lambda>e. within (e_path e) (mi_name x)) (entries t)) u) = Some m"
    by (cases "merged d") auto
  with bci False that(2) show ?thesis by auto
qed

lemma paths_sorted_manifest: "manifest_ok nfc m \<Longrightarrow> paths_sorted (entries m)"
  by (auto simp: manifest_ok_iff dest: wf_tree_sorted)

section \<open>Members of a single unit\<close>

lemma member_is_unit_part:
  assumes "slash \<notin> set name" "name \<in> set names" "dot \<noteq> name"
  shows "filter (\<lambda>e. within (e_path e) name) es = unit_part names [name] es"
  unfolding unit_part_def
  by (rule filter_cong) (use assms in \<open>auto simp: within_member scope_of_def Let_def\<close>)

lemma migration_unit_find:
  assumes "migration_resolution_unit nfc x = Inr u"
  obtains us where "directory_merge_units nfc [mi_base x, mi_current x, mi_incoming x, mi_directory x] (mi_names x) = Inr us"
    "mi_name x \<noteq> dot" "u \<in> set us \<or> u = [mi_name x] \<and> (\<forall>v \<in> set us. mi_name x \<notin> set v)"
proof -
  from assms obtain us where us: "directory_merge_units nfc [mi_base x, mi_current x, mi_incoming x, mi_directory x] (mi_names x) = Inr us"
    and nd: "mi_name x \<noteq> dot"
    and u: "u = (case List.find (\<lambda>u. mi_name x \<in> set u) us of Some u \<Rightarrow> u | None \<Rightarrow> [mi_name x])"
    by (auto simp: migration_resolution_unit_def split: if_splits)
  have "u \<in> set us \<or> u = [mi_name x] \<and> (\<forall>v \<in> set us. mi_name x \<notin> set v)"
    using u by (cases "List.find (\<lambda>u. mi_name x \<in> set u) us") (auto simp: find_None_iff dest: find_SomeD')
  with us nd that show ?thesis by blast
qed

lemma member_of_single_unit:
  assumes ok: "list_all (manifest_ok nfc) [mi_base x, mi_current x, mi_incoming x, mi_directory x]"
    and names: "names_ok nfc (mi_names x)" and u: "migration_resolution_unit nfc x = Inr u" "length u \<le> 1"
    and t: "t \<in> {mi_base x, mi_current x, mi_incoming x, mi_directory x}"
  shows "\<exists>m. migration_member t (mi_name x) = Inr m \<and> manifest_ok nfc m"
proof -
  let ?ms = "[mi_base x, mi_current x, mi_incoming x, mi_directory x]"
  have wf: "wf_tree nfc (entries m)" if "m \<in> set ?ms" for m
    using ok that by (auto simp: manifest_ok_iff list_all_iff)
  from migration_unit_find [OF u(1)] obtain us where us: "directory_merge_units nfc ?ms (mi_names x) = Inr us"
    and nd: "mi_name x \<noteq> dot" and cases: "u \<in> set us \<or> u = [mi_name x] \<and> (\<forall>v \<in> set us. mi_name x \<notin> set v)" .
  from directory_units_ok [of ?ms, OF wf names] us
  have mu: "merge_units_ok nfc (mi_names x) ?ms us"
    using wf by (auto simp: merge_units_ok_def list_all_iff)
  note tgt = migration_unit_target [OF u(1)]
  have u1: "u = [mi_name x]" by (rule migration_single_unit [OF u])
  have part: "filter (\<lambda>e. within (e_path e) (mi_name x)) (entries t) = unit_part (mi_names x) [mi_name x] (entries t)"
    by (rule member_is_unit_part [OF tgt(3) tgt(2)]) (use nd in simp)
  have "wf_tree nfc (unit_part (mi_names x) [mi_name x] (entries t))"
  proof (cases "u \<in> set us")
    case True
    show ?thesis by (rule unit_part_wf [OF mu _ True, unfolded u1]) (use t in auto)
  next
    case False
    with cases have none: "\<forall>v \<in> set us. mi_name x \<notin> set v" by blast
    have "unit_part (mi_names x) [mi_name x] (entries t) = []"
      unfolding unit_part_def filter_empty_conv
    proof
      fix e assume "e \<in> set (entries t)"
      with merge_units_okD(3) [OF mu, of t e] t obtain i where
        "i < length us" "scope_of (mi_names x) (e_path e) \<in> set (us ! i)" by auto
      with none show "\<not> scope_of (mi_names x) (e_path e) \<in> set [mi_name x]" by (metis empty_iff empty_set nth_mem set_ConsD)
    qed
    then show ?thesis by (simp add: wf_tree_def tree_ok_def paths_sorted_def parents_closed_def links_ok_def max_bytes_def)
  qed
  then show ?thesis
    unfolding migration_member_def part by (metis manifest_ok_mk new_manifest_wf)
qed

section \<open>Properties\<close>

text \<open>
  A migration changes only the linked unit of the migrated skill: every path outside it keeps
  the entry of the account directory, whatever the choices and uploaded trees contain.
\<close>

theorem migration_keeps_context:
  assumes "resolve_migration_conflicts sha nfc x ls = Inr r" "merged r = Some m"
    and "migration_resolution_unit nfc x = Inr u" "manifest_ok nfc (mi_directory x)"
    and "\<not> in_unit p u (mi_names x)"
  shows "by_path (entries m) p = by_path (entries (mi_directory x)) p"
  using assms(1-3)
proof (cases rule: migration_merged_cases)
  case (1 l)
  from migration_complete_merged [OF 1(3) linked_selection_in_unit [OF assms(3)] paths_sorted_manifest [OF assms(4)]]
  show ?thesis using assms(5) by simp
next
  case (2 b c i d t)
  have "in_unit (e_path e) u (mi_names x)" if "e \<in> set (filter (\<lambda>e. within (e_path e) (mi_name x)) (entries t))" for e
    using that migration_unit_target [OF assms(3)] by (auto intro: member_in_unit)
  from migration_complete_merged [OF 2(7) this paths_sorted_manifest [OF assms(4)]]
  show ?thesis using assms(5) by simp
qed

text \<open>
  The comparison trees of a migration whose target is a unit of its own always exist: cutting
  the member out of any of the saved trees gives a checked manifest, so no validation error escapes.
\<close>

theorem migration_member_total:
  assumes "list_all (manifest_ok nfc) [mi_base x, mi_current x, mi_incoming x, mi_directory x]"
    and "names_ok nfc (mi_names x)" "migration_resolution_unit nfc x = Inr u" "length u \<le> 1"
    and "t \<in> {mi_base x, mi_current x, mi_incoming x, mi_directory x}"
  shows "\<exists>m. migration_member t (mi_name x) = Inr m \<and> manifest_ok nfc m"
  using assms by (rule member_of_single_unit)

section \<open>Witnesses\<close>

definition mg_inputs :: migration_inputs where
  "mg_inputs = \<lparr>mi_name = [97], mi_names = [[97], [98]], mi_base = r_tree 1 [], mi_current = r_tree 2 [],
     mi_incoming = r_incoming, mi_directory = r_tree 2 [s_dir [98], s_file [98, 47, 102] 7],
     mi_conflicts = [r_conflict]\<rparr>"

definition mg_result :: manifest where
  "mg_result = r_tree 3 [s_file [97, 47, 103] 4, s_dir [98], s_file [98, 47, 102] 7]"

lemma mg_unit: "migration_resolution_unit ascii mg_inputs = Inr [[97]]"
  by code_simp

lemma mg_ok: "list_all (manifest_ok ascii) [mi_base mg_inputs, mi_current mg_inputs, mi_incoming mg_inputs, mi_directory mg_inputs]"
  "names_ok ascii (mi_names mg_inputs)"
  by code_simp+

lemma mg_resolve: "resolve_migration_conflicts (\<lambda>b. b) ascii mg_inputs r_plan = Inr (merged_result mg_result)"
  by code_simp

theorem migration_keeps_context_witness:
  "by_path (entries mg_result) [98, 47, 102] = by_path (entries (mi_directory mg_inputs)) [98, 47, 102]"
proof -
  have "\<not> in_unit [98, 47, 102] [[97]] (mi_names mg_inputs)" by code_simp
  with mg_ok(1) show ?thesis
    by (intro migration_keeps_context [OF mg_resolve _ mg_unit]) (simp_all add: merged_result_def)
qed

theorem migration_member_total_witness:
  "\<exists>m. migration_member (mi_directory mg_inputs) [97] = Inr m \<and> manifest_ok ascii m"
proof -
  have n: "mi_name mg_inputs = [97]" by (simp add: mg_inputs_def)
  show ?thesis
    by (rule migration_member_total [OF mg_ok mg_unit, unfolded n]) simp_all
qed

end
