(* ===== verification/Composition.thy ===== *)
theory Composition
  imports Directory_Merge
begin

text \<open>
  What a session sees of the skills: the composition of a directory from selected subtrees
  (\<open>skill_manager/materialization.py\<close>), the metadata difference of two trees
  (\<open>skill_manager/tree_diff.py\<close>) and the inheritance of the rule fields
  (\<open>skill_manager/rules.py\<close>). Sets of names are lists, order and repetition do not matter.
\<close>

section \<open>Composition of a directory\<close>

record subtree =
  st_name :: pystr
  st_prefix :: pystr
  st_tree :: manifest

definition system_names :: "pystr list" where
  "system_names = [lit ''ego-browser'', lit ''agent-remote-device'']"

definition scope_mismatch :: "string \<Rightarrow> py_error" where
  "scope_mismatch message = MaterializationError ''STATE_SCOPE_MISMATCH'' message"

definition entries_size :: "entry list \<Rightarrow> int" where
  "entries_size es = sum_list (map e_size es)"

definition new_directory :: "pystr \<Rightarrow> entry" where
  "new_directory path = \<lparr>e_path = path, e_kind = Directory, e_mode = 493, e_size = 0, e_sha256 = [],
     e_target = [], e_content = No_content, e_dependency = []\<rparr>"

definition rebase :: "pystr \<Rightarrow> entry \<Rightarrow> entry" where
  "rebase name e = e\<lparr>e_path := name @ [slash] @ e_path e\<rparr>"

definition select_subtree :: "(pystr \<Rightarrow> bool) \<Rightarrow> subtree \<Rightarrow> (entry list) res" where
  "select_subtree nfc item =
     (if st_prefix item \<noteq> [] then
        (if st_prefix item \<noteq> st_name item
         then Inl (scope_mismatch ''checkpoint name requires explicit migration'')
         else (let selected = filter (\<lambda>e. within (e_path e) (st_prefix item)) (entries (st_tree item)) in
           case selected of
             [] \<Rightarrow> Inl (scope_mismatch ''checkpoint subtree is missing'')
           | e # _ \<Rightarrow> if e_path e \<noteq> st_prefix item \<or> e_kind e \<noteq> Directory
               then Inl (scope_mismatch ''checkpoint subtree is missing'')
               else Inr selected))
      else bind_res (new_entry nfc (new_directory (st_name item))) (\<lambda>root.
        Inr (root # map (rebase (st_name item)) (entries (st_tree item)))))"

definition compose_item ::
  "(pystr \<Rightarrow> bool) \<Rightarrow> int \<Rightarrow> entry list \<times> pystr list \<Rightarrow> subtree \<Rightarrow> (entry list \<times> pystr list) res"
where
  "compose_item nfc item_byte_limit acc item =
     (case acc of (es, occupied) \<Rightarrow>
        if st_name item = [] \<or> slash \<in> set (st_name item) \<or> st_name item \<in> set system_names
        then Inl (scope_mismatch ''invalid managed entry name'')
        else if st_name item \<in> set occupied
        then Inl (scope_mismatch ''entry collides with retained directory data'')
        else bind_res (select_subtree nfc item) (\<lambda>selected.
          if entries_size selected > item_byte_limit
          then Inl (MaterializationError ''QUOTA_EXCEEDED'' ''skill checkpoint exceeds its byte quota'')
          else Inr (es @ selected, st_name item # occupied)))"

definition compose_directory ::
  "(pystr \<Rightarrow> bool) \<Rightarrow> manifest \<Rightarrow> pystr list \<Rightarrow> subtree list \<Rightarrow> int \<Rightarrow> manifest res"
where
  "compose_directory nfc directory member_names items item_byte_limit =
     (let kept = filter (\<lambda>e. top_component (e_path e) \<notin> set member_names) (entries directory) in
      if entries_size kept > item_byte_limit
      then Inl (MaterializationError ''QUOTA_EXCEEDED'' ''root auxiliary state exceeds its byte quota'')
      else bind_res (fold_res (compose_item nfc item_byte_limit)
                       (kept, map (\<lambda>e. top_component (e_path e)) kept) items) (\<lambda>(es, _).
        if list_ex (\<lambda>e. top_component (e_path e) \<in> set system_names) es
        then Inl (scope_mismatch ''system skills cannot enter user state'')
        else (case new_manifest (sort_key (\<lambda>e. utf8 (e_path e)) es) of
            Inl _ \<Rightarrow> Inl (MaterializationError ''STATE_DEPENDENCY_MISSING''
                       ''selected state has missing or incompatible dependencies'')
          | Inr m \<Rightarrow> Inr m)))"

section \<open>Difference of two trees\<close>

record path_diff =
  pd_path :: pystr
  pd_base :: "entry option"
  pd_current :: "entry option"

definition in_name :: "pystr option \<Rightarrow> pystr \<Rightarrow> bool" where
  "in_name name p \<longleftrightarrow> (case name of None \<Rightarrow> True | Some n \<Rightarrow> within p n)"

definition manifest_difference :: "manifest \<Rightarrow> manifest \<Rightarrow> pystr option \<Rightarrow> path_diff list" where
  "manifest_difference before after name =
     (let lefts = filter (\<lambda>e. in_name name (e_path e)) (entries before);
          rights = filter (\<lambda>e. in_name name (e_path e)) (entries after) in
      map (\<lambda>p. \<lparr>pd_path = p, pd_base = by_path lefts p, pd_current = by_path rights p\<rparr>)
        (filter (\<lambda>p. by_path lefts p \<noteq> by_path rights p) (sort (remdups (map e_path (lefts @ rights))))))"

section \<open>Rules\<close>

datatype rule_scope = User_scope | Tool_scope | Account_scope
datatype exclusion = Removed | Unsupported_tool | Excluded_incompatible

record rule_override =
  ro_enabled :: "bool option"
  ro_revision :: "nat option"

record resolved_rule =
  rr_enabled :: bool
  rr_revision :: nat
  rr_enabled_source :: rule_scope
  rr_revision_source :: rule_scope
  rr_eligible :: bool
  rr_included :: bool
  rr_exclusion :: "exclusion option"

text \<open>The loop over the overrides; the state is (enabled, its source, revision, its source).\<close>

fun apply_overrides ::
  "(rule_scope \<times> rule_override option) list \<Rightarrow> (bool \<times> rule_scope) \<times> (nat \<times> rule_scope) \<Rightarrow>
   (bool \<times> rule_scope) \<times> (nat \<times> rule_scope)"
where
  "apply_overrides [] st = st"
| "apply_overrides ((scope, rule) # rest) (en, rv) =
     (case rule of
        None \<Rightarrow> apply_overrides rest (en, rv)
      | Some r \<Rightarrow> apply_overrides rest
          ((case ro_enabled r of None \<Rightarrow> en | Some b \<Rightarrow> (b, scope)),
           (case ro_revision r of None \<Rightarrow> rv | Some i \<Rightarrow> (i, scope))))"

definition resolve_skill_rule ::
  "bool \<Rightarrow> nat \<Rightarrow> rule_override option \<Rightarrow> rule_override option \<Rightarrow> exclusion option \<Rightarrow> resolved_rule"
where
  "resolve_skill_rule default_enabled default_revision tool_rule account_rule exclusion_reason =
     (case apply_overrides [(Tool_scope, tool_rule), (Account_scope, account_rule)]
             ((default_enabled, User_scope), (default_revision, User_scope)) of
        ((enabled, es), (revision, rs)) \<Rightarrow>
          \<lparr>rr_enabled = enabled, rr_revision = revision, rr_enabled_source = es, rr_revision_source = rs,
           rr_eligible = (exclusion_reason = None), rr_included = (enabled \<and> exclusion_reason = None),
           rr_exclusion = exclusion_reason\<rparr>)"

section \<open>The composed entries\<close>

lemma new_entry_Inr: "new_entry nfc e = Inr e' \<Longrightarrow> e' = e"
  by (auto simp: new_entry_def split: if_splits sum.splits dest: validate_shape_Inr)

lemma compose_item_Inr:
  "compose_item nfc limit (es, occ) item = Inr acc \<longleftrightarrow>
     (\<exists>part. select_subtree nfc item = Inr part \<and> entries_size part \<le> limit \<and> st_name item \<noteq> [] \<and>
        slash \<notin> set (st_name item) \<and> st_name item \<notin> set system_names \<and> st_name item \<notin> set occ \<and>
        acc = (es @ part, st_name item # occ))"
  by (auto simp: compose_item_def not_less split: if_splits)

lemma select_subtree_top:
  assumes "select_subtree nfc item = Inr es" "e \<in> set es" "slash \<notin> set (st_name item)"
  shows "top_component (e_path e) = st_name item"
proof -
  have n: "top_component (st_name item) = st_name item"
    unfolding top_component_def takeWhile_eq_all_conv using assms(3) by metis
  have "within (e_path e) (st_name item)"
    using assms(1,2)
    by (auto simp: select_subtree_def Let_def rebase_def within_iff new_directory_def
        split: if_splits list.splits dest!: new_entry_Inr)
  then show ?thesis using n top_component_within by metis
qed

lemma compose_items_ok:
  assumes "fold_res (compose_item nfc limit) (kept, occ) items = Inr (es, occ')"
  shows "\<exists>parts. es = kept @ concat parts \<and> list_all2 (\<lambda>item part. select_subtree nfc item = Inr part \<and>
      entries_size part \<le> limit \<and> st_name item \<notin> set occ \<and> slash \<notin> set (st_name item)) items parts \<and>
    distinct (map st_name items)"
  using assms
proof (induction items arbitrary: kept occ)
    case (Cons item items)
    from Cons.prems obtain part where part: "select_subtree nfc item = Inr part" "entries_size part \<le> limit"
      and n: "st_name item \<notin> set occ" "slash \<notin> set (st_name item)"
      and rest: "fold_res (compose_item nfc limit) (kept @ part, st_name item # occ) items = Inr (es, occ')"
      by (auto simp: compose_item_Inr)
    from Cons.IH [OF rest] obtain parts where IH: "es = (kept @ part) @ concat parts"
      "list_all2 (\<lambda>it p. select_subtree nfc it = Inr p \<and> entries_size p \<le> limit \<and>
        st_name it \<notin> set (st_name item # occ) \<and> slash \<notin> set (st_name it)) items parts"
      "distinct (map st_name items)" by blast
    have "st_name item \<notin> st_name ` set items"
      using IH(2) by (auto simp: list_all2_conv_all_nth in_set_conv_nth)
    moreover have "list_all2 (\<lambda>it p. select_subtree nfc it = Inr p \<and> entries_size p \<le> limit \<and>
        st_name it \<notin> set occ \<and> slash \<notin> set (st_name it)) items parts"
      using IH(2) by (rule list_all2_mono) simp
    ultimately show ?case using IH(1,3) part n by (intro exI [of _ "part # parts"]) simp
  qed simp

lemma compose_directory_parts:
  assumes "compose_directory nfc directory member_names items limit = Inr m"
  defines "kept \<equiv> filter (\<lambda>e. top_component (e_path e) \<notin> set member_names) (entries directory)"
  obtains parts where "entries_size kept \<le> limit"
    "list_all2 (\<lambda>item part. select_subtree nfc item = Inr part \<and> entries_size part \<le> limit \<and>
       st_name item \<notin> (\<lambda>e. top_component (e_path e)) ` set kept \<and> slash \<notin> set (st_name item)) items parts"
    "distinct (map st_name items)"
    "\<forall>e \<in> set (kept @ concat parts). top_component (e_path e) \<notin> set system_names"
    "new_manifest (sort_key e_path (kept @ concat parts)) = Inr m"
proof -
  from assms(1) obtain es occ where
    f: "fold_res (compose_item nfc limit) (kept, map (\<lambda>e. top_component (e_path e)) kept) items = Inr (es, occ)"
    and sz: "entries_size kept \<le> limit"
    and sys: "\<forall>e \<in> set es. top_component (e_path e) \<notin> set system_names"
    and m: "new_manifest (sort_key e_path es) = Inr m"
    unfolding compose_directory_def Let_def kept_def [symmetric]
    by (auto simp: list_ex_iff split: if_splits sum.splits)
  from compose_items_ok [OF f] obtain parts where "es = kept @ concat parts"
    "list_all2 (\<lambda>item part. select_subtree nfc item = Inr part \<and> entries_size part \<le> limit \<and>
       st_name item \<notin> set (map (\<lambda>e. top_component (e_path e)) kept) \<and> slash \<notin> set (st_name item)) items parts"
    "distinct (map st_name items)" by blast
  with sz sys m that show ?thesis by simp
qed

lemma composed_by_path:
  assumes "new_manifest (sort_key e_path es) = Inr m"
  shows "by_path (entries m) p = Some e \<longleftrightarrow> e \<in> set es \<and> e_path e = p"
    "distinct (map e_path es)"
proof -
  have "distinct (map e_path (sort_key e_path es))"
    using assms by (intro paths_sorted_distinct new_manifest_sorted)
  then show d: "distinct (map e_path es)" by (simp only: distinct_map distinct_sort set_sort)
  show "by_path (entries m) p = Some e \<longleftrightarrow> e \<in> set es \<and> e_path e = p"
    unfolding new_manifest_entries [OF assms] index_by_sort_key [OF d] by (rule index_by_distinct [OF d])
qed

section \<open>Properties\<close>

text \<open>
  What a selected checkpoint exposes under its name: its own branch, which must be a directory of that name, or,
  for a tree without a top level of its own, a new directory with the tree below it.
\<close>

definition exposes :: "subtree \<Rightarrow> entry \<Rightarrow> bool" where
  "exposes item e \<longleftrightarrow>
     (if st_prefix item = [] then e = new_directory (st_name item) \<or>
        (\<exists>x \<in> set (entries (st_tree item)). e = x\<lparr>e_path := st_name item @ [slash] @ e_path x\<rparr>)
      else st_prefix item = st_name item \<and> e \<in> set (entries (st_tree item)) \<and>
        (e_path e = st_name item \<or> (\<exists>q. e_path e = st_name item @ [slash] @ q)) \<and>
        (\<exists>x \<in> set (entries (st_tree item)). e_path x = st_name item \<and> e_kind x = Directory))"

lemma select_exposes:
  assumes "select_subtree nfc item = Inr part"
  shows "set part = {e. exposes item e}"
proof (cases "st_prefix item = []")
  case True
  with assms show ?thesis by (auto simp: select_subtree_def exposes_def rebase_def dest!: new_entry_Inr)
next
  case False
  let ?sel = "filter (\<lambda>e. within (e_path e) (st_prefix item)) (entries (st_tree item))"
  from assms False have p: "st_prefix item = st_name item" "part = ?sel"
    and x: "\<exists>x xs. ?sel = x # xs \<and> e_path x = st_prefix item \<and> e_kind x = Directory"
    by (auto simp: select_subtree_def Let_def split: if_splits list.splits)
  from x obtain x xs where "?sel = x # xs" "e_path x = st_prefix item" "e_kind x = Directory" by blast
  then have "x \<in> set (entries (st_tree item))" by (metis filter_is_subset list.set_intros(1) subsetD)
  with False p \<open>e_path x = st_prefix item\<close> \<open>e_kind x = Directory\<close> show ?thesis
    by (auto simp: exposes_def within_iff)
qed

text \<open>
  C39. A composed directory is exactly the root data that belongs to no member, plus what the selected
  checkpoints expose: below each selected name it holds that and nothing else, elsewhere it keeps the
  old entries that are not members. The names are different and free, neither the kept root data nor
  any checkpoint exceeds the byte limit, and no system skill appears.
\<close>

theorem compose_directory_exact:
  assumes "compose_directory nfc directory member_names items limit = Inr m" "manifest_ok nfc directory"
  defines "kept \<equiv> filter (\<lambda>e. top_component (e_path e) \<notin> set member_names) (entries directory)"
  shows "(\<forall>p. top_component p \<notin> st_name ` set items \<longrightarrow>
      by_path (entries m) p = (if top_component p \<in> set member_names then None else by_path (entries directory) p)) \<and>
    (\<forall>item \<in> set items. \<exists>part. set part = {e. exposes item e} \<and> sum_list (map e_size part) \<le> limit \<and>
      (\<forall>p e. top_component p = st_name item \<longrightarrow> (by_path (entries m) p = Some e \<longleftrightarrow> e \<in> set part \<and> e_path e = p)) \<and>
      slash \<notin> set (st_name item) \<and> (\<forall>e \<in> set kept. top_component (e_path e) \<noteq> st_name item)) \<and>
    distinct (map st_name items) \<and> sum_list (map e_size kept) \<le> limit \<and>
    (\<forall>e \<in> set (entries m). top_component (e_path e) \<noteq> lit ''ego-browser'' \<and> top_component (e_path e) \<noteq> lit ''agent-remote-device'')"
proof -
  let ?kept = "filter (\<lambda>e. top_component (e_path e) \<notin> set member_names) (entries directory)"
  obtain parts where quota: "entries_size ?kept \<le> limit" and p: "list_all2 (\<lambda>item part. select_subtree nfc item = Inr part \<and> entries_size part \<le> limit \<and>
       st_name item \<notin> (\<lambda>e. top_component (e_path e)) ` set ?kept \<and> slash \<notin> set (st_name item)) items parts"
    and names: "distinct (map st_name items)"
    and sys: "\<forall>e \<in> set (?kept @ concat parts). top_component (e_path e) \<notin> set system_names"
    and nm: "new_manifest (sort_key e_path (?kept @ concat parts)) = Inr m"
    by (rule compose_directory_parts [OF assms(1)])
  note m = composed_by_path [OF nm]
  have d: "paths_sorted (entries directory)" using assms(2) by (auto simp: manifest_ok_iff dest: wf_tree_sorted)
  have part: "select_subtree nfc (items ! i) = Inr (parts ! i)" "entries_size (parts ! i) \<le> limit"
    "st_name (items ! i) \<notin> (\<lambda>e. top_component (e_path e)) ` set ?kept"
    "\<forall>e \<in> set (parts ! i). top_component (e_path e) = st_name (items ! i)" "slash \<notin> set (st_name (items ! i))" if "i < length items" for i
    using p that select_subtree_top by (auto simp: list_all2_conv_all_nth)
  have len: "length parts = length items" using p by (simp add: list_all2_lengthD)
  have mem: "e \<in> set (?kept @ concat parts) \<longleftrightarrow> e \<in> set ?kept \<or> (\<exists>i < length items. e \<in> set (parts ! i))" for e
    using len by (auto simp: in_set_conv_nth) (metis nth_mem)+
  have "by_path (entries m) q = (if top_component q \<in> set member_names then None else by_path (entries directory) q)"
    if "top_component q \<notin> st_name ` set items" for q
  proof -
    have "by_path (entries m) q = Some e \<longleftrightarrow>
      (if top_component q \<in> set member_names then None else by_path (entries directory) q) = Some e" for e
      using that part(4) unfolding m(1) mem by (auto simp: by_path_iff [OF d])
    then show ?thesis by (metis not_None_eq)
  qed
  moreover have "\<exists>part. set part = {e. exposes item e} \<and> sum_list (map e_size part) \<le> limit \<and>
      (\<forall>p e. top_component p = st_name item \<longrightarrow> (by_path (entries m) p = Some e \<longleftrightarrow> e \<in> set part \<and> e_path e = p)) \<and>
      slash \<notin> set (st_name item) \<and> (\<forall>e \<in> set ?kept. top_component (e_path e) \<noteq> st_name item)" if item: "item \<in> set items" for item
  proof -
    from item obtain i where i: "i < length items" "items ! i = item" by (metis in_set_conv_nth)
    have "by_path (entries m) q = Some e \<longleftrightarrow> e \<in> set (parts ! i) \<and> e_path e = q" if q: "top_component q = st_name item" for q e
    proof -
      have other: "j = i" if "j < length items" "e \<in> set (parts ! j)" "e_path e = q" for j e
      proof -
        have "st_name (items ! j) = st_name (items ! i)" using part(4) [OF that(1)] that q i by auto
        with names that(1) i(1) show ?thesis by (metis length_map nth_eq_iff_index_eq nth_map)
      qed
      have nk: "e \<notin> set ?kept" if "e_path e = q" for e
      proof
        assume "e \<in> set ?kept"
        then have "top_component (e_path e) \<in> (\<lambda>e. top_component (e_path e)) ` set ?kept" by (rule imageI)
        with part(3) [OF i(1)] that q i(2) show False by simp
      qed
      show ?thesis unfolding m(1) mem using nk other i(1) by blast
    qed
    moreover have "sum_list (map e_size (parts ! i)) \<le> limit" using part(2) [OF i(1)] by (simp add: entries_size_def)
    moreover have "slash \<notin> set (st_name item)" using part(5) [OF i(1)] i(2) by simp
    moreover have "\<forall>e \<in> set ?kept. top_component (e_path e) \<noteq> st_name item" using part(3) [OF i(1)] i(2) by force
    ultimately show ?thesis using select_exposes [OF part(1) [OF i(1)]] i(2) by blast
  qed
  moreover have "set (entries m) = set (?kept @ concat parts)"
    using new_manifest_entries [OF nm] by simp
  moreover have "top_component (e_path e) \<noteq> lit ''ego-browser'' \<and> top_component (e_path e) \<noteq> lit ''agent-remote-device''"
    if "e \<in> set (entries m)" for e using that calculation(3) sys by (auto simp: system_names_def)
  moreover have "sum_list (map e_size ?kept) \<le> limit" using quota by (simp add: entries_size_def)
  ultimately show ?thesis using names unfolding kept_def by blast
qed

text \<open>
  Composition fails only with a stable, convertible failure category, except that an item
  without prefix whose name is not a valid path lets the validation error of its root entry through.
\<close>

theorem compose_directory_errors:
  assumes "compose_directory nfc directory member_names items limit = Inl err"
  shows "(\<exists>code message. err = MaterializationError code message) \<or>
    (err = ValidationError \<and> (\<exists>item \<in> set items. st_prefix item = [] \<and>
      validate_relative_path nfc (st_name item) \<noteq> Inr (st_name item)))"
proof -
  let ?ok = "\<lambda>err items. (\<exists>code message. err = MaterializationError code message) \<or>
    (err = ValidationError \<and> (\<exists>item \<in> set items. st_prefix item = [] \<and>
      validate_relative_path nfc (st_name item) \<noteq> Inr (st_name item)))"
  have root: "new_entry nfc (new_directory n) = Inl err \<Longrightarrow>
    err = ValidationError \<and> validate_relative_path nfc n \<noteq> Inr n" for n err
    by (auto simp: new_entry_def entry_fields_ok_def new_directory_def validate_shape_def max_bytes_def split: if_splits)
  have items: "?ok err items" if "fold_res (compose_item nfc limit) acc items = Inl err" for acc err items
    using that
  proof (induction items arbitrary: acc)
    case (Cons item items)
    from Cons.prems consider "compose_item nfc limit acc item = Inl err"
      | acc' where "fold_res (compose_item nfc limit) acc' items = Inl err"
      by (auto simp: bind_res_eq_Inl_iff)
    then show ?case
    proof cases
      case 1
      then show ?thesis
        by (auto simp: compose_item_def select_subtree_def scope_mismatch_def bind_res_eq_Inl_iff Let_def
            split: if_splits prod.splits list.splits dest: root)
    next
      case 2
      from Cons.IH [OF this] show ?thesis by auto
    qed
  qed simp
  show ?thesis
    using assms items unfolding compose_directory_def Let_def scope_mismatch_def
    by (auto simp: bind_res_eq_Inl_iff split: if_splits sum.splits)
qed

text \<open>
  A difference is complete and exact: replacing the listed paths of the old tree by their
  current side gives the new tree in the compared range; a path is listed once, in order, and only
  when it changed.
\<close>

theorem manifest_difference_patches:
  "(\<forall>p. in_name name p \<longrightarrow> by_path (entries after) p =
      (case map_of (map (\<lambda>d. (pd_path d, pd_current d)) (manifest_difference before after name)) p of
         Some current \<Rightarrow> current | None \<Rightarrow> by_path (entries before) p)) \<and>
   sorted_wrt (<) (map pd_path (manifest_difference before after name)) \<and>
   (\<forall>d \<in> set (manifest_difference before after name). in_name name (pd_path d) \<and> pd_base d \<noteq> pd_current d \<and>
      pd_base d = by_path (entries before) (pd_path d) \<and> pd_current d = by_path (entries after) (pd_path d))"
proof -
  let ?l = "by_path (filter (\<lambda>e. in_name name (e_path e)) (entries before))"
  let ?r = "by_path (filter (\<lambda>e. in_name name (e_path e)) (entries after))"
  let ?es = "filter (\<lambda>e. in_name name (e_path e)) (entries before) @ filter (\<lambda>e. in_name name (e_path e)) (entries after)"
  let ?ps = "filter (\<lambda>p. ?l p \<noteq> ?r p) (sort (remdups (map e_path ?es)))"
  have D: "manifest_difference before after name = map (\<lambda>p. \<lparr>pd_path = p, pd_base = ?l p, pd_current = ?r p\<rparr>) ?ps"
    by (simp add: manifest_difference_def Let_def)
  have lr: "?l p = (if in_name name p then by_path (entries before) p else None)"
    "?r p = (if in_name name p then by_path (entries after) p else None)" for p
    using index_by_filter_key [of e_path "in_name name"] by blast+
  have cover: "p \<in> set ?ps \<longleftrightarrow> ?l p \<noteq> ?r p" for p
  proof -
    have "p \<in> e_path ` set ?es" if "?l p \<noteq> ?r p"
    proof (rule ccontr)
      assume "p \<notin> e_path ` set ?es"
      then have "p \<notin> e_path ` set (filter (\<lambda>e. in_name name (e_path e)) (entries before))"
        "p \<notin> e_path ` set (filter (\<lambda>e. in_name name (e_path e)) (entries after))" unfolding set_append image_Un by blast+
      then have "?l p = None" "?r p = None" by (simp_all only: index_by_None_iff not_False_eq_True)
      with that show False by simp
    qed
    then show ?thesis by (simp only: set_filter mem_Collect_eq set_sort set_remdups set_map) blast
  qed
  have m: "map_of (map (\<lambda>d. (pd_path d, pd_current d)) (manifest_difference before after name)) p =
    (if ?l p \<noteq> ?r p then Some (?r p) else None)" for p
  proof -
    have "map_of (map (\<lambda>p. (p, f p)) ps) p = (if p \<in> set ps then Some (f p) else None)" for f :: "pystr \<Rightarrow> entry option" and ps
      by (induction ps) auto
    then show ?thesis unfolding D by (simp only: map_map o_def path_diff.simps cover)
  qed
  have "sorted_wrt (<) ?ps"
    by (rule sorted_wrt_filter) (simp add: strict_sorted_iff)
  then have "sorted_wrt (<) (map pd_path (manifest_difference before after name))"
    unfolding D by (simp only: map_map o_def path_diff.simps map_ident)
  moreover have "in_name name (pd_path d) \<and> pd_base d \<noteq> pd_current d \<and>
      pd_base d = by_path (entries before) (pd_path d) \<and> pd_current d = by_path (entries after) (pd_path d)"
    if "d \<in> set (manifest_difference before after name)" for d
  proof -
    from that obtain p where "p \<in> set ?ps" "d = \<lparr>pd_path = p, pd_base = ?l p, pd_current = ?r p\<rparr>"
      unfolding D by (auto simp only: set_map)
    then show ?thesis unfolding cover using lr by (auto split: if_splits)
  qed
  moreover have "by_path (entries after) p =
      (case map_of (map (\<lambda>d. (pd_path d, pd_current d)) (manifest_difference before after name)) p of
         Some current \<Rightarrow> current | None \<Rightarrow> by_path (entries before) p)" if "in_name name p" for p
    unfolding m using that lr [of p] by simp
  ultimately show ?thesis by blast
qed

text \<open>
  Each rule field is inherited on its own: the account override wins over the tool override,
  which wins over the user default, the source names the level that decided, and a skill is included
  exactly when it is enabled and nothing excludes it.
\<close>

theorem resolve_skill_rule_inherits:
  "resolve_skill_rule default_enabled default_revision tool account reason =
    (let decide = (\<lambda>field default.
           case (Option.bind account field, Option.bind tool field) of
             (Some v, _) \<Rightarrow> (v, Account_scope) | (None, Some v) \<Rightarrow> (v, Tool_scope) | (None, None) \<Rightarrow> (default, User_scope));
         decide' = (\<lambda>field default.
           case (Option.bind account field, Option.bind tool field) of
             (Some v, _) \<Rightarrow> (v, Account_scope) | (None, Some v) \<Rightarrow> (v, Tool_scope) | (None, None) \<Rightarrow> (default, User_scope));
         en = decide ro_enabled default_enabled; rv = decide' ro_revision default_revision in
     \<lparr>rr_enabled = fst en, rr_revision = fst rv, rr_enabled_source = snd en, rr_revision_source = snd rv,
      rr_eligible = (reason = None), rr_included = (fst en \<and> reason = None), rr_exclusion = reason\<rparr>)"
  by (cases account; cases tool) (auto simp: resolve_skill_rule_def Let_def split: option.split)

section \<open>Witnesses\<close>

definition c_directory :: manifest where
  "c_directory = \<lparr>version = 1, entries = [s_dir [97], s_file [97, 47, 102] 1, s_dir [122]]\<rparr>"

definition c_item :: subtree where
  "c_item = \<lparr>st_name = [97], st_prefix = [], st_tree = \<lparr>version = 1, entries = [s_file [103] 2]\<rparr>\<rparr>"

definition c_result :: manifest where
  "c_result = \<lparr>version = 1, entries = [s_dir [97], s_file [97, 47, 103] 2, s_dir [122]]\<rparr>"

lemma c_compose: "compose_directory ascii c_directory [[97]] [c_item] 100 = Inr c_result"
  by code_simp

lemma c_ok: "manifest_ok ascii c_directory"
  by code_simp

theorem compose_directory_exact_witness:
  "by_path (entries c_result) [122] = by_path (entries c_directory) [122] \<and>
   (\<exists>part. set part = {e. exposes c_item e} \<and> sum_list (map e_size part) \<le> 100 \<and> by_path (entries c_result) [97, 47, 102] = None)"
proof -
  have t: "top_component [122] = [122]" "top_component [97, 47, 102] = [97]" "st_name c_item = [97]" by code_simp+
  have n: "by_path (entries c_result) [97, 47, 102] = None" by code_simp
  note e = compose_directory_exact [OF c_compose c_ok]
  have "by_path (entries c_result) [122] = by_path (entries c_directory) [122]"
    using conjunct1 [OF e, rule_format, of "[122]"] t by simp
  moreover have "\<exists>part. set part = {e. exposes c_item e} \<and> sum_list (map e_size part) \<le> 100"
    using conjunct1 [OF conjunct2 [OF e]] by auto
  ultimately show ?thesis using n by blast
qed

definition c_bad :: subtree where
  "c_bad = \<lparr>st_name = dotdot, st_prefix = [], st_tree = \<lparr>version = 1, entries = []\<rparr>\<rparr>"

theorem compose_directory_errors_witness:
  "compose_directory ascii c_directory [] [c_bad] 100 = Inl ValidationError \<and>
   validate_relative_path ascii (st_name c_bad) \<noteq> Inr (st_name c_bad)"
proof -
  have c: "compose_directory ascii c_directory [] [c_bad] 100 = Inl ValidationError" by code_simp
  from compose_directory_errors [OF c] c show ?thesis by simp
qed

theorem manifest_difference_patches_witness:
  "by_path (entries c_result) [97, 47, 102] =
    (case map_of (map (\<lambda>d. (pd_path d, pd_current d)) (manifest_difference c_directory c_result (Some [97]))) [97, 47, 102] of
       Some current \<Rightarrow> current | None \<Rightarrow> by_path (entries c_directory) [97, 47, 102]) \<and>
   length (manifest_difference c_directory c_result (Some [97])) = 2"
proof -
  have "in_name (Some [97]) [97, 47, 102]" "length (manifest_difference c_directory c_result (Some [97])) = 2"
    by code_simp+
  with conjunct1 [OF manifest_difference_patches [of "Some [97]" c_result c_directory]] show ?thesis by blast
qed

end
