(* ===== verification/Worklist.thy ===== *)
theory Worklist
  imports Prelude
begin

text \<open>
  The worklist loop that the retention analyses share: \<open>pending\<close> is a deque, every successor that
  is not yet in \<open>seen\<close> is added to both. \<open>room seen\<close> is the test before an addition (the identity
  budget of one analysis), whose failure raises \<open>err\<close>. The fuel bounds the number of rounds; the
  callers pass the size of the whole graph, which \<open>worklist_returns\<close> shows to be enough.
\<close>

section \<open>Definitions\<close>

fun visit :: "('a list \<Rightarrow> bool) \<Rightarrow> py_error \<Rightarrow> 'a list \<Rightarrow> 'a list \<Rightarrow> 'a list \<Rightarrow> ('a list \<times> 'a list) res" where
  "visit room err seen pending [] = Inr (seen, pending)"
| "visit room err seen pending (y # ys) =
     (if y \<in> set seen then visit room err seen pending ys
      else if \<not> room seen then Inl err
      else visit room err (seen @ [y]) (pending @ [y]) ys)"

fun worklist ::
  "('a list \<Rightarrow> bool) \<Rightarrow> py_error \<Rightarrow> nat \<Rightarrow> ('a \<Rightarrow> 'a list res) \<Rightarrow> 'a list \<Rightarrow> 'a list \<Rightarrow> 'a list res"
where
  "worklist room err fuel succs seen [] = Inr seen"
| "worklist room err 0 succs seen (x # pending) = Inl Diverges"
| "worklist room err (Suc fuel) succs seen (x # pending) =
     bind_res (succs x) (\<lambda>ys.
     bind_res (visit room err seen pending ys) (\<lambda>(seen', pending').
       worklist room err fuel succs seen' pending'))"

definition no_limit :: "'a list \<Rightarrow> bool" where
  "no_limit seen \<longleftrightarrow> True"

text \<open>The edges the loop follows.\<close>

definition steps :: "('a \<Rightarrow> 'a list res) \<Rightarrow> ('a \<times> 'a) set" where
  "steps succs = {(x, y). \<exists>ys. succs x = Inr ys \<and> y \<in> set ys}"

definition expanded :: "('a \<Rightarrow> 'a list res) \<Rightarrow> 'a set \<Rightarrow> 'a \<Rightarrow> bool" where
  "expanded succs S x \<longleftrightarrow> (\<exists>ys. succs x = Inr ys \<and> set ys \<subseteq> S)"

section \<open>One visit\<close>

lemma visit_ok:
  assumes "visit room err seen pending ys = Inr (seen', pending')"
  shows "\<exists>new. seen' = seen @ new \<and> pending' = pending @ new \<and> set new \<subseteq> set ys \<and>
    set seen' = set seen \<union> set ys \<and> distinct new \<and> set new \<inter> set seen = {}"
  using assms
proof (induction ys arbitrary: seen pending)
  case (Cons y ys)
  show ?case
  proof (cases "y \<in> set seen")
    case True
    with Cons.prems have "visit room err seen pending ys = Inr (seen', pending')" by simp
    from Cons.IH [OF this] True show ?thesis by auto
  next
    case False
    with Cons.prems have "visit room err (seen @ [y]) (pending @ [y]) ys = Inr (seen', pending')"
      by (simp split: if_splits)
    from Cons.IH [OF this] obtain new where "seen' = (seen @ [y]) @ new" "pending' = (pending @ [y]) @ new"
      "set new \<subseteq> set ys" "set seen' = set (seen @ [y]) \<union> set ys" "distinct new" "set new \<inter> set (seen @ [y]) = {}"
      by blast
    with False show ?thesis by (intro exI [of _ "y # new"]) auto
  qed
qed simp

lemma visit_fails:
  assumes "visit room err seen pending ys = Inl e" "distinct seen"
  shows "e = err \<and> (\<exists>s. \<not> room s \<and> distinct s \<and> set s \<subset> set seen \<union> set ys)"
  using assms
proof (induction ys arbitrary: seen pending)
  case (Cons y ys)
  consider (seen) "y \<in> set seen" | (full) "y \<notin> set seen" "\<not> room seen" | (new) "y \<notin> set seen" "room seen" by blast
  then show ?case
  proof cases
    case seen
    with Cons.prems have "visit room err seen pending ys = Inl e" by simp
    from Cons.IH [OF this Cons.prems(2)] seen show ?thesis by auto
  next
    case full
    with Cons.prems show ?thesis by (intro conjI exI [of _ seen]) auto
  next
    case new
    with Cons.prems have "visit room err (seen @ [y]) (pending @ [y]) ys = Inl e" by simp
    from Cons.IH [OF this] new Cons.prems(2) show ?thesis by auto
  qed
qed simp

section \<open>What the loop returns\<close>

text \<open>
  \<open>dead\<close> are nodes that are seen from the start but never expanded.
\<close>

lemma worklist_ok:
  assumes "worklist room err fuel succs seen pending = Inr res" "set pending \<subseteq> set seen"
    and "\<And>x. x \<in> set seen - set pending - dead \<Longrightarrow> expanded succs (set seen) x"
  shows "set seen \<subseteq> set res \<and> (\<forall>x \<in> set res - dead. expanded succs (set res) x) \<and>
    set res \<subseteq> set seen \<union> (steps succs)\<^sup>* `` set pending \<and> (distinct seen \<longrightarrow> distinct res)"
  using assms
proof (induction fuel arbitrary: seen pending)
  case 0
  then show ?case by (cases pending) auto
next
  case (Suc fuel)
  show ?case
  proof (cases pending)
    case Nil
    with Suc.prems show ?thesis by auto
  next
    case (Cons x rest)
    with Suc.prems(1) obtain ys seen' pending' where ys: "succs x = Inr ys"
      and v: "visit room err seen rest ys = Inr (seen', pending')"
      and w: "worklist room err fuel succs seen' pending' = Inr res" by auto
    from visit_ok [OF v] obtain new where new: "seen' = seen @ new" "pending' = rest @ new"
      "set new \<subseteq> set ys" "set seen' = set seen \<union> set ys" "distinct new" "set new \<inter> set seen = {}" by blast
    have ex: "expanded succs (set seen') z" if "z \<in> set seen' - set pending' - dead" for z
    proof (cases "z = x")
      case True
      then show ?thesis using ys new(4) by (auto simp: expanded_def)
    next
      case False
      with that new Cons have "z \<in> set seen - set pending - dead" by auto
      from Suc.prems(3) [OF this] new(4) show ?thesis by (fastforce simp: expanded_def)
    qed
    have sub: "set pending' \<subseteq> set seen'" using new Cons Suc.prems(2) by auto
    have IH: "set seen' \<subseteq> set res \<and> (\<forall>x \<in> set res - dead. expanded succs (set res) x) \<and>
      set res \<subseteq> set seen' \<union> (steps succs)\<^sup>* `` set pending' \<and> (distinct seen' \<longrightarrow> distinct res)"
      by (rule Suc.IH [OF w sub]) (rule ex)
    have step: "(x, y) \<in> steps succs" if "y \<in> set new" for y
      using that ys new(3) by (auto simp: steps_def)
    have "(steps succs)\<^sup>* `` set pending' \<subseteq> (steps succs)\<^sup>* `` set pending"
      using new(2) Cons step by (auto intro: converse_rtrancl_into_rtrancl)
    moreover have "set new \<subseteq> (steps succs)\<^sup>* `` set pending" using step Cons by auto
    ultimately have "set res \<subseteq> set seen \<union> (steps succs)\<^sup>* `` set pending"
      using IH unfolding new(1) set_append by blast
    moreover have "distinct seen \<longrightarrow> distinct seen'" using new(1,5,6) by auto
    ultimately show ?thesis using IH unfolding new(1) set_append by blast
  qed
qed

text \<open>The result as a set: everything seen, and all that is reachable from the pending nodes.\<close>

lemma worklist_set:
  assumes w: "worklist room err fuel succs seen pending = Inr res" and p: "set pending \<subseteq> set seen"
    and dead: "(steps succs)\<^sup>* `` set pending \<inter> (set seen - set pending) = {}"
  shows "set res = set seen \<union> (steps succs)\<^sup>* `` set pending"
    and "x \<in> (steps succs)\<^sup>* `` set pending \<Longrightarrow> \<exists>ys. succs x = Inr ys"
    and "distinct seen \<Longrightarrow> distinct res"
proof -
  let ?D = "set seen - set pending"
  note ok = worklist_ok [OF w p, of ?D]
  have closed: "\<forall>x \<in> set res - ?D. expanded succs (set res) x" and sub: "set seen \<subseteq> set res"
    and sound: "set res \<subseteq> set seen \<union> (steps succs)\<^sup>* `` set pending"
    using ok by auto
  have reach: "y \<in> set res - ?D" if xy: "(x, y) \<in> (steps succs)\<^sup>*" and x: "x \<in> set pending" for x y
    using xy
  proof (induction rule: rtrancl_induct)
    case base
    then show ?case using x p sub by auto
  next
    case (step y z)
    then have "expanded succs (set res) y" using closed by blast
    then have "z \<in> set res" using step.hyps(2) by (auto simp: expanded_def steps_def)
    moreover have "z \<in> (steps succs)\<^sup>* `` set pending" using step.hyps x by (auto intro: rtrancl_into_rtrancl)
    ultimately show ?case using dead by auto
  qed
  then show "set res = set seen \<union> (steps succs)\<^sup>* `` set pending" using sub sound by auto
  show "\<exists>ys. succs x = Inr ys" if "x \<in> (steps succs)\<^sup>* `` set pending"
    using that reach closed by (auto simp: expanded_def)
  show "distinct seen \<Longrightarrow> distinct res" using ok by auto
qed

section \<open>The fuel is enough\<close>

lemma worklist_returns:
  assumes "finite U" "set seen \<subseteq> U" "set pending \<subseteq> U" "distinct seen"
    and succs: "\<And>x. x \<in> U \<Longrightarrow> \<exists>ys. succs x = Inr ys \<and> set ys \<subseteq> U"
    and fuel: "length pending + card (U - set seen) \<le> fuel"
    and fail: "worklist room err fuel succs seen pending = Inl e"
  shows "e = err \<and> (\<exists>s. \<not> room s \<and> distinct s \<and> set s \<subset> U)"
  using assms(2-4,6,7)
proof (induction fuel arbitrary: seen pending)
  case 0
  then show ?case by (cases pending) auto
next
  case (Suc fuel)
  show ?case
  proof (cases pending)
    case Nil
    with Suc.prems show ?thesis by simp
  next
    case (Cons x rest)
    then have "x \<in> U" using Suc.prems(2) by simp
    from succs [OF this] obtain ys where ys: "succs x = Inr ys" "set ys \<subseteq> U" by blast
    show ?thesis
    proof (cases "visit room err seen rest ys")
      case (Inl e')
      with Cons ys Suc.prems(5) have "e' = e" by simp
      with visit_fails [OF Inl Suc.prems(3)] ys(2) Suc.prems(1) show ?thesis by (meson Un_least psubset_subset_trans)
    next
      case (Inr p)
      obtain seen' pending' where p: "p = (seen', pending')" by (cases p)
      from visit_ok [OF Inr [unfolded p]] obtain new where new: "seen' = seen @ new" "pending' = rest @ new"
        "set new \<subseteq> set ys" "distinct new" "set new \<inter> set seen = {}" by blast
      have sub: "set new \<subseteq> U - set seen" using new ys(2) by auto
      have "card (U - set seen') + length new = card (U - set seen)"
      proof -
        have "U - set seen' = (U - set seen) - set new" using new(1) by auto
        then have "card (U - set seen') = card (U - set seen) - card (set new)"
          using sub assms(1) by (simp add: card_Diff_subset finite_subset)
        moreover have "card (set new) \<le> card (U - set seen)" using sub assms(1) by (intro card_mono) auto
        ultimately show ?thesis using new(4) by (simp add: distinct_card)
      qed
      moreover have "worklist room err fuel succs seen' pending' = Inl e"
        using Suc.prems(5) Cons ys Inr p by simp
      moreover have "set seen' \<subseteq> U" "set pending' \<subseteq> U" "distinct seen'" "length pending' = length rest + length new"
        using new sub Suc.prems(1-3) Cons by auto
      moreover have "length rest + 1 + card (U - set seen) \<le> Suc fuel" using Suc.prems(4) Cons by simp
      ultimately show ?thesis by (intro Suc.IH) auto
    qed
  qed
qed

text \<open>Without a limit the loop always returns.\<close>

lemma worklist_total:
  assumes "finite U" "set seen \<subseteq> U" "set pending \<subseteq> U" "distinct seen"
    and "\<And>x. x \<in> U \<Longrightarrow> \<exists>ys. succs x = Inr ys \<and> set ys \<subseteq> U"
    and "length pending + card (U - set seen) \<le> fuel"
  shows "\<exists>res. worklist no_limit err fuel succs seen pending = Inr res"
proof (cases "worklist no_limit err fuel succs seen pending")
  case (Inl e)
  from worklist_returns [OF assms Inl] show ?thesis by (simp add: no_limit_def)
qed simp

end
