(* ===== verification/Retention.thy ===== *)
theory Retention
  imports Worklist
begin

text \<open>
  The retention graph of one user (\<open>skill_manager/retention/graph.py\<close>): bounded registration of
  nodes, roots and edges, and the closure that carries every protection reason along the edges.
  Python mutates the graph before it raises, so an operation returns the new graph beside its result.
  A set of reasons or targets is a list without repetition; the dict of sets that \<open>protect\<close> fills is
  the list of its (key, reason) pairs.
\<close>

section \<open>Identities\<close>

datatype retention_kind =
    K_operation | K_directory_context | K_branch | K_checkpoint | K_revision | K_local_revision
  | K_snapshot | K_finalization | K_publication | K_migration | K_migration_baseline | K_takeover
  | K_upload | K_package_tree | K_state_tree | K_package_object | K_state_object | K_blob

datatype protection_reason =
    Pending_operation | Library_default | Pin | Current_branch | Local_original | Active_snapshot
  | Pending_finalization | Publication_conflict | Migration_conflict | Pending_takeover
  | Upload_lease | Current_directory

fun kind_name :: "retention_kind \<Rightarrow> pystr" where
  "kind_name K_operation = lit ''operation''"
| "kind_name K_directory_context = lit ''directory_context''"
| "kind_name K_branch = lit ''branch''"
| "kind_name K_checkpoint = lit ''checkpoint''"
| "kind_name K_revision = lit ''revision''"
| "kind_name K_local_revision = lit ''local_revision''"
| "kind_name K_snapshot = lit ''snapshot''"
| "kind_name K_finalization = lit ''finalization''"
| "kind_name K_publication = lit ''publication''"
| "kind_name K_migration = lit ''migration''"
| "kind_name K_migration_baseline = lit ''migration_baseline''"
| "kind_name K_takeover = lit ''takeover''"
| "kind_name K_upload = lit ''upload''"
| "kind_name K_package_tree = lit ''package_tree''"
| "kind_name K_state_tree = lit ''state_tree''"
| "kind_name K_package_object = lit ''package_object''"
| "kind_name K_state_object = lit ''state_object''"
| "kind_name K_blob = lit ''blob''"

datatype retention_key = RetentionKey (rk_kind: retention_kind) (rk_identity: pystr)

text \<open>The keys compare as the tuples (kind, identity), which \<open>order=True\<close> generates.\<close>

lemma kind_name_inject: "kind_name a = kind_name b \<longleftrightarrow> a = b"
  by (cases a; cases b) (simp_all add: lit_def)

instantiation retention_key :: linorder
begin

definition less_eq_retention_key :: "retention_key \<Rightarrow> retention_key \<Rightarrow> bool" where
  "less_eq_retention_key a b \<longleftrightarrow>
     (kind_name (rk_kind a), rk_identity a) \<le> (kind_name (rk_kind b), rk_identity b)"

definition less_retention_key :: "retention_key \<Rightarrow> retention_key \<Rightarrow> bool" where
  "less_retention_key a b \<longleftrightarrow>
     (kind_name (rk_kind a), rk_identity a) < (kind_name (rk_kind b), rk_identity b)"

instance
proof
  fix a b c :: retention_key
  show "a < b \<longleftrightarrow> a \<le> b \<and> \<not> b \<le> a" "a \<le> a" "a \<le> b \<or> b \<le> a"
    by (auto simp: less_eq_retention_key_def less_retention_key_def)
  show "a \<le> b \<Longrightarrow> b \<le> c \<Longrightarrow> a \<le> c"
    unfolding less_eq_retention_key_def by (rule order_trans)
  assume "a \<le> b" "b \<le> a"
  then have "(kind_name (rk_kind a), rk_identity a) = (kind_name (rk_kind b), rk_identity b)"
    unfolding less_eq_retention_key_def by (rule order_antisym)
  then show "a = b" by (simp add: kind_name_inject retention_key.expand)
qed

end

section \<open>The graph\<close>

record graph =
  max_nodes :: nat
  max_edges :: nat
  g_edges :: "(retention_key \<times> retention_key list) list"
  g_roots :: "(retention_key \<times> protection_reason list) list"
  edge_count :: nat
  g_failed :: bool

definition new_graph :: "nat \<Rightarrow> nat \<Rightarrow> graph" where
  "new_graph mn me = \<lparr>max_nodes = mn, max_edges = me, g_edges = [], g_roots = [], edge_count = 0, g_failed = False\<rparr>"

definition graph_node :: "graph \<Rightarrow> retention_kind \<Rightarrow> pystr \<Rightarrow> graph \<times> retention_key res" where
  "graph_node g kind identity =
     (let key = RetentionKey kind identity in
      if identity = [] then (g\<lparr>g_failed := True\<rparr>, Inl (ValueError ''empty retention identity''))
      else if key \<in> fst ` set (g_edges g) then (g, Inr key)
      else if length (g_edges g) \<ge> max_nodes g
      then (g\<lparr>g_failed := True\<rparr>, Inl (ValueError ''retention graph node limit exceeded''))
      else (g\<lparr>g_edges := g_edges g @ [(key, [])]\<rparr>, Inr key))"

text \<open>\<open>d.setdefault(k, set()).add(v)\<close>\<close>

definition dict_values :: "('k \<times> 'v list) list \<Rightarrow> 'k \<Rightarrow> 'v list" where
  "dict_values al k = (case map_of al k of None \<Rightarrow> [] | Some vs \<Rightarrow> vs)"

definition dict_add :: "'k \<Rightarrow> 'v \<Rightarrow> ('k \<times> 'v list) list \<Rightarrow> ('k \<times> 'v list) list" where
  "dict_add k v al =
     (let vs = dict_values al k in AList.update k (if v \<in> set vs then vs else vs @ [v]) al)"

definition graph_root :: "graph \<Rightarrow> retention_kind \<Rightarrow> pystr \<Rightarrow> protection_reason \<Rightarrow> graph \<times> unit res" where
  "graph_root g kind identity reason =
     (case graph_node g kind identity of
        (g', Inl e) \<Rightarrow> (g', Inl e)
      | (g', Inr key) \<Rightarrow> (g'\<lparr>g_roots := dict_add key reason (g_roots g')\<rparr>, Inr ()))"

definition graph_edge ::
  "graph \<Rightarrow> retention_kind \<Rightarrow> pystr \<Rightarrow> retention_kind \<Rightarrow> pystr option \<Rightarrow> graph \<times> unit res"
where
  "graph_edge g source_kind source target_kind target_opt =
     (case target_opt of None \<Rightarrow> (g, Inr ())
      | Some target \<Rightarrow>
          (case graph_node g source_kind source of
             (g1, Inl e) \<Rightarrow> (g1, Inl e)
           | (g1, Inr origin) \<Rightarrow>
               (case graph_node g1 target_kind target of
                  (g2, Inl e) \<Rightarrow> (g2, Inl e)
                | (g2, Inr destination) \<Rightarrow>
                    if destination \<in> set (dict_values (g_edges g2) origin) then (g2, Inr ())
                    else if edge_count g2 \<ge> max_edges g2
                    then (g2\<lparr>g_failed := True\<rparr>, Inl (ValueError ''retention graph edge limit exceeded''))
                    else (g2\<lparr>g_edges := dict_add origin destination (g_edges g2), edge_count := edge_count g2 + 1\<rparr>,
                          Inr ()))))"

section \<open>The closure\<close>

record directory_reference =
  dr_account :: nat
  dr_directory_checkpoint :: nat
  dr_entry_name :: pystr
  dr_state :: nat
  dr_checkpoint :: nat

record protection =
  p_roots :: "(retention_key \<times> protection_reason list) list"
  p_protected :: "(retention_key \<times> protection_reason) list"
  p_members :: "directory_reference list"

definition root_pairs :: "graph \<Rightarrow> (retention_key \<times> protection_reason) list" where
  "root_pairs g = concat (map (\<lambda>(k, rs). map (Pair k) rs) (g_roots g))"

definition pair_targets :: "graph \<Rightarrow> retention_key \<times> protection_reason \<Rightarrow> ((retention_key \<times> protection_reason) list) res" where
  "pair_targets g kr =
     (case map_of (g_edges g) (fst kr) of
        None \<Rightarrow> Inl KeyError
      | Some ts \<Rightarrow> Inr (map (\<lambda>t. (t, snd kr)) ts))"

definition protect :: "graph \<Rightarrow> directory_reference list \<Rightarrow> protection res" where
  "protect g members =
     (if g_failed g then Inl (ValueError ''retention graph is incomplete'')
      else bind_res (worklist no_limit Diverges (length (root_pairs g) + 12 * length (g_edges g))
                       (pair_targets g) (root_pairs g) (root_pairs g)) (\<lambda>reached.
        Inr \<lparr>p_roots = g_roots g, p_protected = reached, p_members = members\<rparr>))"

definition protection_reasons :: "protection \<Rightarrow> retention_kind \<Rightarrow> pystr \<Rightarrow> protection_reason list" where
  "protection_reasons p kind identity =
     map snd (filter (\<lambda>kr. fst kr = RetentionKey kind identity) (p_protected p))"

section \<open>Sequences of operations\<close>

datatype graph_op =
    Root_op retention_kind pystr protection_reason
  | Edge_op retention_kind pystr retention_kind "pystr option"

fun graph_step :: "graph \<Rightarrow> graph_op \<Rightarrow> graph \<times> unit res" where
  "graph_step g (Root_op k i r) = graph_root g k i r"
| "graph_step g (Edge_op sk s tk t) = graph_edge g sk s tk t"

fun run_ops :: "graph \<Rightarrow> graph_op list \<Rightarrow> graph \<times> unit res list" where
  "run_ops g [] = (g, [])"
| "run_ops g (op # ops) =
     (let (g', r) = graph_step g op; (g'', rs) = run_ops g' ops in (g'', r # rs))"

definition op_roots :: "graph_op list \<Rightarrow> (retention_key \<times> protection_reason) set" where
  "op_roots ops = {(RetentionKey k i, r) | k i r. Root_op k i r \<in> set ops}"

definition op_edges :: "graph_op list \<Rightarrow> (retention_key \<times> retention_key) set" where
  "op_edges ops = {(RetentionKey sk s, RetentionKey tk t) | sk s tk t. Edge_op sk s tk (Some t) \<in> set ops}"

section \<open>The invariant of the graph\<close>

definition edge_pairs :: "graph \<Rightarrow> (retention_key \<times> retention_key) set" where
  "edge_pairs g = {(s, t). t \<in> set (dict_values (g_edges g) s)}"

definition graph_ok :: "graph \<Rightarrow> bool" where
  "graph_ok g \<longleftrightarrow>
     distinct (map fst (g_edges g)) \<and> distinct (map fst (g_roots g)) \<and>
     list_all (\<lambda>(_, ts). distinct ts \<and> set ts \<subseteq> fst ` set (g_edges g)) (g_edges g) \<and>
     list_all (\<lambda>(k, rs). distinct rs \<and> k \<in> fst ` set (g_edges g)) (g_roots g) \<and>
     edge_count g = sum_list (map (\<lambda>(_, ts). length ts) (g_edges g)) \<and>
     length (g_edges g) \<le> max_nodes g \<and> edge_count g \<le> max_edges g"

lemma dict_values_add: "dict_values (dict_add k v al) j =
    (if j = k then (if v \<in> set (dict_values al k) then dict_values al k else dict_values al k @ [v]) else dict_values al j)"
  by (auto simp: dict_values_def dict_add_def Let_def map_of_update split: option.splits)

lemma dict_values_iff:
  "distinct (map fst al) \<Longrightarrow> v \<in> set (dict_values al k) \<longleftrightarrow> (\<exists>vs. (k, vs) \<in> set al \<and> v \<in> set vs)"
  by (auto simp: dict_values_def dest: map_of_SomeD split: option.splits)

lemma dict_add_keys: "fst ` set (dict_add k v al) = insert k (fst ` set al)"
  by (simp add: dict_add_def Let_def dom_update)

lemma dict_add_distinct: "distinct (map fst al) \<Longrightarrow> distinct (map fst (dict_add k v al))"
  by (simp add: dict_add_def Let_def distinct_update)

lemma length_dict_add: "k \<in> fst ` set al \<Longrightarrow> length (dict_add k v al) = length al"
proof -
  have "length (AList.update k vs al) = length al" if "k \<in> fst ` set al" for vs
    using that by (induction al) auto
  then show "k \<in> fst ` set al \<Longrightarrow> length (dict_add k v al) = length al" by (simp add: dict_add_def Let_def)
qed

lemma set_update_subset: "set (AList.update k v al) \<subseteq> insert (k, v) (set al)"
  by (induction al) auto

lemma dict_add_all:
  assumes al: "\<forall>(j, vs) \<in> set al. P j vs" and one: "P k [v]"
    and more: "\<And>vs. P k vs \<Longrightarrow> v \<notin> set vs \<Longrightarrow> P k (vs @ [v])"
  shows "\<forall>(j, vs) \<in> set (dict_add k v al). P j vs"
proof -
  let ?w = "if v \<in> set (dict_values al k) then dict_values al k else dict_values al k @ [v]"
  have "P k ?w"
  proof (cases "map_of al k")
    case None
    then show ?thesis using one by (simp add: dict_values_def)
  next
    case (Some vs)
    then have "P k vs" using al by (auto dest!: map_of_SomeD)
    then show ?thesis using Some more by (simp add: dict_values_def)
  qed
  moreover have "set (dict_add k v al) \<subseteq> insert (k, ?w) (set al)"
    unfolding dict_add_def Let_def by (rule set_update_subset)
  ultimately show ?thesis using al by blast
qed

lemma sum_length_update:
  assumes "distinct (map fst al)" "(k, vs) \<in> set al"
  shows "sum_list (map (\<lambda>(_, ts). length ts) (AList.update k ws al)) + length vs =
    sum_list (map (\<lambda>(_, ts). length ts) al) + length ws"
  using assms by (induction al) (auto simp: image_iff split: if_splits)

lemma sum_length_add:
  assumes "distinct (map fst al)" "k \<in> fst ` set al" "v \<notin> set (dict_values al k)"
  shows "sum_list (map (\<lambda>(_, ts). length ts) (dict_add k v al)) = Suc (sum_list (map (\<lambda>(_, ts). length ts) al))"
proof -
  have "map_of al k \<noteq> None" using assms(2) by (simp add: map_of_eq_None_iff)
  then obtain vs where m: "map_of al k = Some vs" by auto
  then have "(k, vs) \<in> set al" "dict_values al k = vs" by (auto simp: dict_values_def dest: map_of_SomeD)
  with sum_length_update [OF assms(1) this(1), of "vs @ [v]"] assms(3) show ?thesis
    by (simp add: dict_add_def Let_def)
qed

lemma graph_node_ok:
  assumes "graph_ok g" "graph_node g k i = (g', r)"
  shows "graph_ok g' \<and> edge_pairs g' = edge_pairs g \<and> g_roots g' = g_roots g \<and>
    fst ` set (g_edges g) \<subseteq> fst ` set (g_edges g') \<and>
    (case r of Inl _ \<Rightarrow> g_failed g'
     | Inr key \<Rightarrow> key = RetentionKey k i \<and> key \<in> fst ` set (g_edges g') \<and> g_failed g' = g_failed g)"
proof -
  let ?key = "RetentionKey k i"
  consider (bad) "r \<noteq> Inr ?key" "g' = g\<lparr>g_failed := True\<rparr>" "\<exists>e. r = Inl e"
    | (old) "?key \<in> fst ` set (g_edges g)" "g' = g" "r = Inr ?key"
    | (new) "?key \<notin> fst ` set (g_edges g)" "length (g_edges g) < max_nodes g"
      "g' = g\<lparr>g_edges := g_edges g @ [(?key, [])]\<rparr>" "r = Inr ?key"
    using assms(2) by (auto simp: graph_node_def Let_def split: if_splits)
  then show ?thesis
  proof cases
    case bad
    then show ?thesis using assms(1) by (auto simp: graph_ok_def edge_pairs_def)
  next
    case old
    then show ?thesis using assms(1) by simp
  next
    case new
    have "dict_values (g_edges g @ [(?key, [])]) s = dict_values (g_edges g) s" for s
      by (auto simp: dict_values_def map_add_def split: option.split)
    then have "edge_pairs g' = edge_pairs g" using new by (simp add: edge_pairs_def)
    moreover have "graph_ok g'" using new assms(1) by (fastforce simp: graph_ok_def list_all_iff)
    ultimately show ?thesis using new by auto
  qed
qed

lemma graph_root_ok:
  assumes "graph_ok g" "graph_root g k i reason = (g', r)"
  shows "graph_ok g' \<and> edge_pairs g' = edge_pairs g \<and>
    (case r of Inl _ \<Rightarrow> g_failed g'
     | Inr _ \<Rightarrow> g_failed g' = g_failed g \<and> set (root_pairs g') = insert (RetentionKey k i, reason) (set (root_pairs g)))"
proof -
  obtain g1 r1 where n: "graph_node g k i = (g1, r1)" by (cases "graph_node g k i")
  note ok = graph_node_ok [OF assms(1) n]
  show ?thesis
  proof (cases r1)
    case (Inl e)
    with n assms(2) ok show ?thesis by (auto simp: graph_root_def)
  next
    case (Inr key)
    with n assms(2) have g': "g' = g1\<lparr>g_roots := dict_add key reason (g_roots g1)\<rparr>" "r = Inr ()"
      by (auto simp: graph_root_def)
    have key: "key = RetentionKey k i" "key \<in> fst ` set (g_edges g1)" "graph_ok g1" "g_roots g1 = g_roots g"
      using ok Inr by auto
    have d: "distinct (map fst (g_roots g1))" using key(3) by (simp add: graph_ok_def)
    have "\<forall>(k, rs) \<in> set (g_roots g1). distinct rs \<and> k \<in> fst ` set (g_edges g1)"
      using key(3) by (simp add: graph_ok_def list_all_iff)
    then have "\<forall>(k, rs) \<in> set (dict_add key reason (g_roots g1)). distinct rs \<and> k \<in> fst ` set (g_edges g1)"
      by (rule dict_add_all) (use key(2) in simp_all)
    then have "graph_ok g'"
      using key(3) d unfolding g' by (simp add: graph_ok_def dict_add_distinct list_all_iff)
    moreover have "set (root_pairs g') = insert (key, reason) (set (root_pairs g))"
    proof -
      have p: "set (root_pairs h) = {(s, t). t \<in> set (dict_values (g_roots h) s)}" if "distinct (map fst (g_roots h))" for h
        by (auto simp: root_pairs_def dict_values_iff [OF that])
      have roots: "g_roots g' = dict_add key reason (g_roots g)" by (simp add: g' key(4))
      have "distinct (map fst (g_roots g))" using d key(4) by simp
      then have e: "set (root_pairs g) = {(s, t). t \<in> set (dict_values (g_roots g) s)}"
        "set (root_pairs g') = {(s, t). t \<in> set (dict_values (dict_add key reason (g_roots g)) s)}"
        using p [of g] p [of g'] roots by (simp_all only: dict_add_distinct)
      have "t \<in> set (dict_values (dict_add key reason (g_roots g)) s) \<longleftrightarrow>
          (s, t) = (key, reason) \<or> t \<in> set (dict_values (g_roots g) s)" for s t
        unfolding dict_values_add by auto
      then show ?thesis unfolding e by auto
    qed
    ultimately show ?thesis using ok Inr key(1) by (simp add: g' edge_pairs_def)
  qed
qed

lemma graph_edge_ok:
  assumes "graph_ok g" "graph_edge g sk s tk t = (g', r)"
  shows "graph_ok g' \<and> g_roots g' = g_roots g \<and>
    (case r of Inl _ \<Rightarrow> g_failed g'
     | Inr _ \<Rightarrow> g_failed g' = g_failed g \<and>
         edge_pairs g' = edge_pairs g \<union> (case t of None \<Rightarrow> {} | Some t' \<Rightarrow> {(RetentionKey sk s, RetentionKey tk t')}))"
proof (cases t)
  case None
  with assms show ?thesis by (auto simp: graph_edge_def)
next
  case (Some t')
  obtain g1 r1 where n1: "graph_node g sk s = (g1, r1)" by (cases "graph_node g sk s")
  note ok1 = graph_node_ok [OF assms(1) n1]
  show ?thesis
  proof (cases r1)
    case (Inl e)
    with n1 Some assms(2) ok1 show ?thesis by (auto simp: graph_edge_def)
  next
    case (Inr a)
    obtain g2 r2 where n2: "graph_node g1 tk t' = (g2, r2)" by (cases "graph_node g1 tk t'")
    have ok_g1: "graph_ok g1" using ok1 by simp
    note ok2 = graph_node_ok [OF ok_g1 n2]
    show ?thesis
    proof (cases r2)
      case (Inl e)
      with n1 n2 Inr Some assms(2) ok1 ok2 show ?thesis by (auto simp: graph_edge_def)
    next
      case r2: (Inr b)
      have a: "a = RetentionKey sk s" "a \<in> fst ` set (g_edges g2)" using ok1 ok2 Inr by auto
      have b: "b = RetentionKey tk t'" "b \<in> fst ` set (g_edges g2)" using ok2 r2 by auto
      have g2: "graph_ok g2" "edge_pairs g2 = edge_pairs g" "g_roots g2 = g_roots g" "g_failed g2 = g_failed g"
        using ok1 ok2 Inr r2 by auto
      consider (old) "b \<in> set (dict_values (g_edges g2) a)" "g' = g2" "r = Inr ()"
        | (full) "g' = g2\<lparr>g_failed := True\<rparr>" "\<exists>e. r = Inl e"
        | (new) "b \<notin> set (dict_values (g_edges g2) a)" "edge_count g2 < max_edges g2" "r = Inr ()"
          "g' = g2\<lparr>g_edges := dict_add a b (g_edges g2), edge_count := edge_count g2 + 1\<rparr>"
        using assms(2) n1 n2 Inr r2 Some by (auto simp: graph_edge_def split: if_splits)
      then show ?thesis
      proof cases
        case old
        then have "(a, b) \<in> edge_pairs g" using g2(2) by (auto simp: edge_pairs_def)
        with old g2 Some a b show ?thesis by auto
      next
        case full
        then show ?thesis using g2 by (auto simp: graph_ok_def)
      next
        case new
        have d: "distinct (map fst (g_edges g2))" using g2(1) by (simp add: graph_ok_def)
        have keys: "fst ` set (g_edges g') = fst ` set (g_edges g2)"
          using new a by (auto simp: dict_add_keys)
        have "\<forall>(k, ts) \<in> set (g_edges g2). distinct ts \<and> set ts \<subseteq> fst ` set (g_edges g2)"
          using g2(1) by (simp add: graph_ok_def list_all_iff)
        then have "\<forall>(k, ts) \<in> set (dict_add a b (g_edges g2)). distinct ts \<and> set ts \<subseteq> fst ` set (g_edges g2)"
          by (rule dict_add_all) (use b(2) in simp_all)
        moreover have "length (dict_add a b (g_edges g2)) = length (g_edges g2)"
          using a(2) by (rule length_dict_add)
        ultimately have "graph_ok g'"
          using g2(1) sum_length_add [OF d a(2) new(1)] dict_add_distinct [OF d, of a b] new(2)
            dict_add_keys [of a b "g_edges g2"] insert_absorb [OF a(2)]
          unfolding graph_ok_def new(4) list_all_iff by simp
        moreover have "edge_pairs g' = insert (a, b) (edge_pairs g2)"
          using new(4) by (auto simp: edge_pairs_def dict_values_add split: if_splits)
        ultimately show ?thesis using new g2 a b Some by auto
      qed
    qed
  qed
qed

lemma graph_step_ok:
  assumes "graph_ok g" "graph_step g op = (g', r)"
  shows "graph_ok g' \<and> (case r of Inl _ \<Rightarrow> g_failed g'
     | Inr _ \<Rightarrow> g_failed g' = g_failed g \<and> set (root_pairs g') = set (root_pairs g) \<union> op_roots [op] \<and>
         edge_pairs g' = edge_pairs g \<union> op_edges [op])"
proof (cases op)
  case (Root_op k i reason)
  then have "graph_root g k i reason = (g', r)" using assms(2) by simp
  from graph_root_ok [OF assms(1) this] show ?thesis
    by (auto simp: Root_op op_roots_def op_edges_def split: sum.splits)
next
  case (Edge_op sk s tk t)
  then have "graph_edge g sk s tk t = (g', r)" using assms(2) by simp
  from graph_edge_ok [OF assms(1) this] show ?thesis
    by (auto simp: Edge_op op_roots_def op_edges_def root_pairs_def split: sum.splits option.splits)
qed

lemma graph_step_failed: "graph_step g op = (g', r) \<Longrightarrow> g_failed g \<Longrightarrow> g_failed g'"
proof -
  have n: "graph_node g k i = (g', r) \<Longrightarrow> g_failed g \<Longrightarrow> g_failed g'" for g k i g' r
    by (auto simp: graph_node_def Let_def split: if_splits)
  show "graph_step g op = (g', r) \<Longrightarrow> g_failed g \<Longrightarrow> g_failed g'"
    by (cases op) (auto simp: graph_root_def graph_edge_def split: prod.splits sum.splits option.splits if_splits dest: n)
qed

lemma run_ops_ok:
  assumes "graph_ok g" "run_ops g ops = (g', rs)"
  shows "graph_ok g' \<and> (g_failed g' \<longleftrightarrow> g_failed g \<or> list_ex isl rs) \<and>
    (\<not> list_ex isl rs \<longrightarrow> set (root_pairs g') = set (root_pairs g) \<union> op_roots ops \<and>
       edge_pairs g' = edge_pairs g \<union> op_edges ops)"
  using assms
proof (induction ops arbitrary: g rs)
  case Nil
  then show ?case by (simp add: op_roots_def op_edges_def)
next
  case (Cons op ops)
  obtain g1 r where st: "graph_step g op = (g1, r)" by (cases "graph_step g op")
  obtain rs' where rest: "run_ops g1 ops = (g', rs')" and rs: "rs = r # rs'"
    using Cons.prems(2) st by (auto split: prod.splits)
  note ok = graph_step_ok [OF Cons.prems(1) st]
  have "graph_ok g1" using ok by simp
  note IH = Cons.IH [OF this rest]
  have u: "op_roots (op # ops) = op_roots [op] \<union> op_roots ops" "op_edges (op # ops) = op_edges [op] \<union> op_edges ops"
    by (auto simp: op_roots_def op_edges_def)
  show ?case
    using ok IH u graph_step_failed [OF st] by (cases r) (auto simp: rs Un_assoc)
qed

lemma new_graph_ok: "graph_ok (new_graph mn me)"
  by (simp add: graph_ok_def new_graph_def)

section \<open>The protection closure\<close>

lemma UNIV_reasons: "(UNIV :: protection_reason set) =
  {Pending_operation, Library_default, Pin, Current_branch, Local_original, Active_snapshot,
   Pending_finalization, Publication_conflict, Migration_conflict, Pending_takeover, Upload_lease, Current_directory}"
  by (auto intro: protection_reason.exhaust)

lemma finite_reasons: "finite (UNIV :: protection_reason set)"
  by (simp add: UNIV_reasons)

lemma card_reasons: "card (UNIV :: protection_reason set) = 12"
  by (simp add: UNIV_reasons)

lemma steps_pair_targets:
  "((k, r), (t, r')) \<in> steps (pair_targets g) \<longleftrightarrow> r' = r \<and> (k, t) \<in> edge_pairs g"
  by (auto simp: steps_def pair_targets_def edge_pairs_def dict_values_def split: option.splits)

lemma reach_pair_targets:
  "((k, r), (t, r')) \<in> (steps (pair_targets g))\<^sup>* \<longleftrightarrow> r' = r \<and> (k, t) \<in> (edge_pairs g)\<^sup>*"
proof
  assume "((k, r), (t, r')) \<in> (steps (pair_targets g))\<^sup>*"
  then show "r' = r \<and> (k, t) \<in> (edge_pairs g)\<^sup>*"
    by (induction rule: rtrancl_induct2) (auto simp: steps_pair_targets intro: rtrancl_into_rtrancl)
next
  assume "r' = r \<and> (k, t) \<in> (edge_pairs g)\<^sup>*"
  then have "(k, t) \<in> (edge_pairs g)\<^sup>*" "r' = r" by auto
  then show "((k, r), (t, r')) \<in> (steps (pair_targets g))\<^sup>*"
    by (induction rule: rtrancl_induct) (auto intro: rtrancl_into_rtrancl simp: steps_pair_targets)
qed

lemma distinct_root_pairs: "graph_ok g \<Longrightarrow> distinct (root_pairs g)"
proof -
  assume "graph_ok g"
  then have "distinct (map fst (g_roots g))" "\<forall>(k, rs) \<in> set (g_roots g). distinct rs"
    by (auto simp: graph_ok_def list_all_iff)
  then show ?thesis
    unfolding root_pairs_def
  proof (induction "g_roots g" arbitrary: g)
    case Nil
    then show ?case by simp
  next
    case (Cons x xs)
    obtain k rs where x: "x = (k, rs)" by (cases x)
    have "distinct (concat (map (\<lambda>(k, rs). map (Pair k) rs) (g_roots (g\<lparr>g_roots := xs\<rparr>))))"
      by (rule Cons.hyps(1)) (use Cons in \<open>auto simp: Cons.hyps(2) [symmetric]\<close>)
    then show ?case
      using Cons.prems unfolding Cons.hyps(2) [symmetric] x by (force simp: distinct_map inj_on_def)
  qed
qed

lemma protect_exact:
  assumes ok: "graph_ok g" and nf: "\<not> g_failed g"
  shows "\<exists>p. protect g members = Inr p \<and> p_members p = members \<and> distinct (p_protected p) \<and>
    set (p_protected p) = {(k, r). \<exists>k0. (k0, r) \<in> set (root_pairs g) \<and> (k0, k) \<in> (edge_pairs g)\<^sup>*}"
proof -
  let ?K = "fst ` set (g_edges g)"
  let ?U = "?K \<times> (UNIV :: protection_reason set)"
  let ?rp = "root_pairs g"
  have fin: "finite ?U" by (simp add: finite_reasons)
  have card: "card ?U \<le> 12 * length (g_edges g)"
    using card_length [of "map fst (g_edges g)"] by (simp add: card_cartesian_product card_reasons)
  have sub: "set ?rp \<subseteq> ?U" using ok by (auto simp: root_pairs_def graph_ok_def list_all_iff)
  have succs: "\<exists>ys. pair_targets g x = Inr ys \<and> set ys \<subseteq> ?U" if x: "x \<in> ?U" for x
  proof -
    obtain k r where kr: "x = (k, r)" by (cases x)
    with x have "map_of (g_edges g) k \<noteq> None" by (auto simp: map_of_eq_None_iff)
    then obtain ts where ts: "map_of (g_edges g) k = Some ts" by auto
    then have "(k, ts) \<in> set (g_edges g)" by (rule map_of_SomeD)
    with ok have "set ts \<subseteq> ?K" by (auto simp: graph_ok_def list_all_iff)
    with ts kr show ?thesis by (auto simp: pair_targets_def)
  qed
  have fuel: "length ?rp + card (?U - set ?rp) \<le> length ?rp + 12 * length (g_edges g)"
    using card card_mono [OF fin Diff_subset [of ?U "set ?rp"]] by linarith
  have "\<exists>res. worklist no_limit Diverges (length ?rp + 12 * length (g_edges g)) (pair_targets g) ?rp ?rp = Inr res"
    by (rule worklist_total [OF fin sub sub distinct_root_pairs [OF ok] _ fuel]) (rule succs)
  then obtain res where
    w: "worklist no_limit Diverges (length ?rp + 12 * length (g_edges g)) (pair_targets g) ?rp ?rp = Inr res" by blast
  have "set res = set ?rp \<union> (steps (pair_targets g))\<^sup>* `` set ?rp" "distinct res"
    using worklist_set [OF w] distinct_root_pairs [OF ok] by auto
  moreover have "set ?rp \<union> (steps (pair_targets g))\<^sup>* `` set ?rp =
      {(k, r). \<exists>k0. (k0, r) \<in> set ?rp \<and> (k0, k) \<in> (edge_pairs g)\<^sup>*}"
  proof -
    have "set ?rp \<union> (steps (pair_targets g))\<^sup>* `` set ?rp = (steps (pair_targets g))\<^sup>* `` set ?rp" by auto
    also have "\<dots> = {(k, r). \<exists>k0. (k0, r) \<in> set ?rp \<and> (k0, k) \<in> (edge_pairs g)\<^sup>*}"
      by (auto simp: Image_iff Bex_def split_paired_Ex reach_pair_targets)
    finally show ?thesis .
  qed
  ultimately show ?thesis using w nf by (simp add: protect_def)
qed

section \<open>Properties\<close>

text \<open>
  Registration keeps the retention graph well formed and within its limits under every sequence
  of operations, the failing ones included: edges lead to registered nodes, roots are registered
  nodes, the edge count is exact, and the graph is marked failed exactly when some operation raised.
\<close>

theorem retention_graph_invariant:
  "graph_ok (fst (run_ops (new_graph mn me) ops)) \<and>
   (g_failed (fst (run_ops (new_graph mn me) ops)) = list_ex isl (snd (run_ops (new_graph mn me) ops)))"
proof -
  obtain g rs where r: "run_ops (new_graph mn me) ops = (g, rs)" by (cases "run_ops (new_graph mn me) ops")
  from run_ops_ok [OF new_graph_ok r] show ?thesis by (simp add: r) (simp add: new_graph_def)
qed

text \<open>
  C26. Protection is the exact closure: an object is protected for a reason exactly when some
  registered root with that reason reaches it along registered edges, whatever the order of the
  registrations; an incomplete graph gives no answer at all.
\<close>

theorem protect_is_closure:
  assumes "run_ops (new_graph mn me) ops = (g, rs)"
  shows "if list_ex isl rs then protect g members = Inl (ValueError ''retention graph is incomplete'')
    else (\<exists>p. protect g members = Inr p \<and>
      (\<forall>kind identity reason. reason \<in> set (protection_reasons p kind identity) \<longleftrightarrow>
        (\<exists>root. (root, reason) \<in> op_roots ops \<and> (root, RetentionKey kind identity) \<in> (op_edges ops)\<^sup>*)))"
proof -
  note ok = run_ops_ok [OF new_graph_ok assms]
  show ?thesis
  proof (cases "list_ex isl rs")
    case True
    then show ?thesis using ok by (simp add: protect_def)
  next
    case False
    then have nf: "\<not> g_failed g" and g: "graph_ok g" using ok by (auto simp: new_graph_def)
    have "set (root_pairs g) = op_roots ops" "edge_pairs g = op_edges ops"
      using ok False by (auto simp: new_graph_def root_pairs_def edge_pairs_def dict_values_def)
    with protect_exact [OF g nf, of members] obtain p where p: "protect g members = Inr p"
      "set (p_protected p) = {(k, r). \<exists>k0. (k0, r) \<in> op_roots ops \<and> (k0, k) \<in> (op_edges ops)\<^sup>*}" by auto
    have "reason \<in> set (protection_reasons p kind identity) \<longleftrightarrow>
        (RetentionKey kind identity, reason) \<in> set (p_protected p)" for kind identity reason
      unfolding protection_reasons_def by (auto simp: image_iff)
    with p False show ?thesis by simp
  qed
qed

section \<open>Witnesses\<close>

definition w_ops :: "graph_op list" where
  "w_ops = [Edge_op K_state_tree [49] K_blob (Some [50]), Root_op K_branch [98] Current_branch,
     Edge_op K_branch [98] K_state_tree (Some [49]), Edge_op K_blob [50] K_branch (Some [98])]"

theorem protect_is_closure_witness:
  "\<exists>p. protect (fst (run_ops (new_graph 10 10) w_ops)) [] = Inr p \<and>
     Current_branch \<in> set (protection_reasons p K_blob [50])"
proof -
  obtain g rs where r: "run_ops (new_graph 10 10) w_ops = (g, rs)" by (cases "run_ops (new_graph 10 10) w_ops")
  have "\<not> list_ex isl (snd (run_ops (new_graph 10 10) w_ops))" by code_simp
  then have n: "\<not> list_ex isl rs" by (simp add: r)
  have e: "(RetentionKey K_branch [98], RetentionKey K_state_tree [49]) \<in> op_edges w_ops"
    "(RetentionKey K_state_tree [49], RetentionKey K_blob [50]) \<in> op_edges w_ops"
    "(RetentionKey K_branch [98], Current_branch) \<in> op_roots w_ops"
    by (auto simp: op_edges_def op_roots_def w_ops_def)
  then have "(RetentionKey K_branch [98], RetentionKey K_blob [50]) \<in> (op_edges w_ops)\<^sup>*"
    by (meson r_into_rtrancl rtrancl_trans)
  with protect_is_closure [OF r, of "[]"] n e(3) show ?thesis by (auto simp: r)
qed

end
