(* ===== verification/History.thy ===== *)
theory History
  imports Retention
begin

text \<open>
  Retiring history (\<open>skill_manager/retention/dependencies.py\<close> and \<open>groups.py\<close>): the closure of
  the retained consumers of the requested identities, the propagation of blocks to inputs, and the
  connected groups that can only be retired together. Sets are lists; the results are sorted.
\<close>

section \<open>Dependent closure\<close>

record history_dependency =
  hd_consumer :: retention_key
  hd_input :: retention_key
  hd_relation :: pystr

record history_closure =
  hc_required :: "retention_key list"
  hc_dependencies :: "history_dependency list"

definition max_retirement_identities :: nat where "max_retirement_identities = 1000000"
definition max_history_edges :: nat where "max_history_edges = 4000000"

text \<open>The retained consumers that the loop adds for one identity.\<close>

definition consumers_of :: "history_dependency list \<Rightarrow> retention_key list \<Rightarrow> retention_key \<Rightarrow> retention_key list" where
  "consumers_of deps retained identity =
     filter (\<lambda>c. c \<in> set retained) (map hd_consumer (filter (\<lambda>e. hd_input e = identity) deps))"

definition identity_limit :: py_error where
  "identity_limit = ValueError ''history dependency identity limit exceeded''"

definition dependent_closure ::
  "retention_key list \<Rightarrow> history_dependency list \<Rightarrow> retention_key list \<Rightarrow> nat \<Rightarrow> nat \<Rightarrow> history_closure res"
where
  "dependent_closure requested deps retained max_ids max_hist_edges =
     (if length deps > max_hist_edges then Inl (ValueError ''history dependency edge limit exceeded'')
      else (let start = remdups requested in
        if length start > max_ids then Inl identity_limit
        else bind_res (worklist (\<lambda>seen. length seen < max_ids) identity_limit (length start + length deps)
                         (\<lambda>identity. Inr (consumers_of deps retained identity))
                         start (sort (filter (\<lambda>k. k \<in> set retained) start))) (\<lambda>required.
          Inr \<lparr>hc_required = sort required,
               hc_dependencies = sort_key (\<lambda>e. (hd_consumer e, hd_input e, hd_relation e))
                 (remdups (filter (\<lambda>e. hd_consumer e \<in> set required \<and> hd_consumer e \<in> set retained) deps))\<rparr>)))"

section \<open>History groups\<close>

record history_groups_result =
  hg_blocked :: "retention_key list"
  hg_roots :: "retention_key list"
  hg_groups :: "retention_key list list"

definition inputs_of :: "history_dependency list \<Rightarrow> retention_key list \<Rightarrow> retention_key \<Rightarrow> retention_key list" where
  "inputs_of deps retained identity =
     remdups (map hd_input (filter (\<lambda>e. hd_consumer e = identity \<and> hd_consumer e \<in> set retained \<and> hd_input e \<in> set retained) deps))"

definition adjacent :: "history_dependency list \<Rightarrow> retention_key list \<Rightarrow> retention_key \<Rightarrow> retention_key list" where
  "adjacent deps selected identity =
     remdups (concat (map (\<lambda>e. (if hd_consumer e = identity then [hd_input e] else []) @
                               (if hd_input e = identity then [hd_consumer e] else []))
       (filter (\<lambda>e. hd_consumer e \<in> set selected \<and> hd_input e \<in> set selected) deps)))"

text \<open>The inner loop of the grouping: \<open>selected\<close> shrinks, \<open>component\<close> and \<open>pending\<close> grow.\<close>

fun take_neighbors :: "'a list \<Rightarrow> 'a list \<Rightarrow> 'a list \<Rightarrow> 'a list \<Rightarrow> 'a list \<times> 'a list \<times> 'a list" where
  "take_neighbors selected component pending [] = (selected, component, pending)"
| "take_neighbors selected component pending (n # ns) =
     (if n \<in> set selected then take_neighbors (remove1 n selected) (component @ [n]) (pending @ [n]) ns
      else take_neighbors selected component pending ns)"

fun grow :: "nat \<Rightarrow> ('a \<Rightarrow> 'a list) \<Rightarrow> 'a list \<Rightarrow> 'a list \<Rightarrow> 'a list \<Rightarrow> ('a list \<times> 'a list) res" where
  "grow fuel adj selected component [] = Inr (selected, component)"
| "grow 0 adj selected component (x # pending) = Inl Diverges"
| "grow (Suc fuel) adj selected component (x # pending) =
     (case take_neighbors selected component pending (adj x) of
        (selected', component', pending') \<Rightarrow> grow fuel adj selected' component' pending')"

fun group_loop ::
  "nat \<Rightarrow> ('a::linorder \<Rightarrow> 'a list) \<Rightarrow> 'a list \<Rightarrow> 'a list \<Rightarrow> 'a list list \<Rightarrow> ('a list list) res"
where
  "group_loop fuel adj [] selected groups = Inr groups"
| "group_loop fuel adj (seed # seeds) selected groups =
     (if seed \<notin> set selected then group_loop fuel adj seeds selected groups
      else bind_res (grow fuel adj (remove1 seed selected) [seed] [seed]) (\<lambda>(selected', component).
        group_loop fuel adj seeds selected' (groups @ [sort component])))"

definition history_groups ::
  "retention_key list \<Rightarrow> retention_key list \<Rightarrow> history_dependency list \<Rightarrow> retention_key list \<Rightarrow> history_groups_result res"
where
  "history_groups requested retained deps blocked =
     (let start = remdups blocked in
      bind_res (worklist no_limit Diverges (length start + length deps)
                  (\<lambda>identity. Inr (inputs_of deps retained identity)) start (sort start)) (\<lambda>rejected.
      (let roots = sort (filter (\<lambda>k. k \<notin> set rejected) (remdups requested)) in
       bind_res (dependent_closure roots deps retained max_retirement_identities max_history_edges) (\<lambda>closure.
         if set (hc_required closure) \<inter> set rejected \<noteq> {}
         then Inl (ValueError ''history group selection includes a blocked consumer'')
         else (let selected = filter (\<lambda>k. k \<in> set retained) (remdups (hc_required closure)) in
           bind_res (group_loop (length selected) (adjacent deps selected) (sort selected) selected []) (\<lambda>groups.
             Inr \<lparr>hg_blocked = sort rejected, hg_roots = roots, hg_groups = groups\<rparr>))))))"

section \<open>The closure of consumers\<close>

definition consumer_edges :: "history_dependency list \<Rightarrow> retention_key set \<Rightarrow> (retention_key \<times> retention_key) set" where
  "consumer_edges deps R = {(hd_input e, hd_consumer e) | e. e \<in> set deps \<and> hd_consumer e \<in> R}"

lemma steps_consumers: "steps (\<lambda>identity. Inr (consumers_of deps retained identity)) = consumer_edges deps (set retained)"
  by (auto simp: steps_def consumers_of_def consumer_edges_def)

lemma rtrancl_range: "(x, y) \<in> r\<^sup>* \<Longrightarrow> x = y \<or> y \<in> Range r"
  by (auto elim: rtranclE)

lemma consumer_reach_retained:
  "(x, y) \<in> (consumer_edges deps R)\<^sup>* \<Longrightarrow> x \<in> R \<Longrightarrow> y \<in> R"
  by (induction rule: rtrancl_induct) (auto simp: consumer_edges_def)

lemma dependent_closure_required:
  assumes "dependent_closure requested deps retained mi me = Inr c"
  shows "set (hc_required c) = set requested \<union> (consumer_edges deps (set retained))\<^sup>* `` (set requested \<inter> set retained)"
    "sorted_wrt (<) (hc_required c)"
    "set (hc_dependencies c) = {e \<in> set deps. hd_consumer e \<in> set (hc_required c) \<and> hd_consumer e \<in> set retained}"
    "distinct (hc_dependencies c)"
proof -
  let ?start = "remdups requested" and ?succ = "\<lambda>identity. Inr (consumers_of deps retained identity)"
  let ?p = "sort (filter (\<lambda>k. k \<in> set retained) ?start)"
  from assms obtain required where
    w: "worklist (\<lambda>seen. length seen < mi) identity_limit (length ?start + length deps) ?succ ?start ?p = Inr required"
    and c: "c = \<lparr>hc_required = sort required,
       hc_dependencies = sort_key (\<lambda>e. (hd_consumer e, hd_input e, hd_relation e))
         (remdups (filter (\<lambda>e. hd_consumer e \<in> set required \<and> hd_consumer e \<in> set retained) deps))\<rparr>"
    by (auto simp: dependent_closure_def Let_def split: if_splits)
  have sub: "set ?p \<subseteq> set ?start" by auto
  have dead: "(steps ?succ)\<^sup>* `` set ?p \<inter> (set ?start - set ?p) = {}"
    unfolding steps_consumers by (auto dest: consumer_reach_retained)
  have "set ?p = set requested \<inter> set retained" by auto
  with worklist_set(1) [OF w sub dead] worklist_set(3) [OF w sub dead]
  have req: "set required = set requested \<union> (consumer_edges deps (set retained))\<^sup>* `` (set requested \<inter> set retained)"
    and d: "distinct required" by (simp_all only: steps_consumers set_remdups distinct_remdups)
  show "set (hc_required c) = set requested \<union> (consumer_edges deps (set retained))\<^sup>* `` (set requested \<inter> set retained)"
    using req by (simp add: c)
  show "sorted_wrt (<) (hc_required c)" using d by (simp add: c strict_sorted_iff)
  show "set (hc_dependencies c) = {e \<in> set deps. hd_consumer e \<in> set (hc_required c) \<and> hd_consumer e \<in> set retained}"
    by (auto simp: c)
  show "distinct (hc_dependencies c)" by (simp add: c)
qed

lemma dependent_closure_fails:
  assumes "dependent_closure requested deps retained mi me = Inl e"
  shows "length deps > me \<and> e = ValueError ''history dependency edge limit exceeded'' \<or>
    e = identity_limit \<and> mi < card (set requested \<union> hd_consumer ` set deps)"
proof -
  let ?start = "remdups requested" and ?succ = "\<lambda>identity. Inr (consumers_of deps retained identity)"
  let ?p = "sort (filter (\<lambda>k. k \<in> set retained) ?start)"
  let ?U = "set requested \<union> hd_consumer ` set deps"
  consider (edges) "length deps > me" "e = ValueError ''history dependency edge limit exceeded''"
    | (start) "e = identity_limit" "length ?start > mi"
    | (loop) "worklist (\<lambda>seen. length seen < mi) identity_limit (length ?start + length deps) ?succ ?start ?p = Inl e"
    using assms by (auto simp: dependent_closure_def Let_def bind_res_eq_Inl_iff split: if_splits)
  then show ?thesis
  proof cases
    case edges
    then show ?thesis by simp
  next
    case start
    have "length ?start = card (set requested)" by (simp add: length_remdups_card_conv)
    also have "\<dots> \<le> card ?U" by (intro card_mono) auto
    finally show ?thesis using start by simp
  next
    case loop
    have fin: "finite ?U" by simp
    have "card (?U - set ?start) \<le> card (hd_consumer ` set deps)" by (intro card_mono) auto
    also have "\<dots> \<le> length deps" using card_length [of "map hd_consumer deps"] by simp
    finally have "card (?U - set ?start) \<le> length deps" .
    moreover have "length ?p \<le> length ?start"
      using length_filter_le [of "\<lambda>k. k \<in> set retained" ?start] by (simp only: length_sort)
    ultimately have fuel: "length ?p + card (?U - set ?start) \<le> length ?start + length deps" by linarith
    have "e = identity_limit \<and> (\<exists>s. \<not> length s < mi \<and> distinct s \<and> set s \<subset> ?U)"
      by (rule worklist_returns [OF fin _ _ _ _ fuel loop]) (auto simp: consumers_of_def)
    then obtain s where s: "e = identity_limit" "mi \<le> length s" "distinct s" "set s \<subset> ?U" by (auto simp: not_less)
    have "card (set s) < card ?U" using s(4) fin by (simp add: psubset_card_mono)
    with s show ?thesis by (simp add: distinct_card)
  qed
qed

section \<open>The propagation of blocks\<close>

definition input_edges :: "history_dependency list \<Rightarrow> retention_key set \<Rightarrow> (retention_key \<times> retention_key) set" where
  "input_edges deps R = {(hd_consumer e, hd_input e) | e. e \<in> set deps \<and> hd_consumer e \<in> R \<and> hd_input e \<in> R}"

lemma rejected_ok:
  "\<exists>rejected. worklist no_limit Diverges (length (remdups blocked) + length deps)
      (\<lambda>identity. Inr (inputs_of deps retained identity)) (remdups blocked) (sort (remdups blocked)) = Inr rejected \<and>
    distinct rejected \<and> set rejected = (input_edges deps (set retained))\<^sup>* `` set blocked"
proof -
  let ?start = "remdups blocked" and ?succ = "\<lambda>identity. Inr (inputs_of deps retained identity)"
  let ?U = "set blocked \<union> hd_input ` set deps"
  have st: "steps ?succ = input_edges deps (set retained)"
    by (auto simp: steps_def inputs_of_def input_edges_def)
  have fin: "finite ?U" by simp
  have "card (?U - set ?start) \<le> card (hd_input ` set deps)" by (intro card_mono) auto
  also have "\<dots> \<le> length deps" using card_length [of "map hd_input deps"] by simp
  finally have fuel: "length (sort ?start) + card (?U - set ?start) \<le> length ?start + length deps" by simp
  have "\<exists>res. worklist no_limit Diverges (length ?start + length deps) ?succ ?start (sort ?start) = Inr res"
    by (rule worklist_total [OF fin _ _ _ _ fuel]) (auto simp: inputs_of_def)
  then obtain res where w: "worklist no_limit Diverges (length ?start + length deps) ?succ ?start (sort ?start) = Inr res" by blast
  have "set res = set ?start \<union> (steps ?succ)\<^sup>* `` set (sort ?start)" "distinct res"
    by (rule worklist_set [OF w]; simp)+
  then show ?thesis using w by (auto simp: st)
qed

section \<open>Growing one component\<close>

lemma take_neighbors_visit:
  assumes "take_neighbors selected component pending ns = (s', c', p')" "distinct selected"
    and "set selected \<inter> set component = {}"
  shows "visit no_limit err component pending (filter (\<lambda>n. n \<in> set selected \<union> set component) ns) = Inr (c', p') \<and>
    distinct s' \<and> set s' \<inter> set c' = {} \<and> set s' \<union> set c' = set selected \<union> set component"
  using assms
proof (induction ns arbitrary: selected component pending)
  case (Cons n ns)
  show ?case
  proof (cases "n \<in> set selected")
    case True
    have u: "set (remove1 n selected) \<union> set (component @ [n]) = set selected \<union> set component"
      using True Cons.prems(2) by auto
    have "take_neighbors (remove1 n selected) (component @ [n]) (pending @ [n]) ns = (s', c', p')"
      using Cons.prems(1) True by simp
    from Cons.IH [OF this] Cons.prems(2,3) True show ?thesis
      unfolding u by (auto simp: no_limit_def)
  next
    case False
    with Cons show ?thesis by auto
  qed
qed simp

lemma grow_worklist:
  assumes "distinct selected" "set selected \<inter> set component = {}" "T = set selected \<union> set component"
  shows "case grow fuel adj selected component pending of
      Inl e \<Rightarrow> worklist no_limit Diverges fuel (\<lambda>x. Inr (filter (\<lambda>n. n \<in> T) (adj x))) component pending = Inl e
    | Inr (s', c') \<Rightarrow> worklist no_limit Diverges fuel (\<lambda>x. Inr (filter (\<lambda>n. n \<in> T) (adj x))) component pending = Inr c' \<and>
        distinct s' \<and> set s' = T - set c'"
  using assms
proof (induction fuel arbitrary: selected component pending)
  case 0
  then show ?case by (cases pending) auto
next
  case (Suc fuel)
  show ?case
  proof (cases pending)
    case Nil
    with Suc.prems show ?thesis by auto
  next
    case (Cons x rest)
    obtain s' c' p' where t: "take_neighbors selected component rest (adj x) = (s', c', p')"
      by (cases "take_neighbors selected component rest (adj x)")
    from take_neighbors_visit [OF t Suc.prems(1,2), of Diverges]
    have v: "visit no_limit Diverges component rest (filter (\<lambda>n. n \<in> T) (adj x)) = Inr (c', p')"
      and s': "distinct s'" "set s' \<inter> set c' = {}" "T = set s' \<union> set c'"
      unfolding Suc.prems(3) by blast+
    have "worklist no_limit Diverges (Suc fuel) (\<lambda>x. Inr (filter (\<lambda>n. n \<in> T) (adj x))) component pending =
        worklist no_limit Diverges fuel (\<lambda>x. Inr (filter (\<lambda>n. n \<in> T) (adj x))) c' p'"
      "grow (Suc fuel) adj selected component pending = grow fuel adj s' c' p'"
      by (simp_all add: Cons t v)
    with Suc.IH [OF s', of p'] show ?thesis by (simp only:)
  qed
qed

definition adj_rel :: "('a \<Rightarrow> 'a list) \<Rightarrow> ('a \<times> 'a) set" where
  "adj_rel adj = {(x, y). y \<in> set (adj x)}"

lemma closed_rtrancl: "(x, y) \<in> r\<^sup>* \<Longrightarrow> x \<in> S \<Longrightarrow> (\<And>a b. a \<in> S \<Longrightarrow> (a, b) \<in> r \<Longrightarrow> b \<in> S) \<Longrightarrow> y \<in> S"
  by (induction rule: rtrancl_induct) auto

lemma grow_component:
  assumes d: "distinct selected" and seed: "seed \<in> set selected" and fuel: "length selected \<le> fuel"
    and closed: "\<And>x y. x \<in> set selected \<Longrightarrow> (x, y) \<in> adj_rel adj \<Longrightarrow> y \<in> set selected"
  shows "\<exists>s' c'. grow fuel adj (remove1 seed selected) [seed] [seed] = Inr (s', c') \<and> distinct s' \<and> distinct c' \<and>
    set c' = (adj_rel adj)\<^sup>* `` {seed} \<and> set s' = set selected - set c' \<and> set c' \<subseteq> set selected"
proof -
  let ?T = "set selected" and ?succ = "\<lambda>x. Inr (filter (\<lambda>n. n \<in> set selected) (adj x))"
  have T: "?T = set (remove1 seed selected) \<union> set [seed]" using d seed by auto
  have w0: "\<exists>res. worklist no_limit Diverges fuel ?succ [seed] [seed] = Inr res"
  proof (rule worklist_total [of ?T])
    have "card (?T - set [seed]) = length selected - 1" using d seed by (simp add: distinct_card)
    moreover have "length selected > 0" using seed by auto
    ultimately show "length [seed] + card (?T - set [seed]) \<le> fuel" using fuel by simp
  qed (use seed in auto)
  then obtain res where w: "worklist no_limit Diverges fuel ?succ [seed] [seed] = Inr res" by blast
  have g: "case grow fuel adj (remove1 seed selected) [seed] [seed] of
      Inl e \<Rightarrow> worklist no_limit Diverges fuel ?succ [seed] [seed] = Inl e
    | Inr (s', c') \<Rightarrow> worklist no_limit Diverges fuel ?succ [seed] [seed] = Inr c' \<and> distinct s' \<and> set s' = ?T - set c'"
    by (rule grow_worklist [OF _ _ T]) (use d in auto)
  then obtain s' where s': "grow fuel adj (remove1 seed selected) [seed] [seed] = Inr (s', res)"
    "distinct s'" "set s' = ?T - set res"
    using w by (cases "grow fuel adj (remove1 seed selected) [seed] [seed]") auto
  have st: "steps ?succ \<subseteq> adj_rel adj" by (auto simp: steps_def adj_rel_def)
  have "(seed, y) \<in> (steps ?succ)\<^sup>* \<and> y \<in> ?T" if "(seed, y) \<in> (adj_rel adj)\<^sup>*" for y
    using that
  proof (induction rule: rtrancl_induct)
    case (step y z)
    then have "z \<in> ?T" using closed by blast
    moreover have "(y, z) \<in> steps ?succ" using step.hyps(2) \<open>z \<in> ?T\<close> by (auto simp: steps_def adj_rel_def)
    ultimately show ?case using step.IH by (auto intro: rtrancl_into_rtrancl)
  qed (use seed in simp)
  then have eq: "(steps ?succ)\<^sup>* `` {seed} = (adj_rel adj)\<^sup>* `` {seed}" "(adj_rel adj)\<^sup>* `` {seed} \<subseteq> ?T"
    using rtrancl_mono [OF st] by auto
  have "set res = set [seed] \<union> (steps ?succ)\<^sup>* `` set [seed]" "distinct res"
    by (rule worklist_set [OF w]; simp)+
  then have "set res = (adj_rel adj)\<^sup>* `` {seed}" "distinct res" using eq(1) by auto
  with s' eq(2) show ?thesis by auto
qed

section \<open>The groups\<close>

lemma group_loop_ok:
  assumes "sorted_wrt (<) seeds" "set selected \<subseteq> set seeds" "distinct selected" "length selected \<le> fuel"
    and sym: "sym (adj_rel adj)"
    and "\<And>x y. x \<in> set selected \<Longrightarrow> (x, y) \<in> adj_rel adj \<Longrightarrow> y \<in> set selected"
  shows "\<exists>new. group_loop fuel adj seeds selected groups = Inr (groups @ new) \<and> sorted_wrt (<) new \<and>
    (\<forall>u \<in> set new. sorted_wrt (<) u \<and> u \<noteq> [] \<and> set u \<subseteq> set selected) \<and>
    set ` set new = (\<lambda>x. (adj_rel adj)\<^sup>* `` {x}) ` set selected"
  using assms(1-4,6)
proof (induction seeds arbitrary: selected groups)
  case (Cons seed seeds)
  show ?case
  proof (cases "seed \<in> set selected")
    case False
    have "set selected \<subseteq> set seeds" using Cons.prems(2) False by auto
    with Cons.IH [of selected groups] Cons.prems False show ?thesis by auto
  next
    case True
    have "\<exists>s' c'. grow fuel adj (remove1 seed selected) [seed] [seed] = Inr (s', c') \<and> distinct s' \<and> distinct c' \<and>
      set c' = (adj_rel adj)\<^sup>* `` {seed} \<and> set s' = set selected - set c' \<and> set c' \<subseteq> set selected"
      by (rule grow_component [OF Cons.prems(3) True Cons.prems(4)]) (rule Cons.prems(5))
    then obtain s' c' where g: "grow fuel adj (remove1 seed selected) [seed] [seed] = Inr (s', c')" "distinct s'" "distinct c'"
      and c': "set c' = (adj_rel adj)\<^sup>* `` {seed}" and s': "set s' = set selected - set c'" "set c' \<subseteq> set selected"
      by blast
    have symr: "sym ((adj_rel adj)\<^sup>*)" using sym by (rule sym_rtrancl)
    have closed': "y \<in> set s'" if "x \<in> set s'" "(x, y) \<in> adj_rel adj" for x y
    proof -
      have "y \<in> set selected" using Cons.prems(5) that s' by blast
      moreover have "y \<notin> set c'"
      proof
        assume "y \<in> set c'"
        then have "(seed, y) \<in> (adj_rel adj)\<^sup>*" by (simp add: c')
        moreover have "(y, x) \<in> adj_rel adj" using sym that(2) by (rule symD)
        ultimately have "(seed, x) \<in> (adj_rel adj)\<^sup>*" by (rule rtrancl_into_rtrancl)
        with that(1) s' show False by (simp add: c')
      qed
      ultimately show ?thesis by (simp add: s')
    qed
    have "seed \<in> set c'" by (simp add: c')
    then have sub: "set s' \<subseteq> set seeds" using s' Cons.prems(2) by auto
    have "card (set s') \<le> card (set selected)" using s'(1) by (intro card_mono) auto
    then have len: "length s' \<le> fuel" using g(2) Cons.prems(3,4) by (simp add: distinct_card)
    have srt: "sorted_wrt (<) seeds" using Cons.prems(1) by simp
    have "\<exists>new. group_loop fuel adj seeds s' (groups @ [sort c']) = Inr ((groups @ [sort c']) @ new) \<and> sorted_wrt (<) new \<and>
      (\<forall>u \<in> set new. sorted_wrt (<) u \<and> u \<noteq> [] \<and> set u \<subseteq> set s') \<and>
      set ` set new = (\<lambda>x. (adj_rel adj)\<^sup>* `` {x}) ` set s'"
      by (rule Cons.IH [OF srt sub g(2) len]) (rule closed')
    then obtain new where new: "group_loop fuel adj seeds s' (groups @ [sort c']) = Inr ((groups @ [sort c']) @ new)"
      "sorted_wrt (<) new" "\<forall>u \<in> set new. sorted_wrt (<) u \<and> u \<noteq> [] \<and> set u \<subseteq> set s'"
      "set ` set new = (\<lambda>x. (adj_rel adj)\<^sup>* `` {x}) ` set s'" by blast
    obtain rest where head: "sort c' = seed # rest"
    proof -
      have "set c' \<subseteq> set (seed # seeds)" using s'(2) Cons.prems(2) by blast
      have min: "\<forall>x \<in> set c'. seed \<le> x"
      proof
        fix x assume "x \<in> set c'"
        with \<open>set c' \<subseteq> set (seed # seeds)\<close> have "x = seed \<or> x \<in> set seeds" by auto
        with Cons.prems(1) show "seed \<le> x" by (auto intro: less_imp_le)
      qed
      have "seed \<in> set (sort c')" using \<open>seed \<in> set c'\<close> by simp
      then obtain a as where as: "sort c' = a # as" by (cases "sort c'") auto
      have "sorted (a # as)" using as by (metis sorted_sort)
      then have "a \<le> seed" using \<open>seed \<in> set (sort c')\<close> as by auto
      moreover have "a \<in> set c'" using as by (metis list.set_intros(1) set_sort)
      ultimately have "a = seed" using min by fastforce
      with as that show ?thesis by simp
    qed
    have before: "sort c' < u" if "u \<in> set new" for u
    proof -
      from that new(3) have "u \<noteq> []" "set u \<subseteq> set s'" by blast+
      then obtain b bs where u: "u = b # bs" "b \<in> set s'" by (metis list.exhaust list.set_intros(1) subsetD)
      then have "b \<in> set seeds" using sub by blast
      with Cons.prems(1) have "seed < b" by simp
      then show ?thesis by (simp add: head u)
    qed
    have "(\<lambda>x. (adj_rel adj)\<^sup>* `` {x}) ` set selected = insert (set c') ((\<lambda>x. (adj_rel adj)\<^sup>* `` {x}) ` set s')"
    proof -
      have "(adj_rel adj)\<^sup>* `` {x} = set c'" if "x \<in> set c'" for x
        using that symr unfolding c' by (auto dest: symD intro: rtrancl_trans)
      then have "(\<lambda>x. (adj_rel adj)\<^sup>* `` {x}) ` set c' = {set c'}" using \<open>seed \<in> set c'\<close> by auto
      moreover have "set selected = set c' \<union> set s'" using s' by auto
      ultimately show ?thesis by (simp only: image_Un) auto
    qed
    then have classes: "set ` set (sort c' # new) = (\<lambda>x. (adj_rel adj)\<^sup>* `` {x}) ` set selected"
      using new(4) by simp
    show ?thesis
    proof (intro exI [of _ "sort c' # new"] conjI)
      show "group_loop fuel adj (seed # seeds) selected groups = Inr (groups @ sort c' # new)"
        using True g(1) new(1) by simp
      show "sorted_wrt (<) (sort c' # new)" using before new(2) by simp
      have "sorted_wrt (<) (sort c')" using g(3) by (simp add: strict_sorted_iff)
      moreover have "sort c' \<noteq> []" by (simp only: head list.distinct not_False_eq_True)
      moreover have "\<forall>u \<in> set new. set u \<subseteq> set selected" using new(3) s'(1) by blast
      ultimately show "\<forall>u \<in> set (sort c' # new). sorted_wrt (<) u \<and> u \<noteq> [] \<and> set u \<subseteq> set selected"
        using new(3) s'(2) by simp
    qed (rule classes)
  qed
qed simp

text \<open>The relation of the adjacency lists, and the groups as the sorted partition it generates.\<close>

definition group_edges :: "history_dependency list \<Rightarrow> retention_key set \<Rightarrow> (retention_key \<times> retention_key) set" where
  "group_edges deps K = {(hd_consumer e, hd_input e) | e. e \<in> set deps \<and> hd_consumer e \<in> K \<and> hd_input e \<in> K}"

lemma adj_rel_adjacent: "adj_rel (adjacent deps ks) = group_edges deps (set ks) \<union> (group_edges deps (set ks))\<inverse>"
  by (auto simp: adj_rel_def adjacent_def group_edges_def split: if_splits)

lemma linked_class: "E \<subseteq> K \<times> K \<Longrightarrow> x \<in> K \<Longrightarrow> linked K E `` {x} = (E \<union> E\<inverse>)\<^sup>* `` {x}"
proof -
  assume E: "E \<subseteq> K \<times> K" and x: "x \<in> K"
  have "y \<in> K" if "(x, y) \<in> (E \<union> E\<inverse>)\<^sup>*" for y
    using that x by (rule closed_rtrancl) (use E in auto)
  then show ?thesis using x by (auto simp: linked_def)
qed

lemma groups_partition:
  assumes "distinct ks"
  shows "\<exists>groups. group_loop (length ks) (adjacent deps ks) (sort ks) ks [] = Inr groups \<and>
    is_partition groups (set ks) (linked (set ks) (group_edges deps (set ks)))"
proof -
  let ?E = "group_edges deps (set ks)" and ?adj = "adjacent deps ks"
  have E: "?E \<subseteq> set ks \<times> set ks" by (auto simp: group_edges_def)
  have sym: "sym (adj_rel ?adj)" unfolding adj_rel_adjacent by (auto simp: sym_def)
  have "\<exists>new. group_loop (length ks) ?adj (sort ks) ks [] = Inr ([] @ new) \<and> sorted_wrt (<) new \<and>
    (\<forall>u \<in> set new. sorted_wrt (<) u \<and> u \<noteq> [] \<and> set u \<subseteq> set ks) \<and>
    set ` set new = (\<lambda>x. (adj_rel ?adj)\<^sup>* `` {x}) ` set ks"
  proof (rule group_loop_ok [OF _ _ assms _ sym])
    show "sorted_wrt (<) (sort ks)" using assms by (simp add: strict_sorted_iff)
    show "y \<in> set ks" if "(x, y) \<in> adj_rel ?adj" for x y
      using that E unfolding adj_rel_adjacent by auto
  qed simp_all
  then obtain new where new: "group_loop (length ks) ?adj (sort ks) ks [] = Inr new" "sorted_wrt (<) new"
    "\<forall>u \<in> set new. sorted_wrt (<) u" "set ` set new = (\<lambda>x. (adj_rel ?adj)\<^sup>* `` {x}) ` set ks" by auto
  have "set ` set new = set ks // linked (set ks) ?E"
    unfolding new(4) quotient_def adj_rel_adjacent using linked_class [OF E] by auto
  with new show ?thesis by (auto simp: is_partition_def)
qed

section \<open>Everything a grouping guarantees\<close>

text \<open>The identities that the executable roots would retire, and the blocked ones.\<close>

definition blocked_set :: "history_dependency list \<Rightarrow> retention_key list \<Rightarrow> retention_key list \<Rightarrow> retention_key set" where
  "blocked_set deps retained blocked = (input_edges deps (set retained))\<^sup>* `` set blocked"

definition retired_set ::
  "history_dependency list \<Rightarrow> retention_key list \<Rightarrow> retention_key list \<Rightarrow> retention_key list \<Rightarrow> retention_key set"
where
  "retired_set deps retained requested blocked =
     (consumer_edges deps (set retained))\<^sup>* ``
       ((set requested - blocked_set deps retained blocked) \<inter> set retained)"

lemma retired_not_blocked:
  assumes "k \<in> retired_set deps retained requested blocked"
  shows "k \<in> set retained \<and> k \<notin> blocked_set deps retained blocked"
proof -
  from assms obtain r where r: "r \<in> set requested" "r \<notin> blocked_set deps retained blocked" "r \<in> set retained"
    and rk: "(r, k) \<in> (consumer_edges deps (set retained))\<^sup>*" by (auto simp: retired_set_def)
  from rk r(2,3) show ?thesis
  proof (induction rule: rtrancl_induct)
    case (step y z)
    then obtain e where e: "e \<in> set deps" "hd_input e = y" "hd_consumer e = z" "z \<in> set retained"
      and y: "y \<in> set retained" "y \<notin> blocked_set deps retained blocked" by (auto simp: consumer_edges_def)
    have "(z, y) \<in> input_edges deps (set retained)" using e y by (force simp: input_edges_def)
    then have "z \<notin> blocked_set deps retained blocked"
      using y(2) by (auto simp: blocked_set_def intro: rtrancl_into_rtrancl)
    with e(4) show ?case by simp
  qed simp
qed

lemma history_groups_ok:
  assumes "length deps \<le> max_history_edges"
    and "card (set requested \<union> hd_consumer ` set deps) \<le> max_retirement_identities"
  shows "\<exists>h. history_groups requested retained deps blocked = Inr h \<and>
    set (hg_blocked h) = blocked_set deps retained blocked \<and>
    set (hg_roots h) = set requested - blocked_set deps retained blocked \<and> sorted_wrt (<) (hg_roots h) \<and>
    is_partition (hg_groups h) (retired_set deps retained requested blocked)
      (linked (retired_set deps retained requested blocked) (group_edges deps (retired_set deps retained requested blocked)))"
proof -
  obtain rejected where w: "worklist no_limit Diverges (length (remdups blocked) + length deps)
      (\<lambda>identity. Inr (inputs_of deps retained identity)) (remdups blocked) (sort (remdups blocked)) = Inr rejected"
    and rej: "set rejected = blocked_set deps retained blocked"
    using rejected_ok [of blocked deps retained] by (auto simp: blocked_set_def)
  let ?roots = "sort (filter (\<lambda>k. k \<notin> set rejected) (remdups requested))"
  have roots: "set ?roots = set requested - blocked_set deps retained blocked" by (auto simp: rej)
  have "\<exists>c. dependent_closure ?roots deps retained max_retirement_identities max_history_edges = Inr c"
  proof (cases "dependent_closure ?roots deps retained max_retirement_identities max_history_edges")
    case (Inl e)
    have "card (set ?roots \<union> hd_consumer ` set deps) \<le> card (set requested \<union> hd_consumer ` set deps)"
      by (intro card_mono) auto
    with dependent_closure_fails [OF Inl] assms show ?thesis by linarith
  qed simp
  then obtain c where c: "dependent_closure ?roots deps retained max_retirement_identities max_history_edges = Inr c" by blast
  let ?K = "retired_set deps retained requested blocked"
  have req: "set (hc_required c) = set ?roots \<union> ?K"
    using dependent_closure_required(1) [OF c] unfolding roots retired_set_def by simp
  let ?sel = "filter (\<lambda>k. k \<in> set retained) (remdups (hc_required c))"
  have sel: "set ?sel = ?K"
  proof -
    have "set ?roots \<inter> set retained \<subseteq> ?K" unfolding roots retired_set_def by auto
    moreover have "?K \<subseteq> set retained" using retired_not_blocked by blast
    ultimately show ?thesis using req by auto
  qed
  have disj: "set (hc_required c) \<inter> set rejected = {}"
  proof -
    have "set ?roots \<inter> set rejected = {}" using roots rej by blast
    moreover have "?K \<inter> set rejected = {}" using retired_not_blocked rej by blast
    ultimately show ?thesis unfolding req by blast
  qed
  obtain groups where groups: "group_loop (length ?sel) (adjacent deps ?sel) (sort ?sel) ?sel [] = Inr groups"
    "is_partition groups (set ?sel) (linked (set ?sel) (group_edges deps (set ?sel)))"
    using groups_partition [of ?sel deps] by auto
  have "history_groups requested retained deps blocked =
      Inr \<lparr>hg_blocked = sort rejected, hg_roots = ?roots, hg_groups = groups\<rparr>"
    unfolding history_groups_def Let_def using w c disj groups(1) by simp
  then show ?thesis using groups(2) roots unfolding sel by (simp add: rej strict_sorted_iff)
qed

section \<open>Properties\<close>

text \<open>
  Within its limits the dependent closure always returns, and exactly: the requested
  identities and every retained history that consumes one of them directly or indirectly, sorted,
  with exactly the input edges of the retained required consumers.
\<close>

theorem dependent_closure_exact:
  assumes "length deps \<le> edge_limit" "card (set requested \<union> hd_consumer ` set deps) \<le> identity_budget"
  shows "\<exists>c. dependent_closure requested deps retained identity_budget edge_limit = Inr c \<and>
    (\<forall>k. k \<in> set (hc_required c) \<longleftrightarrow> k \<in> set requested \<or>
      (\<exists>r \<in> set requested \<inter> set retained. (r, k) \<in> (consumer_edges deps (set retained))\<^sup>*)) \<and>
    sorted_wrt (<) (hc_required c) \<and>
    set (hc_dependencies c) = {e \<in> set deps. hd_consumer e \<in> set (hc_required c) \<inter> set retained}"
proof (cases "dependent_closure requested deps retained identity_budget edge_limit")
  case (Inl e)
  with dependent_closure_fails [OF Inl] assms show ?thesis by linarith
next
  case (Inr c)
  from dependent_closure_required [OF Inr] show ?thesis using Inr by auto
qed

text \<open>
  C40. Within the limits a history grouping always returns: the internal check for a blocked
  consumer never fires, the executable roots are the requested identities that no block reaches, and
  no group contains an identity that a blocked consumer still needs.
\<close>

theorem history_groups_never_retire_blocked:
  assumes "length deps \<le> max_history_edges"
    and "card (set requested \<union> hd_consumer ` set deps) \<le> max_retirement_identities"
  shows "\<exists>h. history_groups requested retained deps blocked = Inr h \<and>
    set (hg_roots h) = set requested - set (hg_blocked h) \<and>
    set (hg_blocked h) = (input_edges deps (set retained))\<^sup>* `` set blocked \<and>
    (\<forall>g \<in> set (hg_groups h). set g \<subseteq> set retained - set (hg_blocked h))"
proof -
  from history_groups_ok [OF assms, of retained blocked] obtain h where h: "history_groups requested retained deps blocked = Inr h"
    "set (hg_blocked h) = blocked_set deps retained blocked"
    "set (hg_roots h) = set requested - blocked_set deps retained blocked"
    and p: "is_partition (hg_groups h) (retired_set deps retained requested blocked)
      (linked (retired_set deps retained requested blocked) (group_edges deps (retired_set deps retained requested blocked)))"
    by blast
  have sub: "set g \<subseteq> set retained - set (hg_blocked h)" if g: "g \<in> set (hg_groups h)" for g
  proof -
    let ?K = "retired_set deps retained requested blocked"
    have "set g \<in> ?K // linked ?K (group_edges deps ?K)" using p g by (auto simp: is_partition_def)
    then have "set g \<subseteq> ?K" by (rule in_quotient_imp_subset [OF equiv_linked])
    moreover have "?K \<subseteq> set retained - set (hg_blocked h)" using retired_not_blocked unfolding h(2) by auto
    ultimately show ?thesis by (rule subset_trans)
  qed
  show ?thesis
    by (intro exI conjI ballI)
      (rule h(1), rule h(3) [folded h(2)], rule h(2) [unfolded blocked_set_def], rule sub)
qed

text \<open>
  The groups are the connected components of what the roots retire: together they are exactly
  the retained consumers of the executable roots, no dependency crosses two groups, and no smaller
  split has that property; they come sorted, so the result does not depend on any input order.
\<close>

theorem history_groups_are_components:
  assumes "history_groups requested retained deps blocked = Inr h"
    and "length deps \<le> max_history_edges"
    and "card (set requested \<union> hd_consumer ` set deps) \<le> max_retirement_identities"
  shows "\<exists>K. K = (consumer_edges deps (set retained))\<^sup>* `` (set (hg_roots h) \<inter> set retained) \<and>
    is_partition (hg_groups h) K (linked K (group_edges deps K))"
  using history_groups_ok [OF assms(2,3), of retained blocked] assms(1) by (auto simp: retired_set_def)

section \<open>Witnesses\<close>

text \<open>
  Branch 1 consumes tree 2, which is consumed by branch 3 as well; branch 4 consumes tree 5 and is
  blocked.
\<close>

definition w_key :: "nat \<Rightarrow> retention_key" where
  "w_key n = RetentionKey K_branch [48 + n]"

definition w_deps :: "history_dependency list" where
  "w_deps = [\<lparr>hd_consumer = w_key 1, hd_input = w_key 2, hd_relation = []\<rparr>,
     \<lparr>hd_consumer = w_key 3, hd_input = w_key 2, hd_relation = []\<rparr>,
     \<lparr>hd_consumer = w_key 4, hd_input = w_key 5, hd_relation = []\<rparr>]"

definition w_retained :: "retention_key list" where
  "w_retained = map w_key [1, 2, 3, 4, 5]"

lemma w_limits: "length w_deps \<le> max_history_edges"
  "card (set [w_key 2, w_key 5] \<union> hd_consumer ` set w_deps) \<le> max_retirement_identities"
proof -
  show "length w_deps \<le> max_history_edges" by (simp add: w_deps_def max_history_edges_def)
  have "card (set [w_key 2, w_key 5] \<union> hd_consumer ` set w_deps) \<le> card (set [w_key 2, w_key 5]) + card (hd_consumer ` set w_deps)"
    by (rule card_Un_le)
  also have "\<dots> \<le> length [w_key 2, w_key 5] + length (map hd_consumer w_deps)"
    using card_length [of "[w_key 2, w_key 5]"] card_length [of "map hd_consumer w_deps"] by simp
  finally show "card (set [w_key 2, w_key 5] \<union> hd_consumer ` set w_deps) \<le> max_retirement_identities"
    by (simp add: w_deps_def max_retirement_identities_def)
qed

theorem dependent_closure_exact_witness:
  "\<exists>c. dependent_closure [w_key 2, w_key 5] w_deps w_retained max_retirement_identities max_history_edges = Inr c \<and>
    w_key 3 \<in> set (hc_required c)"
proof -
  have "(w_key 2, w_key 3) \<in> consumer_edges w_deps (set w_retained)"
    unfolding consumer_edges_def
    by (rule CollectI, rule exI [of _ "\<lparr>hd_consumer = w_key 3, hd_input = w_key 2, hd_relation = []\<rparr>"])
      (simp add: w_deps_def w_retained_def)
  moreover have "w_key 2 \<in> set w_retained" by (simp add: w_retained_def)
  ultimately show ?thesis
    using dependent_closure_exact [OF w_limits, of w_retained] by auto
qed

lemma w_groups: "history_groups [w_key 2, w_key 5] w_retained w_deps [w_key 4] =
  Inr \<lparr>hg_blocked = [w_key 4, w_key 5], hg_roots = [w_key 2], hg_groups = [[w_key 1, w_key 2, w_key 3]]\<rparr>"
  by code_simp

theorem history_groups_never_retire_blocked_witness:
  "set [w_key 2] = set [w_key 2, w_key 5] - set [w_key 4, w_key 5] \<and>
   set [w_key 4, w_key 5] = (input_edges w_deps (set w_retained))\<^sup>* `` set [w_key 4]"
  using history_groups_never_retire_blocked [OF w_limits, of w_retained "[w_key 4]"] by (simp add: w_groups)

theorem history_groups_are_components_witness:
  "\<exists>K. K = (consumer_edges w_deps (set w_retained))\<^sup>* `` (set [w_key 2] \<inter> set w_retained) \<and>
    is_partition [[w_key 1, w_key 2, w_key 3]] K (linked K (group_edges w_deps K))"
  using history_groups_are_components [OF w_groups w_limits] by simp

end
