(* ===== verification/Content.thy ===== *)
theory Content
  imports Digest
begin

text \<open>
  The verification of file contents: the streaming verifier
  (\<open>skill_manager/storage/validation.py\<close>), the whole-content check (\<open>verify_file_content\<close> in
  \<open>skill_manager/manifest.py\<close>) and the storage quotas (\<open>skill_manager/storage/policy.py\<close>).

  \<open>sha\<close> is the hexadecimal SHA-256; a running hash is the bytes fed so far. The strict UTF-8
  decoder of the Python library is written out: its state is the list of byte ranges that the
  unfinished character still needs.
\<close>

section \<open>UTF-8 decoding\<close>

type_synonym decoder = "(nat \<times> nat) list"

fun decode_byte :: "decoder \<Rightarrow> nat \<Rightarrow> decoder option" where
  "decode_byte [] b =
     (if b < 128 then Some []
      else if 194 \<le> b \<and> b \<le> 223 then Some [(128, 191)]
      else if b = 224 then Some [(160, 191), (128, 191)]
      else if b = 237 then Some [(128, 159), (128, 191)]
      else if 225 \<le> b \<and> b \<le> 239 then Some [(128, 191), (128, 191)]
      else if b = 240 then Some [(144, 191), (128, 191), (128, 191)]
      else if 241 \<le> b \<and> b \<le> 243 then Some [(128, 191), (128, 191), (128, 191)]
      else if b = 244 then Some [(128, 143), (128, 191), (128, 191)]
      else None)"
| "decode_byte ((lo, hi) # rest) b = (if lo \<le> b \<and> b \<le> hi then Some rest else None)"

text \<open>\<open>decode(chunk, final=False)\<close>; \<open>None\<close> is a \<open>UnicodeDecodeError\<close>.\<close>

fun decode_chunk :: "decoder \<Rightarrow> bytes \<Rightarrow> decoder option" where
  "decode_chunk d [] = Some d"
| "decode_chunk d (b # bs) = (case decode_byte d b of None \<Rightarrow> None | Some d' \<Rightarrow> decode_chunk d' bs)"

definition decodes :: "bytes \<Rightarrow> bool" where
  "decodes bs \<longleftrightarrow> decode_chunk [] bs = Some []"

section \<open>The verifiers\<close>

definition verify_file_content :: "(bytes \<Rightarrow> pystr) \<Rightarrow> entry \<Rightarrow> bytes \<Rightarrow> unit res" where
  "verify_file_content sha e content =
     (if e_kind e \<noteq> File \<or> e_size e \<noteq> int (length content)
      then Inl (ValueError ''skill content size or entry kind does not match'')
      else if sha content \<noteq> e_sha256 e then Inl (ValueError ''skill content digest does not match'')
      else (let is_text = (decodes content \<and> 0 \<notin> set content) in
        if (e_content e = Text) \<noteq> is_text then Inl (ValueError ''skill content classification does not match'')
        else Inr ()))"

record verifier =
  v_entry :: entry
  v_size :: int
  v_hashed :: bytes
  v_decoder :: decoder
  v_is_text :: bool

definition new_verifier :: "entry \<Rightarrow> verifier res" where
  "new_verifier e =
     (if e_kind e \<noteq> File then Inl (ValueError ''content requires a file entry'')
      else Inr \<lparr>v_entry = e, v_size = 0, v_hashed = [], v_decoder = [], v_is_text = True\<rparr>)"

definition verifier_update :: "verifier \<Rightarrow> bytes \<Rightarrow> verifier res" where
  "verifier_update v chunk =
     (let size = v_size v + int (length chunk) in
      if size > e_size (v_entry v) then Inl (ValueError ''skill content exceeds declared size'')
      else (let v' = v\<lparr>v_size := size, v_hashed := v_hashed v @ chunk\<rparr> in
        if v_is_text v then
          (case decode_chunk (v_decoder v) chunk of
             Some d \<Rightarrow> Inr (v'\<lparr>v_decoder := d, v_is_text := (0 \<notin> set chunk)\<rparr>)
           | None \<Rightarrow> Inr (v'\<lparr>v_is_text := False\<rparr>))
        else Inr v'))"

definition verifier_finish :: "(bytes \<Rightarrow> pystr) \<Rightarrow> verifier \<Rightarrow> unit res" where
  "verifier_finish sha v =
     (if v_size v \<noteq> e_size (v_entry v) then Inl (ValueError ''skill content size does not match'')
      else if sha (v_hashed v) \<noteq> e_sha256 (v_entry v) then Inl (ValueError ''skill content digest does not match'')
      else (let is_text = (v_is_text v \<and> v_decoder v = []) in
        if (e_content (v_entry v) = Text) \<noteq> is_text then Inl (ValueError ''skill content classification does not match'')
        else Inr ()))"

text \<open>\<open>verify_stream\<close>: the chunks are the non-empty blocks read from the stream.\<close>

definition verify_stream :: "(bytes \<Rightarrow> pystr) \<Rightarrow> entry \<Rightarrow> bytes list \<Rightarrow> unit res" where
  "verify_stream sha e chunks =
     bind_res (new_verifier e) (\<lambda>v. bind_res (fold_res verifier_update v chunks) (verifier_finish sha))"

section \<open>Quotas\<close>

datatype content_scope = Package | State | Account_directory

record storage_policy =
  package_file_bytes :: int
  package_bytes :: int
  package_entries :: int
  checkpoint_bytes :: int
  directory_bytes :: int
  state_entries :: int

definition validate_quota :: "storage_policy \<Rightarrow> manifest \<Rightarrow> content_scope \<Rightarrow> unit res" where
  "validate_quota p m scope =
     bind_res (if scope = Package then
         (if list_ex (\<lambda>e. e_kind e = Runtime_link) (entries m)
          then Inl (ValueError ''installation package cannot include runtime dependencies'')
          else if list_ex (\<lambda>e. e_size e > package_file_bytes p) (entries m)
          then Inl (ValueError ''package file quota exceeded'')
          else Inr (package_bytes p, package_entries p))
       else Inr (if scope = Account_directory then directory_bytes p else checkpoint_bytes p, state_entries p))
     (\<lambda>(byte_limit, entry_limit).
       require (\<not> (total_bytes m > byte_limit \<or> int (length (entries m)) > entry_limit))
         (ValueError ''skill tree quota exceeded''))"

section \<open>The decoder accepts exactly the encodings\<close>

definition scalar :: "nat \<Rightarrow> bool" where
  "scalar c \<longleftrightarrow> c < 1114112 \<and> \<not> is_surrogate c"

lemma decode_chunk_append:
  "decode_chunk d (xs @ ys) = (case decode_chunk d xs of None \<Rightarrow> None | Some d' \<Rightarrow> decode_chunk d' ys)"
  by (induction xs arbitrary: d) (auto split: option.splits)

text \<open>Base-64 digits.\<close>

lemma digits2:
  "x < 64 \<Longrightarrow> (a * 64 + x) div 64 = (a :: nat)" "x < 64 \<Longrightarrow> (a * 64 + x) mod 64 = (x :: nat)"
  by simp_all

lemma digits3:
  assumes "x < 64" "y < 64"
  shows "((a * 64 + x) * 64 + y) div 4096 = (a :: nat)"
proof -
  have "((a * 64 + x) * 64 + y) div (64 * 64) = a"
    using assms by (simp only: div_mult2_eq digits2)
  then show ?thesis by simp
qed

lemma digits4:
  assumes "x < 64" "y < 64" "z < 64"
  shows "(((a * 64 + x) * 64 + y) * 64 + z) div 262144 = (a :: nat)"
    "(((a * 64 + x) * 64 + y) * 64 + z) div 4096 = a * 64 + x"
proof -
  have "(((a * 64 + x) * 64 + y) * 64 + z) div (64 * 64) = a * 64 + x"
    using assms by (simp only: div_mult2_eq digits2)
  moreover have "(((a * 64 + x) * 64 + y) * 64 + z) div (64 * 64 * 64) = a"
    using assms by (simp only: div_mult2_eq digits2)
  ultimately show "(((a * 64 + x) * 64 + y) * 64 + z) div 262144 = (a :: nat)"
    "(((a * 64 + x) * 64 + y) * 64 + z) div 4096 = a * 64 + x" by simp_all
qed

lemma utf8_char_digits:
  "c < 128 \<Longrightarrow> utf8_char c = [c]"
  "x < 64 \<Longrightarrow> 2 \<le> a \<Longrightarrow> a < 32 \<Longrightarrow> utf8_char (a * 64 + x) = [192 + a, 128 + x]"
  "x < 64 \<Longrightarrow> y < 64 \<Longrightarrow> a < 16 \<Longrightarrow> 32 \<le> a * 64 + x \<Longrightarrow>
    utf8_char ((a * 64 + x) * 64 + y) = [224 + a, 128 + x, 128 + y]"
  "x < 64 \<Longrightarrow> y < 64 \<Longrightarrow> z < 64 \<Longrightarrow> 16 \<le> a * 64 + x \<Longrightarrow>
    utf8_char (((a * 64 + x) * 64 + y) * 64 + z) = [240 + a, 128 + x, 128 + y, 128 + z]"
proof -
  show "c < 128 \<Longrightarrow> utf8_char c = [c]" by (simp add: utf8_char_def)
  show "utf8_char (a * 64 + x) = [192 + a, 128 + x]" if "x < 64" "2 \<le> a" "a < 32"
    using that digits2 [OF that(1), of a] by (simp add: utf8_char_def)
  show "utf8_char ((a * 64 + x) * 64 + y) = [224 + a, 128 + x, 128 + y]"
    if "x < 64" "y < 64" "a < 16" "32 \<le> a * 64 + x"
  proof -
    have "\<not> (a * 64 + x) * 64 + y < 128" "\<not> (a * 64 + x) * 64 + y < 2048" "(a * 64 + x) * 64 + y < 65536"
      using that by auto
    then show ?thesis
      unfolding utf8_char_def using digits3 [OF that(1,2)] digits2 [OF that(2)] digits2 [OF that(1)]
      by (simp only: if_True if_False)
  qed
  show "utf8_char (((a * 64 + x) * 64 + y) * 64 + z) = [240 + a, 128 + x, 128 + y, 128 + z]"
    if "x < 64" "y < 64" "z < 64" "16 \<le> a * 64 + x"
  proof -
    have "\<not> ((a * 64 + x) * 64 + y) * 64 + z < 128" "\<not> ((a * 64 + x) * 64 + y) * 64 + z < 2048"
      "\<not> ((a * 64 + x) * 64 + y) * 64 + z < 65536"
      using that by auto
    then show ?thesis
      unfolding utf8_char_def
      using digits4 [OF that(1-3)] digits2 [OF that(1)] digits2 [OF that(2)] digits2 [OF that(3)]
      by (simp only: if_True if_False)
  qed
qed

text \<open>Every code point has one of the four shapes.\<close>

lemma code_point_cases:
  fixes c :: nat
  obtains (one) "c < 128"
  | (two) a x where "c = a * 64 + x" "x < 64" "2 \<le> a" "a < 32"
  | (three) a x y where "c = (a * 64 + x) * 64 + y" "x < 64" "y < 64" "a < 16" "32 \<le> a * 64 + x"
  | (four) a x y z where "c = ((a * 64 + x) * 64 + y) * 64 + z" "x < 64" "y < 64" "z < 64" "16 \<le> a * 64 + x"
proof -
  have d: "\<exists>q r. n = q * 64 + r \<and> r < 64" for n :: nat
    by (rule exI [of _ "n div 64"], rule exI [of _ "n mod 64"]) simp
  obtain b y where cy: "c = b * 64 + y" "y < 64" using d [of c] by blast
  obtain e x where ex: "b = e * 64 + x" "x < 64" using d [of b] by blast
  obtain g w where gw: "e = g * 64 + w" "w < 64" using d [of e] by blast
  consider "c < 128" | "128 \<le> c" "c < 2048" | "2048 \<le> c" "c < 65536" | "65536 \<le> c" by linarith
  then show thesis
  proof cases
    case 1
    then show thesis by (rule one)
  next
    case 2
    then show thesis using cy by (intro two [OF cy]) auto
  next
    case 3
    have c: "c = (e * 64 + x) * 64 + y" using cy ex by simp
    show thesis using 3 cy ex by (intro three [OF c]) auto
  next
    case 4
    have c: "c = ((g * 64 + w) * 64 + x) * 64 + y" using cy ex gw by simp
    show thesis using 4 cy ex gw by (intro four [OF c]) auto
  qed
qed

lemma decode_char:
  assumes "scalar c"
  shows "decode_chunk [] (utf8_char c @ rest) = decode_chunk [] rest"
proof (cases c rule: code_point_cases)
  case one
  then show ?thesis by (simp add: utf8_char_digits)
next
  case (two a x)
  then show ?thesis using utf8_char_digits(2) [OF two(2-4)] unfolding two(1) [symmetric] by simp
next
  case (three a x y)
  have ns: "a = 13 \<Longrightarrow> x < 32"
  proof -
    assume "a = 13"
    have "\<not> (55296 \<le> c \<and> c < 57344)" using assms by (simp add: scalar_def is_surrogate_def)
    then show "x < 32" using three \<open>a = 13\<close> by auto
  qed
  consider "a = 0" | "a = 13" | "a \<noteq> 0" "a \<noteq> 13" by blast
  then show ?thesis
    using three ns utf8_char_digits(3) [OF three(2-5)] unfolding three(1) [symmetric] by cases simp_all
next
  case (four a x y z)
  have "c < 1114112" using assms by (simp add: scalar_def)
  then have hi: "a \<le> 4" "a = 4 \<Longrightarrow> x < 16" using four by auto
  consider "a = 0" | "a = 4" | "1 \<le> a" "a \<le> 3" using hi by linarith
  then show ?thesis
    using four hi utf8_char_digits(4) [OF four(2-5)] unfolding four(1) [symmetric] by cases simp_all
qed

text \<open>The bytes of one decoded character.\<close>

lemma decode_range:
  assumes "decode_chunk ((lo, hi) # d) bs = Some []" "128 \<le> lo" "hi \<le> 191"
  obtains x rest where "bs = (128 + x) # rest" "x < 64" "lo \<le> 128 + x" "128 + x \<le> hi" "decode_chunk d rest = Some []"
proof -
  from assms(1) obtain b rest where b: "bs = b # rest" "lo \<le> b" "b \<le> hi" "decode_chunk d rest = Some []"
    by (cases bs) (auto split: if_splits)
  show thesis by (rule that [of "b - 128" rest]) (use b assms(2,3) in auto)
qed

lemma decode_split:
  assumes "decode_chunk [] (b # bs) = Some []"
  shows "\<exists>c rest. scalar c \<and> b # bs = utf8_char c @ rest \<and> decode_chunk [] rest = Some []"
proof -
  from assms obtain d where d: "decode_byte [] b = Some d" and r: "decode_chunk d bs = Some []"
    by (auto split: option.splits)
  consider (one) "b < 128" "d = []"
    | (two) a where "b = 192 + a" "2 \<le> a" "a < 32" "d = [(128, 191)]"
    | (three) a lo hi where "b = 224 + a" "a < 16" "d = [(lo, hi), (128, 191)]" "128 \<le> lo" "hi \<le> 191"
        "a = 0 \<Longrightarrow> lo = 160" "a = 13 \<Longrightarrow> hi = 159"
    | (four) a lo hi where "b = 240 + a" "a < 5" "d = [(lo, hi), (128, 191), (128, 191)]" "128 \<le> lo" "hi \<le> 191"
        "a = 0 \<Longrightarrow> lo = 144" "a = 4 \<Longrightarrow> hi = 143"
  proof -
    consider "b < 128" | "194 \<le> b" "b \<le> 223" | "b = 224" | "b = 237" | "225 \<le> b" "b \<le> 239" "b \<noteq> 237"
      | "b = 240" | "241 \<le> b" "b \<le> 243" | "b = 244"
      using d by (auto split: if_splits)
    then show thesis
    proof cases
      case 1 then show thesis using d by (intro one) auto
    next
      case 2 then show thesis using d by (intro two [of "b - 192"]) auto
    next
      case 3 then show thesis using d by (intro three [of 0 160 191]) auto
    next
      case 4 then show thesis using d by (intro three [of 13 128 159]) auto
    next
      case 5 then show thesis using d by (intro three [of "b - 224" 128 191]) auto
    next
      case 6 then show thesis using d by (intro four [of 0 144 191]) auto
    next
      case 7 then show thesis using d by (intro four [of "b - 240" 128 191]) auto
    next
      case 8 then show thesis using d by (intro four [of 4 128 143]) auto
    qed
  qed
  then show ?thesis
  proof cases
    case one
    then show ?thesis using r by (intro exI [of _ b] exI [of _ bs]) (auto simp: utf8_char_digits scalar_def is_surrogate_def)
  next
    case (two a)
    from r [unfolded two(4)] obtain x rest where x: "bs = (128 + x) # rest" "x < 64" "decode_chunk [] rest = Some []"
      by (rule decode_range) auto
    have "scalar (a * 64 + x)" using two x by (auto simp: scalar_def is_surrogate_def)
    moreover have "b # bs = utf8_char (a * 64 + x) @ rest"
      using utf8_char_digits(2) [OF x(2) two(2,3)] two(1) x(1) by simp
    ultimately show ?thesis using x(3) by blast
  next
    case (three a lo hi)
    from r [unfolded three(3)] three(4,5) obtain x t where x: "bs = (128 + x) # t" "x < 64" "lo \<le> 128 + x" "128 + x \<le> hi"
      "decode_chunk [(128, 191)] t = Some []" by (rule decode_range) auto
    from x(5) obtain y rest where y: "t = (128 + y) # rest" "y < 64" "decode_chunk [] rest = Some []"
      by (rule decode_range) auto
    let ?c = "(a * 64 + x) * 64 + y"
    have big: "32 \<le> a * 64 + x" using three(6) x(3) by (cases "a = 0") auto
    have "scalar ?c"
    proof -
      have "?c < 65536" using three(2) x(2) y(2) by auto
      moreover have "\<not> (55296 \<le> ?c \<and> ?c < 57344)"
      proof (cases "a = 13")
        case True
        then show ?thesis using three(7) x(4) y(2) by auto
      next
        case False
        then show ?thesis using x(2) y(2) by auto
      qed
      ultimately show ?thesis by (simp add: scalar_def is_surrogate_def)
    qed
    moreover have "b # bs = utf8_char ?c @ rest"
      unfolding utf8_char_digits(3) [OF x(2) y(2) three(2) big] using three(1) x(1) y(1) by simp
    ultimately show ?thesis using y(3) by blast
  next
    case (four a lo hi)
    from r [unfolded four(3)] four(4,5) obtain x t where x: "bs = (128 + x) # t" "x < 64" "lo \<le> 128 + x" "128 + x \<le> hi"
      "decode_chunk [(128, 191), (128, 191)] t = Some []" by (rule decode_range) auto
    from x(5) obtain y t' where y: "t = (128 + y) # t'" "y < 64" "decode_chunk [(128, 191)] t' = Some []"
      by (rule decode_range) auto
    from y(3) obtain z rest where z: "t' = (128 + z) # rest" "z < 64" "decode_chunk [] rest = Some []"
      by (rule decode_range) auto
    let ?c = "((a * 64 + x) * 64 + y) * 64 + z"
    have big: "16 \<le> a * 64 + x" using four(6) x(3) by (cases "a = 0") auto
    have "scalar ?c"
    proof -
      have "?c < 1114112"
      proof (cases "a = 4")
        case True
        then show ?thesis using four(7) x(4) y(2) z(2) by auto
      next
        case False
        then show ?thesis using four(2) x(2) y(2) z(2) by auto
      qed
      moreover have "\<not> ?c < 57344" using big y(2) z(2) by auto
      ultimately show ?thesis by (simp add: scalar_def is_surrogate_def)
    qed
    moreover have "b # bs = utf8_char ?c @ rest"
      unfolding utf8_char_digits(4) [OF x(2) y(2) z(2) big] using four(1) x(1) y(1) z(1) by simp
    ultimately show ?thesis using z(3) by blast
  qed
qed

lemma utf8_char_nonempty: "utf8_char c \<noteq> []"
  by (simp add: utf8_char_def)

lemma decodes_iff: "decodes bs \<longleftrightarrow> (\<exists>s. list_all scalar s \<and> utf8 s = bs)"
proof
  assume "decodes bs"
  then have "decode_chunk [] bs = Some []" by (simp add: decodes_def)
  then show "\<exists>s. list_all scalar s \<and> utf8 s = bs"
  proof (induction "length bs" arbitrary: bs rule: less_induct)
    case less
    show ?case
    proof (cases bs)
      case Nil
      then show ?thesis by (intro exI [of _ "[]"]) (simp add: utf8_def)
    next
      case (Cons b t)
      from decode_split [OF less.prems [unfolded Cons]] obtain c rest where
        c: "scalar c" "bs = utf8_char c @ rest" "decode_chunk [] rest = Some []" unfolding Cons by blast
      have "length rest < length bs" using c(2) utf8_char_nonempty [of c] by (cases "utf8_char c") auto
      from less.hyps [OF this c(3)] obtain s where "list_all scalar s" "utf8 s = rest" by blast
      with c show ?thesis by (intro exI [of _ "c # s"]) (simp add: utf8_def)
    qed
  qed
next
  assume "\<exists>s. list_all scalar s \<and> utf8 s = bs"
  then obtain s where "list_all scalar s" "utf8 s = bs" by blast
  then show "decodes bs"
    unfolding decodes_def
    by (induction s arbitrary: bs) (auto simp: utf8_def decode_char)
qed

section \<open>The streaming verifier\<close>

text \<open>The state of the verifier after the bytes \<open>bs\<close>.\<close>

definition verifier_after :: "entry \<Rightarrow> bytes \<Rightarrow> verifier \<Rightarrow> bool" where
  "verifier_after e bs v \<longleftrightarrow> v_entry v = e \<and> v_size v = int (length bs) \<and> v_hashed v = bs \<and>
     (if v_is_text v then decode_chunk [] bs = Some (v_decoder v) \<and> 0 \<notin> set bs
      else decode_chunk [] bs = None \<or> 0 \<in> set bs)"

lemma verifier_update_after:
  assumes "verifier_after e bs v"
  shows "if int (length (bs @ chunk)) > e_size e
    then verifier_update v chunk = Inl (ValueError ''skill content exceeds declared size'')
    else (\<exists>v'. verifier_update v chunk = Inr v' \<and> verifier_after e (bs @ chunk) v')"
  using assms
  by (cases "v_is_text v"; cases "decode_chunk (v_decoder v) chunk")
    (auto simp: verifier_after_def verifier_update_def Let_def decode_chunk_append split: if_splits option.splits)

lemma verifier_updates_after:
  assumes "verifier_after e bs v" "int (length bs) \<le> e_size e"
  shows "if int (length (bs @ concat chunks)) > e_size e
    then fold_res verifier_update v chunks = Inl (ValueError ''skill content exceeds declared size'')
    else (\<exists>v'. fold_res verifier_update v chunks = Inr v' \<and> verifier_after e (bs @ concat chunks) v')"
  using assms
proof (induction chunks arbitrary: bs v)
  case (Cons chunk chunks)
  show ?case
  proof (cases "int (length (bs @ chunk)) > e_size e")
    case True
    with verifier_update_after [OF Cons.prems(1), of chunk] show ?thesis by auto
  next
    case False
    with verifier_update_after [OF Cons.prems(1), of chunk] obtain v' where
      v': "verifier_update v chunk = Inr v'" "verifier_after e (bs @ chunk) v'" by auto
    from Cons.IH [OF v'(2)] False v'(1) show ?thesis by auto
  qed
qed auto

definition is_text_content :: "bytes \<Rightarrow> bool" where
  "is_text_content bs \<longleftrightarrow> (\<exists>s. list_all scalar s \<and> 0 \<notin> set s \<and> utf8 s = bs)"

lemma is_text_content_iff: "is_text_content bs \<longleftrightarrow> decodes bs \<and> 0 \<notin> set bs"
  unfolding is_text_content_def decodes_iff by (auto simp: utf8_nul)

lemma verifier_finish_after:
  assumes "verifier_after e bs v"
  shows "verifier_finish sha v = Inr () \<longleftrightarrow>
    e_size e = int (length bs) \<and> sha bs = e_sha256 e \<and> (e_content e = Text \<longleftrightarrow> is_text_content bs)"
  using assms
  by (auto simp: verifier_finish_def verifier_after_def is_text_content_iff decodes_def Let_def split: if_splits)

lemma verify_stream_iff:
  assumes "0 \<le> e_size e"
  shows "verify_stream sha e chunks = Inr () \<longleftrightarrow>
     e_kind e = File \<and> e_size e = int (length (concat chunks)) \<and> sha (concat chunks) = e_sha256 e \<and>
     (e_content e = Text \<longleftrightarrow> is_text_content (concat chunks))"
proof (cases "e_kind e = File")
  case True
  then obtain v where v: "new_verifier e = Inr v" "verifier_after e [] v"
    by (auto simp: new_verifier_def verifier_after_def)
  show ?thesis
  proof (cases "int (length (concat chunks)) > e_size e")
    case big: True
    with verifier_updates_after [OF v(2), of chunks] assms have
      "fold_res verifier_update v chunks = Inl (ValueError ''skill content exceeds declared size'')" by auto
    then show ?thesis using v(1) big by (auto simp: verify_stream_def)
  next
    case False
    with verifier_updates_after [OF v(2), of chunks] assms obtain v' where
      v': "fold_res verifier_update v chunks = Inr v'" "verifier_after e (concat chunks) v'" by auto
    show ?thesis using v(1) v'(1) verifier_finish_after [OF v'(2), of sha] True by (simp add: verify_stream_def)
  qed
qed (simp add: verify_stream_def new_verifier_def)

lemma verify_file_content_iff:
  "verify_file_content sha e content = Inr () \<longleftrightarrow>
     e_kind e = File \<and> e_size e = int (length content) \<and> sha content = e_sha256 e \<and>
     (e_content e = Text \<longleftrightarrow> is_text_content content)"
  by (auto simp: verify_file_content_def Let_def is_text_content_iff)

section \<open>Properties\<close>

text \<open>
  The streaming verifier decides exactly the declared identity, however the content is cut into
  blocks, even inside a character: it accepts a file exactly when its length, its hash and its
  classification are the declared ones, where text means the UTF-8 encoding of Unicode scalar values
  without NUL; the whole-content check decides the same.
\<close>

theorem streaming_verification_exact:
  assumes "0 \<le> e_size e"
  shows "(verify_stream sha e chunks = Inr () \<longleftrightarrow> verify_file_content sha e (concat chunks) = Inr ()) \<and>
    (verify_stream sha e chunks = Inr () \<longleftrightarrow>
       e_kind e = File \<and> e_size e = int (length (concat chunks)) \<and> sha (concat chunks) = e_sha256 e \<and>
       (e_content e = Text \<longleftrightarrow> (\<exists>s. list_all scalar s \<and> 0 \<notin> set s \<and> utf8 s = concat chunks)))"
  using verify_stream_iff [OF assms] verify_file_content_iff
  by (simp add: is_text_content_def)

text \<open>The two bytes of one letter in two blocks.\<close>

definition v_sample :: entry where
  "v_sample = (s_file [97] 1)\<lparr>e_size := 2, e_sha256 := [195, 169]\<rparr>"

theorem streaming_verification_exact_witness:
  "verify_file_content (\<lambda>b. b) v_sample (concat [[195], [169]]) = Inr ()"
proof -
  have "0 \<le> e_size v_sample" "verify_stream (\<lambda>b. b) v_sample [[195], [169]] = Inr ()" by code_simp+
  with streaming_verification_exact [of v_sample "\<lambda>b. b" "[[195], [169]]"] show ?thesis by blast
qed

end
