(* ===== verification/Objects.thy ===== *)
theory Objects
  imports Content
begin

text \<open>
  The private object store of one user (\<open>skill_manager/storage/filesystem.py\<close>, \<open>objects.py\<close>,
  \<open>deletion.py\<close>): staged upload, verified publication by hard link, verified reads, collection of
  uncommitted content and deletion with a receipt.

  The volume is the user's directory: the staged files, the published objects by digest (the two
  character shard directories merged), the deletion receipts. A file has its bytes and the metadata
  the code inspects. The mode and owner checks of the directories themselves and the fsync calls are
  not modelled; the file lock of a deletion makes it one step. Operations return the new volume
  beside the result, because a raise keeps what was already done.
\<close>

section \<open>Files and volumes\<close>

text \<open>What \<open>fstat\<close> tells; a symbolic link is not followed, so opening one fails.\<close>

datatype file_kind = Regular_file | Symbolic_link | Special_file

record blob =
  b_bytes :: bytes
  b_kind :: file_kind
  b_owned :: bool
  b_mode :: int
  b_mtime :: int

record volume =
  vol_exists :: bool
  vol_staging :: "(pystr \<times> blob) list"
  vol_objects :: "(pystr \<times> blob) list"
  vol_receipts :: "(pystr \<times> blob) list"

definition missing_file :: py_error where "missing_file = OSError ''FileNotFoundError''"
definition existing_file :: py_error where "existing_file = OSError ''FileExistsError''"

definition link_refused :: py_error where "link_refused = OSError ''ELOOP''"

definition private_file :: "blob \<Rightarrow> bool" where
  "private_file b \<longleftrightarrow> b_kind b = Regular_file \<and> b_owned b \<and> b_mode b = 256"

definition validate_digest :: "pystr \<Rightarrow> unit res" where
  "validate_digest digest = require (is_hex64 digest) (ValueError ''invalid content digest'')"

definition open_blob :: "volume \<Rightarrow> pystr \<Rightarrow> blob res" where
  "open_blob vol digest =
     (case map_of (vol_objects vol) digest of
        None \<Rightarrow> Inl missing_file
      | Some b \<Rightarrow> if b_kind b = Symbolic_link then Inl link_refused
          else if private_file b then Inr b
          else Inl (ValueError ''content object must be a private immutable regular file''))"

definition read_object :: "volume \<Rightarrow> pystr \<Rightarrow> blob res" where
  "read_object vol digest =
     bind_res (validate_digest digest) (\<lambda>_. if vol_exists vol then open_blob vol digest else Inl missing_file)"

text \<open>The blocks of a stream; \<open>n\<close> is the block size of \<open>read\<close>.\<close>

function blocks_of :: "nat \<Rightarrow> bytes \<Rightarrow> bytes list" where
  "blocks_of n bs = (if bs = [] \<or> n = 0 then [] else take n bs # blocks_of n (drop n bs))"
  by pat_completeness auto
termination by (relation "measure (\<lambda>(_, bs). length bs)") auto

declare blocks_of.simps [simp del]

definition block_size :: nat where "block_size = 1024 * 1024"

definition verify_blob :: "(bytes \<Rightarrow> pystr) \<Rightarrow> entry \<Rightarrow> blob \<Rightarrow> unit res" where
  "verify_blob sha e b = verify_stream sha e (blocks_of block_size (b_bytes b))"

section \<open>Upload\<close>

definition publish :: "(bytes \<Rightarrow> pystr) \<Rightarrow> volume \<Rightarrow> pystr \<Rightarrow> entry \<Rightarrow> volume \<times> bool res" where
  "publish sha vol name e =
     (case validate_digest (e_sha256 e) of
        Inl err \<Rightarrow> (vol, Inl err)
      | Inr _ \<Rightarrow>
          (case map_of (vol_staging vol) name of
             None \<Rightarrow> (vol, Inl missing_file)
           | Some b \<Rightarrow>
               (let b' = b\<lparr>b_mode := 256\<rparr>; vol' = vol\<lparr>vol_staging := AList.update name b' (vol_staging vol)\<rparr> in
                case map_of (vol_objects vol') (e_sha256 e) of
                  Some _ \<Rightarrow> (vol', bind_res (open_blob vol' (e_sha256 e)) (\<lambda>existing.
                              bind_res (verify_blob sha e existing) (\<lambda>_. Inr False)))
                | None \<Rightarrow> (vol'\<lparr>vol_objects := AList.update (e_sha256 e) b' (vol_objects vol')\<rparr>, Inr True))))"

definition unstage :: "pystr \<Rightarrow> volume \<Rightarrow> volume" where
  "unstage name vol = vol\<lparr>vol_staging := AList.delete name (vol_staging vol)\<rparr>"

text \<open>\<open>staged_file\<close> around the body of \<open>_put_file\<close>: the staged name is always removed at the end.\<close>

definition put_file ::
  "(bytes \<Rightarrow> pystr) \<Rightarrow> int \<Rightarrow> volume \<Rightarrow> pystr \<Rightarrow> entry \<Rightarrow> bytes list \<Rightarrow> volume \<times> bool res"
where
  "put_file sha now vol name e blocks =
     (case new_verifier e of
        Inl err \<Rightarrow> (vol, Inl err)
      | Inr v \<Rightarrow>
          (if name \<in> fst ` set (vol_staging vol) then (vol\<lparr>vol_exists := True\<rparr>, Inl existing_file)
           else
             (let staged = \<lparr>b_bytes = concat blocks, b_kind = Regular_file, b_owned = True, b_mode = 384, b_mtime = now\<rparr>;
                  vol1 = vol\<lparr>vol_exists := True, vol_staging := AList.update name staged (vol_staging vol)\<rparr> in
              case bind_res (fold_res verifier_update v blocks) (verifier_finish sha) of
                Inl err \<Rightarrow> (unstage name vol1, Inl err)
              | Inr _ \<Rightarrow> (case publish sha vol1 name e of (vol2, r) \<Rightarrow> (unstage name vol2, r)))))"

section \<open>Reading back\<close>

definition verify_manifest_step ::
  "(bytes \<Rightarrow> pystr) \<Rightarrow> volume \<Rightarrow> (pystr \<times> int \<times> content_kind) list \<Rightarrow> entry \<Rightarrow>
   ((pystr \<times> int \<times> content_kind) list) res"
where
  "verify_manifest_step sha vol verified e =
     (let identity = (e_sha256 e, e_size e, e_content e) in
      if e_kind e \<noteq> File \<or> identity \<in> set verified then Inr verified
      else bind_res (read_object vol (e_sha256 e)) (\<lambda>source.
           bind_res (verify_blob sha e source) (\<lambda>_. Inr (identity # verified))))"

definition verify_manifest :: "(bytes \<Rightarrow> pystr) \<Rightarrow> volume \<Rightarrow> manifest \<Rightarrow> unit res" where
  "verify_manifest sha vol m =
     bind_res (fold_res (verify_manifest_step sha vol) [] (entries m)) (\<lambda>_. Inr ())"

definition read_prefix :: "(bytes \<Rightarrow> pystr) \<Rightarrow> volume \<Rightarrow> entry \<Rightarrow> int \<Rightarrow> bytes res" where
  "read_prefix sha vol e limit =
     (if \<not> (0 \<le> limit \<and> limit \<le> 1024 * 1024) then Inl (ValueError ''content prefix limit is out of range'')
      else bind_res (read_object vol (e_sha256 e)) (\<lambda>source.
        bind_res (verify_blob sha e source) (\<lambda>_. Inr (take (nat limit) (b_bytes source)))))"

text \<open>
  \<open>_write_all\<close>: \<open>writes\<close> are the results of the successive \<open>target.write\<close> calls; the value is what
  the target received and the unused results.
\<close>

fun write_all :: "int option list \<Rightarrow> bytes \<Rightarrow> bytes \<Rightarrow> (bytes \<times> int option list) res" where
  "write_all writes out [] = Inr (out, writes)"
| "write_all [] out (b # bs) = Inl Diverges"
| "write_all (w # writes) out (b # bs) =
     (case w of
        None \<Rightarrow> Inl (OSError ''content output did not make progress'')
      | Some n \<Rightarrow>
          if n \<le> 0 \<or> n > int (length (b # bs)) then Inl (OSError ''content output did not make progress'')
          else write_all writes (out @ take (nat n) (b # bs)) (drop (nat n) (b # bs)))"

definition copy_chunk ::
  "verifier \<times> bytes \<times> int option list \<Rightarrow> bytes \<Rightarrow> (verifier \<times> bytes \<times> int option list) res"
where
  "copy_chunk st chunk =
     (case st of (v, out, writes) \<Rightarrow>
        bind_res (verifier_update v chunk) (\<lambda>v'.
        bind_res (write_all writes out chunk) (\<lambda>(out', writes'). Inr (v', out', writes'))))"

definition copy_file :: "(bytes \<Rightarrow> pystr) \<Rightarrow> volume \<Rightarrow> entry \<Rightarrow> int option list \<Rightarrow> bytes res" where
  "copy_file sha vol e writes =
     bind_res (new_verifier e) (\<lambda>v.
     bind_res (read_object vol (e_sha256 e)) (\<lambda>source.
     bind_res (fold_res copy_chunk (v, [], writes) (blocks_of block_size (b_bytes source))) (\<lambda>(v', out, _).
     bind_res (verifier_finish sha v') (\<lambda>_. Inr out))))"

section \<open>Collection\<close>

text \<open>\<open>_remove_old_file\<close>: \<open>None\<close> is the infinite deadline. True: the file is removed.\<close>

definition old_file :: "blob \<Rightarrow> int option \<Rightarrow> bool res" where
  "old_file b deadline =
     (if b_kind b \<noteq> Regular_file \<or> \<not> b_owned b
      then Inl (ValueError ''uncommitted content is not a service-owned regular file'')
      else Inr (case deadline of None \<Rightarrow> True | Some cutoff \<Rightarrow> b_mtime b \<le> cutoff))"

definition is_upload_name :: "pystr \<Rightarrow> bool" where
  "is_upload_name name \<longleftrightarrow> starts_with name (lit ''upload-'') \<and> length name = 43 \<and>
     list_all (\<lambda>c. is_lower_hex c \<or> c = 45) (drop 7 name)"

text \<open>One directory: the kept files and the first error, with everything after it kept.\<close>

fun sweep :: "(pystr \<Rightarrow> bool) \<Rightarrow> (pystr \<Rightarrow> int option) \<Rightarrow> (pystr \<times> blob) list \<Rightarrow> (pystr \<times> blob) list \<times> unit res" where
  "sweep candidate deadline [] = ([], Inr ())"
| "sweep candidate deadline ((name, b) # rest) =
     (if \<not> candidate name then (let (kept, r) = sweep candidate deadline rest in ((name, b) # kept, r))
      else (case old_file b (deadline name) of
          Inl err \<Rightarrow> ((name, b) # rest, Inl err)
        | Inr removed \<Rightarrow> (let (kept, r) = sweep candidate deadline rest in
            (if removed then kept else (name, b) # kept, r))))"

definition is_shard_name :: "pystr \<Rightarrow> bool" where
  "is_shard_name name \<longleftrightarrow> length name = 2 \<and> list_all is_lower_hex name"

text \<open>
  \<open>listing\<close> is the listing of the user's directory, in the order of the operating system: uploads and shards as
  they come. The first error ends the collection.
\<close>

fun collect_names :: "pystr list \<Rightarrow> pystr list \<Rightarrow> int \<Rightarrow> pystr list \<Rightarrow> volume \<Rightarrow> volume \<times> unit res" where
  "collect_names protected expired cutoff [] vol = (vol, Inr ())"
| "collect_names protected expired cutoff (name # listing) vol =
     (case (if is_upload_name name then
              (case sweep (\<lambda>n. n = name) (\<lambda>_. Some cutoff) (vol_staging vol) of (staging, r) \<Rightarrow> (vol\<lparr>vol_staging := staging\<rparr>, r))
            else if is_shard_name name then
              (case sweep (\<lambda>d. take 2 d = name \<and> is_hex64 d \<and> d \<notin> set protected)
                      (\<lambda>d. if d \<in> set expired then None else Some cutoff) (vol_objects vol) of
                 (objects, r) \<Rightarrow> (vol\<lparr>vol_objects := objects\<rparr>, r))
            else (vol, Inr ())) of
        (vol', Inl err) \<Rightarrow> (vol', Inl err)
      | (vol', Inr _) \<Rightarrow> collect_names protected expired cutoff listing vol')"

definition collect_uncommitted ::
  "pystr list \<Rightarrow> volume \<Rightarrow> pystr list \<Rightarrow> pystr list \<Rightarrow> int \<Rightarrow> volume \<times> unit res"
where
  "collect_uncommitted listing vol protected expired cutoff =
     (if \<not> vol_exists vol then (vol, Inr ()) else collect_names protected expired cutoff listing vol)"

section \<open>Deletion\<close>

definition delete_committed :: "volume \<Rightarrow> pystr \<Rightarrow> int \<Rightarrow> volume \<times> unit res" where
  "delete_committed vol digest len =
     (case validate_digest digest of
        Inl err \<Rightarrow> (vol, Inl err)
      | Inr _ \<Rightarrow>
          if len < 0 then (vol, Inl (ValueError ''invalid deletion size''))
          else if \<not> vol_exists vol then (vol, Inr ())
          else (case map_of (vol_objects vol) digest of
              None \<Rightarrow> (vol, Inr ())
            | Some _ \<Rightarrow>
                (case open_blob vol digest of
                   Inl err \<Rightarrow> (vol, Inl err)
                 | Inr b \<Rightarrow>
                     if int (length (b_bytes b)) \<noteq> len then (vol, Inl (ValueError ''deletion object size differs''))
                     else (vol\<lparr>vol_objects := AList.delete digest (vol_objects vol)\<rparr>, Inr ()))))"

definition receipt_name :: "pystr \<Rightarrow> pystr \<Rightarrow> int \<Rightarrow> pystr" where
  "receipt_name task digest len = task @ [45] @ digest @ [45] @ py_str len"

definition receipt_completed :: "volume \<Rightarrow> pystr \<Rightarrow> bool res" where
  "receipt_completed vol name =
     (case map_of (vol_receipts vol) name of
        None \<Rightarrow> Inr False
      | Some b \<Rightarrow> if b_kind b = Symbolic_link then Inl link_refused
          else if private_file b \<and> b_bytes b = [] then Inr True
          else Inl (ValueError ''invalid content deletion receipt''))"

definition delete_with_receipt :: "int \<Rightarrow> volume \<Rightarrow> pystr \<Rightarrow> int \<Rightarrow> pystr \<Rightarrow> volume \<times> unit res" where
  "delete_with_receipt now vol digest len task =
     (case validate_digest digest of
        Inl err \<Rightarrow> (vol, Inl err)
      | Inr _ \<Rightarrow>
          if len < 0 then (vol, Inl (ValueError ''invalid deletion size''))
          else
            (let vol1 = vol\<lparr>vol_exists := True\<rparr>; receipt = receipt_name task digest len in
             case receipt_completed vol1 receipt of
               Inl err \<Rightarrow> (vol1, Inl err)
             | Inr True \<Rightarrow> (vol1, Inr ())
             | Inr False \<Rightarrow>
                 (case delete_committed vol1 digest len of
                    (vol2, Inl err) \<Rightarrow> (vol2, Inl err)
                  | (vol2, Inr _) \<Rightarrow>
                      (vol2\<lparr>vol_receipts := AList.update receipt
                         \<lparr>b_bytes = [], b_kind = Regular_file, b_owned = True, b_mode = 256, b_mtime = now\<rparr> (vol_receipts vol2)\<rparr>,
                       Inr ()))))"

section \<open>Lemmas\<close>

lemma concat_blocks_of: "0 < n \<Longrightarrow> concat (blocks_of n bs) = bs"
proof (induction n bs rule: blocks_of.induct)
  case (1 n bs)
  then show ?case by (subst blocks_of.simps) auto
qed

lemma verify_blob_iff:
  assumes "0 \<le> e_size e"
  shows "verify_blob sha e b = Inr () \<longleftrightarrow> verify_file_content sha e (b_bytes b) = Inr ()"
  using verify_stream_iff [OF assms, of sha "blocks_of block_size (b_bytes b)"] verify_file_content_iff [of sha e "b_bytes b"]
  by (simp add: verify_blob_def concat_blocks_of block_size_def)

lemma map_of_delete: "map_of (AList.delete k al) j = (if j = k then None else map_of al j)"
  by (simp add: delete_conv)

lemma map_of_unstage: "map_of (vol_staging (unstage name vol)) j = (if j = name then None else map_of (vol_staging vol) j)"
  by (simp add: unstage_def map_of_delete)

lemma publish_ok:
  assumes "publish sha vol name e = (vol', r)" "0 \<le> e_size e"
    and "map_of (vol_staging vol) name = Some staged" "verify_file_content sha e (b_bytes staged) = Inr ()"
      "b_kind staged = Regular_file" "b_owned staged"
  shows "(\<forall>j. j \<noteq> name \<longrightarrow> map_of (vol_staging vol') j = map_of (vol_staging vol) j) \<and>
    (\<forall>d. d \<noteq> e_sha256 e \<longrightarrow> map_of (vol_objects vol') d = map_of (vol_objects vol) d) \<and>
    (\<forall>b. map_of (vol_objects vol) (e_sha256 e) = Some b \<longrightarrow> map_of (vol_objects vol') (e_sha256 e) = Some b) \<and>
    (case r of Inl _ \<Rightarrow> vol_objects vol' = vol_objects vol
     | Inr created \<Rightarrow> \<exists>b. map_of (vol_objects vol') (e_sha256 e) = Some b \<and> private_file b \<and>
         verify_file_content sha e (b_bytes b) = Inr () \<and>
         (created \<longleftrightarrow> map_of (vol_objects vol) (e_sha256 e) = None) \<and> (created \<longrightarrow> b_bytes b = b_bytes staged))"
proof -
  consider (bad) "vol' = vol" "\<exists>err. r = Inl err"
    | (dup) b where "map_of (vol_objects vol) (e_sha256 e) = Some b"
        "vol' = vol\<lparr>vol_staging := AList.update name (staged\<lparr>b_mode := 256\<rparr>) (vol_staging vol)\<rparr>"
        "r = bind_res (open_blob vol (e_sha256 e)) (\<lambda>existing. bind_res (verify_blob sha e existing) (\<lambda>_. Inr False))"
    | (new) "map_of (vol_objects vol) (e_sha256 e) = None" "r = Inr True"
        "vol' = vol\<lparr>vol_staging := AList.update name (staged\<lparr>b_mode := 256\<rparr>) (vol_staging vol),
           vol_objects := AList.update (e_sha256 e) (staged\<lparr>b_mode := 256\<rparr>) (vol_objects vol)\<rparr>"
  proof (cases "validate_digest (e_sha256 e)")
    case (Inl err)
    with assms(1) show thesis by (intro bad) (auto simp: publish_def)
  next
    case (Inr u)
    show thesis
    proof (cases "map_of (vol_objects vol) (e_sha256 e)")
      case None
      with assms(1,3) Inr show thesis by (intro new) (auto simp: publish_def Let_def)
    next
      case (Some b)
      with assms(1,3) Inr show thesis by (intro dup [OF Some]) (auto simp: publish_def Let_def open_blob_def)
    qed
  qed
  then show ?thesis
  proof cases
    case bad
    then show ?thesis by auto
  next
    case dup
    have "\<exists>created. private_file b \<and> verify_file_content sha e (b_bytes b) = Inr () \<and> \<not> created" if "r = Inr c" for c
      using that dup verify_blob_iff [OF assms(2), of sha b] by (auto simp: open_blob_def split: if_splits)
    moreover have "c = False" if "r = Inr c" for c using that dup by auto
    ultimately show ?thesis using dup by (auto simp: map_of_update split: sum.split)
  next
    case new
    then show ?thesis using assms(4-6) by (auto simp: map_of_update private_file_def)
  qed
qed

lemma put_file_ok:
  assumes "put_file sha now vol name e blocks = (vol', r)" "0 \<le> e_size e"
  shows "(\<forall>j. map_of (vol_staging vol') j = map_of (vol_staging vol) j) \<and>
    (\<forall>d. d \<noteq> e_sha256 e \<longrightarrow> map_of (vol_objects vol') d = map_of (vol_objects vol) d) \<and>
    (\<forall>b. map_of (vol_objects vol) (e_sha256 e) = Some b \<longrightarrow> map_of (vol_objects vol') (e_sha256 e) = Some b) \<and>
    (case r of Inl _ \<Rightarrow> vol_objects vol' = vol_objects vol
     | Inr created \<Rightarrow> \<exists>b. map_of (vol_objects vol') (e_sha256 e) = Some b \<and> private_file b \<and>
         verify_file_content sha e (b_bytes b) = Inr () \<and>
         (created \<longleftrightarrow> map_of (vol_objects vol) (e_sha256 e) = None) \<and> (created \<longrightarrow> b_bytes b = concat blocks))"
proof -
  let ?staged = "\<lparr>b_bytes = concat blocks, b_kind = Regular_file, b_owned = True, b_mode = 384, b_mtime = now\<rparr>"
  let ?vol1 = "vol\<lparr>vol_exists := True, vol_staging := AList.update name ?staged (vol_staging vol)\<rparr>"
  show ?thesis
  proof (cases "\<exists>v. new_verifier e = Inr v \<and> name \<notin> fst ` set (vol_staging vol) \<and>
      (\<exists>u. bind_res (fold_res verifier_update v blocks) (verifier_finish sha) = Inr u)")
    case True
    then obtain v u where v: "new_verifier e = Inr v" "name \<notin> fst ` set (vol_staging vol)"
      "bind_res (fold_res verifier_update v blocks) (verifier_finish sha) = Inr u" by blast
    obtain vol2 r' where p: "publish sha ?vol1 name e = (vol2, r')" by (cases "publish sha ?vol1 name e")
    have out: "vol' = unstage name vol2" "r = r'"
      using assms(1) v p by (auto simp: put_file_def Let_def)
    have "verify_stream sha e blocks = Inr ()" using v by (simp add: verify_stream_def)
    then have ok: "verify_file_content sha e (concat blocks) = Inr ()"
      using verify_stream_iff [OF assms(2), of sha blocks] verify_file_content_iff [of sha e "concat blocks"] by blast
    have none: "map_of (vol_staging vol) name = None" using v(2) by (simp add: map_of_eq_None_iff)
    have staged: "map_of (vol_staging ?vol1) name = Some ?staged" by (simp add: map_of_update)
    have okb: "verify_file_content sha e (b_bytes ?staged) = Inr ()" using ok by simp
    from publish_ok [OF p assms(2) staged okb] show ?thesis
      unfolding out by (simp add: map_of_unstage map_of_update none unstage_def map_of_delete split: sum.splits)
  next
    case False
    have "map_of (vol_staging (unstage name ?vol1)) j = map_of (vol_staging vol) j"
      if "name \<notin> fst ` set (vol_staging vol)" for j
    proof -
      have "map_of (vol_staging vol) name = None" using that by (simp add: map_of_eq_None_iff)
      then show ?thesis by (simp add: map_of_unstage map_of_update)
    qed
    with False assms(1) show ?thesis
      by (auto simp: put_file_def Let_def unstage_def split: sum.splits if_splits prod.splits)
  qed
qed

text \<open>A sweep keeps the other files and only removes what its candidate test and deadline allow.\<close>

lemma sweep_ok:
  assumes "sweep candidate deadline al = (kept, r)" "distinct (map fst al)"
  shows "set kept \<subseteq> set al \<and> distinct (map fst kept) \<and>
    (\<forall>(name, b) \<in> set al. (name, b) \<in> set kept \<or>
       candidate name \<and> b_kind b = Regular_file \<and> b_owned b \<and>
       (case deadline name of None \<Rightarrow> True | Some cutoff \<Rightarrow> b_mtime b \<le> cutoff))"
  using assms
proof (induction al arbitrary: kept r)
  case (Cons x al)
  obtain name b where x: "x = (name, b)" by (cases x)
  obtain kept' r' where rest: "sweep candidate deadline al = (kept', r')" by (cases "sweep candidate deadline al")
  have d: "distinct (map fst al)" "name \<notin> fst ` set al" using Cons.prems(2) x by auto
  note IH = Cons.IH [OF rest d(1)]
  consider (same) "kept = x # kept'" | (stop) "kept = x # al"
    | (gone) "kept = kept'" "candidate name" "old_file b (deadline name) = Inr True"
    using Cons.prems(1) rest by (auto simp: x split: if_splits sum.splits)
  then show ?case
  proof cases
    case same
    have "name \<notin> fst ` set kept'" using IH d(2) by blast
    then show ?thesis using IH x same by auto
  next
    case stop
    then show ?thesis using Cons.prems(2) by auto
  next
    case gone
    then have "b_kind b = Regular_file \<and> b_owned b \<and> (case deadline name of None \<Rightarrow> True | Some cutoff \<Rightarrow> b_mtime b \<le> cutoff)"
      by (auto simp: old_file_def split: if_splits)
    then show ?thesis using IH x gone by auto
  qed
qed simp

text \<open>What a sweep may do to the objects.\<close>

definition spared :: "pystr list \<Rightarrow> pystr list \<Rightarrow> int \<Rightarrow> (pystr \<times> blob) list \<Rightarrow> (pystr \<times> blob) list \<Rightarrow> bool" where
  "spared protected expired cutoff al kept \<longleftrightarrow> set kept \<subseteq> set al \<and> distinct (map fst kept) \<and>
     (\<forall>(d, b) \<in> set al. (d, b) \<in> set kept \<or> d \<notin> set protected \<and> (d \<in> set expired \<or> b_mtime b \<le> cutoff))"

lemma spared_refl: "distinct (map fst al) \<Longrightarrow> spared protected expired cutoff al al"
  by (auto simp: spared_def)

lemma spared_trans: "spared p e c xs ys \<Longrightarrow> spared p e c ys zs \<Longrightarrow> spared p e c xs zs"
  unfolding spared_def by fastforce

lemma sweep_spares:
  assumes "sweep (\<lambda>d. take 2 d = name \<and> is_hex64 d \<and> d \<notin> set protected)
      (\<lambda>d. if d \<in> set expired then None else Some cutoff) al = (kept, r)" "distinct (map fst al)"
  shows "spared protected expired cutoff al kept"
  using sweep_ok [OF assms] by (fastforce simp: spared_def split: if_splits)

lemma collect_names_spares:
  assumes "collect_names protected expired cutoff listing vol = (vol', r)" "distinct (map fst (vol_objects vol))"
  shows "spared protected expired cutoff (vol_objects vol) (vol_objects vol')"
  using assms
proof (induction listing arbitrary: vol)
  case Nil
  then show ?case by (simp add: spared_refl)
next
  case (Cons name listing)
  obtain vol1 r1 where one: "(if is_upload_name name then
        (case sweep (\<lambda>n. n = name) (\<lambda>_. Some cutoff) (vol_staging vol) of (staging, r) \<Rightarrow> (vol\<lparr>vol_staging := staging\<rparr>, r))
      else if is_shard_name name then
        (case sweep (\<lambda>d. take 2 d = name \<and> is_hex64 d \<and> d \<notin> set protected)
                (\<lambda>d. if d \<in> set expired then None else Some cutoff) (vol_objects vol) of
           (objects, r) \<Rightarrow> (vol\<lparr>vol_objects := objects\<rparr>, r))
      else (vol, Inr ())) = (vol1, r1)" by fastforce
  have s: "spared protected expired cutoff (vol_objects vol) (vol_objects vol1)"
    using one sweep_spares [OF _ Cons.prems(2)] spared_refl [OF Cons.prems(2)]
    by (auto split: if_splits prod.splits)
  show ?case
  proof (cases r1)
    case (Inl err)
    with Cons.prems(1) one s show ?thesis by simp
  next
    case (Inr u)
    then have "collect_names protected expired cutoff listing vol1 = (vol', r)" using Cons.prems(1) one by simp
    moreover have "distinct (map fst (vol_objects vol1))" using s by (simp add: spared_def)
    ultimately show ?thesis using Cons.IH s spared_trans by blast
  qed
qed

lemma collect_objects:
  assumes "collect_uncommitted listing vol protected expired cutoff = (vol', r)" "distinct (map fst (vol_objects vol))"
    and "map_of (vol_objects vol) d = Some b"
  shows "map_of (vol_objects vol') d = Some b \<or>
    map_of (vol_objects vol') d = None \<and> d \<notin> set protected \<and> (d \<in> set expired \<or> b_mtime b \<le> cutoff)"
proof -
  have s: "spared protected expired cutoff (vol_objects vol) (vol_objects vol')"
    using assms(1,2) collect_names_spares spared_refl by (auto simp: collect_uncommitted_def split: if_splits)
  then have k: "distinct (map fst (vol_objects vol'))" "set (vol_objects vol') \<subseteq> set (vol_objects vol)" by (auto simp: spared_def)
  have db: "(d, b) \<in> set (vol_objects vol)" using assms(3) by (rule map_of_SomeD)
  show ?thesis
  proof (cases "(d, b) \<in> set (vol_objects vol')")
    case True
    with k show ?thesis by simp
  next
    case False
    then have "map_of (vol_objects vol') d = None"
      using k(2) assms(2,3) by (metis (no_types) map_of_SomeD map_of_is_SomeI not_None_eq option.inject subsetD)
    moreover have "d \<notin> set protected \<and> (d \<in> set expired \<or> b_mtime b \<le> cutoff)" using s db False by (force simp: spared_def)
    ultimately show ?thesis by blast
  qed
qed

lemma delete_committed_ok:
  assumes "delete_committed vol digest n = (vol', r)"
  shows "vol_receipts vol' = vol_receipts vol \<and> vol_staging vol' = vol_staging vol \<and> vol_exists vol' = vol_exists vol \<and>
    (\<forall>d. d \<noteq> digest \<longrightarrow> map_of (vol_objects vol') d = map_of (vol_objects vol) d) \<and>
    (map_of (vol_objects vol') digest = map_of (vol_objects vol) digest \<or>
     r = Inr () \<and> map_of (vol_objects vol') digest = None)"
  using assms by (auto simp: delete_committed_def map_of_delete split: sum.splits if_splits option.splits)

lemma delete_with_receipt_ok:
  assumes "delete_with_receipt now vol digest n task = (vol', Inr u)"
  shows "receipt_completed vol' (receipt_name task digest n) = Inr True \<and> is_hex64 digest \<and> 0 \<le> n \<and>
    (\<forall>d. d \<noteq> digest \<longrightarrow> map_of (vol_objects vol') d = map_of (vol_objects vol) d)"
proof -
  let ?vol1 = "vol\<lparr>vol_exists := True\<rparr>" and ?name = "receipt_name task digest n"
  obtain vol2 s where dc: "delete_committed ?vol1 digest n = (vol2, s)" by (cases "delete_committed ?vol1 digest n")
  have "validate_digest digest = Inr ()" "0 \<le> n"
    using assms by (auto simp: delete_with_receipt_def split: sum.splits if_splits)
  then have ok: "is_hex64 digest" "0 \<le> n" by (simp_all add: validate_digest_def)
  consider "receipt_completed ?vol1 ?name = Inr True" "vol' = ?vol1"
    | "vol' = vol2\<lparr>vol_receipts := AList.update ?name
         \<lparr>b_bytes = [], b_kind = Regular_file, b_owned = True, b_mode = 256, b_mtime = now\<rparr> (vol_receipts vol2)\<rparr>"
    using assms dc by (auto simp: delete_with_receipt_def Let_def split: sum.splits if_splits bool.splits prod.splits)
  then show ?thesis
  proof cases
    case 1
    then show ?thesis using ok by simp
  next
    case 2
    then show ?thesis
      using ok delete_committed_ok [OF dc] by (simp add: receipt_completed_def map_of_update private_file_def)
  qed
qed

section \<open>Properties\<close>

text \<open>
  C34. Upload is all or nothing and never overwrites: every object that was published keeps its
  bytes, a failed upload publishes nothing, the staging area is left as it was, and success means
  that the object under the declared digest is a private file whose content passes the full check.
\<close>

theorem put_file_immutable:
  assumes "put_file sha now vol name e blocks = (vol', r)" "entry_ok nfc e"
  shows "(\<forall>j. map_of (vol_staging vol') j = map_of (vol_staging vol) j) \<and>
    (\<forall>d b. map_of (vol_objects vol) d = Some b \<longrightarrow> map_of (vol_objects vol') d = Some b) \<and>
    (case r of Inl _ \<Rightarrow> \<forall>d. map_of (vol_objects vol') d = map_of (vol_objects vol) d
     | Inr created \<Rightarrow> \<exists>b. map_of (vol_objects vol') (e_sha256 e) = Some b \<and> private_file b \<and>
         verify_file_content sha e (b_bytes b) = Inr () \<and>
         (created \<longleftrightarrow> map_of (vol_objects vol) (e_sha256 e) = None) \<and> (created \<longrightarrow> b_bytes b = concat blocks))"
proof -
  note ok = put_file_ok [OF assms(1) entry_ok_size [OF assms(2)]]
  have "map_of (vol_objects vol') d = Some b" if "map_of (vol_objects vol) d = Some b" for d b
    using ok that by (cases "d = e_sha256 e") simp_all
  with ok show ?thesis by (cases r) simp_all
qed

text \<open>
  C35. Collection never removes a protected object, and removes another one only when its upload
  expired or it is older than the cutoff, in whatever order the directories are listed.
\<close>

theorem collect_keeps_protected:
  assumes "collect_uncommitted listing vol protected expired cutoff = (vol', r)" "distinct (map fst (vol_objects vol))"
    and "map_of (vol_objects vol) d = Some b"
    and "d \<in> set protected \<or> d \<notin> set expired \<and> cutoff < b_mtime b"
  shows "map_of (vol_objects vol') d = Some b"
  using collect_objects [OF assms(1-3)] assms(4) by auto

text \<open>
  A completed deletion task never deletes again: whatever happens to the volume later, as long
  as the receipt stays, a late run of the same task returns success and leaves every object alone,
  also one that was uploaded again under the same digest; and the first run touched no other object.
\<close>

theorem deletion_receipt_final:
  assumes "delete_with_receipt now vol digest n task = (vol', Inr u)"
    and "map_of (vol_receipts later) (receipt_name task digest n) = map_of (vol_receipts vol') (receipt_name task digest n)"
  shows "delete_with_receipt now' later digest n task = (later\<lparr>vol_exists := True\<rparr>, Inr ()) \<and>
    (\<forall>d. d \<noteq> digest \<longrightarrow> map_of (vol_objects vol') d = map_of (vol_objects vol) d)"
proof -
  note ok = delete_with_receipt_ok [OF assms(1)]
  have "receipt_completed (later\<lparr>vol_exists := True\<rparr>) (receipt_name task digest n) = Inr True"
    using ok assms(2) by (simp add: receipt_completed_def)
  with ok show ?thesis by (auto simp: delete_with_receipt_def validate_digest_def require_def)
qed

section \<open>Witnesses\<close>

definition o_digest :: "nat \<Rightarrow> pystr" where "o_digest n = replicate 64 (48 + n)"

definition o_blob :: "bytes \<Rightarrow> int \<Rightarrow> blob" where
  "o_blob bs mtime = \<lparr>b_bytes = bs, b_kind = Regular_file, b_owned = True, b_mode = 256, b_mtime = mtime\<rparr>"

definition o_volume :: volume where
  "o_volume = \<lparr>vol_exists = True, vol_staging = [], vol_objects = [(o_digest 1, o_blob [104] 5), (o_digest 2, o_blob [105] 50)],
     vol_receipts = []\<rparr>"

definition o_sha :: "bytes \<Rightarrow> pystr" where
  "o_sha bs = (if bs = [111] then o_digest 3 else o_digest 9)"

definition o_entry :: entry where
  "o_entry = (s_file [97] 3)\<lparr>e_size := 1\<rparr>"

lemma o_put: "put_file o_sha 60 o_volume [120] o_entry [[111]] =
  (o_volume\<lparr>vol_objects := vol_objects o_volume @ [(o_digest 3, o_blob [111] 60)]\<rparr>, Inr True)"
  by code_simp

theorem put_file_immutable_witness:
  "map_of (vol_objects (o_volume\<lparr>vol_objects := vol_objects o_volume @ [(o_digest 3, o_blob [111] 60)]\<rparr>)) (o_digest 1) =
     Some (o_blob [104] 5)"
proof -
  have "entry_ok ascii o_entry" "map_of (vol_objects o_volume) (o_digest 1) = Some (o_blob [104] 5)" by code_simp+
  with put_file_immutable [OF o_put, of ascii] show ?thesis by blast
qed

lemma o_collect: "collect_uncommitted [take 2 (o_digest 2), take 2 (o_digest 1)] o_volume [o_digest 1] [] 10 = (o_volume, Inr ())"
  by code_simp

theorem collect_keeps_protected_witness:
  "map_of (vol_objects o_volume) (o_digest 1) = Some (o_blob [104] 5)"
proof -
  have "distinct (map fst (vol_objects o_volume))" "map_of (vol_objects o_volume) (o_digest 1) = Some (o_blob [104] 5)"
    by code_simp+
  then show ?thesis by (rule collect_keeps_protected [OF o_collect]) simp
qed

definition o_deleted :: volume where
  "o_deleted = o_volume\<lparr>vol_objects := [(o_digest 2, o_blob [105] 50)],
     vol_receipts := [(receipt_name [116] (o_digest 1) 1, o_blob [] 70)]\<rparr>"

lemma o_delete: "delete_with_receipt 70 o_volume (o_digest 1) 1 [116] = (o_deleted, Inr ())"
  by code_simp

theorem deletion_receipt_final_witness:
  "delete_with_receipt 90 (o_deleted\<lparr>vol_objects := [(o_digest 1, o_blob [104] 80)]\<rparr>) (o_digest 1) 1 [116] =
    (o_deleted\<lparr>vol_objects := [(o_digest 1, o_blob [104] 80)], vol_exists := True\<rparr>, Inr ())"
  using deletion_receipt_final [OF o_delete, of "o_deleted\<lparr>vol_objects := [(o_digest 1, o_blob [104] 80)]\<rparr>" 90] by simp

end
