(* ===== verification/Metering.thy ===== *)
theory Metering
  imports Prelude Complex_Main
begin

text \<open>
  The forwarding loops of the two relays: the local and the Redis side of
  \<open>ego_browser/relay/hub.py\<close> (\<open>_forward_local\<close>, \<open>_websocket_to_redis\<close>, \<open>_redis_to_websocket\<close>) and
  \<open>_forward\<close> of \<open>device_control/relay_hub.py\<close>. All three senders meter their frames with a token
  bucket; what they promise is proved once in a locale. The floating point numbers of the code are
  real numbers here. A loop consumes the messages it receives one at a time; it is still running when
  they are used up.
\<close>

section \<open>The token bucket\<close>

record bucket =
  bk_available :: real
  bk_last :: real

definition bucket_refill :: "real \<Rightarrow> real \<Rightarrow> real \<Rightarrow> bucket \<Rightarrow> bucket" where
  "bucket_refill burst rate now b =
     \<lparr>bk_available = min burst (bk_available b + max 0 (now - bk_last b) * rate), bk_last = now\<rparr>"

definition bucket_take :: "real \<Rightarrow> real \<Rightarrow> real \<Rightarrow> nat \<Rightarrow> bucket \<Rightarrow> bucket option" where
  "bucket_take burst rate now n b =
     (let b' = bucket_refill burst rate now b in
      if real n > bk_available b' then None else Some (b'\<lparr>bk_available := bk_available b' - real n\<rparr>))"

section \<open>Messages and the end of a loop\<close>

text \<open>What \<open>receive\<close> gives: an exception, a disconnect, a frame without bytes, a binary frame.\<close>

datatype message = Receive_failed | Disconnected | Not_binary | Binary bytes

text \<open>
  One round: the message, the answer of the frame validator, the clock, and whether the frame could
  be handed on (for Redis, the number of subscribers that got it).
\<close>

record round =
  rd_message :: message
  rd_validated :: "unit res"
  rd_now :: real
  rd_sent :: bool
  rd_subscribers :: "int option"

datatype loop_end =
    Source_lost | Peer_lost
  | Close_source int | Close_both int
  | Return_code int
  | Crashed py_error

text \<open>One round either hands a frame on and goes on, or ends the loop; \<open>counted\<close> is what the final
  round added to the counters.\<close>

datatype loop_out = Handed bucket real bytes | Ended loop_end "nat option"

record forwarding =
  fw_sent :: "(real \<times> bytes) list"
  fw_frames :: nat
  fw_bytes :: nat
  fw_end :: "loop_end option"

fun run_loop :: "(bucket \<Rightarrow> 'e \<Rightarrow> loop_out) \<Rightarrow> bucket \<Rightarrow> 'e list \<Rightarrow> forwarding" where
  "run_loop step b [] = \<lparr>fw_sent = [], fw_frames = 0, fw_bytes = 0, fw_end = None\<rparr>"
| "run_loop step b (e # es) =
     (case step b e of
        Ended why counted \<Rightarrow>
          \<lparr>fw_sent = [], fw_frames = (case counted of None \<Rightarrow> 0 | Some _ \<Rightarrow> 1),
           fw_bytes = (case counted of None \<Rightarrow> 0 | Some n \<Rightarrow> n), fw_end = Some why\<rparr>
      | Handed b' t data \<Rightarrow>
          (let f = run_loop step b' es in
           f\<lparr>fw_sent := (t, data) # fw_sent f, fw_frames := Suc (fw_frames f), fw_bytes := length data + fw_bytes f\<rparr>))"

section \<open>Browser relay\<close>

record relay_limits =
  lim_frame_bytes :: int
  lim_bytes_per_second :: int

definition eb_burst :: "relay_limits \<Rightarrow> int" where
  "eb_burst cfg = max (lim_bytes_per_second cfg) (lim_frame_bytes cfg) * 2"

text \<open>The size, envelope and admission checks of one frame, then the bucket.\<close>

definition eb_forward_step :: "relay_limits \<Rightarrow> (bytes \<Rightarrow> 'v res) \<Rightarrow> bucket \<Rightarrow> round \<Rightarrow> loop_out" where
  "eb_forward_step cfg parse b r =
     (case rd_message r of
        Receive_failed \<Rightarrow> Ended Source_lost None
      | Disconnected \<Rightarrow> Ended Source_lost None
      | Not_binary \<Rightarrow> Ended (Close_both 1009) None
      | Binary data \<Rightarrow>
          if int (length data) > lim_frame_bytes cfg then Ended (Close_both 1009) None
          else (case bind_res (parse data) (\<lambda>_. rd_validated r) of
              Inl e \<Rightarrow> if is_value_error e then Ended (Close_both 1008) None else Ended (Crashed e) None
            | Inr _ \<Rightarrow>
                (case bucket_take (real_of_int (eb_burst cfg)) (real_of_int (lim_bytes_per_second cfg)) (rd_now r) (length data) b of
                   None \<Rightarrow> Ended (Close_both 1008) None
                 | Some b' \<Rightarrow> if rd_sent r then Handed b' (rd_now r) data else Ended Peer_lost (Some (length data)))))"

definition eb_forward_local :: "relay_limits \<Rightarrow> (bytes \<Rightarrow> 'v res) \<Rightarrow> real \<Rightarrow> round list \<Rightarrow> forwarding" where
  "eb_forward_local cfg parse start rounds =
     run_loop (eb_forward_step cfg parse) \<lparr>bk_available = real_of_int (eb_burst cfg), bk_last = start\<rparr> rounds"

definition eb_publish_step :: "relay_limits \<Rightarrow> (bytes \<Rightarrow> 'v res) \<Rightarrow> bucket \<Rightarrow> round \<Rightarrow> loop_out" where
  "eb_publish_step cfg parse b r =
     (case rd_message r of
        Receive_failed \<Rightarrow> Ended (Return_code 1011) None
      | Disconnected \<Rightarrow> Ended (Return_code 1011) None
      | Not_binary \<Rightarrow> Ended (Return_code 1009) None
      | Binary data \<Rightarrow>
          if int (length data) > lim_frame_bytes cfg then Ended (Return_code 1009) None
          else (case bind_res (parse data) (\<lambda>_. rd_validated r) of
              Inl e \<Rightarrow> if is_value_error e then Ended (Return_code 1008) None else Ended (Crashed e) None
            | Inr _ \<Rightarrow>
                (case bucket_take (real_of_int (eb_burst cfg)) (real_of_int (lim_bytes_per_second cfg)) (rd_now r) (length data) b of
                   None \<Rightarrow> Ended (Return_code 1008) None
                 | Some b' \<Rightarrow>
                     (case rd_subscribers r of
                        None \<Rightarrow> Ended (Return_code 1011) (Some (length data))
                      | Some n \<Rightarrow> if n < 1 then Ended (Return_code 1011) (Some (length data))
                                  else Handed b' (rd_now r) data))))"

definition eb_websocket_to_redis :: "relay_limits \<Rightarrow> (bytes \<Rightarrow> 'v res) \<Rightarrow> real \<Rightarrow> round list \<Rightarrow> forwarding" where
  "eb_websocket_to_redis cfg parse start rounds =
     run_loop (eb_publish_step cfg parse) \<lparr>bk_available = real_of_int (eb_burst cfg), bk_last = start\<rparr> rounds"

text \<open>The packets on an endpoint's channel: a frame, or the close code of the peer.\<close>

datatype channel_message = No_message | Other_type | Bad_payload | Payload bytes

definition frame_packet :: "bytes \<Rightarrow> bytes" where "frame_packet data = 1 # data"

definition close_packet :: "int \<Rightarrow> bytes" where
  "close_packet code = [2, nat (code div 256), nat (code mod 256)]"

fun eb_redis_to_websocket :: "relay_limits \<Rightarrow> (channel_message \<times> bool) list \<Rightarrow> bytes list \<times> int option" where
  "eb_redis_to_websocket cfg [] = ([], None)"
| "eb_redis_to_websocket cfg ((m, sent) # ms) =
     (case m of
        No_message \<Rightarrow> eb_redis_to_websocket cfg ms
      | Other_type \<Rightarrow> eb_redis_to_websocket cfg ms
      | Bad_payload \<Rightarrow> ([], Some 1011)
      | Payload payload \<Rightarrow>
          if starts_with payload [1] then
            (let frame = drop 1 payload in
             if frame = [] \<or> int (length frame) > lim_frame_bytes cfg then ([], Some 1011)
             else if \<not> sent then ([], Some 1011)
             else (let (out, code) = eb_redis_to_websocket cfg ms in (frame # out, code)))
          else if starts_with payload [2] \<and> length payload = 3 then
            (let code = int (payload ! 1) * 256 + int (payload ! 2) in
             ([], Some (if 1000 \<le> code \<and> code \<le> 4999 then code else 1011)))
          else ([], Some 1011))"

text \<open>The close code of a served connection: of the tasks that are done, the gravest.\<close>

definition eb_served_code :: "bool \<Rightarrow> int \<Rightarrow> int list \<Rightarrow> int" where
  "eb_served_code shut endpoint_code done_codes =
     (if done_codes = [] then 1008
      else if shut then endpoint_code
      else if 1009 \<in> set done_codes then 1009
      else if 1008 \<in> set done_codes then 1008
      else if 1011 \<in> set done_codes then 1011
      else hd done_codes)"

definition eb_close_status :: "int \<Rightarrow> string" where
  "eb_close_status code =
     (if code = 1000 then ''completed'' else if code = 1008 then ''rejected''
      else if code = 1009 then ''frame_limit'' else ''transport_error'')"

section \<open>Device relay\<close>

definition dr_burst_seconds :: int where "dr_burst_seconds = 2"

definition dr_forward_step :: "relay_limits \<Rightarrow> bucket \<Rightarrow> round \<Rightarrow> loop_out" where
  "dr_forward_step cfg b r =
     (case rd_message r of
        Receive_failed \<Rightarrow> Ended Source_lost None
      | Disconnected \<Rightarrow> Ended Source_lost None
      | Not_binary \<Rightarrow> Ended (Close_source 1003) None
      | Binary data \<Rightarrow>
          if int (length data) > lim_frame_bytes cfg then Ended (Close_both 1009) None
          else (case bucket_take (real_of_int (lim_bytes_per_second cfg * dr_burst_seconds)) (real_of_int (lim_bytes_per_second cfg))
                  (rd_now r) (length data) b of
              None \<Rightarrow> Ended (Close_both 1008) None
            | Some b' \<Rightarrow> if rd_sent r then Handed b' (rd_now r) data else Ended Peer_lost (Some (length data))))"

definition dr_forward :: "relay_limits \<Rightarrow> real \<Rightarrow> round list \<Rightarrow> forwarding" where
  "dr_forward cfg start rounds =
     run_loop (dr_forward_step cfg)
       \<lparr>bk_available = real_of_int (lim_bytes_per_second cfg * dr_burst_seconds), bk_last = start\<rparr> rounds"

section \<open>What a metered loop promises\<close>

text \<open>The frames that were handed on within a window of the run.\<close>

definition sent_bytes :: "(real \<times> bytes) list \<Rightarrow> nat" where
  "sent_bytes fs = sum_list (map (length \<circ> snd) fs)"

lemma sent_bytes_simps [simp]: "sent_bytes [] = 0" "sent_bytes (f # fs) = length (snd f) + sent_bytes fs"
  by (simp_all add: sent_bytes_def)

fun metered :: "real \<Rightarrow> real \<Rightarrow> bucket \<Rightarrow> (real \<times> bytes) list \<Rightarrow> bool" where
  "metered burst rate b [] \<longleftrightarrow> True"
| "metered burst rate b ((t, data) # fs) \<longleftrightarrow>
     (case bucket_take burst rate t (length data) b of None \<Rightarrow> False | Some b' \<Rightarrow> metered burst rate b' fs)"

lemma bucket_take_SomeD:
  assumes "bucket_take burst rate t n b = Some b'" "0 \<le> rate"
  shows "bk_last b' = t" "bk_available b' \<le> burst - real n" "0 \<le> bk_available b'"
    "bk_last b \<le> t \<Longrightarrow> bk_available b' + real n \<le> bk_available b + (t - bk_last b) * rate"
  using assms by (auto simp: bucket_take_def bucket_refill_def Let_def split: if_splits)

lemma metered_append: "metered burst rate b (fs @ gs) \<Longrightarrow> \<exists>b'. metered burst rate b' gs"
  by (induction fs arbitrary: b) (auto split: option.splits)

lemma metered_prefix: "metered burst rate b (fs @ gs) \<Longrightarrow> metered burst rate b fs"
  by (induction fs arbitrary: b) (auto split: option.splits)

lemma metered_total:
  assumes "metered burst rate b fs" "0 \<le> rate" "sorted (bk_last b # map fst fs)" "0 \<le> bk_available b"
  shows "real (sent_bytes fs) \<le> bk_available b + (last (bk_last b # map fst fs) - bk_last b) * rate"
  using assms
proof (induction fs arbitrary: b)
  case (Cons f fs)
  obtain t data where f: "f = (t, data)" by (cases f)
  obtain b' where b': "bucket_take burst rate t (length data) b = Some b'" "metered burst rate b' fs"
    using Cons.prems(1) f by (auto split: option.splits)
  note take = bucket_take_SomeD [OF b'(1) Cons.prems(2)]
  have "real (sent_bytes fs) \<le> bk_available b' + (last (t # map fst fs) - t) * rate"
    using Cons.IH [OF b'(2) Cons.prems(2)] Cons.prems(3) f take(1,3) by simp
  moreover have "bk_available b' + real (length data) \<le> bk_available b + (t - bk_last b) * rate"
    using take(4) Cons.prems(3) f by simp
  ultimately show ?case using f by (simp add: algebra_simps)
qed simp

lemma metered_window:
  assumes "metered burst rate b (f # fs)" "0 \<le> rate" "sorted (map fst (f # fs))"
  shows "real (sent_bytes (f # fs)) \<le> burst + (fst (last (f # fs)) - fst f) * rate"
proof -
  obtain t data where f: "f = (t, data)" by (cases f)
  obtain b' where b': "bucket_take burst rate t (length data) b = Some b'" "metered burst rate b' fs"
    using assms(1) f by (auto split: option.splits)
  note take = bucket_take_SomeD [OF b'(1) assms(2)]
  have "real (sent_bytes fs) \<le> bk_available b' + (last (t # map fst fs) - t) * rate"
    using metered_total [OF b'(2) assms(2)] assms(3) f take(1,3) by simp
  moreover have "last (t # map fst fs) = fst (last (f # fs))" using f by (simp add: last_map)
  ultimately show ?thesis using take(2) f by (simp add: algebra_simps)
qed

locale metered_loop =
  fixes step :: "bucket \<Rightarrow> 'e \<Rightarrow> loop_out" and burst rate frame_limit :: int
    and payload :: "'e \<Rightarrow> (real \<times> bytes) option" and admits :: "bytes \<Rightarrow> bool"
  assumes step_takes: "step b e = Handed b' t data \<Longrightarrow>
      bucket_take (real_of_int burst) (real_of_int rate) t (length data) b = Some b'"
    and step_payload: "step b e = Handed b' t data \<Longrightarrow> payload e = Some (t, data)"
    and step_limit: "step b e = Handed b' t data \<Longrightarrow> int (length data) \<le> frame_limit"
    and step_admits: "step b e = Handed b' t data \<Longrightarrow> admits data"
begin

lemma run_metered: "metered (real_of_int burst) (real_of_int rate) b (fw_sent (run_loop step b es))"
  by (induction es arbitrary: b) (auto simp: Let_def step_takes split: loop_out.split)

lemma run_prefix: "map Some (fw_sent (run_loop step b es)) = take (length (fw_sent (run_loop step b es))) (map payload es)"
  by (induction es arbitrary: b) (auto simp: Let_def step_payload split: loop_out.split)

lemma run_limit: "f \<in> set (fw_sent (run_loop step b es)) \<Longrightarrow> int (length (snd f)) \<le> frame_limit"
  by (induction es arbitrary: b) (auto simp: Let_def step_limit split: loop_out.splits)

lemma run_admits: "f \<in> set (fw_sent (run_loop step b es)) \<Longrightarrow> admits (snd f)"
  by (induction es arbitrary: b) (auto simp: Let_def step_admits split: loop_out.splits)

lemma run_counts:
  "fw_end (run_loop step b es) = None \<Longrightarrow>
    fw_frames (run_loop step b es) = length (fw_sent (run_loop step b es)) \<and>
    fw_bytes (run_loop step b es) = sent_bytes (fw_sent (run_loop step b es)) \<and>
    length (fw_sent (run_loop step b es)) = length es"
  by (induction es arbitrary: b) (auto simp: Let_def split: loop_out.splits)

lemma window_bound:
  assumes "0 \<le> rate" "fw_sent (run_loop step b es) = before @ w @ after" "w \<noteq> []"
    "sorted (map fst (fw_sent (run_loop step b es)))"
  shows "real (sent_bytes w) \<le> real_of_int burst + (fst (last w) - fst (hd w)) * real_of_int rate"
proof -
  obtain b' where "metered (real_of_int burst) (real_of_int rate) b' (w @ after)"
    using run_metered [of b es] metered_append assms(2) by metis
  then have "metered (real_of_int burst) (real_of_int rate) b' (hd w # tl w)"
    using metered_prefix assms(3) by fastforce
  moreover have "sorted (map fst (hd w # tl w))"
    using assms(2,3,4) by (simp add: sorted_append)
  ultimately show ?thesis using metered_window [of "real_of_int burst" "real_of_int rate" b' "hd w" "tl w"] assms(1,3) by simp
qed

end

definition round_payload :: "round \<Rightarrow> (real \<times> bytes) option" where
  "round_payload r = (case rd_message r of Binary data \<Rightarrow> Some (rd_now r, data) | _ \<Rightarrow> None)"

interpretation eb_local: metered_loop "eb_forward_step cfg parse" "eb_burst cfg" "lim_bytes_per_second cfg"
  "lim_frame_bytes cfg" round_payload "\<lambda>data. \<exists>v. parse data = Inr v" for cfg parse
  by unfold_locales (auto simp: eb_forward_step_def round_payload_def
    split: message.splits if_splits sum.splits option.splits)

interpretation eb_redis: metered_loop "eb_publish_step cfg parse" "eb_burst cfg" "lim_bytes_per_second cfg"
  "lim_frame_bytes cfg" round_payload "\<lambda>data. \<exists>v. parse data = Inr v" for cfg parse
  by unfold_locales (auto simp: eb_publish_step_def round_payload_def
    split: message.splits if_splits sum.splits option.splits)

interpretation dr_loop: metered_loop "dr_forward_step cfg" "lim_bytes_per_second cfg * dr_burst_seconds"
  "lim_bytes_per_second cfg" "lim_frame_bytes cfg" round_payload "\<lambda>_. True" for cfg
  by unfold_locales (auto simp: dr_forward_step_def round_payload_def
    split: message.splits if_splits sum.splits option.splits)

section \<open>Properties\<close>

text \<open>
  C33. Rate: whatever arrives, the bytes handed on by a relay in any window of its run are at most the
  burst and the rate times the length of the window, for the local and the Redis side of the browser
  relay and for the device relay (with a clock that does not go back).
\<close>

theorem relay_rate_bounded:
  assumes "0 \<le> lim_bytes_per_second cfg" "w \<noteq> []" "sorted (map fst (before @ w @ after))"
    and "fw_sent run = before @ w @ after"
    and "run \<in> {eb_forward_local cfg parse start rounds, eb_websocket_to_redis cfg parse start rounds} \<and> burst = eb_burst cfg \<or>
      run = dr_forward cfg start rounds \<and> burst = lim_bytes_per_second cfg * dr_burst_seconds"
  shows "real (sent_bytes w) \<le> real_of_int burst + (fst (last w) - fst (hd w)) * real_of_int (lim_bytes_per_second cfg)"
  using eb_local.window_bound [OF assms(1) _ assms(2), of parse _ rounds before after]
    eb_redis.window_bound [OF assms(1) _ assms(2), of parse _ rounds before after]
    dr_loop.window_bound [OF assms(1) _ assms(2), of _ rounds before after] assms(3-5)
  by (auto simp: eb_forward_local_def eb_websocket_to_redis_def dr_forward_def)

text \<open>
  Delivery across two workers: what one worker publishes for its end of the relay, the worker of
  the other end hands to its socket unchanged and in order, then closes with the same code; and what
  is published is the leading part of what arrived.
\<close>

theorem distributed_delivery:
  assumes "\<And>v. parse [] \<noteq> Inr v" "1000 \<le> code" "code \<le> 4999"
    and "sent = fw_sent (eb_websocket_to_redis cfg parse start rounds)"
  shows "eb_redis_to_websocket cfg (map (\<lambda>f. (Payload (frame_packet (snd f)), True)) sent @ [(Payload (close_packet code), True)]) =
      (map snd sent, Some code) \<and>
    map Some sent = take (length sent) (map round_payload rounds)"
proof -
  have frames: "snd f \<noteq> [] \<and> int (length (snd f)) \<le> lim_frame_bytes cfg" if "f \<in> set sent" for f
    using eb_redis.run_admits [of f cfg parse] eb_redis.run_limit [of f cfg parse] that assms(1,4)
    by (fastforce simp: eb_websocket_to_redis_def)
  have "nat (code div 256) * 256 + nat (code mod 256) = nat code"
    using assms(2) by (simp add: nat_add_distrib [symmetric] nat_mult_distrib [symmetric] flip: nat_numeral) 
  then have close: "int (nat (code div 256)) * 256 + int (nat (code mod 256)) = code"
    using assms(2) by simp
  have "eb_redis_to_websocket cfg (map (\<lambda>f. (Payload (frame_packet (snd f)), True)) fs @ [(Payload (close_packet code), True)]) =
      (map snd fs, Some code)" if "set fs \<subseteq> set sent" for fs
    using that
  proof (induction fs)
    case Nil
    then show ?case using assms(2,3) close by (simp add: close_packet_def starts_with_def)
  next
    case (Cons f fs)
    then show ?case using frames [of f] by (simp add: frame_packet_def starts_with_def Let_def)
  qed
  then show ?thesis
    using eb_redis.run_prefix [of cfg parse _ rounds] assms(4) by (simp add: eb_websocket_to_redis_def)
qed

section \<open>Witnesses\<close>

definition mt_limits :: relay_limits where "mt_limits = \<lparr>lim_frame_bytes = 4, lim_bytes_per_second = 3\<rparr>"

definition mt_round :: "real \<Rightarrow> bytes \<Rightarrow> round" where
  "mt_round t data = \<lparr>rd_message = Binary data, rd_validated = Inr (), rd_now = t, rd_sent = True, rd_subscribers = Some 1\<rparr>"

definition mt_parse :: "bytes \<Rightarrow> unit res" where
  "mt_parse data = require (data \<noteq> []) (ValueError ''invalid_outer_json'')"

definition mt_rounds :: "round list" where
  "mt_rounds = [mt_round 0 [1, 2, 3, 4], mt_round 1 [5, 6, 7], mt_round 1 [8, 9, 1, 2], mt_round 1 [3, 3]]"

lemmas mt_defs = mt_rounds_def mt_round_def mt_parse_def mt_limits_def eb_burst_def dr_burst_seconds_def
  bucket_take_def bucket_refill_def

lemma mt_sent_device: "fw_sent (dr_forward mt_limits 0 mt_rounds) = [(0, [1, 2, 3, 4]), (1, [5, 6, 7])]"
  by (simp add: dr_forward_def dr_forward_step_def mt_defs)

theorem relay_rate_bounded_witness:
  "real (sent_bytes [(0 :: real, [1, 2, 3, 4]), (1, [5, 6, 7])]) \<le> 6 + (1 - 0) * 3"
  using relay_rate_bounded [of mt_limits "[(0, [1, 2, 3, 4]), (1, [5, 6, 7])]" "[]" "[]"
      "dr_forward mt_limits 0 mt_rounds" mt_parse 0 mt_rounds 6]
  by (simp add: mt_sent_device mt_limits_def dr_burst_seconds_def)

lemma mt_sent_redis:
  "fw_sent (eb_websocket_to_redis mt_limits mt_parse 0 mt_rounds) =
     [(0, [1, 2, 3, 4]), (1, [5, 6, 7]), (1, [8, 9, 1, 2])]"
  by (simp add: eb_websocket_to_redis_def eb_publish_step_def mt_defs require_def)

theorem distributed_delivery_witness:
  "eb_redis_to_websocket mt_limits
     [(Payload [1, 1, 2, 3, 4], True), (Payload [1, 5, 6, 7], True), (Payload [1, 8, 9, 1, 2], True), (Payload [2, 3, 240], True)] =
   ([[1, 2, 3, 4], [5, 6, 7], [8, 9, 1, 2]], Some 1008)"
  using distributed_delivery [of mt_parse 1008 _ mt_limits 0 mt_rounds, OF _ _ _ refl]
  by (simp add: mt_sent_redis mt_parse_def frame_packet_def close_packet_def)

end
