(* ===== verification/One_Time.thy ===== *)
theory One_Time
  imports Prelude "HOL-Library.Sublist"
begin

text \<open>
  The interface of the short-lived one-time stores (the relay tickets and proof challenges of
  \<open>ego_browser/relay/store.py\<close>, the tickets of \<open>device_control/relay_store.py\<close>, the tokens of
  \<open>port_forwarding/tokens.py\<close>): a value is stored under a token hash for some seconds and can be
  taken out once. The laws are assumed in a locale; each store discharges them for its own code.

  Time is a number of microseconds. The several clock reads of one locked step are one instant.
\<close>

type_synonym uuid = nat
type_synonym time = int

definition seconds :: "int \<Rightarrow> time" where
  "seconds n = n * 1000000"

text \<open>\<open>dict.pop(key, None)\<close>\<close>

definition dict_pop :: "'k \<Rightarrow> ('k \<times> 'v) list \<Rightarrow> ('k \<times> 'v) list \<times> 'v option" where
  "dict_pop k al = (AList.delete k al, map_of al k)"

lemma dict_pop_simps: "map_of (fst (dict_pop k al)) = (map_of al)(k := None)" "snd (dict_pop k al) = map_of al k"
  by (auto simp: dict_pop_def delete_conv)

section \<open>Runs of a store\<close>

datatype 'c token_op = Issue pystr 'c int | Consume pystr

datatype 'c token_event =
    Issued_event pystr 'c time
  | Consumed_event pystr 'c time
  | No_event

text \<open>Every operation carries the time at which it runs; an event records what became of it.\<close>

fun token_step ::
  "(time \<Rightarrow> 's \<Rightarrow> pystr \<Rightarrow> 'c \<Rightarrow> int \<Rightarrow> 's res) \<Rightarrow> (time \<Rightarrow> 's \<Rightarrow> pystr \<Rightarrow> 's \<times> 'c option) \<Rightarrow>
   's \<Rightarrow> time \<times> 'c token_op \<Rightarrow> 's \<times> 'c token_event"
where
  "token_step issue consume s (now, Issue h c ttl) =
     (case issue now s h c ttl of Inl _ \<Rightarrow> (s, No_event) | Inr s' \<Rightarrow> (s', Issued_event h c (now + seconds ttl)))"
| "token_step issue consume s (now, Consume h) =
     (case consume now s h of (s', None) \<Rightarrow> (s', No_event) | (s', Some c) \<Rightarrow> (s', Consumed_event h c now))"

fun token_run ::
  "(time \<Rightarrow> 's \<Rightarrow> pystr \<Rightarrow> 'c \<Rightarrow> int \<Rightarrow> 's res) \<Rightarrow> (time \<Rightarrow> 's \<Rightarrow> pystr \<Rightarrow> 's \<times> 'c option) \<Rightarrow>
   's \<Rightarrow> (time \<times> 'c token_op) list \<Rightarrow> 's \<times> 'c token_event list"
where
  "token_run issue consume s [] = (s, [])"
| "token_run issue consume s (op # ops) =
     (let (s', ev) = token_step issue consume s op; (s'', evs) = token_run issue consume s' ops in (s'', ev # evs))"

text \<open>What was issued and taken out under one hash, in order.\<close>

fun issued_of :: "pystr \<Rightarrow> 'c token_event list \<Rightarrow> ('c \<times> time) list" where
  "issued_of h [] = []"
| "issued_of h (Issued_event k c e # evs) = (if k = h then (c, e) # issued_of h evs else issued_of h evs)"
| "issued_of h (_ # evs) = issued_of h evs"

fun consumed_of :: "pystr \<Rightarrow> 'c token_event list \<Rightarrow> ('c \<times> time) list" where
  "consumed_of h [] = []"
| "consumed_of h (Consumed_event k c t # evs) = (if k = h then (c, t) # consumed_of h evs else consumed_of h evs)"
| "consumed_of h (_ # evs) = consumed_of h evs"

text \<open>A consumption answers an issue of the same claims before their expiry.\<close>

definition answers :: "'c \<times> time \<Rightarrow> 'c \<times> time \<Rightarrow> bool" where
  "answers x y \<longleftrightarrow> fst x = fst y \<and> snd x < snd y"

section \<open>The interface\<close>

locale one_time_store =
  fixes issue :: "time \<Rightarrow> 's \<Rightarrow> pystr \<Rightarrow> 'c \<Rightarrow> int \<Rightarrow> 's res"
    and consume :: "time \<Rightarrow> 's \<Rightarrow> pystr \<Rightarrow> 's \<times> 'c option"
    and holds :: "'s \<Rightarrow> (pystr \<rightharpoonup> 'c \<times> time)"
  assumes issue_holds: "issue now s h c ttl = Inr s' \<Longrightarrow> holds s' = (holds s)(h \<mapsto> (c, now + seconds ttl))"
    and issue_live: "holds s h = Some (c', e) \<Longrightarrow> now < e \<Longrightarrow> \<exists>err. issue now s h c ttl = Inl err"
    and issue_free: "holds s h = None \<Longrightarrow> \<exists>s'. issue now s h c ttl = Inr s'"
    and consume_holds: "consume now s h = (s', r) \<Longrightarrow>
      holds s' = (holds s)(h := None) \<and>
      r = (case holds s h of None \<Rightarrow> None | Some (c, e) \<Rightarrow> if now < e then Some c else None)"
begin

lemma single_use:
  assumes "token_run issue consume s ops = (s', evs)"
  shows "list_emb answers (consumed_of h evs) ((case holds s h of None \<Rightarrow> [] | Some x \<Rightarrow> [x]) @ issued_of h evs)"
  using assms
proof (induction ops arbitrary: s evs)
  case (Cons op ops)
  obtain s1 ev where st: "token_step issue consume s op = (s1, ev)" by (cases "token_step issue consume s op")
  obtain evs' where rest: "token_run issue consume s1 ops = (s', evs')" and evs: "evs = ev # evs'"
    using Cons.prems st by (auto split: prod.splits)
  note IH = Cons.IH [OF rest]
  obtain now act where op: "op = (now, act)" by (cases op)
  show ?case
  proof (cases act)
    case (Issue k c ttl)
    show ?thesis
    proof (cases "issue now s k c ttl")
      case (Inl e)
      with st op Issue have "s1 = s" "ev = No_event" by auto
      with IH evs show ?thesis by simp
    next
      case (Inr s2)
      with st op Issue have s1: "s1 = s2" "ev = Issued_event k c (now + seconds ttl)" by auto
      have "holds s1 = (holds s)(k \<mapsto> (c, now + seconds ttl))" using issue_holds [OF Inr] s1 by simp
      with IH s1 evs show ?thesis by (cases "k = h") (auto intro: list_emb_append2 split: option.splits)
    qed
  next
    case (Consume k)
    obtain r where c: "consume now s k = (s1, r)"
      using st op Consume by (auto split: prod.splits option.splits)
    note h = consume_holds [OF c]
    show ?thesis
    proof (cases "k = h")
      case False
      with h have "holds s1 h = holds s h" by simp
      moreover have "consumed_of h evs = consumed_of h evs'" "issued_of h evs = issued_of h evs'"
        using st op Consume c False evs by (auto split: option.splits)
      ultimately show ?thesis using IH by simp
    next
      case True
      with h have n: "holds s1 h = None" by simp
      show ?thesis
      proof (cases r)
        case None
        then have "ev = No_event" using st op Consume c by simp
        with IH n evs show ?thesis by (auto split: option.split)
      next
        case (Some x)
        then have ev: "ev = Consumed_event h x now" using st op Consume c True by simp
        from h Some True obtain e where "holds s h = Some (x, e)" "now < e"
          by (auto split: option.splits if_splits)
        with IH n ev evs show ?thesis by (auto simp: answers_def)
      qed
    qed
  qed
qed auto

lemma issue_consume:
  assumes "issue now s h c ttl = Inr s'" "later < now + seconds ttl"
  shows "snd (consume later s' h) = Some c" "snd (consume again (fst (consume later s' h)) h) = None"
proof -
  obtain s2 r where c: "consume later s' h = (s2, r)" by (cases "consume later s' h")
  obtain s3 r' where c': "consume again s2 h = (s3, r')" by (cases "consume again s2 h")
  show "snd (consume later s' h) = Some c" "snd (consume again (fst (consume later s' h)) h) = None"
    using consume_holds [OF c] consume_holds [OF c'] issue_holds [OF assms(1)] assms(2) c c' by auto
qed

end

text \<open>A store that keeps an expired value in the way of a new one until it is taken out.\<close>

locale refusing_store = one_time_store +
  assumes issue_taken: "holds s h = Some x \<Longrightarrow> \<exists>err. issue now s h c ttl = Inl err"
begin

lemma issue_iff: "(\<exists>s'. issue now s h c ttl = Inr s') \<longleftrightarrow> holds s h = None"
proof (cases "holds s h")
  case None
  then show ?thesis using issue_free by blast
next
  case (Some x)
  with issue_taken [OF Some, of now c ttl] show ?thesis by auto
qed

end

end
