(* ===== verification/Stores.thy ===== *)
theory Stores
  imports One_Time
begin

text \<open>
  The in-process stores of short-lived state: the relay tickets and proof challenges of the browser
  relay (\<open>ego_browser/relay/store.py\<close>), the tickets and the key exchange of the device relay
  (\<open>device_control/relay_store.py\<close>) and the tokens and rate counters of port forwarding
  (\<open>port_forwarding/tokens.py\<close>). Every operation holds the store's lock, so it is one step; the
  Redis stores call an external service and are not modelled.
\<close>

section \<open>Browser relay store\<close>

datatype relay_kind = Device_control | Ego_browser

record relay_binding =
  rb_kind :: relay_kind
  rb_binding_id :: uuid
  rb_generation :: int

record eb_binding =
  eb_user_id :: uuid
  eb_device_id :: uuid
  eb_tool_session_id :: uuid
  eb_binding_id :: uuid
  eb_node_id :: uuid
  eb_generation :: int

definition eb_relay_binding :: "eb_binding \<Rightarrow> relay_binding" where
  "eb_relay_binding b = \<lparr>rb_kind = Ego_browser, rb_binding_id = eb_binding_id b, rb_generation = eb_generation b\<rparr>"

datatype eb_role = Bridge | Wrapper

record eb_claims =
  ec_binding :: eb_binding
  ec_role :: eb_role

record proof_claims =
  pc_user_id :: uuid
  pc_device_id :: uuid
  pc_operation :: pystr
  pc_generation :: int
  pc_binding_id :: "uuid option"

record eb_ticket =
  et_claims :: eb_claims
  et_expires_at :: time

record eb_challenge =
  ep_claims :: proof_claims
  ep_expires_at :: time

record eb_store =
  eb_tickets :: "(pystr \<times> eb_ticket) list"
  eb_challenges :: "(pystr \<times> eb_challenge) list"

definition eb_new_store :: eb_store where "eb_new_store = \<lparr>eb_tickets = [], eb_challenges = []\<rparr>"

definition eb_issue_ticket :: "time \<Rightarrow> eb_store \<Rightarrow> pystr \<Rightarrow> eb_claims \<Rightarrow> int \<Rightarrow> eb_store res" where
  "eb_issue_ticket now s token_hash claims ttl =
     (if \<exists>t. map_of (eb_tickets s) token_hash = Some t \<and> now < et_expires_at t
      then Inl (RuntimeError ''ego-browser relay ticket collision'')
      else Inr (s\<lparr>eb_tickets := AList.update token_hash
             \<lparr>et_claims = claims, et_expires_at = now + seconds ttl\<rparr> (eb_tickets s)\<rparr>))"

definition eb_consume_ticket :: "time \<Rightarrow> eb_store \<Rightarrow> pystr \<Rightarrow> eb_store \<times> eb_claims option" where
  "eb_consume_ticket now s token_hash =
     (case dict_pop token_hash (eb_tickets s) of (tickets, ticket) \<Rightarrow>
        (s\<lparr>eb_tickets := tickets\<rparr>,
         case ticket of None \<Rightarrow> None | Some t \<Rightarrow> if et_expires_at t \<le> now then None else Some (et_claims t)))"

definition eb_issue_challenge :: "time \<Rightarrow> eb_store \<Rightarrow> pystr \<Rightarrow> proof_claims \<Rightarrow> int \<Rightarrow> eb_store res" where
  "eb_issue_challenge now s token_hash claims ttl =
     (if \<exists>t. map_of (eb_challenges s) token_hash = Some t \<and> now < ep_expires_at t
      then Inl (RuntimeError ''ego-browser proof challenge collision'')
      else Inr (s\<lparr>eb_challenges := AList.update token_hash
             \<lparr>ep_claims = claims, ep_expires_at = now + seconds ttl\<rparr> (eb_challenges s)\<rparr>))"

definition eb_consume_challenge :: "time \<Rightarrow> eb_store \<Rightarrow> pystr \<Rightarrow> eb_store \<times> proof_claims option" where
  "eb_consume_challenge now s token_hash =
     (case dict_pop token_hash (eb_challenges s) of (challenges, challenge) \<Rightarrow>
        (s\<lparr>eb_challenges := challenges\<rparr>,
         case challenge of None \<Rightarrow> None | Some t \<Rightarrow> if ep_expires_at t \<le> now then None else Some (ep_claims t)))"

definition eb_close :: "eb_store \<Rightarrow> eb_store" where
  "eb_close s = s\<lparr>eb_tickets := [], eb_challenges := []\<rparr>"

section \<open>Device relay store\<close>

record dr_binding =
  db_user_id :: uuid
  db_device_id :: uuid
  db_tool_session_id :: uuid
  db_device_session_id :: uuid
  db_node_id :: uuid
  db_generation :: int

definition dr_relay_binding :: "dr_binding \<Rightarrow> relay_binding" where
  "dr_relay_binding b =
     \<lparr>rb_kind = Device_control, rb_binding_id = db_device_session_id b, rb_generation = db_generation b\<rparr>"

datatype dr_role = Device | Proxy

record dr_claims =
  dc_binding :: dr_binding
  dc_role :: dr_role
  dc_credential_id :: "uuid option"

text \<open>\<open>DeviceRelayExchangeResult\<close>: the pin and the secret are there exactly for \<open>ready\<close>.\<close>

datatype dr_result = Waiting | Ready pystr pystr | Already_issued

text \<open>The tuple of pins, exporter context, issued roles and expiry kept for one binding.\<close>

record dr_exchange =
  dx_pins :: "(dr_role \<times> pystr) list"
  dx_secret :: pystr
  dx_issued :: "dr_role list"
  dx_expires_at :: time

record dr_store =
  dr_exchanges :: "(relay_binding \<times> dr_exchange) list"
  dr_tickets :: "(pystr \<times> dr_claims \<times> time) list"

definition dr_new_store :: dr_store where "dr_new_store = \<lparr>dr_exchanges = [], dr_tickets = []\<rparr>"

definition dr_peer :: "dr_role \<Rightarrow> dr_role" where
  "dr_peer role = (if role = Device then Proxy else Device)"

text \<open>The entry a call works on: the stored one, or a fresh one when there is none or it expired.\<close>

definition dr_current :: "time \<Rightarrow> dr_store \<Rightarrow> relay_binding \<Rightarrow> pystr \<Rightarrow> int \<Rightarrow> dr_exchange" where
  "dr_current now s key exporter_context ttl =
     (let fresh = \<lparr>dx_pins = [], dx_secret = exporter_context, dx_issued = [], dx_expires_at = now + seconds ttl\<rparr>;
          x = (case map_of (dr_exchanges s) key of None \<Rightarrow> fresh | Some x \<Rightarrow> x) in
      if dx_expires_at x \<le> now then fresh else x)"

definition dr_exchange_step ::
  "time \<Rightarrow> dr_store \<Rightarrow> dr_binding \<Rightarrow> dr_role \<Rightarrow> pystr \<Rightarrow> pystr \<Rightarrow> int \<Rightarrow> dr_store \<times> dr_result res"
where
  "dr_exchange_step now s binding role spki exporter_context ttl =
     (let key = dr_relay_binding binding; x = dr_current now s key exporter_context ttl;
          existing = map_of (dx_pins x) role in
      if existing \<noteq> None \<and> existing \<noteq> Some spki
      then (s, Inl (ValueError ''device relay SPKI changed within a generation''))
      else
        (let x1 = x\<lparr>dx_pins := AList.update role spki (dx_pins x)\<rparr>;
             store = (\<lambda>y. s\<lparr>dr_exchanges := AList.update key y (dr_exchanges s)\<rparr>) in
         case map_of (dx_pins x1) (dr_peer role) of
           None \<Rightarrow> (store x1, Inr Waiting)
         | Some peer_pin \<Rightarrow>
             if role \<in> set (dx_issued x1) then (store x1, Inr Already_issued)
             else (store (x1\<lparr>dx_issued := role # dx_issued x1\<rparr>), Inr (Ready peer_pin (dx_secret x1)))))"

definition dr_issue_ticket :: "time \<Rightarrow> dr_store \<Rightarrow> pystr \<Rightarrow> dr_claims \<Rightarrow> int \<Rightarrow> dr_store res" where
  "dr_issue_ticket now s token_hash claims ttl =
     (if map_of (dr_tickets s) token_hash \<noteq> None then Inl (RuntimeError ''device relay ticket collision'')
      else Inr (s\<lparr>dr_tickets := AList.update token_hash (claims, now + seconds ttl) (dr_tickets s)\<rparr>))"

definition dr_consume_ticket :: "time \<Rightarrow> dr_store \<Rightarrow> pystr \<Rightarrow> dr_store \<times> dr_claims option" where
  "dr_consume_ticket now s token_hash =
     (case dict_pop token_hash (dr_tickets s) of (tickets, value1) \<Rightarrow>
        (s\<lparr>dr_tickets := tickets\<rparr>,
         case value1 of None \<Rightarrow> None | Some (c, expires_at) \<Rightarrow> if expires_at \<le> now then None else Some c))"

definition dr_close :: "dr_store \<Rightarrow> dr_store" where
  "dr_close s = s\<lparr>dr_exchanges := [], dr_tickets := []\<rparr>"

section \<open>Port forwarding tokens\<close>

record pf_claims =
  pf_forward_id :: uuid
  pf_device_id :: uuid
  pf_ssh_key_id :: "uuid option"

record pf_store =
  pf_values :: "(pystr \<times> pf_claims \<times> time) list"
  pf_rates :: "(pystr \<times> int \<times> time) list"

definition pf_new_store :: pf_store where "pf_new_store = \<lparr>pf_values = [], pf_rates = []\<rparr>"

definition pf_issue :: "time \<Rightarrow> pf_store \<Rightarrow> pystr \<Rightarrow> pf_claims \<Rightarrow> int \<Rightarrow> pf_store res" where
  "pf_issue now s token_hash claims ttl =
     (if map_of (pf_values s) token_hash \<noteq> None then Inl (RuntimeError ''port forward token collision'')
      else Inr (s\<lparr>pf_values := AList.update token_hash (claims, now + seconds ttl) (pf_values s)\<rparr>))"

definition pf_consume :: "time \<Rightarrow> pf_store \<Rightarrow> pystr \<Rightarrow> pf_store \<times> pf_claims option" where
  "pf_consume now s token_hash =
     (case dict_pop token_hash (pf_values s) of (values, value1) \<Rightarrow>
        (s\<lparr>pf_values := values\<rparr>,
         case value1 of None \<Rightarrow> None | Some (c, expires_at) \<Rightarrow> if expires_at \<le> now then None else Some c))"

definition pf_allow :: "time \<Rightarrow> pf_store \<Rightarrow> pystr \<Rightarrow> int \<Rightarrow> int \<Rightarrow> pf_store \<times> bool" where
  "pf_allow now s scope limit window_seconds =
     (let (count, expires_at) = (case map_of (pf_rates s) scope of None \<Rightarrow> (0, now) | Some r \<Rightarrow> r);
          (count', expires_at') = (if expires_at \<le> now then (0, now + seconds window_seconds) else (count, expires_at)) in
      (s\<lparr>pf_rates := AList.update scope (count' + 1, expires_at') (pf_rates s)\<rparr>, count' + 1 \<le> limit))"

definition pf_close :: "pf_store \<Rightarrow> pf_store" where
  "pf_close s = s\<lparr>pf_values := [], pf_rates := []\<rparr>"

section \<open>The stores satisfy the interface\<close>

definition eb_ticket_holds :: "eb_store \<Rightarrow> (pystr \<rightharpoonup> eb_claims \<times> time)" where
  "eb_ticket_holds s h = map_option (\<lambda>t. (et_claims t, et_expires_at t)) (map_of (eb_tickets s) h)"

definition eb_challenge_holds :: "eb_store \<Rightarrow> (pystr \<rightharpoonup> proof_claims \<times> time)" where
  "eb_challenge_holds s h = map_option (\<lambda>t. (ep_claims t, ep_expires_at t)) (map_of (eb_challenges s) h)"

interpretation eb_tickets: one_time_store eb_issue_ticket eb_consume_ticket eb_ticket_holds
  by unfold_locales
    (auto simp: eb_issue_ticket_def eb_consume_ticket_def eb_ticket_holds_def dict_pop_def delete_conv
      map_of_update fun_eq_iff split: option.splits if_splits)

interpretation eb_challenges: one_time_store eb_issue_challenge eb_consume_challenge eb_challenge_holds
  by unfold_locales
    (auto simp: eb_issue_challenge_def eb_consume_challenge_def eb_challenge_holds_def dict_pop_def delete_conv
      map_of_update fun_eq_iff split: option.splits if_splits)

interpretation dr_tickets: refusing_store dr_issue_ticket dr_consume_ticket "\<lambda>s. map_of (dr_tickets s)"
  by unfold_locales
    (auto simp: dr_issue_ticket_def dr_consume_ticket_def dict_pop_def delete_conv
      map_of_update fun_eq_iff split: option.splits if_splits)

interpretation pf_tokens: refusing_store pf_issue pf_consume "\<lambda>s. map_of (pf_values s)"
  by unfold_locales
    (auto simp: pf_issue_def pf_consume_def dict_pop_def delete_conv
      map_of_update fun_eq_iff split: option.splits if_splits)

section \<open>Rate limiting\<close>

record pf_request =
  rq_time :: time
  rq_scope :: pystr
  rq_limit :: int
  rq_window :: int

fun pf_allow_run :: "pf_store \<Rightarrow> pf_request list \<Rightarrow> pf_store \<times> (pystr \<times> bool) list" where
  "pf_allow_run s [] = (s, [])"
| "pf_allow_run s (q # qs) =
     (let (s1, ok) = pf_allow (rq_time q) s (rq_scope q) (rq_limit q) (rq_window q);
          (s2, oks) = pf_allow_run s1 qs in (s2, (rq_scope q, ok) # oks))"

text \<open>The answers one scope got.\<close>

definition answers_of :: "pystr \<Rightarrow> (pystr \<times> bool) list \<Rightarrow> bool list" where
  "answers_of scope oks = map snd (filter (\<lambda>(k, _). k = scope) oks)"

text \<open>The window of a scope is open when there is no unexpired counter.\<close>

definition window_free :: "time \<Rightarrow> pf_store \<Rightarrow> pystr \<Rightarrow> bool" where
  "window_free now s scope \<longleftrightarrow> (case map_of (pf_rates s) scope of None \<Rightarrow> True | Some (_, e) \<Rightarrow> e \<le> now)"

lemma pf_allow_run_open:
  assumes "map_of (pf_rates s) scope = Some (c, e)"
    and "\<forall>q \<in> set qs. rq_scope q = scope \<longrightarrow> rq_limit q = limit \<and> rq_time q < e"
  shows "answers_of scope (snd (pf_allow_run s qs)) =
    map (\<lambda>i. c + int i < limit) [0..<length (filter (\<lambda>q. rq_scope q = scope) qs)]"
  using assms
proof (induction qs arbitrary: s c)
  case Nil
  then show ?case by (simp add: answers_of_def)
next
  case (Cons q qs)
  obtain s1 ok where a: "pf_allow (rq_time q) s (rq_scope q) (rq_limit q) (rq_window q) = (s1, ok)"
    by (cases "pf_allow (rq_time q) s (rq_scope q) (rq_limit q) (rq_window q)")
  obtain s2 oks where r: "pf_allow_run s1 qs = (s2, oks)" by (cases "pf_allow_run s1 qs")
  show ?case
  proof (cases "rq_scope q = scope")
    case True
    then have lim: "rq_limit q = limit" "\<not> e \<le> rq_time q" using Cons.prems(2) by auto
    have s1: "map_of (pf_rates s1) scope = Some (c + 1, e)" "ok = (c + 1 \<le> limit)"
      using a True lim Cons.prems(1) by (auto simp: pf_allow_def map_of_update)
    have IH: "answers_of scope oks = map (\<lambda>i. c + 1 + int i < limit) [0..<length (filter (\<lambda>q. rq_scope q = scope) qs)]"
      using Cons.IH [OF s1(1)] Cons.prems(2) r by simp
    let ?n = "length (filter (\<lambda>q. rq_scope q = scope) qs)"
    have "answers_of scope (snd (pf_allow_run s (q # qs))) = ok # answers_of scope oks"
      using a r True by (simp add: answers_of_def)
    also have "\<dots> = (c + int 0 < limit) # map (\<lambda>i. c + int (Suc i) < limit) [0..<?n]"
      using s1(2) IH by (simp add: algebra_simps) linarith
    also have "\<dots> = map (\<lambda>i. c + int i < limit) [0..<Suc ?n]" by (simp only: map_upt_Suc)
    also have "Suc ?n = length (filter (\<lambda>q. rq_scope q = scope) (q # qs))" using True by simp
    finally show ?thesis .
  next
    case False
    then have "map_of (pf_rates s1) scope = Some (c, e)"
      using a Cons.prems(1) by (auto simp: pf_allow_def map_of_update split: prod.splits option.splits if_splits)
    from Cons.IH [OF this] Cons.prems(2) False a r show ?thesis by (simp add: answers_of_def)
  qed
qed

section \<open>Key exchange\<close>

record dr_call =
  cl_time :: time
  cl_binding :: dr_binding
  cl_role :: dr_role
  cl_spki :: pystr
  cl_context :: pystr
  cl_ttl :: int

fun dr_exchange_run :: "dr_store \<Rightarrow> dr_call list \<Rightarrow> dr_store \<times> (dr_call \<times> dr_result res) list" where
  "dr_exchange_run s [] = (s, [])"
| "dr_exchange_run s (c # cs) =
     (let (s1, r) = dr_exchange_step (cl_time c) s (cl_binding c) (cl_role c) (cl_spki c) (cl_context c) (cl_ttl c);
          (s2, rs) = dr_exchange_run s1 cs in (s2, (c, r) # rs))"

text \<open>The connection material handed out for one binding: role, peer pin, secret, own pin.\<close>

fun ready_of :: "relay_binding \<Rightarrow> (dr_call \<times> dr_result res) list \<Rightarrow> (dr_role \<times> pystr \<times> pystr \<times> pystr) list" where
  "ready_of key [] = []"
| "ready_of key ((c, Inr (Ready pin secret)) # rs) =
     (if dr_relay_binding (cl_binding c) = key then (cl_role c, pin, secret, cl_spki c) # ready_of key rs
      else ready_of key rs)"
| "ready_of key (_ # rs) = ready_of key rs"

lemma dr_peer_simps [simp]: "dr_peer Device = Proxy" "dr_peer Proxy = Device" "dr_peer r \<noteq> r" "r \<noteq> dr_peer r"
  by (auto simp: dr_peer_def)

definition live_entry :: "dr_store \<Rightarrow> relay_binding \<Rightarrow> dr_exchange \<Rightarrow> bool" where
  "live_entry s key x \<longleftrightarrow> map_of (dr_exchanges s) key = Some x"

text \<open>What one call does to a live entry.\<close>

lemma dr_exchange_step_live:
  assumes "dr_exchange_step now s b role spki ctx ttl = (s', r)" "live_entry s key x"
    and "dr_relay_binding b = key \<Longrightarrow> now < dx_expires_at x"
  obtains x' where "live_entry s' key x'" "dx_secret x' = dx_secret x" "dx_expires_at x' = dx_expires_at x"
    "map_of (dx_pins x) \<subseteq>\<^sub>m map_of (dx_pins x')" "set (dx_issued x) \<subseteq> set (dx_issued x')"
    "\<And>pin secret. r = Inr (Ready pin secret) \<Longrightarrow> dr_relay_binding b = key \<Longrightarrow>
       role \<notin> set (dx_issued x) \<and> role \<in> set (dx_issued x') \<and> secret = dx_secret x \<and>
       map_of (dx_pins x') (dr_peer role) = Some pin \<and> map_of (dx_pins x') role = Some spki"
proof (cases "dr_relay_binding b = key")
  case False
  then have "live_entry s' key x"
    using assms(1,2) by (auto simp: dr_exchange_step_def Let_def live_entry_def map_of_update split: if_splits option.splits)
  then show thesis using False by (intro that [of x]) auto
next
  case True
  then have cur: "dr_current now s (dr_relay_binding b) ctx ttl = x"
    using assms(2,3) by (simp add: dr_current_def live_entry_def)
  let ?x1 = "x\<lparr>dx_pins := AList.update role spki (dx_pins x)\<rparr>"
  consider (clash) "s' = s" "\<exists>e. r = Inl e"
    | (wait) "map_of (dx_pins x) role = None \<or> map_of (dx_pins x) role = Some spki"
        "s' = s\<lparr>dr_exchanges := AList.update key ?x1 (dr_exchanges s)\<rparr>" "r = Inr Waiting \<or> r = Inr Already_issued"
    | (ready) pin where "map_of (dx_pins x) role = None \<or> map_of (dx_pins x) role = Some spki"
        "map_of (dx_pins ?x1) (dr_peer role) = Some pin" "role \<notin> set (dx_issued x)"
        "s' = s\<lparr>dr_exchanges := AList.update key (?x1\<lparr>dx_issued := role # dx_issued x\<rparr>) (dr_exchanges s)\<rparr>"
        "r = Inr (Ready pin (dx_secret x))"
    using assms(1) True cur by (auto simp: dr_exchange_step_def Let_def split: if_splits option.splits)
  then show thesis
  proof cases
    case clash
    then show thesis using assms(2) by (intro that [of x]) auto
  next
    case wait
    then show thesis
      by (intro that [of ?x1]) (auto simp: live_entry_def map_of_update map_le_def)
  next
    case ready
    then show thesis
      by (intro that [of "?x1\<lparr>dx_issued := role # dx_issued x\<rparr>"]) (auto simp: live_entry_def map_of_update map_le_def)
  qed
qed

text \<open>What a run may hand out while the entry \<open>x\<close> lives and becomes \<open>x'\<close>.\<close>

definition exchange_outcome :: "dr_exchange \<Rightarrow> dr_exchange \<Rightarrow> (dr_role \<times> pystr \<times> pystr \<times> pystr) list \<Rightarrow> bool" where
  "exchange_outcome x x' out \<longleftrightarrow> map_of (dx_pins x) \<subseteq>\<^sub>m map_of (dx_pins x') \<and> distinct (map fst out) \<and>
     (\<forall>(role, pin, secret, own) \<in> set out. role \<notin> set (dx_issued x) \<and> secret = dx_secret x \<and>
       map_of (dx_pins x') (dr_peer role) = Some pin \<and> map_of (dx_pins x') role = Some own)"

lemma exchange_outcome_distinct: "exchange_outcome x x' out \<Longrightarrow> distinct (map fst out)"
  by (simp add: exchange_outcome_def)

lemma exchange_outcome_member:
  assumes "exchange_outcome x x' out" "(role, pin, secret, own) \<in> set out"
  shows "role \<notin> set (dx_issued x)" "secret = dx_secret x"
    "map_of (dx_pins x') (dr_peer role) = Some pin" "map_of (dx_pins x') role = Some own"
  using assms by (auto simp: exchange_outcome_def)

lemma dr_exchange_run_live:
  assumes "live_entry s key x"
    and "\<forall>c \<in> set cs. dr_relay_binding (cl_binding c) = key \<longrightarrow> cl_time c < dx_expires_at x"
  shows "\<exists>x'. exchange_outcome x x' (ready_of key (snd (dr_exchange_run s cs)))"
  using assms
proof (induction cs arbitrary: s x)
  case Nil
  then show ?case by (auto simp: exchange_outcome_def intro: map_le_refl)
next
  case (Cons c cs)
  obtain s1 r where st: "dr_exchange_step (cl_time c) s (cl_binding c) (cl_role c) (cl_spki c) (cl_context c) (cl_ttl c) = (s1, r)"
    by (cases "dr_exchange_step (cl_time c) s (cl_binding c) (cl_role c) (cl_spki c) (cl_context c) (cl_ttl c)")
  obtain s2 rs where run: "dr_exchange_run s1 cs = (s2, rs)" by (cases "dr_exchange_run s1 cs")
  have now: "dr_relay_binding (cl_binding c) = key \<Longrightarrow> cl_time c < dx_expires_at x" using Cons.prems(2) by simp
  obtain x1 where x1: "live_entry s1 key x1" "dx_secret x1 = dx_secret x" "dx_expires_at x1 = dx_expires_at x"
    "map_of (dx_pins x) \<subseteq>\<^sub>m map_of (dx_pins x1)" "set (dx_issued x) \<subseteq> set (dx_issued x1)"
    and rdy: "\<And>pin secret. r = Inr (Ready pin secret) \<Longrightarrow> dr_relay_binding (cl_binding c) = key \<Longrightarrow>
       cl_role c \<notin> set (dx_issued x) \<and> cl_role c \<in> set (dx_issued x1) \<and> secret = dx_secret x \<and>
       map_of (dx_pins x1) (dr_peer (cl_role c)) = Some pin \<and> map_of (dx_pins x1) (cl_role c) = Some (cl_spki c)"
    using dr_exchange_step_live [OF st Cons.prems(1) now] by blast
  have "\<forall>c \<in> set cs. dr_relay_binding (cl_binding c) = key \<longrightarrow> cl_time c < dx_expires_at x1"
    using Cons.prems(2) x1(3) by simp
  from Cons.IH [OF x1(1) this] obtain x' where o: "exchange_outcome x1 x' (ready_of key rs)" using run by auto
  have le: "map_of (dx_pins x) \<subseteq>\<^sub>m map_of (dx_pins x')"
    using o by (auto simp: exchange_outcome_def intro: map_le_trans [OF x1(4)])
  have keep: "map_of (dx_pins x') k = Some v" if "map_of (dx_pins x1) k = Some v" for k v
    using that o by (force simp: exchange_outcome_def map_le_def dom_def)
  have tl: "exchange_outcome x x' (ready_of key rs)"
    using o le x1(2,5) by (fastforce simp: exchange_outcome_def)
  show ?case
  proof (cases "\<exists>pin secret. r = Inr (Ready pin secret) \<and> dr_relay_binding (cl_binding c) = key")
    case True
    then obtain pin secret where r: "r = Inr (Ready pin secret)" "dr_relay_binding (cl_binding c) = key" by blast
    note here = rdy [OF r]
    have "cl_role c \<notin> fst ` set (ready_of key rs)" using here exchange_outcome_member(1) [OF o] by fastforce
    then have "exchange_outcome x x' ((cl_role c, pin, secret, cl_spki c) # ready_of key rs)"
      using tl here keep by (simp add: exchange_outcome_def)
    then show ?thesis using st run r by (auto simp: Let_def)
  next
    case False
    then have "ready_of key ((c, r) # rs) = ready_of key rs"
      by (cases "(key, (c, r) # rs)" rule: ready_of.cases) auto
    with tl st run show ?thesis by auto
  qed
qed

section \<open>Properties\<close>

text \<open>
  Single use: in every run of a store from its start, what was taken out under a token hash
  answers, in order and each at most once, what was issued under it, with the same claims and before
  the expiry. It holds for both kinds of browser relay values, device relay tickets and port
  forwarding tokens.
\<close>

theorem tokens_single_use:
  "list_emb answers (consumed_of h (snd (token_run eb_issue_ticket eb_consume_ticket eb_new_store tops)))
     (issued_of h (snd (token_run eb_issue_ticket eb_consume_ticket eb_new_store tops))) \<and>
   list_emb answers (consumed_of h (snd (token_run eb_issue_challenge eb_consume_challenge eb_new_store cops)))
     (issued_of h (snd (token_run eb_issue_challenge eb_consume_challenge eb_new_store cops))) \<and>
   list_emb answers (consumed_of h (snd (token_run dr_issue_ticket dr_consume_ticket dr_new_store dops)))
     (issued_of h (snd (token_run dr_issue_ticket dr_consume_ticket dr_new_store dops))) \<and>
   list_emb answers (consumed_of h (snd (token_run pf_issue pf_consume pf_new_store pops)))
     (issued_of h (snd (token_run pf_issue pf_consume pf_new_store pops)))"
  using eb_tickets.single_use [where ops = tops and s = eb_new_store and h = h, OF prod.collapse [symmetric]]
    eb_challenges.single_use [where ops = cops and s = eb_new_store and h = h, OF prod.collapse [symmetric]]
    dr_tickets.single_use [where ops = dops and s = dr_new_store and h = h, OF prod.collapse [symmetric]]
    pf_tokens.single_use [where ops = pops and s = pf_new_store and h = h, OF prod.collapse [symmetric]]
  by (simp add: eb_ticket_holds_def eb_challenge_holds_def eb_new_store_def dr_new_store_def pf_new_store_def)

text \<open>
  The rate limit is exact: in the window a request opens, whatever other scopes do in between,
  exactly the first \<open>limit\<close> requests of the scope are allowed.
\<close>

theorem rate_window_exact:
  assumes "window_free (rq_time q) s (rq_scope q)"
    and "\<forall>q' \<in> set (q # qs). rq_scope q' = rq_scope q \<longrightarrow>
      rq_limit q' = rq_limit q \<and> rq_time q' < rq_time q + seconds (rq_window q)"
  shows "answers_of (rq_scope q) (snd (pf_allow_run s (q # qs))) =
    map (\<lambda>i. int i < rq_limit q) [0..<length (filter (\<lambda>q'. rq_scope q' = rq_scope q) (q # qs))]"
proof -
  let ?e = "rq_time q + seconds (rq_window q)"
  let ?s1 = "s\<lparr>pf_rates := AList.update (rq_scope q) (0, ?e) (pf_rates s)\<rparr>"
  have same: "pf_allow (rq_time q) s (rq_scope q) (rq_limit q) (rq_window q) =
      pf_allow (rq_time q) ?s1 (rq_scope q) (rq_limit q) (rq_window q)"
    using assms by (auto simp: pf_allow_def window_free_def map_of_update split: option.splits)
  have "answers_of (rq_scope q) (snd (pf_allow_run ?s1 (q # qs))) =
      map (\<lambda>i. 0 + int i < rq_limit q) [0..<length (filter (\<lambda>q'. rq_scope q' = rq_scope q) (q # qs))]"
    using assms(2) by (intro pf_allow_run_open [where e = ?e]) (auto simp: map_of_update)
  then show ?thesis using same by simp
qed

text \<open>
  The key exchange is consistent: from the call that opens an exchange until it expires, each
  role gets the connection material at most once, both get the exporter context of the opening call,
  and when both got it, each holds the pin the other registered.
\<close>

definition exchange_free :: "time \<Rightarrow> dr_store \<Rightarrow> relay_binding \<Rightarrow> bool" where
  "exchange_free now s key \<longleftrightarrow>
     (case map_of (dr_exchanges s) key of None \<Rightarrow> True | Some x \<Rightarrow> dx_expires_at x \<le> now)"

lemma dr_exchange_opens:
  assumes "exchange_free now s (dr_relay_binding b)" "0 < ttl"
  shows "dr_exchange_step now s b role spki ctx ttl =
    (s\<lparr>dr_exchanges := AList.update (dr_relay_binding b)
       \<lparr>dx_pins = [(role, spki)], dx_secret = ctx, dx_issued = [], dx_expires_at = now + seconds ttl\<rparr> (dr_exchanges s)\<rparr>,
     Inr Waiting)"
proof -
  have "dr_current now s (dr_relay_binding b) ctx ttl =
      \<lparr>dx_pins = [], dx_secret = ctx, dx_issued = [], dx_expires_at = now + seconds ttl\<rparr>"
    using assms by (auto simp: exchange_free_def dr_current_def Let_def split: option.splits)
  then show ?thesis by (simp add: dr_exchange_step_def)
qed

theorem exchange_consistent:
  assumes "exchange_free (cl_time c) s (dr_relay_binding (cl_binding c))" "0 < cl_ttl c"
    and "\<forall>c' \<in> set cs. dr_relay_binding (cl_binding c') = dr_relay_binding (cl_binding c) \<longrightarrow>
      cl_time c' < cl_time c + seconds (cl_ttl c)"
    and "out = ready_of (dr_relay_binding (cl_binding c)) (snd (dr_exchange_run s (c # cs)))"
  shows "distinct (map fst out) \<and>
    (\<forall>(role, pin, secret, own) \<in> set out. secret = cl_context c \<and>
      (\<forall>(role', pin', secret', own') \<in> set out. role' \<noteq> role \<longrightarrow> pin = own' \<and> pin' = own))"
proof -
  let ?key = "dr_relay_binding (cl_binding c)"
  let ?x = "\<lparr>dx_pins = [(cl_role c, cl_spki c)], dx_secret = cl_context c, dx_issued = [],
    dx_expires_at = cl_time c + seconds (cl_ttl c)\<rparr>"
  let ?s1 = "s\<lparr>dr_exchanges := AList.update ?key ?x (dr_exchanges s)\<rparr>"
  have first: "dr_exchange_step (cl_time c) s (cl_binding c) (cl_role c) (cl_spki c) (cl_context c) (cl_ttl c) = (?s1, Inr Waiting)"
    by (rule dr_exchange_opens [OF assms(1,2)])
  have live: "live_entry ?s1 ?key ?x" by (simp add: live_entry_def map_of_update)
  have "\<forall>c' \<in> set cs. dr_relay_binding (cl_binding c') = ?key \<longrightarrow> cl_time c' < dx_expires_at ?x"
    using assms(3) by simp
  from dr_exchange_run_live [OF live this]
  obtain x' where o: "exchange_outcome ?x x' (ready_of ?key (snd (dr_exchange_run ?s1 cs)))" by blast
  have out: "out = ready_of ?key (snd (dr_exchange_run ?s1 cs))"
    using assms(4) first by (simp add: case_prod_unfold Let_def)
  have o': "exchange_outcome ?x x' out" using o out by simp
  have peers: "role' = dr_peer role" if "role' \<noteq> role" for role role' using that by (cases role; cases role') auto
  have dbl: "dr_peer (dr_peer role) = role" for role by (cases role) auto
  have cross: "pin = own' \<and> pin' = own" if "(role, pin, secret, own) \<in> set out" "(role', pin', secret', own') \<in> set out" "role' \<noteq> role"
    for role pin secret own role' pin' secret' own'
  proof -
    have r: "role' = dr_peer role" using that(3) by (rule peers)
    show ?thesis
      using exchange_outcome_member(3,4) [OF o', OF that(1)] exchange_outcome_member(3,4) [OF o', OF that(2)] r dbl by simp
  qed
  have "secret = cl_context c" if "(role, pin, secret, own) \<in> set out" for role pin secret own
    using exchange_outcome_member(2) [OF o' that] by simp
  then have "\<forall>(role, pin, secret, own) \<in> set out. secret = cl_context c \<and>
      (\<forall>(role', pin', secret', own') \<in> set out. role' \<noteq> role \<longrightarrow> pin = own' \<and> pin' = own)"
    using cross by clarsimp
  moreover have "distinct (map fst out)" by (rule exchange_outcome_distinct [OF o'])
  ultimately show ?thesis by (rule conjI [rotated])
qed

text \<open>
  The key exchange completes: when one role opens an exchange, the other registers and the first
  asks again before the expiry, both get the material, with each other's pins and the same secret.
\<close>

theorem exchange_completes:
  assumes "exchange_free t1 s (dr_relay_binding b)" "0 < ttl" "t2 < t1 + seconds ttl" "t3 < t1 + seconds ttl"
  shows "map snd (snd (dr_exchange_run s
      [\<lparr>cl_time = t1, cl_binding = b, cl_role = role, cl_spki = pin, cl_context = ctx, cl_ttl = ttl\<rparr>,
       \<lparr>cl_time = t2, cl_binding = b, cl_role = dr_peer role, cl_spki = pin', cl_context = ctx', cl_ttl = ttl'\<rparr>,
       \<lparr>cl_time = t3, cl_binding = b, cl_role = role, cl_spki = pin, cl_context = ctx'', cl_ttl = ttl''\<rparr>])) =
    [Inr Waiting, Inr (Ready pin ctx), Inr (Ready pin' ctx)]"
proof -
  let ?key = "dr_relay_binding b"
  let ?x = "\<lparr>dx_pins = [(role, pin)], dx_secret = ctx, dx_issued = [], dx_expires_at = t1 + seconds ttl\<rparr>"
  let ?s1 = "s\<lparr>dr_exchanges := AList.update ?key ?x (dr_exchanges s)\<rparr>"
  let ?y = "?x\<lparr>dx_pins := AList.update (dr_peer role) pin' [(role, pin)], dx_issued := [dr_peer role]\<rparr>"
  have dbl: "dr_peer (dr_peer role) = role" by (cases role) auto
  have one: "dr_exchange_step t1 s b role pin ctx ttl = (?s1, Inr Waiting)" by (rule dr_exchange_opens [OF assms(1,2)])
  have "dr_current t2 ?s1 ?key ctx' ttl' = ?x" using assms(3) by (simp add: dr_current_def map_of_update)
  then obtain s2 where two: "dr_exchange_step t2 ?s1 b (dr_peer role) pin' ctx' ttl' = (s2, Inr (Ready pin ctx))"
    and s2: "map_of (dr_exchanges s2) ?key = Some ?y"
    by (simp add: dr_exchange_step_def Let_def dbl map_of_update)
  have "dr_current t3 s2 ?key ctx'' ttl'' = ?y" using assms(4) s2 by (simp add: dr_current_def)
  then have three: "snd (dr_exchange_step t3 s2 b role pin ctx'' ttl'') = Inr (Ready pin' ctx)"
    by (simp add: dr_exchange_step_def Let_def dbl map_of_update)
  show ?thesis using three by (simp add: one two case_prod_unfold Let_def)
qed

section \<open>Witnesses\<close>

definition st_req :: "int \<Rightarrow> nat \<Rightarrow> pf_request" where
  "st_req t scope = \<lparr>rq_time = t, rq_scope = [scope], rq_limit = 2, rq_window = 60\<rparr>"

theorem rate_window_exact_witness:
  "answers_of [1] (snd (pf_allow_run pf_new_store [st_req 0 1, st_req 5 2, st_req 6 1, st_req 9 1])) = [True, True, False]"
  using rate_window_exact [of "st_req 0 1" pf_new_store "[st_req 5 2, st_req 6 1, st_req 9 1]"]
  by (simp add: st_req_def window_free_def pf_new_store_def seconds_def upt_rec)

definition st_binding :: dr_binding where
  "st_binding = \<lparr>db_user_id = 1, db_device_id = 2, db_tool_session_id = 3, db_device_session_id = 4,
     db_node_id = 5, db_generation = 7\<rparr>"

definition st_call :: "int \<Rightarrow> dr_role \<Rightarrow> nat \<Rightarrow> nat \<Rightarrow> dr_call" where
  "st_call t role pin ctx =
     \<lparr>cl_time = t, cl_binding = st_binding, cl_role = role, cl_spki = [pin], cl_context = [ctx], cl_ttl = 30\<rparr>"

definition st_calls :: "dr_call list" where
  "st_calls = [st_call 1 Proxy 20 200, st_call 2 Device 10 101, st_call 3 Device 10 102, st_call 4 Device 11 103]"

theorem exchange_consistent_witness:
  "ready_of (dr_relay_binding st_binding) (snd (dr_exchange_run dr_new_store (st_call 0 Device 10 100 # st_calls))) =
     [(Proxy, [10], [100], [20]), (Device, [20], [100], [10])] \<and>
   distinct (map fst (ready_of (dr_relay_binding st_binding)
     (snd (dr_exchange_run dr_new_store (st_call 0 Device 10 100 # st_calls)))))"
proof -
  have out: "ready_of (dr_relay_binding st_binding) (snd (dr_exchange_run dr_new_store (st_call 0 Device 10 100 # st_calls))) =
     [(Proxy, [10], [100], [20]), (Device, [20], [100], [10])]"
    by code_simp
  have free: "exchange_free (cl_time (st_call 0 Device 10 100)) dr_new_store
      (dr_relay_binding (cl_binding (st_call 0 Device 10 100)))" by code_simp
  have ttl: "0 < cl_ttl (st_call 0 Device 10 100)" by code_simp
  have times: "\<forall>c' \<in> set st_calls. dr_relay_binding (cl_binding c') = dr_relay_binding (cl_binding (st_call 0 Device 10 100)) \<longrightarrow>
      cl_time c' < cl_time (st_call 0 Device 10 100) + seconds (cl_ttl (st_call 0 Device 10 100))" by code_simp
  have b: "cl_binding (st_call 0 Device 10 100) = st_binding" by code_simp
  show ?thesis using exchange_consistent [OF free ttl times refl, unfolded b] out by (auto simp only:)
qed

theorem exchange_completes_witness:
  "map snd (snd (dr_exchange_run dr_new_store
      [\<lparr>cl_time = 0, cl_binding = st_binding, cl_role = Device, cl_spki = [10], cl_context = [1], cl_ttl = 30\<rparr>,
       \<lparr>cl_time = 5, cl_binding = st_binding, cl_role = dr_peer Device, cl_spki = [20], cl_context = [2], cl_ttl = 30\<rparr>,
       \<lparr>cl_time = 7, cl_binding = st_binding, cl_role = Device, cl_spki = [10], cl_context = [3], cl_ttl = 30\<rparr>])) =
    [Inr Waiting, Inr (Ready [10] [1]), Inr (Ready [20] [1])]"
  by (rule exchange_completes) (simp_all add: exchange_free_def dr_new_store_def seconds_def)

end
