(* ===== verification/Pairing.thy ===== *)
theory Pairing
  imports Stores
begin

text \<open>
  The pairing table both relay hubs keep (\<open>ego_browser/relay/hub.py\<close>, \<open>device_control/relay_hub.py\<close>):
  per relay binding one endpoint per role, each with a future for the socket of its peer. Endpoints
  are objects shared by the table and by the task that serves the connection, so they live in an
  explicit store and are named by their index in it. The operations here are the locked sections of
  the two hubs; what they keep is proved once, for the roles of either.
\<close>

section \<open>Endpoints\<close>

datatype peer_future = Pending | Connected nat | Broken

text \<open>Where the task that serves an endpoint is: in its body, closed its sockets with a code, or over.\<close>

datatype serving = Running | Leaving int | Over

record 'r endpoint =
  ep_key :: relay_binding
  ep_role :: 'r
  ep_socket :: nat
  ep_peer :: peer_future
  ep_task :: serving

type_synonym 'r pairs = "(relay_binding \<times> ('r \<times> nat) list) list"

record ('r, 'z) hub =
  hub_pairs :: "'r pairs"
  hub_endpoints :: "('r, 'z) endpoint_scheme list"
  hub_closes :: "(nat \<times> int) list"

datatype connect_result = Rejected | Registered nat | Failed py_error

section \<open>Operations\<close>

definition pair_of :: "'r pairs \<Rightarrow> relay_binding \<Rightarrow> ('r \<times> nat) list" where
  "pair_of pairs key = (case map_of pairs key of None \<Rightarrow> [] | Some p \<Rightarrow> p)"

text \<open>\<open>setdefault(key, {})[role] = endpoint\<close>\<close>

definition enrol :: "relay_binding \<Rightarrow> 'r \<Rightarrow> nat \<Rightarrow> 'r pairs \<Rightarrow> 'r pairs" where
  "enrol key role i pairs = AList.update key (AList.update role i (pair_of pairs key)) pairs"

text \<open>Removal of an endpoint that is still the one in the table; an empty pair is removed as well.\<close>

definition withdraw :: "relay_binding \<Rightarrow> 'r \<Rightarrow> nat \<Rightarrow> 'r pairs \<Rightarrow> 'r pairs" where
  "withdraw key role i pairs =
     (if map_of (pair_of pairs key) role \<noteq> Some i then pairs
      else (let pair = AList.delete role (pair_of pairs key) in
            if pair = [] then AList.delete key pairs else AList.update key pair pairs))"

definition close_socket :: "nat \<Rightarrow> int \<Rightarrow> ('r, 'z, 'h) hub_scheme \<Rightarrow> ('r, 'z, 'h) hub_scheme" where
  "close_socket ws code hub = hub\<lparr>hub_closes := hub_closes hub @ [(ws, code)]\<rparr>"

text \<open>
  The registration of an admitted endpoint. \<open>set_result\<close> of a future that is already done raises
  \<open>InvalidStateError\<close>: the task is over then, but the endpoint stays in the table.
\<close>

definition meet ::
  "('r \<Rightarrow> 'r) \<Rightarrow> ('r, 'z, 'h) hub_scheme \<Rightarrow> ('r, 'z) endpoint_scheme \<Rightarrow> ('r, 'z, 'h) hub_scheme \<times> connect_result"
where
  "meet peer_role hub ep =
     (let i = length (hub_endpoints hub);
          pairs = enrol (ep_key ep) (ep_role ep) i (hub_pairs hub);
          hub1 = hub\<lparr>hub_pairs := pairs, hub_endpoints := hub_endpoints hub @ [ep]\<rparr> in
      case map_of (pair_of pairs (ep_key ep)) (peer_role (ep_role ep)) of
        None \<Rightarrow> (hub1, Registered i)
      | Some j \<Rightarrow>
          (let other = hub_endpoints hub1 ! j; mine = ep\<lparr>ep_peer := Connected (ep_socket other)\<rparr> in
           if ep_peer other \<noteq> Pending
           then (hub1\<lparr>hub_endpoints := (hub_endpoints hub1)[i := mine\<lparr>ep_task := Over\<rparr>]\<rparr>, Failed InvalidStateError)
           else (hub1\<lparr>hub_endpoints := (hub_endpoints hub1)[i := mine, j := other\<lparr>ep_peer := Connected (ep_socket ep)\<rparr>]\<rparr>,
                 Registered i)))"

text \<open>The endpoints of a list of indexes, changed.\<close>

definition change_all :: "('e \<Rightarrow> 'e) \<Rightarrow> nat list \<Rightarrow> 'e list \<Rightarrow> 'e list" where
  "change_all f is es = map (\<lambda>(i, e). if i \<in> set is then f e else e) (enumerate 0 es)"

definition break_future :: "('r, 'z) endpoint_scheme \<Rightarrow> ('r, 'z) endpoint_scheme" where
  "break_future ep = (if ep_peer ep = Pending then ep\<lparr>ep_peer := Broken\<rparr> else ep)"

text \<open>The closing of a binding: its pair leaves the table, its waiting tasks are woken.\<close>

definition close_pair ::
  "(('r, 'z) endpoint_scheme \<Rightarrow> ('r, 'z) endpoint_scheme) \<Rightarrow> relay_binding \<Rightarrow> int \<Rightarrow>
   ('r, 'z, 'h) hub_scheme \<Rightarrow> ('r, 'z, 'h) hub_scheme"
where
  "close_pair mark key code hub =
     (let members = map snd (pair_of (hub_pairs hub) key) in
      hub\<lparr>hub_pairs := AList.delete key (hub_pairs hub),
        hub_endpoints := change_all (break_future \<circ> mark) members (hub_endpoints hub),
        hub_closes := hub_closes hub @ map (\<lambda>i. (ep_socket (hub_endpoints hub ! i), code)) members\<rparr>)"

text \<open>The end of a task: both sockets are closed, then the endpoint is removed.\<close>

definition leave_close :: "nat \<Rightarrow> int \<Rightarrow> ('r, 'z, 'h) hub_scheme \<Rightarrow> ('r, 'z, 'h) hub_scheme" where
  "leave_close i code hub =
     (let ep = hub_endpoints hub ! i;
          sockets = ep_socket ep # (case ep_peer ep of Connected ws \<Rightarrow> [ws] | _ \<Rightarrow> []) in
      hub\<lparr>hub_endpoints := (hub_endpoints hub)[i := ep\<lparr>ep_task := Leaving code\<rparr>],
        hub_closes := hub_closes hub @ map (\<lambda>ws. (ws, code)) sockets\<rparr>)"

definition leave_remove :: "nat \<Rightarrow> ('r, 'z, 'h) hub_scheme \<Rightarrow> ('r, 'z, 'h) hub_scheme" where
  "leave_remove i hub =
     (let ep = hub_endpoints hub ! i in
      hub\<lparr>hub_pairs := withdraw (ep_key ep) (ep_role ep) i (hub_pairs hub),
        hub_endpoints := (hub_endpoints hub)[i := ep\<lparr>ep_task := Over\<rparr>]\<rparr>)"

section \<open>What the table keeps\<close>

definition pairs_ok :: "(relay_binding \<Rightarrow> 'r \<Rightarrow> nat \<Rightarrow> bool) \<Rightarrow> 'r pairs \<Rightarrow> bool" where
  "pairs_ok P pairs \<longleftrightarrow> distinct (map fst pairs) \<and>
     (\<forall>(key, pair) \<in> set pairs. pair \<noteq> [] \<and> distinct (map fst pair) \<and> (\<forall>(role, i) \<in> set pair. P key role i))"

text \<open>An endpoint is entered under its own key and role.\<close>

definition entered :: "('r, 'z) endpoint_scheme list \<Rightarrow> relay_binding \<Rightarrow> 'r \<Rightarrow> nat \<Rightarrow> bool" where
  "entered eps key role i \<longleftrightarrow> i < length eps \<and> ep_key (eps ! i) = key \<and> ep_role (eps ! i) = role"

text \<open>A future only ever holds the socket of an endpoint of the same binding in the other role.\<close>

definition peers_ok :: "('r, 'z) endpoint_scheme list \<Rightarrow> bool" where
  "peers_ok eps \<longleftrightarrow> (\<forall>ep \<in> set eps. \<forall>ws. ep_peer ep = Connected ws \<longrightarrow>
     (\<exists>ep' \<in> set eps. ep_socket ep' = ws \<and> ep_key ep' = ep_key ep \<and> ep_role ep' \<noteq> ep_role ep))"

definition hub_ok :: "('r, 'z, 'h) hub_scheme \<Rightarrow> bool" where
  "hub_ok hub \<longleftrightarrow> pairs_ok (entered (hub_endpoints hub)) (hub_pairs hub) \<and> peers_ok (hub_endpoints hub)"

lemma pair_of_update: "pair_of (AList.update k p pairs) j = (if j = k then p else pair_of pairs j)"
  by (simp add: pair_of_def map_of_update)

lemma pair_of_delete: "pair_of (AList.delete k pairs) j = (if j = k then [] else pair_of pairs j)"
  by (simp add: pair_of_def delete_conv)

lemma pair_of_enrol: "map_of (pair_of (enrol key role i pairs) k) r =
    (if k = key \<and> r = role then Some i else map_of (pair_of pairs k) r)"
  by (simp add: enrol_def pair_of_update map_of_update)

lemma pair_of_withdraw: "map_of (pair_of (withdraw key role i pairs) k) r =
    (if k = key \<and> r = role \<and> map_of (pair_of pairs k) r = Some i then None else map_of (pair_of pairs k) r)"
  by (auto simp: withdraw_def pair_of_update pair_of_delete Let_def delete_conv)
    (metis delete_conv fun_upd_other map_of.simps(1))

lemma pairs_okD:
  assumes "pairs_ok P pairs" "map_of (pair_of pairs key) role = Some i"
  shows "P key role i"
  using assms by (fastforce simp: pairs_ok_def pair_of_def split: option.splits dest!: map_of_SomeD)

lemma pairs_ok_update:
  assumes "pairs_ok P pairs" "pair \<noteq> []" "distinct (map fst pair)" "\<And>role i. (role, i) \<in> set pair \<Longrightarrow> P key role i"
  shows "pairs_ok P (AList.update key pair pairs)"
proof -
  have "(k, p) \<in> set (AList.update key pair pairs) \<Longrightarrow> (k, p) = (key, pair) \<or> (k, p) \<in> set pairs" for k p
    by (induction pairs) (auto split: if_splits)
  then show ?thesis using assms by (fastforce simp: pairs_ok_def distinct_update)
qed

lemma pairs_ok_delete: "pairs_ok P pairs \<Longrightarrow> pairs_ok P (AList.delete key pairs)"
  by (auto simp: pairs_ok_def AList.delete_eq distinct_filter_key)

lemma pair_of_ok:
  assumes "pairs_ok P pairs"
  shows "distinct (map fst (pair_of pairs key))" "(role, i) \<in> set (pair_of pairs key) \<Longrightarrow> P key role i"
  using assms by (fastforce simp: pairs_ok_def pair_of_def split: option.splits dest: map_of_SomeD)+

lemma pairs_ok_enrol:
  assumes "pairs_ok P pairs" "P key role i"
  shows "pairs_ok P (enrol key role i pairs)"
proof -
  have "(r, j) \<in> set (AList.update role i pair) \<Longrightarrow> (r, j) = (role, i) \<or> (r, j) \<in> set pair" for r j pair
    by (induction pair) (auto split: if_splits)
  then show ?thesis
    unfolding enrol_def
    using assms(2) pair_of_ok [OF assms(1)] by (intro pairs_ok_update [OF assms(1)]) (fastforce simp: distinct_update update_nonempty)+
qed

lemma pairs_ok_withdraw:
  assumes "pairs_ok P pairs"
  shows "pairs_ok P (withdraw key role i pairs)"
proof -
  have "(r, j) \<in> set (AList.delete role pair) \<Longrightarrow> (r, j) \<in> set pair" for r j and pair :: "('a \<times> nat) list"
    by (auto simp: AList.delete_eq)
  then have "pairs_ok P (AList.update key (AList.delete role (pair_of pairs key)) pairs)"
    if "AList.delete role (pair_of pairs key) \<noteq> []"
    using that pair_of_ok(2) [OF assms]
    by (intro pairs_ok_update [OF assms] distinct_delete pair_of_ok(1) [OF assms]) blast+
  then show ?thesis using assms pairs_ok_delete [OF assms] by (simp add: withdraw_def Let_def)
qed

lemma pairs_ok_mono: "pairs_ok P pairs \<Longrightarrow> (\<And>k r i. P k r i \<Longrightarrow> Q k r i) \<Longrightarrow> pairs_ok Q pairs"
  by (fastforce simp: pairs_ok_def)

section \<open>The operations keep it\<close>

lemma length_change_all [simp]: "length (change_all f is es) = length es"
  by (simp add: change_all_def)

lemma nth_change_all [simp]: "i < length es \<Longrightarrow> change_all f is es ! i = (if i \<in> set is then f (es ! i) else es ! i)"
  by (simp add: change_all_def nth_enumerate_eq)

lemma nth_update: "j < length xs \<Longrightarrow> xs[i := x] ! j = (if i = j then x else xs ! j)"
  by (cases "i < length xs") (auto simp: nth_list_update)

text \<open>A change of the store that keeps keys, roles and sockets, and only fills futures rightly.\<close>

definition same_identity :: "('r, 'z) endpoint_scheme list \<Rightarrow> ('r, 'z) endpoint_scheme list \<Rightarrow> bool" where
  "same_identity eps eps' \<longleftrightarrow> length eps \<le> length eps' \<and>
     (\<forall>i < length eps. ep_key (eps' ! i) = ep_key (eps ! i) \<and> ep_role (eps' ! i) = ep_role (eps ! i) \<and>
        ep_socket (eps' ! i) = ep_socket (eps ! i))"

lemma entered_mono: "same_identity eps eps' \<Longrightarrow> entered eps key role i \<Longrightarrow> entered eps' key role i"
  by (auto simp: same_identity_def entered_def)

lemma same_identity_refl [simp]: "same_identity eps eps" by (simp add: same_identity_def)

text \<open>Futures may only gain the socket of a fitting endpoint.\<close>

definition fills :: "('r, 'z) endpoint_scheme list \<Rightarrow> ('r, 'z) endpoint_scheme list \<Rightarrow> bool" where
  "fills eps eps' \<longleftrightarrow> (\<forall>i < length eps'. \<forall>ws. ep_peer (eps' ! i) = Connected ws \<longrightarrow>
     (i < length eps \<and> ep_peer (eps ! i) = Connected ws) \<or>
     (\<exists>j < length eps'. ep_socket (eps' ! j) = ws \<and> ep_key (eps' ! j) = ep_key (eps' ! i) \<and> ep_role (eps' ! j) \<noteq> ep_role (eps' ! i)))"

lemma peers_ok_nth:
  "peers_ok eps \<longleftrightarrow> (\<forall>i < length eps. \<forall>ws. ep_peer (eps ! i) = Connected ws \<longrightarrow>
     (\<exists>j < length eps. ep_socket (eps ! j) = ws \<and> ep_key (eps ! j) = ep_key (eps ! i) \<and> ep_role (eps ! j) \<noteq> ep_role (eps ! i)))"
proof -
  have "(\<exists>e \<in> set eps. Q e) \<longleftrightarrow> (\<exists>j < length eps. Q (eps ! j))" for Q by (metis in_set_conv_nth)
  then show ?thesis unfolding peers_ok_def all_set_conv_all_nth by simp
qed

lemma peers_ok_fills:
  assumes "peers_ok eps" "same_identity eps eps'" "fills eps eps'"
  shows "peers_ok eps'"
  unfolding peers_ok_nth
proof (intro allI impI)
  fix i ws assume i: "i < length eps'" "ep_peer (eps' ! i) = Connected ws"
  have "\<exists>j < length eps'. ep_socket (eps' ! j) = ws \<and> ep_key (eps' ! j) = ep_key (eps' ! i) \<and> ep_role (eps' ! j) \<noteq> ep_role (eps' ! i)"
    if old: "i < length eps" "ep_peer (eps ! i) = Connected ws"
  proof -
    obtain j where j: "j < length eps" "ep_socket (eps ! j) = ws" "ep_key (eps ! j) = ep_key (eps ! i)" "ep_role (eps ! j) \<noteq> ep_role (eps ! i)"
      using assms(1) old unfolding peers_ok_nth by blast
    with old assms(2) show ?thesis unfolding same_identity_def by (intro exI [of _ j]) auto
  qed
  with i assms(3) show "\<exists>j < length eps'. ep_socket (eps' ! j) = ws \<and> ep_key (eps' ! j) = ep_key (eps' ! i) \<and> ep_role (eps' ! j) \<noteq> ep_role (eps' ! i)"
    unfolding fills_def by blast
qed

lemma hub_ok_change:
  assumes "hub_ok hub" "same_identity (hub_endpoints hub) (hub_endpoints hub')" "fills (hub_endpoints hub) (hub_endpoints hub')"
    and "pairs_ok (entered (hub_endpoints hub')) (hub_pairs hub')"
  shows "hub_ok hub'"
  using assms peers_ok_fills by (auto simp: hub_ok_def)

lemma hub_ok_pairs:
  assumes "hub_ok hub" "same_identity (hub_endpoints hub) eps'"
  shows "pairs_ok (entered eps') (hub_pairs hub)"
  using assms by (auto simp: hub_ok_def intro: pairs_ok_mono entered_mono)

lemma same_identity_append [simp]: "same_identity eps (eps @ [e])"
  by (simp add: same_identity_def nth_append)

lemma same_identity_update:
  "ep_key e = ep_key (eps ! i) \<Longrightarrow> ep_role e = ep_role (eps ! i) \<Longrightarrow> ep_socket e = ep_socket (eps ! i) \<Longrightarrow>
    same_identity eps (eps[i := e])"
  by (simp add: same_identity_def nth_update)

lemma same_identity_trans: "same_identity a b \<Longrightarrow> same_identity b c \<Longrightarrow> same_identity a c"
  by (auto simp: same_identity_def)

lemma peers_ok_append:
  assumes "peers_ok eps"
    and "\<And>ws. ep_peer e = Connected ws \<Longrightarrow>
      \<exists>e' \<in> set eps. ep_socket e' = ws \<and> ep_key e' = ep_key e \<and> ep_role e' \<noteq> ep_role e"
  shows "peers_ok (eps @ [e])"
  using assms unfolding peers_ok_def by fastforce

lemma peers_ok_update:
  assumes "peers_ok eps" "i < length eps"
    and "ep_key e = ep_key (eps ! i)" "ep_role e = ep_role (eps ! i)" "ep_socket e = ep_socket (eps ! i)"
    and "\<And>ws. ep_peer e = Connected ws \<Longrightarrow> ep_peer (eps ! i) = Connected ws \<or>
      (\<exists>j < length eps. j \<noteq> i \<and> ep_socket (eps ! j) = ws \<and> ep_key (eps ! j) = ep_key e \<and> ep_role (eps ! j) \<noteq> ep_role e)"
  shows "peers_ok (eps[i := e])"
proof (rule peers_ok_fills [OF assms(1) same_identity_update [OF assms(3-5)]])
  show "fills eps (eps[i := e])"
    unfolding fills_def
  proof (intro allI impI)
    fix k ws assume k: "k < length (eps[i := e])" "ep_peer (eps[i := e] ! k) = Connected ws"
    show "k < length eps \<and> ep_peer (eps ! k) = Connected ws \<or>
      (\<exists>j < length (eps[i := e]). ep_socket (eps[i := e] ! j) = ws \<and> ep_key (eps[i := e] ! j) = ep_key (eps[i := e] ! k) \<and>
        ep_role (eps[i := e] ! j) \<noteq> ep_role (eps[i := e] ! k))"
    proof (cases "k = i")
      case True
      with k assms(2,6) show ?thesis by (force simp: nth_update)
    next
      case False
      with k show ?thesis by (simp add: nth_update)
    qed
  qed
qed

text \<open>The roles of a relay: two, each the peer of the other.\<close>

locale two_roles =
  fixes peer_role :: "'r \<Rightarrow> 'r"
  assumes peer_differs: "peer_role role \<noteq> role"
begin

lemma meet_hub_ok:
  assumes "hub_ok hub" "meet peer_role hub ep = (hub', r)" "ep_peer ep = Pending"
  shows "hub_ok hub'"
proof -
  let ?i = "length (hub_endpoints hub)"
  let ?pairs = "enrol (ep_key ep) (ep_role ep) ?i (hub_pairs hub)"
  let ?other = "map_of (pair_of (hub_pairs hub) (ep_key ep)) (peer_role (ep_role ep))"
  have look: "map_of (pair_of ?pairs (ep_key ep)) (peer_role (ep_role ep)) = ?other"
    by (simp add: pair_of_enrol peer_differs)
  have in_range: "j < ?i \<and> ep_key (hub_endpoints hub ! j) = ep_key ep \<and> ep_role (hub_endpoints hub ! j) = peer_role (ep_role ep)"
    if "?other = Some j" for j
    using assms(1) that pairs_okD [of "entered (hub_endpoints hub)" "hub_pairs hub" "ep_key ep"]
    by (auto simp: hub_ok_def entered_def)
  have pairs: "pairs_ok (entered eps') ?pairs"
    if "same_identity (hub_endpoints hub) eps'" "entered eps' (ep_key ep) (ep_role ep) ?i" for eps'
    using hub_ok_pairs [OF assms(1) that(1)] that(2) by (rule pairs_ok_enrol)
  consider (alone) "?other = None" "hub_endpoints hub' = hub_endpoints hub @ [ep]" "hub_pairs hub' = ?pairs"
    | (clash) j where "?other = Some j" "hub_pairs hub' = ?pairs"
        "hub_endpoints hub' = hub_endpoints hub @ [ep\<lparr>ep_peer := Connected (ep_socket (hub_endpoints hub ! j)), ep_task := Over\<rparr>]"
    | (paired) j where "?other = Some j" "hub_pairs hub' = ?pairs"
        "hub_endpoints hub' = (hub_endpoints hub @ [ep\<lparr>ep_peer := Connected (ep_socket (hub_endpoints hub ! j))\<rparr>])
           [j := (hub_endpoints hub ! j)\<lparr>ep_peer := Connected (ep_socket ep)\<rparr>]"
    using assms(2) look in_range
    by (cases ?other) (auto simp: meet_def Let_def nth_append split: if_splits)
  then show ?thesis
  proof cases
    case alone
    have "peers_ok (hub_endpoints hub @ [ep])" using assms(1,3) by (intro peers_ok_append) (auto simp: hub_ok_def)
    with alone show ?thesis by (simp add: hub_ok_def pairs entered_def)
  next
    case clash
    note j = in_range [OF clash(1)]
    have "peers_ok (hub_endpoints hub @ [ep\<lparr>ep_peer := Connected (ep_socket (hub_endpoints hub ! j)), ep_task := Over\<rparr>])"
      using assms(1) j peer_differs [of "ep_role ep"] peer_differs [of "ep_role ep", symmetric]
      by (intro peers_ok_append) (auto simp: hub_ok_def intro!: bexI [of _ "hub_endpoints hub ! j"])
    with clash show ?thesis by (simp add: hub_ok_def pairs entered_def)
  next
    case paired
    note j = in_range [OF paired(1)]
    let ?mine = "ep\<lparr>ep_peer := Connected (ep_socket (hub_endpoints hub ! j))\<rparr>"
    let ?theirs = "(hub_endpoints hub ! j)\<lparr>ep_peer := Connected (ep_socket ep)\<rparr>"
    have mine: "peers_ok (hub_endpoints hub @ [?mine])"
      using assms(1) j peer_differs [of "ep_role ep"] peer_differs [of "ep_role ep", symmetric]
      by (intro peers_ok_append) (auto simp: hub_ok_def intro!: bexI [of _ "hub_endpoints hub ! j"])
    have "peers_ok ((hub_endpoints hub @ [?mine])[j := ?theirs])"
      using j peer_differs [of "ep_role ep"]
      by (intro peers_ok_update [OF mine]) (auto simp: nth_append intro!: exI [of _ ?i])
    moreover have "same_identity (hub_endpoints hub) ((hub_endpoints hub @ [?mine])[j := ?theirs])"
      using j by (intro same_identity_trans [OF same_identity_append same_identity_update]) (simp_all add: nth_append)
    moreover have "entered ((hub_endpoints hub @ [?mine])[j := ?theirs]) (ep_key ep) (ep_role ep) ?i"
      using j by (simp add: entered_def nth_update nth_append)
    ultimately show ?thesis using pairs paired by (simp add: hub_ok_def)
  qed
qed

end

lemma close_pair_hub_ok:
  assumes "hub_ok hub" "\<And>ep. ep_key (mark ep) = ep_key ep \<and> ep_role (mark ep) = ep_role ep \<and>
    ep_socket (mark ep) = ep_socket ep \<and> ep_peer (mark ep) = ep_peer ep"
  shows "hub_ok (close_pair mark key code hub)"
proof -
  let ?members = "map snd (pair_of (hub_pairs hub) key)"
  have id: "same_identity (hub_endpoints hub) (change_all (break_future \<circ> mark) ?members (hub_endpoints hub))"
    using assms(2) by (simp add: same_identity_def break_future_def)
  show ?thesis
    using assms(2) id
    by (intro hub_ok_change [OF assms(1)])
      (auto simp: close_pair_def Let_def fills_def break_future_def split: if_splits
        intro!: pairs_ok_delete hub_ok_pairs [OF assms(1)])
qed

lemma leave_close_hub_ok: "hub_ok hub \<Longrightarrow> hub_ok (leave_close i code hub)"
  by (rule hub_ok_change) (auto simp: leave_close_def Let_def same_identity_def fills_def nth_update
    intro!: hub_ok_pairs)

lemma leave_remove_hub_ok:
  assumes "hub_ok hub"
  shows "hub_ok (leave_remove i hub)"
proof (rule hub_ok_change [OF assms])
  have id: "same_identity (hub_endpoints hub) (hub_endpoints (leave_remove i hub))"
    by (auto simp: leave_remove_def Let_def same_identity_def nth_update)
  show "pairs_ok (entered (hub_endpoints (leave_remove i hub))) (hub_pairs (leave_remove i hub))"
    using pairs_ok_withdraw [OF hub_ok_pairs [OF assms id]] by (simp add: leave_remove_def Let_def)
qed (auto simp: leave_remove_def Let_def same_identity_def fills_def nth_update)

text \<open>Only keys, roles, sockets and futures matter.\<close>

definition core :: "('r, 'z) endpoint_scheme \<Rightarrow> relay_binding \<times> 'r \<times> nat \<times> peer_future" where
  "core ep = (ep_key ep, ep_role ep, ep_socket ep, ep_peer ep)"

lemma map_update_same: "f e = f (xs ! i) \<Longrightarrow> map f (xs[i := e]) = map f xs"
  by (rule nth_equalityI) (auto simp: nth_update)

lemma hub_ok_core:
  fixes hub hub' :: "('r, 'z, 'h) hub_scheme"
  assumes "hub_ok hub" "hub_pairs hub' = hub_pairs hub" "map core (hub_endpoints hub') = map core (hub_endpoints hub)"
  shows "hub_ok hub'"
proof -
  have len: "length (hub_endpoints hub') = length (hub_endpoints hub)" using assms(3) by (rule map_eq_imp_length_eq)
  have "core (hub_endpoints hub' ! i) = core (hub_endpoints hub ! i)" if "i < length (hub_endpoints hub)" for i
    using assms(3) that len by (metis nth_map)
  then have same: "same_identity (hub_endpoints hub) (hub_endpoints hub')" and fill: "fills (hub_endpoints hub) (hub_endpoints hub')"
    using len by (auto simp: same_identity_def fills_def core_def)
  have "pairs_ok (entered (hub_endpoints hub')) (hub_pairs hub')"
    using hub_ok_pairs [OF assms(1) same] assms(2) by simp
  then show ?thesis by (rule hub_ok_change [OF assms(1) same fill])
qed

text \<open>What the operations leave of a part of the endpoints that is neither future nor task.\<close>

lemma meet_map:
  assumes "meet peer_role hub ep = (hub', r)" "\<And>e x. g (e\<lparr>ep_peer := x\<rparr>) = g e" "\<And>e x. g (e\<lparr>ep_task := x\<rparr>) = g e"
  shows "map g (hub_endpoints hub') = map g (hub_endpoints hub) @ [g ep]"
proof (cases "map_of (pair_of (enrol (ep_key ep) (ep_role ep) (length (hub_endpoints hub)) (hub_pairs hub)) (ep_key ep)) (peer_role (ep_role ep))")
  case None
  then show ?thesis using assms(1) by (auto simp: meet_def Let_def)
next
  case (Some j)
  then show ?thesis
    using assms(1)
    by (intro nth_equalityI) (auto simp: meet_def Let_def nth_update nth_append assms(2,3) less_Suc_eq split: if_splits)
qed

lemma leave_close_map:
  "(\<And>e x. g (e\<lparr>ep_task := x\<rparr>) = g e) \<Longrightarrow> map g (hub_endpoints (leave_close i code hub)) = map g (hub_endpoints hub)"
  by (simp add: leave_close_def Let_def map_update_same)

lemma leave_remove_map:
  "(\<And>e x. g (e\<lparr>ep_task := x\<rparr>) = g e) \<Longrightarrow> map g (hub_endpoints (leave_remove i hub)) = map g (hub_endpoints hub)"
  by (simp add: leave_remove_def Let_def map_update_same)

lemma close_pair_map:
  assumes "\<And>e x. g (e\<lparr>ep_peer := x\<rparr>) = g e" "\<And>e. g (mark e) = g e"
  shows "map g (hub_endpoints (close_pair mark key code hub)) = map g (hub_endpoints hub)"
  using assms by (intro nth_equalityI) (auto simp: close_pair_def Let_def break_future_def)

lemma length_filter_update:
  "i < length xs \<Longrightarrow> int (length (filter P (xs[i := v]))) = int (length (filter P xs)) - of_bool (P (xs ! i)) + of_bool (P v)"
proof (induction xs arbitrary: i)
  case (Cons x xs)
  then show ?case by (cases i) auto
qed simp

lemma length_filter_map: "map g xs = map g ys \<Longrightarrow> length (filter g xs) = length (filter g ys)"
proof -
  have "length (filter id (map g zs)) = length (filter g zs)" for zs by (simp add: filter_map)
  then show "map g xs = map g ys \<Longrightarrow> length (filter g xs) = length (filter g ys)" by metis
qed

end
