(* ===== verification/Relay_Hub.thy ===== *)
theory Relay_Hub
  imports Pairing
begin

text \<open>
  The two relay hubs as state machines: \<open>ego_browser/relay/hub.py\<close> with its local and its Redis
  endpoints, revoked generations and connection metrics, and \<open>device_control/relay_hub.py\<close>. A step
  is what runs without another task in between: a locked section, or the socket closes at the end of
  a task. The frames themselves are in \<open>Metering\<close>; here a task's body is known by how it ends.
\<close>

section \<open>Browser relay hub\<close>

definition eb_peer_role :: "eb_role \<Rightarrow> eb_role" where
  "eb_peer_role role = (if role = Bridge then Wrapper else Bridge)"

record eb_endpoint = "eb_role endpoint" +
  ep_close_code :: int
  ep_counted :: bool
  ep_frames :: nat
  ep_bytes :: nat

record eb_dist_endpoint =
  de_key :: relay_binding
  de_role :: eb_role
  de_socket :: nat
  de_shutdown :: bool
  de_close_code :: int
  de_counted :: bool
  de_task :: serving

record eb_hub = "(eb_role, unit eb_endpoint_ext) hub" +
  eh_dist_pairs :: "eb_role pairs"
  eh_dist :: "eb_dist_endpoint list"
  eh_closed :: "relay_binding list"
  eh_closing :: bool
  eh_active :: "eb_role \<Rightarrow> int"
  eh_published :: "(uuid \<times> int) list"

definition eb_new_hub :: eb_hub where
  "eb_new_hub = \<lparr>hub_pairs = [], hub_endpoints = [], hub_closes = [], eh_dist_pairs = [], eh_dist = [],
     eh_closed = [], eh_closing = False, eh_active = (\<lambda>_. 0), eh_published = []\<rparr>"

definition eb_new_endpoint :: "eb_claims \<Rightarrow> nat \<Rightarrow> eb_endpoint" where
  "eb_new_endpoint claims ws =
     \<lparr>ep_key = eb_relay_binding (ec_binding claims), ep_role = ec_role claims, ep_socket = ws, ep_peer = Pending,
      ep_task = Running, ep_close_code = 1011, ep_counted = False, ep_frames = 0, ep_bytes = 0\<rparr>"

definition eb_record_open :: "nat \<Rightarrow> eb_hub \<Rightarrow> eb_hub" where
  "eb_record_open i hub =
     (let ep = hub_endpoints hub ! i in
      hub\<lparr>hub_endpoints := (hub_endpoints hub)[i := ep\<lparr>ep_counted := True\<rparr>],
        eh_active := (eh_active hub)(ep_role ep := eh_active hub (ep_role ep) + 1)\<rparr>)"

definition eb_record_close :: "nat \<Rightarrow> eb_hub \<Rightarrow> eb_hub" where
  "eb_record_close i hub =
     (let ep = hub_endpoints hub ! i in
      if \<not> ep_counted ep then hub
      else hub\<lparr>hub_endpoints := (hub_endpoints hub)[i := ep\<lparr>ep_counted := False\<rparr>],
        eh_active := (eh_active hub)(ep_role ep := max 0 (eh_active hub (ep_role ep) - 1))\<rparr>)"

definition eb_connect_local :: "eb_hub \<Rightarrow> eb_claims \<Rightarrow> nat \<Rightarrow> eb_hub \<times> connect_result" where
  "eb_connect_local hub claims ws =
     (let ep = eb_new_endpoint claims ws; key = ep_key ep in
      if eh_closing hub \<or> key \<in> set (eh_closed hub) \<or> map_of (pair_of (hub_pairs hub) key) (ec_role claims) \<noteq> None
      then (close_socket ws 1008 hub, Rejected)
      else (case meet eb_peer_role hub ep of
          (hub1, Registered i) \<Rightarrow> (eb_record_open i hub1, Registered i)
        | (hub1, r) \<Rightarrow> (hub1, r)))"

text \<open>How the body of a local task ends, and the code both sockets are closed with.\<close>

datatype eb_outcome = Pair_timeout | Binding_closed | Forward_ended | Connection_timeout

definition eb_local_code :: "eb_endpoint \<Rightarrow> eb_outcome \<Rightarrow> int" where
  "eb_local_code ep outcome =
     (case outcome of Pair_timeout \<Rightarrow> 1008 | Binding_closed \<Rightarrow> ep_close_code ep | Forward_ended \<Rightarrow> 1011 | Connection_timeout \<Rightarrow> 1008)"

definition eb_outcome_fits :: "eb_endpoint \<Rightarrow> eb_outcome \<Rightarrow> bool" where
  "eb_outcome_fits ep outcome \<longleftrightarrow>
     (case outcome of
        Pair_timeout \<Rightarrow> ep_peer ep = Pending
      | Binding_closed \<Rightarrow> ep_peer ep = Broken
      | _ \<Rightarrow> (case ep_peer ep of Connected _ \<Rightarrow> True | _ \<Rightarrow> False))"

definition eb_leave_local :: "nat \<Rightarrow> eb_outcome \<Rightarrow> eb_hub \<Rightarrow> eb_hub" where
  "eb_leave_local i outcome hub = leave_close i (eb_local_code (hub_endpoints hub ! i) outcome) hub"

definition eb_remove_local :: "nat \<Rightarrow> eb_hub \<Rightarrow> eb_hub" where
  "eb_remove_local i hub = eb_record_close i (leave_remove i hub)"

definition eb_count_frame :: "nat \<Rightarrow> nat \<Rightarrow> eb_hub \<Rightarrow> eb_hub" where
  "eb_count_frame i n hub =
     (let ep = hub_endpoints hub ! i in
      hub\<lparr>hub_endpoints := (hub_endpoints hub)[i := ep\<lparr>ep_frames := Suc (ep_frames ep), ep_bytes := ep_bytes ep + n\<rparr>]\<rparr>)"

subsection \<open>Redis endpoints\<close>

definition eb_dist_open :: "nat \<Rightarrow> eb_hub \<Rightarrow> eb_hub" where
  "eb_dist_open i hub =
     (let ep = eh_dist hub ! i in
      hub\<lparr>eh_dist := (eh_dist hub)[i := ep\<lparr>de_counted := True\<rparr>],
        eh_active := (eh_active hub)(de_role ep := eh_active hub (de_role ep) + 1)\<rparr>)"

definition eb_dist_close :: "nat \<Rightarrow> eb_hub \<Rightarrow> eb_hub" where
  "eb_dist_close i hub =
     (let ep = eh_dist hub ! i in
      if \<not> de_counted ep then hub
      else hub\<lparr>eh_dist := (eh_dist hub)[i := ep\<lparr>de_counted := False\<rparr>],
        eh_active := (eh_active hub)(de_role ep := max 0 (eh_active hub (de_role ep) - 1))\<rparr>)"

definition eb_connect_distributed :: "eb_hub \<Rightarrow> eb_claims \<Rightarrow> nat \<Rightarrow> eb_hub \<times> connect_result" where
  "eb_connect_distributed hub claims ws =
     (let key = eb_relay_binding (ec_binding claims); role = ec_role claims; i = length (eh_dist hub) in
      if eh_closing hub \<or> key \<in> set (eh_closed hub) \<or> map_of (pair_of (eh_dist_pairs hub) key) role \<noteq> None
      then (close_socket ws 1008 hub, Rejected)
      else (hub\<lparr>eh_dist_pairs := enrol key role i (eh_dist_pairs hub),
              eh_dist := eh_dist hub @ [\<lparr>de_key = key, de_role = role, de_socket = ws, de_shutdown = False,
                de_close_code = 1008, de_counted = False, de_task = Running\<rparr>]\<rparr>,
            Registered i))"

text \<open>How far the task of a Redis endpoint got; \<open>Served\<close> has the code \<open>_serve_distributed\<close> returned.\<close>

datatype eb_progress =
    Redis_failed | Shut_before_register | Registration_refused | State_failed | Wait_ended | Served int

definition eb_distributed_code :: "int \<Rightarrow> eb_progress \<Rightarrow> int" where
  "eb_distributed_code endpoint_code p =
     (case p of
        Redis_failed \<Rightarrow> 1011 | Shut_before_register \<Rightarrow> endpoint_code | Registration_refused \<Rightarrow> 1008
      | State_failed \<Rightarrow> 1011 | Wait_ended \<Rightarrow> endpoint_code | Served code \<Rightarrow> code)"

definition eb_leave_distributed :: "nat \<Rightarrow> eb_progress \<Rightarrow> eb_hub \<Rightarrow> eb_hub" where
  "eb_leave_distributed i p hub =
     (let ep = eh_dist hub ! i; code = eb_distributed_code (de_close_code ep) p in
      (close_socket (de_socket ep) code hub)\<lparr>eh_dist := (eh_dist hub)[i := ep\<lparr>de_task := Leaving code\<rparr>]\<rparr>)"

definition eb_remove_distributed :: "nat \<Rightarrow> eb_hub \<Rightarrow> eb_hub" where
  "eb_remove_distributed i hub =
     (let ep = eh_dist hub ! i in
      eb_dist_close i (hub\<lparr>eh_dist_pairs := withdraw (de_key ep) (de_role ep) i (eh_dist_pairs hub),
        eh_dist := (eh_dist hub)[i := ep\<lparr>de_task := Over\<rparr>]\<rparr>))"

subsection \<open>Closing\<close>

definition eb_close_binding :: "uuid \<Rightarrow> int \<Rightarrow> int \<Rightarrow> bool \<Rightarrow> eb_hub \<Rightarrow> eb_hub" where
  "eb_close_binding binding_id generation code publish hub =
     (let key = \<lparr>rb_kind = Ego_browser, rb_binding_id = binding_id, rb_generation = generation\<rparr>;
          hub1 = close_pair (\<lambda>ep. ep\<lparr>ep_close_code := code\<rparr>) key code (hub\<lparr>eh_closed := List.insert key (eh_closed hub)\<rparr>);
          members = map snd (pair_of (eh_dist_pairs hub) key) in
      hub1\<lparr>eh_dist_pairs := AList.delete key (eh_dist_pairs hub),
        eh_dist := change_all (\<lambda>ep. ep\<lparr>de_close_code := code, de_shutdown := True\<rparr>) members (eh_dist hub),
        hub_closes := hub_closes hub1 @ map (\<lambda>i. (de_socket (eh_dist hub ! i), code)) members,
        eh_published := (if publish then eh_published hub @ [(binding_id, generation)] else eh_published hub)\<rparr>)"

definition eb_shutdown :: "eb_hub \<Rightarrow> eb_hub" where
  "eb_shutdown hub =
     fold (\<lambda>key. eb_close_binding (rb_binding_id key) (rb_generation key) 1008 False)
       (remdups (map fst (hub_pairs hub) @ map fst (eh_dist_pairs hub))) (hub\<lparr>eh_closing := True\<rparr>)"

inductive eb_step :: "eb_hub \<Rightarrow> eb_hub \<Rightarrow> bool" where
  Connect_local: "eb_connect_local hub claims ws = (hub', r) \<Longrightarrow> eb_step hub hub'"
| Count_frame: "i < length (hub_endpoints hub) \<Longrightarrow> ep_task (hub_endpoints hub ! i) = Running \<Longrightarrow>
    eb_step hub (eb_count_frame i n hub)"
| Leave_local: "i < length (hub_endpoints hub) \<Longrightarrow> ep_task (hub_endpoints hub ! i) = Running \<Longrightarrow>
    eb_outcome_fits (hub_endpoints hub ! i) outcome \<Longrightarrow> eb_step hub (eb_leave_local i outcome hub)"
| Remove_local: "i < length (hub_endpoints hub) \<Longrightarrow> ep_task (hub_endpoints hub ! i) = Leaving code \<Longrightarrow>
    eb_step hub (eb_remove_local i hub)"
| Connect_distributed: "eb_connect_distributed hub claims ws = (hub', r) \<Longrightarrow> eb_step hub hub'"
| Open_distributed: "i < length (eh_dist hub) \<Longrightarrow> de_task (eh_dist hub ! i) = Running \<Longrightarrow>
    \<not> de_counted (eh_dist hub ! i) \<Longrightarrow> eb_step hub (eb_dist_open i hub)"
| Leave_distributed: "i < length (eh_dist hub) \<Longrightarrow> de_task (eh_dist hub ! i) = Running \<Longrightarrow>
    eb_step hub (eb_leave_distributed i p hub)"
| Remove_distributed: "i < length (eh_dist hub) \<Longrightarrow> de_task (eh_dist hub ! i) = Leaving code \<Longrightarrow>
    eb_step hub (eb_remove_distributed i hub)"
| Close_binding: "eb_step hub (eb_close_binding binding_id generation code publish hub)"
| Shutdown: "eb_step hub (eb_shutdown hub)"

definition eb_reachable :: "eb_hub \<Rightarrow> bool" where
  "eb_reachable = eb_step\<^sup>*\<^sup>* eb_new_hub"

section \<open>Device relay hub\<close>

type_synonym dr_hub = "(dr_role, unit) hub"

definition dr_new_hub :: dr_hub where "dr_new_hub = \<lparr>hub_pairs = [], hub_endpoints = [], hub_closes = []\<rparr>"

definition dr_connect :: "dr_hub \<Rightarrow> dr_claims \<Rightarrow> nat \<Rightarrow> dr_hub \<times> connect_result" where
  "dr_connect hub claims ws =
     (let key = dr_relay_binding (dc_binding claims) in
      if map_of (pair_of (hub_pairs hub) key) (dc_role claims) \<noteq> None then (close_socket ws 1008 hub, Rejected)
      else meet dr_peer hub
        \<lparr>ep_key = key, ep_role = dc_role claims, ep_socket = ws, ep_peer = Pending, ep_task = Running\<rparr>)"

datatype dr_outcome = Not_paired | Dr_forward_ended | Dr_connection_timeout

definition dr_outcome_code :: "dr_outcome \<Rightarrow> int" where
  "dr_outcome_code outcome = (case outcome of Not_paired \<Rightarrow> 1008 | Dr_forward_ended \<Rightarrow> 1011 | Dr_connection_timeout \<Rightarrow> 1008)"

definition dr_outcome_fits :: "dr_role endpoint \<Rightarrow> dr_outcome \<Rightarrow> bool" where
  "dr_outcome_fits ep outcome \<longleftrightarrow> ((outcome = Not_paired) = (case ep_peer ep of Connected _ \<Rightarrow> False | _ \<Rightarrow> True))"

definition dr_leave :: "nat \<Rightarrow> dr_outcome \<Rightarrow> dr_hub \<Rightarrow> dr_hub" where
  "dr_leave i outcome hub = leave_close i (dr_outcome_code outcome) hub"

definition dr_close_binding :: "uuid \<Rightarrow> int \<Rightarrow> int \<Rightarrow> dr_hub \<Rightarrow> dr_hub" where
  "dr_close_binding session_id generation code hub =
     close_pair id \<lparr>rb_kind = Device_control, rb_binding_id = session_id, rb_generation = generation\<rparr> code hub"

inductive dr_step :: "dr_hub \<Rightarrow> dr_hub \<Rightarrow> bool" where
  "dr_connect hub claims ws = (hub', r) \<Longrightarrow> dr_step hub hub'"
| "i < length (hub_endpoints hub) \<Longrightarrow> ep_task (hub_endpoints hub ! i) = Running \<Longrightarrow>
    dr_outcome_fits (hub_endpoints hub ! i) outcome \<Longrightarrow> dr_step hub (dr_leave i outcome hub)"
| "i < length (hub_endpoints hub) \<Longrightarrow> ep_task (hub_endpoints hub ! i) = Leaving code \<Longrightarrow> dr_step hub (leave_remove i hub)"
| "dr_step hub (dr_close_binding session_id generation code hub)"

definition dr_reachable :: "dr_hub \<Rightarrow> bool" where
  "dr_reachable = dr_step\<^sup>*\<^sup>* dr_new_hub"

interpretation eb_roles: two_roles eb_peer_role
  by unfold_locales (auto simp: eb_peer_role_def split: if_splits)

interpretation dr_roles: two_roles dr_peer
  by unfold_locales simp

section \<open>The invariant\<close>

definition dist_entered :: "eb_dist_endpoint list \<Rightarrow> relay_binding \<Rightarrow> eb_role \<Rightarrow> nat \<Rightarrow> bool" where
  "dist_entered eps key role i \<longleftrightarrow> i < length eps \<and> de_key (eps ! i) = key \<and> de_role (eps ! i) = role"

definition local_counted :: "eb_role \<Rightarrow> eb_endpoint \<Rightarrow> bool" where
  "local_counted role ep \<longleftrightarrow> ep_counted ep \<and> ep_role ep = role"

definition dist_counted :: "eb_role \<Rightarrow> eb_dist_endpoint \<Rightarrow> bool" where
  "dist_counted role ep \<longleftrightarrow> de_counted ep \<and> de_role ep = role"

text \<open>The connections that were opened and not yet closed in the metrics.\<close>

definition open_connections :: "eb_role \<Rightarrow> eb_hub \<Rightarrow> int" where
  "open_connections role hub = int (length (filter (local_counted role) (hub_endpoints hub))) +
     int (length (filter (dist_counted role) (eh_dist hub)))"

definition closed_absent :: "eb_hub \<Rightarrow> bool" where
  "closed_absent hub \<longleftrightarrow> (\<forall>k \<in> set (eh_closed hub). map_of (hub_pairs hub) k = None \<and> map_of (eh_dist_pairs hub) k = None)"

definition eb_hub_ok :: "eb_hub \<Rightarrow> bool" where
  "eb_hub_ok hub \<longleftrightarrow> hub_ok hub \<and> pairs_ok (dist_entered (eh_dist hub)) (eh_dist_pairs hub) \<and>
     closed_absent hub \<and> (\<forall>role. eh_active hub role = open_connections role hub)"

lemma meet_rest:
  fixes hub hub' :: eb_hub
  assumes "meet p hub ep = (hub', r)"
  shows "hub_pairs hub' = enrol (ep_key ep) (ep_role ep) (length (hub_endpoints hub)) (hub_pairs hub)"
    "eh_dist_pairs hub' = eh_dist_pairs hub" "eh_dist hub' = eh_dist hub" "eh_closed hub' = eh_closed hub"
    "eh_active hub' = eh_active hub" "eh_closing hub' = eh_closing hub"
  using assms by (auto simp: meet_def Let_def split: option.splits if_splits)

lemma map_of_enrol_other: "k \<noteq> key \<Longrightarrow> map_of (enrol key role i pairs) k = map_of pairs k"
  by (simp add: enrol_def map_of_update)

lemma map_of_withdraw_None: "map_of pairs k = None \<Longrightarrow> map_of (withdraw key role i pairs) k = None"
  by (auto simp: withdraw_def Let_def map_of_update delete_conv pair_of_def split: if_splits)

lemma dist_ok_change:
  assumes "pairs_ok (dist_entered eps) pairs" "length eps \<le> length eps'"
    "\<And>i. i < length eps \<Longrightarrow> de_key (eps' ! i) = de_key (eps ! i) \<and> de_role (eps' ! i) = de_role (eps ! i)"
  shows "pairs_ok (dist_entered eps') pairs"
  using assms(2,3) by (intro pairs_ok_mono [OF assms(1)]) (auto simp: dist_entered_def)

lemmas open_connections_eqs = open_connections_def local_counted_def dist_counted_def

lemma open_connections_map:
  assumes "map (local_counted role) (hub_endpoints hub') = map (local_counted role) (hub_endpoints hub)"
    "map (dist_counted role) (eh_dist hub') = map (dist_counted role) (eh_dist hub)"
  shows "open_connections role hub' = open_connections role hub"
  using length_filter_map [OF assms(1)] length_filter_map [OF assms(2)] by (simp add: open_connections_def)

lemma eb_hub_okI:
  assumes "hub_ok hub'" "pairs_ok (dist_entered (eh_dist hub')) (eh_dist_pairs hub')" "closed_absent hub'"
    "\<And>role. eh_active hub' role = open_connections role hub'"
  shows "eb_hub_ok hub'"
  using assms by (simp add: eb_hub_ok_def)

lemma eb_hub_okD:
  assumes "eb_hub_ok hub"
  shows "hub_ok hub" "pairs_ok (dist_entered (eh_dist hub)) (eh_dist_pairs hub)" "closed_absent hub"
    "eh_active hub role = open_connections role hub"
  using assms by (simp_all add: eb_hub_ok_def)

lemma record_open_rest:
  "hub_pairs (eb_record_open i hub) = hub_pairs hub" "eh_dist (eb_record_open i hub) = eh_dist hub"
  "eh_dist_pairs (eb_record_open i hub) = eh_dist_pairs hub" "eh_closed (eb_record_open i hub) = eh_closed hub"
  "map core (hub_endpoints (eb_record_open i hub)) = map core (hub_endpoints hub)"
  by (simp_all add: eb_record_open_def Let_def core_def map_update_same)

lemma record_close_rest:
  "hub_pairs (eb_record_close i hub) = hub_pairs hub" "eh_dist (eb_record_close i hub) = eh_dist hub"
  "eh_dist_pairs (eb_record_close i hub) = eh_dist_pairs hub" "eh_closed (eb_record_close i hub) = eh_closed hub"
  "map core (hub_endpoints (eb_record_close i hub)) = map core (hub_endpoints hub)"
  by (simp_all add: eb_record_close_def Let_def core_def map_update_same)

lemma record_open_ok:
  assumes "eb_hub_ok hub" "i < length (hub_endpoints hub)" "\<not> ep_counted (hub_endpoints hub ! i)"
  shows "eb_hub_ok (eb_record_open i hub)"
proof (rule eb_hub_okI)
  show "hub_ok (eb_record_open i hub)"
    by (rule hub_ok_core [OF eb_hub_okD(1) [OF assms(1)]]) (simp_all add: record_open_rest)
  show "eh_active (eb_record_open i hub) role = open_connections role (eb_record_open i hub)" for role
  proof -
    have "eh_active (eb_record_open i hub) role = eh_active hub role + of_bool (ep_role (hub_endpoints hub ! i) = role)"
      by (simp add: eb_record_open_def Let_def)
    moreover have "open_connections role (eb_record_open i hub) =
        open_connections role hub + of_bool (ep_role (hub_endpoints hub ! i) = role)"
      using assms(2,3) by (simp add: open_connections_def eb_record_open_def Let_def length_filter_update local_counted_def)
    ultimately show ?thesis using eb_hub_okD(4) [OF assms(1)] by simp
  qed
qed (use eb_hub_okD [OF assms(1)] in \<open>simp_all add: record_open_rest closed_absent_def\<close>)

lemma record_close_ok:
  assumes "eb_hub_ok hub" "i < length (hub_endpoints hub)"
  shows "eb_hub_ok (eb_record_close i hub)"
proof (cases "ep_counted (hub_endpoints hub ! i)")
  case True
  let ?r = "ep_role (hub_endpoints hub ! i)"
  show ?thesis
  proof (rule eb_hub_okI)
    show "hub_ok (eb_record_close i hub)"
      by (rule hub_ok_core [OF eb_hub_okD(1) [OF assms(1)]]) (simp_all add: record_close_rest)
    have "hub_endpoints hub ! i \<in> set (filter (local_counted ?r) (hub_endpoints hub))"
      using True assms(2) by (simp add: local_counted_def)
    then have "0 < length (filter (local_counted ?r) (hub_endpoints hub))" by (metis length_greater_0_conv length_pos_if_in_set)
    then have "1 \<le> open_connections ?r hub" unfolding open_connections_def by linarith
    then have "eh_active (eb_record_close i hub) role = eh_active hub role - of_bool (?r = role)" for role
      using True eb_hub_okD(4) [OF assms(1)] by (simp add: eb_record_close_def Let_def)
    moreover have "open_connections role (eb_record_close i hub) = open_connections role hub - of_bool (?r = role)" for role
      using assms(2) True
      by (simp add: open_connections_def eb_record_close_def Let_def length_filter_update local_counted_def)
    ultimately show "eh_active (eb_record_close i hub) role = open_connections role (eb_record_close i hub)" for role
      using eb_hub_okD(4) [OF assms(1)] by simp
  qed (use eb_hub_okD [OF assms(1)] in \<open>simp_all add: record_close_rest closed_absent_def\<close>)
next
  case False
  with assms show ?thesis by (simp add: eb_record_close_def)
qed

lemma connect_local_ok:
  assumes "eb_hub_ok hub" "eb_connect_local hub claims ws = (hub', r)"
  shows "eb_hub_ok hub'"
proof (cases "eh_closing hub \<or> eb_relay_binding (ec_binding claims) \<in> set (eh_closed hub) \<or>
    map_of (pair_of (hub_pairs hub) (eb_relay_binding (ec_binding claims))) (ec_role claims) \<noteq> None")
  case True
  then have "hub' = close_socket ws 1008 hub"
    using assms(2) unfolding eb_connect_local_def Let_def eb_new_endpoint_def endpoint.simps by (simp only: if_True prod.inject)
  moreover have "hub_ok (close_socket ws 1008 hub)"
    by (rule hub_ok_core [OF eb_hub_okD(1) [OF assms(1)]]) (simp_all add: close_socket_def)
  ultimately show ?thesis using assms(1) by (simp add: eb_hub_ok_def closed_absent_def open_connections_def close_socket_def)
next
  case False
  let ?ep = "eb_new_endpoint claims ws"
  obtain hub1 r1 where m: "meet eb_peer_role hub ?ep = (hub1, r1)" by (cases "meet eb_peer_role hub ?ep")
  have ep: "ep_peer ?ep = Pending" "\<not> ep_counted ?ep" "ep_key ?ep = eb_relay_binding (ec_binding claims)"
    by (simp_all add: eb_new_endpoint_def)
  have lc: "map (local_counted role) (hub_endpoints hub1) = map (local_counted role) (hub_endpoints hub) @ [False]" for role
    using meet_map [OF m, of "local_counted role"] ep(2) by (simp add: local_counted_def)
  have cnt: "map ep_counted (hub_endpoints hub1) = map ep_counted (hub_endpoints hub) @ [False]"
    using meet_map [OF m, of ep_counted] ep(2) by simp
  have "hub_ok hub1" using assms(1) ep(1) eb_roles.meet_hub_ok [OF _ m] by (simp add: eb_hub_ok_def)
  moreover have "closed_absent hub1"
  proof -
    have "k \<noteq> ep_key ?ep" if "k \<in> set (eh_closed hub)" for k using that False ep(3) by auto
    then show ?thesis
      using eb_hub_okD(3) [OF assms(1)] by (simp add: closed_absent_def meet_rest [OF m] map_of_enrol_other)
  qed
  moreover have "open_connections role hub1 = open_connections role hub" for role
  proof -
    have "map (local_counted role) (hub_endpoints hub1) = map (local_counted role) (hub_endpoints hub @ [?ep])"
      using lc ep(2) by (simp add: local_counted_def)
    from length_filter_map [OF this] show ?thesis
      using ep(2) meet_rest [OF m] by (simp add: open_connections_def local_counted_def)
  qed
  ultimately have ok1: "eb_hub_ok hub1" using assms(1) meet_rest [OF m] by (simp add: eb_hub_ok_def)
  show ?thesis
  proof (cases r1)
    case (Registered i)
    then have "i = length (hub_endpoints hub)" using m by (auto simp: meet_def Let_def split: option.splits if_splits)
    moreover have "length (hub_endpoints hub1) = Suc (length (hub_endpoints hub))"
      using arg_cong [OF cnt, of length] by simp
    ultimately have "i < length (hub_endpoints hub1)" "\<not> ep_counted (hub_endpoints hub1 ! i)"
      using cnt by (auto dest: arg_cong [where f = "\<lambda>xs. xs ! i"] simp: nth_append)
    from record_open_ok [OF ok1 this] show ?thesis
      using assms(2) False m Registered by (simp add: eb_connect_local_def Let_def eb_new_endpoint_def)
  qed (use assms(2) False m ok1 in \<open>auto simp: eb_connect_local_def Let_def eb_new_endpoint_def\<close>)
qed

lemma count_frame_ok: "eb_hub_ok hub \<Longrightarrow> eb_hub_ok (eb_count_frame i n hub)"
proof (rule eb_hub_okI)
  assume ok: "eb_hub_ok hub"
  show "hub_ok (eb_count_frame i n hub)"
    by (rule hub_ok_core [OF eb_hub_okD(1) [OF ok]]) (simp_all add: eb_count_frame_def Let_def core_def map_update_same)
  show "eh_active (eb_count_frame i n hub) role = open_connections role (eb_count_frame i n hub)" for role
  proof -
    have "open_connections role (eb_count_frame i n hub) = open_connections role hub"
      by (rule open_connections_map) (simp_all add: eb_count_frame_def Let_def local_counted_def map_update_same)
    then show ?thesis using eb_hub_okD(4) [OF ok] by (simp add: eb_count_frame_def Let_def)
  qed
qed (auto dest: eb_hub_okD simp: eb_count_frame_def Let_def closed_absent_def)

lemma leave_close_rest:
  fixes hub :: eb_hub
  shows "hub_pairs (leave_close i code hub) = hub_pairs hub" "eh_dist (leave_close i code hub) = eh_dist hub"
    "eh_dist_pairs (leave_close i code hub) = eh_dist_pairs hub" "eh_closed (leave_close i code hub) = eh_closed hub"
    "eh_active (leave_close i code hub) = eh_active hub"
  by (simp_all add: leave_close_def Let_def)

lemma leave_local_ok:
  assumes "eb_hub_ok hub"
  shows "eb_hub_ok (eb_leave_local i outcome hub)"
  unfolding eb_leave_local_def
proof (rule eb_hub_okI)
  let ?hub = "leave_close i (eb_local_code (hub_endpoints hub ! i) outcome) hub"
  show "hub_ok ?hub" by (rule leave_close_hub_ok [OF eb_hub_okD(1) [OF assms]])
  show "eh_active ?hub role = open_connections role ?hub" for role
  proof -
    have "map (local_counted role) (hub_endpoints ?hub) = map (local_counted role) (hub_endpoints hub)"
      by (rule leave_close_map) (simp add: local_counted_def)
    then have "open_connections role ?hub = open_connections role hub"
      by (rule open_connections_map) (simp add: leave_close_rest)
    then show ?thesis using eb_hub_okD(4) [OF assms] by (simp add: leave_close_rest)
  qed
qed (use eb_hub_okD [OF assms] in \<open>simp_all add: leave_close_rest closed_absent_def\<close>)

lemma leave_remove_rest:
  fixes hub :: eb_hub
  shows "eh_dist (leave_remove i hub) = eh_dist hub"
    "hub_pairs (leave_remove i hub) = withdraw (ep_key (hub_endpoints hub ! i)) (ep_role (hub_endpoints hub ! i)) i (hub_pairs hub)"
    "eh_dist_pairs (leave_remove i hub) = eh_dist_pairs hub" "eh_closed (leave_remove i hub) = eh_closed hub"
    "eh_active (leave_remove i hub) = eh_active hub" "length (hub_endpoints (leave_remove i hub)) = length (hub_endpoints hub)"
  by (simp_all add: leave_remove_def Let_def)

lemma remove_local_ok:
  assumes "eb_hub_ok hub" "i < length (hub_endpoints hub)"
  shows "eb_hub_ok (eb_remove_local i hub)"
  unfolding eb_remove_local_def
proof (rule record_close_ok)
  show "eb_hub_ok (leave_remove i hub)"
  proof (rule eb_hub_okI)
    show "hub_ok (leave_remove i hub)" by (rule leave_remove_hub_ok [OF eb_hub_okD(1) [OF assms(1)]])
    show "eh_active (leave_remove i hub) role = open_connections role (leave_remove i hub)" for role
    proof -
      have "map (local_counted role) (hub_endpoints (leave_remove i hub)) = map (local_counted role) (hub_endpoints hub)"
        by (rule leave_remove_map) (simp add: local_counted_def)
      then have "open_connections role (leave_remove i hub) = open_connections role hub"
        by (rule open_connections_map) (simp add: leave_remove_rest)
      then show ?thesis using eb_hub_okD(4) [OF assms(1)] by (simp add: leave_remove_rest)
    qed
  qed (use eb_hub_okD [OF assms(1)] in \<open>simp_all add: leave_remove_rest closed_absent_def map_of_withdraw_None\<close>)
  show "i < length (hub_endpoints (leave_remove i hub))" using assms(2) by (simp add: leave_remove_rest)
qed

lemma hub_ok_same:
  fixes hub hub' :: eb_hub
  shows "hub_ok hub \<Longrightarrow> hub_pairs hub' = hub_pairs hub \<Longrightarrow> hub_endpoints hub' = hub_endpoints hub \<Longrightarrow> hub_ok hub'"
  by (simp add: hub_ok_def)

lemma connect_distributed_ok:
  assumes "eb_hub_ok hub" "eb_connect_distributed hub claims ws = (hub', r)"
  shows "eb_hub_ok hub'"
proof -
  let ?key = "eb_relay_binding (ec_binding claims)" and ?role = "ec_role claims" and ?i = "length (eh_dist hub)"
  let ?ep = "\<lparr>de_key = ?key, de_role = ?role, de_socket = ws, de_shutdown = False, de_close_code = 1008,
    de_counted = False, de_task = Running\<rparr>"
  consider "hub' = close_socket ws 1008 hub"
    | "?key \<notin> set (eh_closed hub)" "hub' = hub\<lparr>eh_dist_pairs := enrol ?key ?role ?i (eh_dist_pairs hub), eh_dist := eh_dist hub @ [?ep]\<rparr>"
    using assms(2) by (auto simp: eb_connect_distributed_def Let_def split: if_splits)
  then show ?thesis
  proof cases
    case 1
    then show ?thesis using assms(1) hub_ok_same [of hub hub']
      by (simp add: eb_hub_ok_def closed_absent_def open_connections_def close_socket_def)
  next
    case 2
    have "pairs_ok (dist_entered (eh_dist hub @ [?ep])) (enrol ?key ?role ?i (eh_dist_pairs hub))"
      by (rule pairs_ok_enrol [OF dist_ok_change [OF eb_hub_okD(2) [OF assms(1)]]])
        (simp_all add: nth_append dist_entered_def)
    moreover have "closed_absent hub'"
    proof -
      have "k \<noteq> ?key" if "k \<in> set (eh_closed hub)" for k using that 2(1) by auto
      then show ?thesis using eb_hub_okD(3) [OF assms(1)] 2(2) by (simp add: closed_absent_def map_of_enrol_other)
    qed
    moreover have "open_connections role hub' = open_connections role hub" for role
      using 2(2) by (simp add: open_connections_def dist_counted_def)
    ultimately show ?thesis
      using 2(2) eb_hub_okD [OF assms(1)] hub_ok_same [of hub hub'] by (simp add: eb_hub_ok_def)
  qed
qed

text \<open>A change of the Redis endpoints that keeps their keys and roles.\<close>

lemma dist_update_ok:
  assumes "eb_hub_ok hub" "hub_pairs hub' = hub_pairs hub" "hub_endpoints hub' = hub_endpoints hub"
    and "eh_dist_pairs hub' = withdraw key role' j (eh_dist_pairs hub) \<or> eh_dist_pairs hub' = eh_dist_pairs hub"
    and "eh_closed hub' = eh_closed hub" "eh_dist hub' = (eh_dist hub)[i := ep]" "i < length (eh_dist hub)"
    and "de_key ep = de_key (eh_dist hub ! i)" "de_role ep = de_role (eh_dist hub ! i)"
    and "\<And>role. eh_active hub' role = eh_active hub role - of_bool (dist_counted role (eh_dist hub ! i)) + of_bool (dist_counted role ep)"
  shows "eb_hub_ok hub'"
proof (rule eb_hub_okI)
  show "hub_ok hub'" by (rule hub_ok_same [OF eb_hub_okD(1) [OF assms(1)] assms(2,3)])
  have "pairs_ok (dist_entered (eh_dist hub')) (eh_dist_pairs hub)"
    by (rule dist_ok_change [OF eb_hub_okD(2) [OF assms(1)]]) (use assms(6-9) in \<open>auto simp: nth_update\<close>)
  with assms(4) show "pairs_ok (dist_entered (eh_dist hub')) (eh_dist_pairs hub')" by (auto intro: pairs_ok_withdraw)
  show "closed_absent hub'"
    using eb_hub_okD(3) [OF assms(1)] assms(2,4,5) by (auto simp: closed_absent_def map_of_withdraw_None)
  have "open_connections role hub' =
      open_connections role hub - of_bool (dist_counted role (eh_dist hub ! i)) + of_bool (dist_counted role ep)" for role
    using assms(3,6,7) by (simp add: open_connections_def length_filter_update)
  then show "eh_active hub' role = open_connections role hub'" for role
    using assms(10) eb_hub_okD(4) [OF assms(1)] by simp
qed

lemma open_connections_dist:
  assumes "i < length (eh_dist hub)" "dist_counted role (eh_dist hub ! i)"
  shows "1 \<le> open_connections role hub"
proof -
  have "eh_dist hub ! i \<in> set (filter (dist_counted role) (eh_dist hub))" using assms by simp
  then have "0 < length (filter (dist_counted role) (eh_dist hub))" by (metis length_pos_if_in_set)
  then show ?thesis unfolding open_connections_def by linarith
qed

lemma dist_open_ok:
  assumes "eb_hub_ok hub" "i < length (eh_dist hub)" "\<not> de_counted (eh_dist hub ! i)"
  shows "eb_hub_ok (eb_dist_open i hub)"
  by (rule dist_update_ok [OF assms(1), where i = i and ep = "(eh_dist hub ! i)\<lparr>de_counted := True\<rparr>"])
    (use assms(2,3) in \<open>auto simp: eb_dist_open_def Let_def dist_counted_def\<close>)

lemma dist_close_ok:
  assumes "eb_hub_ok hub" "i < length (eh_dist hub)"
  shows "eb_hub_ok (eb_dist_close i hub)"
proof (cases "de_counted (eh_dist hub ! i)")
  case True
  then have "1 \<le> eh_active hub (de_role (eh_dist hub ! i))"
    using open_connections_dist [OF assms(2)] eb_hub_okD(4) [OF assms(1)] by (simp add: dist_counted_def)
  with True show ?thesis
    by (intro dist_update_ok [OF assms(1), where i = i and ep = "(eh_dist hub ! i)\<lparr>de_counted := False\<rparr>"])
      (use assms(2) in \<open>auto simp: eb_dist_close_def Let_def dist_counted_def\<close>)
next
  case False
  with assms show ?thesis by (simp add: eb_dist_close_def)
qed

lemma leave_distributed_ok:
  assumes "eb_hub_ok hub" "i < length (eh_dist hub)"
  shows "eb_hub_ok (eb_leave_distributed i p hub)"
  by (rule dist_update_ok [OF assms(1), where i = i and
      ep = "(eh_dist hub ! i)\<lparr>de_task := Leaving (eb_distributed_code (de_close_code (eh_dist hub ! i)) p)\<rparr>"])
    (use assms(2) in \<open>auto simp: eb_leave_distributed_def Let_def dist_counted_def close_socket_def\<close>)

lemma remove_distributed_ok:
  assumes "eb_hub_ok hub" "i < length (eh_dist hub)"
  shows "eb_hub_ok (eb_remove_distributed i hub)"
  unfolding eb_remove_distributed_def Let_def
proof (rule dist_close_ok)
  show "eb_hub_ok (hub\<lparr>eh_dist_pairs := withdraw (de_key (eh_dist hub ! i)) (de_role (eh_dist hub ! i)) i (eh_dist_pairs hub),
      eh_dist := (eh_dist hub)[i := (eh_dist hub ! i)\<lparr>de_task := Over\<rparr>]\<rparr>)"
    by (rule dist_update_ok [OF assms(1), where i = i and ep = "(eh_dist hub ! i)\<lparr>de_task := Over\<rparr>"])
      (use assms(2) in \<open>auto simp: dist_counted_def\<close>)
qed (use assms(2) in simp)

lemma close_pair_rest:
  fixes hub :: eb_hub
  shows "hub_pairs (close_pair mark key code hub) = AList.delete key (hub_pairs hub)"
    "eh_dist (close_pair mark key code hub) = eh_dist hub"
    "eh_dist_pairs (close_pair mark key code hub) = eh_dist_pairs hub" "eh_closed (close_pair mark key code hub) = eh_closed hub"
    "eh_active (close_pair mark key code hub) = eh_active hub" "eh_closing (close_pair mark key code hub) = eh_closing hub"
  by (simp_all add: close_pair_def Let_def)

definition eb_key :: "uuid \<Rightarrow> int \<Rightarrow> relay_binding" where
  "eb_key binding_id generation = \<lparr>rb_kind = Ego_browser, rb_binding_id = binding_id, rb_generation = generation\<rparr>"

lemma close_binding_rest:
  "hub_pairs (eb_close_binding b g code publish hub) = AList.delete (eb_key b g) (hub_pairs hub)"
  "eh_dist_pairs (eb_close_binding b g code publish hub) = AList.delete (eb_key b g) (eh_dist_pairs hub)"
  "eh_closed (eb_close_binding b g code publish hub) = List.insert (eb_key b g) (eh_closed hub)"
  "eh_active (eb_close_binding b g code publish hub) = eh_active hub"
  "eh_closing (eb_close_binding b g code publish hub) = eh_closing hub"
  by (simp_all add: eb_close_binding_def Let_def close_pair_rest eb_key_def)

lemma close_binding_ok:
  assumes "eb_hub_ok hub"
  shows "eb_hub_ok (eb_close_binding b g code publish hub)"
proof (rule eb_hub_okI)
  let ?key = "eb_key b g" and ?mark = "\<lambda>ep :: eb_endpoint. ep\<lparr>ep_close_code := code\<rparr>"
  let ?opened = "hub\<lparr>eh_closed := List.insert ?key (eh_closed hub)\<rparr>"
  let ?hub = "eb_close_binding b g code publish hub"
  let ?members = "map snd (pair_of (eh_dist_pairs hub) ?key)"
  have eps: "hub_endpoints ?hub = hub_endpoints (close_pair ?mark ?key code ?opened)"
    unfolding eb_close_binding_def Let_def eb_key_def by simp
  have dist: "eh_dist ?hub = change_all (\<lambda>ep. ep\<lparr>de_close_code := code, de_shutdown := True\<rparr>) ?members (eh_dist hub)"
    by (simp add: eb_close_binding_def Let_def eb_key_def)
  have "hub_ok (close_pair ?mark ?key code ?opened)"
    by (rule close_pair_hub_ok) (use eb_hub_okD(1) [OF assms] in \<open>simp_all add: hub_ok_def\<close>)
  then show "hub_ok ?hub"
    using eps by (simp add: hub_ok_def close_binding_rest close_pair_rest)
  have "pairs_ok (dist_entered (eh_dist ?hub)) (eh_dist_pairs hub)"
    by (rule dist_ok_change [OF eb_hub_okD(2) [OF assms]]) (simp_all add: dist)
  then show "pairs_ok (dist_entered (eh_dist ?hub)) (eh_dist_pairs ?hub)"
    by (simp add: close_binding_rest pairs_ok_delete)
  show "closed_absent ?hub"
    using eb_hub_okD(3) [OF assms] by (auto simp: closed_absent_def close_binding_rest delete_conv)
  show "eh_active ?hub role = open_connections role ?hub" for role
  proof -
    have "map (local_counted role) (hub_endpoints ?hub) = map (local_counted role) (hub_endpoints ?opened)"
      unfolding eps by (rule close_pair_map) (simp_all add: local_counted_def)
    moreover have "map (dist_counted role) (eh_dist ?hub) = map (dist_counted role) (eh_dist hub)"
      unfolding dist by (rule nth_equalityI) (simp_all add: dist_counted_def)
    ultimately have "open_connections role ?hub = open_connections role hub"
      by (intro open_connections_map) simp_all
    then show ?thesis using eb_hub_okD(4) [OF assms] by (simp add: close_binding_rest)
  qed
qed

lemma fold_close_ok:
  "eb_hub_ok hub \<Longrightarrow> eb_hub_ok (fold (\<lambda>key. eb_close_binding (rb_binding_id key) (rb_generation key) 1008 False) keys hub)"
  by (induction keys arbitrary: hub) (simp_all add: close_binding_ok)

lemma shutdown_ok: "eb_hub_ok hub \<Longrightarrow> eb_hub_ok (eb_shutdown hub)"
  unfolding eb_shutdown_def
  by (rule fold_close_ok) (simp add: eb_hub_ok_def hub_ok_def closed_absent_def open_connections_def)

lemma eb_step_ok: "eb_step hub hub' \<Longrightarrow> eb_hub_ok hub \<Longrightarrow> eb_hub_ok hub'"
  by (cases rule: eb_step.cases)
    (auto intro: connect_local_ok count_frame_ok leave_local_ok remove_local_ok connect_distributed_ok dist_open_ok
      leave_distributed_ok remove_distributed_ok close_binding_ok shutdown_ok)

lemma eb_steps_ok: "eb_step\<^sup>*\<^sup>* hub hub' \<Longrightarrow> eb_hub_ok hub \<Longrightarrow> eb_hub_ok hub'"
  by (induction rule: rtranclp_induct) (auto intro: eb_step_ok)

lemma eb_new_hub_ok: "eb_hub_ok eb_new_hub"
  by (simp add: eb_hub_ok_def eb_new_hub_def hub_ok_def pairs_ok_def peers_ok_def closed_absent_def open_connections_def)

lemma eb_reachable_ok: "eb_reachable hub \<Longrightarrow> eb_hub_ok hub"
  using eb_steps_ok eb_new_hub_ok by (auto simp: eb_reachable_def)

lemma dr_step_ok: "dr_step hub hub' \<Longrightarrow> hub_ok hub \<Longrightarrow> hub_ok hub'"
proof (induction rule: dr_step.induct)
  case (1 hub claims ws hub' r)
  then consider "hub' = close_socket ws 1008 hub"
    | "meet dr_peer hub \<lparr>ep_key = dr_relay_binding (dc_binding claims), ep_role = dc_role claims, ep_socket = ws,
        ep_peer = Pending, ep_task = Running\<rparr> = (hub', r)"
    by (auto simp: dr_connect_def Let_def split: if_splits)
  then show ?case
  proof cases
    case 1
    with \<open>hub_ok hub\<close> show ?thesis by (simp add: hub_ok_def close_socket_def)
  next
    case 2
    show ?thesis by (rule dr_roles.meet_hub_ok [OF \<open>hub_ok hub\<close> 2]) simp
  qed
next
  case (2 i hub outcome)
  then show ?case by (simp add: dr_leave_def leave_close_hub_ok)
next
  case (3 i hub code)
  then show ?case by (simp add: leave_remove_hub_ok)
next
  case (4 hub session_id generation code)
  then show ?case unfolding dr_close_binding_def by (intro close_pair_hub_ok) simp_all
qed

lemma dr_reachable_ok: "dr_reachable hub \<Longrightarrow> hub_ok hub"
proof -
  have new: "hub_ok dr_new_hub" by (simp add: dr_new_hub_def hub_ok_def pairs_ok_def peers_ok_def)
  have "dr_step\<^sup>*\<^sup>* dr_new_hub hub \<Longrightarrow> hub_ok hub"
    by (induction rule: rtranclp_induct) (use new dr_step_ok in blast)+
  then show "dr_reachable hub \<Longrightarrow> hub_ok hub" by (simp add: dr_reachable_def)
qed

section \<open>Revocation\<close>

lemma eb_step_closed:
  assumes "eb_step hub hub'"
  shows "set (eh_closed hub) \<subseteq> set (eh_closed hub')"
proof -
  have fold: "set (eh_closed h) \<subseteq> set (eh_closed (fold (\<lambda>key. eb_close_binding (rb_binding_id key) (rb_generation key) 1008 False) keys h))"
    for keys h
  proof (induction keys arbitrary: h)
    case (Cons key keys)
    have "set (eh_closed h) \<subseteq> set (eh_closed (eb_close_binding (rb_binding_id key) (rb_generation key) 1008 False h))"
      by (auto simp: close_binding_rest)
    also have "\<dots> \<subseteq> set (eh_closed (fold (\<lambda>key. eb_close_binding (rb_binding_id key) (rb_generation key) 1008 False) keys
        (eb_close_binding (rb_binding_id key) (rb_generation key) 1008 False h)))"
      by (rule Cons.IH)
    finally show ?case by simp
  qed simp
  have opn: "eh_closed (eb_record_open i h) = eh_closed h" for i h by (rule record_open_rest)
  show ?thesis
    using assms
  proof cases
    case (Connect_local claims ws r)
    then consider "hub' = close_socket ws 1008 hub"
      | h r' where "meet eb_peer_role hub (eb_new_endpoint claims ws) = (h, r')" "eh_closed hub' = eh_closed h"
      by (auto simp: eb_connect_local_def Let_def opn split: if_splits prod.splits connect_result.splits)
    then show ?thesis by cases (auto simp: close_socket_def meet_rest)
  next
    case (Connect_distributed claims ws r)
    then show ?thesis by (auto simp: eb_connect_distributed_def Let_def close_socket_def split: if_splits)
  next
    case Shutdown
    then show ?thesis using fold [of "hub\<lparr>eh_closing := True\<rparr>"] by (simp add: eb_shutdown_def)
  qed (auto simp: eb_count_frame_def eb_leave_local_def eb_remove_local_def record_close_rest leave_close_rest leave_remove_rest
      eb_dist_open_def eb_leave_distributed_def eb_remove_distributed_def eb_dist_close_def Let_def close_socket_def close_binding_rest)
qed

lemma eb_steps_closed: "eb_step\<^sup>*\<^sup>* hub hub' \<Longrightarrow> set (eh_closed hub) \<subseteq> set (eh_closed hub')"
  by (induction rule: rtranclp_induct) (use eb_step_closed in blast)+

section \<open>An endpoint whose task is over\<close>

definition stuck :: "eb_hub \<Rightarrow> relay_binding \<Rightarrow> eb_role \<Rightarrow> nat \<Rightarrow> bool" where
  "stuck hub key role i \<longleftrightarrow> map_of (pair_of (hub_pairs hub) key) role = Some i \<and> i < length (hub_endpoints hub) \<and>
     ep_task (hub_endpoints hub ! i) = Over \<and> ep_peer (hub_endpoints hub ! i) \<noteq> Pending"

lemma stuck_change:
  assumes "stuck hub key role i" "map_of (pair_of (hub_pairs hub') key) role = Some i"
    "length (hub_endpoints hub) \<le> length (hub_endpoints hub')"
    "ep_task (hub_endpoints hub' ! i) = ep_task (hub_endpoints hub ! i)" "ep_peer (hub_endpoints hub' ! i) = ep_peer (hub_endpoints hub ! i)"
  shows "stuck hub' key role i"
  using assms by (simp add: stuck_def)

lemma meet_stuck:
  assumes "stuck hub key role i" "meet eb_peer_role hub ep = (hub', r)" "\<not> (ep_key ep = key \<and> ep_role ep = role)"
  shows "stuck hub' key role i"
proof -
  have i: "i < length (hub_endpoints hub)" "ep_peer (hub_endpoints hub ! i) \<noteq> Pending" using assms(1) by (simp_all add: stuck_def)
  have "length (hub_endpoints hub) \<le> length (hub_endpoints hub') \<and> hub_endpoints hub' ! i = hub_endpoints hub ! i"
    using assms(2) i by (auto simp: meet_def Let_def nth_append nth_update split: option.splits if_splits)
  then show ?thesis
    using assms by (intro stuck_change [OF assms(1)]) (auto simp: meet_rest pair_of_enrol stuck_def)
qed

lemma record_open_stuck: "stuck hub key role i \<Longrightarrow> stuck (eb_record_open j hub) key role i"
  by (rule stuck_change) (auto simp: eb_record_open_def Let_def nth_update stuck_def)

lemma record_close_stuck: "stuck hub key role i \<Longrightarrow> stuck (eb_record_close j hub) key role i"
  by (rule stuck_change) (auto simp: eb_record_close_def Let_def nth_update stuck_def)

lemma leave_close_stuck:
  assumes "stuck hub key role i" "ep_task (hub_endpoints hub ! j) = Running"
  shows "stuck (leave_close j code hub) key role i"
  using assms by (intro stuck_change [OF assms(1)]) (auto simp: leave_close_def Let_def nth_update stuck_def)

lemma leave_remove_stuck:
  assumes "stuck hub key role i" "ep_task (hub_endpoints hub ! j) = Leaving code"
  shows "stuck (leave_remove j hub) key role i"
proof -
  have "i \<noteq> j" using assms by (auto simp: stuck_def)
  then show ?thesis
    using assms by (intro stuck_change [OF assms(1)]) (auto simp: leave_remove_def Let_def nth_update stuck_def pair_of_withdraw)
qed

lemma connect_local_stuck:
  assumes "stuck hub key role i" "eb_connect_local hub claims ws = (hub', r)"
  shows "stuck hub' key role i"
proof -
  let ?ep = "eb_new_endpoint claims ws"
  have ep: "ep_key ?ep = eb_relay_binding (ec_binding claims)" "ep_role ?ep = ec_role claims"
    by (simp_all add: eb_new_endpoint_def)
  consider "hub' = close_socket ws 1008 hub"
    | h r' where "map_of (pair_of (hub_pairs hub) (ep_key ?ep)) (ec_role claims) = None"
        "meet eb_peer_role hub ?ep = (h, r')" "hub' = h \<or> (\<exists>j. hub' = eb_record_open j h)"
    using assms(2) by (auto simp: eb_connect_local_def Let_def split: if_splits prod.splits connect_result.splits)
  then show ?thesis
  proof cases
    case 1
    then show ?thesis using assms(1) by (simp add: close_socket_def stuck_def)
  next
    case 2
    have "\<not> (ep_key ?ep = key \<and> ep_role ?ep = role)" using 2(1) assms(1) ep by (auto simp: stuck_def)
    from meet_stuck [OF assms(1) 2(2) this] 2(3) show ?thesis by (auto intro: record_open_stuck)
  qed
qed

lemma close_binding_stuck:
  assumes "stuck hub key role i" "key \<noteq> eb_key b g"
  shows "stuck (eb_close_binding b g code publish hub) key role i \<or> i \<in> set (map snd (pair_of (hub_pairs hub) (eb_key b g)))"
proof -
  have "hub_endpoints (eb_close_binding b g code publish hub) ! i = hub_endpoints hub ! i"
    if "i \<notin> set (map snd (pair_of (hub_pairs hub) (eb_key b g)))" "i < length (hub_endpoints hub)"
    using that unfolding eb_close_binding_def Let_def close_pair_def eb_key_def [symmetric] by simp
  then show ?thesis
    using assms by (auto simp: stuck_def close_binding_rest pair_of_delete)
      (auto simp: eb_close_binding_def Let_def close_pair_def)
qed

lemma member_key:
  assumes "eb_hub_ok hub" "i \<in> set (map snd (pair_of (hub_pairs hub) k))" "stuck hub key role i"
  shows "k = key"
proof -
  obtain role' where "(role', i) \<in> set (pair_of (hub_pairs hub) k)" using assms(2) by auto
  moreover have ok: "pairs_ok (entered (hub_endpoints hub)) (hub_pairs hub)" using eb_hub_okD(1) [OF assms(1)] by (simp add: hub_ok_def)
  ultimately have "ep_key (hub_endpoints hub ! i) = k" using pair_of_ok(2) by (fastforce simp: entered_def)
  moreover have "ep_key (hub_endpoints hub ! i) = key"
    using pairs_okD [OF ok] assms(3) by (auto simp: stuck_def entered_def)
  ultimately show ?thesis by simp
qed

lemma close_binding_stuck_or_closed:
  assumes "eb_hub_ok hub" "stuck hub key role i"
  shows "stuck (eb_close_binding b g code publish hub) key role i \<or> key \<in> set (eh_closed (eb_close_binding b g code publish hub))"
proof (cases "key = eb_key b g")
  case True
  then show ?thesis by (simp add: close_binding_rest)
next
  case False
  then show ?thesis using close_binding_stuck [OF assms(2) False] member_key [OF assms(1) _ assms(2)] by blast
qed

lemma fold_close_stuck_or_closed:
  assumes "eb_hub_ok hub" "stuck hub key role i \<or> key \<in> set (eh_closed hub)"
  shows "stuck (fold (\<lambda>key. eb_close_binding (rb_binding_id key) (rb_generation key) 1008 False) keys hub) key role i \<or>
    key \<in> set (eh_closed (fold (\<lambda>key. eb_close_binding (rb_binding_id key) (rb_generation key) 1008 False) keys hub))"
  using assms
proof (induction keys arbitrary: hub)
  case (Cons k keys)
  have "stuck (eb_close_binding (rb_binding_id k) (rb_generation k) 1008 False hub) key role i \<or>
      key \<in> set (eh_closed (eb_close_binding (rb_binding_id k) (rb_generation k) 1008 False hub))"
    using Cons.prems(2)
  proof
    assume "stuck hub key role i"
    then show ?thesis by (rule close_binding_stuck_or_closed [OF Cons.prems(1)])
  qed (simp add: close_binding_rest)
  from Cons.IH [OF close_binding_ok [OF Cons.prems(1)] this] show ?case by simp
qed simp

lemma eb_step_stuck:
  assumes "eb_step hub hub'" "eb_hub_ok hub" "stuck hub key role i"
  shows "stuck hub' key role i \<or> key \<in> set (eh_closed hub')"
  using assms(1)
proof cases
  case (Connect_local claims ws r)
  then show ?thesis using connect_local_stuck [OF assms(3)] by blast
next
  case (Count_frame j n)
  have "stuck (eb_count_frame j n hub) key role i"
    by (rule stuck_change [OF assms(3)]) (use assms(3) in \<open>auto simp: eb_count_frame_def Let_def nth_update stuck_def\<close>)
  then show ?thesis using Count_frame by simp
next
  case (Leave_local j outcome)
  then show ?thesis using leave_close_stuck [OF assms(3)] by (simp add: eb_leave_local_def)
next
  case (Remove_local j code)
  then show ?thesis using leave_remove_stuck [OF assms(3)] record_close_stuck by (simp add: eb_remove_local_def)
next
  case (Connect_distributed claims ws r)
  then show ?thesis
    using assms(3) by (auto simp: eb_connect_distributed_def Let_def close_socket_def stuck_def split: if_splits)
next
  case (Close_binding b g code publish)
  then show ?thesis using close_binding_stuck_or_closed [OF assms(2,3)] by blast
next
  case Shutdown
  have "eb_hub_ok (hub\<lparr>eh_closing := True\<rparr>)"
    using assms(2) by (simp add: eb_hub_ok_def hub_ok_def closed_absent_def open_connections_def)
  moreover have "stuck (hub\<lparr>eh_closing := True\<rparr>) key role i" using assms(3) by (simp add: stuck_def)
  ultimately show ?thesis unfolding Shutdown eb_shutdown_def by (intro fold_close_stuck_or_closed) simp_all
qed (use assms(3) in \<open>auto simp: eb_dist_open_def eb_leave_distributed_def eb_remove_distributed_def eb_dist_close_def
      Let_def close_socket_def stuck_def\<close>)

lemma eb_steps_stuck:
  assumes "eb_step\<^sup>*\<^sup>* hub hub'" "eb_hub_ok hub" "stuck hub key role i"
  shows "stuck hub' key role i \<or> key \<in> set (eh_closed hub')"
  using assms(1)
proof (induction rule: rtranclp_induct)
  case (step y z)
  show ?case
  proof (cases "key \<in> set (eh_closed y)")
    case True
    then show ?thesis using eb_step_closed [OF step.hyps(2)] by blast
  next
    case False
    with step.IH have "stuck y key role i" by blast
    then show ?thesis by (rule eb_step_stuck [OF step.hyps(2) eb_steps_ok [OF step.hyps(1) assms(2)]])
  qed
qed (use assms(3) in simp)

lemma closed_connect:
  assumes "eb_relay_binding (ec_binding claims) \<in> set (eh_closed hub)"
  shows "eb_connect_local hub claims ws = (close_socket ws 1008 hub, Rejected)"
    "eb_connect_distributed hub claims ws = (close_socket ws 1008 hub, Rejected)"
  using assms by (simp_all add: eb_connect_local_def eb_connect_distributed_def Let_def eb_new_endpoint_def)

lemma stuck_connect:
  assumes "stuck hub (eb_relay_binding (ec_binding claims)) role i"
  shows "snd (eb_connect_local hub claims ws) \<noteq> Registered j"
proof (cases "ec_role claims = role \<or> eh_closing hub \<or> eb_relay_binding (ec_binding claims) \<in> set (eh_closed hub) \<or>
    map_of (pair_of (hub_pairs hub) (eb_relay_binding (ec_binding claims))) (ec_role claims) \<noteq> None")
  case True
  then show ?thesis using assms by (auto simp: eb_connect_local_def Let_def eb_new_endpoint_def stuck_def)
next
  case False
  then have peer: "eb_peer_role (ec_role claims) = role" by (cases role; cases "ec_role claims") (auto simp: eb_peer_role_def)
  have "snd (meet eb_peer_role hub (eb_new_endpoint claims ws)) = Failed InvalidStateError"
    using assms peer False by (auto simp: meet_def Let_def pair_of_enrol eb_new_endpoint_def stuck_def nth_append)
  then show ?thesis
    using False by (auto simp: eb_connect_local_def Let_def eb_new_endpoint_def split: prod.splits connect_result.splits)
qed

lemma hub_ok_entry:
  assumes "hub_ok hub" "map_of (pair_of (hub_pairs hub) key) role = Some i"
  shows "i < length (hub_endpoints hub) \<and> ep_key (hub_endpoints hub ! i) = key \<and> ep_role (hub_endpoints hub ! i) = role"
proof -
  have "entered (hub_endpoints hub) key role i"
    by (rule pairs_okD [OF _ assms(2)]) (use assms(1) in \<open>simp add: hub_ok_def\<close>)
  then show ?thesis by (simp add: entered_def)
qed

section \<open>Properties\<close>

text \<open>
  C27. Isolation: in every reachable state of the browser relay hub, a future holds only the socket of
  an endpoint of the same binding and generation in the other role, every table entry is filed under
  the key and role of its endpoint, and the connection metric of each role counts exactly the open
  connections.
\<close>

theorem relay_hub_isolates:
  assumes "eb_reachable hub"
  shows "(\<forall>ep \<in> set (hub_endpoints hub). \<forall>ws. ep_peer ep = Connected ws \<longrightarrow>
      (\<exists>ep' \<in> set (hub_endpoints hub). ep_socket ep' = ws \<and> ep_key ep' = ep_key ep \<and> ep_role ep' \<noteq> ep_role ep)) \<and>
    (\<forall>key role i. map_of (pair_of (hub_pairs hub) key) role = Some i \<longrightarrow>
      i < length (hub_endpoints hub) \<and> ep_key (hub_endpoints hub ! i) = key \<and> ep_role (hub_endpoints hub ! i) = role) \<and>
    (\<forall>role. eh_active hub role = open_connections role hub)"
proof -
  note ok = eb_hub_okD [OF eb_reachable_ok [OF assms]]
  have "i < length (hub_endpoints hub) \<and> ep_key (hub_endpoints hub ! i) = key \<and> ep_role (hub_endpoints hub ! i) = role"
    if "map_of (pair_of (hub_pairs hub) key) role = Some i" for key role i
    by (rule hub_ok_entry [OF ok(1) that])
  then show ?thesis using ok by (simp add: hub_ok_def peers_ok_def)
qed

text \<open>
  The device relay hub isolates its sessions in the same way.
\<close>

theorem device_hub_isolates:
  assumes "dr_reachable hub" "ep \<in> set (hub_endpoints hub)" "ep_peer ep = Connected ws"
  shows "\<exists>ep' \<in> set (hub_endpoints hub). ep_socket ep' = ws \<and> ep_key ep' = ep_key ep \<and> ep_role ep' \<noteq> ep_role ep"
  using dr_reachable_ok [OF assms(1)] assms(2,3) by (simp add: hub_ok_def peers_ok_def)

text \<open>
  Revocation is final: once a binding generation is closed, every endpoint it had is woken and its
  socket closed with the given code, and in every later state of the hub no endpoint of the generation
  is registered and every new connection for it is refused.
\<close>

theorem revocation_is_final:
  assumes "eb_reachable hub" "hub1 = eb_close_binding b g code publish hub" "eb_step\<^sup>*\<^sup>* hub1 hub2"
    and "eb_relay_binding (ec_binding claims) = eb_key b g"
  shows "(\<forall>role i. map_of (pair_of (hub_pairs hub) (eb_key b g)) role = Some i \<longrightarrow>
      ep_peer (hub_endpoints hub1 ! i) \<noteq> Pending \<and> (ep_socket (hub_endpoints hub ! i), code) \<in> set (hub_closes hub1)) \<and>
    map_of (hub_pairs hub2) (eb_key b g) = None \<and> map_of (eh_dist_pairs hub2) (eb_key b g) = None \<and>
    eb_connect_local hub2 claims ws = (close_socket ws 1008 hub2, Rejected) \<and>
    eb_connect_distributed hub2 claims ws = (close_socket ws 1008 hub2, Rejected)"
proof -
  have ok: "eb_hub_ok hub" by (rule eb_reachable_ok [OF assms(1)])
  have "eb_key b g \<in> set (eh_closed hub1)" by (simp add: assms(2) close_binding_rest)
  then have closed: "eb_key b g \<in> set (eh_closed hub2)" using eb_steps_closed [OF assms(3)] by blast
  have "eb_hub_ok hub2" using eb_steps_ok [OF assms(3)] close_binding_ok [OF ok] assms(2) by simp
  from eb_hub_okD(3) [OF this] closed have absent:
    "map_of (hub_pairs hub2) (eb_key b g) = None \<and> map_of (eh_dist_pairs hub2) (eb_key b g) = None"
    by (simp add: closed_absent_def)
  have "ep_peer (hub_endpoints hub1 ! i) \<noteq> Pending \<and> (ep_socket (hub_endpoints hub ! i), code) \<in> set (hub_closes hub1)"
    if member: "map_of (pair_of (hub_pairs hub) (eb_key b g)) role = Some i" for role i
  proof -
    have "i < length (hub_endpoints hub)"
      using hub_ok_entry [OF eb_hub_okD(1) [OF ok] member] by simp
    moreover have "i \<in> set (map snd (pair_of (hub_pairs hub) (eb_key b g)))" using map_of_SomeD [OF member] by force
    ultimately show ?thesis
      unfolding assms(2) eb_close_binding_def Let_def close_pair_def eb_key_def [symmetric]
      by (auto simp: break_future_def)
  qed
  with absent closed_connect [of claims hub2] closed assms(4) show ?thesis by simp
qed

text \<open>
  A connection that arrives while the endpoint of the other role still is in the table but already
  had a peer raises \<open>InvalidStateError\<close> after it was entered: its socket stays open, its endpoint stays
  in the table with no task to remove it, and from then on no connection of this binding generation is
  ever registered by the hub, whatever else happens.
\<close>

theorem stale_peer_blocks_binding:
  assumes "eb_reachable hub" "key = eb_relay_binding (ec_binding claims)"
    and "\<not> eh_closing hub" "key \<notin> set (eh_closed hub)" "map_of (pair_of (hub_pairs hub) key) (ec_role claims) = None"
    and "map_of (pair_of (hub_pairs hub) key) (eb_peer_role (ec_role claims)) = Some j" "ep_peer (hub_endpoints hub ! j) \<noteq> Pending"
    and "eb_connect_local hub claims ws = (hub1, r)" "eb_step\<^sup>*\<^sup>* hub1 hub2"
    and "eb_relay_binding (ec_binding claims') = key"
  shows "r = Failed InvalidStateError \<and> hub_closes hub1 = hub_closes hub \<and>
    map_of (pair_of (hub_pairs hub1) key) (ec_role claims) = Some (length (hub_endpoints hub)) \<and>
    snd (eb_connect_local hub2 claims' ws') \<noteq> Registered i"
proof -
  let ?ep = "eb_new_endpoint claims ws" and ?i = "length (hub_endpoints hub)"
  have ep: "ep_key ?ep = key" "ep_role ?ep = ec_role claims" using assms(2) by (simp_all add: eb_new_endpoint_def)
  have ok: "eb_hub_ok hub" by (rule eb_reachable_ok [OF assms(1)])
  have j: "j < ?i" using hub_ok_entry [OF eb_hub_okD(1) [OF ok] assms(6)] by simp
  obtain h r' where m: "meet eb_peer_role hub ?ep = (h, r')" by (cases "meet eb_peer_role hub ?ep")
  have m': "r' = Failed InvalidStateError" "hub_closes h = hub_closes hub" "ep_task (hub_endpoints h ! ?i) = Over"
    "ep_peer (hub_endpoints h ! ?i) \<noteq> Pending" "?i < length (hub_endpoints h)"
    using m assms(6,7) j eb_roles.peer_differs ep by (auto simp: meet_def Let_def pair_of_enrol nth_append)
  have r: "hub1 = h" "r = r'"
    using assms(2-5,8) m m'(1) ep(1) by (auto simp: eb_connect_local_def Let_def)
  have entry: "map_of (pair_of (hub_pairs hub1) key) (ec_role claims) = Some ?i"
    using meet_rest(1) [OF m] r ep by (simp add: pair_of_enrol)
  have "stuck hub1 key (ec_role claims) ?i" using entry m' r by (simp add: stuck_def)
  moreover have "eb_hub_ok hub1" by (rule connect_local_ok [OF ok assms(8)])
  ultimately have "stuck hub2 key (ec_role claims) ?i \<or> key \<in> set (eh_closed hub2)"
    by (intro eb_steps_stuck [OF assms(9)])
  then have "snd (eb_connect_local hub2 claims' ws') \<noteq> Registered i"
    using stuck_connect [of hub2 claims'] closed_connect(1) [of claims' hub2] assms(10) by auto
  with m' r entry show ?thesis by simp
qed

section \<open>Witnesses\<close>

definition h_claims :: "eb_role \<Rightarrow> eb_claims" where
  "h_claims role = \<lparr>ec_binding = \<lparr>eb_user_id = 1, eb_device_id = 2, eb_tool_session_id = 3, eb_binding_id = 4,
     eb_node_id = 5, eb_generation = 6\<rparr>, ec_role = role\<rparr>"

text \<open>A bridge and a wrapper are paired; then the wrapper's task ends.\<close>

definition h_one :: eb_hub where "h_one = fst (eb_connect_local eb_new_hub (h_claims Bridge) 10)"
definition h_pair :: eb_hub where "h_pair = fst (eb_connect_local h_one (h_claims Wrapper) 11)"
definition h_left :: eb_hub where "h_left = eb_leave_local 1 Forward_ended h_pair"
definition h_stale :: eb_hub where "h_stale = eb_remove_local 1 h_left"

lemmas h_defs = h_one_def h_pair_def h_left_def h_stale_def h_claims_def eb_new_hub_def eb_connect_local_def
  eb_new_endpoint_def eb_relay_binding_def pair_of_def meet_def enrol_def eb_record_open_def eb_peer_role_def
  eb_leave_local_def leave_close_def eb_local_code_def eb_remove_local_def leave_remove_def withdraw_def eb_record_close_def

lemma h_pair_reachable: "eb_reachable h_pair"
proof -
  have one: "eb_step eb_new_hub h_one" unfolding h_one_def by (rule eb_step.Connect_local [OF prod.collapse [symmetric]])
  have "eb_step h_one h_pair" unfolding h_pair_def by (rule eb_step.Connect_local [OF prod.collapse [symmetric]])
  with one show ?thesis unfolding eb_reachable_def by (rule converse_rtranclp_into_rtranclp [OF _ r_into_rtranclp])
qed

lemma h_stale_reachable: "eb_reachable h_stale"
proof -
  have "eb_step h_pair h_left"
    unfolding h_left_def by (rule eb_step.Leave_local) (simp_all add: h_defs eb_outcome_fits_def Let_def)
  moreover have "eb_step h_left h_stale"
    unfolding h_stale_def by (rule eb_step.Remove_local [where code = 1011]) (simp_all add: h_defs Let_def)
  ultimately show ?thesis
    using h_pair_reachable unfolding eb_reachable_def by (meson rtranclp.rtrancl_into_rtrancl)
qed

theorem relay_hub_isolates_witness:
  "eh_active h_pair Bridge = 1 \<and> open_connections Bridge h_pair = 1"
proof -
  have "eh_active h_pair Bridge = 1" by (simp add: h_defs Let_def)
  with relay_hub_isolates [OF h_pair_reachable] show ?thesis by simp
qed

definition h_dr_claims :: "dr_role \<Rightarrow> dr_claims" where
  "h_dr_claims role = \<lparr>dc_binding = st_binding, dc_role = role, dc_credential_id = None\<rparr>"

definition h_dr_pair :: dr_hub where
  "h_dr_pair = fst (dr_connect (fst (dr_connect dr_new_hub (h_dr_claims Device) 20)) (h_dr_claims Proxy) 21)"

theorem device_hub_isolates_witness:
  "\<exists>ep' \<in> set (hub_endpoints h_dr_pair). ep_socket ep' = 21 \<and> ep_key ep' = dr_relay_binding st_binding \<and> ep_role ep' \<noteq> Device"
proof -
  have step: "dr_step h (fst (dr_connect h c ws))" for h c ws by (rule dr_step.intros(1) [OF prod.collapse [symmetric]])
  have reach: "dr_reachable h_dr_pair"
    unfolding dr_reachable_def h_dr_pair_def
    by (rule rtranclp.rtrancl_into_rtrancl [OF rtranclp.rtrancl_into_rtrancl [OF rtranclp.rtrancl_refl]]) (rule step)+
  let ?ep = "\<lparr>ep_key = dr_relay_binding st_binding, ep_role = Device, ep_socket = 20, ep_peer = Connected 21, ep_task = Running\<rparr>"
  have "?ep \<in> set (hub_endpoints h_dr_pair)"
    by (simp add: h_dr_pair_def h_dr_claims_def dr_connect_def dr_new_hub_def meet_def enrol_def pair_of_def Let_def)
  from device_hub_isolates [OF reach this] show ?thesis by simp
qed

theorem revocation_is_final_witness:
  "snd (eb_connect_local (eb_close_binding 4 6 1008 True h_pair) (h_claims Bridge) 12) = Rejected"
  using revocation_is_final [OF h_pair_reachable refl rtranclp.rtrancl_refl, of "h_claims Bridge" 4 6 1008 True 12]
  by (simp add: h_claims_def eb_relay_binding_def eb_key_def)

theorem stale_peer_blocks_binding_witness:
  "snd (eb_connect_local h_stale (h_claims Wrapper) 12) = Failed InvalidStateError"
proof -
  have facts: "\<not> eh_closing h_stale" "eb_relay_binding (ec_binding (h_claims Wrapper)) \<notin> set (eh_closed h_stale)"
    "map_of (pair_of (hub_pairs h_stale) (eb_relay_binding (ec_binding (h_claims Wrapper)))) (ec_role (h_claims Wrapper)) = None"
    "map_of (pair_of (hub_pairs h_stale) (eb_relay_binding (ec_binding (h_claims Wrapper)))) (eb_peer_role (ec_role (h_claims Wrapper))) = Some 0"
    "ep_peer (hub_endpoints h_stale ! 0) \<noteq> Pending"
    by (simp_all add: h_defs Let_def)
  from stale_peer_blocks_binding [OF h_stale_reachable refl facts prod.collapse [symmetric] rtranclp.rtrancl_refl refl, of 12]
  show ?thesis by simp
qed

end
