(* ===== verification/Envelope.thy ===== *)
theory Envelope
  imports Digest
begin

text \<open>
  The outer envelope of a browser relay frame (\<open>ego_browser/relay/envelope.py\<close>): the JSON object a
  relay worker checks before it forwards the frame, with its unpadded base64url fields.
  \<open>json.loads\<close> is the parameter \<open>loads\<close>: it gives the tree with the pairs of every object in their
  order, so that the duplicate check of the code is modelled; \<open>None\<close> is a decoding error. The
  serialised size (\<open>json.dumps\<close>) and \<open>base64\<close> are modelled in full, the latter with the lenient
  decoder of the standard library, which skips characters outside the alphabet.
\<close>

section \<open>JSON values\<close>

datatype json =
    JNull | JBool bool | JInt int | JFloat pystr | JString pystr
  | JArray "json list" | JObject "(pystr \<times> json) list"

text \<open>\<open>_reject_duplicate_pairs\<close> at every object of the tree.\<close>

fun unique_keys :: "json \<Rightarrow> bool" where
  "unique_keys (JArray xs) = list_all unique_keys xs"
| "unique_keys (JObject ps) = (distinct (map fst ps) \<and> list_all (\<lambda>p. unique_keys (snd p)) ps)"
| "unique_keys _ = True"

text \<open>\<open>json.dumps(..., separators=(",", ":"), ensure_ascii=False)\<close>\<close>

definition json_char :: "nat \<Rightarrow> pystr" where
  "json_char c =
     (if c = 34 then [92, 34] else if c = 92 then [92, 92]
      else if c = 10 then [92, 110] else if c = 13 then [92, 114] else if c = 9 then [92, 116]
      else if c = 12 then [92, 102] else if c = 8 then [92, 98]
      else if c < 32 then
        [92, 117, 48, 48, 48 + c div 16, (if c mod 16 < 10 then 48 + c mod 16 else 87 + c mod 16)]
      else [c])"

definition json_string :: "pystr \<Rightarrow> pystr" where
  "json_string s = 34 # concat (map json_char s) @ [34]"

fun json_dumps :: "json \<Rightarrow> pystr" where
  "json_dumps JNull = lit ''null''"
| "json_dumps (JBool b) = (if b then lit ''true'' else lit ''false'')"
| "json_dumps (JInt i) = py_str i"
| "json_dumps (JFloat r) = r"
| "json_dumps (JString s) = json_string s"
| "json_dumps (JArray xs) = 91 # join_with 44 (map json_dumps xs) @ [93]"
| "json_dumps (JObject ps) = 123 # join_with 44 (map (\<lambda>p. json_string (fst p) @ 58 # json_dumps (snd p)) ps) @ [125]"

text \<open>\<open>str.encode()\<close> refuses surrogates with a subclass of \<open>ValueError\<close>.\<close>

definition surrogate :: "nat \<Rightarrow> bool" where "surrogate c \<longleftrightarrow> 55296 \<le> c \<and> c \<le> 57343"

definition encode :: "pystr \<Rightarrow> bytes res" where
  "encode s = (if \<exists>c \<in> set s. surrogate c then Inl (ValueError ''surrogates not allowed'') else Inr (utf8 s))"

section \<open>Base64url\<close>

definition b64_char :: "nat \<Rightarrow> nat" where
  "b64_char v = (if v < 26 then 65 + v else if v < 52 then 71 + v else if v < 62 then v - 4 else if v = 62 then 45 else 95)"

definition b64_value :: "nat \<Rightarrow> nat option" where
  "b64_value c =
     (if 65 \<le> c \<and> c \<le> 90 then Some (c - 65) else if 97 \<le> c \<and> c \<le> 122 then Some (c - 71)
      else if 48 \<le> c \<and> c \<le> 57 then Some (c + 4)
      else if c = 43 \<or> c = 45 then Some 62 else if c = 47 \<or> c = 95 then Some 63 else None)"

fun urlsafe_b64encode :: "bytes \<Rightarrow> pystr" where
  "urlsafe_b64encode [] = []"
| "urlsafe_b64encode [a] = [b64_char (a div 4), b64_char (a mod 4 * 16), 61, 61]"
| "urlsafe_b64encode [a, b] = [b64_char (a div 4), b64_char (a mod 4 * 16 + b div 16), b64_char (b mod 16 * 4), 61]"
| "urlsafe_b64encode (a # b # c # bs) =
     b64_char (a div 4) # b64_char (a mod 4 * 16 + b div 16) # b64_char (b mod 16 * 4 + c div 64) # b64_char (c mod 64) #
     urlsafe_b64encode bs"

definition rstrip_pad :: "pystr \<Rightarrow> pystr" where
  "rstrip_pad s = rev (dropWhile (\<lambda>c. c = 61) (rev s))"

definition b64url :: "bytes \<Rightarrow> pystr" where "b64url bs = rstrip_pad (urlsafe_b64encode bs)"

text \<open>The decoder: position in the group of four, bits left over, padding seen.\<close>

fun b64_scan :: "nat \<Rightarrow> nat \<Rightarrow> nat \<Rightarrow> pystr \<Rightarrow> bytes res" where
  "b64_scan q left pads [] = (if q = 0 then Inr [] else Inl (ValueError ''Incorrect padding''))"
| "b64_scan q left pads (c # cs) =
     (if c = 61 then
        (if q < 2 then b64_scan q left pads cs
         else if 4 \<le> q + (pads + 1) then Inr [] else b64_scan q left (pads + 1) cs)
      else (case b64_value c of
          None \<Rightarrow> b64_scan q left pads cs
        | Some v \<Rightarrow>
            if q = 0 then b64_scan 1 v 0 cs
            else if q = 1 then bind_res (b64_scan 2 (v mod 16) 0 cs) (\<lambda>bs. Inr ((left * 4 + v div 16) # bs))
            else if q = 2 then bind_res (b64_scan 3 (v mod 4) 0 cs) (\<lambda>bs. Inr ((left * 16 + v div 4) # bs))
            else bind_res (b64_scan 0 0 0 cs) (\<lambda>bs. Inr ((left * 64 + v) # bs))))"

definition urlsafe_b64decode :: "pystr \<Rightarrow> bytes res" where
  "urlsafe_b64decode s =
     (if \<exists>c \<in> set s. 128 \<le> c then Inl (ValueError ''string argument should contain only ASCII characters'')
      else b64_scan 0 0 0 s)"

text \<open>\<open>item + "=" * (-len(item) % 4)\<close>\<close>

definition pad_length :: "nat \<Rightarrow> nat" where "pad_length n = nat ((- int n) mod 4)"

definition padded :: "pystr \<Rightarrow> pystr" where "padded s = s @ replicate (pad_length (length s)) 61"

definition is_canonical_b64url :: "pystr \<Rightarrow> bool" where
  "is_canonical_b64url s =
     (if s = [] \<or> (\<exists>c \<in> set s. c \<notin> b64_char ` {..<64}) then False
      else (case urlsafe_b64decode (padded s) of Inl _ \<Rightarrow> False | Inr d \<Rightarrow> b64url d = s))"

section \<open>The checks\<close>

definition eb_protocol :: pystr where "eb_protocol = lit ''ego-browser-bridge-v1''"
definition eb_channel :: pystr where "eb_channel = lit ''ego_browser_bridge''"
definition eb_kind :: pystr where "eb_kind = lit ''ego_browser''"

definition expected_fields :: "pystr list" where
  "expected_fields = map lit
     [''protocol'', ''channel'', ''relay_binding_kind'', ''type'', ''request_id'', ''binding_id'', ''generation'',
      ''sequence'', ''direction'', ''payload_bytes'', ''nonce'', ''ciphertext'', ''auth_tag'', ''key_wrap'']"

definition field :: "(pystr \<times> json) list \<Rightarrow> string \<Rightarrow> json res" where
  "field v k = (case map_of v (lit k) of None \<Rightarrow> Inl KeyError | Some x \<Rightarrow> Inr x)"

text \<open>\<open>x in {...}\<close> of strings: an array or object is not hashable.\<close>

definition in_set :: "json \<Rightarrow> string list \<Rightarrow> bool res" where
  "in_set x names =
     (case x of JArray _ \<Rightarrow> Inl TypeError | JObject _ \<Rightarrow> Inl TypeError
      | JString s \<Rightarrow> Inr (s \<in> set (map lit names)) | _ \<Rightarrow> Inr False)"

definition check_equal :: "(pystr \<times> json) list \<Rightarrow> string \<Rightarrow> pystr \<Rightarrow> string \<Rightarrow> unit res" where
  "check_equal v k expected err = bind_res (field v k) (\<lambda>x. require (x = JString expected) (ValueError err))"

definition check_header :: "(pystr \<times> json) list \<Rightarrow> unit res" where
  "check_header v =
     bind_res (require (set (map fst v) = set expected_fields) (ValueError ''outer_fields'')) (\<lambda>_.
     bind_res (check_equal v ''protocol'' eb_protocol ''outer_protocol'') (\<lambda>_.
     bind_res (check_equal v ''channel'' eb_channel ''outer_channel'') (\<lambda>_.
     bind_res (check_equal v ''relay_binding_kind'' eb_kind ''outer_relay_kind'') (\<lambda>_.
     bind_res (field v ''type'') (\<lambda>ty.
     bind_res (in_set ty [''execute'', ''execute_result'', ''cancel'']) (\<lambda>known.
     bind_res (require known (ValueError ''outer_type'')) (\<lambda>_.
     bind_res (field v ''direction'') (\<lambda>dir.
     bind_res (in_set dir [''request'', ''response'']) (\<lambda>known'.
     bind_res (require known' (ValueError ''outer_direction'')) (\<lambda>_.
     require (\<not> ((dir = JString (lit ''request'') \<and> ty \<notin> {JString (lit ''execute''), JString (lit ''cancel'')}) \<or>
         (dir = JString (lit ''response'') \<and> ty \<noteq> JString (lit ''execute_result''))))
       (ValueError ''outer_type_direction'')))))))))))"

definition check_id :: "(pystr \<times> json) list \<Rightarrow> string \<Rightarrow> unit res" where
  "check_id v k = bind_res (field v k) (\<lambda>x.
     require (case x of JString s \<Rightarrow> s \<noteq> [] \<and> length s \<le> 128 | _ \<Rightarrow> False) (ValueError k))"

definition check_positive :: "(pystr \<times> json) list \<Rightarrow> string \<Rightarrow> unit res" where
  "check_positive v k = bind_res (field v k) (\<lambda>x.
     require (case x of JInt i \<Rightarrow> 1 \<le> i | _ \<Rightarrow> False) (ValueError k))"

definition decode_field :: "(pystr \<times> json) list \<Rightarrow> string \<Rightarrow> (pystr \<times> bytes) res" where
  "decode_field v k = bind_res (field v k) (\<lambda>x.
     case x of
       JString s \<Rightarrow> (case urlsafe_b64decode (padded s) of Inl _ \<Rightarrow> Inl (ValueError k) | Inr d \<Rightarrow> Inr (s, d))
     | _ \<Rightarrow> Inl (ValueError k))"

definition check_sealed :: "(pystr \<times> json) list \<Rightarrow> unit res" where
  "check_sealed v =
     bind_res (decode_field v ''nonce'') (\<lambda>(nonce, nonce_bytes).
     bind_res (require (length nonce_bytes = 12) (ValueError ''nonce'')) (\<lambda>_.
     bind_res (decode_field v ''auth_tag'') (\<lambda>(tag, tag_bytes).
     bind_res (require (length tag_bytes = 16) (ValueError ''auth_tag'')) (\<lambda>_.
     bind_res (decode_field v ''ciphertext'') (\<lambda>(ciphertext, ciphertext_bytes).
     bind_res (field v ''payload_bytes'') (\<lambda>payload_bytes.
     bind_res (require (payload_bytes = JInt (int (length ciphertext_bytes))) (ValueError ''payload_bytes'')) (\<lambda>_.
     bind_res (require (b64url nonce_bytes = nonce) (ValueError ''nonce_encoding'')) (\<lambda>_.
     bind_res (require (b64url tag_bytes = tag) (ValueError ''auth_tag_encoding'')) (\<lambda>_.
     require (b64url ciphertext_bytes = ciphertext) (ValueError ''ciphertext_encoding''))))))))))"

definition check_key_wrap :: "(pystr \<times> json) list \<Rightarrow> unit res" where
  "check_key_wrap v =
     bind_res (field v ''key_wrap'') (\<lambda>x.
     bind_res (field v ''direction'') (\<lambda>dir.
     bind_res (field v ''type'') (\<lambda>ty.
     case x of
       JString key_wrap \<Rightarrow>
         if dir = JString (lit ''request'') \<and> ty = JString (lit ''execute'') then
           (if key_wrap = [] \<or> \<not> is_canonical_b64url key_wrap then Inl (ValueError ''key_wrap'')
            else (case urlsafe_b64decode (padded key_wrap) of
                Inl _ \<Rightarrow> Inl (ValueError ''key_wrap'')
              | Inr d \<Rightarrow> require (length d = 92) (ValueError ''key_wrap'')))
         else if dir = JString (lit ''request'') \<and> ty = JString (lit ''cancel'') \<or> dir = JString (lit ''response'') then
           require (key_wrap = []) (ValueError ''key_wrap'')
         else Inl (ValueError ''outer_direction'')
     | _ \<Rightarrow> Inl (ValueError ''key_wrap''))))"

definition check_wire_size :: "int \<Rightarrow> (pystr \<times> json) list \<Rightarrow> unit res" where
  "check_wire_size maximum v =
     bind_res (encode (json_dumps (JObject v))) (\<lambda>wire. require (int (length wire) \<le> maximum) (ValueError ''frame_limit''))"

definition parse_outer_envelope ::
  "(bytes \<Rightarrow> json option) \<Rightarrow> int \<Rightarrow> bytes \<Rightarrow> ((pystr \<times> json) list) res"
where
  "parse_outer_envelope loads maximum raw =
     bind_res (require (int (length raw) \<le> maximum) (ValueError ''frame_limit'')) (\<lambda>_.
     case loads raw of
       None \<Rightarrow> Inl (ValueError ''invalid_outer_json'')
     | Some value1 \<Rightarrow>
         if \<not> unique_keys value1 then Inl (ValueError ''invalid_outer_json'')
         else (case value1 of
             JObject v \<Rightarrow>
               bind_res (check_header v) (\<lambda>_.
               bind_res (check_id v ''request_id'') (\<lambda>_.
               bind_res (check_id v ''binding_id'') (\<lambda>_.
               bind_res (check_positive v ''generation'') (\<lambda>_.
               bind_res (check_positive v ''sequence'') (\<lambda>_.
               bind_res (check_positive v ''payload_bytes'') (\<lambda>_.
               bind_res (check_sealed v) (\<lambda>_.
               bind_res (check_key_wrap v) (\<lambda>_.
               bind_res (check_wire_size maximum v) (\<lambda>_. Inr v)))))))))
           | _ \<Rightarrow> Inl (ValueError ''outer_object_required'')))"

section \<open>The base64url round trip\<close>

definition is_bytes :: "bytes \<Rightarrow> bool" where "is_bytes bs \<longleftrightarrow> list_all (\<lambda>b. b < 256) bs"

lemma b64_value_char: "v < 64 \<Longrightarrow> b64_value (b64_char v) = Some v"
  by (auto simp: b64_value_def b64_char_def)

lemma b64_char_range: "v < 64 \<Longrightarrow> b64_char v \<noteq> 61 \<and> b64_char v < 128"
  by (auto simp: b64_char_def)

text \<open>The characters of the unpadded encoding.\<close>

fun b64_digits :: "bytes \<Rightarrow> nat list" where
  "b64_digits [] = []"
| "b64_digits [a] = [a div 4, a mod 4 * 16]"
| "b64_digits [a, b] = [a div 4, a mod 4 * 16 + b div 16, b mod 16 * 4]"
| "b64_digits (a # b # c # bs) =
     [a div 4, a mod 4 * 16 + b div 16, b mod 16 * 4 + c div 64, c mod 64] @ b64_digits bs"

lemma b64_digits_less: "is_bytes bs \<Longrightarrow> v \<in> set (b64_digits bs) \<Longrightarrow> v < 64"
  by (induction bs rule: b64_digits.induct) (auto simp: is_bytes_def)

lemma pad_length_simps [simp]:
  "pad_length 0 = 0" "pad_length 2 = 2" "pad_length 3 = 1" "pad_length (4 + n) = pad_length n"
  "pad_length (Suc (Suc 0)) = 2" "pad_length (Suc (Suc (Suc 0))) = 1" "pad_length (Suc (Suc (Suc (Suc n)))) = pad_length n"
proof -
  show s: "pad_length (4 + n) = pad_length n" 
  proof -
    have "(- int (4 + n)) mod 4 = (- int n) mod 4" unfolding of_nat_add by simp presburger
    then show ?thesis by (simp only: pad_length_def)
  qed
  then show "pad_length (Suc (Suc (Suc (Suc n)))) = pad_length n" by (simp add: numeral_eq_Suc)
qed (simp_all add: pad_length_def)

lemma urlsafe_b64encode_digits:
  "urlsafe_b64encode bs = map b64_char (b64_digits bs) @ replicate (pad_length (length (b64_digits bs))) 61"
  by (induction bs rule: b64_digits.induct) (simp_all add: numeral_2_eq_2)

lemma b64url_digits:
  assumes "is_bytes bs"
  shows "b64url bs = map b64_char (b64_digits bs)"
proof -
  have strip: "rstrip_pad (s @ replicate n 61) = s" if "61 \<notin> set s" for s n
  proof -
    have "dropWhile (\<lambda>c. c = 61) (rev s) = rev s"
      using that by (cases s rule: rev_cases) auto
    moreover have "dropWhile (\<lambda>c. c = 61) (replicate n 61 @ rev s) = dropWhile (\<lambda>c. c = 61) (rev s)"
      by (induction n) simp_all
    ultimately show ?thesis by (simp add: rstrip_pad_def)
  qed
  have "61 \<notin> set (map b64_char (b64_digits bs))"
    using b64_char_range b64_digits_less [OF assms] by fastforce
  then show ?thesis by (simp add: b64url_def urlsafe_b64encode_digits strip)
qed

lemma b64_scan_digits:
  assumes "is_bytes bs"
  shows "b64_scan 0 0 0 (map b64_char (b64_digits bs) @ replicate (pad_length (length (b64_digits bs))) 61) = Inr bs"
  using assms
proof (induction bs rule: b64_digits.induct)
  case (4 a b c bs)
  then have less: "a < 256" "b < 256" "c < 256" and bs: "is_bytes bs" by (simp_all add: is_bytes_def)
  define d0 where d: "d0 = a div 4"
  define d1 where d1: "d1 = a mod 4 * 16 + b div 16"
  define d2 where d2: "d2 = b mod 16 * 4 + c div 64"
  define d3 where d3: "d3 = c mod 64"
  have small: "d0 < 64" "d1 < 64" "d2 < 64" "d3 < 64" using less by (auto simp: d d1 d2 d3)
  have again: "d0 * 4 + d1 div 16 = a" "d1 mod 16 * 16 + d2 div 4 = b" "d2 mod 4 * 64 + d3 = c"
    using less by (auto simp: d d1 d2 d3)
  have digits: "b64_digits (a # b # c # bs) = [d0, d1, d2, d3] @ b64_digits bs" by (simp add: d d1 d2 d3)
  show ?case
    unfolding digits using 4(1) [OF bs] small by (simp add: b64_value_char b64_char_range again)
next
  case (2 a)
  then have "a < 256" by (simp add: is_bytes_def)
  define d0 where d: "d0 = a div 4"
  define d1 where d1: "d1 = a mod 4 * 16"
  have "d0 < 64" "d1 < 64" "d0 * 4 + d1 div 16 = a" using \<open>a < 256\<close> by (auto simp: d d1)
  then show ?case by (simp add: d [symmetric] d1 [symmetric] b64_value_char b64_char_range numeral_2_eq_2)
next
  case (3 a b)
  then have less: "a < 256" "b < 256" by (simp_all add: is_bytes_def)
  define d0 where d: "d0 = a div 4"
  define d1 where d1: "d1 = a mod 4 * 16 + b div 16"
  define d2 where d2: "d2 = b mod 16 * 4"
  have "d0 < 64" "d1 < 64" "d2 < 64" "d0 * 4 + d1 div 16 = a" "d1 mod 16 * 16 + d2 div 4 = b"
    using less by (auto simp: d d1 d2)
  then show ?case by (simp add: d [symmetric] d1 [symmetric] d2 [symmetric] b64_value_char b64_char_range)
qed simp

lemma decode_b64url:
  assumes "is_bytes d"
  shows "urlsafe_b64decode (padded (b64url d)) = Inr d"
proof -
  have "\<forall>c \<in> set (map b64_char (b64_digits d) @ replicate n 61). c < 128" for n
    using b64_char_range b64_digits_less [OF assms] by (auto simp: less_imp_le)
  then show ?thesis
    using b64_scan_digits [OF assms] by (auto simp: urlsafe_b64decode_def padded_def b64url_digits [OF assms] not_le)
qed

lemma b64_value_less: "b64_value c = Some v \<Longrightarrow> v < 64"
  by (auto simp: b64_value_def split: if_splits)

lemma b64_scan_bytes:
  assumes "b64_scan q left pads cs = Inr bs" "q = 0 \<or> left < (if q = 1 then 64 else if q = 2 then 16 else 4)"
  shows "is_bytes bs"
  using assms
proof (induction q left pads cs arbitrary: bs rule: b64_scan.induct)
  case (1 q left pads)
  then show ?case by (auto simp: is_bytes_def split: if_splits)
next
  case (2 q left pads c cs)
  show ?case
  proof (cases "c = 61")
    case True
    with 2 show ?thesis by (auto simp: is_bytes_def split: if_splits)
  next
    case False
    show ?thesis
    proof (cases "b64_value c")
      case None
      with 2 False show ?thesis by auto
    next
      case (Some v)
      note v = b64_value_less [OF Some]
      consider "q = 0" | "q = 1" | "q = 2" | "q \<noteq> 0" "q \<noteq> 1" "q \<noteq> 2" by blast
      then show ?thesis
      proof cases
        case 1
        with 2 False Some v show ?thesis by auto
      next
        case 2
        with False Some "2.prems" obtain ds where ds: "b64_scan 2 (v mod 16) 0 cs = Inr ds" "bs = (left * 4 + v div 16) # ds" by auto
        have "is_bytes ds" by (rule "2.IH"(5) [OF False Some _ _ ds(1)]) (use 2 in auto)
        moreover have "left * 4 + v div 16 < 256" using "2.prems"(2) 2 v by auto
        ultimately show ?thesis using ds(2) by (simp add: is_bytes_def)
      next
        case 3
        with False Some "2.prems" obtain ds where ds: "b64_scan 3 (v mod 4) 0 cs = Inr ds" "bs = (left * 16 + v div 4) # ds" by auto
        have "is_bytes ds" by (rule "2.IH"(6) [OF False Some _ _ _ ds(1)]) (use 3 in auto)
        moreover have "left * 16 + v div 4 < 256" using "2.prems"(2) 3 v by auto
        ultimately show ?thesis using ds(2) by (simp add: is_bytes_def)
      next
        case 4
        with False Some "2.prems" obtain ds where ds: "b64_scan 0 0 0 cs = Inr ds" "bs = (left * 64 + v) # ds" by auto
        have "is_bytes ds" by (rule "2.IH"(7) [OF False Some _ _ _ ds(1)]) (use 4 in auto)
        moreover have "left * 64 + v < 256" using "2.prems"(2) 4 v by auto
        ultimately show ?thesis using ds(2) by (simp add: is_bytes_def)
      qed
    qed
  qed
qed

lemma decode_bytes: "urlsafe_b64decode s = Inr d \<Longrightarrow> is_bytes d"
  by (auto simp: urlsafe_b64decode_def split: if_splits intro: b64_scan_bytes)

text \<open>A field passes the re-encoding check exactly when it is the encoding of some bytes.\<close>

lemma canonical_iff:
  "(\<exists>d. urlsafe_b64decode (padded s) = Inr d \<and> b64url d = s \<and> P d) \<longleftrightarrow> (\<exists>d. is_bytes d \<and> s = b64url d \<and> P d)"
  using decode_b64url decode_bytes by metis

lemma is_canonical_iff: "is_canonical_b64url s \<longleftrightarrow> s \<noteq> [] \<and> (\<exists>d. is_bytes d \<and> s = b64url d)"
proof -
  have "set (b64url d) \<subseteq> b64_char ` {..<64}" if "is_bytes d" for d
    using b64_digits_less [OF that] by (auto simp: b64url_digits [OF that])
  then have "\<not> (\<exists>c \<in> set s. c \<notin> b64_char ` {..<64})" if "is_bytes d" "s = b64url d" for d using that by blast
  then show ?thesis
    using canonical_iff [of s "\<lambda>_. True"] by (auto simp: is_canonical_b64url_def split: sum.splits)
qed

section \<open>The accepted envelopes\<close>

lemma lit_inject [simp]: "lit s = lit t \<longleftrightarrow> s = t"
  by (simp add: lit_def inj_map_eq_map inj_def)

lemma field_eq_Inr_iff [simp]: "field v k = Inr x \<longleftrightarrow> map_of v (lit k) = Some x"
  by (auto simp: field_def split: option.splits)

lemma check_equal_iff [simp]: "check_equal v k s err = Inr u \<longleftrightarrow> map_of v (lit k) = Some (JString s)"
  by (auto simp: check_equal_def)

lemma in_set_iff: "in_set x names = Inr True \<longleftrightarrow> (\<exists>n \<in> set names. x = JString (lit n))"
  by (auto simp: in_set_def split: json.splits)

text \<open>The three kinds of frames: type, direction, and whether the frame carries a wrapped key.\<close>

definition frame_kinds :: "(string \<times> string \<times> bool) list" where
  "frame_kinds = [(''execute'', ''request'', True), (''cancel'', ''request'', False), (''execute_result'', ''response'', False)]"

definition encodes :: "json \<Rightarrow> nat \<Rightarrow> bool" where
  "encodes x n \<longleftrightarrow> (\<exists>d. is_bytes d \<and> length d = n \<and> x = JString (b64url d))"

definition is_identifier :: "json \<Rightarrow> bool" where
  "is_identifier x \<longleftrightarrow> (\<exists>s. x = JString s \<and> s \<noteq> [] \<and> length s \<le> 128)"

definition is_positive :: "json \<Rightarrow> bool" where "is_positive x \<longleftrightarrow> (\<exists>i \<ge> 1. x = JInt i)"

definition has :: "(pystr \<times> json) list \<Rightarrow> string \<Rightarrow> (json \<Rightarrow> bool) \<Rightarrow> bool" where
  "has v k P \<longleftrightarrow> (\<exists>x. map_of v (lit k) = Some x \<and> P x)"

definition envelope_ok :: "int \<Rightarrow> (pystr \<times> json) list \<Rightarrow> bool" where
  "envelope_ok maximum v \<longleftrightarrow>
     set (map fst v) = set expected_fields \<and>
     has v ''protocol'' ((=) (JString eb_protocol)) \<and> has v ''channel'' ((=) (JString eb_channel)) \<and>
     has v ''relay_binding_kind'' ((=) (JString eb_kind)) \<and>
     has v ''request_id'' is_identifier \<and> has v ''binding_id'' is_identifier \<and>
     has v ''generation'' is_positive \<and> has v ''sequence'' is_positive \<and> has v ''payload_bytes'' is_positive \<and>
     has v ''nonce'' (\<lambda>x. encodes x 12) \<and> has v ''auth_tag'' (\<lambda>x. encodes x 16) \<and>
     (\<exists>n. has v ''payload_bytes'' ((=) (JInt (int n))) \<and> has v ''ciphertext'' (\<lambda>x. encodes x n)) \<and>
     (\<exists>(ty, dir, wrapped) \<in> set frame_kinds.
        has v ''type'' ((=) (JString (lit ty))) \<and> has v ''direction'' ((=) (JString (lit dir))) \<and>
        has v ''key_wrap'' (\<lambda>x. if wrapped then encodes x 92 else x = JString [])) \<and>
     (\<forall>c \<in> set (json_dumps (JObject v)). \<not> surrogate c) \<and> int (length (utf8 (json_dumps (JObject v)))) \<le> maximum"

lemma check_header_iff:
  "check_header v = Inr u \<longleftrightarrow> set (map fst v) = set expected_fields \<and>
     has v ''protocol'' ((=) (JString eb_protocol)) \<and> has v ''channel'' ((=) (JString eb_channel)) \<and>
     has v ''relay_binding_kind'' ((=) (JString eb_kind)) \<and>
     (\<exists>(ty, dir, _) \<in> set frame_kinds. has v ''type'' ((=) (JString (lit ty))) \<and> has v ''direction'' ((=) (JString (lit dir))))"
proof -
  have "check_header v = Inr u \<longleftrightarrow> set (map fst v) = set expected_fields \<and>
     has v ''protocol'' ((=) (JString eb_protocol)) \<and> has v ''channel'' ((=) (JString eb_channel)) \<and>
     has v ''relay_binding_kind'' ((=) (JString eb_kind)) \<and>
     (\<exists>ty dir. map_of v (lit ''type'') = Some ty \<and> map_of v (lit ''direction'') = Some dir \<and>
        in_set ty [''execute'', ''execute_result'', ''cancel''] = Inr True \<and> in_set dir [''request'', ''response''] = Inr True \<and>
        \<not> ((dir = JString (lit ''request'') \<and> ty \<notin> {JString (lit ''execute''), JString (lit ''cancel'')}) \<or>
           (dir = JString (lit ''response'') \<and> ty \<noteq> JString (lit ''execute_result''))))"
    by (auto simp: check_header_def has_def)
  also have "(\<exists>ty dir. map_of v (lit ''type'') = Some ty \<and> map_of v (lit ''direction'') = Some dir \<and>
        in_set ty [''execute'', ''execute_result'', ''cancel''] = Inr True \<and> in_set dir [''request'', ''response''] = Inr True \<and>
        \<not> ((dir = JString (lit ''request'') \<and> ty \<notin> {JString (lit ''execute''), JString (lit ''cancel'')}) \<or>
           (dir = JString (lit ''response'') \<and> ty \<noteq> JString (lit ''execute_result'')))) \<longleftrightarrow>
     (\<exists>(ty, dir, _) \<in> set frame_kinds. has v ''type'' ((=) (JString (lit ty))) \<and> has v ''direction'' ((=) (JString (lit dir))))"
    unfolding in_set_iff frame_kinds_def has_def by auto
  finally show ?thesis .
qed

lemma check_id_iff: "check_id v k = Inr u \<longleftrightarrow> has v k is_identifier"
proof (cases "map_of v (lit k)")
  case None
  then show ?thesis by (simp add: check_id_def has_def field_def)
next
  case (Some x)
  then show ?thesis by (cases x) (auto simp: check_id_def has_def field_def is_identifier_def)
qed

lemma check_positive_iff: "check_positive v k = Inr u \<longleftrightarrow> has v k is_positive"
proof (cases "map_of v (lit k)")
  case None
  then show ?thesis by (simp add: check_positive_def has_def field_def)
next
  case (Some x)
  then show ?thesis by (cases x) (auto simp: check_positive_def has_def field_def is_positive_def)
qed

lemma decode_field_iff:
  "decode_field v k = Inr (s, d) \<longleftrightarrow> has v k ((=) (JString s)) \<and> urlsafe_b64decode (padded s) = Inr d"
proof (cases "map_of v (lit k)")
  case None
  then show ?thesis by (simp add: decode_field_def has_def field_def)
next
  case (Some x)
  then show ?thesis by (cases x) (auto simp: decode_field_def has_def field_def split: sum.splits)
qed

lemma decode_canonical:
  "(\<exists>s d. decode_field v k = Inr (s, d) \<and> length d = n \<and> b64url d = s) \<longleftrightarrow> has v k (\<lambda>x. encodes x n)"
proof -
  have "(\<exists>s d. decode_field v k = Inr (s, d) \<and> length d = n \<and> b64url d = s) \<longleftrightarrow>
      (\<exists>s. has v k ((=) (JString s)) \<and> (\<exists>d. urlsafe_b64decode (padded s) = Inr d \<and> b64url d = s \<and> length d = n))"
    by (auto simp: decode_field_iff)
  also have "\<dots> \<longleftrightarrow> (\<exists>s. has v k ((=) (JString s)) \<and> (\<exists>d. is_bytes d \<and> s = b64url d \<and> length d = n))"
    by (simp only: canonical_iff)
  also have "\<dots> \<longleftrightarrow> has v k (\<lambda>x. encodes x n)" by (auto simp: has_def encodes_def)
  finally show ?thesis .
qed

lemma check_sealed_iff:
  "check_sealed v = Inr u \<longleftrightarrow> has v ''nonce'' (\<lambda>x. encodes x 12) \<and> has v ''auth_tag'' (\<lambda>x. encodes x 16) \<and>
     (\<exists>n. has v ''payload_bytes'' ((=) (JInt (int n))) \<and> has v ''ciphertext'' (\<lambda>x. encodes x n))"
proof -
  have "check_sealed v = Inr u \<longleftrightarrow>
      (\<exists>s d. decode_field v ''nonce'' = Inr (s, d) \<and> length d = 12 \<and> b64url d = s) \<and>
      (\<exists>s d. decode_field v ''auth_tag'' = Inr (s, d) \<and> length d = 16 \<and> b64url d = s) \<and>
      (\<exists>n. has v ''payload_bytes'' ((=) (JInt (int n))) \<and> (\<exists>s d. decode_field v ''ciphertext'' = Inr (s, d) \<and> length d = n \<and> b64url d = s))"
    by (auto simp: check_sealed_def has_def)
  then show ?thesis by (simp only: decode_canonical)
qed

lemma check_key_wrap_iff:
  assumes "has v ''type'' ((=) (JString (lit ty)))" "has v ''direction'' ((=) (JString (lit dir)))" "(ty, dir, wrapped) \<in> set frame_kinds"
  shows "check_key_wrap v = Inr u \<longleftrightarrow> has v ''key_wrap'' (\<lambda>x. if wrapped then encodes x 92 else x = JString [])"
proof -
  have nonempty: "b64url d \<noteq> []" if "is_bytes d" "length d = 92" for d
    using that by (cases d rule: b64_digits.cases) (auto simp: b64url_digits)
  have canon: "(s \<noteq> [] \<and> is_canonical_b64url s \<and> (\<exists>d. urlsafe_b64decode (padded s) = Inr d \<and> length d = 92)) \<longleftrightarrow> encodes (JString s) 92" for s
    using nonempty by (auto simp: is_canonical_iff encodes_def decode_b64url)
  show ?thesis
  proof (cases "map_of v (lit ''key_wrap'')")
    case None
    then show ?thesis by (simp add: check_key_wrap_def has_def field_def)
  next
    case (Some x)
    show ?thesis
    proof (cases x)
      case (JString s)
      have "check_key_wrap v = Inr u \<longleftrightarrow>
          (if wrapped then s \<noteq> [] \<and> is_canonical_b64url s \<and> (\<exists>d. urlsafe_b64decode (padded s) = Inr d \<and> length d = 92) else s = [])"
        using assms Some JString
        by (auto simp: check_key_wrap_def has_def frame_kinds_def field_def split: sum.splits)
      then show ?thesis using Some JString by (simp only: canon) (simp add: has_def)
    qed (use assms Some in \<open>auto simp: check_key_wrap_def has_def encodes_def field_def\<close>)
  qed
qed

lemma check_wire_size_iff:
  "check_wire_size maximum v = Inr u \<longleftrightarrow>
     (\<forall>c \<in> set (json_dumps (JObject v)). \<not> surrogate c) \<and> int (length (utf8 (json_dumps (JObject v)))) \<le> maximum"
  by (auto simp: check_wire_size_def encode_def simp del: json_dumps.simps)

section \<open>Errors\<close>

definition unhashable :: "json \<Rightarrow> bool" where
  "unhashable x \<longleftrightarrow> (case x of JArray _ \<Rightarrow> True | JObject _ \<Rightarrow> True | _ \<Rightarrow> False)"

definition raises_only :: "(py_error \<Rightarrow> bool) \<Rightarrow> 'a res \<Rightarrow> bool" where
  "raises_only E r \<longleftrightarrow> (\<forall>e. r = Inl e \<longrightarrow> E e)"

lemma raises_only_bind [intro]:
  "raises_only E m \<Longrightarrow> (\<And>x. m = Inr x \<Longrightarrow> raises_only E (f x)) \<Longrightarrow> raises_only E (bind_res m f)"
  by (cases m) (auto simp: raises_only_def)

lemma raises_only_simps [simp]: "raises_only E (Inr x)" "raises_only E (Inl e) \<longleftrightarrow> E e"
  "raises_only E (require b e) \<longleftrightarrow> b \<or> E e"
  by (auto simp: raises_only_def require_def)

lemma is_value_error_ValueError [simp]: "is_value_error (ValueError s)" by (simp add: is_value_error_def)

lemma field_present:
  assumes "set (map fst v) = set expected_fields" "lit k \<in> set expected_fields"
  shows "raises_only is_value_error (field v k)"
proof -
  have "map_of v (lit k) \<noteq> None" using assms by (simp add: map_of_eq_None_iff)
  then show ?thesis by (auto simp: field_def)
qed

lemma expected_names:
  "lit ''protocol'' \<in> set expected_fields" "lit ''channel'' \<in> set expected_fields"
  "lit ''relay_binding_kind'' \<in> set expected_fields" "lit ''type'' \<in> set expected_fields"
  "lit ''request_id'' \<in> set expected_fields" "lit ''binding_id'' \<in> set expected_fields"
  "lit ''generation'' \<in> set expected_fields" "lit ''sequence'' \<in> set expected_fields"
  "lit ''direction'' \<in> set expected_fields" "lit ''payload_bytes'' \<in> set expected_fields"
  "lit ''nonce'' \<in> set expected_fields" "lit ''ciphertext'' \<in> set expected_fields"
  "lit ''auth_tag'' \<in> set expected_fields" "lit ''key_wrap'' \<in> set expected_fields"
  by (simp_all add: expected_fields_def)

lemmas field_raises = field_present [OF _ expected_names(1)] field_present [OF _ expected_names(2)]
  field_present [OF _ expected_names(3)] field_present [OF _ expected_names(4)] field_present [OF _ expected_names(5)]
  field_present [OF _ expected_names(6)] field_present [OF _ expected_names(7)] field_present [OF _ expected_names(8)]
  field_present [OF _ expected_names(9)] field_present [OF _ expected_names(10)] field_present [OF _ expected_names(11)]
  field_present [OF _ expected_names(12)] field_present [OF _ expected_names(13)] field_present [OF _ expected_names(14)]

lemma check_id_raises: "raises_only is_value_error (field v k) \<Longrightarrow> raises_only is_value_error (check_id v k)"
  unfolding check_id_def by (rule raises_only_bind) auto

lemma check_positive_raises: "raises_only is_value_error (field v k) \<Longrightarrow> raises_only is_value_error (check_positive v k)"
  unfolding check_positive_def by (rule raises_only_bind) auto

lemma check_equal_raises: "raises_only is_value_error (field v k) \<Longrightarrow> raises_only is_value_error (check_equal v k s err)"
  unfolding check_equal_def by (rule raises_only_bind) auto

lemma decode_field_raises: "raises_only is_value_error (field v k) \<Longrightarrow> raises_only is_value_error (decode_field v k)"
  unfolding decode_field_def by (rule raises_only_bind) (auto split: json.split sum.split)

lemma check_sealed_raises:
  "set (map fst v) = set expected_fields \<Longrightarrow> raises_only is_value_error (check_sealed v)"
  unfolding check_sealed_def split_def by (intro raises_only_bind decode_field_raises field_raises) simp_all

lemma check_key_wrap_raises:
  "set (map fst v) = set expected_fields \<Longrightarrow> raises_only is_value_error (check_key_wrap v)"
  unfolding check_key_wrap_def by (intro raises_only_bind field_raises) (auto split: json.split sum.split)

lemma check_wire_size_raises: "raises_only is_value_error (check_wire_size maximum v)"
  unfolding check_wire_size_def encode_def by (rule raises_only_bind) auto

lemma in_set_raises: "raises_only (\<lambda>e. e = TypeError \<and> unhashable x) (in_set x names)"
  by (simp add: in_set_def unhashable_def split: json.split)

lemma check_header_raises:
  "raises_only (\<lambda>e. is_value_error e \<or> e = TypeError \<and> (has v ''type'' unhashable \<or> has v ''direction'' unhashable)) (check_header v)"
    (is "raises_only ?E _")
proof -
  have weaken: "raises_only is_value_error r \<Longrightarrow> raises_only ?E r" for r :: "'a res" by (auto simp: raises_only_def)
  have weaken_set: "raises_only ?E (in_set x names)" if "has v ''type'' ((=) x) \<or> has v ''direction'' ((=) x)" for x names
    using in_set_raises [of x names] that by (auto simp: raises_only_def has_def)
  show ?thesis
    unfolding check_header_def
    by (intro raises_only_bind weaken weaken_set check_equal_raises field_raises) (auto simp: has_def)
qed

section \<open>Properties\<close>

text \<open>
  C32. The envelope check accepts a frame exactly when it decodes to an object without duplicate keys
  that is a well-formed envelope: exactly the fourteen fields, one of the three frame kinds, and each
  sealed field the unpadded base64url encoding of bytes of the declared length; the answer is that
  object.
\<close>

theorem parse_envelope_exact:
  "parse_outer_envelope loads maximum raw = Inr v \<longleftrightarrow>
     int (length raw) \<le> maximum \<and> loads raw = Some (JObject v) \<and> unique_keys (JObject v) \<and> envelope_ok maximum v"
proof -
  let ?checks = "check_header v = Inr () \<and> check_id v ''request_id'' = Inr () \<and> check_id v ''binding_id'' = Inr () \<and>
    check_positive v ''generation'' = Inr () \<and> check_positive v ''sequence'' = Inr () \<and>
    check_positive v ''payload_bytes'' = Inr () \<and> check_sealed v = Inr () \<and> check_key_wrap v = Inr () \<and>
    check_wire_size maximum v = Inr ()"
  have "parse_outer_envelope loads maximum raw = Inr v \<longleftrightarrow>
      int (length raw) \<le> maximum \<and> loads raw = Some (JObject v) \<and> unique_keys (JObject v) \<and> ?checks"
    by (auto simp: parse_outer_envelope_def simp del: unique_keys.simps split: option.splits json.splits if_splits)
  also have "?checks \<longleftrightarrow> envelope_ok maximum v"
  proof (cases "check_header v = Inr ()")
    case True
    then obtain ty dir wrapped where k: "(ty, dir, wrapped) \<in> set frame_kinds"
      "has v ''type'' ((=) (JString (lit ty)))" "has v ''direction'' ((=) (JString (lit dir)))"
      unfolding check_header_iff by blast
    have kind_unique: "(ty', dir', wrapped') = (ty, dir, wrapped)"
      if "(ty', dir', wrapped') \<in> set frame_kinds" "has v ''type'' ((=) (JString (lit ty')))" for ty' dir' wrapped'
      using that k by (auto simp: frame_kinds_def has_def)
    have "(\<exists>(ty, dir, wrapped) \<in> set frame_kinds.
        has v ''type'' ((=) (JString (lit ty))) \<and> has v ''direction'' ((=) (JString (lit dir))) \<and>
        has v ''key_wrap'' (\<lambda>x. if wrapped then encodes x 92 else x = JString [])) \<longleftrightarrow>
      has v ''key_wrap'' (\<lambda>x. if wrapped then encodes x 92 else x = JString [])"
      using k kind_unique by blast
    with True k show ?thesis
      unfolding envelope_ok_def check_id_iff check_positive_iff check_sealed_iff check_wire_size_iff
        check_key_wrap_iff [OF k(2,3,1)]
      by (simp only: check_header_iff) blast
  next
    case False
    then show ?thesis unfolding envelope_ok_def check_header_iff by blast
  qed
  finally show ?thesis .
qed

text \<open>
  A refusal is a \<open>ValueError\<close>, which the relay answers by closing both ends; the one exception
  is a frame whose \<open>type\<close> or \<open>direction\<close> is an array or an object, where the set test raises
  \<open>TypeError\<close>.
\<close>

theorem parse_envelope_errors:
  assumes "parse_outer_envelope loads maximum raw = Inl e"
  shows "is_value_error e \<or>
    e = TypeError \<and> (\<exists>v. loads raw = Some (JObject v) \<and> (has v ''type'' unhashable \<or> has v ''direction'' unhashable))"
proof -
  let ?E = "\<lambda>v e. is_value_error e \<or> e = TypeError \<and> (has v ''type'' unhashable \<or> has v ''direction'' unhashable)"
  have weaken: "raises_only is_value_error r \<Longrightarrow> raises_only (?E v) r" for r :: "unit res" and v by (auto simp: raises_only_def)
  have checks: "raises_only (?E v) (bind_res (check_header v) (\<lambda>_. bind_res (check_id v ''request_id'') (\<lambda>_.
      bind_res (check_id v ''binding_id'') (\<lambda>_. bind_res (check_positive v ''generation'') (\<lambda>_.
      bind_res (check_positive v ''sequence'') (\<lambda>_. bind_res (check_positive v ''payload_bytes'') (\<lambda>_.
      bind_res (check_sealed v) (\<lambda>_. bind_res (check_key_wrap v) (\<lambda>_.
      bind_res (check_wire_size maximum v) (\<lambda>_. Inr v))))))))))" for v
    by (rule raises_only_bind [OF check_header_raises])
      (intro raises_only_bind weaken check_id_raises check_positive_raises check_sealed_raises check_key_wrap_raises
        check_wire_size_raises field_raises; simp add: check_header_iff)
  consider "is_value_error e" | v where "loads raw = Some (JObject v)" "parse_outer_envelope loads maximum raw =
      bind_res (check_header v) (\<lambda>_. bind_res (check_id v ''request_id'') (\<lambda>_.
      bind_res (check_id v ''binding_id'') (\<lambda>_. bind_res (check_positive v ''generation'') (\<lambda>_.
      bind_res (check_positive v ''sequence'') (\<lambda>_. bind_res (check_positive v ''payload_bytes'') (\<lambda>_.
      bind_res (check_sealed v) (\<lambda>_. bind_res (check_key_wrap v) (\<lambda>_.
      bind_res (check_wire_size maximum v) (\<lambda>_. Inr v)))))))))"
    using assms by (auto simp: parse_outer_envelope_def require_def simp del: unique_keys.simps
      split: option.splits json.splits if_splits)
  then show ?thesis
  proof cases
    case 2
    with checks [of v] assms show ?thesis by (auto simp: raises_only_def)
  qed simp
qed

section \<open>Witnesses\<close>

definition n_fields :: "json \<Rightarrow> (pystr \<times> json) list" where
  "n_fields ty =
     [(lit ''protocol'', JString eb_protocol), (lit ''channel'', JString eb_channel),
      (lit ''relay_binding_kind'', JString eb_kind), (lit ''type'', ty),
      (lit ''request_id'', JString (lit ''r1'')), (lit ''binding_id'', JString (lit ''b1'')),
      (lit ''generation'', JInt 1), (lit ''sequence'', JInt 1), (lit ''direction'', JString (lit ''request'')),
      (lit ''payload_bytes'', JInt 2), (lit ''nonce'', JString (b64url (replicate 12 7))),
      (lit ''ciphertext'', JString (b64url [1, 2])), (lit ''auth_tag'', JString (b64url (replicate 16 9))),
      (lit ''key_wrap'', JString [])]"

text \<open>A cancel frame is accepted; the same frame with an array as its type raises \<open>TypeError\<close>.\<close>

lemma n_cancel_accepted:
  "parse_outer_envelope (\<lambda>_. Some (JObject (n_fields (JString (lit ''cancel''))))) 1000 [] =
     Inr (n_fields (JString (lit ''cancel'')))"
  by code_simp

theorem parse_envelope_errors_witness:
  "parse_outer_envelope (\<lambda>_. Some (JObject (n_fields (JArray [])))) 1000 [] = Inl TypeError \<and>
   has (n_fields (JArray [])) ''type'' unhashable"
proof -
  have raised: "parse_outer_envelope (\<lambda>_. Some (JObject (n_fields (JArray [])))) 1000 [] = Inl TypeError" by code_simp
  have "\<not> has (n_fields (JArray [])) ''direction'' unhashable" by (simp add: has_def n_fields_def unhashable_def)
  with raised parse_envelope_errors [OF raised] show ?thesis by (auto simp: is_value_error_def)
qed

end
