(* ===== verification/Request.thy ===== *)
theory Request
  imports Prelude
begin

text \<open>
  Requests as steps over a world with a database transaction. A request works on \<open>w_db\<close>; a commit makes that
  the saved state; when the request is over, returned or raised, what was not committed is gone. Parts of a
  world that are not transactional (a token store, the relay hub) extend the record.

  Triples say what a request keeps and what its result tells; inversion rules read a result backwards.
\<close>

section \<open>Steps\<close>

record 'd tx =
  w_db :: 'd
  w_saved :: 'd

type_synonym ('w, 'a) step = "'w \<Rightarrow> 'w \<times> 'a res"

definition ret :: "'a \<Rightarrow> ('w, 'a) step" where "ret x w = (w, Inr x)"

definition throw :: "py_error \<Rightarrow> ('w, 'a) step" where "throw e w = (w, Inl e)"

definition api_error :: "string \<Rightarrow> nat \<Rightarrow> ('w, 'a) step" where "api_error code status = throw (ApiError code status)"

definition act_bind :: "('w, 'a) step \<Rightarrow> ('a \<Rightarrow> ('w, 'b) step) \<Rightarrow> ('w, 'b) step" where
  "act_bind m f w = (case m w of (w', Inl e) \<Rightarrow> (w', Inl e) | (w', Inr x) \<Rightarrow> f x w')"

definition check :: "bool \<Rightarrow> string \<Rightarrow> nat \<Rightarrow> ('w, unit) step" where
  "check b code status = (if b then ret () else api_error code status)"

definition lift_res :: "'a res \<Rightarrow> ('w, 'a) step" where
  "lift_res r = (case r of Inl e \<Rightarrow> throw e | Inr x \<Rightarrow> ret x)"

definition query :: "('d \<Rightarrow> 'a) \<Rightarrow> (('d, 'z) tx_scheme, 'a) step" where "query q w = (w, Inr (q (w_db w)))"

text \<open>A change of the database that its constraints may refuse.\<close>

definition modify :: "('d \<Rightarrow> 'd res) \<Rightarrow> (('d, 'z) tx_scheme, unit) step" where
  "modify g w = (case g (w_db w) of Inl e \<Rightarrow> (w, Inl e) | Inr d \<Rightarrow> (w\<lparr>w_db := d\<rparr>, Inr ()))"

definition commit :: "(('d, 'z) tx_scheme, unit) step" where "commit w = (w\<lparr>w_saved := w_db w\<rparr>, Inr ())"

definition rollback :: "(('d, 'z) tx_scheme, unit) step" where "rollback w = (w\<lparr>w_db := w_saved w\<rparr>, Inr ())"

definition catch :: "('w, 'a) step \<Rightarrow> py_error \<Rightarrow> ('w, 'a) step \<Rightarrow> ('w, 'a) step" where
  "catch m e h w = (case m w of (w', Inl e') \<Rightarrow> if e' = e then h w' else (w', Inl e') | (w', Inr x) \<Rightarrow> (w', Inr x))"

definition run_request :: "(('d, 'z) tx_scheme, 'a) step \<Rightarrow> (('d, 'z) tx_scheme, 'a) step" where
  "run_request m w = (case m (w\<lparr>w_db := w_saved w\<rparr>) of (w', r) \<Rightarrow> (w'\<lparr>w_db := w_saved w'\<rparr>, r))"

definition discard :: "('w, 'a) step \<Rightarrow> ('w, unit) step" where
  "discard m = act_bind m (\<lambda>_. ret ())"

fun for_each :: "('a \<Rightarrow> ('w, unit) step) \<Rightarrow> 'a list \<Rightarrow> ('w, unit) step" where
  "for_each f [] = ret ()"
| "for_each f (x # xs) = act_bind (f x) (\<lambda>_. for_each f xs)"

section \<open>Running a request\<close>

lemma act_simps:
  "act_bind (ret x) f w = f x w" "act_bind (query q) f' v = f' (q (w_db v)) v"
  "act_bind (check b c n) g w = (if b then g () w else (w, Inl (ApiError c n)))"
  "act_bind (throw e) h w = (w, Inl e)" "act_bind (api_error c n) h w = (w, Inl (ApiError c n))"
  "act_bind commit k v = k () (v\<lparr>w_saved := w_db v\<rparr>)"
  by (simp_all add: act_bind_def ret_def query_def check_def throw_def api_error_def commit_def)

lemma modify_step:
  "act_bind (modify g) f w = (case g (w_db w) of Inl e \<Rightarrow> (w, Inl e) | Inr d \<Rightarrow> f () (w\<lparr>w_db := d\<rparr>))"
  "act_bind (lift_res (Inr x)) k v = k x v"
  by (simp_all add: act_bind_def modify_def lift_res_def ret_def split: sum.splits)

lemma act_bind_assoc: "act_bind (act_bind m f) g = act_bind m (\<lambda>x. act_bind (f x) g)"
  by (rule ext) (simp add: act_bind_def split: prod.splits sum.splits)

lemma act_bind_Inr: "m w = (w', Inr x) \<Longrightarrow> act_bind m f w = f x w'"
  by (simp add: act_bind_def)

lemma act_bind_Inl: "m w = (w', Inl e) \<Longrightarrow> act_bind m f w = (w', Inl e)"
  by (simp add: act_bind_def)

lemma run_discard: "run_request (discard m) w = (case run_request m w of (w', r) \<Rightarrow> (w', map_sum id (\<lambda>_. ()) r))"
  by (simp add: run_request_def discard_def act_bind_def ret_def split: prod.splits sum.splits)

section \<open>Triples\<close>

text \<open>\<open>I\<close> holds after every outcome; \<open>Q\<close> after a result.\<close>

definition keeps :: "('w \<Rightarrow> bool) \<Rightarrow> ('w \<Rightarrow> bool) \<Rightarrow> ('w, 'a) step \<Rightarrow> ('a \<Rightarrow> 'w \<Rightarrow> bool) \<Rightarrow> bool" where
  "keeps I P m Q \<longleftrightarrow> (\<forall>w w' r. I w \<longrightarrow> P w \<longrightarrow> m w = (w', r) \<longrightarrow> I w' \<and> (\<forall>x. r = Inr x \<longrightarrow> Q x w'))"

lemma keepsI: "(\<And>w w' r. I w \<Longrightarrow> P w \<Longrightarrow> m w = (w', r) \<Longrightarrow> I w' \<and> (\<forall>x. r = Inr x \<longrightarrow> Q x w')) \<Longrightarrow> keeps I P m Q"
  unfolding keeps_def by blast

lemma keepsD: "keeps I P m Q \<Longrightarrow> I w \<Longrightarrow> P w \<Longrightarrow> m w = (w', r) \<Longrightarrow> I w' \<and> (\<forall>x. r = Inr x \<longrightarrow> Q x w')"
  unfolding keeps_def by blast

lemma keeps_pre: "keeps I P' m Q \<Longrightarrow> (\<And>w. P w \<Longrightarrow> P' w) \<Longrightarrow> keeps I P m Q"
  unfolding keeps_def by blast

lemma keeps_post: "keeps I P m Q' \<Longrightarrow> (\<And>x w. Q' x w \<Longrightarrow> Q x w) \<Longrightarrow> keeps I P m Q"
  unfolding keeps_def by blast

lemma keeps_bind: "keeps I P m Q \<Longrightarrow> (\<And>x. keeps I (Q x) (f x) R) \<Longrightarrow> keeps I P (act_bind m f) R"
proof (rule keepsI)
  fix w w' r
  assume m: "keeps I P m Q" and f: "\<And>x. keeps I (Q x) (f x) R" and w: "I w" "P w" "act_bind m f w = (w', r)"
  obtain w1 r1 where m1: "m w = (w1, r1)" by (cases "m w")
  note k = keepsD [OF m w(1,2) m1]
  show "I w' \<and> (\<forall>x. r = Inr x \<longrightarrow> R x w')"
  proof (cases r1)
    case (Inl e)
    with w(3) m1 k show ?thesis by (auto simp: act_bind_def)
  next
    case (Inr x)
    with w(3) m1 have "f x w1 = (w', r)" by (simp add: act_bind_def)
    then show ?thesis using keepsD [OF f [of x]] k Inr by blast
  qed
qed

lemma keeps_ret: "keeps I P (ret x) (\<lambda>y w. y = x \<and> P w)"
  by (auto simp: keeps_def ret_def)

lemma keeps_throw: "keeps I P (throw e) Q" "keeps I P (api_error c n) Q"
  by (auto simp: keeps_def throw_def api_error_def)

lemma keeps_check: "keeps I P (check b c n) (\<lambda>_ w. b \<and> P w)"
  by (auto simp: keeps_def ret_def check_def throw_def api_error_def split: if_splits)

lemma keeps_query: "keeps I P (query q) (\<lambda>x w. x = q (w_db w) \<and> P w)"
  by (auto simp: keeps_def query_def)

lemma keeps_False: "keeps I (\<lambda>w. False) m Q"
  by (simp add: keeps_def)

lemma keeps_option:
  "(x = None \<Longrightarrow> keeps I P m Q) \<Longrightarrow> (\<And>y. x = Some y \<Longrightarrow> keeps I P (f y) Q) \<Longrightarrow>
   keeps I P (case x of None \<Rightarrow> m | Some y \<Rightarrow> f y) Q"
  by (cases x) auto

lemma keeps_if: "(b \<Longrightarrow> keeps I P m Q) \<Longrightarrow> (\<not> b \<Longrightarrow> keeps I P m' Q) \<Longrightarrow> keeps I P (if b then m else m') Q"
  by auto

lemma keeps_prod: "(\<And>x y. p = (x, y) \<Longrightarrow> keeps I P (f x y) Q) \<Longrightarrow> keeps I P (case p of (x, y) \<Rightarrow> f x y) Q"
  by (cases p) auto

text \<open>A fact that no world enters is kept as a fact.\<close>

lemma keeps_fact: "(b \<Longrightarrow> keeps I P m Q) \<Longrightarrow> keeps I (\<lambda>w. b \<and> P w) m Q"
  by (auto simp: keeps_def)

lemma keeps_ret_post: "(\<And>w. P w \<Longrightarrow> Q x w) \<Longrightarrow> keeps I P (ret x) Q"
  by (auto simp: keeps_def ret_def)

lemma keeps_True: "keeps I P m Q \<Longrightarrow> keeps I P m (\<lambda>_ _. True)"
  by (erule keeps_post) simp

lemma keeps_map:
  "keeps I P m (\<lambda>_ _. True) \<Longrightarrow> keeps I P (act_bind m (\<lambda>(x, y). ret (k x y))) (\<lambda>_ _. True)"
  by (erule keeps_bind) (auto intro: keeps_ret_post)

lemma keeps_lift: "keeps I P (lift_res r) (\<lambda>_. P)"
  by (cases r) (auto simp: keeps_def lift_res_def ret_def throw_def)

lemma keeps_modify:
  assumes "\<And>w d. I w \<Longrightarrow> P w \<Longrightarrow> g (w_db w) = Inr d \<Longrightarrow> I (w\<lparr>w_db := d\<rparr>) \<and> Q () (w\<lparr>w_db := d\<rparr>)"
  shows "keeps I P (modify g) Q"
  using assms by (auto simp: keeps_def modify_def split: sum.splits)

lemma keeps_commit_post:
  assumes "\<And>w. I w \<Longrightarrow> P w \<Longrightarrow> I (w\<lparr>w_saved := w_db w\<rparr>) \<and> Q () (w\<lparr>w_saved := w_db w\<rparr>)"
  shows "keeps I P commit Q"
  using assms by (auto simp: keeps_def commit_def)

lemma keeps_discard: "keeps I P m (\<lambda>_ _. True) \<Longrightarrow> keeps I P (discard m) (\<lambda>_ _. True)"
  unfolding discard_def by (erule keeps_bind) (auto intro: keeps_ret_post)

lemma keeps_any_query: "keeps I P (query q) (\<lambda>_ _. True)"
  by (auto simp: keeps_def query_def)

lemma keeps_any_ret: "keeps I P (ret x) (\<lambda>_ _. True)"
  by (auto simp: keeps_def ret_def)

lemma keeps_any_check: "keeps I P (check b c n) (\<lambda>_ _. True)"
  by (auto simp: keeps_def check_def ret_def api_error_def throw_def)

lemma keeps_seq: "keeps I P m (\<lambda>_ _. True) \<Longrightarrow> (\<And>x. keeps I (\<lambda>_. True) (f x) R) \<Longrightarrow> keeps I P (act_bind m f) R"
  by (rule keeps_bind)

section \<open>Inversion\<close>

named_theorems result

lemma act_bind_result [result]:
  "act_bind m f w = (w', Inr y) \<longleftrightarrow> (\<exists>w1 x. m w = (w1, Inr x) \<and> f x w1 = (w', Inr y))"
  by (auto simp: act_bind_def split: prod.splits sum.splits)

lemma basic_result [result]:
  "ret x w = (w', Inr y) \<longleftrightarrow> w' = w \<and> y = x"
  "throw e w = (w', Inr y) \<longleftrightarrow> False"
  "api_error c k w = (w', Inr y) \<longleftrightarrow> False"
  "check b c k w = (w', Inr u) \<longleftrightarrow> b \<and> w' = w"
  "lift_res r w = (w', Inr y) \<longleftrightarrow> r = Inr y \<and> w' = w"
  by (auto simp: ret_def throw_def api_error_def check_def lift_res_def split: sum.splits)

lemma db_result [result]:
  "query q v = (v', Inr z) \<longleftrightarrow> v' = v \<and> z = q (w_db v)"
  "modify g v = (v', Inr u) \<longleftrightarrow> (\<exists>d. g (w_db v) = Inr d \<and> v' = v\<lparr>w_db := d\<rparr>)"
  "commit v = (v', Inr u) \<longleftrightarrow> v' = v\<lparr>w_saved := w_db v\<rparr>"
  by (auto simp: query_def modify_def commit_def split: sum.splits)

lemma run_request_result:
  "run_request m v = (v', Inr y) \<longleftrightarrow> (\<exists>v1. m (v\<lparr>w_db := w_saved v\<rparr>) = (v1, Inr y) \<and> v' = v1\<lparr>w_db := w_saved v1\<rparr>)"
  by (auto simp: run_request_def split: prod.splits)

section \<open>Checks\<close>

text \<open>A check that only reads: it returns the one value with the property, or there is none and it is refused.\<close>

definition decides :: "'w \<Rightarrow> ('w, 'a) step \<Rightarrow> ('a \<Rightarrow> bool) \<Rightarrow> bool" where
  "decides w m G \<longleftrightarrow> (\<exists>x. m w = (w, Inr x) \<and> G x) \<or> (\<forall>x. \<not> G x) \<and> (\<exists>c n. m w = (w, Inl (ApiError c n)))"

lemma decides_check: "decides w (check b c n) (\<lambda>_. b)"
  by (auto simp: decides_def check_def ret_def api_error_def throw_def)

lemma decides_bind:
  assumes "decides w m G" "\<And>x. G x \<Longrightarrow> decides w (f x) (H x)"
    and "\<And>x y. G x \<Longrightarrow> G y \<Longrightarrow> x = y"
  shows "decides w (act_bind m f) (\<lambda>z. \<exists>x. G x \<and> H x z)"
  using assms unfolding decides_def act_bind_def
  by (cases "\<exists>x. G x") (fastforce split: prod.splits sum.splits)+

lemma decides_cong: "decides w m G \<Longrightarrow> (\<And>x. G x \<longleftrightarrow> H x) \<Longrightarrow> decides w m H"
  by (simp add: decides_def)

lemma ret_bind: "act_bind (ret x) f = f x"
  by (rule ext) (simp add: act_bind_def ret_def)

lemma decides_ret: "decides w (ret x) (\<lambda>y. y = x)"
  by (simp add: decides_def ret_def)

lemma decides_query: "decides w (query q) (\<lambda>x. x = q (w_db w))"
  by (simp add: decides_def query_def)

end
