(* ===== verification/Rows.thy ===== *)
theory Rows
  imports Envelope One_Time Request
begin

text \<open>
  The rows of the tables that several services read (\<open>models/users.py\<close>, \<open>models/nodes.py\<close>, \<open>models/sessions.py\<close>,
  \<open>models/tools.py\<close>, \<open>models/audit.py\<close>), with the columns that the modelled services use, and their lookups.
\<close>

record user_row =
  u_id :: uuid
  u_role :: string
  u_status :: string

record device_row =
  ud_id :: uuid
  ud_user_id :: uuid
  ud_name :: pystr
  ud_platform :: string
  ud_status :: string

record key_row =
  k_id :: uuid
  k_device_id :: uuid
  k_status :: string
  k_created :: time

record session_row =
  s_id :: uuid
  s_user_id :: uuid
  s_node_id :: uuid
  s_status :: string
  s_tool_type :: string
  s_runtime_resource :: "pystr option"
  s_tmux :: "pystr option"
  s_device_protocol :: "int option"
  s_tool_account_id :: uuid
  s_backend :: pystr
  s_workspace_id :: uuid
  s_updated :: time

record workspace_row =
  ws_id :: uuid
  ws_display_name :: pystr

record token_row =
  tk_id :: uuid
  tk_user_id :: uuid
  tk_type :: string
  tk_device_id :: "uuid option"
  tk_status :: string
  tk_expires :: time

record account_row =
  ta_id :: uuid
  ta_user_id :: uuid
  ta_tool_type :: string
  ta_status :: string

record node_row =
  n_id :: uuid
  n_status :: string
  n_policy :: "(pystr \<times> json) list"
  n_capabilities :: "(pystr \<times> json) list"
  n_wireguard_ip :: "pystr option"
  n_ssh_user :: "pystr option"
  n_ssh_port :: "int option"

record audit_row =
  au_actor :: "uuid option"
  au_action :: string
  au_target :: uuid

section \<open>Constraints\<close>

text \<open>What a constraint of the database raises when a flush violates it.\<close>

abbreviation integrity_error :: py_error where "integrity_error \<equiv> RuntimeError ''IntegrityError''"

text \<open>A changed row object is written back under its key.\<close>

definition put_row :: "('r \<Rightarrow> uuid) \<Rightarrow> 'r \<Rightarrow> 'r list \<Rightarrow> 'r list" where
  "put_row key r rows = map (\<lambda>x. if key x = key r then r else x) rows"

definition find_row :: "('r \<Rightarrow> uuid) \<Rightarrow> uuid \<Rightarrow> 'r list \<Rightarrow> 'r option" where
  "find_row key i rows = List.find (\<lambda>x. key x = i) rows"

text \<open>A unique index over \<open>key\<close>, restricted to the rows of \<open>scope\<close>.\<close>

definition unique_index :: "('r \<Rightarrow> bool) \<Rightarrow> ('r \<Rightarrow> 'k) \<Rightarrow> 'r list \<Rightarrow> bool" where
  "unique_index scope key rows \<longleftrightarrow> distinct (map key (filter scope rows))"

lemma find_row_Some: "find_row key i rows = Some r \<Longrightarrow> r \<in> set rows \<and> key r = i"
  by (auto simp: find_row_def find_Some_iff)

lemma find_row_None: "find_row key i rows = None \<longleftrightarrow> i \<notin> key ` set rows"
  by (auto simp: find_row_def find_None_iff)

lemma put_row_keys [simp]: "map key (put_row key r rows) = map key rows"
  by (auto simp: put_row_def)

lemma set_put_row: "set (put_row key r rows) \<subseteq> insert r (set rows)"
  by (auto simp: put_row_def)

lemma put_row_in: "x \<in> set rows \<Longrightarrow> key x = key r \<Longrightarrow> r \<in> set (put_row key r rows)"
  by (force simp: put_row_def)

lemma put_row_other: "x \<in> set rows \<Longrightarrow> key x \<noteq> key r \<Longrightarrow> x \<in> set (put_row key r rows)"
  by (force simp: put_row_def)

lemma put_row_mem:
  "x \<in> set (put_row key r rows) \<longleftrightarrow> (x = r \<and> key r \<in> key ` set rows) \<or> (x \<in> set rows \<and> key x \<noteq> key r)"
  by (auto simp: put_row_def image_iff) (metis+)

lemma find_put_row:
  "find_row key i (put_row key r rows) = (if i = key r \<and> find_row key i rows \<noteq> None then Some r else find_row key i rows)"
  by (induction rows) (auto simp: find_row_def put_row_def)

text \<open>Several rows written back at once.\<close>

lemma fold_put_find:
  assumes "distinct (map key xs)" "\<And>x. key (f x) = key x"
  shows "fold (\<lambda>x. put_row key (f x)) xs ys = map (\<lambda>y. case List.find (\<lambda>x. key x = key y) xs of None \<Rightarrow> y | Some x \<Rightarrow> f x) ys"
  using assms(1)
proof (induction xs arbitrary: ys)
  case (Cons x xs)
  have "List.find (\<lambda>z. key z = key x) xs = None"
    unfolding find_None_iff using Cons.prems by (metis (mono_tags) distinct.simps(2) image_eqI list.set_map list.simps(9))
  then show ?case using Cons assms(2) by (simp add: put_row_def)
qed simp

lemma fold_put_filter:
  assumes "distinct (map key rows)" "\<And>x. key (f x) = key x"
  shows "fold (\<lambda>x. put_row key (f x)) (filter P rows) rows = map (\<lambda>y. if P y then f y else y) rows"
proof -
  have "List.find (\<lambda>x. key x = key y) (filter P rows) = (if P y then Some y else None)" if "y \<in> set rows" for y
  proof (cases "P y")
    case True
    then obtain x where x: "List.find (\<lambda>x. key x = key y) (filter P rows) = Some x"
      using \<open>y \<in> set rows\<close> by (cases "List.find (\<lambda>x. key x = key y) (filter P rows)") (auto simp: find_None_iff)
    then have "x \<in> set rows" "key x = key y" by (auto simp: find_Some_iff dest: nth_mem)
    then have "x = y" using assms(1) \<open>y \<in> set rows\<close> by (auto simp: distinct_map dest: inj_onD)
    then show ?thesis using x True by simp
  next
    case False
    have "x = y" if "x \<in> set rows" "key x = key y" for x
      using that \<open>y \<in> set rows\<close> assms(1) by (auto simp: distinct_map dest: inj_onD)
    then show ?thesis using False by (auto simp: find_None_iff)
  qed
  then show ?thesis by (subst fold_put_find) (use assms in \<open>auto simp: distinct_map_filter\<close>)
qed

lemma find_row_unique: "distinct (map key rows) \<Longrightarrow> r \<in> set rows \<Longrightarrow> find_row key (key r) rows = Some r"
  by (induction rows) (auto simp: find_row_def image_iff)

lemma find_row_append: "find_row key i (xs @ ys) = (case find_row key i xs of None \<Rightarrow> find_row key i ys | Some r \<Rightarrow> Some r)"
  by (induction xs) (auto simp: find_row_def)

lemma find_row_single: "find_row key i [r] = (if key r = i then Some r else None)"
  by (simp add: find_row_def)

lemma find_row_map: "(\<And>x. key (f x) = key x) \<Longrightarrow> find_row key i (map f rows) = map_option f (find_row key i rows)"
  by (induction rows) (auto simp: find_row_def)

lemma unique_index_filter:
  assumes "unique_index scope k rows"
  shows "unique_index (\<lambda>r. scope r \<and> P r) k rows" "unique_index scope k (filter P rows)"
  using assms by (induction rows) (auto simp: unique_index_def split: if_splits)

lemma unique_index_mono:
  assumes "unique_index scope k rows" "\<And>r. r \<in> set rows \<Longrightarrow> scope' r \<Longrightarrow> scope r"
  shows "unique_index scope' k rows"
proof -
  have "filter scope' rows = filter (\<lambda>r. scope r \<and> scope' r) rows" using assms(2) by (auto intro!: filter_cong)
  then show ?thesis using unique_index_filter(1) [OF assms(1), of scope'] by (simp add: unique_index_def)
qed

lemma unique_index_put:
  assumes "unique_index scope k rows" "distinct (map key rows)" "r \<in> set rows" "key r' = key r" "scope r' \<Longrightarrow> scope r"
    "scope r' \<Longrightarrow> k r' = k r"
  shows "unique_index scope k (put_row key r' rows)"
proof -
  have eq: "put_row key r' (xs :: 'a list) = xs" if "key r \<notin> key ` set xs" for xs
    unfolding put_row_def assms(4) by (rule map_idI) (metis that image_eqI)
  show ?thesis using assms(1-3)
  proof (induction rows)
    case (Cons x rows)
    show ?case
    proof (cases "x = r")
      case True
      then have "put_row key r' (x # rows) = r' # rows" using Cons.prems(2) eq assms(4) by (simp add: put_row_def)
      then show ?thesis using Cons.prems(1) True assms(5,6) by (auto simp: unique_index_def split: if_splits)
    next
      case False
      then have r: "r \<in> set rows" "key x \<noteq> key r'" using Cons.prems(2,3) assms(4) by auto
      have "k y \<in> k ` set (filter scope rows)" if "y \<in> set (filter scope (put_row key r' rows))" for y
        using that r(1) assms(5,6) by (auto simp: put_row_mem)
      then show ?thesis using Cons.IH [OF _ _ r(1)] Cons.prems(1,2) r(2) by (auto simp: unique_index_def put_row_def)
    qed
  qed simp
qed

lemma unique_index_append:
  "unique_index scope k (rows @ [r]) \<longleftrightarrow> unique_index scope k rows \<and> (scope r \<longrightarrow> k r \<notin> k ` set (filter scope rows))"
  by (auto simp: unique_index_def)

lemma unique_indexD:
  "unique_index scope k rows \<Longrightarrow> distinct (map key rows) \<Longrightarrow> x \<in> set rows \<Longrightarrow> y \<in> set rows \<Longrightarrow> scope x \<Longrightarrow> scope y \<Longrightarrow>
   k x = k y \<Longrightarrow> x = y"
  unfolding unique_index_def distinct_map inj_on_def by auto

lemma unique_index_map:
  assumes "unique_index P k rows" "\<And>r. r \<in> set rows \<Longrightarrow> Q (f r) \<Longrightarrow> P r \<and> k' (f r) = k r"
  shows "unique_index Q k' (map f rows)"
proof -
  have "distinct (map k (filter (Q \<circ> f) rows))"
    using unique_index_mono [OF assms(1), of "Q \<circ> f"] assms(2) by (auto simp: unique_index_def)
  moreover have "map k' (filter Q (map f rows)) = map k (filter (Q \<circ> f) rows)"
    using assms(2) by (auto simp: filter_map)
  ultimately show ?thesis by (simp add: unique_index_def)
qed

lemma put_row_image: "key ` set (put_row key r rows) = key ` set rows"
  using put_row_keys [of key r rows] by (metis list.set_map)

lemma fold_put_image: "key ` set (fold (\<lambda>x. put_row key (f x)) xs rows) = key ` set rows"
  by (induction xs arbitrary: rows) (simp_all add: put_row_image)

lemma put_row_twice: "key b = key a \<Longrightarrow> put_row key b (put_row key a rows) = put_row key b rows"
  by (simp add: put_row_def comp_def cong: if_cong)

lemma unique_index_iff:
  assumes "distinct (map key rows)"
  shows "unique_index scope k rows \<longleftrightarrow> (\<forall>x \<in> set rows. \<forall>y \<in> set rows. scope x \<longrightarrow> scope y \<longrightarrow> k x = k y \<longrightarrow> x = y)"
  using distinct_map [of key rows] assms by (auto simp: unique_index_def distinct_map inj_on_def)

lemma unique_index_put_new:
  assumes "unique_index scope k rows" "distinct (map key rows)" "\<And>y. y \<in> set rows \<Longrightarrow> scope y \<Longrightarrow> key y \<noteq> key r \<Longrightarrow> k y \<noteq> k r"
  shows "unique_index scope k (put_row key r rows)"
proof -
  have "x = y" if "x \<in> set (put_row key r rows)" "y \<in> set (put_row key r rows)" "scope x" "scope y" "k x = k y" for x y
    using that assms(1,3) unfolding unique_index_iff [OF assms(2)] put_row_mem by metis
  moreover have "distinct (map key (put_row key r rows))" using assms(2) by simp
  ultimately show ?thesis by (subst unique_index_iff) blast+
qed

lemma find_the: "x \<in> set xs \<Longrightarrow> P x \<Longrightarrow> (\<And>y. y \<in> set xs \<Longrightarrow> P y \<Longrightarrow> y = x) \<Longrightarrow> List.find P xs = Some x"
proof (induction xs)
  case (Cons a xs)
  show ?case
  proof (cases "P a")
    case True
    then have "a = x" by (intro Cons.prems(3)) simp_all
    then show ?thesis using True by simp
  next
    case False
    then have "x \<in> set xs" using Cons.prems(1,2) by auto
    then have "List.find P xs = Some x" by (rule Cons.IH [OF _ Cons.prems(2)]) (simp add: Cons.prems(3))
    then show ?thesis using False by simp
  qed
qed simp

end
