(* ===== verification/Forward_Model.thy ===== *)
theory Forward_Model
  imports Rows Stores "HOL-Library.Option_ord"
begin

text \<open>
  The data of the port forwarding service: the rows it reads and writes (\<open>models/sessions.py\<close>), the
  queries of \<open>repositories/port_forwards.py\<close>, and requests as steps over a database with an explicit
  transaction. A request works on \<open>w_db\<close>; a commit makes that the saved state; when the request is over,
  returned or raised, what was not committed is gone. The token store is not part of the transaction.
\<close>

section \<open>Rows\<close>

datatype forward_status = F_pending | F_active | F_disconnected | F_stopped | F_expired | F_revoked | F_failed

record forward =
  f_id :: uuid
  f_user_id :: uuid
  f_device_id :: uuid
  f_ssh_key_id :: "uuid option"
  f_session_id :: uuid
  f_node_id :: uuid
  f_remote_port :: int
  f_local_port :: int
  f_client :: pystr
  f_caller_request :: "uuid option"
  f_caller_digest :: "pystr option"
  f_status :: forward_status
  f_policy :: "(pystr \<times> json) list"
  f_bytes_up :: int
  f_bytes_down :: int
  f_connections :: int
  f_generation :: int
  f_gen_up :: int
  f_gen_down :: int
  f_gen_connections :: int
  f_last_connected :: "time option"
  f_lease :: "time option"
  f_expires :: time
  f_stopped :: "time option"
  f_reason :: "string option"
  f_created :: time

record db =
  t_users :: "user_row list"
  t_devices :: "device_row list"
  t_keys :: "key_row list"
  t_sessions :: "session_row list"
  t_accounts :: "account_row list"
  t_nodes :: "node_row list"
  t_forwards :: "forward list"
  t_audits :: "audit_row list"

definition terminal_statuses :: "forward_status list" where
  "terminal_statuses = [F_stopped, F_expired, F_revoked, F_failed]"

definition non_terminal_statuses :: "forward_status list" where
  "non_terminal_statuses = [F_pending, F_active, F_disconnected]"

section \<open>Queries\<close>

definition get_forward :: "db \<Rightarrow> uuid \<Rightarrow> forward option" where
  "get_forward d i = List.find (\<lambda>f. f_id f = i) (t_forwards d)"

definition get_by_caller :: "db \<Rightarrow> uuid \<Rightarrow> uuid \<Rightarrow> forward option" where
  "get_by_caller d user_id request =
     List.find (\<lambda>f. f_user_id f = user_id \<and> f_caller_request f = Some request) (t_forwards d)"

definition list_all_forwards :: "db \<Rightarrow> forward list" where
  "list_all_forwards d = sort_key (\<lambda>f. - f_created f) (t_forwards d)"

definition list_for_user :: "db \<Rightarrow> uuid \<Rightarrow> forward list" where
  "list_for_user d user_id = sort_key (\<lambda>f. - f_created f) (filter (\<lambda>f. f_user_id f = user_id) (t_forwards d))"

definition list_non_terminal_ids :: "db \<Rightarrow> nat \<Rightarrow> uuid option \<Rightarrow> uuid list" where
  "list_non_terminal_ids d limit after_id =
     take limit (sort (map f_id (filter (\<lambda>f. f_status f \<in> set non_terminal_statuses \<and>
       (case after_id of None \<Rightarrow> True | Some a \<Rightarrow> a < f_id f)) (t_forwards d))))"

definition count_active :: "db \<Rightarrow> (forward \<Rightarrow> bool) \<Rightarrow> int" where
  "count_active d within_scope =
     int (length (filter (\<lambda>f. f_status f \<in> set non_terminal_statuses \<and> within_scope f) (t_forwards d)))"

definition get_session :: "db \<Rightarrow> uuid \<Rightarrow> session_row option" where
  "get_session d i = List.find (\<lambda>s. s_id s = i) (t_sessions d)"

definition get_node :: "db \<Rightarrow> uuid \<Rightarrow> node_row option" where
  "get_node d i = List.find (\<lambda>n. n_id n = i) (t_nodes d)"

definition get_active_user :: "db \<Rightarrow> uuid \<Rightarrow> user_row option" where
  "get_active_user d i = List.find (\<lambda>u. u_id u = i \<and> u_status u = ''active'') (t_users d)"

definition get_active_tool_account :: "db \<Rightarrow> uuid \<Rightarrow> account_row option" where
  "get_active_tool_account d i = List.find (\<lambda>a. ta_id a = i \<and> ta_status a = ''active'') (t_accounts d)"

definition get_active_device :: "db \<Rightarrow> uuid \<Rightarrow> uuid \<Rightarrow> device_row option" where
  "get_active_device d user_id device_id =
     List.find (\<lambda>x. ud_id x = device_id \<and> ud_user_id x = user_id \<and> ud_status x = ''active'') (t_devices d)"

definition get_active_ssh_key :: "db \<Rightarrow> uuid \<Rightarrow> uuid \<Rightarrow> key_row option" where
  "get_active_ssh_key d device_id key_id =
     List.find (\<lambda>k. k_id k = key_id \<and> k_device_id k = device_id \<and> k_status k = ''active'') (t_keys d)"

definition first_active_ssh_key :: "db \<Rightarrow> uuid \<Rightarrow> key_row option" where
  "first_active_ssh_key d device_id =
     (case sort_key k_created (filter (\<lambda>k. k_device_id k = device_id \<and> k_status k = ''active'') (t_keys d)) of
        [] \<Rightarrow> None | k # _ \<Rightarrow> Some k)"

text \<open>
  A changed row object is written back. A new row is refused by the port constraints of the table, by its
  primary key and by the unique index over the owner and the caller's request.
\<close>

definition put_forward_db :: "forward \<Rightarrow> db \<Rightarrow> db" where
  "put_forward_db f d = d\<lparr>t_forwards := map (\<lambda>g. if f_id g = f_id f then f else g) (t_forwards d)\<rparr>"

definition row_admissible :: "forward \<Rightarrow> db \<Rightarrow> bool" where
  "row_admissible f d \<longleftrightarrow> 1 \<le> f_remote_port f \<and> f_remote_port f \<le> 65535 \<and> 1 \<le> f_local_port f \<and> f_local_port f \<le> 65535 \<and>
     get_forward d (f_id f) = None \<and>
     (case f_caller_request f of None \<Rightarrow> True | Some request \<Rightarrow> get_by_caller d (f_user_id f) request = None)"

definition add_forward_db :: "forward \<Rightarrow> db \<Rightarrow> db res" where
  "add_forward_db f d =
     (if row_admissible f d then Inr (d\<lparr>t_forwards := t_forwards d @ [f]\<rparr>) else Inl (RuntimeError ''IntegrityError''))"

section \<open>Requests\<close>

record world = "db tx" +
  w_tokens :: pf_store

type_synonym 'a act = "(world, 'a) step"

definition put_forward :: "forward \<Rightarrow> unit act" where
  "put_forward f w = (w\<lparr>w_db := put_forward_db f (w_db w)\<rparr>, Inr ())"

definition add_forward :: "forward \<Rightarrow> unit act" where
  "add_forward f w = (case add_forward_db f (w_db w) of Inl e \<Rightarrow> (w, Inl e) | Inr d \<Rightarrow> (w\<lparr>w_db := d\<rparr>, Inr ()))"

definition audit :: "uuid option \<Rightarrow> string \<Rightarrow> forward \<Rightarrow> unit act" where
  "audit actor action f w =
     (w\<lparr>w_db := (w_db w)\<lparr>t_audits := t_audits (w_db w) @ [\<lparr>au_actor = actor, au_action = action, au_target = f_id f\<rparr>]\<rparr>\<rparr>, Inr ())"

end
