(* ===== verification/Forwards.thy ===== *)
theory Forwards
  imports Forward_Model
begin

text \<open>
  The port forwarding service (\<open>services/port_forwards.py\<close>): creation with replay and quotas,
  connection tokens, redemption by the node, renewal and release with traffic counters, stopping,
  expiry, revocation and the background reconciliation. The clock of one request is one instant; the
  random token, the keyed token hash and SHA-256 are parameters.
\<close>

section \<open>Policy\<close>

record settings =
  set_enabled :: bool
  set_min_port :: int
  set_max_port :: int
  set_max_per_user :: int
  set_max_per_device :: int
  set_max_per_session :: int
  set_max_streams :: int
  set_default_ttl :: int
  set_max_ttl :: int
  set_lease :: int
  set_grace :: int
  set_bytes_per_second :: int
  set_token_ttl :: int
  set_create_rate :: int
  set_redeem_rate :: int
  set_hash :: "pystr \<Rightarrow> pystr"
  set_sha :: "bytes \<Rightarrow> pystr"
  set_uuid_text :: "uuid \<Rightarrow> pystr"

record policy =
  p_enabled :: bool
  p_min_port :: int
  p_max_port :: int
  p_denied_ports :: "int list"
  p_max_per_user :: int
  p_max_per_device :: int
  p_max_per_session :: int
  p_max_streams :: int
  p_default_ttl :: int
  p_max_ttl :: int
  p_lease :: int
  p_grace :: int
  p_bytes_per_second :: int

definition policy_snapshot :: "policy \<Rightarrow> (pystr \<times> json) list" where
  "policy_snapshot p =
     [(lit ''min_port'', JInt (p_min_port p)), (lit ''max_port'', JInt (p_max_port p)),
      (lit ''denied_ports'', JArray (map JInt (sort (remdups (p_denied_ports p))))),
      (lit ''max_streams'', JInt (p_max_streams p)), (lit ''max_ttl_seconds'', JInt (p_max_ttl p)),
      (lit ''lease_seconds'', JInt (p_lease p)),
      (lit ''control_plane_grace_seconds'', JInt (p_grace p)),
      (lit ''bytes_per_second'', JInt (p_bytes_per_second p))]"

definition int_policy :: "(pystr \<times> json) list \<Rightarrow> string \<Rightarrow> int \<Rightarrow> int \<Rightarrow> int option \<Rightarrow> int" where
  "int_policy values key default1 minimum maximum =
     (case map_of values (lit key) of
        Some (JInt i) \<Rightarrow> if minimum \<le> i \<and> (case maximum of None \<Rightarrow> True | Some m \<Rightarrow> i \<le> m) then i else default1
      | _ \<Rightarrow> default1)"

definition bool_policy :: "(pystr \<times> json) list \<Rightarrow> string \<Rightarrow> bool \<Rightarrow> bool" where
  "bool_policy values key default1 = (case map_of values (lit key) of Some (JBool b) \<Rightarrow> b | _ \<Rightarrow> default1)"

definition capability_of :: "node_row \<Rightarrow> (pystr \<times> json) list option" where
  "capability_of n = (case map_of (n_capabilities n) (lit ''session_port_forwarding'') of Some (JObject c) \<Rightarrow> Some c | _ \<Rightarrow> None)"

definition capability_streams :: "node_row \<Rightarrow> int option" where
  "capability_streams n =
     (case capability_of n of
        None \<Rightarrow> None
      | Some c \<Rightarrow> (case map_of c (lit ''max_streams'') of
          Some (JInt i) \<Rightarrow> if 1 \<le> i \<and> i \<le> 1024 then Some i else None | _ \<Rightarrow> None))"

definition denied_ports :: "(pystr \<times> json) list \<Rightarrow> int list" where
  "denied_ports overrides =
     (case map_of overrides (lit ''denied_ports'') of
        Some (JArray xs) \<Rightarrow> List.map_filter (\<lambda>x. case x of JInt i \<Rightarrow> if 1 \<le> i \<and> i \<le> 65535 then Some i else None | _ \<Rightarrow> None) xs
      | _ \<Rightarrow> [])"

definition node_policy :: "settings \<Rightarrow> node_row \<Rightarrow> policy" where
  "node_policy cfg n =
     (let overrides = (case map_of (n_policy n) (lit ''port_forwarding'') of Some (JObject v) \<Rightarrow> v | _ \<Rightarrow> []);
          streams = (case capability_streams n of Some i \<Rightarrow> i | None \<Rightarrow> set_max_streams cfg);
          max_ttl = int_policy overrides ''max_ttl_seconds'' (set_max_ttl cfg) 60 None in
      \<lparr>p_enabled = bool_policy overrides ''enabled'' (set_enabled cfg),
       p_min_port = int_policy overrides ''min_port'' (set_min_port cfg) 1 (Some 65535),
       p_max_port = int_policy overrides ''max_port'' (set_max_port cfg) 1 (Some 65535),
       p_denied_ports = denied_ports overrides,
       p_max_per_user = int_policy overrides ''max_per_user'' (set_max_per_user cfg) 1 None,
       p_max_per_device = int_policy overrides ''max_per_device'' (set_max_per_device cfg) 1 None,
       p_max_per_session = int_policy overrides ''max_per_session'' (set_max_per_session cfg) 1 None,
       p_max_streams = int_policy overrides ''max_streams'' (min (set_max_streams cfg) streams) 1 (Some streams),
       p_default_ttl = min (int_policy overrides ''default_ttl_seconds'' (set_default_ttl cfg) 60 None) max_ttl,
       p_max_ttl = max_ttl,
       p_lease = int_policy overrides ''lease_seconds'' (set_lease cfg) 1 None,
       p_grace = int_policy overrides ''control_plane_grace_seconds'' (set_grace cfg) 0 None,
       p_bytes_per_second = int_policy overrides ''bytes_per_second'' (set_bytes_per_second cfg) 0 None\<rparr>)"

definition require_capability :: "node_row \<Rightarrow> session_row \<Rightarrow> unit act" where
  "require_capability n s =
     (case capability_of n of
        None \<Rightarrow> api_error ''PORT_FORWARD_UNSUPPORTED'' 409
      | Some c \<Rightarrow>
          act_bind (check (map_of c (lit ''supported'') = Some (JBool True)) ''PORT_FORWARD_UNSUPPORTED'' 409) (\<lambda>_.
          act_bind (check (case map_of c (lit ''backends'') of Some (JArray xs) \<Rightarrow> JString (s_backend s) \<in> set xs | _ \<Rightarrow> False)
            ''PORT_FORWARD_UNSUPPORTED'' 409) (\<lambda>_.
          check ((case map_of c (lit ''protocol_versions'') of
                Some (JArray xs) \<Rightarrow> JInt 1 \<in> set xs \<or> JBool True \<in> set xs \<or> JFloat (lit ''1.0'') \<in> set xs | _ \<Rightarrow> False) \<and>
              capability_streams n \<noteq> None) ''PROTOCOL_UNSUPPORTED'' 409)))"

definition validate_remote_port :: "policy \<Rightarrow> int \<Rightarrow> unit act" where
  "validate_remote_port p remote_port =
     act_bind (check (p_enabled p) ''PORT_FORWARD_DISABLED'' 403) (\<lambda>_.
     check (\<not> (p_max_port p < p_min_port p \<or> \<not> (p_min_port p \<le> remote_port \<and> remote_port \<le> p_max_port p) \<or>
       remote_port \<in> set (p_denied_ports p))) ''PORT_NOT_ALLOWED'' 403)"

definition validate_quotas :: "policy \<Rightarrow> uuid \<Rightarrow> uuid \<Rightarrow> uuid \<Rightarrow> unit act" where
  "validate_quotas p user_id device_id session_id =
     act_bind (query (\<lambda>d. count_active d (\<lambda>f. f_user_id f = user_id))) (\<lambda>by_user.
     act_bind (query (\<lambda>d. count_active d (\<lambda>f. f_device_id f = device_id))) (\<lambda>by_device.
     act_bind (query (\<lambda>d. count_active d (\<lambda>f. f_session_id f = session_id))) (\<lambda>by_session.
     act_bind (check (by_user < p_max_per_user p) ''POLICY_LIMIT'' 409) (\<lambda>_.
     act_bind (check (by_device < p_max_per_device p) ''POLICY_LIMIT'' 409) (\<lambda>_.
     check (by_session < p_max_per_session p) ''POLICY_LIMIT'' 409)))))"

section \<open>Lifecycle helpers\<close>

definition expire_if_needed :: "time \<Rightarrow> forward \<Rightarrow> forward option" where
  "expire_if_needed now f =
     (if f_status f \<in> set non_terminal_statuses \<and> f_expires f \<le> now
      then Some (f\<lparr>f_status := F_expired, f_stopped := Some now, f_reason := Some ''ttl_expired'', f_lease := None\<rparr>)
      else None)"

definition ensure_non_terminal :: "time \<Rightarrow> forward \<Rightarrow> unit act" where
  "ensure_non_terminal now f =
     (case expire_if_needed now f of
        Some f' \<Rightarrow>
          act_bind (put_forward f') (\<lambda>_. act_bind (audit None ''port_forward.expired'' f') (\<lambda>_.
          act_bind commit (\<lambda>_. api_error ''AUTH_EXPIRED'' 410)))
      | None \<Rightarrow> check (f_status f \<in> set non_terminal_statuses) ''TUNNEL_EXPIRED'' 409)"

definition revoke :: "time \<Rightarrow> forward \<Rightarrow> string \<Rightarrow> unit act" where
  "revoke now f reason =
     (let f' = f\<lparr>f_status := F_revoked, f_stopped := Some now, f_reason := Some reason, f_lease := None\<rparr> in
      act_bind (put_forward f') (\<lambda>_. act_bind (audit None ''port_forward.revoked'' f') (\<lambda>_. commit)))"

definition revoke_error :: "time \<Rightarrow> forward \<Rightarrow> string \<Rightarrow> string \<Rightarrow> nat \<Rightarrow> 'a act" where
  "revoke_error now f reason code status = act_bind (revoke now f reason) (\<lambda>_. api_error code status)"

definition active_node_statuses :: "string list" where "active_node_statuses = [''healthy'', ''degraded'', ''active'']"
definition running_session_statuses :: "string list" where "running_session_statuses = [''running'', ''active'']"

definition require_node :: "uuid \<Rightarrow> node_row act" where
  "require_node i =
     act_bind (query (\<lambda>d. get_node d i)) (\<lambda>r. case r of
       None \<Rightarrow> api_error ''COMMON_NOT_FOUND'' 404
     | Some n \<Rightarrow> act_bind (check (n_status n \<in> set active_node_statuses) ''NODE_UNHEALTHY'' 409) (\<lambda>_. ret n))"

definition session_running :: "session_row \<Rightarrow> bool" where
  "session_running s \<longleftrightarrow> s_status s \<in> set running_session_statuses \<and>
     (case s_runtime_resource s of None \<Rightarrow> False | Some r \<Rightarrow> r \<noteq> [])"

definition require_running_session :: "uuid \<Rightarrow> uuid \<Rightarrow> session_row act" where
  "require_running_session user_id session_id =
     act_bind (query (\<lambda>d. get_session d session_id)) (\<lambda>r. case r of
       None \<Rightarrow> api_error ''COMMON_NOT_FOUND'' 404
     | Some s \<Rightarrow>
         act_bind (check (s_user_id s = user_id) ''COMMON_NOT_FOUND'' 404) (\<lambda>_.
         act_bind (check (session_running s) ''SESSION_NOT_RUNNING'' 409) (\<lambda>_. ret s)))"

text \<open>Everything the forward depends on must still be there; what is gone for good revokes it.\<close>

definition require_runtime_authorization :: "settings \<Rightarrow> time \<Rightarrow> forward \<Rightarrow> (session_row \<times> policy) act" where
  "require_runtime_authorization cfg now f =
     act_bind (ensure_non_terminal now f) (\<lambda>_.
     act_bind (query (\<lambda>d. get_active_user d (f_user_id f))) (\<lambda>user.
     if user = None then revoke_error now f ''user_revoked'' ''USER_REVOKED'' 403
     else act_bind (query (\<lambda>d. get_active_device d (f_user_id f) (f_device_id f))) (\<lambda>device.
     act_bind (query (\<lambda>d. case f_ssh_key_id f of
         Some k \<Rightarrow> get_active_ssh_key d (f_device_id f) k | None \<Rightarrow> first_active_ssh_key d (f_device_id f))) (\<lambda>ssh_key.
     if device = None \<or> ssh_key = None then revoke_error now f ''device_revoked'' ''DEVICE_REVOKED'' 403
     else act_bind (query (\<lambda>d. get_session d (f_session_id f))) (\<lambda>r.
     case r of
       None \<Rightarrow> revoke_error now f ''session_not_running'' ''SESSION_NOT_RUNNING'' 409
     | Some s \<Rightarrow>
         if \<not> session_running s then revoke_error now f ''session_not_running'' ''SESSION_NOT_RUNNING'' 409
         else act_bind (query (\<lambda>d. get_active_tool_account d (s_tool_account_id s))) (\<lambda>account.
         if account = None then revoke_error now f ''tool_account_revoked'' ''TOOL_ACCOUNT_REVOKED'' 403
         else act_bind (require_node (f_node_id f)) (\<lambda>n.
         act_bind (require_capability n s) (\<lambda>_.
         act_bind (validate_remote_port (node_policy cfg n) (f_remote_port f)) (\<lambda>_.
         ret (s, node_policy cfg n))))))))))"

definition require_rate_limit :: "time \<Rightarrow> pystr \<Rightarrow> int \<Rightarrow> unit act" where
  "require_rate_limit now scope limit w =
     (case pf_allow now (w_tokens w) scope limit 60 of
        (tokens, allowed) \<Rightarrow> check allowed ''RATE_LIMITED'' 429 (w\<lparr>w_tokens := tokens\<rparr>))"

record connection =
  cn_token :: pystr
  cn_expires :: time

definition issue_token :: "settings \<Rightarrow> time \<Rightarrow> pystr \<Rightarrow> forward \<Rightarrow> connection act" where
  "issue_token cfg now raw f w =
     (case pf_issue now (w_tokens w) (set_hash cfg raw)
         \<lparr>pf_forward_id = f_id f, pf_device_id = f_device_id f, pf_ssh_key_id = f_ssh_key_id f\<rparr> (set_token_ttl cfg) of
        Inl _ \<Rightarrow> api_error ''CONTROL_PLANE_UNAVAILABLE'' 503 w
      | Inr tokens \<Rightarrow> ret \<lparr>cn_token = raw, cn_expires = now + seconds (set_token_ttl cfg)\<rparr> (w\<lparr>w_tokens := tokens\<rparr>))"

definition consume_token :: "settings \<Rightarrow> time \<Rightarrow> pystr \<Rightarrow> pf_claims option act" where
  "consume_token cfg now raw w =
     (case pf_consume now (w_tokens w) (set_hash cfg raw) of (tokens, claims) \<Rightarrow> ret claims (w\<lparr>w_tokens := tokens\<rparr>))"

section \<open>Creation\<close>

record auth_token =
  at_user_id :: uuid
  at_device_id :: "uuid option"

definition require_device_token :: "auth_token \<Rightarrow> uuid act" where
  "require_device_token t = (case at_device_id t of None \<Rightarrow> api_error ''DEVICE_REQUIRED'' 403 | Some d \<Rightarrow> ret d)"

text \<open>The keys of the intent in sorted order.\<close>

definition intent_digest :: "settings \<Rightarrow> uuid \<Rightarrow> int \<Rightarrow> int \<Rightarrow> pystr \<Rightarrow> int option \<Rightarrow> pystr res" where
  "intent_digest cfg session_id remote_port local_port client ttl =
     bind_res (encode (json_dumps (JObject
       [(lit ''client_instance_id'', JString client), (lit ''local_port'', JInt local_port),
        (lit ''remote_port'', JInt remote_port), (lit ''schema_version'', JInt 1),
        (lit ''session_id'', JString (set_uuid_text cfg session_id)),
        (lit ''ttl_seconds'', (case ttl of None \<Rightarrow> JNull | Some t \<Rightarrow> JInt t))])))
     (\<lambda>encoded. Inr (lit ''sha256:'' @ set_sha cfg encoded))"

record create_request =
  cr_user :: user_row
  cr_token :: auth_token
  cr_session_id :: uuid
  cr_remote_port :: int
  cr_local_port :: int
  cr_client :: pystr
  cr_caller_request :: "uuid option"
  cr_ttl :: "int option"

text \<open>A repeated request is answered with the forward it created.\<close>

definition replay_create ::
  "settings \<Rightarrow> time \<Rightarrow> pystr \<Rightarrow> create_request \<Rightarrow> uuid \<Rightarrow> pystr \<Rightarrow> forward \<Rightarrow> (forward \<times> node_row \<times> connection) act"
where
  "replay_create cfg now raw q device_id digest prior =
     act_bind (check (f_caller_digest prior = Some digest) ''PORT_FORWARD_REQUEST_CONFLICT'' 409) (\<lambda>_.
     act_bind (check (f_device_id prior = device_id) ''PORT_FORWARD_REQUEST_DEVICE_MISMATCH'' 403) (\<lambda>_.
     act_bind (check (f_status prior \<notin> set terminal_statuses) ''PORT_FORWARD_REQUEST_SETTLED'' 409) (\<lambda>_.
     act_bind (ensure_non_terminal now prior) (\<lambda>_.
     act_bind (require_node (f_node_id prior)) (\<lambda>n.
     act_bind (require_runtime_authorization cfg now prior) (\<lambda>_.
     act_bind (issue_token cfg now raw prior) (\<lambda>connection.
     act_bind (audit (Some (u_id (cr_user q))) ''port_forward.replayed'' prior) (\<lambda>_.
     act_bind commit (\<lambda>_. ret (prior, n, connection))))))))))"

definition new_forward ::
  "time \<Rightarrow> uuid \<Rightarrow> create_request \<Rightarrow> pystr \<Rightarrow> device_row \<Rightarrow> session_row \<Rightarrow> node_row \<Rightarrow> policy \<Rightarrow> int \<Rightarrow> forward"
where
  "new_forward now i q digest device s n p ttl =
     \<lparr>f_id = i, f_user_id = u_id (cr_user q), f_device_id = ud_id device, f_ssh_key_id = None,
      f_session_id = s_id s, f_node_id = n_id n, f_remote_port = cr_remote_port q, f_local_port = cr_local_port q,
      f_client = cr_client q, f_caller_request = cr_caller_request q,
      f_caller_digest = (if cr_caller_request q \<noteq> None then Some digest else None),
      f_status = F_pending, f_policy = policy_snapshot p, f_bytes_up = 0, f_bytes_down = 0, f_connections = 0,
      f_generation = 0, f_gen_up = 0, f_gen_down = 0, f_gen_connections = 0, f_last_connected = None, f_lease = None,
      f_expires = now + seconds ttl, f_stopped = None, f_reason = None, f_created = now\<rparr>"

definition rate_scope :: "settings \<Rightarrow> string \<Rightarrow> uuid list \<Rightarrow> pystr" where
  "rate_scope cfg action ids = join_with 58 (lit action # map (set_uuid_text cfg) ids)"

definition create_new ::
  "settings \<Rightarrow> time \<Rightarrow> uuid \<Rightarrow> pystr \<Rightarrow> create_request \<Rightarrow> uuid \<Rightarrow> pystr \<Rightarrow> (forward \<times> node_row \<times> connection) act"
where
  "create_new cfg now i raw q device_id digest =
     (let user_id = u_id (cr_user q) in
      act_bind (require_rate_limit now (rate_scope cfg ''create'' [user_id, device_id]) (set_create_rate cfg)) (\<lambda>_.
      act_bind (query (\<lambda>d. get_active_device d user_id device_id)) (\<lambda>r. case r of
        None \<Rightarrow> api_error ''DEVICE_REVOKED'' 403
      | Some device \<Rightarrow>
      act_bind (query (\<lambda>d. first_active_ssh_key d (ud_id device))) (\<lambda>ssh_key.
      act_bind (check (ssh_key \<noteq> None) ''SSH_KEY_MISSING'' 409) (\<lambda>_.
      act_bind (require_running_session user_id (cr_session_id q)) (\<lambda>s.
      act_bind (require_node (s_node_id s)) (\<lambda>n.
      let p = node_policy cfg n in
      act_bind (require_capability n s) (\<lambda>_.
      act_bind (validate_remote_port p (cr_remote_port q)) (\<lambda>_.
      act_bind (validate_quotas p user_id (ud_id device) (s_id s)) (\<lambda>_.
      let ttl = (case cr_ttl q of None \<Rightarrow> p_default_ttl p | Some t \<Rightarrow> if t = 0 then p_default_ttl p else t);
          f = new_forward now i q digest device s n p ttl in
      act_bind (check (ttl \<le> p_max_ttl p) ''POLICY_LIMIT'' 409) (\<lambda>_.
      act_bind (add_forward f) (\<lambda>_.
      act_bind (issue_token cfg now raw f) (\<lambda>connection.
      act_bind (audit (Some user_id) ''port_forward.created'' f) (\<lambda>_.
      act_bind commit (\<lambda>_. ret (f, n, connection))))))))))))))))"

definition fw_create ::
  "settings \<Rightarrow> time \<Rightarrow> uuid \<Rightarrow> pystr \<Rightarrow> create_request \<Rightarrow> (forward \<times> node_row \<times> connection) act"
where
  "fw_create cfg now i raw q =
     act_bind (require_device_token (cr_token q)) (\<lambda>device_id.
     act_bind (lift_res (intent_digest cfg (cr_session_id q) (cr_remote_port q) (cr_local_port q) (cr_client q) (cr_ttl q))) (\<lambda>digest.
     act_bind (query (\<lambda>d. case cr_caller_request q of None \<Rightarrow> None | Some request \<Rightarrow> get_by_caller d (u_id (cr_user q)) request)) (\<lambda>prior.
     case prior of
       Some f \<Rightarrow> replay_create cfg now raw q device_id digest f
     | None \<Rightarrow> create_new cfg now i raw q device_id digest)))"

section \<open>Reading, reconnecting, stopping\<close>

text \<open>\<open>list\<close>: every forward that is due expires, in one commit.\<close>

fun expire_all :: "time \<Rightarrow> forward list \<Rightarrow> (forward list \<times> bool) act" where
  "expire_all now [] = ret ([], False)"
| "expire_all now (f # fs) =
     (case expire_if_needed now f of
        None \<Rightarrow> act_bind (expire_all now fs) (\<lambda>(out, changed). ret (f # out, changed))
      | Some f' \<Rightarrow> act_bind (put_forward f') (\<lambda>_. act_bind (expire_all now fs) (\<lambda>(out, _). ret (f' # out, True))))"

definition fw_list :: "time \<Rightarrow> user_row \<Rightarrow> bool \<Rightarrow> forward list act" where
  "fw_list now user all_users =
     act_bind (check (\<not> (all_users \<and> u_role user \<noteq> ''admin'')) ''COMMON_FORBIDDEN'' 403) (\<lambda>_.
     act_bind (query (\<lambda>d. if all_users then list_all_forwards d else list_for_user d (u_id user))) (\<lambda>fs.
     act_bind (expire_all now fs) (\<lambda>(out, changed).
     act_bind (if changed then commit else ret ()) (\<lambda>_. ret out))))"

definition require_owned :: "user_row \<Rightarrow> uuid \<Rightarrow> forward act" where
  "require_owned user i =
     act_bind (query (\<lambda>d. get_forward d i)) (\<lambda>r. case r of
       None \<Rightarrow> api_error ''COMMON_NOT_FOUND'' 404
     | Some f \<Rightarrow> act_bind (check (f_user_id f = u_id user) ''COMMON_NOT_FOUND'' 404) (\<lambda>_. ret f))"

definition require_visible :: "user_row \<Rightarrow> uuid \<Rightarrow> forward act" where
  "require_visible user i =
     act_bind (query (\<lambda>d. get_forward d i)) (\<lambda>r. case r of
       None \<Rightarrow> api_error ''COMMON_NOT_FOUND'' 404
     | Some f \<Rightarrow> act_bind (check (f_user_id f = u_id user \<or> u_role user = ''admin'') ''COMMON_NOT_FOUND'' 404) (\<lambda>_. ret f))"

definition fw_get :: "time \<Rightarrow> user_row \<Rightarrow> uuid \<Rightarrow> forward act" where
  "fw_get now user i =
     act_bind (require_visible user i) (\<lambda>f.
     case expire_if_needed now f of
       None \<Rightarrow> ret f
     | Some f' \<Rightarrow> act_bind (put_forward f') (\<lambda>_. act_bind commit (\<lambda>_. ret f')))"

record routed_connection = connection +
  cn_wireguard_ip :: "pystr option"
  cn_ssh_user :: pystr
  cn_ssh_port :: int

definition fw_issue_connection ::
  "settings \<Rightarrow> time \<Rightarrow> pystr \<Rightarrow> user_row \<Rightarrow> auth_token \<Rightarrow> uuid \<Rightarrow> routed_connection act"
where
  "fw_issue_connection cfg now raw user t i =
     act_bind (require_device_token t) (\<lambda>device_id.
     act_bind (require_owned user i) (\<lambda>f.
     act_bind (ensure_non_terminal now f) (\<lambda>_.
     act_bind (check (f_device_id f = device_id) ''COMMON_FORBIDDEN'' 403) (\<lambda>_.
     act_bind (require_runtime_authorization cfg now f) (\<lambda>_.
     act_bind (require_node (f_node_id f)) (\<lambda>n.
     act_bind (issue_token cfg now raw f) (\<lambda>connection.
     act_bind (audit (Some (u_id user)) ''port_forward.reconnected'' f) (\<lambda>_.
     act_bind commit (\<lambda>_.
     ret \<lparr>cn_token = cn_token connection, cn_expires = cn_expires connection, cn_wireguard_ip = n_wireguard_ip n,
       cn_ssh_user = (case n_ssh_user n of Some u \<Rightarrow> if u = [] then lit ''agent-remote'' else u | None \<Rightarrow> lit ''agent-remote''),
       cn_ssh_port = (case n_ssh_port n of Some p \<Rightarrow> if p = 0 then 22 else p | None \<Rightarrow> 22)\<rparr>)))))))))"

definition fw_stop :: "time \<Rightarrow> user_row \<Rightarrow> uuid \<Rightarrow> forward act" where
  "fw_stop now user i =
     act_bind (require_visible user i) (\<lambda>f.
     if f_status f \<in> set terminal_statuses then ret f
     else
       (let f' = f\<lparr>f_status := F_stopped, f_stopped := Some now,
              f_reason := Some (if f_user_id f = u_id user then ''user_stopped'' else ''admin_stopped''), f_lease := None\<rparr> in
        act_bind (put_forward f') (\<lambda>_.
        act_bind (audit (Some (u_id user)) ''port_forward.stopped'' f') (\<lambda>_.
        act_bind commit (\<lambda>_. ret f')))))"

section \<open>The node\<close>

definition claims_match :: "forward \<Rightarrow> uuid \<Rightarrow> uuid \<Rightarrow> pf_claims option \<Rightarrow> bool" where
  "claims_match f device_id ssh_key_id claims \<longleftrightarrow>
     (case claims of
        None \<Rightarrow> False
      | Some c \<Rightarrow> pf_forward_id c = f_id f \<and> pf_device_id c = device_id \<and>
          (pf_ssh_key_id c = None \<or> pf_ssh_key_id c = Some ssh_key_id))"

definition fw_redeem ::
  "settings \<Rightarrow> time \<Rightarrow> node_row \<Rightarrow> uuid \<Rightarrow> uuid \<Rightarrow> uuid \<Rightarrow> pystr \<Rightarrow> (forward \<times> session_row \<times> policy) act"
where
  "fw_redeem cfg now n i device_id ssh_key_id raw =
     act_bind (query (\<lambda>d. get_forward d i)) (\<lambda>r. case r of
       None \<Rightarrow> api_error ''COMMON_NOT_FOUND'' 404
     | Some f \<Rightarrow>
     act_bind (check (f_node_id f = n_id n) ''COMMON_NOT_FOUND'' 404) (\<lambda>_.
     act_bind (ensure_non_terminal now f) (\<lambda>_.
     act_bind (check (f_device_id f = device_id \<and> (f_ssh_key_id f = None \<or> f_ssh_key_id f = Some ssh_key_id))
       ''COMMON_FORBIDDEN'' 403) (\<lambda>_.
     act_bind (query (\<lambda>d. get_active_ssh_key d device_id ssh_key_id)) (\<lambda>key.
     act_bind (check (key \<noteq> None) ''COMMON_FORBIDDEN'' 403) (\<lambda>_.
     act_bind (require_rate_limit now (rate_scope cfg ''redeem'' [n_id n, device_id, i]) (set_redeem_rate cfg)) (\<lambda>_.
     act_bind (consume_token cfg now raw) (\<lambda>claims.
     act_bind (check (claims_match f device_id ssh_key_id claims) ''AUTH_INVALID'' 401) (\<lambda>_.
     let f1 = (if f_ssh_key_id f = None then f\<lparr>f_ssh_key_id := Some ssh_key_id\<rparr> else f) in
     act_bind (if f_ssh_key_id f = None then put_forward f1 else ret ()) (\<lambda>_.
     act_bind (require_runtime_authorization cfg now f1) (\<lambda>(s, p).
     let f2 = f1\<lparr>f_generation := f_generation f1 + 1, f_gen_up := 0, f_gen_down := 0, f_gen_connections := 0,
           f_status := F_active, f_last_connected := Some now, f_lease := Some (now + seconds (p_lease p))\<rparr> in
     act_bind (put_forward f2) (\<lambda>_.
     act_bind (audit None ''port_forward.connected'' f2) (\<lambda>_.
     act_bind commit (\<lambda>_. ret (f2, s, p)))))))))))))))"

definition require_node_generation :: "node_row \<Rightarrow> uuid \<Rightarrow> int \<Rightarrow> forward act" where
  "require_node_generation n i generation =
     act_bind (query (\<lambda>d. get_forward d i)) (\<lambda>r. case r of
       None \<Rightarrow> api_error ''COMMON_NOT_FOUND'' 404
     | Some f \<Rightarrow>
         act_bind (check (f_node_id f = n_id n) ''COMMON_NOT_FOUND'' 404) (\<lambda>_.
         act_bind (check (f_generation f = generation \<and> f_status f = F_active) ''TUNNEL_EXPIRED'' 409) (\<lambda>_. ret f)))"

record counters =
  ct_up :: int
  ct_down :: int
  ct_connections :: int

definition apply_counters :: "forward \<Rightarrow> counters \<Rightarrow> forward" where
  "apply_counters f c =
     (let up = max (f_gen_up f) (ct_up c); down = max (f_gen_down f) (ct_down c);
          connections = max (f_gen_connections f) (ct_connections c) in
      f\<lparr>f_bytes_up := f_bytes_up f + (up - f_gen_up f), f_bytes_down := f_bytes_down f + (down - f_gen_down f),
        f_connections := f_connections f + (connections - f_gen_connections f),
        f_gen_up := up, f_gen_down := down, f_gen_connections := connections\<rparr>)"

definition fw_renew ::
  "settings \<Rightarrow> time \<Rightarrow> node_row \<Rightarrow> uuid \<Rightarrow> int \<Rightarrow> counters \<Rightarrow> (forward \<times> session_row \<times> policy) act"
where
  "fw_renew cfg now n i generation c =
     act_bind (require_node_generation n i generation) (\<lambda>f.
     act_bind (require_runtime_authorization cfg now f) (\<lambda>(s, p).
     let f' = (apply_counters f c)\<lparr>f_lease := Some (now + seconds (p_lease p))\<rparr> in
     act_bind (put_forward f') (\<lambda>_. act_bind commit (\<lambda>_. ret (f', s, p)))))"

definition fw_release :: "node_row \<Rightarrow> uuid \<Rightarrow> int \<Rightarrow> counters \<Rightarrow> forward act" where
  "fw_release n i generation c =
     act_bind (require_node_generation n i generation) (\<lambda>f.
     let f1 = apply_counters f c;
         f2 = (if f_status f1 = F_active then f1\<lparr>f_status := F_disconnected, f_lease := None\<rparr> else f1) in
     act_bind (put_forward f2) (\<lambda>_.
     act_bind (audit None ''port_forward.disconnected'' f2) (\<lambda>_.
     act_bind commit (\<lambda>_. ret f2))))"

section \<open>Reconciliation\<close>

definition changed_codes :: "string list" where
  "changed_codes = [''COMMON_NOT_FOUND'', ''NODE_UNHEALTHY'', ''PORT_FORWARD_DISABLED'', ''PORT_FORWARD_UNSUPPORTED'',
     ''PORT_NOT_ALLOWED'', ''PROTOCOL_UNSUPPORTED'']"

text \<open>One forward of the batch: how many changes it counts.\<close>

definition cleanup_one :: "settings \<Rightarrow> time \<Rightarrow> uuid \<Rightarrow> nat act" where
  "cleanup_one cfg now i w =
     (case get_forward (w_db w) i of
        None \<Rightarrow> (w, Inr 0)
      | Some f \<Rightarrow>
          if f_status f \<notin> set non_terminal_statuses then (w, Inr 0)
          else (case ensure_non_terminal now f w of
              (w1, Inl (ApiError code status)) \<Rightarrow> (w1, Inr (if code = ''AUTH_EXPIRED'' then 1 else 0))
            | (w1, Inl e) \<Rightarrow> (w1, Inl e)
            | (w1, Inr _) \<Rightarrow>
                (case require_runtime_authorization cfg now f w1 of
                   (w2, Inl (ApiError code status)) \<Rightarrow>
                     (case get_forward (w_db w2) i of
                        None \<Rightarrow> (w2, Inr 0)
                      | Some f2 \<Rightarrow>
                          if f_status f2 = F_revoked then (w2, Inr 1)
                          else if code \<in> set changed_codes then act_bind (revoke now f2 ''authorization_changed'') (\<lambda>_. ret 1) w2
                          else (w2, Inr 0))
                 | (w2, Inl e) \<Rightarrow> (w2, Inl e)
                 | (w2, Inr _) \<Rightarrow>
                     if f_status f = F_active \<and> (case f_lease f of None \<Rightarrow> False | Some l \<Rightarrow> l \<le> now) then
                       (let f' = f\<lparr>f_status := F_disconnected, f_lease := None\<rparr> in
                        act_bind (put_forward f') (\<lambda>_. act_bind (audit None ''port_forward.disconnected'' f') (\<lambda>_.
                        act_bind commit (\<lambda>_. ret 1))) w2)
                     else (w2, Inr 0))))"

fun cleanup_each :: "settings \<Rightarrow> time \<Rightarrow> uuid list \<Rightarrow> nat act" where
  "cleanup_each cfg now [] = ret 0"
| "cleanup_each cfg now (i # is) =
     act_bind (cleanup_one cfg now i) (\<lambda>n. act_bind (cleanup_each cfg now is) (\<lambda>m. ret (n + m)))"

definition fw_cleanup :: "settings \<Rightarrow> time \<Rightarrow> nat \<Rightarrow> uuid option \<Rightarrow> (nat \<times> uuid option) act" where
  "fw_cleanup cfg now limit after_id =
     act_bind (query (\<lambda>d. list_non_terminal_ids d limit after_id)) (\<lambda>ids.
     act_bind (cleanup_each cfg now ids) (\<lambda>changed.
     if length ids = limit then (if ids = [] then throw IndexError else ret (changed, Some (last ids)))
     else ret (changed, None)))"

end
