(* ===== verification/Forward_Writers.thy ===== *)
theory Forward_Writers
  imports Forwards
begin

text \<open>
  Who else writes the table of forwards, and how a request writes that read without a lock: the revocation
  that other services run in their own transactions (\<open>services/port_forward_revocation.py\<close>), the foreign
  keys that delete forwards with what they belong to (\<open>models/sessions.py\<close>), and the flush of the changed
  columns of a row that was read earlier.
\<close>

section \<open>Revocation by other services\<close>

record revoke_scope =
  rv_user :: "uuid option"
  rv_device :: "uuid option"
  rv_session :: "uuid option"
  rv_node :: "uuid option"
  rv_account :: "uuid option"

definition selects :: "uuid option \<Rightarrow> uuid \<Rightarrow> bool" where
  "selects given column = (case given of None \<Rightarrow> True | Some i \<Rightarrow> column = i)"

text \<open>The account is that of the session, over a join.\<close>

definition in_revoke_scope :: "db \<Rightarrow> revoke_scope \<Rightarrow> forward \<Rightarrow> bool" where
  "in_revoke_scope d sc f \<longleftrightarrow>
     selects (rv_user sc) (f_user_id f) \<and> selects (rv_device sc) (f_device_id f) \<and>
     selects (rv_session sc) (f_session_id f) \<and> selects (rv_node sc) (f_node_id f) \<and>
     (case rv_account sc of
        None \<Rightarrow> True
      | Some a \<Rightarrow> list_ex (\<lambda>s. s_id s = f_session_id f \<and> s_tool_account_id s = a) (t_sessions d))"

text \<open>The commit is that of the caller.\<close>

definition revoke_port_forwards :: "time \<Rightarrow> string \<Rightarrow> uuid option \<Rightarrow> revoke_scope \<Rightarrow> nat act" where
  "revoke_port_forwards now reason actor sc =
     act_bind (query (\<lambda>d. filter (\<lambda>f. f_status f \<in> set non_terminal_statuses \<and> in_revoke_scope d sc f) (t_forwards d))) (\<lambda>rows.
     act_bind (for_each (\<lambda>f.
         let f' = f\<lparr>f_status := F_revoked, f_stopped := Some now, f_reason := Some reason, f_lease := None\<rparr> in
         act_bind (put_forward f') (\<lambda>_. audit actor ''port_forward.revoked'' f')) rows) (\<lambda>_.
     ret (length rows)))"

section \<open>Deletion of what a forward belongs to\<close>

datatype forward_owner = Of_user uuid | Of_device uuid | Of_session uuid | Of_node uuid

fun belongs_to :: "forward_owner \<Rightarrow> forward \<Rightarrow> bool" where
  "belongs_to (Of_user i) f = (f_user_id f = i)"
| "belongs_to (Of_device i) f = (f_device_id f = i)"
| "belongs_to (Of_session i) f = (f_session_id f = i)"
| "belongs_to (Of_node i) f = (f_node_id f = i)"

definition delete_with_owner :: "forward_owner \<Rightarrow> db \<Rightarrow> db" where
  "delete_with_owner owner d = d\<lparr>t_forwards := filter (\<lambda>f. \<not> belongs_to owner f) (t_forwards d)\<rparr>"

section \<open>Writing a row that was read earlier\<close>

text \<open>
  The reads of \<open>list\<close>, \<open>get\<close>, \<open>stop\<close> and \<open>issue_connection\<close> take no lock, so other requests may commit
  between such a read and the write. The update carries the columns whose value the request has changed
  since its read, and no others; a row that is gone fails the flush and with it the transaction.
\<close>

definition flush_column :: "'a \<Rightarrow> 'a \<Rightarrow> 'a \<Rightarrow> 'a" where
  "flush_column read_value new_value stored_value = (if new_value = read_value then stored_value else new_value)"

definition flush_row :: "forward \<Rightarrow> forward \<Rightarrow> forward \<Rightarrow> forward" where
  "flush_row f f' h =
     h\<lparr>f_ssh_key_id := flush_column (f_ssh_key_id f) (f_ssh_key_id f') (f_ssh_key_id h),
       f_status := flush_column (f_status f) (f_status f') (f_status h),
       f_bytes_up := flush_column (f_bytes_up f) (f_bytes_up f') (f_bytes_up h),
       f_bytes_down := flush_column (f_bytes_down f) (f_bytes_down f') (f_bytes_down h),
       f_connections := flush_column (f_connections f) (f_connections f') (f_connections h),
       f_generation := flush_column (f_generation f) (f_generation f') (f_generation h),
       f_gen_up := flush_column (f_gen_up f) (f_gen_up f') (f_gen_up h),
       f_gen_down := flush_column (f_gen_down f) (f_gen_down f') (f_gen_down h),
       f_gen_connections := flush_column (f_gen_connections f) (f_gen_connections f') (f_gen_connections h),
       f_last_connected := flush_column (f_last_connected f) (f_last_connected f') (f_last_connected h),
       f_lease := flush_column (f_lease f) (f_lease f') (f_lease h),
       f_stopped := flush_column (f_stopped f) (f_stopped f') (f_stopped h),
       f_reason := flush_column (f_reason f) (f_reason f') (f_reason h)\<rparr>"

text \<open>\<open>base\<close> is what was read, \<open>work\<close> what the request made of it, \<open>d\<close> what is stored by now.\<close>

definition flush_forwards :: "db \<Rightarrow> db \<Rightarrow> db \<Rightarrow> db" where
  "flush_forwards base work d =
     (if list_all (\<lambda>f. get_forward work (f_id f) = Some f \<or> get_forward d (f_id f) \<noteq> None) (t_forwards base)
      then d\<lparr>t_forwards := map (\<lambda>h. case (get_forward base (f_id h), get_forward work (f_id h)) of
               (Some f, Some f') \<Rightarrow> flush_row f f' h | _ \<Rightarrow> h) (t_forwards d),
             t_audits := t_audits d @ drop (length (t_audits base)) (t_audits work)\<rparr>
      else d)"

end
