(* ===== verification/Forward_Life.thy ===== *)
theory Forward_Life
  imports Forward_Writers
begin

text \<open>
  What a request may do to the table of forwards, as an abstract machine: the life of one forward, the
  admission of a new one. A calculus of triples over requests shows that the whole service implements it.
\<close>

section \<open>The abstract machine\<close>

definition live :: "forward \<Rightarrow> bool" where
  "live f \<longleftrightarrow> f_status f \<in> set non_terminal_statuses"

inductive life_step :: "forward \<Rightarrow> forward \<Rightarrow> bool" where
  Bind_key: "live f \<Longrightarrow> f_ssh_key_id f = None \<Longrightarrow> life_step f (f\<lparr>f_ssh_key_id := Some k\<rparr>)"
| Connect: "live f \<Longrightarrow> now < f_expires f \<Longrightarrow> f_ssh_key_id f \<noteq> None \<Longrightarrow>
    life_step f (f\<lparr>f_generation := f_generation f + 1, f_gen_up := 0, f_gen_down := 0, f_gen_connections := 0,
      f_status := F_active, f_last_connected := Some now, f_lease := Some lease\<rparr>)"
| Renew: "f_status f = F_active \<Longrightarrow> now < f_expires f \<Longrightarrow> life_step f ((apply_counters f c)\<lparr>f_lease := Some lease\<rparr>)"
| Release: "f_status f = F_active \<Longrightarrow>
    life_step f ((apply_counters f c)\<lparr>f_status := F_disconnected, f_lease := None\<rparr>)"
| Lapse: "f_status f = F_active \<Longrightarrow> f_lease f = Some l \<Longrightarrow> l \<le> now \<Longrightarrow>
    life_step f (f\<lparr>f_status := F_disconnected, f_lease := None\<rparr>)"
| End: "live f \<Longrightarrow> s = F_stopped \<or> s = F_revoked \<or> s = F_expired \<and> f_expires f \<le> now \<Longrightarrow>
    life_step f (f\<lparr>f_status := s, f_stopped := Some now, f_reason := Some reason, f_lease := None\<rparr>)"

definition port_allowed :: "policy \<Rightarrow> int \<Rightarrow> bool" where
  "port_allowed p port \<longleftrightarrow>
     p_enabled p \<and> p_min_port p \<le> port \<and> port \<le> p_max_port p \<and> port \<notin> set (p_denied_ports p)"

definition within_quotas :: "policy \<Rightarrow> db \<Rightarrow> forward \<Rightarrow> bool" where
  "within_quotas p d f \<longleftrightarrow>
     count_active d (\<lambda>g. f_user_id g = f_user_id f) < p_max_per_user p \<and>
     count_active d (\<lambda>g. f_device_id g = f_device_id f) < p_max_per_device p \<and>
     count_active d (\<lambda>g. f_session_id g = f_session_id f) < p_max_per_session p"

definition unconnected :: "forward \<Rightarrow> bool" where
  "unconnected f \<longleftrightarrow> f_status f = F_pending \<and> f_ssh_key_id f = None \<and> f_generation f = 0 \<and> f_bytes_up f = 0 \<and>
     f_bytes_down f = 0 \<and> f_connections f = 0 \<and> f_gen_up f = 0 \<and> f_gen_down f = 0 \<and> f_gen_connections f = 0 \<and>
     f_lease f = None \<and> f_stopped f = None \<and> f_reason f = None"

inductive table_step :: "settings \<Rightarrow> db \<Rightarrow> db \<Rightarrow> bool" for cfg where
  Admit: "get_node d (f_node_id f) = Some n \<Longrightarrow> n_status n \<in> set active_node_statuses \<Longrightarrow>
    port_allowed (node_policy cfg n) (f_remote_port f) \<Longrightarrow> within_quotas (node_policy cfg n) d f \<Longrightarrow>
    f_expires f \<le> f_created f + seconds (p_max_ttl (node_policy cfg n)) \<Longrightarrow> unconnected f \<Longrightarrow> row_admissible f d \<Longrightarrow>
    table_step cfg d (d\<lparr>t_forwards := t_forwards d @ [f]\<rparr>)"
| Update: "f \<in> set (t_forwards d) \<Longrightarrow> life_step f f' \<Longrightarrow> table_step cfg d (put_forward_db f' d)"
| Audit: "table_step cfg d (d\<lparr>t_audits := t_audits d @ [a]\<rparr>)"

text \<open>The steps of a request that admits no other rows than those with an id of \<open>A\<close>.\<close>

definition row_ids :: "db \<Rightarrow> uuid set" where
  "row_ids d = f_id ` set (t_forwards d)"

definition table_steps_in :: "settings \<Rightarrow> uuid set \<Rightarrow> db \<Rightarrow> db \<Rightarrow> bool" where
  "table_steps_in cfg A d d' \<longleftrightarrow> table_step cfg d d' \<and> row_ids d' \<subseteq> row_ids d \<union> A"

text \<open>The steps of a request that only ends rows.\<close>

definition ends_row :: "forward \<Rightarrow> forward \<Rightarrow> bool" where
  "ends_row f f' \<longleftrightarrow> live f \<and> (\<exists>s now reason. (s = F_stopped \<or> s = F_revoked \<or> s = F_expired \<and> f_expires f \<le> now) \<and>
     f' = f\<lparr>f_status := s, f_stopped := Some now, f_reason := Some reason, f_lease := None\<rparr>)"

inductive ending_step :: "db \<Rightarrow> db \<Rightarrow> bool" where
  End_row: "f \<in> set (t_forwards d) \<Longrightarrow> ends_row f f' \<Longrightarrow> ending_step d (put_forward_db f' d)"
| Trail: "ending_step d (d\<lparr>t_audits := t_audits d @ [a]\<rparr>)"

section \<open>The service implements the machine\<close>

definition reaches :: "(db \<Rightarrow> db \<Rightarrow> bool) \<Rightarrow> db \<Rightarrow> world \<Rightarrow> bool" where
  "reaches R d0 w \<longleftrightarrow> R\<^sup>*\<^sup>* d0 (w_db w) \<and> R\<^sup>*\<^sup>* d0 (w_saved w)"

definition current :: "forward \<Rightarrow> world \<Rightarrow> bool" where
  "current f w \<longleftrightarrow> f \<in> set (t_forwards (w_db w))"

lemma life_step_id: "life_step f f' \<Longrightarrow> f_id f' = f_id f"
  by (induction rule: life_step.induct) (auto simp: apply_counters_def Let_def)

lemma put_ids: "map f_id (t_forwards (put_forward_db f d)) = map f_id (t_forwards d)"
  by (auto simp: put_forward_db_def)

lemma row_ids_simps [simp]:
  "row_ids (put_forward_db f d) = row_ids d" "row_ids (d\<lparr>t_audits := as\<rparr>) = row_ids d"
proof -
  show "row_ids (put_forward_db f d) = row_ids d"
    using arg_cong [OF put_ids [of f d], of set] by (simp add: row_ids_def)
qed (simp add: row_ids_def)

lemma keeps_write:
  assumes step: "\<And>d. f \<in> set (t_forwards d) \<Longrightarrow> R d (put_forward_db f' d)" and id: "f_id f' = f_id f"
    and pre: "\<And>w. P w \<Longrightarrow> current f w"
  shows "keeps (reaches R d0) P (put_forward f') (\<lambda>_. current f')"
proof (rule keepsI)
  fix w w' r assume a: "reaches R d0 w" "P w" "put_forward f' w = (w', r)"
  have s: "R (w_db w) (put_forward_db f' (w_db w))"
    using step pre [OF a(2)] unfolding current_def by blast
  have "f' \<in> set (t_forwards (put_forward_db f' (w_db w)))"
    using pre [OF a(2)] id by (force simp: current_def put_forward_db_def)
  then show "reaches R d0 w' \<and> (\<forall>x. r = Inr x \<longrightarrow> current f' w')"
    using a rtranclp.rtrancl_into_rtrancl [where r = R, OF _ s]
    by (auto simp: reaches_def put_forward_def current_def)
qed

lemma keeps_put:
  assumes "life_step f f'" "\<And>w. P w \<Longrightarrow> current f w"
  shows "keeps (reaches (table_steps_in cfg A) d0) P (put_forward f') (\<lambda>_. current f')"
  by (rule keeps_write [OF _ life_step_id [OF assms(1)] assms(2)])
    (use assms(1) in \<open>auto simp: table_steps_in_def intro: Update\<close>)

lemma current_simps [simp]:
  "current f (w\<lparr>w_saved := d\<rparr>) = current f w"
  "current f (w\<lparr>w_tokens := t\<rparr>) = current f w"
  "current f (w\<lparr>w_db := (w_db w)\<lparr>t_audits := as\<rparr>\<rparr>) = current f w"
  by (simp_all add: current_def)

lemma get_node_id: "get_node d i = Some n \<Longrightarrow> n_id n = i"
  by (auto simp: get_node_def find_Some_iff)

lemma keeps_require_node:
  "keeps I P (require_node i) (\<lambda>n w. n_id n = i \<and> get_node (w_db w) i = Some n \<and> n_status n \<in> set active_node_statuses \<and> P w)"
  by (auto dest: get_node_id simp: keeps_def require_node_def act_bind_def query_def check_def ret_def api_error_def throw_def
      split: option.splits)

lemma keeps_require_session: "keeps I P (require_running_session user_id i) (\<lambda>s. P)"
  by (auto simp: keeps_def require_running_session_def act_bind_def query_def check_def ret_def api_error_def throw_def
      split: option.splits)

definition capable :: "node_row \<Rightarrow> session_row \<Rightarrow> bool" where
  "capable n s \<longleftrightarrow>
     (case capability_of n of
        None \<Rightarrow> False
      | Some c \<Rightarrow> map_of c (lit ''supported'') = Some (JBool True) \<and>
          (\<exists>xs. map_of c (lit ''backends'') = Some (JArray xs) \<and> JString (s_backend s) \<in> set xs) \<and>
          (\<exists>xs. map_of c (lit ''protocol_versions'') = Some (JArray xs) \<and>
             (JInt 1 \<in> set xs \<or> JBool True \<in> set xs \<or> JFloat (lit ''1.0'') \<in> set xs)) \<and>
          capability_streams n \<noteq> None)"

text \<open>
  A check that only reads: it returns a value with the property \<open>G\<close>, or there is none and it fails with one
  of the codes that make the reconciliation revoke.
\<close>

definition gate :: "world \<Rightarrow> 'a act \<Rightarrow> ('a \<Rightarrow> bool) \<Rightarrow> bool" where
  "gate w m G \<longleftrightarrow> (\<exists>x. m w = (w, Inr x) \<and> G x) \<or>
     (\<forall>x. \<not> G x) \<and> (\<exists>code k. code \<in> set changed_codes \<and> m w = (w, Inl (ApiError code k)))"

lemma gate_bind:
  assumes "gate w m G" "\<And>x. G x \<Longrightarrow> gate w (f x) H" "\<And>y. H y \<Longrightarrow> \<exists>x. G x"
  shows "gate w (act_bind m f) H"
proof (cases "\<exists>x. m w = (w, Inr x) \<and> G x")
  case True
  then obtain x where "m w = (w, Inr x)" "G x" by blast
  with assms(2) [of x] show ?thesis by (simp add: gate_def act_bind_def)
next
  case False
  with assms(1,3) show ?thesis by (auto simp: gate_def act_bind_def)
qed

lemma gate_ret: "G x \<Longrightarrow> gate w (ret x) G"
  by (simp add: gate_def ret_def)

lemma gate_node: "gate w (require_node i) (\<lambda>n. get_node (w_db w) i = Some n \<and> n_status n \<in> set active_node_statuses)"
  by (auto simp: gate_def require_node_def act_bind_def query_def check_def ret_def api_error_def throw_def
      changed_codes_def split: option.splits)

lemma gate_capability: "gate w (require_capability n s) (\<lambda>_. capable n s)"
  by (auto simp: gate_def require_capability_def capable_def act_bind_def check_def ret_def api_error_def throw_def
      changed_codes_def split: option.splits json.splits)

lemma gate_port: "gate w (validate_remote_port p port) (\<lambda>_. port_allowed p port)"
  by (auto simp: gate_def validate_remote_port_def port_allowed_def act_bind_def check_def ret_def api_error_def throw_def
      changed_codes_def)

lemma keeps_gate:
  assumes "\<And>w. gate w m G"
  shows "keeps I P m (\<lambda>x w. G x \<and> P w)"
proof (rule keepsI)
  fix w w' r assume "I w" "P w" "m w = (w', r)"
  then show "I w' \<and> (\<forall>x. r = Inr x \<longrightarrow> G x \<and> P w')" using assms [of w] by (auto simp: gate_def)
qed

lemma keeps_capability: "keeps I P (require_capability n s) (\<lambda>_ w. capable n s \<and> P w)"
  by (rule keeps_gate [OF gate_capability])

lemma keeps_remote_port: "keeps I P (validate_remote_port p port) (\<lambda>_ w. port_allowed p port \<and> P w)"
  by (rule keeps_gate [OF gate_port])

lemma keeps_quotas:
  "keeps I P (validate_quotas p user_id device_id session_id) (\<lambda>_ w.
     count_active (w_db w) (\<lambda>f. f_user_id f = user_id) < p_max_per_user p \<and>
     count_active (w_db w) (\<lambda>f. f_device_id f = device_id) < p_max_per_device p \<and>
     count_active (w_db w) (\<lambda>f. f_session_id f = session_id) < p_max_per_session p \<and> P w)"
  by (auto simp: keeps_def validate_quotas_def query_def act_bind_def check_def ret_def api_error_def throw_def
      split: if_splits)

text \<open>Expiry, revocation, authorization.\<close>

lemma life_end:
  assumes "live f" "s = F_stopped \<or> s = F_revoked \<or> s = F_expired \<and> f_expires f \<le> now"
  shows "life_step f (f\<lparr>f_status := s, f_stopped := Some now, f_reason := Some reason, f_lease := None\<rparr>)"
  using assms by (rule End)

lemma expire_None: "expire_if_needed now f = None \<longleftrightarrow> \<not> live f \<or> now < f_expires f"
  by (auto simp: expire_if_needed_def live_def)

text \<open>The rows that an authorized request has seen.\<close>

definition authorized :: "settings \<Rightarrow> forward \<Rightarrow> session_row \<Rightarrow> policy \<Rightarrow> db \<Rightarrow> bool" where
  "authorized cfg f s p d \<longleftrightarrow>
     get_active_user d (f_user_id f) \<noteq> None \<and> get_active_device d (f_user_id f) (f_device_id f) \<noteq> None \<and>
     (case f_ssh_key_id f of Some k \<Rightarrow> get_active_ssh_key d (f_device_id f) k | None \<Rightarrow> first_active_ssh_key d (f_device_id f)) \<noteq> None \<and>
     get_session d (f_session_id f) = Some s \<and> session_running s \<and> get_active_tool_account d (s_tool_account_id s) \<noteq> None \<and>
     (\<exists>n. get_node d (f_node_id f) = Some n \<and> n_status n \<in> set active_node_statuses \<and> capable n s \<and> p = node_policy cfg n) \<and>
     port_allowed p (f_remote_port f)"

lemma queries_audits [simp]:
  "get_active_user (d\<lparr>t_audits := as\<rparr>) = get_active_user d" "get_active_device (d\<lparr>t_audits := as\<rparr>) = get_active_device d"
  "get_active_ssh_key (d\<lparr>t_audits := as\<rparr>) = get_active_ssh_key d" "get_session (d\<lparr>t_audits := as\<rparr>) = get_session d"
  "first_active_ssh_key (d\<lparr>t_audits := as\<rparr>) = first_active_ssh_key d" "get_node (d\<lparr>t_audits := as\<rparr>) = get_node d"
  "get_active_tool_account (d\<lparr>t_audits := as\<rparr>) = get_active_tool_account d"
  by (simp_all add: get_active_user_def get_active_device_def get_active_ssh_key_def get_session_def
      first_active_ssh_key_def get_node_def get_active_tool_account_def fun_eq_iff)

lemma authorized_audits [simp]: "authorized cfg f s p (d\<lparr>t_audits := as\<rparr>) = authorized cfg f s p d"
  unfolding authorized_def queries_audits ..

lemma get_forward_row: "get_forward d i = Some f \<Longrightarrow> f \<in> set (t_forwards d) \<and> f_id f = i"
  by (auto simp: get_forward_def find_Some_iff)

lemma get_by_caller_row:
  "get_by_caller d u k = Some f \<Longrightarrow> f \<in> set (t_forwards d) \<and> f_user_id f = u \<and> f_caller_request f = Some k"
  by (auto simp: get_by_caller_def find_Some_iff)

lemma keeps_found:
  "x = Some f \<Longrightarrow> keeps I (current f) m Q \<Longrightarrow> keeps I (\<lambda>w. x = get_forward (w_db w) i \<and> P w) m Q"
  by (erule keeps_pre) (auto simp: current_def dest: get_forward_row)

lemmas keeps_row = keeps_bind [OF keeps_query keeps_option [OF keeps_throw(2)]]

text \<open>Expiry of a listed batch needs that the rows have different keys.\<close>

definition keyed :: "db \<Rightarrow> bool" where
  "keyed d \<longleftrightarrow> distinct (map f_id (t_forwards d))"

lemma table_step_keyed: "table_step cfg d d' \<Longrightarrow> keyed d \<Longrightarrow> keyed d'"
  by (induction rule: table_step.induct)
    (auto simp: keyed_def put_ids row_admissible_def get_forward_def find_None_iff)

lemma table_run_keyed: "(table_step cfg)\<^sup>*\<^sup>* d d' \<Longrightarrow> keyed d \<Longrightarrow> keyed d'"
  by (induction rule: rtranclp_induct) (auto intro: table_step_keyed)

lemma put_other: "g \<in> set (t_forwards d) \<Longrightarrow> f_id g \<noteq> f_id f \<Longrightarrow> g \<in> set (t_forwards (put_forward_db f d))"
  by (force simp: put_forward_db_def)

lemma listed_rows:
  "keyed d \<Longrightarrow> distinct (map f_id (list_all_forwards d)) \<and> set (list_all_forwards d) \<subseteq> set (t_forwards d)"
  "keyed d \<Longrightarrow> distinct (map f_id (list_for_user d u)) \<and> set (list_for_user d u) \<subseteq> set (t_forwards d)"
  by (auto simp: keyed_def list_all_forwards_def list_for_user_def distinct_map intro: inj_on_subset)

lemma terminal_live: "f_status f \<notin> set terminal_statuses \<longleftrightarrow> live f"
  by (cases "f_status f") (auto simp: terminal_statuses_def live_def non_terminal_statuses_def)

lemma keeps_device: "keeps I P (require_device_token t) (\<lambda>_. P)"
  by (auto simp: keeps_def require_device_token_def ret_def api_error_def throw_def split: option.splits)

section \<open>Requests that end rows\<close>

lemma ends_row_life: "ends_row f f' \<Longrightarrow> life_step f f'"
  by (auto simp: ends_row_def intro: End)

lemma ends_rowI:
  assumes "live f" "s = F_stopped \<or> s = F_revoked \<or> s = F_expired \<and> f_expires f \<le> now"
  shows "ends_row f (f\<lparr>f_status := s, f_stopped := Some now, f_reason := Some reason, f_lease := None\<rparr>)"
  using assms unfolding ends_row_def by blast

lemmas ends_row_id = life_step_id [OF ends_row_life]

lemma expire_ends: "expire_if_needed now f = Some f' \<Longrightarrow> ends_row f f'"
  by (auto simp: expire_if_needed_def live_def ends_row_def split: if_splits)

lemmas expire_life = ends_row_life [OF expire_ends]

text \<open>
  What reads a row without writing counters, keys or generations needs of the steps that it may take only that
  rows may be ended and audits added.
\<close>

locale forward_writes =
  fixes R :: "db \<Rightarrow> db \<Rightarrow> bool"
  assumes audits: "R d (d\<lparr>t_audits := t_audits d @ [a]\<rparr>)"
    and ends: "f \<in> set (t_forwards d) \<Longrightarrow> ends_row f f' \<Longrightarrow> R d (put_forward_db f' d)"
begin

lemma keeps_end:
  assumes "ends_row f f'" "\<And>w. P w \<Longrightarrow> current f w"
  shows "keeps (reaches R d0) P (put_forward f') (\<lambda>_. current f')"
  by (rule keeps_write [OF _ ends_row_id [OF assms(1)] assms(2)]) (use assms(1) ends in auto)

lemma keeps_audit:
  assumes "\<And>w as. P w \<Longrightarrow> P (w\<lparr>w_db := (w_db w)\<lparr>t_audits := as\<rparr>\<rparr>)"
  shows "keeps (reaches R d0) P (audit actor action g) (\<lambda>_. P)"
  using assms by (auto simp: keeps_def reaches_def audit_def intro: rtranclp.rtrancl_into_rtrancl audits)

lemma keeps_commit:
  assumes "\<And>w. P w \<Longrightarrow> P (w\<lparr>w_saved := w_db w\<rparr>)"
  shows "keeps (reaches R d0) P commit (\<lambda>_. P)"
  using assms by (auto simp: keeps_def reaches_def commit_def)

text \<open>Steps that change nothing of the database.\<close>

lemma keeps_tokens:
  assumes "\<And>w t. P w \<Longrightarrow> P (w\<lparr>w_tokens := t\<rparr>)"
  shows "keeps (reaches R d0) P (require_rate_limit now scope k) (\<lambda>_. P)"
    and "keeps (reaches R d0) P (issue_token cfg' now raw f) (\<lambda>_. P)"
    and "keeps (reaches R d0) P (consume_token cfg' now raw) (\<lambda>_. P)"
  using assms
  by (auto simp: keeps_def reaches_def require_rate_limit_def issue_token_def consume_token_def check_def ret_def
      api_error_def throw_def split: prod.splits sum.splits if_splits)

text \<open>A request is walked through from its first step on; each step passes on what it has established.\<close>

lemmas steps = keeps_bind [OF keeps_query] keeps_bind [OF keeps_check]
  keeps_bind [OF keeps_audit] keeps_bind [OF keeps_commit] keeps_bind [OF keeps_tokens(1)]
  keeps_bind [OF keeps_tokens(2)] keeps_bind [OF keeps_tokens(3)] keeps_bind [OF keeps_require_node]
  keeps_bind [OF keeps_require_session] keeps_bind [OF keeps_capability] keeps_bind [OF keeps_remote_port]
  keeps_bind [OF keeps_quotas] keeps_fact keeps_throw keeps_if keeps_option keeps_prod

lemma keeps_ensure:
  "keeps (reaches R d0) (current f) (ensure_non_terminal now f) (\<lambda>_ w. live f \<and> now < f_expires f \<and> current f w)"
proof (cases "expire_if_needed now f")
  case None
  show ?thesis unfolding ensure_non_terminal_def None option.case
    by (rule keeps_post [OF keeps_check]) (use None [unfolded expire_None] in \<open>auto simp: live_def\<close>)
next
  case (Some f')
  show ?thesis unfolding ensure_non_terminal_def Some option.case
    by (intro steps keeps_bind [OF keeps_end [OF expire_ends [OF Some]]]) simp_all
qed

lemma keeps_revoke:
  assumes "live f"
  shows "keeps (reaches R d0) (current f) (revoke now f reason) (\<lambda>_ _. True)"
proof -
  have l: "ends_row f (f\<lparr>f_status := F_revoked, f_stopped := Some now, f_reason := Some reason, f_lease := None\<rparr>)"
    using assms by (auto simp: ends_row_def)
  show ?thesis unfolding revoke_def Let_def
    by (intro steps keeps_bind [OF keeps_end [OF l]] keeps_post [OF keeps_commit]) simp_all
qed

lemma keeps_revoke_error:
  assumes "\<And>w. P w \<Longrightarrow> current f w" "live f"
  shows "keeps (reaches R d0) P (revoke_error now f reason code n) Q"
  unfolding revoke_error_def
  by (rule keeps_pre [OF keeps_bind [OF keeps_revoke [OF assms(2)] keeps_throw(2)] assms(1)])

lemma keeps_authorization:
  "keeps (reaches R d0) (current f) (require_runtime_authorization cfg now f)
     (\<lambda>x w. live f \<and> now < f_expires f \<and> authorized cfg f (fst x) (snd x) (w_db w) \<and> current f w)"
  unfolding require_runtime_authorization_def
  by (rule keeps_bind [OF keeps_ensure])
    (intro steps keeps_revoke_error keeps_ret_post; auto simp: authorized_def)

lemmas step_ensure = keeps_bind [OF keeps_pre [OF keeps_ensure]]
lemmas step_authorization = keeps_bind [OF keeps_pre [OF keeps_authorization]]

lemma keeps_owned: "keeps (reaches R d0) P (require_owned user i) (\<lambda>f w. f_user_id f = u_id user \<and> current f w)"
  unfolding require_owned_def by (rule keeps_row, erule keeps_found) (intro steps keeps_ret_post; simp)

lemma keeps_visible: "keeps (reaches R d0) P (require_visible user i) current"
  unfolding require_visible_def by (rule keeps_row, erule keeps_found) (intro steps keeps_ret_post; simp)

lemma keeps_expire_all:
  "keeps (reaches R d0) (\<lambda>w. distinct (map f_id fs) \<and> (\<forall>f \<in> set fs. current f w)) (expire_all now fs) (\<lambda>_ _. True)"
proof (induction fs)
  case Nil
  then show ?case by (auto intro: keeps_ret_post)
next
  case (Cons f fs)
  show ?case
  proof (cases "expire_if_needed now f")
    case None
    show ?thesis unfolding expire_all.simps None option.case by (rule keeps_map, rule keeps_pre [OF Cons.IH]) simp
  next
    case (Some f')
    note life = expire_ends [OF Some]
    have "keeps (reaches R d0) (\<lambda>w. distinct (map f_id (f # fs)) \<and> (\<forall>g \<in> set (f # fs). current g w)) (put_forward f')
        (\<lambda>_ w. distinct (map f_id fs) \<and> (\<forall>g \<in> set fs. current g w))"
    proof (rule keepsI)
      fix w w' r
      assume a: "reaches R d0 w" "distinct (map f_id (f # fs)) \<and> (\<forall>g \<in> set (f # fs). current g w)"
        "put_forward f' w = (w', r)"
      have "reaches R d0 w'" using keepsD [OF keeps_end [OF life, of "current f"] a(1) _ a(3)] a(2) by auto
      then show "reaches R d0 w' \<and> (\<forall>x. r = Inr x \<longrightarrow> distinct (map f_id fs) \<and> (\<forall>g \<in> set fs. current g w'))"
        using a(2,3) ends_row_id [OF life] by (auto simp: put_forward_def current_def intro!: put_other) (metis image_eqI)
    qed
    then show ?thesis unfolding expire_all.simps Some option.case
      by (rule keeps_bind) (rule keeps_map [OF Cons.IH])
  qed
qed

lemma keeps_list: "keeps (reaches R d0) (\<lambda>w. keyed (w_db w)) (fw_list now user all_users) (\<lambda>_ _. True)"
  unfolding fw_list_def
  by (intro steps keeps_bind [OF keeps_pre [OF keeps_expire_all]] keeps_bind [OF keeps_if [OF keeps_commit keeps_ret_post]] keeps_ret_post)
    (auto simp: current_def dest: listed_rows split: if_splits)

lemma keeps_get: "keeps (reaches R d0) (\<lambda>_. True) (fw_get now user i) (\<lambda>_ _. True)"
  unfolding fw_get_def
  by (rule keeps_bind [OF keeps_visible], rule keeps_option)
    (auto intro!: steps keeps_bind [OF keeps_end] keeps_ret_post dest: expire_ends)

lemma keeps_connect: "keeps (reaches R d0) (\<lambda>_. True) (fw_issue_connection cfg now raw user t i) (\<lambda>_ _. True)"
  unfolding fw_issue_connection_def
  by (rule keeps_bind [OF keeps_device], rule keeps_bind [OF keeps_owned])
    (intro steps step_ensure step_authorization keeps_ret_post; simp)

lemma keeps_stop: "keeps (reaches R d0) (\<lambda>_. True) (fw_stop now user i) (\<lambda>_ _. True)"
  unfolding fw_stop_def Let_def
  by (rule keeps_bind [OF keeps_visible], rule keeps_if)
    (auto intro!: steps keeps_bind [OF keeps_end] keeps_ret_post ends_rowI simp: terminal_live)

lemma keeps_revocation:
  "keeps (reaches R d0) (\<lambda>w. keyed (w_db w)) (revoke_port_forwards now reason actor sc) (\<lambda>_ _. True)"
proof -
  let ?over = "\<lambda>f. f\<lparr>f_status := F_revoked, f_stopped := Some now, f_reason := Some reason, f_lease := None\<rparr>"
  let ?one = "\<lambda>f. act_bind (put_forward (?over f)) (\<lambda>_. audit actor ''port_forward.revoked'' (?over f))"
  have one: "keeps (reaches R d0) (\<lambda>w. current f w \<and> (\<forall>g \<in> set fs. current g w \<and> f_id g \<noteq> f_id f))
      (?one f) (\<lambda>_ w. \<forall>g \<in> set fs. current g w)" if "live f" for f fs
  proof (rule keepsI)
    fix w w' r
    assume a: "reaches R d0 w" "current f w \<and> (\<forall>g \<in> set fs. current g w \<and> f_id g \<noteq> f_id f)" "?one f w = (w', r)"
    have e: "ends_row f (?over f)" using that by (auto simp: ends_row_def)
    have k: "keeps (reaches R d0) (current f) (?one f) (\<lambda>_. current (?over f))"
      by (intro keeps_bind [OF keeps_end [OF e]] keeps_audit) simp_all
    have "reaches R d0 w'" using keepsD [OF k a(1) conjunct1 [OF a(2)] a(3)] by blast
    moreover have "t_forwards (w_db w') = t_forwards (put_forward_db (?over f) (w_db w))"
      using a(3) by (auto simp: act_bind_def put_forward_def audit_def)
    ultimately show "reaches R d0 w' \<and> (\<forall>x. r = Inr x \<longrightarrow> (\<forall>g \<in> set fs. current g w'))"
      using a(2) by (auto simp: current_def intro!: put_other)
  qed
  have each: "keeps (reaches R d0) (\<lambda>w. \<forall>f \<in> set fs. current f w) (for_each ?one fs) (\<lambda>_ _. True)"
    if "distinct (map f_id fs)" "list_all live fs" for fs
    using that
  proof (induction fs)
    case Nil
    then show ?case by (auto intro: keeps_ret_post)
  next
    case (Cons f fs)
    then show ?case unfolding for_each.simps
      by (intro keeps_bind [OF keeps_pre [OF one [of f fs]]]) (auto simp: image_iff)
  qed
  show ?thesis unfolding revoke_port_forwards_def Let_def
  proof (rule keeps_bind [OF keeps_query], rule keeps_bind)
    fix rows
    show "keeps (reaches R d0) (\<lambda>w. rows = filter (\<lambda>f. f_status f \<in> set non_terminal_statuses \<and> in_revoke_scope (w_db w) sc f)
        (t_forwards (w_db w)) \<and> keyed (w_db w)) (for_each ?one rows) (\<lambda>_ _. True)"
    proof (cases "distinct (map f_id rows) \<and> list_all live rows")
      case True
      then show ?thesis by (intro keeps_pre [OF each]) (auto simp: current_def)
    next
      case False
      then show ?thesis by (intro keeps_pre [OF keeps_False]) (auto simp: keyed_def distinct_map_filter list_all_iff live_def)
    qed
  qed (rule keeps_any_ret)
qed

end

interpretation life: forward_writes "table_steps_in cfg A" for cfg A
  by unfold_locales (auto simp: table_steps_in_def intro: table_step.Audit table_step.Update ends_row_life)

interpretation ending: forward_writes ending_step
  by unfold_locales (auto intro: ending_step.intros)

section \<open>The operations\<close>

lemma keeps_generation:
  "keeps (reaches (table_steps_in cfg A) d0) P (require_node_generation n i g)
     (\<lambda>f w. f_generation f = g \<and> f_status f = F_active \<and> current f w)"
  unfolding require_node_generation_def by (rule keeps_row, erule keeps_found) (intro life.steps keeps_ret_post; simp)

lemma keeps_replay:
  "keeps (reaches (table_steps_in cfg A) d0) (current f) (replay_create cfg now raw q device_id digest f) (\<lambda>_ _. True)"
  unfolding replay_create_def
  by (intro life.steps life.step_ensure life.step_authorization keeps_ret_post; simp)

lemma keeps_admit:
  assumes "\<And>w. P w \<Longrightarrow> \<exists>n. get_node (w_db w) (f_node_id f) = Some n \<and> n_status n \<in> set active_node_statuses \<and>
      port_allowed (node_policy cfg n) (f_remote_port f) \<and> within_quotas (node_policy cfg n) (w_db w) f \<and>
      f_expires f \<le> f_created f + seconds (p_max_ttl (node_policy cfg n))"
    and "unconnected f" "f_id f \<in> A"
  shows "keeps (reaches (table_steps_in cfg A) d0) P (add_forward f) (\<lambda>_. current f)"
proof (rule keepsI)
  fix w w' r assume a: "reaches (table_steps_in cfg A) d0 w" "P w" "add_forward f w = (w', r)"
  show "reaches (table_steps_in cfg A) d0 w' \<and> (\<forall>x. r = Inr x \<longrightarrow> current f w')"
  proof (cases "row_admissible f (w_db w)")
    case True
    have "table_step cfg (w_db w) ((w_db w)\<lparr>t_forwards := t_forwards (w_db w) @ [f]\<rparr>)"
      using assms(1) [OF a(2)] assms(2) True by (blast intro: Admit)
    then have "table_steps_in cfg A (w_db w) ((w_db w)\<lparr>t_forwards := t_forwards (w_db w) @ [f]\<rparr>)"
      using assms(3) by (auto simp: table_steps_in_def row_ids_def)
    from rtranclp.rtrancl_into_rtrancl [where r = "table_steps_in cfg A", OF _ this] a True show ?thesis
      by (auto simp: add_forward_def add_forward_db_def reaches_def current_def)
  next
    case False
    with a show ?thesis by (auto simp: add_forward_def add_forward_db_def)
  qed
qed

lemma keeps_create_new:
  assumes "i \<in> A"
  shows "keeps (reaches (table_steps_in cfg A) d0) (\<lambda>_. True) (create_new cfg now i raw q device_id digest) (\<lambda>_ _. True)"
  unfolding create_new_def Let_def using assms
  by (intro life.steps keeps_bind [OF keeps_admit [where A = A]] keeps_ret_post)
    (simp_all add: new_forward_def unconnected_def within_quotas_def seconds_def)

lemma keeps_create:
  assumes "i \<in> A"
  shows "keeps (reaches (table_steps_in cfg A) d0) (\<lambda>_. True) (fw_create cfg now i raw q) (\<lambda>_ _. True)"
  unfolding fw_create_def
  by (intro keeps_bind [OF keeps_device] keeps_bind [OF keeps_lift] keeps_bind [OF keeps_query] keeps_option
      keeps_pre [OF keeps_replay] keeps_pre [OF keeps_create_new [OF assms]])
    (auto simp: current_def dest: get_by_caller_row split: option.splits)

lemma counters_simps [simp]:
  "f_id (apply_counters f c) = f_id f" "f_status (apply_counters f c) = f_status f" "f_lease (apply_counters f c) = f_lease f"
  "f_generation (apply_counters f c) = f_generation f" "f_expires (apply_counters f c) = f_expires f"
  "f_ssh_key_id (apply_counters f c) = f_ssh_key_id f" "f_user_id (apply_counters f c) = f_user_id f"
  "f_device_id (apply_counters f c) = f_device_id f" "f_session_id (apply_counters f c) = f_session_id f"
  "f_node_id (apply_counters f c) = f_node_id f" "f_stopped (apply_counters f c) = f_stopped f"
  "f_reason (apply_counters f c) = f_reason f" "f_remote_port (apply_counters f c) = f_remote_port f"
  "f_local_port (apply_counters f c) = f_local_port f"
  "f_caller_request (apply_counters f c) = f_caller_request f" "f_caller_digest (apply_counters f c) = f_caller_digest f"
  by (simp_all add: apply_counters_def Let_def)

lemma keeps_redeem:
  "keeps (reaches (table_steps_in cfg A) d0) (\<lambda>_. True) (fw_redeem cfg now n i device_id ssh_key_id raw) (\<lambda>_ _. True)"
proof -
  let ?bound = "\<lambda>f. if f_ssh_key_id f = None then f\<lparr>f_ssh_key_id := Some ssh_key_id\<rparr> else f"
  have bind: "keeps (reaches (table_steps_in cfg A) d0) (current f) (if f_ssh_key_id f = None then put_forward (?bound f) else ret ())
      (\<lambda>_. current (?bound f))" if "live f" for f
    using that by (auto intro!: keeps_put Bind_key keeps_ret_post)
  have connect: "life_step f (f\<lparr>f_generation := f_generation f + 1, f_gen_up := 0, f_gen_down := 0,
      f_gen_connections := 0, f_status := F_active, f_last_connected := Some now, f_lease := Some l\<rparr>)"
    if "live f" "now < f_expires f" "f_ssh_key_id f \<noteq> None" for f l
    using that by (rule Connect)
  show ?thesis unfolding fw_redeem_def Let_def
    by (rule keeps_row, erule keeps_found) 
      (intro life.steps life.step_ensure keeps_bind [OF keeps_pre [OF bind]] life.step_authorization
        keeps_bind [OF keeps_put [OF connect]] keeps_ret_post; simp)
qed

lemma keeps_renew: "keeps (reaches (table_steps_in cfg A) d0) (\<lambda>_. True) (fw_renew cfg now n i g c) (\<lambda>_ _. True)"
proof -
  have renew: "life_step f ((apply_counters f c)\<lparr>f_lease := Some l\<rparr>)" if "f_status f = F_active" "now < f_expires f" for f l
    using that by (rule Renew)
  show ?thesis unfolding fw_renew_def Let_def
    by (rule keeps_bind [OF keeps_generation])
      (intro life.steps life.step_authorization keeps_bind [OF keeps_put [OF renew]] keeps_ret_post; simp)
qed

lemma keeps_release: "keeps (reaches (table_steps_in cfg A) d0) (\<lambda>_. True) (fw_release n i g c) (\<lambda>_ _. True)"
  unfolding fw_release_def Let_def
  by (rule keeps_bind [OF keeps_generation])
    (intro life.steps keeps_bind [OF keeps_put] keeps_ret_post; auto intro: Release)

section \<open>Reconciliation\<close>

lemma get_forward_put:
  "get_forward d i = Some f \<Longrightarrow> f_id f' = f_id f \<Longrightarrow> get_forward (put_forward_db f' d) i = Some f'"
proof -
  assume a: "get_forward d i = Some f" "f_id f' = f_id f"
  have "List.find (\<lambda>f. f_id f = i) fs = Some f \<Longrightarrow>
      List.find (\<lambda>f. f_id f = i) (map (\<lambda>g. if f_id g = f_id f' then f' else g) fs) = Some f'" for fs
    using a(2) by (induction fs) (auto simp: find_Some_iff split: if_splits)
  with a(1) show ?thesis by (simp add: get_forward_def put_forward_db_def)
qed

lemma get_forward_put_other: "f_id f' \<noteq> i \<Longrightarrow> get_forward (put_forward_db f' d) i = get_forward d i"
proof -
  assume a: "f_id f' \<noteq> i"
  have "List.find (\<lambda>f. f_id f = i) (map (\<lambda>g. if f_id g = f_id f' then f' else g) fs) = List.find (\<lambda>f. f_id f = i) fs" for fs
    using a by (induction fs) auto
  then show ?thesis by (simp add: get_forward_def put_forward_db_def)
qed

lemma get_forward_keyed: "keyed d \<Longrightarrow> f \<in> set (t_forwards d) \<Longrightarrow> get_forward d (f_id f) = Some f"
proof -
  have "distinct (map f_id fs) \<Longrightarrow> f \<in> set fs \<Longrightarrow> List.find (\<lambda>g. f_id g = f_id f) fs = Some f" for fs
    by (induction fs) (auto simp: image_iff)
  then show "keyed d \<Longrightarrow> f \<in> set (t_forwards d) \<Longrightarrow> get_forward d (f_id f) = Some f"
    by (simp add: keyed_def get_forward_def)
qed

lemma get_forward_audits [simp]: "get_forward (d\<lparr>t_audits := as\<rparr>) i = get_forward d i"
  by (simp add: get_forward_def)

definition authorizable :: "settings \<Rightarrow> forward \<Rightarrow> db \<Rightarrow> bool" where
  "authorizable cfg f d \<longleftrightarrow> (\<exists>s p. authorized cfg f s p d)"

text \<open>A changed row, saved.\<close>

definition stored :: "forward \<Rightarrow> audit_row \<Rightarrow> db \<Rightarrow> db" where
  "stored f a d = (put_forward_db f d)\<lparr>t_audits := t_audits d @ [a]\<rparr>"

definition store_row :: "forward \<Rightarrow> audit_row \<Rightarrow> world \<Rightarrow> world" where
  "store_row f a w = w\<lparr>w_db := stored f a (w_db w), w_saved := stored f a (w_db w)\<rparr>"

lemma t_audits_put [simp]: "t_audits (put_forward_db f d) = t_audits d"
  by (simp add: put_forward_db_def)

definition revoked_as :: "time \<Rightarrow> string \<Rightarrow> forward \<Rightarrow> forward" where
  "revoked_as now reason f = f\<lparr>f_status := F_revoked, f_stopped := Some now, f_reason := Some reason, f_lease := None\<rparr>"

lemma revoke_result: "\<exists>a. revoke now f reason w = (store_row (revoked_as now reason f) a w, Inr ())"
  by (auto simp: revoke_def act_bind_def put_forward_def audit_def commit_def store_row_def stored_def revoked_as_def Let_def)

lemma revoke_error_result:
  "\<exists>a. revoke_error now f reason code n w = (store_row (revoked_as now reason f) a w, Inl (ApiError code n))"
  using revoke_result [of now f reason w] by (auto simp: revoke_error_def act_bind_def api_error_def throw_def)

lemma ensure_result:
  "ensure_non_terminal now f w = (if live f \<and> now < f_expires f then (w, Inr ()) else ensure_non_terminal now f w)"
  "live f \<Longrightarrow> f_expires f \<le> now \<Longrightarrow> \<exists>f' a. expire_if_needed now f = Some f' \<and>
     ensure_non_terminal now f w = (store_row f' a w, Inl (ApiError ''AUTH_EXPIRED'' 410))"
  by (auto simp: ensure_non_terminal_def expire_if_needed_def live_def check_def ret_def act_bind_def put_forward_def
      audit_def commit_def api_error_def throw_def store_row_def stored_def)

lemma authorization_result:
  assumes "live f" "now < f_expires f"
  obtains (granted) s p where "authorized cfg f s p (w_db w)" "require_runtime_authorization cfg now f w = (w, Inr (s, p))"
  | (changed) code n where "\<not> authorizable cfg f (w_db w)" "code \<in> set changed_codes"
      "require_runtime_authorization cfg now f w = (w, Inl (ApiError code n))"
  | (revoked) reason a code n where "\<not> authorizable cfg f (w_db w)"
      "require_runtime_authorization cfg now f w = (store_row (revoked_as now reason f) a w, Inl (ApiError code n))"
proof -
  have e: "ensure_non_terminal now f w = (w, Inr ())" using ensure_result(1) [of now f w] assms by simp
  let ?d = "w_db w"
  let ?key = "case f_ssh_key_id f of Some k \<Rightarrow> get_active_ssh_key ?d (f_device_id f) k
      | None \<Rightarrow> first_active_ssh_key ?d (f_device_id f)"
  note run = require_runtime_authorization_def act_bind_def query_def e
  have rev: thesis if "\<not> authorizable cfg f ?d" "require_runtime_authorization cfg now f w = revoke_error now f reason code n w"
    for reason code n
    using revoke_error_result [of now f reason code n w] that revoked by auto
  show thesis
  proof (cases "get_active_user ?d (f_user_id f) = None \<or> get_active_device ?d (f_user_id f) (f_device_id f) = None \<or> ?key = None")
    case True
    then have "\<not> authorizable cfg f ?d" by (auto simp: authorizable_def authorized_def)
    then show thesis using True by (cases "get_active_user ?d (f_user_id f) = None") (auto intro: rev simp: run)
  next
    case False
    note f = False
    show thesis
    proof (cases "get_session ?d (f_session_id f)")
      case None
      then have "\<not> authorizable cfg f ?d" by (auto simp: authorizable_def authorized_def)
      then show thesis using f None by (auto intro: rev simp: run)
    next
      case (Some s)
      show thesis
      proof (cases "session_running s \<and> get_active_tool_account ?d (s_tool_account_id s) \<noteq> None")
        case False
        with Some have "\<not> authorizable cfg f ?d" by (auto simp: authorizable_def authorized_def)
        then show thesis using f Some False by (cases "session_running s") (auto intro: rev simp: run)
      next
        case True
        note ok = f Some True
        have tail: "require_runtime_authorization cfg now f w =
          act_bind (require_node (f_node_id f)) (\<lambda>n. act_bind (require_capability n s) (\<lambda>_.
            act_bind (validate_remote_port (node_policy cfg n) (f_remote_port f)) (\<lambda>_. ret (s, node_policy cfg n)))) w"
          using ok by (auto simp: require_runtime_authorization_def act_bind_def [of "ensure_non_terminal now f"]
              act_bind_def [of "query q" for q] query_def e)
        have "gate w (act_bind (require_node (f_node_id f)) (\<lambda>n. act_bind (require_capability n s) (\<lambda>_.
            act_bind (validate_remote_port (node_policy cfg n) (f_remote_port f)) (\<lambda>_. ret (s, node_policy cfg n)))))
          (\<lambda>(s', p). authorized cfg f s' p ?d)"
          using ok by (intro gate_bind [OF gate_node] gate_bind [OF gate_capability] gate_bind [OF gate_port] gate_ret)
            (auto simp: authorized_def)
        then show thesis unfolding gate_def tail [symmetric]
          by (auto intro: granted changed simp: authorizable_def)
      qed
    qed
  qed
qed

definition lapsed :: "time \<Rightarrow> forward \<Rightarrow> bool" where
  "lapsed now f \<longleftrightarrow> f_status f = F_active \<and> (case f_lease f of None \<Rightarrow> False | Some l \<Rightarrow> l \<le> now)"

definition settled :: "settings \<Rightarrow> time \<Rightarrow> db \<Rightarrow> forward \<Rightarrow> bool" where
  "settled cfg now d f \<longleftrightarrow> live f \<longrightarrow> now < f_expires f \<and> authorizable cfg f d \<and> \<not> lapsed now f"

lemma not_live [simp]:
  "f_status f = F_revoked \<Longrightarrow> \<not> live f" "f_status f = F_expired \<Longrightarrow> \<not> live f" "f_status f = F_stopped \<Longrightarrow> \<not> live f"
  by (simp_all add: live_def non_terminal_statuses_def)

lemma revoked_as_simps [simp]: "f_id (revoked_as now reason f) = f_id f" "f_status (revoked_as now reason f) = F_revoked"
  by (simp_all add: revoked_as_def)

lemma revoked_life: "live f \<Longrightarrow> life_step f (revoked_as now reason f)"
  unfolding revoked_as_def by (rule life_end) auto

lemma authorized_status [simp]:
  "authorized cfg (f\<lparr>f_status := x, f_lease := l\<rparr>) s p d = authorized cfg f s p d"
  "authorizable cfg (f\<lparr>f_status := x, f_lease := l\<rparr>) d = authorizable cfg f d"
  by (simp_all add: authorized_def authorizable_def cong: option.case_cong)

lemma get_forward_store [simp]: "get_forward (w_db (store_row f a w)) i = get_forward (put_forward_db f (w_db w)) i"
  by (simp add: store_row_def stored_def)

lemma cleanup_one_result:
  assumes f: "get_forward (w_db w) i = Some f"
  obtains (kept) "cleanup_one cfg now i w = (w, Inr 0)" "settled cfg now (w_db w) f"
  | (moved) f' a where "cleanup_one cfg now i w = (store_row f' a w, Inr 1)" "life_step f f'" "settled cfg now (w_db w) f'"
proof (cases "live f")
  case False
  with f have "cleanup_one cfg now i w = (w, Inr 0)" by (simp add: cleanup_one_def live_def)
  with False show thesis by (intro kept) (simp_all add: settled_def)
next
  case True
  show thesis
  proof (cases "now < f_expires f")
    case False
    with ensure_result(2) [OF True, of now w] obtain f' a where e: "expire_if_needed now f = Some f'"
      "ensure_non_terminal now f w = (store_row f' a w, Inl (ApiError ''AUTH_EXPIRED'' 410))" by auto
    then have "f_status f' = F_expired" by (auto simp: expire_if_needed_def split: if_splits)
    then show thesis using f True e
      by (intro moved [of f' a]) (auto simp: cleanup_one_def live_def settled_def expire_life non_terminal_statuses_def)
  next
    case ttl: True
    have e: "ensure_non_terminal now f w = (w, Inr ())" using ensure_result(1) [of now f w] True ttl by simp
    note run = cleanup_one_def live_def e f
    from True ttl show thesis
    proof (cases rule: authorization_result [of f now cfg w])
      case (granted s p)
      show thesis
      proof (cases "lapsed now f")
        case l: False
        have "cleanup_one cfg now i w = (w, Inr 0)" using granted l True by (auto simp: run lapsed_def)
        then show thesis using granted ttl l by (intro kept) (auto simp: settled_def authorizable_def)
      next
        case l: True
        let ?f = "f\<lparr>f_status := F_disconnected, f_lease := None\<rparr>"
        have step: "life_step f ?f" using l by (auto simp: lapsed_def intro: Lapse split: option.splits)
        have "\<exists>a. cleanup_one cfg now i w = (store_row ?f a w, Inr 1)"
          using granted l True by (auto simp: run lapsed_def act_bind_def put_forward_def audit_def commit_def ret_def store_row_def stored_def Let_def)
        then obtain a where c: "cleanup_one cfg now i w = (store_row ?f a w, Inr 1)" by blast
        show thesis using granted ttl by (intro moved [OF c step]) (auto simp: settled_def authorizable_def lapsed_def)
      qed
    next
      case (changed code n)
      have l: "f_status f \<noteq> F_revoked" using True by auto
      obtain a where "revoke now f ''authorization_changed'' w = (store_row (revoked_as now ''authorization_changed'' f) a w, Inr ())"
        using revoke_result by blast
      then have "cleanup_one cfg now i w = (store_row (revoked_as now ''authorization_changed'' f) a w, Inr 1)"
        using changed True l by (auto simp: run act_bind_def ret_def)
      then show thesis using revoked_life [OF True] by (intro moved) (auto simp: settled_def)
    next
      case (revoked reason a code n)
      have "get_forward (w_db (store_row (revoked_as now reason f) a w)) i = Some (revoked_as now reason f)"
        using get_forward_put [OF f] by simp
      then have "cleanup_one cfg now i w = (store_row (revoked_as now reason f) a w, Inr 1)"
        using revoked True by (auto simp: run)
      then show thesis using revoked_life [OF True] by (intro moved) (auto simp: settled_def)
    qed
  qed
qed

lemma stored_run:
  assumes "(table_steps_in cfg A)\<^sup>*\<^sup>* d0 d" "f \<in> set (t_forwards d)" "life_step f f'"
  shows "(table_steps_in cfg A)\<^sup>*\<^sup>* d0 (stored f' a d)"
proof -
  have "table_steps_in cfg A d (put_forward_db f' d)" "table_steps_in cfg A (put_forward_db f' d) (stored f' a d)"
    using table_step.Update [OF assms(2,3), of cfg] table_step.Audit [of cfg "put_forward_db f' d" a]
    by (simp_all add: table_steps_in_def stored_def)
  from rtranclp.rtrancl_into_rtrancl [OF rtranclp.rtrancl_into_rtrancl [OF assms(1) this(1)] this(2)] show ?thesis .
qed

lemma keeps_cleanup_one:
  "keeps (reaches (table_steps_in cfg A) d0) (\<lambda>_. True) (cleanup_one cfg now i) (\<lambda>_ _. True)"
proof (rule keepsI)
  fix w w' r assume a: "reaches (table_steps_in cfg A) d0 w" "cleanup_one cfg now i w = (w', r)"
  show "reaches (table_steps_in cfg A) d0 w' \<and> (\<forall>x. r = Inr x \<longrightarrow> True)"
  proof (cases "get_forward (w_db w) i")
    case None
    with a show ?thesis by (auto simp: cleanup_one_def)
  next
    case (Some f)
    then show ?thesis
    proof (cases rule: cleanup_one_result [of w i f cfg now])
      case kept
      with a show ?thesis by simp
    next
      case (moved f' a)
      with a(2) have w': "w' = store_row f' a w" by simp
      have "(table_steps_in cfg A)\<^sup>*\<^sup>* d0 (stored f' a (w_db w))"
        using a(1) get_forward_row [OF Some] moved(2) by (intro stored_run [of cfg A d0 _ f]) (auto simp: reaches_def)
      then show ?thesis by (simp add: w' store_row_def reaches_def)
    qed
  qed
qed

lemma keeps_cleanup_each: "keeps (reaches (table_steps_in cfg A) d0) (\<lambda>_. True) (cleanup_each cfg now is) (\<lambda>_ _. True)"
  by (induction "is") (auto intro!: keeps_bind [OF keeps_cleanup_one] keeps_bind keeps_ret_post)

lemma keeps_cleanup: "keeps (reaches (table_steps_in cfg A) d0) (\<lambda>_. True) (fw_cleanup cfg now limit after) (\<lambda>_ _. True)"
  unfolding fw_cleanup_def
  by (intro life.steps keeps_bind [OF keeps_pre [OF keeps_cleanup_each]] keeps_ret_post; simp)

section \<open>Requests\<close>

datatype request =
    Create time uuid pystr create_request
  | List_forwards time user_row bool
  | Get time user_row uuid
  | Connect_token time pystr user_row auth_token uuid
  | Stop time user_row uuid
  | Redeem time node_row uuid uuid uuid pystr
  | Renew_lease time node_row uuid int counters
  | Release_lease node_row uuid int counters
  | Cleanup time nat "uuid option"

fun fw_serve :: "settings \<Rightarrow> request \<Rightarrow> unit act" where
  "fw_serve cfg (Create now i raw q) = discard (fw_create cfg now i raw q)"
| "fw_serve cfg (List_forwards now user all_users) = discard (fw_list now user all_users)"
| "fw_serve cfg (Get now user i) = discard (fw_get now user i)"
| "fw_serve cfg (Connect_token now raw user t i) = discard (fw_issue_connection cfg now raw user t i)"
| "fw_serve cfg (Stop now user i) = discard (fw_stop now user i)"
| "fw_serve cfg (Redeem now n i device_id ssh_key_id raw) = discard (fw_redeem cfg now n i device_id ssh_key_id raw)"
| "fw_serve cfg (Renew_lease now n i g c) = discard (fw_renew cfg now n i g c)"
| "fw_serve cfg (Release_lease n i g c) = discard (fw_release n i g c)"
| "fw_serve cfg (Cleanup now limit after) = discard (fw_cleanup cfg now limit after)"

text \<open>The id that a request draws for a new row.\<close>

fun drawn :: "request \<Rightarrow> uuid set" where
  "drawn (Create now i raw q) = {i}"
| "drawn _ = {}"

text \<open>The requests that read rows without a lock.\<close>

fun reads_unlocked :: "request \<Rightarrow> bool" where
  "reads_unlocked (List_forwards now user all_users) = True"
| "reads_unlocked (Get now user i) = True"
| "reads_unlocked (Connect_token now raw user t i) = True"
| "reads_unlocked (Stop now user i) = True"
| "reads_unlocked _ = False"

lemma keeps_serve:
  "keeps (reaches (table_steps_in cfg (drawn q)) d0) (\<lambda>w. keyed (w_db w)) (fw_serve cfg q) (\<lambda>_ _. True)"
  by (cases q)
    (auto intro!: keeps_discard life.keeps_list keeps_pre [OF keeps_create] keeps_pre [OF life.keeps_get]
      keeps_pre [OF life.keeps_connect] keeps_pre [OF life.keeps_stop] keeps_pre [OF keeps_redeem]
      keeps_pre [OF keeps_renew] keeps_pre [OF keeps_release] keeps_pre [OF keeps_cleanup])

lemma keeps_serve_unlocked:
  "reads_unlocked q \<Longrightarrow> keeps (reaches ending_step d0) (\<lambda>w. keyed (w_db w)) (fw_serve cfg q) (\<lambda>_ _. True)"
  by (cases q)
    (auto intro!: keeps_discard ending.keeps_list keeps_pre [OF ending.keeps_get]
      keeps_pre [OF ending.keeps_connect] keeps_pre [OF ending.keeps_stop])

definition after :: "settings \<Rightarrow> world \<Rightarrow> request \<Rightarrow> world" where
  "after cfg w q = fst (run_request (fw_serve cfg q) w)"

text \<open>What a request leaves is reached by the steps that its triple allows.\<close>

lemma reaches_run:
  assumes "keeps (reaches R (w_saved w)) (\<lambda>w. keyed (w_db w)) m (\<lambda>_ _. True)" "keyed (w_saved w)"
  shows "R\<^sup>*\<^sup>* (w_saved w) (w_saved (fst (run_request m w)))"
proof -
  obtain w' r where m: "m (w\<lparr>w_db := w_saved w\<rparr>) = (w', r)" by fastforce
  have "reaches R (w_saved w) w'" using keepsD [OF assms(1) _ _ m] assms(2) by (simp add: reaches_def)
  then show ?thesis by (simp add: run_request_def m reaches_def)
qed

lemma serve_run_in:
  assumes "keyed (w_saved w)"
  shows "(table_steps_in cfg (drawn q))\<^sup>*\<^sup>* (w_saved w) (w_saved (after cfg w q))"
  unfolding after_def by (rule reaches_run [OF keeps_serve assms])

lemma serve_run:
  assumes "keyed (w_saved w)"
  shows "(table_step cfg)\<^sup>*\<^sup>* (w_saved w) (w_saved (after cfg w q))"
  using serve_run_in [OF assms] by (rule rtranclp_mono [THEN predicate2D, rotated]) (auto simp: table_steps_in_def)

lemma unlocked_run:
  assumes "keyed (w_saved w)" "reads_unlocked q"
  shows "ending_step\<^sup>*\<^sup>* (w_saved w) (w_saved (after cfg w q))"
  unfolding after_def by (rule reaches_run [OF keeps_serve_unlocked [OF assms(2)] assms(1)])

inductive_cases life_stepE: "life_step f f'"
inductive_cases table_stepE: "table_step cfg d d'"

end
