(* ===== verification/Forward_Safety.thy ===== *)
theory Forward_Safety
  imports Forward_Life
begin

text \<open>
  What holds of the forwards in every run: the history of a row, the well-formedness of the rows, the quotas. A
  run interleaves requests, single forwards of a reconciliation batch, the revocations of other services, the
  deletion of what forwards belong to, changes of the other tables and of the token store, and, if \<open>late\<close>,
  writes of requests that read their rows without a lock at an earlier point of the run.
\<close>

section \<open>Runs\<close>

definition after_revocation :: "time \<Rightarrow> string \<Rightarrow> uuid option \<Rightarrow> revoke_scope \<Rightarrow> world \<Rightarrow> world" where
  "after_revocation now reason actor sc w =
     fst (run_request (act_bind (revoke_port_forwards now reason actor sc) (\<lambda>_. commit)) w)"

text \<open>\<open>D\<close>: what is deleted in this run. \<open>U\<close>: ids that are not drawn for a new row in it.\<close>

inductive evolves :: "bool \<Rightarrow> forward_owner list \<Rightarrow> settings \<Rightarrow> uuid set \<Rightarrow> world \<Rightarrow> world \<Rightarrow> bool" for late D cfg where
  Same: "evolves late D cfg U w w"
| Serve: "evolves late D cfg U w w' \<Longrightarrow> drawn q \<inter> U = {} \<Longrightarrow> evolves late D cfg U w (after cfg w' q)"
| Sweep: "evolves late D cfg U w w' \<Longrightarrow> evolves late D cfg U w (fst (run_request (cleanup_one cfg now i) w'))"
| Revoke: "evolves late D cfg U w w' \<Longrightarrow> evolves late D cfg U w (after_revocation now reason actor sc w')"
| Delete: "evolves late D cfg U w w' \<Longrightarrow> owner \<in> set D \<Longrightarrow> d = delete_with_owner owner (w_saved w') \<Longrightarrow>
    evolves late D cfg U w (w'\<lparr>w_db := d, w_saved := d\<rparr>)"
| Others: "evolves late D cfg U w w' \<Longrightarrow> t_forwards d = t_forwards (w_saved w') \<Longrightarrow>
    evolves late D cfg U w (w'\<lparr>w_db := d, w_saved := d, w_tokens := t\<rparr>)"
| Late: "late \<Longrightarrow> evolves late D cfg U w w0 \<Longrightarrow> evolves late D cfg (U \<union> row_ids (w_saved w0)) w0 w' \<Longrightarrow> reads_unlocked q \<Longrightarrow>
    d = flush_forwards (w_saved w0) (w_saved (after cfg w0 q)) (w_saved w') \<Longrightarrow>
    evolves late D cfg U w (w'\<lparr>w_db := d, w_saved := d\<rparr>)"

lemma flush_ids [simp]: "map f_id (t_forwards (flush_forwards base work d)) = map f_id (t_forwards d)"
  by (auto simp: flush_forwards_def flush_row_def split: option.splits)

lemma keyed_simps:
  "keyed d \<Longrightarrow> keyed (delete_with_owner owner d)" "keyed d \<Longrightarrow> keyed (flush_forwards base work d)"
  by (simp_all add: keyed_def delete_with_owner_def distinct_map_filter)

text \<open>
  A relation on tables that every step of the machine keeps, that only looks at the forwards, and that survives
  deletions and late writes, holds of runs.
\<close>

lemma evolves_rule:
  assumes "evolves late D cfg U w w'" "keyed (w_saved w)"
    and refl: "\<And>U d. R U d d" and trans: "\<And>U d d' d''. R U d d' \<Longrightarrow> R U d' d'' \<Longrightarrow> R U d d''"
    and step: "\<And>U d d'. keyed d \<Longrightarrow> table_step cfg d d' \<Longrightarrow> row_ids d' \<inter> U \<subseteq> row_ids d \<Longrightarrow> R U d d'"
    and eq: "\<And>U d d'. t_forwards d' = t_forwards d \<Longrightarrow> R U d d'"
    and delete: "\<And>U owner d. keyed d \<Longrightarrow> owner \<in> set D \<Longrightarrow> R U d (delete_with_owner owner d)"
    and flush: "\<And>U d base work d'. late \<Longrightarrow> keyed d \<Longrightarrow> keyed base \<Longrightarrow> keyed d' \<Longrightarrow> ending_step\<^sup>*\<^sup>* base work \<Longrightarrow>
      R U d base \<Longrightarrow> R (U \<union> row_ids base) base d' \<Longrightarrow> R U d (flush_forwards base work d')"
  shows "keyed (w_saved w') \<and> R U (w_saved w) (w_saved w')"
proof -
  have run: "keyed d' \<and> R U d d'" if "(table_steps_in cfg A)\<^sup>*\<^sup>* d d'" "keyed d" "A \<inter> U = {}" for d d' A U
    using that(1,2)
  proof (induction rule: rtranclp_induct)
    case base
    then show ?case using refl by blast
  next
    case (step d1 d2)
    then have s: "table_step cfg d1 d2" "row_ids d2 \<inter> U \<subseteq> row_ids d1" using that(3) by (auto simp: table_steps_in_def)
    then show ?case using step assms(5) [OF _ s] trans table_step_keyed by blast
  qed
  show ?thesis using assms(1,2)
  proof (induction rule: evolves.induct)
    case (Same U w)
    then show ?case using refl by blast
  next
    case (Serve U w w' q)
    then show ?case using run [OF serve_run_in] trans by blast
  next
    case (Sweep U w w' now i)
    have "(table_steps_in cfg {})\<^sup>*\<^sup>* (w_saved w') (w_saved (fst (run_request (cleanup_one cfg now i) w')))"
      using Sweep by (intro reaches_run [OF keeps_pre [OF keeps_cleanup_one]]) auto
    then show ?case using Sweep run [of "{}"] trans by blast
  next
    case (Revoke U w w' now reason actor sc)
    have "(table_steps_in cfg {})\<^sup>*\<^sup>* (w_saved w') (w_saved (after_revocation now reason actor sc w'))"
      unfolding after_revocation_def using Revoke
      by (intro reaches_run keeps_bind [OF life.keeps_revocation] life.keeps_commit) auto
    then show ?case using Revoke run [of "{}"] trans by blast
  next
    case (Delete U w w' owner d)
    then have "R U (w_saved w') d" "keyed d" using delete keyed_simps by auto
    then show ?case using Delete trans by auto
  next
    case (Others U w w' d t)
    have "R U (w_saved w') d" "keyed d" using eq [OF Others.hyps(2)] Others by (auto simp: keyed_def)
    then show ?case using Others trans by auto
  next
    case (Late U w w0 w' q d)
    then have k: "keyed (w_saved w0)" "R U (w_saved w) (w_saved w0)" "keyed (w_saved w')"
      "R (U \<union> row_ids (w_saved w0)) (w_saved w0) (w_saved w')" by blast+
    from flush [OF Late(1) Late.prems k(1,3) unlocked_run [OF k(1) Late(4)] k(2,4)] k(3) keyed_simps(2) Late(5)
    show ?case by simp
  qed
qed

text \<open>What a late write makes of a row: it is ended, whatever it is by now.\<close>

lemma ending_rows:
  assumes "ending_step\<^sup>*\<^sup>* d d'" "keyed d"
  shows "get_forward d' i = get_forward d i \<or>
    (\<exists>f f'. get_forward d i = Some f \<and> get_forward d' i = Some f' \<and> ends_row f f')"
  using assms(1)
proof (induction rule: rtranclp_induct)
  case base
  then show ?case by simp
next
  case (step d1 d2)
  have k: "keyed d1"
  proof -
    have "ending_step a b \<Longrightarrow> keyed a \<Longrightarrow> keyed b" for a b by (cases rule: ending_step.cases, assumption) (auto simp: keyed_def put_ids)
    with step(1) assms(2) show ?thesis by (induction rule: rtranclp_induct) auto
  qed
  from step(2) show ?case
  proof cases
    case (End_row h h')
    show ?thesis
    proof (cases "f_id h = i")
      case True
      with k End_row have h: "get_forward d1 i = Some h" by (auto simp: get_forward_keyed)
      have "live h" using End_row by (simp add: ends_row_def)
      then have "\<not> (\<exists>f. ends_row f h)" by (auto simp: ends_row_def live_def non_terminal_statuses_def)
      with step.IH h have "get_forward d i = Some h" by auto
      moreover have "get_forward d2 i = Some h'" using get_forward_put [OF h] End_row ends_row_id by simp
      ultimately show ?thesis using End_row by blast
    next
      case False
      then have "get_forward d2 i = get_forward d1 i" using End_row ends_row_id by (simp add: get_forward_put_other)
      with step.IH show ?thesis by simp
    qed
  next
    case (Trail a)
    with step.IH show ?thesis by simp
  qed
qed

definition flushed :: "db \<Rightarrow> db \<Rightarrow> forward \<Rightarrow> forward" where
  "flushed base work h = (case (get_forward base (f_id h), get_forward work (f_id h)) of
     (Some f, Some f') \<Rightarrow> flush_row f f' h | _ \<Rightarrow> h)"

lemma flush_row_same: "flush_row f f h = h"
  by (simp add: flush_row_def flush_column_def)

lemma flushed_row:
  assumes "ending_step\<^sup>*\<^sup>* base work" "keyed base"
  shows "flushed base work h = h \<or>
    (\<exists>f f'. get_forward base (f_id h) = Some f \<and> ends_row f f' \<and> flushed base work h = flush_row f f' h)"
  using ending_rows [OF assms, of "f_id h"] by (auto simp: flushed_def flush_row_same split: option.splits)

lemma flush_forwards_rows:
  "t_forwards (flush_forwards base work d) = t_forwards d \<or>
   t_forwards (flush_forwards base work d) = map (flushed base work) (t_forwards d)"
  by (auto simp: flush_forwards_def flushed_def)

lemma flush_ended:
  assumes "ends_row f f'"
  obtains s t r l where "flush_row f f' h = h\<lparr>f_status := s, f_stopped := t, f_reason := r, f_lease := l\<rparr>"
    "s = F_stopped \<or> s = F_revoked \<or> s = F_expired" "s = F_expired \<Longrightarrow> f_stopped f = None \<Longrightarrow> \<exists>now. t = Some now \<and> f_expires f \<le> now"
    "f_stopped f = None \<Longrightarrow> t \<noteq> None" "f_reason f = None \<Longrightarrow> r \<noteq> None"
proof -
  obtain s now reason where e: "live f" "s = F_stopped \<or> s = F_revoked \<or> s = F_expired \<and> f_expires f \<le> now"
    "f' = f\<lparr>f_status := s, f_stopped := Some now, f_reason := Some reason, f_lease := None\<rparr>"
    using assms by (auto simp: ends_row_def)
  have "s \<noteq> f_status f" using e(1,2) by (auto simp: live_def non_terminal_statuses_def)
  then have "flush_row f f' h = h\<lparr>f_status := s, f_stopped := flush_column (f_stopped f) (Some now) (f_stopped h),
      f_reason := flush_column (f_reason f) (Some reason) (f_reason h), f_lease := flush_column (f_lease f) None (f_lease h)\<rparr>"
    by (simp add: flush_row_def e(3) flush_column_def)
  then show thesis by (rule that) (use e(2) in \<open>auto simp: flush_column_def\<close>)
qed

section \<open>The history of a row\<close>

text \<open>What a row was created as, and what became of it.\<close>

definition origin where
  "origin f = ((f_id f, f_user_id f, f_device_id f, f_session_id f, f_node_id f, f_remote_port f, f_local_port f),
     (f_client f, f_caller_request f, f_caller_digest f, f_policy f, f_expires f, f_created f))"

definition advances :: "forward \<Rightarrow> forward \<Rightarrow> bool" where
  "advances f g \<longleftrightarrow> f_generation f \<le> f_generation g \<and> f_bytes_up f \<le> f_bytes_up g \<and> f_bytes_down f \<le> f_bytes_down g \<and>
     f_connections f \<le> f_connections g"

definition same_generation :: "forward \<Rightarrow> forward \<Rightarrow> bool" where
  "same_generation f g \<longleftrightarrow> f_gen_up f \<le> f_gen_up g \<and> f_gen_down f \<le> f_gen_down g \<and>
     f_gen_connections f \<le> f_gen_connections g \<and> f_last_connected g = f_last_connected f \<and>
     (f_status g = F_active \<longrightarrow> f_status f = F_active)"

text \<open>The same work, whatever has become of the ending.\<close>

definition same_work :: "forward \<Rightarrow> forward \<Rightarrow> bool" where
  "same_work f g \<longleftrightarrow>
     g\<lparr>f_status := f_status f, f_stopped := f_stopped f, f_reason := f_reason f, f_lease := f_lease f\<rparr> = f"

definition fate :: "bool \<Rightarrow> forward \<Rightarrow> forward \<Rightarrow> bool" where
  "fate late f g \<longleftrightarrow> origin g = origin f \<and> (f_ssh_key_id f = None \<or> f_ssh_key_id g = f_ssh_key_id f) \<and> advances f g \<and>
     (f_generation g = f_generation f \<longrightarrow> same_generation f g) \<and>
     (\<not> live f \<longrightarrow> \<not> live g \<and> same_work f g \<and> (late \<or> g = f)) \<and>
     (f_status g = F_pending \<longrightarrow> f_status f = F_pending)"

lemma same_work_refl: "same_work f f"
  by (simp add: same_work_def)

lemma same_work_trans: "same_work f g \<Longrightarrow> same_work g h \<Longrightarrow> same_work f h"
  by (cases f; cases g; cases h) (simp add: same_work_def)

lemma fate_refl: "fate late f f"
  by (simp add: fate_def advances_def same_generation_def same_work_refl)

lemma advances_trans: "advances f g \<Longrightarrow> advances g h \<Longrightarrow> advances f h"
  by (simp add: advances_def)

lemma same_generation_trans: "same_generation f g \<Longrightarrow> same_generation g h \<Longrightarrow> same_generation f h"
  by (simp add: same_generation_def)

lemma fateD:
  assumes "fate late f g"
  shows "origin g = origin f" "f_ssh_key_id f = None \<or> f_ssh_key_id g = f_ssh_key_id f" "advances f g"
    "f_generation g = f_generation f \<Longrightarrow> same_generation f g"
    "\<not> live f \<Longrightarrow> \<not> live g \<and> same_work f g \<and> (late \<or> g = f)"
    "f_status g = F_pending \<Longrightarrow> f_status f = F_pending"
  using assms unfolding fate_def by blast+

lemma fate_trans:
  assumes a: "fate late f g" and b: "fate late g h"
  shows "fate late f h"
  unfolding fate_def
proof (intro conjI impI)
  show "origin h = origin f" using fateD(1) [OF a] fateD(1) [OF b] by simp
  show "f_ssh_key_id f = None \<or> f_ssh_key_id h = f_ssh_key_id f" using fateD(2) [OF a] fateD(2) [OF b] by auto
  show "advances f h" by (rule advances_trans [OF fateD(3) [OF a] fateD(3) [OF b]])
  show "f_status h = F_pending \<Longrightarrow> f_status f = F_pending" using fateD(6) [OF a] fateD(6) [OF b] by simp
  show "same_generation f h" if "f_generation h = f_generation f"
  proof -
    have "f_generation g = f_generation f" "f_generation h = f_generation g"
      using fateD(3) [OF a] fateD(3) [OF b] that by (auto simp: advances_def)
    from same_generation_trans [OF fateD(4) [OF a this(1)] fateD(4) [OF b this(2)]] show ?thesis .
  qed
  assume f: "\<not> live f"
  note g = fateD(5) [OF a f]
  note h = fateD(5) [OF b conjunct1 [OF g]]
  show "\<not> live h" using h by blast
  show "same_work f h" using g h same_work_trans by blast
  show "late \<or> h = f" using g h by auto
qed

text \<open>A late write ends a row, or ends it again.\<close>

lemma fate_flush:
  assumes "ends_row f f'"
  shows "fate True h (flush_row f f' h)"
  using assms
proof (cases rule: flush_ended [where h = h])
  case (1 s t r l)
  then show ?thesis
    by (auto simp: fate_def advances_def same_generation_def same_work_def origin_def live_def non_terminal_statuses_def)
qed

lemma counters_mono:
  "f_bytes_up f \<le> f_bytes_up (apply_counters f c)" "f_bytes_down f \<le> f_bytes_down (apply_counters f c)"
  "f_connections f \<le> f_connections (apply_counters f c)" "f_gen_up f \<le> f_gen_up (apply_counters f c)"
  "f_gen_down f \<le> f_gen_down (apply_counters f c)" "f_gen_connections f \<le> f_gen_connections (apply_counters f c)"
  "f_last_connected (apply_counters f c) = f_last_connected f" "origin (apply_counters f c) = origin f"
  by (simp_all add: apply_counters_def Let_def origin_def)

lemma origin_simps [simp]:
  "origin (f\<lparr>f_ssh_key_id := k\<rparr>) = origin f" "origin (f\<lparr>f_lease := l\<rparr>) = origin f"
  "origin (f\<lparr>f_status := s\<rparr>) = origin f" "origin (f\<lparr>f_stopped := t\<rparr>) = origin f" "origin (f\<lparr>f_reason := r\<rparr>) = origin f"
  "origin (f\<lparr>f_generation := g\<rparr>) = origin f" "origin (f\<lparr>f_gen_up := g\<rparr>) = origin f" "origin (f\<lparr>f_gen_down := g\<rparr>) = origin f"
  "origin (f\<lparr>f_gen_connections := g\<rparr>) = origin f" "origin (f\<lparr>f_last_connected := t\<rparr>) = origin f"
  by (simp_all add: origin_def)

lemma active_live [simp]: "f_status f = F_active \<Longrightarrow> live f"
  by (simp add: live_def non_terminal_statuses_def)

lemma life_step_fate: "life_step f g \<Longrightarrow> fate late f g"
  by (cases rule: life_step.cases, assumption)
    (auto simp: fate_def advances_def same_generation_def counters_mono)

lemma find_append: "List.find P (xs @ ys) = (case List.find P xs of None \<Rightarrow> List.find P ys | Some x \<Rightarrow> Some x)"
  by (induction xs) auto

text \<open>
  What has become of what was found under an id: nothing comes from nothing, a row goes only with what it
  belongs to, and a row that stays has one of the fates.
\<close>

definition becomes :: "bool \<Rightarrow> forward_owner list \<Rightarrow> forward option \<Rightarrow> forward option \<Rightarrow> bool" where
  "becomes late D x y \<longleftrightarrow>
     (case x of
        None \<Rightarrow> y = None
      | Some f \<Rightarrow> (case y of None \<Rightarrow> list_ex (\<lambda>owner. belongs_to owner f) D | Some g \<Rightarrow> fate late f g))"

lemma becomes_refl: "becomes late D x x"
  by (simp add: becomes_def fate_refl split: option.split)

lemma belongs_origin: "origin g = origin f \<Longrightarrow> belongs_to owner g = belongs_to owner f"
  by (cases owner) (auto simp: origin_def)

lemma becomes_trans:
  assumes "becomes late D x y" "becomes late D y z"
  shows "becomes late D x z"
proof (cases x)
  case None
  with assms show ?thesis by (simp add: becomes_def)
next
  case x: (Some f)
  show ?thesis
  proof (cases y)
    case None
    with x assms show ?thesis by (simp add: becomes_def)
  next
    case y: (Some g)
    with x assms(1) have f: "fate late f g" by (simp add: becomes_def)
    note own = belongs_origin [OF fateD(1) [OF f]]
    show ?thesis
      using x y assms(2) fate_trans [OF f] by (cases z) (simp_all add: becomes_def own)
  qed
qed

definition keeps_rows :: "bool \<Rightarrow> forward_owner list \<Rightarrow> uuid set \<Rightarrow> db \<Rightarrow> db \<Rightarrow> bool" where
  "keeps_rows late D U d d' \<longleftrightarrow> (\<forall>i \<in> U. becomes late D (get_forward d i) (get_forward d' i))"

lemma keeps_rows_refl: "keeps_rows late D U d d"
  by (simp add: keeps_rows_def becomes_refl)

lemma keeps_rows_trans: "keeps_rows late D U d d' \<Longrightarrow> keeps_rows late D U d' d'' \<Longrightarrow> keeps_rows late D U d d''"
  unfolding keeps_rows_def using becomes_trans by blast

lemma keeps_rows_mono: "keeps_rows late D V d d' \<Longrightarrow> U \<subseteq> V \<Longrightarrow> keeps_rows late D U d d'"
  unfolding keeps_rows_def by blast

lemma keeps_rows_chain:
  "keeps_rows late D U d d' \<Longrightarrow> keeps_rows late D (U \<union> V) d' d'' \<Longrightarrow> keeps_rows late D U d d''"
  by (rule keeps_rows_trans, assumption, erule keeps_rows_mono) simp

lemma keeps_rows_eq: "t_forwards d' = t_forwards d \<Longrightarrow> keeps_rows late D U d d'"
  by (simp add: keeps_rows_def get_forward_def becomes_refl)

lemma get_forward_ids: "get_forward d i = Some f \<Longrightarrow> i \<in> row_ids d"
  using get_forward_row by (auto simp: row_ids_def)

lemma get_forward_None: "get_forward d i = None \<longleftrightarrow> i \<notin> row_ids d"
  by (auto simp: get_forward_def find_None_iff row_ids_def)

lemma table_step_rows:
  assumes "keyed d" "table_step cfg d d'" "row_ids d' \<inter> U \<subseteq> row_ids d"
  shows "keeps_rows late D U d d'"
  unfolding keeps_rows_def
proof
  fix i assume i: "i \<in> U"
  show "becomes late D (get_forward d i) (get_forward d' i)"
  proof (cases "get_forward d i")
    case None
    then have "get_forward d' i = None" using i assms(3) by (auto simp: get_forward_None)
    with None show ?thesis by (simp add: becomes_refl)
  next
    case (Some f)
    from assms(2) show ?thesis
    proof cases
      case (Admit h n)
      then have "get_forward d' i = Some f" using Some by (auto simp: get_forward_def find_append)
      with Some show ?thesis by (simp add: becomes_refl)
    next
      case (Update h h')
      show ?thesis
      proof (cases "f_id h = i")
        case True
        with Update Some get_forward_keyed [OF assms(1)] have "h = f" by auto
        with Update Some get_forward_put [OF Some, of h'] life_step_id life_step_fate show ?thesis by (auto simp: becomes_def)
      next
        case False
        with Update have "get_forward d' i = Some f" using Some life_step_id by (simp add: get_forward_put_other)
        with Some show ?thesis by (simp add: becomes_refl)
      qed
    next
      case (Audit a)
      then show ?thesis by (simp add: becomes_refl)
    qed
  qed
qed

lemma find_filter: "List.find P xs = Some x \<Longrightarrow> Q x \<Longrightarrow> List.find P (filter Q xs) = Some x"
  by (induction xs) (auto split: if_splits)

lemma delete_rows:
  assumes "keyed d" "owner \<in> set D"
  shows "keeps_rows late D U d (delete_with_owner owner d)"
  unfolding keeps_rows_def
proof
  fix i
  show "becomes late D (get_forward d i) (get_forward (delete_with_owner owner d) i)"
  proof (cases "get_forward d i")
    case None
    then have "get_forward (delete_with_owner owner d) i = None"
      by (auto simp: get_forward_None row_ids_def delete_with_owner_def)
    with None show ?thesis by (simp add: becomes_refl)
  next
    case (Some f)
    show ?thesis
    proof (cases "belongs_to owner f")
      case False
      then have "get_forward (delete_with_owner owner d) i = Some f"
        using Some by (simp add: get_forward_def delete_with_owner_def find_filter)
      with Some show ?thesis by (simp add: becomes_refl)
    next
      case True
      have "g = f" if "g \<in> set (t_forwards d)" "f_id g = i" for g
        using get_forward_keyed [OF assms(1) that(1)] that(2) Some by simp
      with True have "get_forward (delete_with_owner owner d) i = None"
        by (auto simp: get_forward_None row_ids_def delete_with_owner_def)
      with Some True assms(2) show ?thesis by (auto simp: becomes_def list_ex_iff)
    qed
  qed
qed

lemma flushed_id: "f_id (flushed base work h) = f_id h"
  by (simp add: flushed_def flush_row_def split: option.splits)

lemma flush_rows:
  assumes "keyed base" "ending_step\<^sup>*\<^sup>* base work"
  shows "keeps_rows True D U d (flush_forwards base work d)"
  using flush_forwards_rows [of base work d]
proof
  assume "t_forwards (flush_forwards base work d) = t_forwards d"
  then show ?thesis by (rule keeps_rows_eq)
next
  assume t: "t_forwards (flush_forwards base work d) = map (flushed base work) (t_forwards d)"
  have find: "List.find (\<lambda>f. f_id f = i) (map (flushed base work) fs) = map_option (flushed base work) (List.find (\<lambda>f. f_id f = i) fs)"
    for i fs by (induction fs) (simp_all add: flushed_id)
  have "fate True h (flushed base work h)" for h
    using flushed_row [OF assms(2,1), of h] fate_flush fate_refl by auto
  then show ?thesis unfolding keeps_rows_def by (auto simp: becomes_def get_forward_def t find split: option.split)
qed

lemma evolves_rows:
  assumes "evolves late D cfg U w w'" "keyed (w_saved w)"
  shows "keyed (w_saved w')" "keeps_rows late D U (w_saved w) (w_saved w')"
proof -
  have "keyed (w_saved w') \<and> keeps_rows late D U (w_saved w) (w_saved w')"
    using assms
  proof (rule evolves_rule)
    show "keeps_rows late D U d (flush_forwards base work d')"
      if "late" "keyed d" "keyed base" "keyed d'" "ending_step\<^sup>*\<^sup>* base work" "keeps_rows late D U d base"
        "keeps_rows late D (U \<union> row_ids base) base d'" for U d base work d'
    proof -
      have "keeps_rows late D U d d'" by (rule keeps_rows_chain [OF that(6,7)])
      then show ?thesis using flush_rows [OF that(3,5)] that(1) keeps_rows_trans by auto
    qed
  qed (rule keeps_rows_refl keeps_rows_trans table_step_rows delete_rows keeps_rows_eq; assumption)+
  then show "keyed (w_saved w')" "keeps_rows late D U (w_saved w) (w_saved w')" by auto
qed

section \<open>Well-formed rows\<close>

definition counters_ok :: "forward \<Rightarrow> bool" where
  "counters_ok f \<longleftrightarrow> 0 \<le> f_gen_up f \<and> f_gen_up f \<le> f_bytes_up f \<and> 0 \<le> f_gen_down f \<and> f_gen_down f \<le> f_bytes_down f \<and>
     0 \<le> f_gen_connections f \<and> f_gen_connections f \<le> f_connections f \<and> 0 \<le> f_generation f"

definition row_ok :: "bool \<Rightarrow> forward \<Rightarrow> bool" where
  "row_ok late f \<longleftrightarrow> counters_ok f \<and> 1 \<le> f_remote_port f \<and> f_remote_port f \<le> 65535 \<and> 1 \<le> f_local_port f \<and> f_local_port f \<le> 65535 \<and>
     (f_status f = F_active \<longrightarrow> f_lease f \<noteq> None) \<and> (f_lease f \<noteq> None \<longrightarrow> f_status f = F_active \<or> late \<and> \<not> live f) \<and>
     (f_status f = F_active \<or> f_status f = F_disconnected \<longrightarrow> f_ssh_key_id f \<noteq> None \<and> 1 \<le> f_generation f) \<and>
     (f_status f = F_pending \<longrightarrow> f_generation f = 0 \<and> f_bytes_up f = 0 \<and> f_bytes_down f = 0 \<and> f_connections f = 0) \<and>
     (live f \<longleftrightarrow> f_stopped f = None) \<and> (live f \<longleftrightarrow> f_reason f = None) \<and>
     (f_status f = F_expired \<longrightarrow> (case f_stopped f of None \<Rightarrow> False | Some t \<Rightarrow> f_expires f \<le> t)) \<and> f_status f \<noteq> F_failed"

lemma counters_ok_apply: "counters_ok f \<Longrightarrow> counters_ok (apply_counters f c)"
  by (auto simp: counters_ok_def apply_counters_def Let_def)

lemma counters_ok_simps [simp]:
  "counters_ok (f\<lparr>f_ssh_key_id := k\<rparr>) = counters_ok f" "counters_ok (f\<lparr>f_lease := l\<rparr>) = counters_ok f"
  "counters_ok (f\<lparr>f_status := s\<rparr>) = counters_ok f" "counters_ok (f\<lparr>f_stopped := t\<rparr>) = counters_ok f"
  "counters_ok (f\<lparr>f_reason := r\<rparr>) = counters_ok f" "counters_ok (f\<lparr>f_last_connected := t\<rparr>) = counters_ok f"
  by (simp_all add: counters_ok_def)

lemma live_status: "live f \<longleftrightarrow> f_status f = F_pending \<or> f_status f = F_active \<or> f_status f = F_disconnected"
  by (auto simp: live_def non_terminal_statuses_def)

lemma life_step_ok: "life_step f g \<Longrightarrow> row_ok late f \<Longrightarrow> row_ok late g"
proof (induction rule: life_step.induct)
  case (Bind_key f k)
  then show ?case by (auto simp: row_ok_def live_status)
next
  case (Connect f now lease)
  then show ?case by (auto simp: row_ok_def live_status counters_ok_def)
next
  case (Renew f now c lease)
  then show ?case by (auto simp: row_ok_def live_status counters_ok_apply)
next
  case (Release f c)
  then show ?case by (auto simp: row_ok_def live_status counters_ok_apply)
next
  case (Lapse f l now)
  then show ?case by (auto simp: row_ok_def live_status)
next
  case (End f s now reason)
  then show ?case by (auto simp: row_ok_def live_status)
qed

definition rows_ok :: "bool \<Rightarrow> db \<Rightarrow> bool" where
  "rows_ok late d \<longleftrightarrow> (\<forall>f \<in> set (t_forwards d). row_ok late f)"

lemma table_step_ok:
  assumes "table_step cfg d d'" "rows_ok late d"
  shows "rows_ok late d'"
  using assms(1)
proof cases
  case (Admit f n)
  then have "row_ok late f" by (auto simp: unconnected_def row_admissible_def row_ok_def counters_ok_def live_status)
  with Admit assms(2) show ?thesis by (auto simp: rows_ok_def)
next
  case (Update f f')
  then show ?thesis using assms(2) life_step_ok by (auto simp: put_forward_db_def rows_ok_def)
next
  case (Audit a)
  then show ?thesis using assms(2) by (simp add: rows_ok_def)
qed

lemma flush_row_ok:
  assumes "ends_row f f'" "row_ok True f" "row_ok True h" "f_expires h = f_expires f"
  shows "row_ok True (flush_row f f' h)"
  using assms(1)
proof (cases rule: flush_ended [where h = h])
  case (1 s t r l)
  have "live f" using assms(1) by (simp add: ends_row_def)
  then have "f_stopped f = None" "f_reason f = None" using assms(2) by (auto simp: row_ok_def)
  then show ?thesis using 1 assms(3,4) by (auto simp: row_ok_def live_status counters_ok_def)
qed

lemma flush_ok:
  assumes "keyed base" "keyed d" "ending_step\<^sup>*\<^sup>* base work" "keeps_rows True D (row_ids base) base d"
    and "rows_ok True base" "rows_ok True d"
  shows "rows_ok True (flush_forwards base work d)"
  using flush_forwards_rows [of base work d]
proof
  assume "t_forwards (flush_forwards base work d) = t_forwards d"
  then show ?thesis using assms(6) by (simp add: rows_ok_def)
next
  assume t: "t_forwards (flush_forwards base work d) = map (flushed base work) (t_forwards d)"
  have "row_ok True (flushed base work h)" if h: "h \<in> set (t_forwards d)" for h
    using flushed_row [OF assms(3,1), of h]
  proof
    assume "flushed base work h = h"
    then show ?thesis using h assms(6) by (simp add: rows_ok_def)
  next
    assume "\<exists>f f'. get_forward base (f_id h) = Some f \<and> ends_row f f' \<and> flushed base work h = flush_row f f' h"
    then obtain f f' where f: "get_forward base (f_id h) = Some f" "ends_row f f'" "flushed base work h = flush_row f f' h" by blast
    have "fate True f h"
      using assms(4) get_forward_keyed [OF assms(2) h] get_forward_ids [OF f(1)] f(1)
      by (fastforce simp: keeps_rows_def becomes_def)
    then have "f_expires h = f_expires f" using fateD(1) by (auto simp: origin_def)
    moreover have "row_ok True f" "row_ok True h" using assms(5,6) get_forward_row [OF f(1)] h by (auto simp: rows_ok_def)
    ultimately show ?thesis using flush_row_ok f by simp
  qed
  then show ?thesis using t by (simp add: rows_ok_def)
qed

lemma evolves_ok:
  assumes "evolves late D cfg U w w'" "keyed (w_saved w)" "rows_ok late (w_saved w)"
  shows "rows_ok late (w_saved w')"
proof -
  let ?R = "\<lambda>U d d'. keeps_rows late D U d d' \<and> (rows_ok late d \<longrightarrow> rows_ok late d')"
  have "keyed (w_saved w') \<and> ?R U (w_saved w) (w_saved w')"
    using assms(1,2)
  proof (rule evolves_rule)
    show "?R U d (flush_forwards base work d')"
      if a: "late" "keyed d" "keyed base" "keyed d'" "ending_step\<^sup>*\<^sup>* base work" "?R U d base" "?R (U \<union> row_ids base) base d'"
      for U d base work d'
    proof
      have "keeps_rows late D U d d'" by (rule keeps_rows_chain [OF conjunct1 [OF a(6)] conjunct1 [OF a(7)]])
      with flush_rows [OF a(3,5)] a(1) show "keeps_rows late D U d (flush_forwards base work d')"
        using keeps_rows_trans by auto
      have "keeps_rows True D (row_ids base) base d'" using a(1,7) keeps_rows_mono by auto
      from flush_ok [OF a(3,4,5) this] a(1,6,7) show "rows_ok late d \<longrightarrow> rows_ok late (flush_forwards base work d')" by auto
    qed
    show "?R U d (delete_with_owner owner d)" if "keyed d" "owner \<in> set D" for U owner d
      using delete_rows [OF that] by (auto simp: rows_ok_def delete_with_owner_def)
    show "?R U d d'" if "t_forwards d' = t_forwards d" for U d d'
      using keeps_rows_eq [OF that] that by (simp add: rows_ok_def)
    show "?R U d d'" if "keyed d" "table_step cfg d d'" "row_ids d' \<inter> U \<subseteq> row_ids d" for U d d'
      using table_step_rows [OF that] table_step_ok [OF that(2)] by blast
    show "?R U d d''" if "?R U d d'" "?R U d' d''" for U d d' d''
      using that keeps_rows_trans by blast
  qed (simp add: keeps_rows_refl)
  with assms(3) show ?thesis by blast
qed

section \<open>Quotas\<close>

lemma count_admit:
  "count_active (d\<lparr>t_forwards := t_forwards d @ [f]\<rparr>) P = count_active d P + (if live f \<and> P f then 1 else 0)"
  by (simp add: count_active_def live_def)

lemma count_le_map:
  assumes "\<And>f. f \<in> set fs \<Longrightarrow> Q (h f) \<Longrightarrow> Q f"
  shows "length (filter Q (map h fs)) \<le> length (filter Q fs)"
  using assms by (induction fs) (auto simp: le_SucI)

text \<open>A scope sees the origin of a row only.\<close>

definition scope :: "(forward \<Rightarrow> bool) \<Rightarrow> bool" where
  "scope P \<longleftrightarrow> (\<forall>f g. origin f = origin g \<longrightarrow> P f = P g)"

lemma count_update:
  assumes "keyed d" "f \<in> set (t_forwards d)" "life_step f f'" "scope P"
  shows "count_active (put_forward_db f' d) P \<le> count_active d P"
proof -
  note fate = life_step_fate [OF assms(3), of False]
  have f: "g = f" if "g \<in> set (t_forwards d)" "f_id g = f_id f'" for g
    using that assms(1,2) life_step_id [OF assms(3)] by (auto simp: keyed_def distinct_map inj_on_def)
  have "live f' \<and> P f' \<Longrightarrow> live f \<and> P f"
    using fateD(1,5) [OF fate] assms(4) unfolding scope_def by metis
  then have "length (filter (\<lambda>f. live f \<and> P f) (map (\<lambda>g. if f_id g = f_id f' then f' else g) (t_forwards d)))
      \<le> length (filter (\<lambda>f. live f \<and> P f) (t_forwards d))"
    by (intro count_le_map) (auto dest: f split: if_splits)
  then show ?thesis by (simp add: count_active_def put_forward_db_def live_def)
qed

text \<open>The limit of a scope under the policies of the nodes.\<close>

definition limited :: "settings \<Rightarrow> (policy \<Rightarrow> int) \<Rightarrow> (forward \<Rightarrow> bool) \<Rightarrow> db \<Rightarrow> db \<Rightarrow> bool" where
  "limited cfg limit P d d' \<longleftrightarrow> t_nodes d' = t_nodes d \<and>
     (count_active d' P \<le> count_active d P \<or>
      (\<exists>i n. get_node d i = Some n \<and> count_active d' P \<le> limit (node_policy cfg n)))"

lemma table_step_limited:
  assumes "keyed d" "table_step cfg d d'"
  shows "limited cfg p_max_per_user (\<lambda>f. f_user_id f = u) d d'"
    and "limited cfg p_max_per_device (\<lambda>f. f_device_id f = u) d d'"
    and "limited cfg p_max_per_session (\<lambda>f. f_session_id f = u) d d'"
  using assms(2)
proof -
  have sc: "scope (\<lambda>f. f_user_id f = u)" "scope (\<lambda>f. f_device_id f = u)" "scope (\<lambda>f. f_session_id f = u)"
    by (auto simp: scope_def origin_def)
  from assms(2) have "limited cfg p_max_per_user (\<lambda>f. f_user_id f = u) d d' \<and>
    limited cfg p_max_per_device (\<lambda>f. f_device_id f = u) d d' \<and> limited cfg p_max_per_session (\<lambda>f. f_session_id f = u) d d'"
  proof cases
    case (Admit f n)
    then show ?thesis by (fastforce simp: limited_def count_admit within_quotas_def)
  next
    case (Update f f')
    then show ?thesis using count_update [OF assms(1) Update(2,3)] sc
      by (simp add: limited_def put_forward_db_def [of f' d])
  next
    case (Audit a)
    then show ?thesis by (simp add: limited_def count_active_def)
  qed
  then show "limited cfg p_max_per_user (\<lambda>f. f_user_id f = u) d d'" "limited cfg p_max_per_device (\<lambda>f. f_device_id f = u) d d'"
    "limited cfg p_max_per_session (\<lambda>f. f_session_id f = u) d d'" by auto
qed

lemma limited_run:
  assumes "(table_step cfg)\<^sup>*\<^sup>* d d'" "keyed d" "\<And>d d'. keyed d \<Longrightarrow> table_step cfg d d' \<Longrightarrow> limited cfg limit P d d'"
  shows "limited cfg limit P d d'"
  using assms(1,2)
proof (induction rule: rtranclp_induct)
  case base
  then show ?case by (simp add: limited_def)
next
  case (step d1 d2)
  then have "limited cfg limit P d1 d2" using assms(3) table_run_keyed by blast
  moreover have "limited cfg limit P d d1" using step by blast
  ultimately show ?case unfolding limited_def get_node_def by (metis order_trans)
qed

section \<open>The requests of callers\<close>

text \<open>As long as the forward of a caller's request is there, it is the one that is found under its key.\<close>

definition keeps_callers :: "uuid set \<Rightarrow> db \<Rightarrow> db \<Rightarrow> bool" where
  "keeps_callers U d d' \<longleftrightarrow>
     (\<forall>u k f g. get_by_caller d u k = Some f \<longrightarrow> f_id f \<in> U \<longrightarrow> get_forward d' (f_id f) = Some g \<longrightarrow> get_by_caller d' u k = Some g)"

lemma keeps_callersI:
  assumes "\<And>u k f g. get_by_caller d u k = Some f \<Longrightarrow> get_forward d' (f_id f) = Some g \<Longrightarrow> get_by_caller d' u k = Some g"
  shows "keeps_callers U d d'"
  using assms unfolding keeps_callers_def by blast

lemma get_by_caller_keyed: "keyed d \<Longrightarrow> get_by_caller d u k = Some f \<Longrightarrow> get_forward d (f_id f) = Some f"
  using get_by_caller_row get_forward_keyed by blast

lemma find_update:
  assumes "List.find P fs = Some f" "\<And>g. g \<in> set fs \<Longrightarrow> P (h g) = P g"
  shows "List.find P (map h fs) = Some (h f)"
  using assms by (induction fs) (auto split: if_splits)

text \<open>A change of the rows that leaves their owner, their key and their request.\<close>

lemma keeps_callers_map:
  assumes "keyed d" "t_forwards d' = map h (t_forwards d)"
    and "\<And>f. f \<in> set (t_forwards d) \<Longrightarrow>
      f_id (h f) = f_id f \<and> f_user_id (h f) = f_user_id f \<and> f_caller_request (h f) = f_caller_request f"
  shows "keeps_callers U d d'"
proof (rule keeps_callersI)
  fix u k f g assume f: "get_by_caller d u k = Some f" and g: "get_forward d' (f_id f) = Some g"
  have "get_by_caller d' u k = Some (h f)" unfolding get_by_caller_def assms(2)
    using assms(3) by (intro find_update [OF f [unfolded get_by_caller_def]]) simp
  moreover have "get_forward d' (f_id f) = Some (h f)" unfolding get_forward_def assms(2)
    using assms(3) by (intro find_update [OF get_by_caller_keyed [OF assms(1) f, unfolded get_forward_def]]) simp
  ultimately show "get_by_caller d' u k = Some g" using g by simp
qed

lemma keeps_callers_eq: "keyed d \<Longrightarrow> t_forwards d' = t_forwards d \<Longrightarrow> keeps_callers U d d'"
  by (rule keeps_callers_map [where h = id]) simp_all

lemma table_step_callers:
  assumes "keyed d" "table_step cfg d d'"
  shows "keeps_callers U d d'"
  using assms(2)
proof cases
  case (Admit h n)
  show ?thesis
  proof (rule keeps_callersI)
    fix u k f g assume f: "get_by_caller d u k = Some f" and g: "get_forward d' (f_id f) = Some g"
    have "get_by_caller d' u k = Some f" "get_forward d' (f_id f) = Some f"
      using f get_by_caller_keyed [OF assms(1) f] Admit by (auto simp: get_by_caller_def get_forward_def find_append)
    with g show "get_by_caller d' u k = Some g" by simp
  qed
next
  case (Update h h')
  have "origin h' = origin h" using fateD(1) [OF life_step_fate [OF Update(3), of False]] .
  moreover have "f = h" if "f \<in> set (t_forwards d)" "f_id f = f_id h" for f
    using that Update(2) assms(1) by (auto simp: keyed_def distinct_map inj_on_def)
  ultimately show ?thesis
    by (intro keeps_callers_map [OF assms(1), where h = "\<lambda>g. if f_id g = f_id h' then h' else g"])
      (auto simp: Update(1) put_forward_db_def origin_def)
next
  case (Audit a)
  then show ?thesis using keeps_callers_eq [OF assms(1)] by simp
qed

lemma delete_callers:
  assumes "keyed d"
  shows "keeps_callers U d (delete_with_owner owner d)"
proof (rule keeps_callersI)
  fix u k f g
  assume f: "get_by_caller d u k = Some f" and g: "get_forward (delete_with_owner owner d) (f_id f) = Some g"
  from get_forward_row [OF g] have "g \<in> set (t_forwards d)" "f_id g = f_id f" "\<not> belongs_to owner g"
    by (auto simp: delete_with_owner_def)
  then have "g = f" using get_by_caller_keyed [OF assms f] get_forward_keyed [OF assms] by fastforce
  with \<open>\<not> belongs_to owner g\<close> f show "get_by_caller (delete_with_owner owner d) u k = Some g"
    by (simp add: get_by_caller_def delete_with_owner_def find_filter)
qed

lemma flush_callers:
  assumes "keyed d"
  shows "keeps_callers U d (flush_forwards base work d)"
  using flush_forwards_rows [of base work d]
proof
  assume "t_forwards (flush_forwards base work d) = t_forwards d"
  then show ?thesis by (rule keeps_callers_eq [OF assms])
next
  assume "t_forwards (flush_forwards base work d) = map (flushed base work) (t_forwards d)"
  then show ?thesis by (rule keeps_callers_map [OF assms]) (simp add: flushed_def flush_row_def split: option.splits)
qed

lemma keeps_callers_chain:
  assumes "keeps_callers U d d'" "keeps_callers V d' d''" "keeps_rows late D U d d'" "keeps_rows late D V d' d''" "U \<subseteq> V"
  shows "keeps_callers U d d''"
  unfolding keeps_callers_def
proof (intro allI impI)
  fix u k f g assume f: "get_by_caller d u k = Some f" "f_id f \<in> U" and g: "get_forward d'' (f_id f) = Some g"
  have "becomes late D (get_forward d' (f_id f)) (get_forward d'' (f_id f))"
    using assms(4,5) f(2) unfolding keeps_rows_def by blast
  with g obtain f' where f': "get_forward d' (f_id f) = Some f'" by (cases "get_forward d' (f_id f)") (auto simp: becomes_def)
  have "get_by_caller d' u k = Some f'" using assms(1) f f' unfolding keeps_callers_def by blast
  moreover have "f_id f' = f_id f" using get_forward_row [OF f'] by simp
  ultimately show "get_by_caller d'' u k = Some g" using assms(2,5) f(2) g unfolding keeps_callers_def by auto
qed

lemma evolves_callers:
  assumes "evolves late D cfg U w w'" "keyed (w_saved w)"
  shows "keeps_callers U (w_saved w) (w_saved w')"
proof -
  let ?R = "\<lambda>U d d'. keyed d \<longrightarrow> keyed d' \<and> keeps_rows late D U d d' \<and> keeps_callers U d d'"
  have "keyed (w_saved w') \<and> ?R U (w_saved w) (w_saved w')"
    using assms
  proof (rule evolves_rule)
    show "?R U d d''" if "?R U d d'" "?R U d' d''" for U d d' d''
      using that keeps_rows_trans keeps_callers_chain by blast
    show "?R U d d" for U d
      using keeps_callers_eq keeps_rows_refl by blast
    show "?R U d d'" if "t_forwards d' = t_forwards d" for U d d'
      using keeps_callers_eq [OF _ that] keeps_rows_eq [OF that] that by (simp add: keyed_def)
    show "?R U d d'" if "keyed d" "table_step cfg d d'" "row_ids d' \<inter> U \<subseteq> row_ids d" for U d d'
      using table_step_rows [OF that] table_step_callers [OF that(1,2)] table_step_keyed [OF that(2,1)] by blast
    show "?R U d (delete_with_owner owner d)" if "keyed d" "owner \<in> set D" for U owner d
      using delete_rows [OF that] delete_callers [OF that(1)] keyed_simps(1) by blast
    show "?R U d (flush_forwards base work d')"
      if a: "late" "keyed d" "keyed base" "keyed d'" "ending_step\<^sup>*\<^sup>* base work" "?R U d base" "?R (U \<union> row_ids base) base d'"
      for U d base work d'
    proof -
      have r: "keeps_rows late D U d d'" by (rule keeps_rows_chain) (use a in blast)+
      have c: "keeps_callers U d d'" by (rule keeps_callers_chain) (use a in blast)+
      have f: "keeps_rows late D U d' (flush_forwards base work d')" using flush_rows [OF a(3,5)] a(1) by simp
      show ?thesis
        using keeps_rows_trans [OF r f] keeps_callers_chain [OF c flush_callers [OF a(4)] r f] keyed_simps(2) [OF a(4)] by blast
    qed
  qed
  with assms(2) show ?thesis by blast
qed

end
