(* ===== verification/Forward_Results.thy ===== *)
theory Forward_Results
  imports Forward_Life
begin

text \<open>
  What the requests answer: each operation inverted step by step, so that a result determines what the
  request has seen and what it has left behind.
\<close>

section \<open>Inversion\<close>

lemma row_steps_result [result]:
  "put_forward f w = (w', Inr u) \<longleftrightarrow> w' = w\<lparr>w_db := put_forward_db f (w_db w)\<rparr>"
  "add_forward f w = (w', Inr u) \<longleftrightarrow> row_admissible f (w_db w) \<and>
     w' = w\<lparr>w_db := (w_db w)\<lparr>t_forwards := t_forwards (w_db w) @ [f]\<rparr>\<rparr>"
  by (auto simp: put_forward_def add_forward_def add_forward_db_def split: sum.splits)

lemma audit_result [result]:
  "audit actor action f w = (w', Inr u) \<longleftrightarrow> w' = w\<lparr>w_db := (w_db w)\<lparr>t_audits := t_audits (w_db w) @
     [\<lparr>au_actor = actor, au_action = action, au_target = f_id f\<rparr>]\<rparr>\<rparr>"
  by (auto simp: audit_def)

lemma token_result [result]:
  "require_rate_limit now s k w = (w', Inr u) \<longleftrightarrow>
     (\<exists>t. pf_allow now (w_tokens w) s k 60 = (t, True) \<and> w' = w\<lparr>w_tokens := t\<rparr>)"
  "consume_token cfg now raw w = (w', Inr c) \<longleftrightarrow>
     (\<exists>t. pf_consume now (w_tokens w) (set_hash cfg raw) = (t, c) \<and> w' = w\<lparr>w_tokens := t\<rparr>)"
  "issue_token cfg now raw f w = (w', Inr x) \<longleftrightarrow>
     (\<exists>t. pf_issue now (w_tokens w) (set_hash cfg raw) \<lparr>pf_forward_id = f_id f, pf_device_id = f_device_id f,
        pf_ssh_key_id = f_ssh_key_id f\<rparr> (set_token_ttl cfg) = Inr t \<and> w' = w\<lparr>w_tokens := t\<rparr> \<and>
        x = \<lparr>cn_token = raw, cn_expires = now + seconds (set_token_ttl cfg)\<rparr>)"
  by (auto simp: require_rate_limit_def consume_token_def issue_token_def check_def ret_def api_error_def throw_def
      split: prod.splits sum.splits)

lemma device_result [result]: "require_device_token t w = (w', Inr d) \<longleftrightarrow> at_device_id t = Some d \<and> w' = w"
  by (auto simp: require_device_token_def ret_def api_error_def throw_def split: option.splits)

lemma ensure_result_Inr [result]:
  "ensure_non_terminal now f w = (w', Inr u) \<longleftrightarrow> live f \<and> now < f_expires f \<and> w' = w"
proof (cases "live f \<and> \<not> now < f_expires f")
  case True
  with ensure_result(2) [of f now w] show ?thesis by auto
next
  case False
  then show ?thesis using ensure_result(1) [of now f w]
    by (auto simp: ensure_non_terminal_def expire_if_needed_def live_def check_def ret_def api_error_def throw_def)
qed

lemma node_result [result]:
  "require_node i w = (w', Inr n) \<longleftrightarrow> get_node (w_db w) i = Some n \<and> n_status n \<in> set active_node_statuses \<and> w' = w"
  using gate_node [of w i]
  by (auto simp: require_node_def act_bind_def query_def check_def ret_def api_error_def throw_def split: option.splits if_splits)

lemma session_result [result]:
  "require_running_session u i w = (w', Inr s) \<longleftrightarrow>
     get_session (w_db w) i = Some s \<and> s_user_id s = u \<and> session_running s \<and> w' = w"
  by (auto simp: require_running_session_def act_bind_def query_def check_def ret_def api_error_def throw_def
      split: option.splits if_splits)

lemma gate_result [result]:
  "require_capability n s w = (w', Inr u) \<longleftrightarrow> capable n s \<and> w' = w"
  "validate_remote_port p port w = (w', Inr u) \<longleftrightarrow> port_allowed p port \<and> w' = w"
  using gate_capability [of w n s] gate_port [of w p port] by (auto simp: gate_def)

lemma quota_result [result]:
  "validate_quotas p user_id device_id session_id w = (w', Inr u) \<longleftrightarrow>
     count_active (w_db w) (\<lambda>f. f_user_id f = user_id) < p_max_per_user p \<and>
     count_active (w_db w) (\<lambda>f. f_device_id f = device_id) < p_max_per_device p \<and>
     count_active (w_db w) (\<lambda>f. f_session_id f = session_id) < p_max_per_session p \<and> w' = w"
  by (auto simp: validate_quotas_def query_def act_bind_def check_def ret_def api_error_def throw_def split: if_splits)

lemma authorization_result_Inr [result]:
  "require_runtime_authorization cfg now f w = (w', Inr x) \<longleftrightarrow>
     live f \<and> now < f_expires f \<and> authorized cfg f (fst x) (snd x) (w_db w) \<and> w' = w"
proof (cases "live f \<and> now < f_expires f")
  case True
  then have l: "live f" "now < f_expires f" by auto
  then show ?thesis
  proof (cases rule: authorization_result [of f now cfg w])
    case (granted s p)
    then have "authorized cfg f (fst x) (snd x) (w_db w) \<Longrightarrow> x = (s, p)" by (cases x) (auto simp: authorized_def)
    with granted l show ?thesis by auto
  qed (auto simp: authorizable_def)
next
  case False
  then show ?thesis by (auto simp: require_runtime_authorization_def result)
qed

lemma row_result [result]:
  "require_owned user i w = (w', Inr f) \<longleftrightarrow> get_forward (w_db w) i = Some f \<and> f_user_id f = u_id user \<and> w' = w"
  "require_visible user i w = (w', Inr f) \<longleftrightarrow>
     get_forward (w_db w) i = Some f \<and> (f_user_id f = u_id user \<or> u_role user = ''admin'') \<and> w' = w"
  "require_node_generation n i g w = (w', Inr f) \<longleftrightarrow> get_forward (w_db w) i = Some f \<and> f_node_id f = n_id n \<and>
     f_generation f = g \<and> f_status f = F_active \<and> w' = w"
  by (auto simp: require_owned_def require_visible_def require_node_generation_def result split: option.splits)

lemma queries_put [simp]:
  "get_active_user (put_forward_db f d) = get_active_user d" "get_active_device (put_forward_db f d) = get_active_device d"
  "get_active_ssh_key (put_forward_db f d) = get_active_ssh_key d" "get_session (put_forward_db f d) = get_session d"
  "first_active_ssh_key (put_forward_db f d) = first_active_ssh_key d" "get_node (put_forward_db f d) = get_node d"
  "get_active_tool_account (put_forward_db f d) = get_active_tool_account d"
  by (simp_all add: put_forward_db_def get_active_user_def get_active_device_def get_active_ssh_key_def get_session_def
      first_active_ssh_key_def get_node_def get_active_tool_account_def fun_eq_iff)

lemma authorized_put [simp]:
  "authorized cfg g s p (put_forward_db f d) = authorized cfg g s p d"
  "authorizable cfg g (put_forward_db f d) = authorizable cfg g d"
  unfolding authorized_def authorizable_def queries_put by (rule refl)+

section \<open>Redemption\<close>

definition bound_to :: "uuid \<Rightarrow> forward \<Rightarrow> forward" where
  "bound_to key f = (if f_ssh_key_id f = None then f\<lparr>f_ssh_key_id := Some key\<rparr> else f)"

definition connected :: "time \<Rightarrow> time \<Rightarrow> forward \<Rightarrow> forward" where
  "connected now lease f = f\<lparr>f_generation := f_generation f + 1, f_gen_up := 0, f_gen_down := 0, f_gen_connections := 0,
     f_status := F_active, f_last_connected := Some now, f_lease := Some lease\<rparr>"

text \<open>
  What a node must present, and what must be stored about the forward, its user, device and key, its session and
  account and its node.
\<close>

definition redeemable :: "settings \<Rightarrow> time \<Rightarrow> node_row \<Rightarrow> uuid \<Rightarrow> uuid \<Rightarrow> forward \<Rightarrow> session_row \<Rightarrow> policy \<Rightarrow> db \<Rightarrow> bool" where
  "redeemable cfg now n device_id key f s p d \<longleftrightarrow>
     f_node_id f = n_id n \<and> f_status f \<in> {F_pending, F_active, F_disconnected} \<and> now < f_expires f \<and>
     f_device_id f = device_id \<and> (f_ssh_key_id f = None \<or> f_ssh_key_id f = Some key) \<and>
     (\<exists>x \<in> set (t_keys d). k_id x = key \<and> k_device_id x = device_id \<and> k_status x = ''active'') \<and>
     (\<exists>x \<in> set (t_users d). u_id x = f_user_id f \<and> u_status x = ''active'') \<and>
     (\<exists>x \<in> set (t_devices d). ud_id x = device_id \<and> ud_user_id x = f_user_id f \<and> ud_status x = ''active'') \<and>
     get_session d (f_session_id f) = Some s \<and> (s_status s = ''running'' \<or> s_status s = ''active'') \<and>
     (\<exists>r. s_runtime_resource s = Some r \<and> r \<noteq> []) \<and>
     (\<exists>x \<in> set (t_accounts d). ta_id x = s_tool_account_id s \<and> ta_status x = ''active'') \<and>
     (\<exists>m. get_node d (f_node_id f) = Some m \<and> n_status m \<in> {''healthy'', ''degraded'', ''active''} \<and> capable m s \<and>
        p = node_policy cfg m \<and> port_allowed p (f_remote_port f))"

lemma redeemable_code:
  "redeemable cfg now n device_id key f s p d \<longleftrightarrow>
     f_node_id f = n_id n \<and> live f \<and> now < f_expires f \<and> f_device_id f = device_id \<and>
     (f_ssh_key_id f = None \<or> f_ssh_key_id f = Some key) \<and> get_active_ssh_key d device_id key \<noteq> None \<and>
     authorized cfg (bound_to key f) s p d"
proof (cases "f_ssh_key_id f = None \<or> f_ssh_key_id f = Some key")
  case True
  then have key: "f_ssh_key_id (bound_to key f) = Some key" by (auto simp: bound_to_def)
  have same: "f_user_id (bound_to key f) = f_user_id f" "f_device_id (bound_to key f) = f_device_id f"
    "f_session_id (bound_to key f) = f_session_id f" "f_node_id (bound_to key f) = f_node_id f"
    "f_remote_port (bound_to key f) = f_remote_port f" by (simp_all add: bound_to_def)
  have rows: "get_active_user d u \<noteq> None \<longleftrightarrow> (\<exists>x \<in> set (t_users d). u_id x = u \<and> u_status x = ''active'')"
    "get_active_device d u v \<noteq> None \<longleftrightarrow> (\<exists>x \<in> set (t_devices d). ud_id x = v \<and> ud_user_id x = u \<and> ud_status x = ''active'')"
    "get_active_ssh_key d v k \<noteq> None \<longleftrightarrow> (\<exists>x \<in> set (t_keys d). k_id x = k \<and> k_device_id x = v \<and> k_status x = ''active'')"
    "get_active_tool_account d v \<noteq> None \<longleftrightarrow> (\<exists>x \<in> set (t_accounts d). ta_id x = v \<and> ta_status x = ''active'')" for u v k
    by (auto simp: get_active_user_def get_active_device_def get_active_ssh_key_def get_active_tool_account_def find_None_iff
        simp del: not_None_eq)
  have run: "session_running s \<longleftrightarrow> (s_status s = ''running'' \<or> s_status s = ''active'') \<and> (\<exists>r. s_runtime_resource s = Some r \<and> r \<noteq> [])"
    by (auto simp: session_running_def running_session_statuses_def split: option.splits)
  have node: "x \<in> set active_node_statuses \<longleftrightarrow> x \<in> {''healthy'', ''degraded'', ''active''}" for x
    by (simp add: active_node_statuses_def)
  have live: "live f \<longleftrightarrow> f_status f \<in> {F_pending, F_active, F_disconnected}"
    by (simp add: live_def non_terminal_statuses_def)
  show ?thesis unfolding redeemable_def authorized_def key same option.case rows run node live by blast
qed (auto simp: redeemable_def)

lemma bound_simps [simp]:
  "f_id (bound_to k f) = f_id f" "live (bound_to k f) = live f" "f_expires (bound_to k f) = f_expires f"
  "f_node_id (bound_to k f) = f_node_id f" "f_generation (bound_to k f) = f_generation f"
  by (simp_all add: bound_to_def live_def)

lemma put_put: "f_id g = f_id f \<Longrightarrow> put_forward_db g (put_forward_db f d) = put_forward_db g d"
  by (simp add: put_forward_db_def)

text \<open>
  The token that was presented is stored, unexpired, under its hash, for this forward, this device and, if it
  names a key, this key. The redemption removes it, connects the forward and saves that.
\<close>

definition redemption where
  "redemption cfg now n i device_id key raw w w' g s p \<longleftrightarrow>
     (\<exists>f t k e. get_forward (w_db w) i = Some f \<and> redeemable cfg now n device_id key f s p (w_db w) \<and>
        pf_allow now (w_tokens w) (rate_scope cfg ''redeem'' [n_id n, device_id, i]) (set_redeem_rate cfg) 60 = (t, True) \<and>
        map_of (pf_values (w_tokens w)) (set_hash cfg raw) =
          Some (\<lparr>pf_forward_id = i, pf_device_id = device_id, pf_ssh_key_id = k\<rparr>, e) \<and>
        now < e \<and> (k = None \<or> k = Some key) \<and>
        g = connected now (now + seconds (p_lease p)) (bound_to key f) \<and>
        w' = store_row g \<lparr>au_actor = None, au_action = ''port_forward.connected'', au_target = i\<rparr>
          (w\<lparr>w_tokens := t\<lparr>pf_values := AList.delete (set_hash cfg raw) (pf_values t)\<rparr>\<rparr>))"

lemma allow_values: "pf_allow now s scope k window = (t, b) \<Longrightarrow> pf_values t = pf_values s"
  by (auto simp: pf_allow_def Let_def split: prod.splits if_splits)

lemma consume_claims:
  "pf_consume now t h = (t', Some c) \<longleftrightarrow>
     (\<exists>e. map_of (pf_values t) h = Some (c, e) \<and> now < e \<and> t' = t\<lparr>pf_values := AList.delete h (pf_values t)\<rparr>)"
  by (auto simp: pf_consume_def dict_pop_def split: option.splits if_splits)

definition redeem_seen where
  "redeem_seen cfg now n i device_id key raw w w' g s p \<longleftrightarrow>
     (\<exists>f t t' c. get_forward (w_db w) i = Some f \<and> redeemable cfg now n device_id key f s p (w_db w) \<and>
        pf_allow now (w_tokens w) (rate_scope cfg ''redeem'' [n_id n, device_id, i]) (set_redeem_rate cfg) 60 = (t, True) \<and>
        pf_consume now t (set_hash cfg raw) = (t', Some c) \<and> pf_forward_id c = i \<and> pf_device_id c = device_id \<and>
        (pf_ssh_key_id c = None \<or> pf_ssh_key_id c = Some key) \<and>
        g = connected now (now + seconds (p_lease p)) (bound_to key f) \<and>
        w' = store_row g \<lparr>au_actor = None, au_action = ''port_forward.connected'', au_target = i\<rparr> (w\<lparr>w_tokens := t'\<rparr>))"

lemma redeem_sees:
  assumes "fw_redeem cfg now n i device_id key raw w = (w', Inr (g, s, p))"
  shows "redeem_seen cfg now n i device_id key raw w w' g s p"
proof -
  obtain f where f: "get_forward (w_db w) i = Some f"
    using assms by (cases "get_forward (w_db w) i") (auto simp: fw_redeem_def result)
  note goal = redeem_seen_def redeemable_code connected_def store_row_def stored_def f get_forward_row [OF f]
  show ?thesis
  proof (cases "f_ssh_key_id f")
    case None
    then have b: "bound_to key f = f\<lparr>f_ssh_key_id := Some key\<rparr>" by (simp add: bound_to_def)
    show ?thesis using assms None
      by (auto simp: fw_redeem_def Let_def result b goal put_put claims_match_def split: prod.splits option.splits)
  next
    case (Some k)
    then have b: "bound_to key f = f" by (simp add: bound_to_def)
    show ?thesis using assms Some
      by (auto simp: fw_redeem_def Let_def result b goal claims_match_def split: prod.splits option.splits)
  qed
qed

lemma redeem_grants:
  assumes "redeem_seen cfg now n i device_id key raw w w' g s p"
  shows "fw_redeem cfg now n i device_id key raw w = (w', Inr (g, s, p))"
proof -
  obtain f t t' c where f: "get_forward (w_db w) i = Some f" and r: "redeemable cfg now n device_id key f s p (w_db w)"
    and t: "pf_allow now (w_tokens w) (rate_scope cfg ''redeem'' [n_id n, device_id, i]) (set_redeem_rate cfg) 60 = (t, True)"
      "pf_consume now t (set_hash cfg raw) = (t', Some c)"
    and c: "pf_forward_id c = i" "pf_device_id c = device_id" "pf_ssh_key_id c = None \<or> pf_ssh_key_id c = Some key"
    and g: "g = connected now (now + seconds (p_lease p)) (bound_to key f)"
      "w' = store_row g \<lparr>au_actor = None, au_action = ''port_forward.connected'', au_target = i\<rparr> (w\<lparr>w_tokens := t'\<rparr>)"
    using assms unfolding redeem_seen_def by blast
  note seen = r [unfolded redeemable_code]
  have id: "f_id f = i" using get_forward_row [OF f] by simp
  let ?w2 = "w\<lparr>w_tokens := t'\<rparr>"
  let ?w3 = "if f_ssh_key_id f = None then ?w2\<lparr>w_db := put_forward_db (bound_to key f) (w_db w)\<rparr> else ?w2"
  have match: "claims_match f device_id key (Some c)" using c id by (simp add: claims_match_def)
  have steps: "ensure_non_terminal now f w = (w, Inr ())"
    "require_rate_limit now (rate_scope cfg ''redeem'' [n_id n, device_id, i]) (set_redeem_rate cfg) w = (w\<lparr>w_tokens := t\<rparr>, Inr ())"
    "consume_token cfg now raw (w\<lparr>w_tokens := t\<rparr>) = (?w2, Inr (Some c))"
    "require_runtime_authorization cfg now (bound_to key f) ?w3 = (?w3, Inr (s, p))"
    using seen t by (simp_all add: result)
  note run = act_bind_def query_def check_def ret_def put_forward_def audit_def commit_def
  show ?thesis
  proof (cases "f_ssh_key_id f")
    case None
    then have b: "bound_to key f = f\<lparr>f_ssh_key_id := Some key\<rparr>" by (simp add: bound_to_def)
    show ?thesis unfolding fw_redeem_def
      using seen f match steps [unfolded b] None
      by (simp add: run g store_row_def stored_def connected_def Let_def put_put id b)
  next
    case (Some k)
    then have b: "bound_to key f = f" by (simp add: bound_to_def)
    show ?thesis unfolding fw_redeem_def
      using seen f match steps [unfolded b] Some
      by (simp add: run g store_row_def stored_def connected_def Let_def put_put id b)
  qed
qed

lemma redeem_result:
  "fw_redeem cfg now n i device_id key raw w = (w', Inr (g, s, p)) \<longleftrightarrow> redemption cfg now n i device_id key raw w w' g s p"
proof -
  have "(c = \<lparr>pf_forward_id = i, pf_device_id = device_id, pf_ssh_key_id = pf_ssh_key_id c\<rparr>) \<longleftrightarrow>
      pf_forward_id c = i \<and> pf_device_id c = device_id" for c :: pf_claims
    by (cases c) auto
  then have "redeem_seen cfg now n i device_id key raw w w' g s p \<longleftrightarrow> redemption cfg now n i device_id key raw w w' g s p"
    unfolding redeem_seen_def redemption_def consume_claims by (fastforce dest: allow_values)
  from this [symmetric] show ?thesis by (simp add: iffI [OF redeem_sees redeem_grants])
qed

section \<open>A token once\<close>

definition spent :: "pystr \<Rightarrow> world \<Rightarrow> bool" where
  "spent h w \<longleftrightarrow> map_of (pf_values (w_tokens w)) h = None"

definition quiet :: "pystr \<Rightarrow> 'a act \<Rightarrow> bool" where
  "quiet h m \<longleftrightarrow> (\<forall>w. spent h w \<longrightarrow> spent h (fst (m w)))"

lemma quiet_bind: "quiet h m \<Longrightarrow> (\<And>x. quiet h (f x)) \<Longrightarrow> quiet h (act_bind m f)"
  unfolding quiet_def act_bind_def by (fastforce split: prod.splits sum.splits)

lemma quiet_basic:
  "quiet h (ret x)" "quiet h (throw e)" "quiet h (api_error c k)" "quiet h (check b c k)" "quiet h (query q)" "quiet h commit"
  "quiet h (put_forward f)" "quiet h (add_forward f)" "quiet h (audit a c f)" "quiet h (lift_res r)"
  "quiet h (require_device_token t)"
  by (auto simp: quiet_def spent_def ret_def throw_def api_error_def check_def query_def commit_def put_forward_def
      add_forward_def audit_def lift_res_def require_device_token_def split: sum.splits option.splits)

lemma quiet_split:
  "quiet h m \<Longrightarrow> (\<And>y. quiet h (f y)) \<Longrightarrow> quiet h (case x of None \<Rightarrow> m | Some y \<Rightarrow> f y)"
  "quiet h m \<Longrightarrow> quiet h m' \<Longrightarrow> quiet h (if b then m else m')"
  "(\<And>x y. quiet h (k x y)) \<Longrightarrow> quiet h (case p of (x, y) \<Rightarrow> k x y)"
  by (auto split: option.splits prod.splits)

lemma quiet_tokens:
  "quiet h (require_rate_limit now s k)" "quiet h (consume_token cfg now raw)"
  "set_hash cfg raw \<noteq> h \<Longrightarrow> quiet h (issue_token cfg now raw f)"
  by (auto simp: quiet_def spent_def require_rate_limit_def consume_token_def issue_token_def pf_allow_def pf_consume_def
      pf_issue_def dict_pop_def delete_conv map_of_update check_def ret_def api_error_def throw_def Let_def
      split: prod.splits sum.splits if_splits option.splits)

lemmas quiet_rules = quiet_bind quiet_basic quiet_split quiet_tokens(1,2)

lemma quiet_helpers:
  "quiet h (require_node i)" "quiet h (require_running_session u i)" "quiet h (require_capability n s)"
  "quiet h (validate_remote_port p port)" "quiet h (validate_quotas p u d s')" "quiet h (ensure_non_terminal now f)"
  "quiet h (revoke now f reason)" "quiet h (revoke_error now f reason c k)" "quiet h (require_owned user i)"
  "quiet h (require_visible user i)" "quiet h (require_node_generation n' i g)" "quiet h (expire_all now fs)"
  unfolding require_node_def require_running_session_def require_capability_def validate_remote_port_def validate_quotas_def
    ensure_non_terminal_def revoke_def revoke_error_def require_owned_def require_visible_def require_node_generation_def Let_def
  by (intro quiet_rules)+ (induction fs; simp; intro quiet_rules; assumption)

lemma quiet_authorization: "quiet h (require_runtime_authorization cfg now f)"
  unfolding require_runtime_authorization_def by (intro quiet_rules quiet_helpers)

text \<open>Only a creation and a reconnection store a token.\<close>

fun issues :: "settings \<Rightarrow> pystr \<Rightarrow> request \<Rightarrow> bool" where
  "issues cfg h (Create now i raw q) \<longleftrightarrow> set_hash cfg raw = h"
| "issues cfg h (Connect_token now raw user t i) \<longleftrightarrow> set_hash cfg raw = h"
| "issues cfg h _ \<longleftrightarrow> False"

lemma quiet_create: "set_hash cfg raw \<noteq> h \<Longrightarrow> quiet h (fw_create cfg now i raw q)"
  unfolding fw_create_def replay_create_def create_new_def Let_def
  by (intro quiet_rules quiet_helpers quiet_authorization quiet_tokens(3))

lemma quiet_connect: "set_hash cfg raw \<noteq> h \<Longrightarrow> quiet h (fw_issue_connection cfg now raw user t i)"
  unfolding fw_issue_connection_def by (intro quiet_rules quiet_helpers quiet_authorization quiet_tokens(3))

lemma quiet_cleanup_one: "quiet h (cleanup_one cfg now i)"
proof -
  have "spent h (fst (cleanup_one cfg now i w))" if "spent h w" for w
  proof (cases "get_forward (w_db w) i")
    case None
    with that show ?thesis by (simp add: cleanup_one_def)
  next
    case (Some f)
    then show ?thesis by (cases rule: cleanup_one_result [of w i f cfg now]) (use that in \<open>auto simp: spent_def store_row_def\<close>)
  qed
  then show ?thesis by (simp add: quiet_def)
qed

lemma quiet_cleanup: "quiet h (fw_cleanup cfg now k a)"
proof -
  have "quiet h (cleanup_each cfg now is)" for "is"
    by (induction "is"; simp; intro quiet_rules quiet_cleanup_one; assumption)
  then show ?thesis unfolding fw_cleanup_def by (intro quiet_rules)
qed

lemma quiet_others:
  "quiet h (fw_list now user b)" "quiet h (fw_get now user i)" "quiet h (fw_stop now user i)"
  "quiet h (fw_redeem cfg now n i d k raw)" "quiet h (fw_renew cfg now n i g c)" "quiet h (fw_release n i g c)"
  unfolding fw_list_def fw_get_def fw_stop_def fw_redeem_def fw_renew_def fw_release_def Let_def
  by (intro quiet_rules quiet_helpers quiet_authorization)+

lemma spent_after: "\<not> issues cfg h q \<Longrightarrow> spent h w \<Longrightarrow> spent h (after cfg w q)"
proof -
  assume a: "\<not> issues cfg h q" "spent h w"
  have "quiet h (discard m)" if "quiet h m" for m :: "'b act"
    using that unfolding discard_def by (intro quiet_rules)
  then have "quiet h (fw_serve cfg q)"
    using a(1) by (cases q) (auto intro!: quiet_create quiet_connect quiet_cleanup quiet_others simp: discard_def intro: quiet_rules)
  then have "spent h (fst (fw_serve cfg q (w\<lparr>w_db := w_saved w\<rparr>)))" using a(2) by (simp add: quiet_def spent_def)
  then show ?thesis by (cases "fw_serve cfg q (w\<lparr>w_db := w_saved w\<rparr>)") (simp add: after_def run_request_def spent_def)
qed

lemma spent_run: "\<forall>q \<in> set qs. \<not> issues cfg h q \<Longrightarrow> spent h w \<Longrightarrow> spent h (foldl (after cfg) w qs)"
  by (induction qs arbitrary: w) (auto intro: spent_after)

lemma redeem_spends: "fw_redeem cfg now n i d k raw w = (w', Inr x) \<Longrightarrow> spent (set_hash cfg raw) w'"
proof -
  assume a: "fw_redeem cfg now n i d k raw w = (w', Inr x)"
  obtain g s p where "x = (g, s, p)" by (cases x)
  with redeem_result [of cfg now n i d k raw w w' g s p] a show ?thesis
    by (auto simp: redemption_def spent_def store_row_def pf_consume_def dict_pop_def delete_conv split: option.splits)
qed

lemma redeem_needs_token:
  assumes "spent (set_hash cfg raw) w"
  shows "\<exists>e. snd (fw_redeem cfg now n i d k raw w) = Inl e"
proof (cases "fw_redeem cfg now n i d k raw w")
  case (Pair w' r)
  show ?thesis
  proof (cases r)
    case (Inr x)
    obtain g s p where "x = (g, s, p)" by (cases x)
    with redeem_result [of cfg now n i d k raw w w' g s p] Pair Inr assms show ?thesis
      by (auto simp: redemption_def spent_def pf_consume_def pf_allow_def dict_pop_def Let_def split: option.splits prod.splits)
  qed (simp add: Pair)
qed

section \<open>Creation\<close>

definition intent_of :: "settings \<Rightarrow> create_request \<Rightarrow> pystr res" where
  "intent_of cfg q = intent_digest cfg (cr_session_id q) (cr_remote_port q) (cr_local_port q) (cr_client q) (cr_ttl q)"

text \<open>An answered creation has found the forward of its key or has added a new one.\<close>

definition replayed :: "settings \<Rightarrow> time \<Rightarrow> create_request \<Rightarrow> db \<Rightarrow> forward \<Rightarrow> db \<Rightarrow> bool" where
  "replayed cfg now q d f d' \<longleftrightarrow>
     (\<exists>k digest s p. cr_caller_request q = Some k \<and> get_by_caller d (u_id (cr_user q)) k = Some f \<and>
        intent_of cfg q = Inr digest \<and> f_caller_digest f = Some digest \<and> at_device_id (cr_token q) = Some (f_device_id f) \<and>
        live f \<and> now < f_expires f \<and> authorized cfg f s p d \<and> t_forwards d' = t_forwards d)"

definition chosen_ttl :: "policy \<Rightarrow> create_request \<Rightarrow> int" where
  "chosen_ttl p q = (case cr_ttl q of None \<Rightarrow> p_default_ttl p | Some t \<Rightarrow> if t = 0 then p_default_ttl p else t)"

definition created :: "settings \<Rightarrow> time \<Rightarrow> uuid \<Rightarrow> create_request \<Rightarrow> db \<Rightarrow> forward \<Rightarrow> node_row \<Rightarrow> db \<Rightarrow> bool" where
  "created cfg now i q d f n d' \<longleftrightarrow>
     (\<exists>digest device s. intent_of cfg q = Inr digest \<and> at_device_id (cr_token q) = Some (ud_id device) \<and>
        get_active_device d (u_id (cr_user q)) (ud_id device) = Some device \<and> first_active_ssh_key d (ud_id device) \<noteq> None \<and>
        get_session d (cr_session_id q) = Some s \<and> s_user_id s = u_id (cr_user q) \<and> session_running s \<and>
        get_node d (s_node_id s) = Some n \<and> n_status n \<in> set active_node_statuses \<and> capable n s \<and>
        port_allowed (node_policy cfg n) (cr_remote_port q) \<and> chosen_ttl (node_policy cfg n) q \<le> p_max_ttl (node_policy cfg n) \<and>
        f = new_forward now i q digest device s n (node_policy cfg n) (chosen_ttl (node_policy cfg n) q) \<and>
        within_quotas (node_policy cfg n) d f \<and> row_admissible f d \<and> t_forwards d' = t_forwards d @ [f])"

lemma get_active_device_id: "get_active_device d u i = Some x \<Longrightarrow> ud_id x = i"
  by (auto simp: get_active_device_def find_Some_iff)

definition tokenized :: "settings \<Rightarrow> time \<Rightarrow> pystr \<Rightarrow> forward \<Rightarrow> connection \<Rightarrow> world \<Rightarrow> bool" where
  "tokenized cfg now raw f c w \<longleftrightarrow> c = \<lparr>cn_token = raw, cn_expires = now + seconds (set_token_ttl cfg)\<rparr> \<and>
     map_of (pf_values (w_tokens w)) (set_hash cfg raw) = Some (\<lparr>pf_forward_id = f_id f, pf_device_id = f_device_id f,
       pf_ssh_key_id = f_ssh_key_id f\<rparr>, cn_expires c)"

lemma issue_stores: "pf_issue now s h c ttl = Inr t \<Longrightarrow> map_of (pf_values t) h = Some (c, now + seconds ttl)"
  by (auto simp: pf_issue_def map_of_update split: if_splits)

lemma replay_result:
  assumes "replay_create cfg now raw q device_id digest f w = (w', Inr (g, n, c))"
  shows "g = f" "f_caller_digest f = Some digest" "f_device_id f = device_id" "live f" "now < f_expires f"
    "\<exists>s p. authorized cfg f s p (w_db w)" "t_forwards (w_db w') = t_forwards (w_db w)" "w_saved w' = w_db w'"
    "tokenized cfg now raw f c w'"
  using assms by (auto simp: replay_create_def result tokenized_def dest!: issue_stores)

lemma new_forward_fields:
  "f_user_id (new_forward now i q digest device s n p ttl) = u_id (cr_user q)"
  "f_device_id (new_forward now i q digest device s n p ttl) = ud_id device"
  "f_session_id (new_forward now i q digest device s n p ttl) = s_id s"
  "f_caller_request (new_forward now i q digest device s n p ttl) = cr_caller_request q"
  "f_caller_digest (new_forward now i q digest device s n p ttl) = (if cr_caller_request q \<noteq> None then Some digest else None)"
  "f_status (new_forward now i q digest device s n p ttl) = F_pending"
  "f_id (new_forward now i q digest device s n p ttl) = i"
  by (simp_all add: new_forward_def)

lemma new_result:
  assumes "create_new cfg now i raw q device_id digest w = (w', Inr (f, n, c))" "at_device_id (cr_token q) = Some device_id"
    "intent_of cfg q = Inr digest"
  shows "created cfg now i q (w_db w) f n (w_db w')" "w_saved w' = w_db w'" "tokenized cfg now raw f c w'"
proof -
  obtain device where d: "get_active_device (w_db w) (u_id (cr_user q)) device_id = Some device"
    using assms(1) by (cases "get_active_device (w_db w) (u_id (cr_user q)) device_id") (auto simp: create_new_def result Let_def)
  have i: "ud_id device = device_id" using get_active_device_id [OF d] .
  obtain s where s: "get_session (w_db w) (cr_session_id q) = Some s"
    using assms(1) d by (auto simp: create_new_def result Let_def)
  show "created cfg now i q (w_db w) f n (w_db w')"
    unfolding created_def
    by (rule exI [of _ digest], rule exI [of _ device], rule exI [of _ s])
      (use assms d i s in \<open>auto simp: create_new_def result Let_def within_quotas_def new_forward_fields chosen_ttl_def\<close>)
  show "w_saved w' = w_db w'" "tokenized cfg now raw f c w'"
    using assms(1) d by (auto simp: create_new_def result Let_def tokenized_def dest!: issue_stores)
qed

lemma create_result:
  assumes "fw_create cfg now i raw q w = (w', Inr (f, n, c))"
  shows "replayed cfg now q (w_db w) f (w_db w') \<or> created cfg now i q (w_db w) f n (w_db w')"
    "w_saved w' = w_db w'" "tokenized cfg now raw f c w'"
proof -
  from assms obtain device_id digest where d: "at_device_id (cr_token q) = Some device_id" "intent_of cfg q = Inr digest"
    and run: "(case (case cr_caller_request q of None \<Rightarrow> None | Some k \<Rightarrow> get_by_caller (w_db w) (u_id (cr_user q)) k) of
       Some f \<Rightarrow> replay_create cfg now raw q device_id digest f w
     | None \<Rightarrow> create_new cfg now i raw q device_id digest w) = (w', Inr (f, n, c))"
    by (auto simp: fw_create_def result intent_of_def split: option.splits)
  have "(replayed cfg now q (w_db w) f (w_db w') \<or> created cfg now i q (w_db w) f n (w_db w')) \<and> w_saved w' = w_db w' \<and>
    tokenized cfg now raw f c w'"
  proof (cases "case cr_caller_request q of None \<Rightarrow> None | Some k \<Rightarrow> get_by_caller (w_db w) (u_id (cr_user q)) k")
    case None
    with run new_result [of cfg now i raw q device_id digest w w' f n c] d show ?thesis by auto
  next
    case (Some g)
    then obtain k where k: "cr_caller_request q = Some k" "get_by_caller (w_db w) (u_id (cr_user q)) k = Some g"
      by (auto split: option.splits)
    from run Some have r: "replay_create cfg now raw q device_id digest g w = (w', Inr (f, n, c))" by simp
    note r = replay_result [OF r]
    then have "replayed cfg now q (w_db w) f (w_db w')" using k d by (auto simp: replayed_def)
    with r show ?thesis by simp
  qed
  then show "replayed cfg now q (w_db w) f (w_db w') \<or> created cfg now i q (w_db w) f n (w_db w')"
    "w_saved w' = w_db w'" "tokenized cfg now raw f c w'" by auto
qed

end
