(* ===== verification/Forward_Cleanup.thy ===== *)
theory Forward_Cleanup
  imports Forward_Results
begin

text \<open>
  The background reconciliation: one call settles every forward of its batch and disturbs no other, and a
  pass over the batches (\<open>port_forwarding/cleanup.py\<close>) comes to its end with every forward settled.
\<close>

section \<open>One batch\<close>

definition calm :: "settings \<Rightarrow> time \<Rightarrow> uuid \<Rightarrow> db \<Rightarrow> bool" where
  "calm cfg now i d \<longleftrightarrow> (case get_forward d i of None \<Rightarrow> True | Some f \<Rightarrow> settled cfg now d f)"

definition live_id :: "db \<Rightarrow> uuid \<Rightarrow> bool" where
  "live_id d i \<longleftrightarrow> (case get_forward d i of None \<Rightarrow> False | Some f \<Rightarrow> live f)"

text \<open>What the reconciliation may do to the table.\<close>

definition tidied :: "settings \<Rightarrow> time \<Rightarrow> db \<Rightarrow> db \<Rightarrow> bool" where
  "tidied cfg now d d' \<longleftrightarrow> map f_id (t_forwards d') = map f_id (t_forwards d) \<and>
     (\<forall>i. calm cfg now i d \<longrightarrow> calm cfg now i d') \<and> (\<forall>i. live_id d' i \<longrightarrow> live_id d i)"

lemma tidied_refl: "tidied cfg now d d"
  by (simp add: tidied_def)

lemma tidied_trans: "tidied cfg now d d' \<Longrightarrow> tidied cfg now d' d'' \<Longrightarrow> tidied cfg now d d''"
  by (simp add: tidied_def)

lemma tidied_keyed: "tidied cfg now d d' \<Longrightarrow> keyed d' = keyed d"
  by (simp add: tidied_def keyed_def)

lemma settled_stored [simp]: "settled cfg now (stored f a d) g = settled cfg now d g"
proof -
  have "authorizable cfg g (stored f a d) = authorizable cfg g d"
    unfolding authorizable_def stored_def authorized_audits authorized_put ..
  then show ?thesis by (simp add: settled_def)
qed

lemma get_forward_stored: "get_forward (stored f a d) i = get_forward (put_forward_db f d) i"
  by (simp add: stored_def)

lemma stored_tidies:
  assumes f: "get_forward d i = Some f" and l: "life_step f f'" and s: "settled cfg now d f'"
  shows "tidied cfg now d (stored f' a d)" "calm cfg now i (stored f' a d)"
proof -
  have i: "f_id f' = i" using life_step_id [OF l] get_forward_row [OF f] by simp
  have self: "get_forward (stored f' a d) i = Some f'"
    using get_forward_put [OF f, of f'] life_step_id [OF l] by (simp add: get_forward_stored)
  have other: "get_forward (stored f' a d) j = get_forward d j" if "j \<noteq> i" for j
    using that i by (simp add: get_forward_stored get_forward_put_other)
  show c: "calm cfg now i (stored f' a d)" using self s by (simp add: calm_def)
  have "calm cfg now j d \<Longrightarrow> calm cfg now j (stored f' a d)" for j
    using c other [of j] by (cases "j = i") (simp_all add: calm_def split: option.splits)
  moreover have "live f" using l by (cases rule: life_step.cases) (auto simp: live_def non_terminal_statuses_def)
  then have "live_id (stored f' a d) j \<Longrightarrow> live_id d j" for j
    using other [of j] f by (cases "j = i") (simp_all add: live_id_def)
  ultimately show "tidied cfg now d (stored f' a d)"
    by (simp add: tidied_def stored_def put_ids)
qed

lemma cleanup_one_tidies:
  assumes "w_saved w = w_db w"
  obtains w' k where "cleanup_one cfg now i w = (w', Inr k)" "w_saved w' = w_db w'" "tidied cfg now (w_db w) (w_db w')"
    "calm cfg now i (w_db w')"
proof (cases "get_forward (w_db w) i")
  case None
  then show thesis using assms that [of w 0] by (simp add: cleanup_one_def tidied_refl calm_def)
next
  case (Some f)
  then show thesis
  proof (cases rule: cleanup_one_result [of w i f cfg now])
    case kept
    then show thesis using assms that [of w 0] Some by (simp add: tidied_refl calm_def)
  next
    case (moved f' a)
    then show thesis using that [OF moved(1)] stored_tidies [OF Some moved(2,3)] by (simp add: store_row_def)
  qed
qed

lemma cleanup_each_tidies:
  assumes "w_saved w = w_db w"
  obtains w' k where "cleanup_each cfg now is w = (w', Inr k)" "w_saved w' = w_db w'" "tidied cfg now (w_db w) (w_db w')"
    "\<And>i. i \<in> set is \<Longrightarrow> calm cfg now i (w_db w')"
  using assms
proof (induction "is" arbitrary: w thesis)
  case Nil
  then show ?case by (simp add: ret_def tidied_refl)
next
  case (Cons i "is")
  obtain w1 k where one: "cleanup_one cfg now i w = (w1, Inr k)" "w_saved w1 = w_db w1" "tidied cfg now (w_db w) (w_db w1)"
    "calm cfg now i (w_db w1)" using cleanup_one_tidies [OF Cons.prems(2)] by blast
  obtain w2 m where rest: "cleanup_each cfg now is w1 = (w2, Inr m)" "w_saved w2 = w_db w2"
    "tidied cfg now (w_db w1) (w_db w2)" "\<And>i. i \<in> set is \<Longrightarrow> calm cfg now i (w_db w2)"
    using Cons.IH [OF _ one(2)] by blast
  show ?case
  proof (rule Cons.prems(1))
    show "cleanup_each cfg now (i # is) w = (w2, Inr (k + m))" using one rest by (simp add: act_bind_def ret_def)
    show "w_saved w2 = w_db w2" by (rule rest(2))
    show "tidied cfg now (w_db w) (w_db w2)" by (rule tidied_trans [OF one(3) rest(3)])
    show "calm cfg now j (w_db w2)" if "j \<in> set (i # is)" for j
      using that one(4) rest(3,4) by (auto simp: tidied_def)
  qed
qed

section \<open>A pass\<close>

text \<open>
  The loop of \<open>run_port_forward_cleanup\<close> until its cursor is reset: every round is a request of its own; a
  round that fails is logged and its cursor tried again.
\<close>

fun cleanup_pass :: "settings \<Rightarrow> time \<Rightarrow> nat \<Rightarrow> nat \<Rightarrow> uuid option \<Rightarrow> world \<Rightarrow> world \<times> bool" where
  "cleanup_pass cfg now limit 0 cursor w = (w, False)"
| "cleanup_pass cfg now limit (Suc rounds) cursor w =
     (case run_request (fw_cleanup cfg now limit cursor) w of
        (w', Inl e) \<Rightarrow> cleanup_pass cfg now limit rounds cursor w'
      | (w', Inr (changed, None)) \<Rightarrow> (w', True)
      | (w', Inr (changed, Some c)) \<Rightarrow> cleanup_pass cfg now limit rounds (Some c) w')"

definition above :: "uuid option \<Rightarrow> uuid \<Rightarrow> bool" where
  "above cursor i \<longleftrightarrow> (case cursor of None \<Rightarrow> True | Some c \<Rightarrow> c < i)"

definition pending_ids :: "db \<Rightarrow> uuid option \<Rightarrow> uuid list" where
  "pending_ids d cursor = sort (map f_id (filter (\<lambda>f. live f \<and> above cursor (f_id f)) (t_forwards d)))"

lemma listed_ids: "list_non_terminal_ids d limit cursor = take limit (pending_ids d cursor)"
  by (simp add: list_non_terminal_ids_def pending_ids_def live_def above_def)

lemma pending_set:
  assumes "keyed d"
  shows "i \<in> set (pending_ids d cursor) \<longleftrightarrow> live_id d i \<and> above cursor i" "distinct (pending_ids d cursor)" "sorted (pending_ids d cursor)"
proof -
  have "live_id d i \<longleftrightarrow> (\<exists>f \<in> set (t_forwards d). f_id f = i \<and> live f)"
  proof
    show "live_id d i \<Longrightarrow> \<exists>f \<in> set (t_forwards d). f_id f = i \<and> live f"
      by (auto simp: live_id_def dest: get_forward_row split: option.splits)
    show "\<exists>f \<in> set (t_forwards d). f_id f = i \<and> live f \<Longrightarrow> live_id d i"
      using get_forward_keyed [OF assms] by (auto simp: live_id_def)
  qed
  then show "i \<in> set (pending_ids d cursor) \<longleftrightarrow> live_id d i \<and> above cursor i" by (auto simp: pending_ids_def)
  show "distinct (pending_ids d cursor)" "sorted (pending_ids d cursor)"
    using assms by (auto simp: pending_ids_def keyed_def distinct_map intro: inj_on_subset)
qed

lemma sorted_page:
  assumes "sorted xs" "distinct xs" "x \<in> set xs" "take k xs \<noteq> []" "x \<le> last (take k xs)"
  shows "x \<in> set (take k xs)"
proof (rule ccontr)
  assume n: "x \<notin> set (take k xs)"
  have x: "x \<in> set (drop k xs)" using assms(3) n by (metis UnE append_take_drop_id set_append)
  have l: "last (take k xs) \<in> set (take k xs)" using assms(4) by simp
  have "sorted (take k xs @ drop k xs)" using assms(1) by simp
  then have "last (take k xs) \<le> x" using l x unfolding sorted_append by blast
  with assms(5) have "x = last (take k xs)" by simp
  with l n show False by simp
qed

lemma cleanup_round:
  assumes k: "keyed (w_saved w)" and lim: "0 < limit"
  obtains (more) w' m c where "run_request (fw_cleanup cfg now limit cursor) w = (w', Inr (m, Some c))"
      "w_saved w' = w_db w'" "tidied cfg now (w_saved w) (w_saved w')" "live_id (w_saved w) c" "above cursor c"
      "\<And>i. above cursor i \<Longrightarrow> \<not> above (Some c) i \<Longrightarrow> calm cfg now i (w_saved w')"
  | (final) w' m where "run_request (fw_cleanup cfg now limit cursor) w = (w', Inr (m, None))"
      "w_saved w' = w_db w'" "tidied cfg now (w_saved w) (w_saved w')" "\<And>i. above cursor i \<Longrightarrow> calm cfg now i (w_saved w')"
proof -
  let ?w = "w\<lparr>w_db := w_saved w\<rparr>"
  let ?d = "w_saved w"
  define ids where "ids = take limit (pending_ids ?d cursor)"
  have s: "w_saved ?w = w_db ?w" by simp
  obtain w' m where each: "cleanup_each cfg now ids ?w = (w', Inr m)" "w_saved w' = w_db w'"
    "tidied cfg now (w_db ?w) (w_db w')" "\<And>i. i \<in> set ids \<Longrightarrow> calm cfg now i (w_db w')"
    using cleanup_each_tidies [OF s] by blast
  have t: "tidied cfg now ?d (w_saved w')" using each by simp
  have dead: "calm cfg now i (w_saved w')" if "\<not> live_id ?d i" for i
  proof -
    have "calm cfg now i ?d" using that by (auto simp: calm_def live_id_def settled_def split: option.splits)
    with t show ?thesis by (simp add: tidied_def)
  qed
  have run: "run_request (fw_cleanup cfg now limit cursor) w =
      (w'\<lparr>w_db := w_saved w'\<rparr>, if length ids = limit then Inr (m, Some (last ids)) else Inr (m, None))"
    using each lim by (auto simp: run_request_def fw_cleanup_def act_bind_def query_def listed_ids ids_def [symmetric] ret_def throw_def)
  show thesis
  proof (cases "length ids = limit")
    case True
    then have ne: "ids \<noteq> []" using lim by auto
    then have "last ids \<in> set (pending_ids ?d cursor)" unfolding ids_def by (meson in_set_takeD last_in_set)
    then have l: "live_id ?d (last ids)" "above cursor (last ids)" using pending_set(1) [OF k] by auto
    have "calm cfg now i (w_saved w')" if "above cursor i" "\<not> above (Some (last ids)) i" for i
    proof (cases "live_id ?d i")
      case True
      then have "i \<in> set ids" unfolding ids_def
        using that ne pending_set [OF k] by (intro sorted_page) (auto simp: above_def ids_def)
      then show ?thesis using each by simp
    qed (rule dead)
    then show thesis using more [of _ m "last ids"] run True t l by simp
  next
    case False
    then have "ids = pending_ids ?d cursor" by (simp add: ids_def)
    then have "calm cfg now i (w_saved w')" if "above cursor i" for i
      using that each pending_set(1) [OF k] dead by (cases "live_id ?d i") auto
    then show thesis using final [of _ m] run False t by simp
  qed
qed

lemma pending_shrinks:
  assumes "keyed d" "tidied cfg now d d'" "live_id d c" "above cursor c"
  shows "length (pending_ids d' (Some c)) < length (pending_ids d cursor)"
proof -
  have k: "keyed d'" using tidied_keyed [OF assms(2)] assms(1) by simp
  have "set (pending_ids d' (Some c)) \<subset> set (pending_ids d cursor)"
  proof
    show "set (pending_ids d' (Some c)) \<subseteq> set (pending_ids d cursor)"
      using pending_set(1) [OF k] pending_set(1) [OF assms(1)] assms(2,4)
      by (auto simp: tidied_def above_def split: option.splits)
    show "set (pending_ids d' (Some c)) \<noteq> set (pending_ids d cursor)"
      using pending_set(1) [OF k, of c "Some c"] pending_set(1) [OF assms(1), of c cursor] assms(3,4) by (auto simp: above_def)
  qed
  then show ?thesis
    using psubset_card_mono [OF finite_set] distinct_card [OF pending_set(2) [OF k]] distinct_card [OF pending_set(2) [OF assms(1)]]
    by metis
qed

lemma pass_settles:
  assumes "keyed (w_saved w)" "0 < limit" "length (pending_ids (w_saved w) cursor) < rounds"
    "\<And>i. \<not> above cursor i \<Longrightarrow> calm cfg now i (w_saved w)"
  obtains w' where "cleanup_pass cfg now limit rounds cursor w = (w', True)" "tidied cfg now (w_saved w) (w_saved w')"
    "\<And>i. calm cfg now i (w_saved w')"
  using assms
proof (induction rounds arbitrary: cursor w thesis)
  case (Suc rounds)
  show ?case
  proof (cases rule: cleanup_round [OF Suc.prems(2,3), of cfg now cursor, case_names more final])
    case (more w1 m c)
    have k: "keyed (w_saved w1)" using tidied_keyed [OF more(3)] Suc.prems(2) by simp
    have "length (pending_ids (w_saved w1) (Some c)) < rounds"
      using pending_shrinks [OF Suc.prems(2) more(3-5)] Suc.prems(4) by simp
    moreover have "calm cfg now i (w_saved w1)" if "\<not> above (Some c) i" for i
      using more(3,6) Suc.prems(5) that by (cases "above cursor i") (auto simp: tidied_def)
    ultimately obtain w' where w': "cleanup_pass cfg now limit rounds (Some c) w1 = (w', True)"
      "tidied cfg now (w_saved w1) (w_saved w')" "\<And>i. calm cfg now i (w_saved w')"
      using Suc.IH [OF _ k Suc.prems(3), of "Some c"] by blast
    show ?thesis
      by (rule Suc.prems(1) [of w']) (use more(1) w' tidied_trans [OF more(3) w'(2)] in simp_all)
  next
    case (final w1 m)
    show ?thesis
    proof (rule Suc.prems(1) [of w1])
      show "calm cfg now i (w_saved w1)" for i
        using final(3,4) Suc.prems(5) by (cases "above cursor i") (auto simp: tidied_def)
    qed (use final in simp_all)
  qed
qed simp

end
