(* ===== verification/Forward_Contract.thy ===== *)
theory Forward_Contract
  imports Forward_Safety Forward_Cleanup
begin

text \<open>The properties of the port forwarding service, each with a run that shows it at work.\<close>

section \<open>A small installation\<close>

definition ex_settings :: settings where
  "ex_settings = \<lparr>set_enabled = True, set_min_port = 1024, set_max_port = 65535, set_max_per_user = 2, set_max_per_device = 2,
     set_max_per_session = 2, set_max_streams = 8, set_default_ttl = 600, set_max_ttl = 3600, set_lease = 60, set_grace = 10,
     set_bytes_per_second = 0, set_token_ttl = 30, set_create_rate = 5, set_redeem_rate = 5, set_hash = (\<lambda>x. x),
     set_sha = (\<lambda>_. []), set_uuid_text = (\<lambda>_. [])\<rparr>"

definition ex_node :: node_row where
  "ex_node = \<lparr>n_id = 6, n_status = ''healthy'', n_policy = [],
     n_capabilities = [(lit ''session_port_forwarding'', JObject [(lit ''supported'', JBool True),
       (lit ''backends'', JArray [JString [98]]), (lit ''protocol_versions'', JArray [JInt 1]), (lit ''max_streams'', JInt 8)])],
     n_wireguard_ip = Some [49], n_ssh_user = None, n_ssh_port = None\<rparr>"

definition ex_user :: user_row where "ex_user = \<lparr>u_id = 1, u_role = ''user'', u_status = ''active''\<rparr>"

definition ex_db :: db where
  "ex_db = \<lparr>t_users = [ex_user], t_devices = [\<lparr>ud_id = 2, ud_user_id = 1, ud_name = [], ud_platform = ''macos'', ud_status = ''active''\<rparr>],
     t_keys = [\<lparr>k_id = 3, k_device_id = 2, k_status = ''active'', k_created = 0\<rparr>],
     t_sessions = [\<lparr>s_id = 4, s_user_id = 1, s_node_id = 6, s_status = ''running'', s_tool_type = ''claude'', s_runtime_resource = Some [114],
       s_tmux = None, s_device_protocol = None,
       s_tool_account_id = 5, s_backend = [98], s_workspace_id = 8, s_updated = 0\<rparr>],
     t_accounts = [\<lparr>ta_id = 5, ta_user_id = 1, ta_tool_type = ''claude'', ta_status = ''active''\<rparr>], t_nodes = [ex_node], t_forwards = [], t_audits = []\<rparr>"

definition ex_world :: world where
  "ex_world = \<lparr>w_db = ex_db, w_saved = ex_db, w_tokens = pf_new_store\<rparr>"

definition ex_request :: create_request where
  "ex_request = \<lparr>cr_user = ex_user, cr_token = \<lparr>at_user_id = 1, at_device_id = Some 2\<rparr>, cr_session_id = 4,
     cr_remote_port = 8080, cr_local_port = 8080, cr_client = [99], cr_caller_request = Some 77, cr_ttl = None\<rparr>"

definition ex_create :: request where "ex_create = Create 0 9 [116] ex_request"
definition ex_redeem :: request where "ex_redeem = Redeem 5 ex_node 9 2 3 [116]"

definition ex_created :: world where "ex_created = after ex_settings ex_world ex_create"
definition ex_connected :: world where "ex_connected = after ex_settings ex_created ex_redeem"

definition is_ok :: "world \<times> 'a res \<Rightarrow> bool" where
  "is_ok x = (case snd x of Inl _ \<Rightarrow> False | Inr _ \<Rightarrow> True)"

lemma ex_ok: "is_ok m \<Longrightarrow> \<exists>x. m = (fst m, Inr x)"
  by (cases m) (auto simp: is_ok_def split: sum.splits)

lemma ex_run:
  "map (\<lambda>f. (f_id f, f_status f, f_generation f, f_lease f)) (t_forwards (w_saved ex_created)) = [(9, F_pending, 0, None)]"
  "map (\<lambda>f. (f_id f, f_status f, f_generation f, f_lease f)) (t_forwards (w_saved ex_connected)) = [(9, F_active, 1, Some 60000005)]"
  by code_simp+

lemma ex_facts:
  "keyed ex_db" "w_saved ex_world = ex_db" "keyed (w_saved ex_created)" "t_forwards ex_db = []"
  "get_forward (w_saved ex_created) 9 = Some (hd (t_forwards (w_saved ex_created)))"
  "get_forward (w_saved ex_connected) 9 = Some (hd (t_forwards (w_saved ex_connected)))"
  by code_simp+

lemma ex_evolves: "evolves late D ex_settings {} ex_world ex_created" "evolves late D ex_settings {9} ex_created ex_connected"
  "evolves late D ex_settings {} ex_world ex_connected"
  unfolding ex_connected_def ex_created_def ex_redeem_def by (intro evolves.intros; simp)+

text \<open>
  A forward is stopped by a request that read it while it was pending; by the time of the write a node is
  connected. Then another service revokes the forwards of the session.
\<close>

definition ex_late :: world where
  "ex_late = (let d = flush_forwards (w_saved ex_created) (w_saved (after ex_settings ex_created (Stop 6 ex_user 9)))
       (w_saved ex_connected) in ex_connected\<lparr>w_db := d, w_saved := d\<rparr>)"

definition ex_scope :: revoke_scope where
  "ex_scope = \<lparr>rv_user = None, rv_device = None, rv_session = Some 4, rv_node = None, rv_account = Some 5\<rparr>"

definition ex_revoked :: world where
  "ex_revoked = after_revocation 7 ''tool_account_revoked'' (Some 1) ex_scope ex_connected"

lemma ex_writers:
  "map (\<lambda>f. (f_status f, f_generation f, f_lease f, f_reason f)) (t_forwards (w_saved ex_late)) =
     [(F_stopped, 1, Some 60000005, Some ''user_stopped'')]"
  "map (\<lambda>f. (f_status f, f_generation f, f_lease f, f_reason f)) (t_forwards (w_saved ex_revoked)) =
     [(F_revoked, 1, None, Some ''tool_account_revoked'')]"
  by code_simp+

lemma ex_late_run: "evolves True D ex_settings {} ex_world ex_late"
proof -
  have a: "evolves True D ex_settings {} ex_world ex_created"
    unfolding ex_created_def ex_create_def by (intro evolves.intros; simp)
  have b: "evolves True D ex_settings ({} \<union> row_ids (w_saved ex_created)) ex_created ex_connected"
    unfolding ex_connected_def ex_redeem_def by (intro evolves.intros; simp)
  have "evolves True D ex_settings {} ex_world (let d = flush_forwards (w_saved ex_created)
      (w_saved (after ex_settings ex_created (Stop 6 ex_user 9))) (w_saved ex_connected) in ex_connected\<lparr>w_db := d, w_saved := d\<rparr>)"
    unfolding Let_def by (rule Late [OF TrueI a b _ refl]) simp
  then show ?thesis by (simp add: ex_late_def)
qed

lemma ex_revoked_run: "evolves late D ex_settings {9} ex_created ex_revoked"
  unfolding ex_revoked_def by (rule Revoke [OF ex_evolves(2)])

section \<open>The lifecycle\<close>

text \<open>
  C2. Refinement. Whatever request runs, with whatever outcome, what it leaves saved is reached from what was
  saved before by steps of the abstract machine: rows are admitted under a policy, bound to a key, connected
  with a new generation, renewed, released, lapsed or ended; nothing else happens to the table of forwards.
\<close>

theorem requests_refine_lifecycle:
  assumes "keyed (w_saved w)"
  shows "(table_step cfg)\<^sup>*\<^sup>* (w_saved w) (w_saved (after cfg w q))"
  using assms by (rule serve_run)

theorem requests_refine_lifecycle_witness:
  "(table_step ex_settings)\<^sup>*\<^sup>* ex_db (w_saved ex_created) \<and> t_forwards (w_saved ex_created) \<noteq> []"
proof
  show "(table_step ex_settings)\<^sup>*\<^sup>* ex_db (w_saved ex_created)"
    using requests_refine_lifecycle [of ex_world ex_settings ex_create] ex_facts by (simp add: ex_created_def)
  show "t_forwards (w_saved ex_created) \<noteq> []" by code_simp
qed

text \<open>
  C19. In every run, interleaving requests and single forwards of a reconciliation batch with the revocations of
  other services, with changes of the other tables and with the deletion of users, devices, sessions and nodes: a
  forward goes only with what it belongs to. Otherwise it keeps its owner, its ports and its expiry, its traffic
  totals and its generation never decrease, a key once bound stays, it becomes active only with a new generation,
  and once it is stopped, expired or revoked it never changes again. Where requests may write late, after a read
  without a lock, an ended forward stays ended with the same work, but may be ended again.
\<close>

theorem forward_history:
  assumes "evolves late D cfg U w w'" "keyed (w_saved w)" "i \<in> U" "get_forward (w_saved w) i = Some f"
  shows "case get_forward (w_saved w') i of
      None \<Rightarrow> list_ex (\<lambda>owner. belongs_to owner f) D
    | Some g \<Rightarrow> fate late f g"
  using evolves_rows(2) [OF assms(1,2)] assms(3,4) by (force simp: keeps_rows_def becomes_def)

theorem forward_history_witness:
  "\<exists>g. get_forward (w_saved ex_revoked) 9 = Some g \<and> fate False (hd (t_forwards (w_saved ex_created))) g \<and> f_status g = F_revoked"
proof -
  have g: "get_forward (w_saved ex_revoked) 9 = Some (hd (t_forwards (w_saved ex_revoked)))"
    "f_status (hd (t_forwards (w_saved ex_revoked))) = F_revoked" by code_simp+
  from forward_history [OF ex_revoked_run [of False "[]"] ex_facts(3) _ ex_facts(5)] g show ?thesis by simp
qed

text \<open>
  C36. Every row that a run from an empty table leaves, whoever wrote it, is well-formed: a lease while active, a
  bound key and a generation once connected, no traffic while pending, an end time and a reason exactly when ended,
  an expiry that is not early, generation counters within the totals, ports in range. A lease is there only while
  active, unless a request writes late: then an ended row may keep the lease it got in between.
\<close>

theorem forwards_well_formed:
  assumes "evolves late D cfg U w w'" "t_forwards (w_saved w) = []" "f \<in> set (t_forwards (w_saved w'))"
  shows "row_ok late f"
  using evolves_ok [OF assms(1)] assms(2,3) by (simp add: keyed_def rows_ok_def)

theorem forwards_well_formed_witness:
  "row_ok False (hd (t_forwards (w_saved ex_connected))) \<and> f_status (hd (t_forwards (w_saved ex_connected))) = F_active \<and>
   row_ok True (hd (t_forwards (w_saved ex_late))) \<and> \<not> row_ok False (hd (t_forwards (w_saved ex_late)))"
proof (intro conjI)
  have "hd (t_forwards (w_saved ex_connected)) \<in> set (t_forwards (w_saved ex_connected))"
    "hd (t_forwards (w_saved ex_late)) \<in> set (t_forwards (w_saved ex_late))" by code_simp+
  then show "row_ok False (hd (t_forwards (w_saved ex_connected)))" "row_ok True (hd (t_forwards (w_saved ex_late)))"
    using forwards_well_formed [OF ex_evolves(3)] forwards_well_formed [OF ex_late_run] ex_facts by simp_all
  show "f_status (hd (t_forwards (w_saved ex_connected))) = F_active" "\<not> row_ok False (hd (t_forwards (w_saved ex_late)))"
    by code_simp+
qed

text \<open>
  Quotas. A request never leaves more live forwards of a user, a device or a session than there were,
  unless their number is within the limit that the policy of a node allows.
\<close>

theorem quotas_respected:
  assumes "keyed (w_saved w)"
  shows "limited cfg p_max_per_user (\<lambda>f. f_user_id f = u) (w_saved w) (w_saved (after cfg w q)) \<and>
    limited cfg p_max_per_device (\<lambda>f. f_device_id f = u) (w_saved w) (w_saved (after cfg w q)) \<and>
    limited cfg p_max_per_session (\<lambda>f. f_session_id f = u) (w_saved w) (w_saved (after cfg w q))"
  using limited_run [OF serve_run [OF assms] assms] table_step_limited by blast

theorem quotas_respected_witness:
  "limited ex_settings p_max_per_user (\<lambda>f. f_user_id f = 1) ex_db (w_saved ex_created) \<and>
   count_active ex_db (\<lambda>f. f_user_id f = 1) = 0 \<and> count_active (w_saved ex_created) (\<lambda>f. f_user_id f = 1) = 1"
proof (intro conjI)
  show "limited ex_settings p_max_per_user (\<lambda>f. f_user_id f = 1) ex_db (w_saved ex_created)"
    using quotas_respected [of ex_world ex_settings 1 ex_create] ex_facts by (simp add: ex_created_def)
qed code_simp+

section \<open>Tokens\<close>

text \<open>
  C28. A node is given a connection exactly for a live, unexpired forward of its own, for the bound device and an
  active key of it, within the rate, with a token that is stored unexpired for this forward, this device and this
  key or no key, while the user, the device, the account and the session are active and the node is available,
  supports the session and allows the port. Then the token is gone, the generation is the next one with its
  counters at zero, the forward is active under a lease, bound to the key, and this is saved; otherwise the node
  is given nothing.
\<close>

theorem redeem_exact:
  "fw_redeem cfg now n i device_id key raw w = (w', Inr (g, s, p)) \<longleftrightarrow> redemption cfg now n i device_id key raw w w' g s p"
  by (rule redeem_result)

definition ex_grant where
  "ex_grant = fw_redeem ex_settings 5 ex_node 9 2 3 [116] (ex_created\<lparr>w_db := w_saved ex_created\<rparr>)"

theorem redeem_exact_witness:
  "\<exists>w' g s p. redemption ex_settings 5 ex_node 9 2 3 [116] (ex_created\<lparr>w_db := w_saved ex_created\<rparr>) w' g s p \<and>
     get_forward (w_saved w') 9 = Some g"
proof -
  have ok: "is_ok ex_grant" by code_simp
  from ex_ok [OF ok] obtain w' g s p where e: "ex_grant = (w', Inr (g, s, p))" by (metis prod.collapse)
  then have r: "redemption ex_settings 5 ex_node 9 2 3 [116] (ex_created\<lparr>w_db := w_saved ex_created\<rparr>) w' g s p"
    unfolding ex_grant_def redeem_exact .
  then have "get_forward (w_saved w') 9 = Some g"
    by (auto simp: redemption_def store_row_def connected_def get_forward_stored intro!: get_forward_put)
  with r show ?thesis by blast
qed

text \<open>
  C22. A connection token opens a forward once: after a successful redemption no node, device or key can
  redeem the same token again, whatever requests come in between, unless it is issued anew.
\<close>

theorem token_redeemed_once:
  assumes "fw_redeem cfg now n i device_id key raw w = (w', Inr x)"
    and "\<forall>q \<in> set qs. \<not> issues cfg (set_hash cfg raw) q"
  shows "\<exists>e. snd (run_request (fw_redeem cfg now' n' i' device_id' key' raw) (foldl (after cfg) w' qs)) = Inl e"
proof -
  have "spent (set_hash cfg raw) (foldl (after cfg) w' qs)"
    by (rule spent_run [OF assms(2) redeem_spends [OF assms(1)]])
  then have "\<exists>e. snd (fw_redeem cfg now' n' i' device_id' key' raw
      ((foldl (after cfg) w' qs)\<lparr>w_db := w_saved (foldl (after cfg) w' qs)\<rparr>)) = Inl e"
    by (intro redeem_needs_token) (simp add: spent_def)
  then show ?thesis by (auto simp: run_request_def split: prod.split)
qed

theorem token_redeemed_once_witness:
  "\<exists>e. snd (run_request (fw_redeem ex_settings 7 ex_node 9 2 3 [116])
     (foldl (after ex_settings) (fst ex_grant) [Get 6 ex_user 9, Stop 6 ex_user 9])) = Inl e"
proof -
  have "is_ok ex_grant" by code_simp
  from ex_ok [OF this] obtain x where "ex_grant = (fst ex_grant, Inr x)" by blast
  from token_redeemed_once [OF this [unfolded ex_grant_def], of "[Get 6 ex_user 9, Stop 6 ex_user 9]"]
  show ?thesis by (simp add: ex_grant_def)
qed

section \<open>Creation\<close>





section \<open>Fencing and reconciliation\<close>

text \<open>
  A node with an old connection is fenced off: once a forward has moved on to a later generation, a renewal
  or a release with the old one fails, in every later state, and saves nothing.
\<close>

theorem stale_generation_fenced:
  assumes "evolves late D cfg U w w'" "keyed (w_saved w)" "i \<in> U" "get_forward (w_saved w) i = Some f" "old < f_generation f"
  shows "\<exists>e e'. run_request (fw_renew cfg now n i old c) w' = (w'\<lparr>w_db := w_saved w'\<rparr>, Inl e) \<and>
    run_request (fw_release n i old c) w' = (w'\<lparr>w_db := w_saved w'\<rparr>, Inl e')"
proof -
  have "f_generation g \<noteq> old" if "get_forward (w_saved w') i = Some g" for g
    using evolves_rows(2) [OF assms(1,2)] assms(3,4,5) that fateD(3) [of late f g]
    by (force simp: keeps_rows_def becomes_def advances_def)
  then have "\<exists>e. require_node_generation n i old (w'\<lparr>w_db := w_saved w'\<rparr>) = (w'\<lparr>w_db := w_saved w'\<rparr>, Inl e)"
    by (auto simp: require_node_generation_def act_bind_def query_def check_def ret_def api_error_def throw_def
        split: option.split)
  then show ?thesis by (auto simp: run_request_def fw_renew_def fw_release_def act_bind_def)
qed

text \<open>
  C25. The reconciliation comes to an end and leaves nothing behind. A pass over the batches, started without a
  cursor, resets its cursor after at most one round more than there are live forwards; then every forward that
  is still live is neither expired nor without its authorization nor active under a lapsed lease, and none has
  become live that was not.
\<close>

theorem cleanup_pass_settles:
  assumes "keyed (w_saved w)" "0 < limit" "length (pending_ids (w_saved w) None) < rounds"
  shows "\<exists>w'. cleanup_pass cfg now limit rounds None w = (w', True) \<and>
    list_all (settled cfg now (w_saved w')) (t_forwards (w_saved w')) \<and> tidied cfg now (w_saved w) (w_saved w')"
proof -
  obtain w' where w': "cleanup_pass cfg now limit rounds None w = (w', True)" "tidied cfg now (w_saved w) (w_saved w')"
    "\<And>i. calm cfg now i (w_saved w')"
    by (rule pass_settles [OF assms, where cfg = cfg and now = now]) (auto simp: above_def)
  have "keyed (w_saved w')" using tidied_keyed [OF w'(2)] assms(1) by simp
  then have "settled cfg now (w_saved w') f" if "f \<in> set (t_forwards (w_saved w'))" for f
    using w'(3) [of "f_id f"] get_forward_keyed that by (simp add: calm_def)
  with w' show ?thesis by (auto simp: list_all_iff)
qed

text \<open>A second forward, and a time at which the lease has lapsed and then everything has expired.\<close>

definition ex_two :: world where
  "ex_two = after ex_settings ex_connected (Create 6 8 [118] (ex_request\<lparr>cr_caller_request := None\<rparr>))"

theorem cleanup_pass_settles_witness:
  "(\<exists>w'. cleanup_pass ex_settings 70000000 1 3 None ex_two = (w', True) \<and>
      list_all (settled ex_settings 70000000 (w_saved w')) (t_forwards (w_saved w')) \<and>
      tidied ex_settings 70000000 (w_saved ex_two) (w_saved w')) \<and>
   map f_status (t_forwards (w_saved ex_two)) = [F_active, F_pending] \<and>
   map f_status (t_forwards (w_saved (fst (cleanup_pass ex_settings 70000000 1 3 None ex_two)))) = [F_disconnected, F_pending]"
proof (intro conjI)
  have "keyed (w_saved ex_two)" "length (pending_ids (w_saved ex_two) None) < 3" by code_simp+
  from cleanup_pass_settles [OF this(1) zero_less_one this(2)]
  show "\<exists>w'. cleanup_pass ex_settings 70000000 1 3 None ex_two = (w', True) \<and>
      list_all (settled ex_settings 70000000 (w_saved w')) (t_forwards (w_saved w')) \<and>
      tidied ex_settings 70000000 (w_saved ex_two) (w_saved w')" .
qed code_simp+

end
