(* ===== verification/Device_Model.thy ===== *)
theory Device_Model
  imports Rows Relay_Hub
begin

text \<open>
  The data of device control: the tables of \<open>models/sessions.py\<close> and \<open>models/nodes.py\<close> that the device
  sessions live in, with the check constraints and unique indexes that every flush has to satisfy, the
  queries of \<open>repositories/device_sessions.py\<close>, and the world of a request: the database, the relay store
  of one-time material and the relay hub of the process.
\<close>

section \<open>Rows\<close>

datatype device_status =
    DS_pending_device | DS_pending_user_approval | DS_active | DS_stopping | DS_stopped | DS_denied | DS_expired | DS_failed

record device_session =
  ds_id :: uuid
  ds_user_id :: uuid
  ds_device_id :: uuid
  ds_tool_session_id :: "uuid option"
  ds_reference_id :: uuid
  ds_node_id :: uuid
  ds_platform :: string
  ds_status :: device_status
  ds_generation :: int
  ds_mode :: string
  ds_policy_version :: int
  ds_authorized :: "time option"
  ds_lease :: "time option"
  ds_expires :: time
  ds_lock :: "time option"
  ds_stopped :: "time option"
  ds_reason :: "string option"
  ds_created :: time

record approval =
  da_session_id :: uuid
  da_digest :: pystr
  da_level :: string
  da_result :: string
  da_clipboard :: bool
  da_correlation :: uuid

text \<open>
  The text of a task id puts a word, the session's id, its generation and, for an update, the lease into one
  string; the parts can be read back from it, so they stand for it. The constant entries of a payload (protocol
  version, platform) are left out.
\<close>

datatype task_id =
    Activate_id uuid int
  | Deactivate_id uuid int
  | Update_id uuid int int

record task_scope =
  tc_mode :: string
  tc_policy_version :: int
  tc_user_id :: uuid
  tc_device_id :: uuid
  tc_tool_session_id :: uuid
  tc_device_session_id :: uuid
  tc_node_id :: uuid
  tc_generation :: int

datatype task_payload =
    Activate task_scope time pystr "pystr option"
  | Deactivate uuid uuid int
  | Update_context task_scope time "pystr list"

record node_task =
  nt_task_id :: task_id
  nt_node_id :: uuid
  nt_payload :: task_payload

record control_db =
  c_devices :: "device_row list"
  c_sessions :: "session_row list"
  c_nodes :: "node_row list"
  c_workspaces :: "workspace_row list"
  c_tokens :: "token_row list"
  c_device_sessions :: "device_session list"
  c_approvals :: "approval list"
  c_tasks :: "node_task list"
  c_audits :: "audit_row list"

definition max_generation :: int where "max_generation = 2 ^ 63 - 1"
definition max_active_generation :: int where "max_active_generation = max_generation - 1"

definition terminal_device_statuses :: "device_status list" where
  "terminal_device_statuses = [DS_stopped, DS_denied, DS_expired, DS_failed]"

abbreviation full_trust :: string where "full_trust \<equiv> ''session_full_trust''"
abbreviation per_application :: string where "per_application \<equiv> ''per_application_approval''"

definition dv_terminal :: "device_session \<Rightarrow> bool" where
  "dv_terminal s \<longleftrightarrow> ds_status s \<in> set terminal_device_statuses"

section \<open>Constraints\<close>

definition session_admissible :: "device_session \<Rightarrow> bool" where
  "session_admissible s \<longleftrightarrow> ds_platform s = ''macos'' \<and> (ds_mode s = per_application \<or> ds_mode s = full_trust) \<and>
     ds_policy_version s = 1 \<and>
     (ds_mode s = full_trust \<and> ds_authorized s \<noteq> None \<or> ds_mode s = per_application \<and> ds_authorized s = None) \<and>
     1 \<le> ds_generation s \<and> ds_generation s \<le> max_generation \<and>
     (ds_generation s \<le> max_active_generation \<or> dv_terminal s)"

definition sessions_admissible :: "device_session list \<Rightarrow> bool" where
  "sessions_admissible rows \<longleftrightarrow> distinct (map ds_id rows) \<and> list_all session_admissible rows \<and>
     unique_index (\<lambda>s. ds_tool_session_id s \<noteq> None \<and> \<not> dv_terminal s) ds_tool_session_id rows \<and>
     unique_index (\<lambda>s. \<not> dv_terminal s) ds_device_id rows \<and>
     unique_index (\<lambda>s. ds_lock s \<noteq> None) ds_device_id rows"

definition store_sessions :: "device_session list \<Rightarrow> control_db \<Rightarrow> control_db res" where
  "store_sessions rows d = (if sessions_admissible rows then Inr (d\<lparr>c_device_sessions := rows\<rparr>) else Inl integrity_error)"

definition save_session :: "device_session \<Rightarrow> control_db \<Rightarrow> control_db res" where
  "save_session s d = store_sessions (put_row ds_id s (c_device_sessions d)) d"

definition insert_session :: "device_session \<Rightarrow> control_db \<Rightarrow> control_db res" where
  "insert_session s d = store_sessions (c_device_sessions d @ [s]) d"

text \<open>\<open>on delete cascade\<close> takes the approvals along.\<close>

definition delete_sessions :: "uuid list \<Rightarrow> control_db \<Rightarrow> control_db" where
  "delete_sessions ids d =
     d\<lparr>c_device_sessions := filter (\<lambda>s. ds_id s \<notin> set ids) (c_device_sessions d),
       c_approvals := filter (\<lambda>a. da_session_id a \<notin> set ids) (c_approvals d)\<rparr>"

definition insert_task :: "node_task \<Rightarrow> control_db \<Rightarrow> control_db res" where
  "insert_task t d =
     (if nt_task_id t \<in> nt_task_id ` set (c_tasks d) then Inl integrity_error else Inr (d\<lparr>c_tasks := c_tasks d @ [t]\<rparr>))"

definition replace_approvals :: "uuid \<Rightarrow> approval list \<Rightarrow> control_db \<Rightarrow> control_db res" where
  "replace_approvals i new d =
     (let rows = filter (\<lambda>a. da_session_id a \<noteq> i) (c_approvals d) @ new in
      if distinct (map (\<lambda>a. (da_session_id a, da_digest a)) rows) then Inr (d\<lparr>c_approvals := rows\<rparr>) else Inl integrity_error)"

section \<open>Queries\<close>

definition get_device_session :: "control_db \<Rightarrow> uuid \<Rightarrow> device_session option" where
  "get_device_session d i = find_row ds_id i (c_device_sessions d)"

definition get_tool_session :: "control_db \<Rightarrow> uuid \<Rightarrow> session_row option" where
  "get_tool_session d i = find_row s_id i (c_sessions d)"

definition get_device :: "control_db \<Rightarrow> uuid \<Rightarrow> device_row option" where
  "get_device d i = find_row ud_id i (c_devices d)"

definition get_device_node :: "control_db \<Rightarrow> uuid \<Rightarrow> node_row option" where
  "get_device_node d i = find_row n_id i (c_nodes d)"

definition get_token :: "control_db \<Rightarrow> uuid \<Rightarrow> token_row option" where
  "get_token d i = find_row tk_id i (c_tokens d)"

definition list_sessions_for_user :: "control_db \<Rightarrow> uuid \<Rightarrow> device_session list" where
  "list_sessions_for_user d u = sort_key (\<lambda>s. - ds_created s) (filter (\<lambda>s. ds_user_id s = u) (c_device_sessions d))"

definition list_all_sessions :: "control_db \<Rightarrow> device_session list" where
  "list_all_sessions d = sort_key (\<lambda>s. - ds_created s) (c_device_sessions d)"

definition list_sessions_for_device :: "control_db \<Rightarrow> uuid \<Rightarrow> device_session list" where
  "list_sessions_for_device d i =
     sort_key ds_created (filter (\<lambda>s. ds_device_id s = i \<and>
       ds_status s \<in> {DS_pending_device, DS_pending_user_approval, DS_active}) (c_device_sessions d))"

definition list_live :: "control_db \<Rightarrow> (device_session \<Rightarrow> bool) \<Rightarrow> device_session list" where
  "list_live d scope = sort_key ds_id (filter (\<lambda>s. scope s \<and> \<not> dv_terminal s) (c_device_sessions d))"

definition list_live_for_binding :: "control_db \<Rightarrow> uuid \<Rightarrow> uuid \<Rightarrow> device_session list" where
  "list_live_for_binding d tool device = list_live d (\<lambda>s. ds_tool_session_id s = Some tool \<or> ds_device_id s = device)"

definition list_live_for_device :: "control_db \<Rightarrow> uuid \<Rightarrow> device_session list" where
  "list_live_for_device d device = list_live d (\<lambda>s. ds_device_id s = device)"

definition list_live_for_tool_session :: "control_db \<Rightarrow> uuid \<Rightarrow> device_session list" where
  "list_live_for_tool_session d tool = list_live d (\<lambda>s. ds_tool_session_id s = Some tool)"

definition list_due :: "control_db \<Rightarrow> time \<Rightarrow> device_session list" where
  "list_due d now = sort_key (\<lambda>s. (ds_expires s, ds_id s))
     (filter (\<lambda>s. \<not> dv_terminal s \<and> ds_expires s \<le> now) (c_device_sessions d))"

definition find_machine_lock :: "control_db \<Rightarrow> uuid \<Rightarrow> uuid \<Rightarrow> device_session option" where
  "find_machine_lock d device excluding =
     List.find (\<lambda>s. ds_device_id s = device \<and> ds_id s \<noteq> excluding \<and> ds_status s = DS_active \<and> ds_lock s \<noteq> None)
       (c_device_sessions d)"

definition list_terminal_before :: "control_db \<Rightarrow> time \<Rightarrow> nat \<Rightarrow> device_session list" where
  "list_terminal_before d cutoff limit =
     take limit (sort_key (\<lambda>s. (the (ds_stopped s), ds_id s))
       (filter (\<lambda>s. dv_terminal s \<and> (case ds_stopped s of None \<Rightarrow> False | Some t \<Rightarrow> t < cutoff)) (c_device_sessions d)))"

text \<open>
  The candidates of a user: the controllable Claude sessions with their node and workspace, outer-joined with
  the live binding of the session and that binding's device.
\<close>

record candidate_row =
  cr_session :: session_row
  cr_node :: node_row
  cr_binding :: "device_session option"
  cr_device :: "device_row option"
  cr_workspace :: workspace_row

definition active_tool_statuses :: "string list" where
  "active_tool_statuses = [''running'', ''active'', ''detached'']"

definition candidate_joins :: "control_db \<Rightarrow> session_row \<Rightarrow> candidate_row list" where
  "candidate_joins d s =
     (case (get_device_node d (s_node_id s), find_row ws_id (s_workspace_id s) (c_workspaces d)) of
        (Some n, Some w) \<Rightarrow>
          (case filter (\<lambda>b. ds_tool_session_id b = Some (s_id s) \<and> \<not> dv_terminal b) (c_device_sessions d) of
             [] \<Rightarrow> [\<lparr>cr_session = s, cr_node = n, cr_binding = None, cr_device = None, cr_workspace = w\<rparr>]
           | bs \<Rightarrow> map (\<lambda>b. \<lparr>cr_session = s, cr_node = n, cr_binding = Some b, cr_device = get_device d (ds_device_id b),
                 cr_workspace = w\<rparr>) bs)
      | _ \<Rightarrow> [])"

definition list_candidate_rows :: "control_db \<Rightarrow> uuid \<Rightarrow> candidate_row list" where
  "list_candidate_rows d user_id =
     concat (map (candidate_joins d) (sort_key (\<lambda>s. (- s_updated s, s_id s))
       (filter (\<lambda>s. s_user_id s = user_id \<and> s_tool_type s = ''claude'' \<and> s_status s \<in> set active_tool_statuses \<and>
         s_device_protocol s = Some 1) (c_sessions d))))"

section \<open>Requests\<close>

record control_settings =
  cs_enabled :: bool
  cs_mode :: string
  cs_max_ttl :: int
  cs_lease :: int
  cs_v2 :: bool
  cs_material_ttl :: int
  cs_ticket_ttl :: int
  cs_hash :: "pystr \<Rightarrow> pystr"

text \<open>The service, constructed with the relay hub of the process or without one.\<close>

record service = control_settings +
  sv_hub :: bool

record control_world = "control_db tx" +
  w_store :: dr_store
  w_hub :: dr_hub

type_synonym 'a dact = "(control_world, 'a) step"

type_synonym revoked = "uuid \<times> int"

definition close_relay :: "service \<Rightarrow> revoked \<Rightarrow> unit dact" where
  "close_relay sv r w = (if sv_hub sv then w\<lparr>w_hub := dr_close_binding (fst r) (snd r) 1008 (w_hub w)\<rparr> else w, Inr ())"

definition add_audit :: "uuid option \<Rightarrow> string \<Rightarrow> device_session \<Rightarrow> unit dact" where
  "add_audit actor action s =
     modify (\<lambda>d. Inr (d\<lparr>c_audits := c_audits d @ [\<lparr>au_actor = actor, au_action = action, au_target = ds_id s\<rparr>]\<rparr>))"

end
