(* ===== verification/Device_Sessions.thy ===== *)
theory Device_Sessions
  imports Device_Model
begin

text \<open>
  The service of \<open>services/device_sessions.py\<close>, one definition per method, and the cleanup of
  \<open>services/device_control_retention.py\<close>. A request reads the clock once. Row locks hold for a whole
  transaction, so requests are taken one after the other.
\<close>

section \<open>Capabilities of a node\<close>

definition required_v2_capabilities :: "pystr list" where
  "required_v2_capabilities = map lit [''adaptive_settle_v2'', ''ax_state_v2'', ''observation_mode_v2'']"

definition device_v2_capabilities :: "pystr list" where
  "device_v2_capabilities = map lit [''adaptive_settle_v2'', ''application_launch_v1'', ''ax_state_v2'',
     ''clipboard_payload_v2'', ''global_clipboard_v1'', ''observation_mode_v2'', ''session_full_trust_v1'']"

definition legacy_v2_capabilities :: "pystr list" where
  "legacy_v2_capabilities = map lit [''adaptive_settle_v2'', ''ax_state_v2'', ''clipboard_payload_v2'', ''observation_mode_v2'']"

definition full_trust_device_capabilities :: "pystr list" where
  "full_trust_device_capabilities = [lit ''session_full_trust_v1'']"

type_synonym json_dict = "(pystr \<times> json) list"

definition control_capability :: "json_dict \<Rightarrow> json_dict option" where
  "control_capability caps = (case map_of caps (lit ''device_control'') of Some (JObject c) \<Rightarrow> Some c | _ \<Rightarrow> None)"

definition json_texts :: "json list \<Rightarrow> pystr list option" where
  "json_texts xs = those (map (\<lambda>x. case x of JString s \<Rightarrow> Some s | _ \<Rightarrow> None) xs)"

definition negotiated_capabilities :: "service \<Rightarrow> json_dict \<Rightarrow> string option \<Rightarrow> bool option \<Rightarrow> pystr list" where
  "negotiated_capabilities sv caps mode v2_enabled =
     (if \<not> (case v2_enabled of None \<Rightarrow> cs_v2 sv | Some b \<Rightarrow> b) then []
      else (case control_capability caps of
          None \<Rightarrow> []
        | Some c \<Rightarrow>
            (case map_of c (lit ''capabilities'') of
               Some (JArray advertised) \<Rightarrow>
                 (case json_texts advertised of
                    None \<Rightarrow> []
                  | Some texts \<Rightarrow>
                      (let trusted = (case mode of None \<Rightarrow> cs_mode sv | Some m \<Rightarrow> m) = full_trust;
                           required = (if trusted then device_v2_capabilities else required_v2_capabilities);
                           allowed = (if trusted then device_v2_capabilities else legacy_v2_capabilities) in
                       if \<not> distinct texts \<or> \<not> set texts \<subseteq> set device_v2_capabilities \<or> \<not> set required \<subseteq> set texts then []
                       else filter (\<lambda>x. x \<in> set texts) allowed))
             | _ \<Rightarrow> [])))"

definition array_has :: "json_dict \<Rightarrow> string \<Rightarrow> json list \<Rightarrow> bool" where
  "array_has c key xs = (case map_of c (lit key) of Some (JArray ys) \<Rightarrow> \<exists>x \<in> set xs. x \<in> set ys | _ \<Rightarrow> False)"

definition supports_device_control :: "service \<Rightarrow> json_dict \<Rightarrow> pystr \<Rightarrow> string option \<Rightarrow> bool" where
  "supports_device_control sv caps backend mode =
     (case control_capability caps of
        None \<Rightarrow> False
      | Some c \<Rightarrow>
          map_of c (lit ''supported'') = Some (JBool True) \<and>
          array_has c ''protocol_versions'' [JInt 1, JBool True, JFloat (lit ''1.0'')] \<and>
          array_has c ''platforms'' [JString (lit ''macos'')] \<and> array_has c ''backends'' [JString backend] \<and>
          ((case mode of None \<Rightarrow> cs_mode sv | Some m \<Rightarrow> m) = full_trust \<longrightarrow>
             negotiated_capabilities sv caps (Some full_trust) None = device_v2_capabilities))"

definition available_node_statuses :: "string list" where "available_node_statuses = [''healthy'', ''degraded'']"

section \<open>The lease in a task id\<close>

text \<open>
  \<open>int(lease.timestamp() * 1_000_000)\<close>: the seconds and the product are rounded to binary64, half to even,
  then the fraction is cut off.
\<close>

definition round_half_even :: "int \<Rightarrow> int \<Rightarrow> int" where
  "round_half_even n d =
     (let q = n div d; r = n mod d in if 2 * r < d \<or> (2 * r = d \<and> even q) then q else q + 1)"

function bit_length :: "int \<Rightarrow> nat" where
  "bit_length n = (if n \<le> 0 then 0 else Suc (bit_length (n div 2)))"
  by pat_completeness auto

termination bit_length
  by (relation "measure nat") auto

declare bit_length.simps [simp del]

definition nearest_double :: "int \<Rightarrow> int \<Rightarrow> int \<times> int" where
  "nearest_double n d =
     (let e = int (bit_length n) - int (bit_length d) - 53;
          n' = n * 2 ^ nat (- e); d' = d * 2 ^ nat e in
      if n' < d' * 2 ^ 53 then (round_half_even n' d', e) else (round_half_even n' (2 * d'), e + 1))"

definition double_times :: "int \<Rightarrow> int \<times> int \<Rightarrow> int \<times> int" where
  "double_times k x = nearest_double (k * fst x * 2 ^ nat (snd x)) (2 ^ nat (- snd x))"

definition double_int :: "int \<times> int \<Rightarrow> int" where
  "double_int x = fst x * 2 ^ nat (snd x) div 2 ^ nat (- snd x)"

definition lease_identity :: "time \<Rightarrow> int" where
  "lease_identity t = double_int (double_times 1000000 (nearest_double t 1000000))"

section \<open>Tasks for the node\<close>

definition scope_of :: "device_session \<Rightarrow> task_scope" where
  "scope_of s = \<lparr>tc_mode = ds_mode s, tc_policy_version = ds_policy_version s, tc_user_id = ds_user_id s,
     tc_device_id = ds_device_id s, tc_tool_session_id = ds_reference_id s, tc_device_session_id = ds_id s,
     tc_node_id = ds_node_id s, tc_generation = ds_generation s\<rparr>"

definition activation_task :: "device_session \<Rightarrow> session_row \<Rightarrow> node_task" where
  "activation_task s tool = \<lparr>nt_task_id = Activate_id (ds_id s) (ds_generation s), nt_node_id = ds_node_id s,
     nt_payload = Activate (scope_of s) (ds_expires s) (s_backend tool) (s_runtime_resource tool)\<rparr>"

definition deactivation_task :: "device_session \<Rightarrow> node_task" where
  "deactivation_task s = \<lparr>nt_task_id = Deactivate_id (ds_id s) (ds_generation s), nt_node_id = ds_node_id s,
     nt_payload = Deactivate (ds_id s) (ds_reference_id s) (ds_generation s)\<rparr>"

definition update_task :: "device_session \<Rightarrow> time \<Rightarrow> pystr list \<Rightarrow> node_task" where
  "update_task s lease caps =
     \<lparr>nt_task_id = Update_id (ds_id s) (ds_generation s) (lease_identity lease), nt_node_id = ds_node_id s,
      nt_payload = Update_context (scope_of s) lease caps\<rparr>"

text \<open>The changed row and its task go to the database in one flush.\<close>

definition save_with_task :: "device_session \<Rightarrow> node_task \<Rightarrow> unit dact" where
  "save_with_task s t = modify (\<lambda>d. bind_res (save_session s d) (insert_task t))"

definition save_with_context_update :: "service \<Rightarrow> device_session \<Rightarrow> bool \<Rightarrow> unit dact" where
  "save_with_context_update sv s preserve =
     (case ds_lease s of
        None \<Rightarrow> throw (RuntimeError ''active device session omitted its lease'')
      | Some lease \<Rightarrow>
          act_bind (query (\<lambda>d. get_device_node d (ds_node_id s))) (\<lambda>node.
          save_with_task s (update_task s lease (negotiated_capabilities sv
            (case node of None \<Rightarrow> [] | Some n \<Rightarrow> n_capabilities n) (Some (ds_mode s)) (if preserve then Some True else None)))))"

section \<open>Lifecycle helpers\<close>

definition not_found :: "'a dact" where "not_found = api_error ''COMMON_NOT_FOUND'' 404"

definition state_conflict :: "'a dact" where "state_conflict = api_error ''DEVICE_CONTROL_STATE_CONFLICT'' 409"

definition increment_generation :: "device_session \<Rightarrow> bool \<Rightarrow> device_session res" where
  "increment_generation s terminal =
     (if (if terminal then max_generation else max_active_generation) \<le> ds_generation s
      then Inl (ApiError ''DEVICE_CONTROL_GENERATION_EXHAUSTED'' 409)
      else Inr (s\<lparr>ds_generation := ds_generation s + 1\<rparr>))"

definition ended :: "time \<Rightarrow> device_status \<Rightarrow> string \<Rightarrow> device_session \<Rightarrow> device_session" where
  "ended now status reason s =
     s\<lparr>ds_status := status, ds_lease := None, ds_lock := None, ds_stopped := Some now, ds_reason := Some reason\<rparr>"

text \<open>
  \<open>_stop\<close> and \<open>_expire_binding\<close> without their commit: the session as it is afterwards and the relay to close.
\<close>

definition end_binding ::
  "time \<Rightarrow> device_session \<Rightarrow> device_status \<Rightarrow> string \<Rightarrow> uuid option \<Rightarrow> string \<Rightarrow> (device_session \<times> revoked list) dact"
where
  "end_binding now s status reason actor action =
     (if dv_terminal s then ret (s, [])
      else
        act_bind (lift_res (increment_generation s True)) (\<lambda>s1.
        let s' = ended now status reason s1 in
        act_bind (save_with_task s' (deactivation_task s')) (\<lambda>_.
        act_bind (add_audit actor action s') (\<lambda>_.
        ret (s', [(ds_id s, ds_generation s)])))))"

definition stop_binding ::
  "time \<Rightarrow> device_session \<Rightarrow> string \<Rightarrow> uuid option \<Rightarrow> string \<Rightarrow> (device_session \<times> revoked list) dact"
where
  "stop_binding now s reason actor action =
     end_binding now s DS_stopped reason (Some (case actor of None \<Rightarrow> ds_user_id s | Some a \<Rightarrow> a)) action"

definition expire_binding :: "time \<Rightarrow> device_session \<Rightarrow> string \<Rightarrow> (device_session \<times> revoked list) dact" where
  "expire_binding now s reason = end_binding now s DS_expired reason (Some (ds_user_id s)) ''device_session.expire''"

definition close_relays :: "service \<Rightarrow> revoked list \<Rightarrow> unit dact" where
  "close_relays sv = for_each (close_relay sv)"

text \<open>With the commit: nothing is committed for a session that had already ended.\<close>

definition commit_ended :: "service \<Rightarrow> (device_session \<times> revoked list) dact \<Rightarrow> device_session dact" where
  "commit_ended sv m =
     act_bind m (\<lambda>(s, revoked).
       if revoked = [] then ret s
       else act_bind commit (\<lambda>_. act_bind (close_relays sv revoked) (\<lambda>_. ret s)))"

definition dv_expire_if_needed :: "service \<Rightarrow> time \<Rightarrow> device_session \<Rightarrow> device_session dact" where
  "dv_expire_if_needed sv now s =
     (if \<not> dv_terminal s \<and> ds_expires s \<le> now then commit_ended sv (expire_binding now s ''session_expired'')
      else ret s)"

definition require_not_expired :: "service \<Rightarrow> time \<Rightarrow> device_session \<Rightarrow> device_session dact" where
  "require_not_expired sv now s =
     act_bind (dv_expire_if_needed sv now s) (\<lambda>s'.
     act_bind (check (ds_status s' \<noteq> DS_expired) ''DEVICE_CONTROL_SESSION_EXPIRED'' 409) (\<lambda>_.
     ret s'))"

definition require_generation :: "device_session \<Rightarrow> int \<Rightarrow> unit dact" where
  "require_generation s generation = check (generation = ds_generation s) ''DEVICE_CONTROL_GENERATION_MISMATCH'' 409"

definition require_active_generation :: "service \<Rightarrow> time \<Rightarrow> device_session \<Rightarrow> int \<Rightarrow> device_session dact" where
  "require_active_generation sv now s generation =
     act_bind (require_generation s generation) (\<lambda>_.
     act_bind (require_not_expired sv now s) (\<lambda>s.
     if ds_status s \<noteq> DS_active then state_conflict
     else if (case ds_lease s of None \<Rightarrow> True | Some l \<Rightarrow> l \<le> now) then
       act_bind (commit_ended sv (expire_binding now s ''lease_expired'')) (\<lambda>_.
       api_error ''DEVICE_CONTROL_LEASE_EXPIRED'' 409)
     else ret s))"

definition require_session :: "uuid \<Rightarrow> device_session dact" where
  "require_session i =
     act_bind (query (\<lambda>d. get_device_session d i)) (\<lambda>row. case row of None \<Rightarrow> not_found | Some s \<Rightarrow> ret s)"

definition require_device_session :: "token_row \<Rightarrow> uuid \<Rightarrow> device_session dact" where
  "require_device_session token i =
     act_bind (require_session i) (\<lambda>s.
     act_bind (check (tk_type token = ''device'' \<and> tk_device_id token = Some (ds_device_id s)) ''COMMON_NOT_FOUND'' 404) (\<lambda>_.
     ret s))"

definition require_tool_session :: "uuid \<Rightarrow> session_row dact" where
  "require_tool_session i =
     act_bind (query (\<lambda>d. get_tool_session d i)) (\<lambda>row.
     case row of None \<Rightarrow> api_error ''DEVICE_CONTROL_TOOL_SESSION_INACTIVE'' 409 | Some s \<Rightarrow> ret s)"

definition require_control_token :: "token_row \<Rightarrow> uuid dact" where
  "require_control_token token =
     (case tk_device_id token of
        None \<Rightarrow> api_error ''COMMON_FORBIDDEN'' 403
      | Some i \<Rightarrow> if tk_type token \<noteq> ''device'' then api_error ''COMMON_FORBIDDEN'' 403 else ret i)"

definition validate_claimable :: "session_row \<Rightarrow> unit dact" where
  "validate_claimable tool =
     act_bind (check (s_tool_type tool = ''claude'') ''DEVICE_CONTROL_TOOL_UNSUPPORTED'' 409) (\<lambda>_.
     act_bind (check (s_status tool \<in> set active_tool_statuses) ''DEVICE_CONTROL_TOOL_SESSION_INACTIVE'' 409) (\<lambda>_.
     check (s_device_protocol tool = Some 1) ''DEVICE_CONTROL_TOOL_SESSION_NOT_CONFIGURED'' 409))"

definition lease_end :: "service \<Rightarrow> time \<Rightarrow> device_session \<Rightarrow> time" where
  "lease_end sv now s = min (now + seconds (cs_lease sv)) (ds_expires s)"

end
