(* ===== verification/Device_Service.thy ===== *)
theory Device_Service
  imports Device_Sessions
begin

text \<open>
  The operations of \<open>services/device_sessions.py\<close>: creation and claim, the device's own life cycle, the ends
  of a session and the listings.
\<close>

section \<open>Creation and claim\<close>

definition require_owned_device :: "uuid \<Rightarrow> uuid \<Rightarrow> device_row dact" where
  "require_owned_device user_id device_id =
     act_bind (query (\<lambda>d. get_device d device_id)) (\<lambda>row.
     case row of
       None \<Rightarrow> not_found
     | Some x \<Rightarrow> if ud_user_id x \<noteq> user_id \<or> ud_status x \<noteq> ''active'' then not_found else ret x)"

definition require_owned_tool_session :: "uuid \<Rightarrow> uuid \<Rightarrow> session_row dact" where
  "require_owned_tool_session user_id tool_id =
     act_bind (query (\<lambda>d. get_tool_session d tool_id)) (\<lambda>row.
     case row of None \<Rightarrow> not_found | Some s \<Rightarrow> if s_user_id s \<noteq> user_id then not_found else ret s)"

definition new_device_session ::
  "service \<Rightarrow> time \<Rightarrow> uuid \<Rightarrow> uuid \<Rightarrow> device_row \<Rightarrow> session_row \<Rightarrow> string \<Rightarrow> device_session"
where
  "new_device_session sv now i user_id device tool mode =
     \<lparr>ds_id = i, ds_user_id = user_id, ds_device_id = ud_id device, ds_tool_session_id = Some (s_id tool),
      ds_reference_id = s_id tool, ds_node_id = s_node_id tool, ds_platform = ''macos'',
      ds_status = DS_pending_device, ds_generation = 1, ds_mode = mode, ds_policy_version = 1,
      ds_authorized = (if mode = full_trust then Some now else None), ds_lease = None,
      ds_expires = now + seconds (cs_max_ttl sv), ds_lock = None, ds_stopped = None, ds_reason = None, ds_created = now\<rparr>"

definition enqueue_activation :: "device_session \<Rightarrow> session_row \<Rightarrow> unit dact" where
  "enqueue_activation s tool = modify (insert_task (activation_task s tool))"

definition dv_create :: "service \<Rightarrow> time \<Rightarrow> uuid \<Rightarrow> user_row \<Rightarrow> token_row \<Rightarrow> uuid \<Rightarrow> uuid \<Rightarrow> device_session dact" where
  "dv_create sv now i user token device_id tool_id =
     act_bind (check (cs_enabled sv) ''DEVICE_CONTROL_DISABLED'' 503) (\<lambda>_.
     act_bind (check (tk_type token = ''user'') ''COMMON_FORBIDDEN'' 403) (\<lambda>_.
     act_bind (check (u_role user = ''admin'') ''DEVICE_CONTROL_LEGACY_CREATE_RESTRICTED'' 403) (\<lambda>_.
     act_bind (check (cs_mode sv = per_application) ''DEVICE_CONTROL_CLAIM_REQUIRED'' 409) (\<lambda>_.
     act_bind (require_owned_device (u_id user) device_id) (\<lambda>device.
     act_bind (check (ud_platform device = ''macos'') ''DEVICE_CONTROL_PLATFORM_UNSUPPORTED'' 409) (\<lambda>_.
     act_bind (require_owned_tool_session (u_id user) tool_id) (\<lambda>tool.
     act_bind (check (s_status tool \<in> set active_tool_statuses) ''DEVICE_CONTROL_TOOL_SESSION_INACTIVE'' 409) (\<lambda>_.
     act_bind (check (s_device_protocol tool = Some 1) ''DEVICE_CONTROL_TOOL_SESSION_NOT_CONFIGURED'' 409) (\<lambda>_.
     act_bind (require_owned_device (u_id user) device_id) (\<lambda>device.
     act_bind (query (\<lambda>d. get_device_node d (s_node_id tool))) (\<lambda>node.
     act_bind (check (case node of None \<Rightarrow> False | Some n \<Rightarrow> supports_device_control sv (n_capabilities n) (s_backend tool) None)
       ''DEVICE_CONTROL_NODE_UNAVAILABLE'' 409) (\<lambda>_.
     let s = new_device_session sv now i (u_id user) device tool per_application in
     act_bind (catch
         (act_bind (modify (insert_session s)) (\<lambda>_.
          act_bind (enqueue_activation s tool) (\<lambda>_.
          act_bind (add_audit (Some (u_id user)) ''device_session.create'' s) (\<lambda>_. commit))))
         integrity_error
         (act_bind rollback (\<lambda>_. api_error ''DEVICE_CONTROL_SESSION_EXISTS'' 409))) (\<lambda>_.
     ret s)))))))))))))"

fun end_each ::
  "(device_session \<Rightarrow> (device_session \<times> revoked list) dact) \<Rightarrow> device_session list \<Rightarrow>
   (device_session list \<times> revoked list) dact"
where
  "end_each f [] = ret ([], [])"
| "end_each f (s # ss) =
     act_bind (f s) (\<lambda>(s', r). act_bind (end_each f ss) (\<lambda>(ss', rs). ret (s' # ss', r @ rs)))"

definition claim_device :: "token_row \<Rightarrow> uuid \<Rightarrow> uuid \<Rightarrow> (session_row \<times> device_row) dact" where
  "claim_device token device_id tool_id =
     act_bind (require_owned_tool_session (tk_user_id token) tool_id) (\<lambda>tool.
     act_bind (require_owned_device (tk_user_id token) device_id) (\<lambda>device.
     act_bind (check (ud_platform device = ''macos'') ''DEVICE_CONTROL_PLATFORM_UNSUPPORTED'' 409) (\<lambda>_.
     act_bind (validate_claimable tool) (\<lambda>_.
     ret (tool, device)))))"

definition require_claim_node :: "service \<Rightarrow> session_row \<Rightarrow> unit dact" where
  "require_claim_node sv tool =
     act_bind (query (\<lambda>d. get_device_node d (s_node_id tool))) (\<lambda>node.
     case node of
       None \<Rightarrow> api_error ''DEVICE_CONTROL_NODE_UNAVAILABLE'' 409
     | Some n \<Rightarrow>
         act_bind (check (n_status n \<in> set available_node_statuses) ''DEVICE_CONTROL_NODE_UNAVAILABLE'' 409) (\<lambda>_.
         check (supports_device_control sv (n_capabilities n) (s_backend tool) None) ''DEVICE_CONTROL_NODE_UNAVAILABLE'' 409))"

definition expire_claimed :: "time \<Rightarrow> device_session list \<Rightarrow> (device_session list \<times> revoked list) dact" where
  "expire_claimed now = end_each (\<lambda>b. if ds_expires b \<le> now then expire_binding now b ''session_expired'' else ret (b, []))"

definition rebind :: "time \<Rightarrow> token_row \<Rightarrow> uuid list \<Rightarrow> device_session list \<Rightarrow> (device_session list \<times> revoked list) dact" where
  "rebind now token ids =
     end_each (\<lambda>b. if ds_id b \<in> set ids
       then stop_binding now b ''rebound'' (Some (tk_user_id token)) ''device_session.rebound'' else ret (b, []))"

definition claim_new ::
  "service \<Rightarrow> time \<Rightarrow> uuid \<Rightarrow> token_row \<Rightarrow> session_row \<Rightarrow> device_row \<Rightarrow> revoked list \<Rightarrow> (device_session \<times> revoked list) dact"
where
  "claim_new sv now i token tool device revoked =
     (let s = new_device_session sv now i (tk_user_id token) device tool (cs_mode sv) in
      act_bind (catch
          (act_bind (modify (insert_session s)) (\<lambda>_.
           act_bind (enqueue_activation s tool) (\<lambda>_.
           act_bind (add_audit (Some (tk_user_id token)) ''device_session.claim'' s) (\<lambda>_.
           act_bind (if cs_mode sv = full_trust
             then add_audit (Some (ds_user_id s)) ''device_session.full_trust_authorized'' s else ret ()) (\<lambda>_. commit)))))
          integrity_error
          (act_bind rollback (\<lambda>_. api_error ''DEVICE_CONTROL_BINDING_CONFLICT'' 409))) (\<lambda>_.
      act_bind (close_relays sv revoked) (\<lambda>_.
      ret (s, revoked))))"

text \<open>The bindings of the claimed session or device; those past their absolute end are ended first.\<close>

definition claim_bindings :: "time \<Rightarrow> uuid \<Rightarrow> uuid \<Rightarrow> (device_session list \<times> revoked list) dact" where
  "claim_bindings now tool_id device_id =
     act_bind (query (\<lambda>d. list_live_for_binding d tool_id device_id)) (\<lambda>all.
     act_bind (expire_claimed now all) (\<lambda>(rows, revoked).
     ret (filter (\<lambda>b. \<not> dv_terminal b) rows, revoked)))"

definition claim_bind ::
  "service \<Rightarrow> time \<Rightarrow> uuid \<Rightarrow> token_row \<Rightarrow> session_row \<Rightarrow> device_row \<Rightarrow> (device_session \<times> revoked list) dact"
where
  "claim_bind sv now i token tool device =
     act_bind (claim_bindings now (s_id tool) (ud_id device)) (\<lambda>(bindings, revoked).
     let target = List.find (\<lambda>b. ds_tool_session_id b = Some (s_id tool)) bindings;
         current = List.find (\<lambda>b. ds_device_id b = ud_id device) bindings in
     case (target, current) of
       (Some t, Some c) \<Rightarrow>
         if ds_id t = ds_id c then act_bind commit (\<lambda>_. ret (t, []))
         else act_bind (rebind now token [ds_id t, ds_id c] bindings) (\<lambda>(_, more). claim_new sv now i token tool device (revoked @ more))
     | _ \<Rightarrow>
         act_bind (rebind now token (map ds_id (case_option [] (\<lambda>t. [t]) target @ case_option [] (\<lambda>c. [c]) current)) bindings)
           (\<lambda>(_, more). claim_new sv now i token tool device (revoked @ more)))"

definition dv_claim ::
  "service \<Rightarrow> time \<Rightarrow> uuid \<Rightarrow> token_row \<Rightarrow> uuid \<Rightarrow> pystr list \<Rightarrow> (device_session \<times> revoked list) dact"
where
  "dv_claim sv now i token tool_id capabilities =
     act_bind (check (cs_enabled sv) ''DEVICE_CONTROL_DISABLED'' 503) (\<lambda>_.
     act_bind (check (cs_mode sv = full_trust \<longrightarrow> capabilities = full_trust_device_capabilities)
       ''DEVICE_CONTROL_DEVICE_UPGRADE_REQUIRED'' 409) (\<lambda>_.
     act_bind (require_control_token token) (\<lambda>device_id.
     act_bind (claim_device token device_id tool_id) (\<lambda>(tool, device).
     act_bind (require_claim_node sv tool) (\<lambda>_.
     claim_bind sv now i token tool device)))))"

section \<open>Listings\<close>

definition dv_expire_due :: "service \<Rightarrow> time \<Rightarrow> nat dact" where
  "dv_expire_due sv now =
     act_bind (query (\<lambda>d. list_due d now)) (\<lambda>rows.
     act_bind (end_each (\<lambda>b. expire_binding now b ''session_expired'') rows) (\<lambda>(_, revoked).
     act_bind (if rows = [] then ret () else act_bind commit (\<lambda>_. close_relays sv revoked)) (\<lambda>_.
     ret (length rows))))"

record candidate =
  cd_tool_session_id :: uuid
  cd_account_id :: uuid
  cd_workspace_id :: uuid
  cd_display_name :: pystr
  cd_status :: string
  cd_node_id :: uuid
  cd_backend :: pystr
  cd_current_device_id :: "uuid option"
  cd_current_device_name :: "pystr option"
  cd_device_session_id :: "uuid option"

definition candidate_of :: "candidate_row \<Rightarrow> candidate" where
  "candidate_of r =
     \<lparr>cd_tool_session_id = s_id (cr_session r), cd_account_id = s_tool_account_id (cr_session r),
      cd_workspace_id = s_workspace_id (cr_session r), cd_display_name = ws_display_name (cr_workspace r),
      cd_status = s_status (cr_session r), cd_node_id = s_node_id (cr_session r), cd_backend = s_backend (cr_session r),
      cd_current_device_id = map_option ds_device_id (cr_binding r),
      cd_current_device_name = map_option ud_name (cr_device r),
      cd_device_session_id = map_option ds_id (cr_binding r)\<rparr>"

definition dv_list_candidates :: "service \<Rightarrow> time \<Rightarrow> token_row \<Rightarrow> candidate list dact" where
  "dv_list_candidates sv now token =
     act_bind (check (cs_enabled sv) ''DEVICE_CONTROL_DISABLED'' 503) (\<lambda>_.
     act_bind (require_control_token token) (\<lambda>device_id.
     act_bind (query (\<lambda>d. get_device d device_id)) (\<lambda>device.
     act_bind (check (case device of None \<Rightarrow> False | Some x \<Rightarrow> ud_status x = ''active'' \<and> ud_platform x = ''macos'')
       ''COMMON_NOT_FOUND'' 404) (\<lambda>_.
     act_bind (dv_expire_due sv now) (\<lambda>_.
     act_bind (query (\<lambda>d. list_candidate_rows d (tk_user_id token))) (\<lambda>rows.
     ret (map candidate_of (filter (\<lambda>r. n_status (cr_node r) \<in> set available_node_statuses \<and>
       supports_device_control sv (n_capabilities (cr_node r)) (s_backend (cr_session r)) None) rows))))))))"

definition dv_list_for_user :: "user_row \<Rightarrow> device_session list dact" where
  "dv_list_for_user user = query (\<lambda>d. list_sessions_for_user d (u_id user))"

definition dv_list_for_admin :: "user_row \<Rightarrow> device_session list dact" where
  "dv_list_for_admin user =
     act_bind (check (u_role user = ''admin'') ''COMMON_FORBIDDEN'' 403) (\<lambda>_. query list_all_sessions)"

fun expire_items :: "service \<Rightarrow> time \<Rightarrow> device_session list \<Rightarrow> (device_session list \<times> bool) dact" where
  "expire_items sv now [] = ret ([], False)"
| "expire_items sv now (s # ss) =
     act_bind (dv_expire_if_needed sv now s) (\<lambda>s'.
     act_bind (expire_items sv now ss) (\<lambda>(ss', expired).
     ret (s' # ss', expired \<or> ds_status s' \<noteq> ds_status s)))"

definition dv_list_for_device :: "service \<Rightarrow> time \<Rightarrow> token_row \<Rightarrow> device_session list dact" where
  "dv_list_for_device sv now token =
     act_bind (require_control_token token) (\<lambda>device_id.
     act_bind (query (\<lambda>d. list_sessions_for_device d device_id)) (\<lambda>rows.
     act_bind (expire_items sv now rows) (\<lambda>(items, expired).
     act_bind (if expired then commit else ret ()) (\<lambda>_.
     ret (filter (\<lambda>s. ds_status s \<in> {DS_pending_device, DS_pending_user_approval, DS_active, DS_stopping}) items)))))"

definition dv_get :: "service \<Rightarrow> time \<Rightarrow> user_row \<Rightarrow> uuid \<Rightarrow> device_session dact" where
  "dv_get sv now user i =
     act_bind (require_session i) (\<lambda>s.
     act_bind (check (ds_user_id s = u_id user) ''COMMON_NOT_FOUND'' 404) (\<lambda>_.
     act_bind (dv_expire_if_needed sv now s) (\<lambda>s'.
     act_bind (if ds_status s' = DS_expired then commit else ret ()) (\<lambda>_.
     ret s'))))"

definition dv_delete :: "user_row \<Rightarrow> uuid \<Rightarrow> unit dact" where
  "dv_delete user i =
     act_bind (require_session i) (\<lambda>s.
     act_bind (check (ds_user_id s = u_id user \<or> u_role user = ''admin'') ''COMMON_NOT_FOUND'' 404) (\<lambda>_.
     act_bind (check (dv_terminal s) ''DEVICE_SESSION_NOT_TERMINAL'' 409) (\<lambda>_.
     act_bind (modify (\<lambda>d. Inr (delete_sessions [ds_id s] d))) (\<lambda>_.
     act_bind (add_audit (Some (u_id user)) ''device_session.delete'' s) (\<lambda>_.
     commit)))))"

definition dv_delete_terminal :: "user_row \<Rightarrow> nat dact" where
  "dv_delete_terminal user =
     act_bind (query (\<lambda>d. if u_role user = ''admin'' then list_all_sessions d else list_sessions_for_user d (u_id user))) (\<lambda>rows.
     case filter dv_terminal rows of
       [] \<Rightarrow> ret 0
     | s # ss \<Rightarrow>
         act_bind (modify (\<lambda>d. Inr (delete_sessions (map ds_id (s # ss)) d))) (\<lambda>_.
         act_bind (add_audit (Some (u_id user)) ''device_session.bulk_delete'' s) (\<lambda>_.
         act_bind commit (\<lambda>_.
         ret (length (s # ss))))))"

definition dv_delete_terminal_before :: "time \<Rightarrow> nat \<Rightarrow> nat dact" where
  "dv_delete_terminal_before cutoff limit =
     act_bind (query (\<lambda>d. list_terminal_before d cutoff limit)) (\<lambda>rows.
     if rows = [] then ret 0
     else act_bind (modify (\<lambda>d. Inr (delete_sessions (map ds_id rows) d))) (\<lambda>_. ret (length rows)))"

section \<open>The device's side\<close>

definition with_lease :: "service \<Rightarrow> time \<Rightarrow> device_session \<Rightarrow> device_session" where
  "with_lease sv now s = s\<lparr>ds_status := DS_active, ds_lease := Some (lease_end sv now s)\<rparr>"

definition dv_mark_connected :: "service \<Rightarrow> time \<Rightarrow> token_row \<Rightarrow> uuid \<Rightarrow> int \<Rightarrow> device_session dact" where
  "dv_mark_connected sv now token i generation =
     act_bind (require_device_session token i) (\<lambda>s.
     act_bind (require_generation s generation) (\<lambda>_.
     act_bind (require_not_expired sv now s) (\<lambda>s.
     if ds_status s \<noteq> DS_pending_device then state_conflict
     else
       act_bind
         (if ds_mode s = full_trust then
            act_bind (require_tool_session (ds_reference_id s)) (\<lambda>tool.
            act_bind (validate_claimable tool) (\<lambda>_.
            act_bind (query (\<lambda>d. get_device_node d (ds_node_id s))) (\<lambda>node.
            act_bind (check (case node of None \<Rightarrow> False | Some n \<Rightarrow> n_status n \<in> set available_node_statuses \<and>
                supports_device_control sv (n_capabilities n) (s_backend tool) (Some (ds_mode s)))
              ''DEVICE_CONTROL_NODE_UNAVAILABLE'' 409) (\<lambda>_.
            act_bind (save_with_context_update sv (with_lease sv now s) False) (\<lambda>_.
            ret (with_lease sv now s))))))
          else if ds_mode s = per_application then
            (let s' = s\<lparr>ds_status := DS_pending_user_approval\<rparr> in act_bind (modify (save_session s')) (\<lambda>_. ret s'))
          else state_conflict) (\<lambda>s'.
       act_bind (add_audit (Some (ds_user_id s')) ''device_session.device_connected'' s') (\<lambda>_.
       act_bind commit (\<lambda>_.
       ret s'))))))"

record approval_item =
  ai_digest :: pystr
  ai_level :: string
  ai_result :: string
  ai_clipboard :: bool

definition approval_rows :: "uuid \<Rightarrow> (nat \<Rightarrow> uuid) \<Rightarrow> approval_item list \<Rightarrow> approval list" where
  "approval_rows i fresh items =
     map (\<lambda>(n, a). \<lparr>da_session_id = i, da_digest = ai_digest a, da_level = ai_level a, da_result = ai_result a,
       da_clipboard = ai_clipboard a, da_correlation = fresh n\<rparr>) (enumerate 0 items)"

definition dv_approve ::
  "service \<Rightarrow> time \<Rightarrow> (nat \<Rightarrow> uuid) \<Rightarrow> token_row \<Rightarrow> uuid \<Rightarrow> int \<Rightarrow> approval_item list \<Rightarrow> device_session dact"
where
  "dv_approve sv now fresh token i generation items =
     act_bind (require_device_session token i) (\<lambda>s.
     act_bind (require_generation s generation) (\<lambda>_.
     act_bind (require_not_expired sv now s) (\<lambda>s.
     act_bind (check (ds_mode s = per_application) ''DEVICE_CONTROL_AUTHORIZATION_MODE_CONFLICT'' 409) (\<lambda>_.
     if ds_status s \<noteq> DS_pending_user_approval then state_conflict
     else
       act_bind (check (distinct (map ai_digest items)) ''DEVICE_CONTROL_DUPLICATE_APPLICATION'' 422) (\<lambda>_.
       act_bind (modify (replace_approvals (ds_id s) (approval_rows (ds_id s) fresh items))) (\<lambda>_.
       if list_all (\<lambda>a. ai_result a \<noteq> ''allowed'') items then
         act_bind (lift_res (increment_generation s True)) (\<lambda>s1.
         let s' = ended now DS_denied ''user_denied'' s1 in
         act_bind (save_with_task s' (deactivation_task s')) (\<lambda>_.
         act_bind (add_audit (Some (ds_user_id s')) ''device_session.approve'' s') (\<lambda>_.
         act_bind commit (\<lambda>_.
         act_bind (close_relay sv (ds_id s, ds_generation s)) (\<lambda>_.
         ret s')))))
       else
         (let s' = with_lease sv now s in
          act_bind (save_with_context_update sv s' False) (\<lambda>_.
          act_bind (add_audit (Some (ds_user_id s')) ''device_session.approve'' s') (\<lambda>_.
          act_bind commit (\<lambda>_.
          ret s'))))))))))"

definition dv_acquire_lock :: "service \<Rightarrow> time \<Rightarrow> token_row \<Rightarrow> uuid \<Rightarrow> int \<Rightarrow> device_session dact" where
  "dv_acquire_lock sv now token i generation =
     act_bind (require_device_session token i) (\<lambda>s.
     act_bind (require_active_generation sv now s generation) (\<lambda>s.
     if ds_lock s \<noteq> None then ret s
     else
       act_bind (query (\<lambda>d. find_machine_lock d (ds_device_id s) (ds_id s))) (\<lambda>holder.
       act_bind (check (holder = None) ''DEVICE_CONTROL_MACHINE_LOCKED'' 409) (\<lambda>_.
       let s' = s\<lparr>ds_lock := Some now\<rparr> in
       act_bind (modify (save_session s')) (\<lambda>_.
       act_bind (add_audit (Some (ds_user_id s')) ''device_session.lock'' s') (\<lambda>_.
       act_bind (catch commit integrity_error (act_bind rollback (\<lambda>_. api_error ''DEVICE_CONTROL_MACHINE_LOCKED'' 409))) (\<lambda>_.
       ret s')))))))"

definition dv_renew :: "service \<Rightarrow> time \<Rightarrow> token_row \<Rightarrow> uuid \<Rightarrow> int \<Rightarrow> device_session dact" where
  "dv_renew sv now token i generation =
     act_bind (require_device_session token i) (\<lambda>s.
     act_bind (require_active_generation sv now s generation) (\<lambda>s.
     let s' = s\<lparr>ds_lease := Some (lease_end sv now s)\<rparr> in
     act_bind (save_with_context_update sv s' True) (\<lambda>_.
     act_bind commit (\<lambda>_.
     ret s'))))"

text \<open>The common end of \<open>reconnect\<close> and \<open>abort_action\<close>; the lock stays, the lease does not.\<close>

definition new_generation :: "device_session \<Rightarrow> string \<Rightarrow> device_session dact" where
  "new_generation s action =
     act_bind (lift_res (increment_generation s False)) (\<lambda>s1.
     let s' = s1\<lparr>ds_status := DS_pending_device, ds_lease := None\<rparr> in
     act_bind (modify (save_session s')) (\<lambda>_.
     act_bind (require_tool_session (ds_reference_id s')) (\<lambda>tool.
     act_bind (enqueue_activation s' tool) (\<lambda>_.
     act_bind (add_audit (Some (ds_user_id s')) action s') (\<lambda>_.
     act_bind commit (\<lambda>_.
     ret s'))))))"

definition dv_reconnect :: "service \<Rightarrow> time \<Rightarrow> token_row \<Rightarrow> uuid \<Rightarrow> int \<Rightarrow> device_session dact" where
  "dv_reconnect sv now token i generation =
     act_bind (require_device_session token i) (\<lambda>s.
     act_bind (require_generation s generation) (\<lambda>_.
     act_bind (require_not_expired sv now s) (\<lambda>s.
     if ds_status s \<notin> {DS_pending_device, DS_pending_user_approval, DS_active} then state_conflict
     else new_generation s ''device_session.reconnect'')))"

definition dv_abort_action :: "service \<Rightarrow> time \<Rightarrow> token_row \<Rightarrow> uuid \<Rightarrow> int \<Rightarrow> device_session dact" where
  "dv_abort_action sv now token i generation =
     act_bind (require_device_session token i) (\<lambda>s.
     act_bind (require_generation s generation) (\<lambda>_.
     act_bind (require_not_expired sv now s) (\<lambda>s.
     if ds_status s \<noteq> DS_active then state_conflict
     else new_generation s ''device_session.abort_action'')))"

section \<open>The ends of a session\<close>

definition dv_stop_by_user :: "service \<Rightarrow> time \<Rightarrow> user_row \<Rightarrow> uuid \<Rightarrow> string \<Rightarrow> device_session dact" where
  "dv_stop_by_user sv now user i reason =
     act_bind (require_session i) (\<lambda>s.
     act_bind (check (ds_user_id s = u_id user) ''COMMON_NOT_FOUND'' 404) (\<lambda>_.
     commit_ended sv (stop_binding now s reason None ''device_session.stop'')))"

definition dv_stop_by_device :: "service \<Rightarrow> time \<Rightarrow> token_row \<Rightarrow> uuid \<Rightarrow> string \<Rightarrow> device_session dact" where
  "dv_stop_by_device sv now token i reason =
     act_bind (require_device_session token i) (\<lambda>s.
     commit_ended sv (stop_binding now s reason None ''device_session.stop''))"

definition dv_stop_by_admin :: "service \<Rightarrow> time \<Rightarrow> user_row \<Rightarrow> uuid \<Rightarrow> string \<Rightarrow> device_session dact" where
  "dv_stop_by_admin sv now user i reason =
     act_bind (check (u_role user = ''admin'') ''COMMON_FORBIDDEN'' 403) (\<lambda>_.
     act_bind (require_session i) (\<lambda>s.
     commit_ended sv (stop_binding now s reason (Some (u_id user)) ''device_session.admin_stop'')))"

text \<open>\<open>stop_for_tool_session\<close> and \<open>stop_for_device\<close> differ in the rows they end.\<close>

definition stop_all ::
  "service \<Rightarrow> time \<Rightarrow> (control_db \<Rightarrow> device_session list) \<Rightarrow> string \<Rightarrow> uuid option \<Rightarrow> string \<Rightarrow> bool \<Rightarrow>
   (device_session list \<times> revoked list) dact"
where
  "stop_all sv now rows_of reason actor action commits =
     act_bind (query rows_of) (\<lambda>rows.
     act_bind (end_each (\<lambda>b. stop_binding now b reason actor action) rows) (\<lambda>(stopped, revoked).
     act_bind (if commits then act_bind commit (\<lambda>_. close_relays sv revoked) else ret ()) (\<lambda>_.
     ret (stopped, revoked))))"

definition dv_stop_for_tool_session ::
  "service \<Rightarrow> time \<Rightarrow> uuid \<Rightarrow> string \<Rightarrow> uuid option \<Rightarrow> string \<Rightarrow> bool \<Rightarrow> (device_session list \<times> revoked list) dact"
where
  "dv_stop_for_tool_session sv now tool_id = stop_all sv now (\<lambda>d. list_live_for_tool_session d tool_id)"

definition dv_stop_for_device ::
  "service \<Rightarrow> time \<Rightarrow> uuid \<Rightarrow> string \<Rightarrow> uuid option \<Rightarrow> string \<Rightarrow> bool \<Rightarrow> (device_session list \<times> revoked list) dact"
where
  "dv_stop_for_device sv now device_id = stop_all sv now (\<lambda>d. list_live_for_device d device_id)"

end
