(* ===== verification/Device_Relay.thy ===== *)
theory Device_Relay
  imports Device_Service
begin

text \<open>
  How the two ends of a device session reach the relay: \<open>services/device_relay.py\<close> issues the one-time
  material of a generation, the socket route of \<open>api/device_sessions.py\<close> takes a ticket, checks it against
  the database once more and hands the socket to the relay hub. The requests of device control, as the
  routes of the API build them, close the theory.
\<close>

section \<open>Material\<close>

datatype relay_material =
    Material_waiting dr_role int
  | Material_ready dr_role int pystr pystr pystr time

definition relay_eligible :: "device_session \<Rightarrow> bool" where
  "relay_eligible s \<longleftrightarrow> ds_status s \<in> {DS_pending_device, DS_pending_user_approval, DS_active}"

definition relay_binding_of :: "device_session \<Rightarrow> dr_binding" where
  "relay_binding_of s =
     \<lparr>db_user_id = ds_user_id s, db_device_id = ds_device_id s, db_tool_session_id = ds_reference_id s,
      db_device_session_id = ds_id s, db_node_id = ds_node_id s, db_generation = ds_generation s\<rparr>"

definition exchange_keys :: "time \<Rightarrow> dr_binding \<Rightarrow> dr_role \<Rightarrow> pystr \<Rightarrow> pystr \<Rightarrow> int \<Rightarrow> dr_result dact" where
  "exchange_keys now b role spki exporter_context ttl w =
     (case dr_exchange_step now (w_store w) b role spki exporter_context ttl of
        (store, r) \<Rightarrow> (w\<lparr>w_store := store\<rparr>,
          case r of
            Inl e \<Rightarrow> Inl (if is_value_error e then ApiError ''DEVICE_CONTROL_RELAY_KEY_CHANGED'' 409 else e)
          | Inr x \<Rightarrow> Inr x))"

definition issue_relay_ticket :: "time \<Rightarrow> pystr \<Rightarrow> dr_claims \<Rightarrow> int \<Rightarrow> unit dact" where
  "issue_relay_ticket now token_hash claims ttl w =
     (case dr_issue_ticket now (w_store w) token_hash claims ttl of
        Inl e \<Rightarrow> (w, Inl e) | Inr store \<Rightarrow> (w\<lparr>w_store := store\<rparr>, Inr ()))"

definition dv_register ::
  "service \<Rightarrow> time \<Rightarrow> pystr \<Rightarrow> pystr \<Rightarrow> device_session \<Rightarrow> dr_role \<Rightarrow> uuid option \<Rightarrow> int \<Rightarrow> pystr \<Rightarrow> relay_material dact"
where
  "dv_register sv now secret raw s role credential generation spki =
     act_bind (check (now < ds_expires s) ''DEVICE_CONTROL_SESSION_EXPIRED'' 409) (\<lambda>_.
     act_bind (check (relay_eligible s) ''DEVICE_CONTROL_STATE_CONFLICT'' 409) (\<lambda>_.
     act_bind (check (generation = ds_generation s) ''DEVICE_CONTROL_GENERATION_MISMATCH'' 409) (\<lambda>_.
     let expires = min (ds_expires s) (now + seconds (cs_material_ttl sv));
         ttl = max 1 ((expires - now) div 1000000) in
     act_bind (exchange_keys now (relay_binding_of s) role spki secret ttl) (\<lambda>exchange.
     case exchange of
       Waiting \<Rightarrow> ret (Material_waiting role generation)
     | Already_issued \<Rightarrow> api_error ''DEVICE_CONTROL_RELAY_MATERIAL_ALREADY_ISSUED'' 409
     | Ready peer shared \<Rightarrow>
         act_bind (issue_relay_ticket now (cs_hash sv raw)
           \<lparr>dc_binding = relay_binding_of s, dc_role = role, dc_credential_id = credential\<rparr> (cs_ticket_ttl sv)) (\<lambda>_.
         ret (Material_ready role generation raw peer shared expires))))))"

definition dv_register_device ::
  "service \<Rightarrow> time \<Rightarrow> pystr \<Rightarrow> pystr \<Rightarrow> token_row \<Rightarrow> uuid \<Rightarrow> int \<Rightarrow> pystr \<Rightarrow> relay_material dact"
where
  "dv_register_device sv now secret raw token i generation spki =
     act_bind (require_session i) (\<lambda>s.
     act_bind (check (tk_type token = ''device'' \<and> tk_device_id token = Some (ds_device_id s)) ''COMMON_NOT_FOUND'' 404) (\<lambda>_.
     dv_register sv now secret raw s Device (Some (tk_id token)) generation spki))"

definition dv_register_proxy ::
  "service \<Rightarrow> time \<Rightarrow> pystr \<Rightarrow> pystr \<Rightarrow> node_row \<Rightarrow> uuid \<Rightarrow> int \<Rightarrow> pystr \<Rightarrow> relay_material dact"
where
  "dv_register_proxy sv now secret raw node i generation spki =
     act_bind (require_session i) (\<lambda>s.
     act_bind (check (n_id node = ds_node_id s) ''COMMON_NOT_FOUND'' 404) (\<lambda>_.
     dv_register sv now secret raw s Proxy None generation spki))"

section \<open>The socket\<close>

definition credential_current :: "control_db \<Rightarrow> time \<Rightarrow> dr_claims \<Rightarrow> bool" where
  "credential_current d now claims =
     (case dc_role claims of
        Proxy \<Rightarrow> dc_credential_id claims = None
      | Device \<Rightarrow>
          (case dc_credential_id claims of
             None \<Rightarrow> False
           | Some c \<Rightarrow>
               (case get_token d c of
                  None \<Rightarrow> False
                | Some t \<Rightarrow> tk_status t = ''active'' \<and> tk_type t = ''device'' \<and>
                    tk_device_id t = Some (db_device_id (dc_binding claims)) \<and> now < tk_expires t)))"

definition relay_claims_current :: "control_db \<Rightarrow> time \<Rightarrow> dr_claims \<Rightarrow> bool" where
  "relay_claims_current d now claims =
     (let b = dc_binding claims in
      case get_device_session d (db_device_session_id b) of
        None \<Rightarrow> False
      | Some s \<Rightarrow>
          ds_user_id s = db_user_id b \<and> ds_device_id s = db_device_id b \<and> ds_reference_id s = db_tool_session_id b \<and>
          ds_node_id s = db_node_id b \<and> ds_generation s = db_generation b \<and> relay_eligible s \<and> now < ds_expires s \<and>
          (case (get_device d (db_device_id b), get_device_node d (db_node_id b), get_tool_session d (db_tool_session_id b)) of
             (Some x, Some n, Some t) \<Rightarrow>
               ud_status x = ''active'' \<and> n_status n \<in> set available_node_statuses \<and> s_status t \<in> set active_tool_statuses
           | _ \<Rightarrow> False) \<and>
          credential_current d now claims)"

definition refuse_socket :: "nat \<Rightarrow> connect_result dact" where
  "refuse_socket ws w = (w\<lparr>w_hub := close_socket ws 1008 (w_hub w)\<rparr>, Inr Rejected)"

definition take_ticket :: "time \<Rightarrow> pystr \<Rightarrow> dr_claims option dact" where
  "take_ticket now token_hash w =
     (case dr_consume_ticket now (w_store w) token_hash of (store, claims) \<Rightarrow> (w\<lparr>w_store := store\<rparr>, Inr claims))"

definition join_hub :: "dr_claims \<Rightarrow> nat \<Rightarrow> connect_result dact" where
  "join_hub claims ws w = (case dr_connect (w_hub w) claims ws of (hub, r) \<Rightarrow> (w\<lparr>w_hub := hub\<rparr>, Inr r))"

text \<open>\<open>released\<close> is the verdict of the release gate, \<open>ticket\<close> the bearer token of the request.\<close>

definition dv_relay_socket :: "service \<Rightarrow> time \<Rightarrow> bool \<Rightarrow> uuid \<Rightarrow> pystr option \<Rightarrow> nat \<Rightarrow> connect_result dact" where
  "dv_relay_socket sv now released i ticket ws =
     (if \<not> released then refuse_socket ws
      else (case ticket of
          None \<Rightarrow> refuse_socket ws
        | Some raw \<Rightarrow>
            act_bind (take_ticket now (cs_hash sv raw)) (\<lambda>claims.
            case claims of
              None \<Rightarrow> refuse_socket ws
            | Some c \<Rightarrow>
                if db_device_session_id (dc_binding c) \<noteq> i then refuse_socket ws
                else act_bind (query (\<lambda>d. relay_claims_current d now c)) (\<lambda>current.
                  if current then join_hub c ws else refuse_socket ws))))"

section \<open>Requests\<close>

text \<open>
  Only the routes of \<open>claim\<close> and \<open>stop\<close> construct the service with the relay hub, and so do the callers that
  stop a session or a device; the stop route picks the method by the kind of token.
\<close>

datatype control_request =
    Create_session uuid user_row token_row uuid uuid
  | Claim_session uuid token_row uuid "pystr list"
  | List_candidates token_row
  | Device_inbox token_row
  | Get_session user_row uuid
  | Delete_session user_row uuid
  | Delete_ended user_row
  | Retention time nat
  | Device_connected token_row uuid int
  | Approve_apps "nat \<Rightarrow> uuid" token_row uuid int "approval_item list"
  | Acquire_lock token_row uuid int
  | Renew_lease token_row uuid int
  | Reconnect token_row uuid int
  | Abort_action token_row uuid int
  | Stop_session user_row token_row uuid string
  | Tool_session_ended uuid string "uuid option" string
  | Device_revoked uuid string "uuid option" string
  | Register_device pystr pystr token_row uuid int pystr
  | Register_proxy pystr pystr node_row uuid int pystr
  | Relay_socket bool uuid "pystr option" nat

definition route_stop :: "service \<Rightarrow> time \<Rightarrow> user_row \<Rightarrow> token_row \<Rightarrow> uuid \<Rightarrow> string \<Rightarrow> device_session dact" where
  "route_stop sv now user token i reason =
     (if tk_type token = ''device'' then dv_stop_by_device sv now token i reason
      else if tk_type token = ''user'' then
        (if u_role user = ''admin'' then dv_stop_by_admin sv now user i reason else dv_stop_by_user sv now user i reason)
      else api_error ''COMMON_FORBIDDEN'' 403)"

definition service_with :: "control_settings \<Rightarrow> bool \<Rightarrow> service" where
  "service_with cs hub = control_settings.extend cs \<lparr>sv_hub = hub\<rparr>"

fun control_step :: "control_settings \<Rightarrow> time \<Rightarrow> control_request \<Rightarrow> unit dact" where
  "control_step cs now (Create_session i user token device tool) =
     discard (dv_create (service_with cs False) now i user token device tool)"
| "control_step cs now (Claim_session i token tool caps) = discard (dv_claim (service_with cs True) now i token tool caps)"
| "control_step cs now (List_candidates token) = discard (dv_list_candidates (service_with cs False) now token)"
| "control_step cs now (Device_inbox token) = discard (dv_list_for_device (service_with cs False) now token)"
| "control_step cs now (Get_session user i) = discard (dv_get (service_with cs False) now user i)"
| "control_step cs now (Delete_session user i) = dv_delete user i"
| "control_step cs now (Delete_ended user) = discard (dv_delete_terminal user)"
| "control_step cs now (Retention cutoff limit) = act_bind (dv_delete_terminal_before cutoff limit) (\<lambda>_. commit)"
| "control_step cs now (Device_connected token i g) = discard (dv_mark_connected (service_with cs False) now token i g)"
| "control_step cs now (Approve_apps fresh token i g items) =
     discard (dv_approve (service_with cs False) now fresh token i g items)"
| "control_step cs now (Acquire_lock token i g) = discard (dv_acquire_lock (service_with cs False) now token i g)"
| "control_step cs now (Renew_lease token i g) = discard (dv_renew (service_with cs False) now token i g)"
| "control_step cs now (Reconnect token i g) = discard (dv_reconnect (service_with cs False) now token i g)"
| "control_step cs now (Abort_action token i g) = discard (dv_abort_action (service_with cs False) now token i g)"
| "control_step cs now (Stop_session user token i reason) =
     discard (route_stop (service_with cs True) now user token i reason)"
| "control_step cs now (Tool_session_ended tool reason actor action) =
     discard (dv_stop_for_tool_session (service_with cs True) now tool reason actor action True)"
| "control_step cs now (Device_revoked device reason actor action) =
     discard (dv_stop_for_device (service_with cs True) now device reason actor action True)"
| "control_step cs now (Register_device secret raw token i g spki) =
     discard (dv_register_device (service_with cs False) now secret raw token i g spki)"
| "control_step cs now (Register_proxy secret raw node i g spki) =
     discard (dv_register_proxy (service_with cs False) now secret raw node i g spki)"
| "control_step cs now (Relay_socket released i ticket ws) =
     discard (dv_relay_socket (service_with cs False) now released i ticket ws)"

definition control_serve :: "control_settings \<Rightarrow> time \<Rightarrow> control_request \<Rightarrow> control_world \<Rightarrow> control_world" where
  "control_serve cs now q w = fst (run_request (control_step cs now q) w)"

end
