(* ===== verification/Device_Life.thy ===== *)
theory Device_Life
  imports Device_Relay
begin

text \<open>
  What a request may do to the tables of device control, as an abstract machine: the life of one device
  session, the admission of a new one, the tasks that tell the node. The triples of \<open>Request\<close> show that every
  operation of the service runs it.
\<close>

section \<open>The abstract machine\<close>

inductive device_step :: "device_session \<Rightarrow> device_session \<Rightarrow> bool" where
  Await: "ds_status s = DS_pending_device \<Longrightarrow> ds_mode s = per_application \<Longrightarrow>
    device_step s (s\<lparr>ds_status := DS_pending_user_approval\<rparr>)"
| Lock: "ds_status s = DS_active \<Longrightarrow> ds_lock s = None \<Longrightarrow> device_step s (s\<lparr>ds_lock := Some now\<rparr>)"
| Restart: "ds_status s \<in> {DS_pending_device, DS_pending_user_approval, DS_active} \<Longrightarrow> ds_generation s < max_active_generation \<Longrightarrow>
    device_step s (s\<lparr>ds_generation := ds_generation s + 1, ds_status := DS_pending_device, ds_lease := None\<rparr>)"

text \<open>Steps the node is told of: the start or the prolongation of a lease, and the end.\<close>

inductive told_step :: "device_session \<Rightarrow> device_session \<Rightarrow> node_task \<Rightarrow> bool" where
  Grant: "ds_status s = DS_pending_device \<and> ds_mode s = full_trust \<or> ds_status s = DS_pending_user_approval \<or> ds_status s = DS_active \<Longrightarrow>
    lease \<le> ds_expires s \<Longrightarrow> s' = s\<lparr>ds_status := DS_active, ds_lease := Some lease\<rparr> \<Longrightarrow> told_step s s' (update_task s' lease caps)"
| End: "\<not> dv_terminal s \<Longrightarrow> status = DS_stopped \<or> status = DS_denied \<and> ds_status s = DS_pending_user_approval \<or>
      status = DS_expired \<and> (ds_expires s \<le> now \<or> ds_status s = DS_active \<and> (\<forall>l. ds_lease s = Some l \<longrightarrow> l \<le> now)) \<Longrightarrow>
    s' = ended now status reason (s\<lparr>ds_generation := ds_generation s + 1\<rparr>) \<Longrightarrow> told_step s s' (deactivation_task s')"

definition task_session :: "node_task \<Rightarrow> uuid" where
  "task_session t = (case nt_task_id t of Activate_id i g \<Rightarrow> i | Deactivate_id i g \<Rightarrow> i | Update_id i g l \<Rightarrow> i)"

definition task_generation :: "node_task \<Rightarrow> int" where
  "task_generation t = (case nt_task_id t of Activate_id i g \<Rightarrow> g | Deactivate_id i g \<Rightarrow> g | Update_id i g l \<Rightarrow> g)"

definition is_deactivation :: "node_task \<Rightarrow> bool" where
  "is_deactivation t = (case nt_task_id t of Deactivate_id i g \<Rightarrow> True | _ \<Rightarrow> False)"

text \<open>An id that \<open>uuid4\<close> may return: nothing in the tables has it.\<close>

definition unused :: "uuid \<Rightarrow> control_db \<Rightarrow> bool" where
  "unused i d \<longleftrightarrow> i \<notin> ds_id ` set (c_device_sessions d) \<and> i \<notin> task_session ` set (c_tasks d)"

definition pristine :: "device_session \<Rightarrow> bool" where
  "pristine s \<longleftrightarrow> ds_status s = DS_pending_device \<and> ds_generation s = 1 \<and> ds_lease s = None \<and> ds_lock s = None \<and>
     ds_stopped s = None \<and> ds_reason s = None"

inductive control_table_step :: "control_db \<Rightarrow> control_db \<Rightarrow> bool" where
  Admit: "pristine s \<Longrightarrow> unused (ds_id s) d \<Longrightarrow> insert_session s d = Inr d' \<Longrightarrow> control_table_step d d'"
| Change: "s \<in> set (c_device_sessions d) \<Longrightarrow> device_step s s' \<Longrightarrow> save_session s' d = Inr d' \<Longrightarrow> control_table_step d d'"
| Tell: "s \<in> set (c_device_sessions d) \<Longrightarrow> told_step s s' t \<Longrightarrow> save_session s' d = Inr d1 \<Longrightarrow> insert_task t d1 = Inr d' \<Longrightarrow>
    control_table_step d d'"
| Activate: "s \<in> set (c_device_sessions d) \<Longrightarrow> ds_status s = DS_pending_device \<Longrightarrow> insert_task (activation_task s tool) d = Inr d' \<Longrightarrow>
    control_table_step d d'"
| Approvals: "replace_approvals i rows d = Inr d' \<Longrightarrow> control_table_step d d'"
| Audit: "control_table_step d (d\<lparr>c_audits := c_audits d @ [a]\<rparr>)"
| Remove: "(\<And>s. s \<in> set (c_device_sessions d) \<Longrightarrow> ds_id s \<in> set ids \<Longrightarrow> dv_terminal s) \<Longrightarrow>
    control_table_step d (delete_sessions ids d)"

section \<open>The service runs the machine\<close>

definition runs :: "control_db \<Rightarrow> control_world \<Rightarrow> bool" where
  "runs d0 w \<longleftrightarrow> control_table_step\<^sup>*\<^sup>* d0 (w_db w) \<and> control_table_step\<^sup>*\<^sup>* d0 (w_saved w)"

text \<open>What a request knows: rows it has read, ids that are still unused.\<close>

definition sees :: "device_session set \<Rightarrow> uuid set \<Rightarrow> control_world \<Rightarrow> bool" where
  "sees X F w \<longleftrightarrow> X \<subseteq> set (c_device_sessions (w_db w)) \<and> (\<forall>i \<in> F. unused i (w_db w))"

lemma sees_subset: "sees X F w \<Longrightarrow> Y \<subseteq> X \<Longrightarrow> sees Y F w"
  by (auto simp: sees_def)

lemma sees_empty: "sees X F w \<Longrightarrow> sees {} F w"
  by (rule sees_subset) auto

lemma sees_world [simp]:
  "sees X F (w\<lparr>w_saved := d\<rparr>) = sees X F w" "sees X F (w\<lparr>w_hub := h\<rparr>) = sees X F w" "sees X F (w\<lparr>w_store := t\<rparr>) = sees X F w"
  by (simp_all add: sees_def)

lemma runs_world [simp]:
  "runs d0 (w\<lparr>w_hub := h\<rparr>) = runs d0 w" "runs d0 (w\<lparr>w_store := t\<rparr>) = runs d0 w"
  by (simp_all add: runs_def)

lemma runs_db: "runs d0 w \<Longrightarrow> control_table_step (w_db w) d \<Longrightarrow> runs d0 (w\<lparr>w_db := d\<rparr>)"
  by (auto simp: runs_def intro: rtranclp.rtrancl_into_rtrancl)

lemma keeps_dv_query: "keeps I P (query q) (\<lambda>x w. x = q (w_db w) \<and> P w)"
  by (rule keeps_query)

lemma keeps_dv_audit: "keeps (runs d0) (sees X F) (add_audit actor action s) (\<lambda>_. sees X F)"
  unfolding add_audit_def by (rule keeps_modify) (auto simp: sees_def unused_def intro: runs_db control_table_step.Audit)

lemma keeps_dv_commit: "keeps (runs d0) (sees X F) commit (\<lambda>_. sees X F)"
  by (rule keeps_commit_post) (auto simp: runs_def)

lemma keeps_commit_any: "keeps (runs d0) P commit (\<lambda>_ _. True)"
  by (rule keeps_commit_post) (auto simp: runs_def)

lemma keeps_dv_rollback: "keeps (runs d0) P rollback (\<lambda>_ _. True)"
  by (auto simp: keeps_def rollback_def runs_def)

lemma keeps_close_relay: "keeps (runs d0) (sees X F) (close_relay sv r) (\<lambda>_. sees X F)"
  by (auto simp: keeps_def close_relay_def)

lemma keeps_for_each: "(\<And>x. keeps I P (f x) (\<lambda>_. P)) \<Longrightarrow> keeps I P (for_each f xs) (\<lambda>_. P)"
  by (induction xs) (auto intro: keeps_ret_post keeps_bind)

lemma keeps_close_relays: "keeps (runs d0) (sees X F) (close_relays sv rs) (\<lambda>_. sees X F)"
  unfolding close_relays_def by (rule keeps_for_each [OF keeps_close_relay])

lemma keeps_close_any: "keeps (runs d0) P (close_relays sv rs) (\<lambda>_ _. True)"
  unfolding close_relays_def
  by (rule keeps_pre [where P' = "\<lambda>_. True", OF keeps_for_each]) (simp_all add: keeps_def close_relay_def)

lemma keeps_catch:
  assumes "keeps I P m Q" "\<And>e. keeps I (\<lambda>_. True) h Q"
  shows "keeps I P (catch m e h) Q"
proof (rule keepsI)
  fix w w' r assume a: "I w" "P w" "catch m e h w = (w', r)"
  obtain w1 r1 where m: "m w = (w1, r1)" by (cases "m w")
  note k = keepsD [OF assms(1) a(1,2) m]
  show "I w' \<and> (\<forall>x. r = Inr x \<longrightarrow> Q x w')"
  proof (cases r1)
    case (Inl e')
    with a(3) m k keepsD [OF assms(2), of w1 w' r] show ?thesis by (auto simp: catch_def split: if_splits)
  next
    case (Inr x)
    with a(3) m k show ?thesis by (auto simp: catch_def)
  qed
qed

text \<open>Writing a changed row.\<close>

lemma device_step_id: "device_step s s' \<Longrightarrow> ds_id s' = ds_id s"
  by (induction rule: device_step.induct) auto

lemma told_step_id: "told_step s s' t \<Longrightarrow> ds_id s' = ds_id s"
  by (induction rule: told_step.induct) (auto simp: ended_def)

lemma told_task_session: "told_step s s' t \<Longrightarrow> task_session t = ds_id s"
  by (induction rule: told_step.induct) (auto simp: ended_def task_session_def update_task_def deactivation_task_def)

lemma save_session_rows:
  "save_session s d = Inr d' \<longleftrightarrow>
     sessions_admissible (put_row ds_id s (c_device_sessions d)) \<and> d' = d\<lparr>c_device_sessions := put_row ds_id s (c_device_sessions d)\<rparr>"
  by (auto simp: save_session_def store_sessions_def)

lemma insert_session_rows:
  "insert_session s d = Inr d' \<longleftrightarrow>
     sessions_admissible (c_device_sessions d @ [s]) \<and> d' = d\<lparr>c_device_sessions := c_device_sessions d @ [s]\<rparr>"
  by (auto simp: insert_session_def store_sessions_def)

lemma insert_task_rows:
  "insert_task t d = Inr d' \<longleftrightarrow> nt_task_id t \<notin> nt_task_id ` set (c_tasks d) \<and> d' = d\<lparr>c_tasks := c_tasks d @ [t]\<rparr>"
  by (auto simp: insert_task_def)

lemma sees_put:
  assumes "sees X F w" "s \<in> X" "ds_id s' = ds_id s" "\<And>x. x \<in> X' \<Longrightarrow> x = s' \<or> x \<in> X \<and> ds_id x \<noteq> ds_id s"
    "set (c_tasks d) \<subseteq> insert t (set (c_tasks (w_db w)))" "task_session t = ds_id s"
    "c_device_sessions d = put_row ds_id s' (c_device_sessions (w_db w))"
  shows "sees X' F (w\<lparr>w_db := d\<rparr>)"
proof -
  have s: "s \<in> set (c_device_sessions (w_db w))" using assms(1,2) by (auto simp: sees_def)
  have "x \<in> set (c_device_sessions d)" if "x \<in> X'" for x
    using assms(1,3,7) assms(4) [OF that] s by (auto simp: put_row_mem sees_def)
  moreover have "unused i d" if "i \<in> F" for i
  proof -
    have u: "unused i (w_db w)" using assms(1) that by (simp add: sees_def)
    then have "i \<noteq> ds_id s" using s by (auto simp: unused_def)
    moreover have "ds_id ` set (c_device_sessions d) = ds_id ` set (c_device_sessions (w_db w))"
      unfolding assms(7) by (metis list.set_map put_row_keys)
    ultimately show ?thesis using u assms(5,6) by (auto simp: unused_def)
  qed
  ultimately show ?thesis by (auto simp: sees_def)
qed

lemma keeps_save:
  assumes "device_step s s'" "s \<in> X" "\<And>x. x \<in> X' \<Longrightarrow> x = s' \<or> x \<in> X \<and> ds_id x \<noteq> ds_id s"
  shows "keeps (runs d0) (sees X F) (modify (save_session s')) (\<lambda>_. sees X' F)"
proof (rule keeps_modify)
  fix w d assume a: "runs d0 w" "sees X F w" "save_session s' (w_db w) = Inr d"
  have "s \<in> set (c_device_sessions (w_db w))" using a(2) assms(2) by (auto simp: sees_def)
  from Change [OF this assms(1) a(3)] a(1) have "runs d0 (w\<lparr>w_db := d\<rparr>)" by (rule runs_db [rotated])
  moreover have "sees X' F (w\<lparr>w_db := d\<rparr>)"
    by (rule sees_put [OF a(2) assms(2) device_step_id [OF assms(1)] assms(3), where t = "activation_task s undefined"])
      (use a(3) in \<open>auto simp: save_session_rows task_session_def activation_task_def\<close>)
  ultimately show "runs d0 (w\<lparr>w_db := d\<rparr>) \<and> sees X' F (w\<lparr>w_db := d\<rparr>)" ..
qed

lemma keeps_save_task:
  assumes "told_step s s' t" "s \<in> X" "\<And>x. x \<in> X' \<Longrightarrow> x = s' \<or> x \<in> X \<and> ds_id x \<noteq> ds_id s"
  shows "keeps (runs d0) (sees X F) (save_with_task s' t) (\<lambda>_. sees X' F)"
  unfolding save_with_task_def
proof (rule keeps_modify)
  fix w d assume a: "runs d0 w" "sees X F w" "bind_res (save_session s' (w_db w)) (insert_task t) = Inr d"
  then obtain d1 where d1: "save_session s' (w_db w) = Inr d1" "insert_task t d1 = Inr d" by auto
  have "s \<in> set (c_device_sessions (w_db w))" using a(2) assms(2) by (auto simp: sees_def)
  from Tell [OF this assms(1) d1] a(1) have "runs d0 (w\<lparr>w_db := d\<rparr>)" by (rule runs_db [rotated])
  moreover have "sees X' F (w\<lparr>w_db := d\<rparr>)"
    by (rule sees_put [OF a(2) assms(2) told_step_id [OF assms(1)] assms(3) _ told_task_session [OF assms(1)]])
      (use d1 in \<open>auto simp: save_session_rows insert_task_rows\<close>)
  ultimately show "runs d0 (w\<lparr>w_db := d\<rparr>) \<and> sees X' F (w\<lparr>w_db := d\<rparr>)" ..
qed

section \<open>The operations\<close>

lemma keeps_ret_sees: "X' \<subseteq> X \<Longrightarrow> b \<Longrightarrow> keeps (runs d0) (sees X F) (ret x) (\<lambda>_ w. sees X' F w \<and> b)"
  by (rule keeps_ret_post) (auto intro: sees_subset)

lemmas dsteps = keeps_bind [OF keeps_query] keeps_bind [OF keeps_check] keeps_bind [OF keeps_dv_audit]
  keeps_bind [OF keeps_dv_commit] keeps_bind [OF keeps_close_relay] keeps_bind [OF keeps_close_relays] keeps_bind [OF keeps_lift]
  keeps_fact keeps_throw keeps_if keeps_option keeps_prod

lemma keeps_read: "(\<And>x. keeps I P (f x) Q) \<Longrightarrow> keeps I P (act_bind (query q) f) Q"
  by (rule keeps_bind [OF keeps_query]) (auto simp: keeps_def)

lemma keeps_not_found: "keeps I P not_found Q" "keeps I P state_conflict Q"
  by (simp_all add: not_found_def state_conflict_def keeps_throw)

lemma keeps_pure_post: "keeps I P m Q \<Longrightarrow> (\<And>w x. P w \<Longrightarrow> Q x w \<Longrightarrow> R x w) \<Longrightarrow> (\<And>w w' x. m w = (w', x) \<Longrightarrow> w' = w) \<Longrightarrow>
    keeps I P m R"
  unfolding keeps_def by metis

lemma increment_Inr: "increment_generation s t = Inr s' \<Longrightarrow> s' = s\<lparr>ds_generation := ds_generation s + 1\<rparr>"
  by (auto simp: increment_generation_def split: if_splits)

definition may_end :: "time \<Rightarrow> device_status \<Rightarrow> device_session \<Rightarrow> bool" where
  "may_end now status s \<longleftrightarrow> status = DS_stopped \<or> status = DS_denied \<and> ds_status s = DS_pending_user_approval \<or>
     status = DS_expired \<and> (ds_expires s \<le> now \<or> ds_status s = DS_active \<and> (\<forall>l. ds_lease s = Some l \<longrightarrow> l \<le> now))"

lemma told_end:
  "\<not> dv_terminal s \<Longrightarrow> may_end now status s \<Longrightarrow> increment_generation s True = Inr s1 \<Longrightarrow>
   told_step s (ended now status reason s1) (deactivation_task (ended now status reason s1))"
  by (drule increment_Inr, rule End [of _ status now _ reason]) (simp_all add: may_end_def)

lemma keeps_increment: "keeps I P (lift_res r) (\<lambda>x w. r = Inr x \<and> P w)"
  by (cases r) (auto simp: keeps_def lift_res_def ret_def throw_def)

lemma ended_terminal: "status \<in> set terminal_device_statuses \<Longrightarrow> dv_terminal (ended now status reason s)"
  by (simp add: dv_terminal_def ended_def)

lemma may_end_status: "may_end now status s \<Longrightarrow> status \<in> set terminal_device_statuses"
  by (auto simp: may_end_def terminal_device_statuses_def)

lemma keeps_end_binding:
  assumes "s \<in> X" "\<not> dv_terminal s \<Longrightarrow> may_end now status s"
    "\<And>s' x. ds_id s' = ds_id s \<Longrightarrow> x \<in> X' s' \<Longrightarrow> x = s' \<or> x \<in> X \<and> ds_id x \<noteq> ds_id s"
  shows "keeps (runs d0) (sees X F) (end_binding now s status reason actor action)
    (\<lambda>p w. dv_terminal (fst p) \<and> ds_id (fst p) = ds_id s \<and> sees (X' (fst p)) F w)"
proof (cases "dv_terminal s")
  case True
  have "X' s \<subseteq> X" using assms(1,3) by blast
  with True show ?thesis unfolding end_binding_def by (auto intro!: keeps_ret_post intro: sees_subset)
next
  case False
  note t = told_end [OF False assms(2) [OF False]]
  have id: "increment_generation s True = Inr s1 \<Longrightarrow> ds_id (ended now status reason s1) = ds_id s" for s1
    by (auto simp: ended_def dest: increment_Inr)
  have term1: "dv_terminal (ended now status reason s1)" for s1
    by (rule ended_terminal [OF may_end_status [OF assms(2) [OF False]]])
  have rest: "x = ended now status reason s1 \<or> x \<in> X \<and> ds_id x \<noteq> ds_id s"
    if "increment_generation s True = Inr s1" "x \<in> X' (ended now status reason s1)" for s1 x
    by (rule assms(3) [OF id [OF that(1)] that(2)])
  show ?thesis unfolding end_binding_def Let_def using False
    by (auto intro!: keeps_bind [OF keeps_increment] keeps_fact keeps_bind [OF keeps_save_task [OF t assms(1) rest]]
        keeps_bind [OF keeps_dv_audit] keeps_ret_post simp: id term1)
qed

lemma keeps_end_binding1:
  assumes "\<not> dv_terminal s \<Longrightarrow> may_end now status s"
  shows "keeps (runs d0) (sees {s} F) (end_binding now s status reason actor action)
    (\<lambda>p w. dv_terminal (fst p) \<and> ds_id (fst p) = ds_id s \<and> sees {fst p} F w)"
  by (rule keeps_end_binding [where X' = "\<lambda>s'. {s'}"]) (use assms in auto)

lemma keeps_commit_ended:
  assumes "keeps (runs d0) P m (\<lambda>p w. Q (fst p) \<and> sees {fst p} F w)"
  shows "keeps (runs d0) P (commit_ended sv m) (\<lambda>s w. Q s \<and> sees {s} F w)"
  unfolding commit_ended_def
  by (rule keeps_bind [OF assms])
    (auto intro!: keeps_prod keeps_if keeps_ret_post keeps_bind [OF keeps_dv_commit] keeps_bind [OF keeps_close_relays] keeps_fact)

lemma keeps_end_commit:
  assumes "\<not> dv_terminal s \<Longrightarrow> may_end now status s"
  shows "keeps (runs d0) (sees {s} F) (commit_ended sv (end_binding now s status reason actor action))
    (\<lambda>s' w. (dv_terminal s' \<and> ds_id s' = ds_id s) \<and> sees {s'} F w)"
  by (rule keeps_commit_ended, rule keeps_post [OF keeps_end_binding1 [OF assms]]) auto

lemma keeps_dv_expire:
  "keeps (runs d0) (sees {s} F) (dv_expire_if_needed sv now s)
     (\<lambda>s' w. (ds_id s' = ds_id s \<and> (dv_terminal s' \<or> s' = s \<and> now < ds_expires s)) \<and> sees {s'} F w)"
  unfolding dv_expire_if_needed_def expire_binding_def
  by (rule keeps_if, rule keeps_post [OF keeps_end_commit]) (auto simp: may_end_def intro!: keeps_ret_post)

lemma keeps_not_expired:
  "keeps (runs d0) (sees {s} F) (require_not_expired sv now s)
     (\<lambda>s' w. (ds_id s' = ds_id s \<and> (dv_terminal s' \<or> s' = s \<and> now < ds_expires s)) \<and> sees {s'} F w)"
  unfolding require_not_expired_def
  by (rule keeps_bind [OF keeps_dv_expire]) (auto intro!: dsteps keeps_ret_post)

lemma keeps_require_generation: "keeps I P (require_generation s g) (\<lambda>_ w. ds_generation s = g \<and> P w)"
  unfolding require_generation_def by (rule keeps_post [OF keeps_check]) auto

lemma active_not_terminal: "ds_status s = DS_active \<Longrightarrow> \<not> dv_terminal s"
  by (simp add: dv_terminal_def terminal_device_statuses_def)

lemma keeps_active:
  "keeps (runs d0) (sees {s} F) (require_active_generation sv now s g)
     (\<lambda>s' w. (s' = s \<and> ds_generation s = g \<and> ds_status s = DS_active \<and> now < ds_expires s) \<and> sees {s} F w)"
  unfolding require_active_generation_def expire_binding_def
  by (rule keeps_bind [OF keeps_require_generation], rule keeps_fact, rule keeps_bind [OF keeps_not_expired], rule keeps_fact)
    (auto intro!: keeps_not_found keeps_if keeps_ret_post keeps_bind [OF keeps_end_commit] keeps_throw
      simp: may_end_def dest: active_not_terminal split: option.splits)

lemma keeps_dv_require_session:
  "keeps (runs d0) (sees X F) (require_session i) (\<lambda>s w. ds_id s = i \<and> sees {s} F w)"
  unfolding require_session_def get_device_session_def
  by (rule keeps_bind [OF keeps_query], rule keeps_option)
    (auto intro!: keeps_not_found keeps_ret_post simp: sees_def dest: sym find_row_Some)

lemma keeps_require_device:
  "keeps (runs d0) (sees X F) (require_device_session token i) (\<lambda>s w. (ds_id s = i \<and> tk_device_id token = Some (ds_device_id s)) \<and> sees {s} F w)"
  unfolding require_device_session_def
  by (rule keeps_bind [OF keeps_dv_require_session], rule keeps_fact) (auto intro!: dsteps keeps_ret_post)

lemma keeps_reads:
  "keeps I P (require_tool_session k) (\<lambda>_. P)" "keeps I P (require_control_token token) (\<lambda>_. P)"
  "keeps I P (validate_claimable tool) (\<lambda>_. P)" "keeps I P (require_owned_device u k) (\<lambda>_. P)"
  "keeps I P (require_owned_tool_session u k) (\<lambda>_. P)" "keeps I P (require_claim_node sv tool) (\<lambda>_. P)"
  unfolding require_tool_session_def require_control_token_def validate_claimable_def require_owned_device_def
    require_owned_tool_session_def require_claim_node_def
  by (intro dsteps keeps_not_found keeps_ret_post keeps_post [OF keeps_check]; simp)+

lemma keeps_save1: "device_step s s' \<Longrightarrow> keeps (runs d0) (sees {s} F) (modify (save_session s')) (\<lambda>_. sees {s'} F)"
  by (erule keeps_save) auto

lemma keeps_save_task1: "told_step s s' t \<Longrightarrow> keeps (runs d0) (sees {s} F) (save_with_task s' t) (\<lambda>_. sees {s'} F)"
  by (erule keeps_save_task) auto

lemma lease_end_le: "lease_end sv now s \<le> ds_expires s"
  by (simp add: lease_end_def)

lemma told_lease:
  assumes "ds_status s = DS_pending_device \<and> ds_mode s = full_trust \<or> ds_status s = DS_pending_user_approval \<or> ds_status s = DS_active"
  shows "told_step s (with_lease sv now s) (update_task (with_lease sv now s) (lease_end sv now s) caps)"
  unfolding with_lease_def by (rule Grant [OF assms lease_end_le refl])

lemma keeps_context_update:
  assumes "ds_status s = DS_pending_device \<and> ds_mode s = full_trust \<or> ds_status s = DS_pending_user_approval \<or> ds_status s = DS_active"
    "s' = with_lease sv now s"
  shows "keeps (runs d0) (sees {s} F) (save_with_context_update sv s' preserve) (\<lambda>_. sees {s'} F)"
proof -
  have l: "ds_lease s' = Some (lease_end sv now s)" by (simp add: assms(2) with_lease_def)
  show ?thesis unfolding save_with_context_update_def l option.case
    by (rule keeps_read, unfold assms(2), rule keeps_save_task1 [OF told_lease [OF assms(1)]])
qed

lemma keeps_dv_renew: "keeps (runs d0) (sees {} F) (dv_renew sv now token i g) (\<lambda>_ _. True)"
proof -
  have w: "s\<lparr>ds_lease := Some (lease_end sv now s)\<rparr> = with_lease sv now s" if "ds_status s = DS_active" for s
    using that by (cases s) (simp add: with_lease_def)
  show ?thesis unfolding dv_renew_def Let_def
    by (rule keeps_bind [OF keeps_require_device], rule keeps_fact, rule keeps_bind [OF keeps_active], rule keeps_fact)
      (auto intro!: keeps_bind [OF keeps_context_update] keeps_bind [OF keeps_dv_commit] keeps_ret_post simp: w)
qed

lemma keeps_lock: "keeps (runs d0) (sees {} F) (dv_acquire_lock sv now token i g) (\<lambda>_ _. True)"
  unfolding dv_acquire_lock_def Let_def
  by (rule keeps_bind [OF keeps_require_device], rule keeps_fact, rule keeps_bind [OF keeps_active], rule keeps_fact)
    (auto intro!: keeps_if keeps_ret_post keeps_read keeps_bind [OF keeps_check] keeps_fact keeps_bind [OF keeps_dv_audit]
      keeps_bind [OF keeps_save1 [OF Lock]] keeps_bind [OF keeps_catch [OF keeps_True [OF keeps_dv_commit]]]
      keeps_bind [OF keeps_dv_rollback] keeps_throw)

lemma keeps_new_generation:
  assumes "ds_status s \<in> {DS_pending_device, DS_pending_user_approval, DS_active}"
  shows "keeps (runs d0) (sees {s} F) (new_generation s action) (\<lambda>_ _. True)"
proof -
  have r: "device_step s (s1\<lparr>ds_status := DS_pending_device, ds_lease := None\<rparr>)" if "increment_generation s False = Inr s1" for s1
    using that Restart [OF assms] by (auto simp: increment_generation_def split: if_splits)
  have a: "keeps (runs d0) (sees {s'} F) (enqueue_activation s' tool) (\<lambda>_. sees {s'} F)" if "ds_status s' = DS_pending_device" for s' tool
    unfolding enqueue_activation_def
    by (rule keeps_modify) (use that in \<open>auto simp: sees_def unused_def insert_task_rows activation_task_def task_session_def
      intro!: runs_db intro: control_table_step.Activate [unfolded insert_task_rows activation_task_def]\<close>)
  show ?thesis unfolding new_generation_def Let_def
    by (auto intro!: keeps_bind [OF keeps_increment] keeps_fact keeps_bind [OF keeps_save1 [OF r]] keeps_bind [OF keeps_reads(1)]
        keeps_bind [OF a] keeps_bind [OF keeps_dv_audit] keeps_bind [OF keeps_dv_commit] keeps_ret_post)
qed

lemma keeps_reconnect: "keeps (runs d0) (sees {} F) (dv_reconnect sv now token i g) (\<lambda>_ _. True)"
  unfolding dv_reconnect_def
  by (rule keeps_bind [OF keeps_require_device], rule keeps_fact, rule keeps_bind [OF keeps_require_generation], rule keeps_fact,
      rule keeps_bind [OF keeps_not_expired], rule keeps_fact, rule keeps_if)
    (simp_all add: keeps_not_found keeps_new_generation)

lemma keeps_abort: "keeps (runs d0) (sees {} F) (dv_abort_action sv now token i g) (\<lambda>_ _. True)"
  unfolding dv_abort_action_def
  by (rule keeps_bind [OF keeps_require_device], rule keeps_fact, rule keeps_bind [OF keeps_require_generation], rule keeps_fact,
      rule keeps_bind [OF keeps_not_expired], rule keeps_fact, rule keeps_if)
    (simp_all add: keeps_not_found keeps_new_generation)

lemma keeps_connected: "keeps (runs d0) (sees {} F) (dv_mark_connected sv now token i g) (\<lambda>_ _. True)"
  unfolding dv_mark_connected_def Let_def
  by (rule keeps_bind [OF keeps_require_device], rule keeps_fact, rule keeps_bind [OF keeps_require_generation], rule keeps_fact,
      rule keeps_bind [OF keeps_not_expired], rule keeps_fact, rule keeps_if [OF keeps_not_found(2)],
      rule keeps_bind [where Q = "\<lambda>_. sees {} F"])
    (auto intro!: keeps_if keeps_not_found keeps_bind [OF keeps_reads(1)] keeps_bind [OF keeps_reads(3)] keeps_read
      keeps_bind [OF keeps_check] keeps_fact keeps_bind [OF keeps_context_update [OF _ refl]] keeps_bind [OF keeps_save1 [OF Await]]
      keeps_ret_post keeps_bind [OF keeps_dv_audit] keeps_bind [OF keeps_dv_commit] intro: sees_empty)

lemma keeps_approvals: "keeps (runs d0) (sees X F) (modify (replace_approvals i rows)) (\<lambda>_. sees X F)"
  by (rule keeps_modify) (auto simp: sees_def unused_def replace_approvals_def Let_def split: if_splits
      intro!: runs_db control_table_step.Approvals [where i = i and rows = rows])

lemma keeps_approve: "keeps (runs d0) (sees {} F) (dv_approve sv now fresh token i g items) (\<lambda>_ _. True)"
proof -
  have d: "told_step s (ended now DS_denied reason s1) (deactivation_task (ended now DS_denied reason s1))"
    if "increment_generation s True = Inr s1" "ds_status s = DS_pending_user_approval" for s s1 reason
    by (rule told_end [OF _ _ that(1)]) (simp_all add: that(2) dv_terminal_def terminal_device_statuses_def may_end_def)
  show ?thesis unfolding dv_approve_def Let_def
    by (rule keeps_bind [OF keeps_require_device], rule keeps_fact, rule keeps_bind [OF keeps_require_generation], rule keeps_fact,
        rule keeps_bind [OF keeps_not_expired], rule keeps_fact, rule keeps_bind [OF keeps_check], rule keeps_fact)
      (auto intro!: keeps_if keeps_not_found keeps_bind [OF keeps_check] keeps_fact keeps_bind [OF keeps_approvals]
        keeps_bind [OF keeps_increment] keeps_bind [OF keeps_save_task1 [OF d]] keeps_bind [OF keeps_context_update [OF _ refl]]
        keeps_bind [OF keeps_dv_audit] keeps_bind [OF keeps_dv_commit] keeps_bind [OF keeps_close_relay] keeps_ret_post)
qed

section \<open>Ends and listings\<close>

lemma keeps_stopped: "keeps (runs d0) (sees {s} F) (commit_ended sv (stop_binding now s reason actor action)) (\<lambda>_ _. True)"
  unfolding stop_binding_def by (rule keeps_True [OF keeps_end_commit]) (simp add: may_end_def)

lemma keeps_stop_route: "keeps (runs d0) (sees {} F) (route_stop sv now user token i reason) (\<lambda>_ _. True)"
  unfolding route_stop_def dv_stop_by_device_def dv_stop_by_admin_def dv_stop_by_user_def
  by (intro keeps_if keeps_throw keeps_bind [OF keeps_require_device] keeps_bind [OF keeps_dv_require_session] keeps_bind [OF keeps_check]
      keeps_fact keeps_stopped)

lemma keeps_dv_get: "keeps (runs d0) (sees {} F) (dv_get sv now user i) (\<lambda>_ _. True)"
  unfolding dv_get_def
  by (auto intro!: keeps_bind [OF keeps_dv_require_session] keeps_bind [OF keeps_check] keeps_fact keeps_bind [OF keeps_dv_expire]
      keeps_bind [OF keeps_if [OF keeps_dv_commit keeps_ret_post]] keeps_ret_post)

text \<open>A list of rows that are ended one after the other.\<close>

lemma keeps_end_each:
  assumes "\<And>s X. s \<in> set ss \<Longrightarrow> s \<in> X \<Longrightarrow> keeps (runs d0) (sees X F) (f s)
      (\<lambda>p w. R s (fst p) \<and> ds_id (fst p) = ds_id s \<and> sees (insert (fst p) {x \<in> X. ds_id x \<noteq> ds_id s}) F w)"
    and "distinct (map ds_id ss)" "set ss \<subseteq> X"
  shows "keeps (runs d0) (sees X F) (end_each f ss)
    (\<lambda>p w. list_all2 (\<lambda>s s'. R s s' \<and> ds_id s' = ds_id s) ss (fst p) \<and> sees (set (fst p) \<union> {x \<in> X. ds_id x \<notin> ds_id ` set ss}) F w)"
  using assms
proof (induction ss arbitrary: X)
  case Nil
  then show ?case by (auto intro!: keeps_ret_post)
next
  case (Cons s ss)
  let ?X = "\<lambda>s'. insert s' {x \<in> X. ds_id x \<noteq> ds_id s}"
  have tail: "keeps (runs d0) (sees (?X s') F) (end_each f ss)
      (\<lambda>p w. list_all2 (\<lambda>s s'. R s s' \<and> ds_id s' = ds_id s) ss (fst p) \<and>
        sees (set (fst p) \<union> {x \<in> ?X s'. ds_id x \<notin> ds_id ` set ss}) F w)" if "ds_id s' = ds_id s" for s'
  proof (rule Cons.IH)
    show "distinct (map ds_id ss)" using Cons.prems(2) by simp
    show "set ss \<subseteq> ?X s'" using Cons.prems(2,3) by auto (metis image_eqI)
  qed (use Cons.prems(1) in auto)
  have sub: "set (s' # ss') \<union> {x \<in> X. ds_id x \<notin> ds_id ` set (s # ss)} \<subseteq> set ss' \<union> {x \<in> ?X s'. ds_id x \<notin> ds_id ` set ss}"
    if "ds_id s' = ds_id s" for s' ss' using that Cons.prems(2) by auto
  have tail': "keeps (runs d0) (sees (?X s') F) (end_each f ss)
      (\<lambda>p w. list_all2 (\<lambda>s s'. R s s' \<and> ds_id s' = ds_id s) ss (fst p) \<and>
        sees (set (s' # fst p) \<union> {x \<in> X. ds_id x \<notin> ds_id ` set (s # ss)}) F w)" if "ds_id s' = ds_id s" for s'
    by (rule keeps_post [OF tail [OF that]]) (use sees_subset [OF _ sub [OF that]] in blast)
  have s: "s \<in> X" using Cons.prems(3) by simp
  show ?case unfolding end_each.simps
    by (rule keeps_bind [OF Cons.prems(1) [OF list.set_intros(1) s]])
      (auto intro!: keeps_fact keeps_bind [OF tail'] keeps_ret_post split: prod.splits)
qed

lemma keeps_end_any:
  assumes "s \<in> X" "\<not> dv_terminal s \<Longrightarrow> may_end now status s"
  shows "keeps (runs d0) (sees X F) (end_binding now s status reason actor action)
    (\<lambda>p w. dv_terminal (fst p) \<and> ds_id (fst p) = ds_id s \<and> sees (insert (fst p) {x \<in> X. ds_id x \<noteq> ds_id s}) F w)"
  by (rule keeps_end_binding [OF assms]) auto

lemma keeps_each_stopped:
  assumes "distinct (map ds_id ss)" "set ss \<subseteq> X"
  shows "keeps (runs d0) (sees X F) (end_each (\<lambda>b. stop_binding now b reason actor action) ss)
    (\<lambda>p w. list_all dv_terminal (fst p) \<and> sees {} F w)"
  unfolding stop_binding_def
  by (rule keeps_post [OF keeps_end_each [where R = "\<lambda>s s'. dv_terminal s'", OF keeps_end_any assms]])
    (auto simp: may_end_def list_all2_conv_all_nth list_all_length sees_def)

lemma keeps_each_expired:
  assumes "distinct (map ds_id ss)" "set ss \<subseteq> X" "\<And>s. s \<in> set ss \<Longrightarrow> ds_expires s \<le> now"
  shows "keeps (runs d0) (sees X F) (end_each (\<lambda>b. expire_binding now b reason) ss)
    (\<lambda>p w. list_all dv_terminal (fst p) \<and> sees {} F w)"
  unfolding expire_binding_def
  by (rule keeps_post [OF keeps_end_each [where R = "\<lambda>s s'. dv_terminal s'", OF keeps_end_any assms(1,2)]])
    (use assms(3) in \<open>auto simp: may_end_def list_all2_conv_all_nth list_all_length sees_def\<close>)

text \<open>Rows that a query lists have different keys.\<close>

definition control_keyed :: "control_db \<Rightarrow> bool" where
  "control_keyed d \<longleftrightarrow> distinct (map ds_id (c_device_sessions d))"

lemma list_live_rows:
  "set (list_live d P) = {s \<in> set (c_device_sessions d). P s \<and> \<not> dv_terminal s}"
  "control_keyed d \<Longrightarrow> distinct (map ds_id (list_live d P))"
  by (auto simp: list_live_def control_keyed_def distinct_map intro: inj_on_subset)

lemma list_due_rows:
  "set (list_due d now) = {s \<in> set (c_device_sessions d). \<not> dv_terminal s \<and> ds_expires s \<le> now}"
  "control_keyed d \<Longrightarrow> distinct (map ds_id (list_due d now))"
  by (auto simp: list_due_def control_keyed_def distinct_map intro: inj_on_subset)

lemma list_device_rows:
  "set (list_sessions_for_device d i) = {s \<in> set (c_device_sessions d). ds_device_id s = i \<and>
     ds_status s \<in> {DS_pending_device, DS_pending_user_approval, DS_active}}"
  "control_keyed d \<Longrightarrow> distinct (map ds_id (list_sessions_for_device d i))"
  by (auto simp: list_sessions_for_device_def control_keyed_def distinct_map intro: inj_on_subset)

lemma keeps_stop_all:
  assumes "\<And>d. control_keyed d \<Longrightarrow> distinct (map ds_id (rows_of d)) \<and> set (rows_of d) \<subseteq> set (c_device_sessions d)"
  shows "keeps (runs d0) (\<lambda>w. control_keyed (w_db w)) (stop_all sv now rows_of reason actor action commits) (\<lambda>_ _. True)"
  unfolding stop_all_def
proof (rule keeps_bind [OF keeps_query])
  fix rows
  show "keeps (runs d0) (\<lambda>w. rows = rows_of (w_db w) \<and> control_keyed (w_db w))
     (act_bind (end_each (\<lambda>b. stop_binding now b reason actor action) rows) (\<lambda>(stopped, revoked).
      act_bind (if commits then act_bind commit (\<lambda>_. close_relays sv revoked) else ret ()) (\<lambda>_. ret (stopped, revoked)))) (\<lambda>_ _. True)"
  proof (cases "distinct (map ds_id rows)")
    case True
    show ?thesis
      by (rule keeps_pre [OF keeps_bind [OF keeps_each_stopped [OF True subset_refl, where F = "{}"]]])
        (use assms in \<open>auto intro!: keeps_prod keeps_fact keeps_ret_post
          keeps_bind [OF keeps_if [OF keeps_bind [OF keeps_commit_any keeps_close_any] keeps_ret_post]] simp: sees_def\<close>)
  next
    case False
    then show ?thesis using assms by (auto intro!: keeps_pre [OF keeps_False])
  qed
qed

lemma keeps_stop_live:
  "keeps (runs d0) (\<lambda>w. control_keyed (w_db w))
     (stop_all sv now (\<lambda>d. list_live d P) reason actor action commits) (\<lambda>_ _. True)"
  by (rule keeps_stop_all) (auto simp: list_live_rows)

lemma keeps_expire_due: "keeps (runs d0) (\<lambda>w. control_keyed (w_db w)) (dv_expire_due sv now) (\<lambda>_ _. True)"
  unfolding dv_expire_due_def
proof (rule keeps_bind [OF keeps_query])
  fix rows
  show "keeps (runs d0) (\<lambda>w. rows = list_due (w_db w) now \<and> control_keyed (w_db w))
     (act_bind (end_each (\<lambda>b. expire_binding now b ''session_expired'') rows) (\<lambda>(_, revoked).
      act_bind (if rows = [] then ret () else act_bind commit (\<lambda>_. close_relays sv revoked)) (\<lambda>_. ret (length rows)))) (\<lambda>_ _. True)"
  proof (cases "distinct (map ds_id rows) \<and> (\<forall>s \<in> set rows. ds_expires s \<le> now)")
    case True
    then have d: "distinct (map ds_id rows)" and e: "\<And>s. s \<in> set rows \<Longrightarrow> ds_expires s \<le> now" by auto
    show ?thesis
      by (rule keeps_pre [OF keeps_bind [OF keeps_each_expired [OF d subset_refl e, where F = "{}"]]])
        (auto intro!: keeps_prod keeps_fact keeps_ret_post
          keeps_bind [OF keeps_if [OF keeps_ret_post keeps_bind [OF keeps_commit_any keeps_close_any]]] simp: sees_def list_due_rows)
  next
    case False
    then show ?thesis by (auto intro!: keeps_pre [OF keeps_False] simp: list_due_rows)
  qed
qed

lemma keeps_expire_any:
  assumes "s \<in> X"
  shows "keeps (runs d0) (sees X F) (dv_expire_if_needed sv now s)
    (\<lambda>s' w. ds_id s' = ds_id s \<and> sees (insert s' {x \<in> X. ds_id x \<noteq> ds_id s}) F w)"
proof -
  have "keeps (runs d0) (sees X F) (commit_ended sv (expire_binding now s reason))
      (\<lambda>s' w. ds_id s' = ds_id s \<and> sees (insert s' {x \<in> X. ds_id x \<noteq> ds_id s}) F w)" if "ds_expires s \<le> now" for reason
    unfolding commit_ended_def expire_binding_def
    by (rule keeps_bind [OF keeps_end_any [OF assms]])
      (use that in \<open>auto simp: may_end_def intro!: keeps_prod keeps_fact keeps_if keeps_ret_post keeps_bind [OF keeps_dv_commit]
        keeps_bind [OF keeps_close_relays]\<close>)
  then show ?thesis unfolding dv_expire_if_needed_def
    using assms by (auto intro!: keeps_if keeps_ret_post intro: sees_subset)
qed

lemma keeps_expire_items:
  "distinct (map ds_id ss) \<Longrightarrow> set ss \<subseteq> X \<Longrightarrow> keeps (runs d0) (sees X F) (expire_items sv now ss) (\<lambda>_ _. True)"
proof (induction ss arbitrary: X)
  case (Cons s ss)
  have "set ss \<subseteq> insert s' {x \<in> X. ds_id x \<noteq> ds_id s}" for s'
    using Cons.prems by auto (metis image_eqI)
  note tail = Cons.IH [OF _ this]
  show ?case unfolding expire_items.simps
    by (rule keeps_bind [OF keeps_expire_any])
      (use Cons.prems in \<open>auto intro!: keeps_fact keeps_bind [OF tail] keeps_ret_post split: prod.splits\<close>)
qed (auto intro: keeps_ret_post)

lemma keeps_inbox: "keeps (runs d0) (\<lambda>w. control_keyed (w_db w)) (dv_list_for_device sv now token) (\<lambda>_ _. True)"
  unfolding dv_list_for_device_def
proof (rule keeps_bind [OF keeps_reads(2)], rule keeps_bind [OF keeps_query])
  fix i rows
  let ?m = "act_bind (expire_items sv now rows) (\<lambda>(items, expired). act_bind (if expired then commit else ret ()) (\<lambda>_.
     ret (filter (\<lambda>s. ds_status s \<in> {DS_pending_device, DS_pending_user_approval, DS_active, DS_stopping}) items)))"
  show "keeps (runs d0) (\<lambda>w. rows = list_sessions_for_device (w_db w) i \<and> control_keyed (w_db w)) ?m (\<lambda>_ _. True)"
  proof (cases "distinct (map ds_id rows)")
    case True
    show ?thesis
      by (rule keeps_pre [OF keeps_bind [OF keeps_expire_items [OF True subset_refl, where F = "{}"]]])
        (auto intro!: keeps_prod keeps_ret_post keeps_bind [OF keeps_if [OF keeps_commit_any keeps_ret_post]]
          simp: sees_def list_device_rows)
  next
    case False
    then show ?thesis by (auto intro!: keeps_pre [OF keeps_False] simp: list_device_rows)
  qed
qed

lemma keeps_candidates: "keeps (runs d0) (\<lambda>w. control_keyed (w_db w)) (dv_list_candidates sv now token) (\<lambda>_ _. True)"
  unfolding dv_list_candidates_def
  by (auto intro!: keeps_bind [OF keeps_check] keeps_fact keeps_bind [OF keeps_reads(2)] keeps_read keeps_bind [OF keeps_expire_due]
      keeps_ret_post)

lemma delete_ok:
  "(\<And>s. s \<in> set (c_device_sessions (w_db w)) \<Longrightarrow> ds_id s \<in> set ids \<Longrightarrow> dv_terminal s) \<Longrightarrow> runs d0 w \<Longrightarrow>
   runs d0 (w\<lparr>w_db := delete_sessions ids (w_db w)\<rparr>)"
  by (rule runs_db [OF _ Remove])

lemma keeps_dv_audit_any: "keeps (runs d0) P (add_audit actor action s) (\<lambda>_ _. True)"
  unfolding add_audit_def by (rule keeps_modify) (auto intro: runs_db control_table_step.Audit)

text \<open>Keys decide rows.\<close>

lemma keyedD: "control_keyed d \<Longrightarrow> x \<in> set (c_device_sessions d) \<Longrightarrow> y \<in> set (c_device_sessions d) \<Longrightarrow> ds_id x = ds_id y \<Longrightarrow> x = y"
  by (auto simp: control_keyed_def distinct_map dest: inj_onD)

lemma keeps_delete_rows:
  "keeps (runs d0) (\<lambda>w. control_keyed (w_db w) \<and> set rows \<subseteq> set (c_device_sessions (w_db w)) \<and> (\<forall>s \<in> set rows. dv_terminal s))
     (modify (\<lambda>d. Inr (delete_sessions (map ds_id rows) d))) (\<lambda>_ _. True)"
  by (rule keeps_modify) (auto intro!: delete_ok, metis keyedD subsetD)

lemma keeps_dv_delete: "keeps (runs d0) (\<lambda>w. control_keyed (w_db w)) (dv_delete user i) (\<lambda>_ _. True)"
proof -
  have d: "keeps (runs d0) (\<lambda>w. control_keyed (w_db w) \<and> s \<in> set (c_device_sessions (w_db w)) \<and> dv_terminal s)
      (modify (\<lambda>d. Inr (delete_sessions [ds_id s] d))) (\<lambda>_ _. True)" for s
    using keeps_delete_rows [of d0 "[s]"] by simp
  have q: "keeps (runs d0) (\<lambda>w. control_keyed (w_db w)) (require_session i)
      (\<lambda>s w. control_keyed (w_db w) \<and> s \<in> set (c_device_sessions (w_db w)))"
    unfolding require_session_def get_device_session_def
    by (rule keeps_bind [OF keeps_query], rule keeps_option)
      (auto intro!: keeps_not_found keeps_ret_post dest: sym find_row_Some)
  show ?thesis unfolding dv_delete_def
    by (rule keeps_bind [OF q], rule keeps_bind [OF keeps_check], rule keeps_fact, rule keeps_bind [OF keeps_check], rule keeps_fact,
        rule keeps_bind [OF keeps_pre [OF d]], force,
        rule keeps_bind [OF keeps_dv_audit_any], rule keeps_commit_any)
qed

lemma keeps_delete_terminal: "keeps (runs d0) (\<lambda>w. control_keyed (w_db w)) (dv_delete_terminal user) (\<lambda>_ _. True)"
  unfolding dv_delete_terminal_def
proof (rule keeps_bind [OF keeps_query])
  fix rows
  let ?q = "\<lambda>d. if u_role user = ''admin'' then list_all_sessions d else list_sessions_for_user d (u_id user)"
  have sub: "set (?q d) \<subseteq> set (c_device_sessions d)" for d by (auto simp: list_all_sessions_def list_sessions_for_user_def)
  show "keeps (runs d0) (\<lambda>w. rows = ?q (w_db w) \<and> control_keyed (w_db w))
     (case filter dv_terminal rows of [] \<Rightarrow> ret 0
      | s # ss \<Rightarrow> act_bind (modify (\<lambda>d. Inr (delete_sessions (map ds_id (s # ss)) d))) (\<lambda>_.
          act_bind (add_audit (Some (u_id user)) ''device_session.bulk_delete'' s) (\<lambda>_.
          act_bind commit (\<lambda>_. ret (length (s # ss)))))) (\<lambda>_ _. True)"
  proof (cases "filter dv_terminal rows")
    case (Cons s ss)
    have "\<forall>x \<in> set (s # ss). x \<in> set rows \<and> dv_terminal x" unfolding Cons [symmetric] by auto
    then have pre: "rows = ?q (w_db w) \<and> control_keyed (w_db w) \<Longrightarrow> control_keyed (w_db w) \<and>
        set (s # ss) \<subseteq> set (c_device_sessions (w_db w)) \<and> (\<forall>x \<in> set (s # ss). dv_terminal x)" for w
      using sub [of "w_db w"] by blast
    show ?thesis unfolding Cons list.case
      by (rule keeps_bind [OF keeps_pre [OF keeps_delete_rows pre]], assumption,
          rule keeps_bind [OF keeps_dv_audit_any], rule keeps_bind [OF keeps_commit_any], rule keeps_ret_post, rule TrueI)
  qed (auto intro: keeps_ret_post)
qed

lemma keeps_retention:
  "keeps (runs d0) (\<lambda>w. control_keyed (w_db w)) (dv_delete_terminal_before cutoff limit) (\<lambda>_ _. True)"
  unfolding dv_delete_terminal_before_def
  by (rule keeps_bind [OF keeps_query])
    (auto intro!: keeps_if keeps_ret_post keeps_bind [OF keeps_pre [OF keeps_delete_rows]] simp: list_terminal_before_def
      dest: in_set_takeD)

section \<open>Creation and claim\<close>

lemma keeps_insert:
  assumes "pristine s"
  shows "keeps (runs d0) (sees X {ds_id s}) (modify (insert_session s)) (\<lambda>_. sees {s} {})"
proof (rule keeps_modify)
  fix w d assume a: "runs d0 w" "sees X {ds_id s} w" "insert_session s (w_db w) = Inr d"
  have "unused (ds_id s) (w_db w)" using a(2) by (simp add: sees_def)
  from control_table_step.Admit [OF assms this a(3)] a(1) have "runs d0 (w\<lparr>w_db := d\<rparr>)" by (rule runs_db [rotated])
  then show "runs d0 (w\<lparr>w_db := d\<rparr>) \<and> sees {s} {} (w\<lparr>w_db := d\<rparr>)"
    using a(3) by (auto simp: insert_session_rows sees_def)
qed

lemma keeps_activation:
  assumes "ds_status s = DS_pending_device"
  shows "keeps (runs d0) (sees {s} {}) (enqueue_activation s tool) (\<lambda>_. sees {s} {})"
  unfolding enqueue_activation_def
  by (rule keeps_modify) (auto simp: sees_def insert_task_rows intro!: runs_db control_table_step.Activate [OF _ assms])

lemma pristine_new: "pristine (new_device_session sv now i u x t mode)"
  by (simp add: pristine_def new_device_session_def)

lemma new_session_simps [simp]:
  "ds_id (new_device_session sv now i u x t mode) = i"
  "ds_status (new_device_session sv now i u x t mode) = DS_pending_device"
  by (simp_all add: new_device_session_def)

lemmas keeps_new_row = keeps_bind [OF keeps_insert [OF pristine_new, unfolded new_session_simps]]
  keeps_bind [OF keeps_activation [OF new_session_simps(2)]]

lemma keeps_dv_create: "keeps (runs d0) (sees {} {i}) (dv_create sv now i user token device tool) (\<lambda>_ _. True)"
  unfolding dv_create_def Let_def
  by (intro keeps_bind [OF keeps_check] keeps_fact keeps_bind [OF keeps_reads(4)] keeps_bind [OF keeps_reads(5)] keeps_read
      keeps_bind [where Q = "\<lambda>_ _. True", OF keeps_catch] keeps_new_row keeps_bind [OF keeps_dv_audit_any] keeps_commit_any
      keeps_bind [OF keeps_dv_rollback] keeps_throw keeps_ret_post TrueI)

lemma keeps_claim_new:
  "keeps (runs d0) (sees {} {i}) (claim_new sv now i token tool device revoked) (\<lambda>_ _. True)"
  unfolding claim_new_def Let_def
  by (intro keeps_bind [where Q = "\<lambda>_ _. True", OF keeps_catch] keeps_new_row keeps_bind [OF keeps_dv_audit_any] keeps_commit_any
      keeps_bind [where Q = "\<lambda>_ _. True", OF keeps_if] keeps_dv_audit_any
      keeps_bind [OF keeps_dv_rollback] keeps_throw keeps_bind [OF keeps_close_any] keeps_ret_post TrueI)

lemma matched_ids: "list_all2 (\<lambda>s s'. ds_id s' = ds_id s) ss ss' \<Longrightarrow> map ds_id ss' = map ds_id ss"
  by (induction rule: list_all2_induct) auto

lemma keeps_expire_claimed:
  assumes "distinct (map ds_id rows)"
  shows "keeps (runs d0) (sees (set rows) F) (expire_claimed now rows)
    (\<lambda>p w. distinct (map ds_id (fst p)) \<and> sees (set (fst p)) F w)"
proof -
  have e: "keeps (runs d0) (sees X F) (if ds_expires s \<le> now then expire_binding now s ''session_expired'' else ret (s, []))
      (\<lambda>p w. True \<and> ds_id (fst p) = ds_id s \<and> sees (insert (fst p) {x \<in> X. ds_id x \<noteq> ds_id s}) F w)" if "s \<in> X" for s X
    unfolding expire_binding_def
    by (rule keeps_if, rule keeps_post [OF keeps_end_any [OF that]])
      (use that in \<open>auto simp: may_end_def intro!: keeps_ret_post elim: sees_subset\<close>)
  show ?thesis unfolding expire_claimed_def
  proof (rule keeps_post [OF keeps_end_each [where R = "\<lambda>_ _. True", OF e assms subset_refl]])
    fix p w assume "list_all2 (\<lambda>s s'. True \<and> ds_id s' = ds_id s) rows (fst p) \<and>
      sees (set (fst p) \<union> {x \<in> set rows. ds_id x \<notin> ds_id ` set rows}) F w"
    then show "distinct (map ds_id (fst p)) \<and> sees (set (fst p)) F w" using assms by (auto dest!: matched_ids elim: sees_subset)
  qed
qed

lemma keeps_claim_bindings:
  "keeps (runs d0) (\<lambda>w. control_keyed (w_db w) \<and> sees {} F w) (claim_bindings now tool device)
     (\<lambda>p w. distinct (map ds_id (fst p)) \<and> sees (set (fst p)) F w)"
  unfolding claim_bindings_def
proof (rule keeps_bind [OF keeps_query])
  fix rows
  show "keeps (runs d0) (\<lambda>w. rows = list_live_for_binding (w_db w) tool device \<and> control_keyed (w_db w) \<and> sees {} F w)
     (act_bind (expire_claimed now rows) (\<lambda>(rows, revoked). ret (filter (\<lambda>b. \<not> dv_terminal b) rows, revoked)))
     (\<lambda>p w. distinct (map ds_id (fst p)) \<and> sees (set (fst p)) F w)"
  proof (cases "distinct (map ds_id rows)")
    case True
    show ?thesis
      by (rule keeps_pre [OF keeps_bind [OF keeps_expire_claimed [OF True]]])
        (auto intro!: keeps_prod keeps_fact keeps_ret_post simp: sees_def list_live_for_binding_def list_live_rows distinct_map_filter)
  next
    case False
    then show ?thesis by (auto intro!: keeps_pre [OF keeps_False] simp: list_live_for_binding_def list_live_rows)
  qed
qed

lemma keeps_rebind:
  assumes "distinct (map ds_id rows)"
  shows "keeps (runs d0) (sees (set rows) F) (rebind now token ids rows) (\<lambda>_. sees {} F)"
proof -
  have e: "keeps (runs d0) (sees X F)
      (if ds_id s \<in> set ids then stop_binding now s ''rebound'' (Some (tk_user_id token)) ''device_session.rebound'' else ret (s, []))
      (\<lambda>p w. True \<and> ds_id (fst p) = ds_id s \<and> sees (insert (fst p) {x \<in> X. ds_id x \<noteq> ds_id s}) F w)" if "s \<in> X" for s X
    unfolding stop_binding_def
    by (rule keeps_if, rule keeps_post [OF keeps_end_any [OF that]])
      (use that in \<open>auto simp: may_end_def intro!: keeps_ret_post elim: sees_subset\<close>)
  show ?thesis unfolding rebind_def
    by (rule keeps_post [OF keeps_end_each [where R = "\<lambda>_ _. True", OF e assms subset_refl]]) (auto elim: sees_subset)
qed

lemma keeps_claim_device: "keeps I P (claim_device token device_id tool_id) (\<lambda>_. P)"
  unfolding claim_device_def
  by (intro keeps_bind [OF keeps_reads(5)] keeps_bind [OF keeps_reads(4)] keeps_bind [OF keeps_check] keeps_fact
      keeps_bind [OF keeps_reads(3)] keeps_ret_post)

lemma keeps_rebound:
  "keeps (runs d0) (\<lambda>w. distinct (map ds_id rows) \<and> sees (set rows) {i} w)
     (act_bind (rebind now token ids rows) (\<lambda>(_, more). claim_new sv now i token tool device (revoked @ more))) (\<lambda>_ _. True)"
  by (rule keeps_fact, rule keeps_bind [OF keeps_rebind], assumption, rule keeps_prod, rule keeps_claim_new)

lemma keeps_claim:
  "keeps (runs d0) (\<lambda>w. control_keyed (w_db w) \<and> sees {} {i} w) (dv_claim sv now i token tool caps) (\<lambda>_ _. True)"
  unfolding dv_claim_def claim_bind_def Let_def
  by (rule keeps_bind [OF keeps_check], rule keeps_fact, rule keeps_bind [OF keeps_check], rule keeps_fact,
      rule keeps_bind [OF keeps_reads(2)], rule keeps_bind [OF keeps_claim_device], rule keeps_prod,
      rule keeps_bind [OF keeps_reads(6)], rule keeps_bind [OF keeps_claim_bindings], rule keeps_prod)
    (auto intro!: keeps_rebound [unfolded append.simps] keeps_bind [OF keeps_commit_any] keeps_ret_post split: option.splits
      simp del: append.simps)

section \<open>Requests\<close>

lemma keeps_w_store:
  "keeps (runs d0) P (exchange_keys now b role spki ctx ttl) (\<lambda>_ _. True)"
  "keeps (runs d0) P (issue_relay_ticket now h claims ttl) (\<lambda>_ _. True)"
  "keeps (runs d0) P (take_ticket now h) (\<lambda>_ _. True)"
  "keeps (runs d0) P (join_hub claims ws) (\<lambda>_ _. True)"
  "keeps (runs d0) P (refuse_socket ws) (\<lambda>_ _. True)"
  by (auto simp: keeps_def exchange_keys_def issue_relay_ticket_def take_ticket_def join_hub_def refuse_socket_def
      split: prod.splits sum.splits)

lemma keeps_register: "keeps (runs d0) P (dv_register sv now secret raw s role credential g spki) (\<lambda>_ _. True)"
  unfolding dv_register_def Let_def
  by (intro keeps_bind [OF keeps_check] keeps_fact keeps_bind [OF keeps_w_store(1)])
    (auto intro!: keeps_ret_post keeps_throw keeps_bind [OF keeps_w_store(2)] split: dr_result.splits)

lemma keeps_registers:
  "keeps (runs d0) (sees {} F) (dv_register_device sv now secret raw token i g spki) (\<lambda>_ _. True)"
  "keeps (runs d0) (sees {} F) (dv_register_proxy sv now secret raw node i g spki) (\<lambda>_ _. True)"
  unfolding dv_register_device_def dv_register_proxy_def
  by (intro keeps_bind [OF keeps_dv_require_session] keeps_bind [OF keeps_check] keeps_fact keeps_register)+

lemma keeps_socket: "keeps (runs d0) P (dv_relay_socket sv now released i ticket ws) (\<lambda>_ _. True)"
  unfolding dv_relay_socket_def
  by (intro keeps_if keeps_option keeps_w_store(5) keeps_bind [OF keeps_w_store(3)] keeps_read keeps_w_store(4))

definition fresh_id :: "control_request \<Rightarrow> control_db \<Rightarrow> bool" where
  "fresh_id q d = (case q of Create_session i _ _ _ _ \<Rightarrow> unused i d | Claim_session i _ _ _ \<Rightarrow> unused i d | _ \<Rightarrow> True)"

lemma keeps_control:
  "keeps (runs d0) (\<lambda>w. control_keyed (w_db w) \<and> fresh_id q (w_db w)) (control_step cs now q) (\<lambda>_ _. True)"
proof -
  have s: "sees {} {} w" for w by (simp add: sees_def)
  note k = keeps_pre [where P' = "sees {} {}", OF _ s]
  note kk = keeps_pre [where P' = "\<lambda>w. control_keyed (w_db w)"]
  show ?thesis
    by (cases q; simp only: control_step.simps)
      (auto intro!: keeps_discard keeps_pre [OF keeps_dv_create] keeps_pre [OF keeps_claim] kk [OF keeps_candidates] kk [OF keeps_inbox]
        k [OF keeps_dv_get] kk [OF keeps_dv_delete] kk [OF keeps_delete_terminal] kk [OF keeps_bind [OF keeps_retention keeps_commit_any]]
        k [OF keeps_connected] k [OF keeps_approve] k [OF keeps_lock] k [OF keeps_dv_renew] k [OF keeps_reconnect] k [OF keeps_abort]
        k [OF keeps_stop_route] kk [OF keeps_stop_live]
        k [OF keeps_registers(1)] k [OF keeps_registers(2)] keeps_socket
        simp: fresh_id_def sees_def dv_stop_for_tool_session_def dv_stop_for_device_def list_live_for_tool_session_def
          list_live_for_device_def)
qed

lemma control_serve_runs:
  assumes "control_keyed (w_saved w)" "fresh_id q (w_saved w)"
  shows "control_table_step\<^sup>*\<^sup>* (w_saved w) (w_saved (control_serve cs now q w))"
proof -
  let ?w = "w\<lparr>w_db := w_saved w\<rparr>"
  obtain w' r where m: "control_step cs now q ?w = (w', r)" by (cases "control_step cs now q ?w")
  have "runs (w_saved w) ?w" by (simp add: runs_def)
  from keepsD [OF keeps_control this _ m] assms have "runs (w_saved w) w'" by simp
  then show ?thesis by (simp add: control_serve_def run_request_def m runs_def)
qed

end
