(* ===== verification/Device_Safety.thy ===== *)
theory Device_Safety
  imports Device_Life
begin

text \<open>
  What holds of device control in every run: the tables are well-formed, the tasks of a session are in order
  and end with its deactivation, a session only advances, and what has passed does not come back. Runs
  interleave the requests with the other services, which change their own tables, and with the relay hub.
\<close>

section \<open>Well-formed tables\<close>

definition session_shape :: "device_session \<Rightarrow> bool" where
  "session_shape s \<longleftrightarrow> (ds_lease s \<noteq> None \<longleftrightarrow> ds_status s = DS_active) \<and> (\<forall>l. ds_lease s = Some l \<longrightarrow> l \<le> ds_expires s) \<and>
     (ds_lock s \<noteq> None \<longrightarrow> \<not> dv_terminal s) \<and> (ds_stopped s \<noteq> None \<longleftrightarrow> dv_terminal s) \<and> (ds_reason s \<noteq> None \<longleftrightarrow> dv_terminal s)"

definition precedes :: "node_task \<Rightarrow> node_task \<Rightarrow> bool" where
  "precedes t u \<longleftrightarrow> (task_session t = task_session u \<longrightarrow> task_generation t \<le> task_generation u \<and> \<not> is_deactivation t)"

definition told :: "device_session \<Rightarrow> node_task list \<Rightarrow> bool" where
  "told s ts \<longleftrightarrow> (\<forall>t \<in> set ts. task_session t = ds_id s \<longrightarrow> task_generation t \<le> ds_generation s \<and> (is_deactivation t \<longrightarrow> dv_terminal s)) \<and>
     (dv_terminal s \<longrightarrow> Deactivate_id (ds_id s) (ds_generation s) \<in> nt_task_id ` set ts) \<and>
     (\<forall>l. ds_lease s = Some l \<longrightarrow> Update_id (ds_id s) (ds_generation s) (lease_identity l) \<in> nt_task_id ` set ts)"

definition tables_ok :: "device_session list \<Rightarrow> node_task list \<Rightarrow> bool" where
  "tables_ok rows ts \<longleftrightarrow> sessions_admissible rows \<and> (\<forall>s \<in> set rows. session_shape s \<and> told s ts) \<and>
     distinct (map nt_task_id ts) \<and> sorted_wrt precedes ts"

definition control_ok :: "control_db \<Rightarrow> bool" where
  "control_ok d \<longleftrightarrow> tables_ok (c_device_sessions d) (c_tasks d)"

lemma control_ok_keyed: "control_ok d \<Longrightarrow> control_keyed d"
  by (simp add: control_ok_def tables_ok_def sessions_admissible_def control_keyed_def)

lemma terminal_simps [simp]:
  "dv_terminal (s\<lparr>ds_lock := x\<rparr>) = dv_terminal s" "dv_terminal (s\<lparr>ds_lease := x\<rparr>) = dv_terminal s"
  "dv_terminal (s\<lparr>ds_tool_session_id := k\<rparr>) = dv_terminal s" "dv_terminal (s\<lparr>ds_generation := g\<rparr>) = dv_terminal s"
  "dv_terminal (s\<lparr>ds_status := DS_active\<rparr>) = False" "dv_terminal (s\<lparr>ds_status := DS_pending_device\<rparr>) = False"
  "dv_terminal (s\<lparr>ds_status := DS_pending_user_approval\<rparr>) = False"
  by (simp_all add: dv_terminal_def terminal_device_statuses_def)

lemma live_statuses:
  "ds_status s = DS_active \<Longrightarrow> \<not> dv_terminal s" "ds_status s = DS_pending_device \<Longrightarrow> \<not> dv_terminal s"
  "ds_status s = DS_pending_user_approval \<Longrightarrow> \<not> dv_terminal s"
  by (simp_all add: dv_terminal_def terminal_device_statuses_def)

text \<open>What a step of one row keeps.\<close>

definition progress :: "device_session \<Rightarrow> device_session \<Rightarrow> bool" where
  "progress s s' \<longleftrightarrow> \<not> dv_terminal s \<and> ds_id s' = ds_id s \<and> ds_user_id s' = ds_user_id s \<and> ds_device_id s' = ds_device_id s \<and>
     ds_tool_session_id s' = ds_tool_session_id s \<and> ds_reference_id s' = ds_reference_id s \<and> ds_node_id s' = ds_node_id s \<and>
     ds_mode s' = ds_mode s \<and> ds_expires s' = ds_expires s \<and> ds_created s' = ds_created s \<and> ds_generation s \<le> ds_generation s'"

lemma device_step_progress: "device_step s s' \<Longrightarrow> progress s s' \<and> \<not> dv_terminal s'"
  by (induction rule: device_step.induct) (auto simp: progress_def dest: live_statuses)

lemma device_step_lease: "device_step s s' \<Longrightarrow> session_shape s \<Longrightarrow>
    ds_lease s' = None \<or> ds_lease s' = ds_lease s \<and> ds_generation s' = ds_generation s"
  by (induction rule: device_step.induct) (auto simp: session_shape_def)

lemma device_step_shape: "device_step s s' \<Longrightarrow> session_shape s \<Longrightarrow> session_shape s'"
  by (induction rule: device_step.induct) (auto simp: session_shape_def dest: live_statuses)

lemma told_step_progress: "told_step s s' t \<Longrightarrow> progress s s'"
  by (induction rule: told_step.induct) (auto simp: progress_def ended_def dest: live_statuses)

lemma told_step_shape: "told_step s s' t \<Longrightarrow> session_shape s \<Longrightarrow> session_shape s'"
proof (induction rule: told_step.induct)
  case (End s status now s' reason)
  then have "dv_terminal s'" using may_end_status [of now status s] by (auto simp: may_end_def intro: ended_terminal)
  then show ?case using End by (auto simp: session_shape_def ended_def dv_terminal_def terminal_device_statuses_def)
qed (auto simp: session_shape_def dest: live_statuses)

lemma told_step_task:
  "told_step s s' t \<Longrightarrow> task_session t = ds_id s \<and> task_generation t = ds_generation s' \<and> (is_deactivation t \<longleftrightarrow> dv_terminal s') \<and>
     (dv_terminal s' \<longrightarrow> nt_task_id t = Deactivate_id (ds_id s') (ds_generation s')) \<and>
     (\<forall>l. ds_lease s' = Some l \<longrightarrow> nt_task_id t = Update_id (ds_id s') (ds_generation s') (lease_identity l))"
proof (induction rule: told_step.induct)
  case (End s status now s' reason)
  then have "dv_terminal s'" using may_end_status [of now status s] by (auto simp: may_end_def intro: ended_terminal)
  then show ?case using End by (simp add: task_session_def task_generation_def is_deactivation_def deactivation_task_def ended_def)
qed (auto simp: task_session_def task_generation_def is_deactivation_def update_task_def)

section \<open>The machine keeps them\<close>

lemma tables_okD:
  assumes "tables_ok rows ts"
  shows "distinct (map ds_id rows)" "s \<in> set rows \<Longrightarrow> session_shape s" "s \<in> set rows \<Longrightarrow> told s ts"
    "sessions_admissible rows" "distinct (map nt_task_id ts)" "sorted_wrt precedes ts"
  using assms by (auto simp: tables_ok_def sessions_admissible_def)

lemma told_other: "told s ts \<Longrightarrow> task_session t \<noteq> ds_id s \<Longrightarrow> told s (ts @ [t])"
  by (auto simp: told_def)

lemma told_live: "told s ts \<Longrightarrow> progress s s' \<Longrightarrow> \<not> dv_terminal s' \<Longrightarrow>
   ds_lease s' = None \<or> ds_lease s' = ds_lease s \<and> ds_generation s' = ds_generation s \<Longrightarrow> told s' ts"
  by (force simp: told_def progress_def)

lemma told_task:
  "told s ts \<Longrightarrow> progress s s' \<Longrightarrow> task_session t = ds_id s \<Longrightarrow> task_generation t = ds_generation s' \<Longrightarrow>
   (is_deactivation t \<longleftrightarrow> dv_terminal s') \<Longrightarrow> (dv_terminal s' \<longrightarrow> nt_task_id t = Deactivate_id (ds_id s') (ds_generation s')) \<Longrightarrow>
   (\<forall>l. ds_lease s' = Some l \<longrightarrow> nt_task_id t = Update_id (ds_id s') (ds_generation s') (lease_identity l)) \<Longrightarrow> told s' (ts @ [t])"
  by (force simp: told_def progress_def)

lemma ordered_append:
  assumes "sorted_wrt precedes ts" "told s ts" "\<not> dv_terminal s" "task_session t = ds_id s" "ds_generation s \<le> task_generation t"
  shows "sorted_wrt precedes (ts @ [t])"
  using assms by (fastforce simp: sorted_wrt_append precedes_def told_def)

lemma tables_change:
  assumes "tables_ok rows ts" "s \<in> set rows" "device_step s s'" "sessions_admissible (put_row ds_id s' rows)"
  shows "tables_ok (put_row ds_id s' rows) ts"
proof -
  note p = device_step_progress [OF assms(3)]
  have "session_shape x \<and> told x ts" if "x \<in> set (put_row ds_id s' rows)" for x
  proof (cases "x = s'")
    case True
    then show ?thesis using p device_step_shape [OF assms(3)] device_step_lease [OF assms(3)] tables_okD(2,3) [OF assms(1,2)] told_live by blast
  next
    case False
    then show ?thesis using that tables_okD(2,3) [OF assms(1)] by (auto simp: put_row_mem)
  qed
  then show ?thesis using assms(1,4) by (simp add: tables_ok_def)
qed

lemma tables_tell:
  assumes "tables_ok rows ts" "s \<in> set rows" "told_step s s' t" "sessions_admissible (put_row ds_id s' rows)"
    "nt_task_id t \<notin> nt_task_id ` set ts"
  shows "tables_ok (put_row ds_id s' rows) (ts @ [t])"
proof -
  note p = told_step_progress [OF assms(3)] and t = told_step_task [OF assms(3)]
  have id: "ds_id s' = ds_id s" using p by (simp add: progress_def)
  have "session_shape x \<and> told x (ts @ [t])" if "x \<in> set (put_row ds_id s' rows)" for x
  proof (cases "x = s'")
    case True
    then show ?thesis using p t told_step_shape [OF assms(3)] tables_okD(2,3) [OF assms(1,2)] told_task by blast
  next
    case False
    then have "x \<in> set rows" "task_session t \<noteq> ds_id x" using that t id by (auto simp: put_row_mem)
    then show ?thesis using tables_okD(2,3) [OF assms(1)] told_other by blast
  qed
  moreover have "sorted_wrt precedes (ts @ [t])"
    using p t by (intro ordered_append [OF tables_okD(6) [OF assms(1)] tables_okD(3) [OF assms(1,2)]]) (auto simp: progress_def)
  ultimately show ?thesis using assms(1,4,5) by (simp add: tables_ok_def)
qed

lemma tables_activate:
  assumes "tables_ok rows ts" "s \<in> set rows" "\<not> dv_terminal s" "nt_task_id (activation_task s tool) \<notin> nt_task_id ` set ts"
  shows "tables_ok rows (ts @ [activation_task s tool])"
proof -
  let ?t = "activation_task s tool"
  have t: "task_session ?t = ds_id s" "task_generation ?t = ds_generation s" "\<not> is_deactivation ?t"
    by (simp_all add: activation_task_def task_session_def task_generation_def is_deactivation_def)
  have "told x (ts @ [?t])" if "x \<in> set rows" for x
  proof (cases "x = s")
    case True
    then show ?thesis using t tables_okD(3) [OF assms(1,2)] assms(3) by (auto simp: told_def)
  next
    case False
    then have "ds_id x \<noteq> ds_id s" using tables_okD(1) [OF assms(1)] assms(2) that by (auto simp: distinct_map dest: inj_onD)
    then show ?thesis using told_other tables_okD(3) [OF assms(1) that] t(1) by metis
  qed
  moreover have "sorted_wrt precedes (ts @ [?t])"
    using t by (intro ordered_append [OF tables_okD(6) [OF assms(1)] tables_okD(3) [OF assms(1,2)] assms(3)]) auto
  ultimately show ?thesis using assms(1,4) by (simp add: tables_ok_def)
qed

lemma tables_admit:
  assumes "tables_ok rows ts" "pristine s" "ds_id s \<notin> task_session ` set ts" "sessions_admissible (rows @ [s])"
  shows "tables_ok (rows @ [s]) ts"
proof -
  have "\<not> dv_terminal s" using assms(2) by (auto simp: pristine_def dest: live_statuses)
  moreover have "task_session t \<noteq> ds_id s" if "t \<in> set ts" for t using assms(3) that by (metis image_eqI)
  ultimately have "session_shape s" "told s ts" using assms(2) by (auto simp: pristine_def session_shape_def told_def)
  then show ?thesis using assms(1,4) by (auto simp: tables_ok_def)
qed

lemma admissible_filter: "sessions_admissible rows \<Longrightarrow> sessions_admissible (filter P rows)"
  by (auto simp: sessions_admissible_def list_all_iff unique_index_filter(2) distinct_map_filter)

lemma tables_remove: "tables_ok rows ts \<Longrightarrow> tables_ok (filter P rows) ts"
  by (auto simp: tables_ok_def admissible_filter)

theorem control_step_ok: "control_table_step d d' \<Longrightarrow> control_ok d \<Longrightarrow> control_ok d'"
proof (induction rule: control_table_step.induct)
  case (Admit s d d')
  then show ?case by (auto simp: control_ok_def insert_session_rows unused_def intro: tables_admit)
next
  case (Change s d s' d')
  then show ?case by (auto simp: control_ok_def save_session_rows intro: tables_change)
next
  case (Tell s d s' t d1 d')
  then show ?case by (auto simp: control_ok_def save_session_rows insert_task_rows intro: tables_tell)
next
  case (Activate s d tool d')
  then show ?case by (auto simp: control_ok_def insert_task_rows intro: tables_activate dest: live_statuses)
next
  case (Approvals i rows d d')
  then show ?case by (auto simp: control_ok_def replace_approvals_def Let_def split: if_splits)
next
  case (Remove d ids)
  then show ?case by (simp add: control_ok_def delete_sessions_def tables_remove)
qed (simp add: control_ok_def)

lemma control_run_ok: "control_table_step\<^sup>*\<^sup>* d d' \<Longrightarrow> control_ok d \<Longrightarrow> control_ok d'"
  by (induction rule: rtranclp_induct) (auto intro: control_step_ok)

section \<open>Runs\<close>

text \<open>
  Another service deletes a tool session: \<open>on delete set null\<close>. Users are never deleted, and the services refuse to
  delete a device or a node that a device session refers to (\<open>has_any_for_device\<close>, \<open>has_business_references\<close>), so no
  cascade removes a device session. One other deletion is left out of the runs: a node without device sessions takes the
  tasks of sessions that are long gone with it. A request is one step: it locks the sessions it works on, except
  \<open>list_for_device\<close>, which expires what it has read without a lock.
\<close>

definition forget_tool :: "uuid \<Rightarrow> device_session \<Rightarrow> device_session" where
  "forget_tool i s = (if ds_tool_session_id s = Some i then s\<lparr>ds_tool_session_id := None\<rparr> else s)"

inductive control_evolves :: "control_settings \<Rightarrow> control_world \<Rightarrow> control_world \<Rightarrow> bool" for cs w where
  Same: "control_evolves cs w w"
| Serve: "control_evolves cs w w' \<Longrightarrow> fresh_id q (w_saved w') \<Longrightarrow> control_evolves cs w (control_serve cs now q w')"
| Others: "control_evolves cs w w' \<Longrightarrow> c_device_sessions d = c_device_sessions (w_saved w') \<Longrightarrow> c_tasks d = c_tasks (w_saved w') \<Longrightarrow>
    control_evolves cs w (w'\<lparr>w_db := d, w_saved := d\<rparr>)"
| Purge: "control_evolves cs w w' \<Longrightarrow>
    d = (w_saved w')\<lparr>c_device_sessions := map (forget_tool i) (c_device_sessions (w_saved w'))\<rparr> \<Longrightarrow>
    control_evolves cs w (w'\<lparr>w_db := d, w_saved := d\<rparr>)"
| Hub: "control_evolves cs w w' \<Longrightarrow> dr_step (w_hub w') h \<Longrightarrow> control_evolves cs w (w'\<lparr>w_hub := h\<rparr>)"

lemma forget_simps [simp]:
  "ds_id (forget_tool i s) = ds_id s" "dv_terminal (forget_tool i s) = dv_terminal s" "ds_device_id (forget_tool i s) = ds_device_id s"
  "ds_lock (forget_tool i s) = ds_lock s" "session_shape (forget_tool i s) = session_shape s" "told (forget_tool i s) ts = told s ts"
  "session_admissible (forget_tool i s) = session_admissible s" "ds_generation (forget_tool i s) = ds_generation s"
  by (simp_all add: forget_tool_def session_shape_def told_def session_admissible_def)

lemma forget_tool_session: "ds_tool_session_id (forget_tool i s) = Some k \<longleftrightarrow> ds_tool_session_id s = Some k \<and> k \<noteq> i"
  by (auto simp: forget_tool_def)

lemma tables_forget:
  assumes "tables_ok rows ts"
  shows "tables_ok (map (forget_tool i) rows) ts"
proof -
  have "sessions_admissible (map (forget_tool i) rows)"
  proof -
    have a: "sessions_admissible rows" using assms by (simp add: tables_ok_def)
    let ?rows = "map (forget_tool i) rows"
    from a have u: "unique_index (\<lambda>s. ds_tool_session_id s \<noteq> None \<and> \<not> dv_terminal s) ds_tool_session_id rows"
      "unique_index (\<lambda>s. \<not> dv_terminal s) ds_device_id rows" "unique_index (\<lambda>s. ds_lock s \<noteq> None) ds_device_id rows"
      unfolding sessions_admissible_def by blast+
    have "unique_index (\<lambda>s. ds_tool_session_id s \<noteq> None \<and> \<not> dv_terminal s) ds_tool_session_id ?rows"
      by (rule unique_index_map [OF u(1)]) (auto simp: forget_tool_session)
    moreover have "unique_index (\<lambda>s. \<not> dv_terminal s) ds_device_id ?rows" by (rule unique_index_map [OF u(2)]) auto
    moreover have "unique_index (\<lambda>s. ds_lock s \<noteq> None) ds_device_id ?rows" by (rule unique_index_map [OF u(3)]) auto
    ultimately show ?thesis using a by (auto simp: sessions_admissible_def list_all_iff comp_def)
  qed
  then show ?thesis using assms by (auto simp: tables_ok_def)
qed

text \<open>What every step of the machine keeps, whatever the other services do, holds of runs.\<close>

lemma control_evolves_rule:
  assumes "control_evolves cs w w'" "control_ok (w_saved w)"
    and refl: "\<And>d. R d d" and trans: "\<And>d d' d''. R d d' \<Longrightarrow> R d' d'' \<Longrightarrow> R d d''"
    and step: "\<And>d d'. control_ok d \<Longrightarrow> control_table_step d d' \<Longrightarrow> R d d'"
    and eq: "\<And>d d'. c_device_sessions d' = c_device_sessions d \<Longrightarrow> c_tasks d' = c_tasks d \<Longrightarrow> R d d'"
    and forget: "\<And>d i. control_ok d \<Longrightarrow> R d (d\<lparr>c_device_sessions := map (forget_tool i) (c_device_sessions d)\<rparr>)"
  shows "control_ok (w_saved w') \<and> R (w_saved w) (w_saved w')"
  using assms(1,2)
proof (induction rule: control_evolves.induct)
  case Same
  then show ?case using refl by blast
next
  case (Serve w' q now)
  have "R d d'" if "control_table_step\<^sup>*\<^sup>* d d'" "control_ok d" for d d'
    using that
  proof (induction rule: rtranclp_induct)
    case base
    then show ?case using refl by blast
  next
    case (step d1 d2)
    then show ?case using assms(5) trans control_run_ok by blast
  qed
  then show ?case using Serve control_serve_runs [OF control_ok_keyed] control_run_ok trans by blast
next
  case (Others w' d)
  have "R (w_saved w') d" "control_ok d" using eq [OF Others.hyps(2,3)] Others by (auto simp: control_ok_def)
  then show ?case using Others trans by auto
next
  case (Purge w' d i)
  have "R (w_saved w') d" "control_ok d" using forget [of "w_saved w'" i] Purge by (auto simp: control_ok_def tables_forget)
  then show ?case using Purge trans by auto
qed simp

lemma control_evolves_ok: "control_evolves cs w w' \<Longrightarrow> control_ok (w_saved w) \<Longrightarrow> control_ok (w_saved w')"
  by (rule control_evolves_rule [where R = "\<lambda>_ _. True", THEN conjunct1]) auto

section \<open>The history of a session\<close>

text \<open>How far a session got within a generation.\<close>

definition stage :: "device_session \<Rightarrow> nat" where
  "stage s = (case ds_status s of DS_pending_device \<Rightarrow> 0 | DS_pending_user_approval \<Rightarrow> 1 | DS_active \<Rightarrow> 2 | DS_stopping \<Rightarrow> 3 | _ \<Rightarrow> 4)"

definition follows :: "device_session \<Rightarrow> device_session \<Rightarrow> bool" where
  "follows s s' \<longleftrightarrow>
     (ds_id s', ds_user_id s', ds_device_id s', ds_reference_id s', ds_node_id s', ds_mode s', ds_expires s', ds_created s') =
       (ds_id s, ds_user_id s, ds_device_id s, ds_reference_id s, ds_node_id s, ds_mode s, ds_expires s, ds_created s) \<and>
     (ds_tool_session_id s' = ds_tool_session_id s \<or> ds_tool_session_id s' = None) \<and>
     ds_generation s \<le> ds_generation s' \<and> (ds_generation s' = ds_generation s \<longrightarrow> stage s \<le> stage s' \<and> dv_terminal s' = dv_terminal s) \<and>
     (ds_lock s \<noteq> None \<longrightarrow> \<not> dv_terminal s' \<longrightarrow> ds_lock s' = ds_lock s) \<and>
     (dv_terminal s \<longrightarrow> s'\<lparr>ds_tool_session_id := None\<rparr> = s\<lparr>ds_tool_session_id := None\<rparr>)"

lemma follows_refl: "follows s s"
  by (simp add: follows_def)

lemma same_core: "s'\<lparr>ds_tool_session_id := None\<rparr> = s\<lparr>ds_tool_session_id := None\<rparr> \<Longrightarrow>
    dv_terminal s' = dv_terminal s \<and> ds_lock s' = ds_lock s \<and> stage s' = stage s"
  by (cases s; cases s') (simp add: dv_terminal_def stage_def)

lemma follows_trans: "follows s s' \<Longrightarrow> follows s' s'' \<Longrightarrow> follows s s''"
proof -
  assume a: "follows s s'" "follows s' s''"
  have gen: "ds_generation s'' = ds_generation s \<longrightarrow> stage s \<le> stage s'' \<and> dv_terminal s'' = dv_terminal s"
    using a unfolding follows_def by (metis order_antisym order_trans)
  have t: "dv_terminal s \<longrightarrow> s''\<lparr>ds_tool_session_id := None\<rparr> = s\<lparr>ds_tool_session_id := None\<rparr>"
    using a same_core unfolding follows_def by metis
  have l: "ds_lock s \<noteq> None \<longrightarrow> \<not> dv_terminal s'' \<longrightarrow> ds_lock s'' = ds_lock s"
  proof (cases "dv_terminal s'")
    case True
    then show ?thesis using a(2) same_core unfolding follows_def by metis
  next
    case False
    then show ?thesis using a unfolding follows_def by metis
  qed
  have id: "(ds_id s'', ds_user_id s'', ds_device_id s'', ds_reference_id s'', ds_node_id s'', ds_mode s'', ds_expires s'', ds_created s'') =
      (ds_id s, ds_user_id s, ds_device_id s, ds_reference_id s, ds_node_id s, ds_mode s, ds_expires s, ds_created s)"
    "ds_tool_session_id s'' = ds_tool_session_id s \<or> ds_tool_session_id s'' = None" "ds_generation s \<le> ds_generation s''"
    using a unfolding follows_def by (blast intro: trans, metis, meson order_trans)
  then show ?thesis using gen t l unfolding follows_def by blast
qed

lemma device_step_follows: "device_step s s' \<Longrightarrow> follows s s'"
  by (induction rule: device_step.induct) (auto simp: follows_def stage_def dest: live_statuses split: device_status.splits)

lemma told_step_follows: "told_step s s' t \<Longrightarrow> follows s s'"
proof (induction rule: told_step.induct)
  case (End s status now s' reason)
  then have "dv_terminal s'" using may_end_status [of now status s] by (auto simp: may_end_def intro: ended_terminal)
  then show ?case using End by (auto simp: follows_def ended_def)
qed (auto simp: follows_def stage_def dest: live_statuses)

lemma forget_follows: "follows s (forget_tool i s)"
  by (simp add: follows_def forget_tool_def stage_def)

definition passed :: "control_db \<Rightarrow> uuid \<Rightarrow> int \<Rightarrow> bool" where
  "passed d i g \<longleftrightarrow> i \<notin> ds_id ` set (c_device_sessions d) \<and>
     (\<exists>t \<in> set (c_tasks d). is_deactivation t \<and> task_session t = i \<and> g \<le> task_generation t)"

definition fate :: "control_db \<Rightarrow> device_session \<Rightarrow> bool" where
  "fate d s \<longleftrightarrow> (\<exists>s' \<in> set (c_device_sessions d). follows s s') \<or> passed d (ds_id s) (ds_generation s)"

definition later :: "control_db \<Rightarrow> control_db \<Rightarrow> bool" where
  "later d d' \<longleftrightarrow> (\<forall>s \<in> set (c_device_sessions d). fate d' s) \<and> (\<forall>i g. passed d i g \<longrightarrow> passed d' i g)"

lemma passed_le: "passed d i g \<Longrightarrow> g' \<le> g \<Longrightarrow> passed d i g'"
  by (auto simp: passed_def)

lemma later_refl: "later d d"
  by (auto simp: later_def fate_def intro: follows_refl)

lemma fate_later: "fate d s \<Longrightarrow> later d d' \<Longrightarrow> fate d' s"
proof -
  assume a: "fate d s" "later d d'"
  show ?thesis
  proof (cases "passed d (ds_id s) (ds_generation s)")
    case False
    then obtain s' where s': "s' \<in> set (c_device_sessions d)" "follows s s'" using a(1) by (auto simp: fate_def)
    then have "fate d' s'" using a(2) by (simp add: later_def)
    then show ?thesis
    proof (cases "passed d' (ds_id s') (ds_generation s')")
      case True
      then show ?thesis using s'(2) passed_le by (auto simp: fate_def follows_def)
    next
      case False
      with \<open>fate d' s'\<close> obtain s'' where "s'' \<in> set (c_device_sessions d')" "follows s' s''" by (auto simp: fate_def)
      then show ?thesis using follows_trans [OF s'(2)] by (auto simp: fate_def)
    qed
  qed (use a(2) in \<open>auto simp: fate_def later_def\<close>)
qed

lemma later_trans: "later d d' \<Longrightarrow> later d' d'' \<Longrightarrow> later d d''"
  using fate_later by (auto simp: later_def)

lemma later_rows:
  assumes "\<And>x. x \<in> set (c_device_sessions d) \<Longrightarrow> \<exists>x' \<in> set (c_device_sessions d'). follows x x'"
    "ds_id ` set (c_device_sessions d') = ds_id ` set (c_device_sessions d)" "set (c_tasks d) \<subseteq> set (c_tasks d')"
  shows "later d d'"
  using assms by (auto simp: later_def fate_def passed_def)

lemma later_put:
  assumes "control_keyed d" "s \<in> set (c_device_sessions d)" "follows s s'" "c_device_sessions d' = put_row ds_id s' (c_device_sessions d)"
    "set (c_tasks d) \<subseteq> set (c_tasks d')"
  shows "later d d'"
proof (rule later_rows [OF _ _ assms(5)])
  have id: "ds_id s' = ds_id s" using assms(3) by (simp add: follows_def)
  show "\<exists>x' \<in> set (c_device_sessions d'). follows x x'" if "x \<in> set (c_device_sessions d)" for x
  proof (cases "x = s")
    case True
    then show ?thesis using assms(2,3,4) id put_row_in [of s _ ds_id s'] by auto
  next
    case False
    then have "ds_id x \<noteq> ds_id s'" using keyedD [OF assms(1) that assms(2)] id by auto
    then show ?thesis using put_row_other [OF that] assms(4) follows_refl by metis
  qed
  show "ds_id ` set (c_device_sessions d') = ds_id ` set (c_device_sessions d)"
    unfolding assms(4) by (metis list.set_map put_row_keys)
qed

lemma later_remove:
  assumes "control_ok d" "\<And>s. s \<in> set (c_device_sessions d) \<Longrightarrow> ds_id s \<in> set ids \<Longrightarrow> dv_terminal s"
  shows "later d (delete_sessions ids d)"
proof -
  have "fate (delete_sessions ids d) s" if s: "s \<in> set (c_device_sessions d)" for s
  proof (cases "ds_id s \<in> set ids")
    case True
    then have "told s (c_tasks d)" "dv_terminal s" using assms s by (auto simp: control_ok_def tables_ok_def)
    then obtain t where "t \<in> set (c_tasks d)" "nt_task_id t = Deactivate_id (ds_id s) (ds_generation s)" by (auto simp: told_def)
    with True show ?thesis
      by (auto simp: fate_def passed_def delete_sessions_def is_deactivation_def task_session_def task_generation_def intro!: bexI [of _ t])
  next
    case False
    then show ?thesis using s by (auto simp: fate_def delete_sessions_def intro: follows_refl)
  qed
  then show ?thesis by (auto simp: later_def passed_def delete_sessions_def)
qed

lemma control_step_later:
  assumes "control_ok d" "control_table_step d d'"
  shows "later d d'"
  using assms(2)
proof (cases rule: control_table_step.cases)
  case (Admit s)
  then show ?thesis
    by (auto simp: later_def fate_def passed_def insert_session_rows unused_def intro: follows_refl) (metis image_eqI)+
next
  case (Change s s')
  then show ?thesis using later_put [OF control_ok_keyed [OF assms(1)] Change(1) device_step_follows]
    by (auto simp: save_session_rows)
next
  case (Tell s s' t d1)
  then show ?thesis using later_put [OF control_ok_keyed [OF assms(1)] Tell(1) told_step_follows [OF Tell(2)], of d']
    by (auto simp: save_session_rows insert_task_rows)
next
  case (Remove ids)
  then show ?thesis using later_remove [OF assms(1)] by blast
qed (auto simp: insert_task_rows replace_approvals_def Let_def split: if_splits intro!: later_rows follows_refl bexI)

lemma forget_later: "later d (d\<lparr>c_device_sessions := map (forget_tool i) (c_device_sessions d)\<rparr>)"
  by (rule later_rows) (auto simp: image_image intro: forget_follows)

lemma later_same: "c_device_sessions d' = c_device_sessions d \<Longrightarrow> c_tasks d' = c_tasks d \<Longrightarrow> later d d'"
  by (rule later_rows) (auto intro: follows_refl)

lemma control_evolves_later:
  assumes "control_evolves cs w w'" "control_ok (w_saved w)"
  shows "control_ok (w_saved w') \<and> later (w_saved w) (w_saved w')"
  by (rule control_evolves_rule [where R = later, OF assms later_refl])
    (auto intro: later_trans control_step_later forget_later later_same)

lemma control_evolves_trans: "control_evolves cs w w' \<Longrightarrow> control_evolves cs w' w'' \<Longrightarrow> control_evolves cs w w''"
  by (rotate_tac, induction rule: control_evolves.induct) (auto intro: control_evolves.intros)

section \<open>Tickets of the past\<close>

text \<open>A generation is over for good: its session has moved on, has ended, or is gone.\<close>

definition outdated :: "control_db \<Rightarrow> uuid \<Rightarrow> int \<Rightarrow> bool" where
  "outdated d i g \<longleftrightarrow> passed d i g \<or>
     (\<exists>s \<in> set (c_device_sessions d). ds_id s = i \<and> (g < ds_generation s \<or> g \<le> ds_generation s \<and> dv_terminal s))"

lemma outdated_later:
  assumes "later d d'" "outdated d i g"
  shows "outdated d' i g"
proof (cases "passed d i g")
  case True
  then show ?thesis using assms(1) by (auto simp: outdated_def later_def)
next
  case False
  then obtain s where s: "s \<in> set (c_device_sessions d)" "ds_id s = i" "g < ds_generation s \<or> g \<le> ds_generation s \<and> dv_terminal s"
    using assms(2) by (auto simp: outdated_def)
  then have "fate d' s" using assms(1) by (auto simp: later_def)
  then consider (row) s' where "s' \<in> set (c_device_sessions d')" "follows s s'" | (gone) "passed d' i (ds_generation s)"
    using s(2) by (auto simp: fate_def)
  then show ?thesis
  proof cases
    case row
    moreover have "ds_id s' = ds_id s" "ds_generation s \<le> ds_generation s'"
      "ds_generation s' = ds_generation s \<longrightarrow> dv_terminal s' = dv_terminal s"
      using row(2) unfolding follows_def by simp_all
    moreover from this(2,3) have "g < ds_generation s' \<or> g \<le> ds_generation s' \<and> dv_terminal s'" using s(3) by linarith
    ultimately show ?thesis using s(2) unfolding outdated_def by blast
  next
    case gone
    then show ?thesis using s(3) passed_le unfolding outdated_def by (metis less_imp_le)
  qed
qed

lemma outdated_not_current:
  assumes "control_keyed d" "outdated d (db_device_session_id (dc_binding c)) (db_generation (dc_binding c))"
  shows "\<not> relay_claims_current d now c"
proof
  assume "relay_claims_current d now c"
  then obtain s where s: "find_row ds_id (db_device_session_id (dc_binding c)) (c_device_sessions d) = Some s"
    "ds_generation s = db_generation (dc_binding c)" "relay_eligible s"
    by (auto simp: relay_claims_current_def Let_def get_device_session_def split: option.splits)
  have r: "s \<in> set (c_device_sessions d)" "ds_id s = db_device_session_id (dc_binding c)" using find_row_Some [OF s(1)] by auto
  have "\<not> dv_terminal s" using s(3) by (auto simp: relay_eligible_def dest: live_statuses)
  moreover have "db_device_session_id (dc_binding c) \<in> ds_id ` set (c_device_sessions d)" using r by (metis image_eqI)
  ultimately obtain s' where "s' \<in> set (c_device_sessions d)" "ds_id s' = ds_id s"
    "ds_generation s < ds_generation s' \<or> ds_generation s \<le> ds_generation s' \<and> dv_terminal s'"
    using assms(2) r(2) s(2) unfolding outdated_def passed_def by metis
  moreover from this keyedD [OF assms(1) _ r(1)] have "s' = s" by blast
  ultimately show False using \<open>\<not> dv_terminal s\<close> by simp
qed

end
