(* ===== verification/Device_Results.thy ===== *)
theory Device_Results
  imports Device_Safety
begin

text \<open>
  What the operations of device control return in well-formed tables: an end never fails, whatever the
  constraints of the database are, so a stop, an expiry and a claim come through; a lock is never refused.
\<close>

section \<open>Running a request\<close>

lemma audit_step:
  "act_bind (add_audit actor action s) k v =
     k () (v\<lparr>w_db := (w_db v)\<lparr>c_audits := c_audits (w_db v) @ [\<lparr>au_actor = actor, au_action = action, au_target = ds_id s\<rparr>]\<rparr>\<rparr>)"
  by (simp add: act_bind_def add_audit_def modify_def)

lemmas step_simps = act_simps audit_step

section \<open>An end never fails\<close>

definition gone :: "time \<Rightarrow> device_status \<Rightarrow> string \<Rightarrow> device_session \<Rightarrow> device_session" where
  "gone now status reason s = ended now status reason (s\<lparr>ds_generation := ds_generation s + 1\<rparr>)"

lemma gone_simps [simp]:
  "ds_id (gone now st r s) = ds_id s" "ds_status (gone now st r s) = st" "ds_generation (gone now st r s) = ds_generation s + 1"
  "ds_device_id (gone now st r s) = ds_device_id s" "ds_tool_session_id (gone now st r s) = ds_tool_session_id s"
  "ds_lock (gone now st r s) = None" "ds_lease (gone now st r s) = None" "ds_user_id (gone now st r s) = ds_user_id s"
  "ds_expires (gone now st r s) = ds_expires s" "ds_mode (gone now st r s) = ds_mode s"
  by (simp_all add: gone_def ended_def)

lemma gone_terminal: "may_end now st s \<Longrightarrow> dv_terminal (gone now st r s)"
  unfolding gone_def by (rule ended_terminal, rule may_end_status)

lemma live_generation: "session_admissible s \<Longrightarrow> \<not> dv_terminal s \<Longrightarrow> ds_generation s \<le> max_active_generation"
  by (auto simp: session_admissible_def)

lemma terminal_increment:
  "session_admissible s \<Longrightarrow> \<not> dv_terminal s \<Longrightarrow> increment_generation s True = Inr (s\<lparr>ds_generation := ds_generation s + 1\<rparr>)"
  by (drule (1) live_generation) (simp add: increment_generation_def max_active_generation_def)

text \<open>A row may be replaced by one that occupies no more.\<close>

lemma admissible_put:
  assumes "sessions_admissible rows" "s \<in> set rows" "\<forall>x \<in> set rows. session_shape x" "ds_id s' = ds_id s"
    "ds_device_id s' = ds_device_id s" "ds_tool_session_id s' = ds_tool_session_id s" "session_admissible s'" "\<not> dv_terminal s"
    "ds_lock s' \<noteq> None \<longrightarrow> \<not> dv_terminal s'"
  shows "sessions_admissible (put_row ds_id s' rows)"
proof -
  let ?rows = "put_row ds_id s' rows"
  have d: "distinct (map ds_id rows)" using assms(1) by (simp add: sessions_admissible_def)
  have u: "unique_index (\<lambda>s. \<not> dv_terminal s) ds_device_id ?rows"
    by (rule unique_index_put [OF _ d assms(2,4)]) (use assms in \<open>auto simp: sessions_admissible_def\<close>)
  have "unique_index (\<lambda>s. ds_tool_session_id s \<noteq> None \<and> \<not> dv_terminal s) ds_tool_session_id ?rows"
    by (rule unique_index_put [OF _ d assms(2,4)]) (use assms in \<open>auto simp: sessions_admissible_def\<close>)
  moreover have "unique_index (\<lambda>s. ds_lock s \<noteq> None) ds_device_id ?rows"
    by (rule unique_index_mono [OF u]) (use assms(3,9) in \<open>auto simp: put_row_mem session_shape_def\<close>)
  moreover have "list_all session_admissible ?rows"
    using assms(1,7) by (auto simp: sessions_admissible_def list_all_iff put_row_mem)
  ultimately show ?thesis using d u by (simp add: sessions_admissible_def)
qed

definition end_db :: "uuid option \<Rightarrow> string \<Rightarrow> device_session \<Rightarrow> control_db \<Rightarrow> control_db" where
  "end_db actor action s' d =
     d\<lparr>c_device_sessions := put_row ds_id s' (c_device_sessions d), c_tasks := c_tasks d @ [deactivation_task s'],
       c_audits := c_audits d @ [\<lparr>au_actor = actor, au_action = action, au_target = ds_id s'\<rparr>]\<rparr>"

lemma gone_admissible: "session_admissible s \<Longrightarrow> \<not> dv_terminal s \<Longrightarrow> dv_terminal (gone now st r s) \<Longrightarrow> session_admissible (gone now st r s)"
  using live_generation [of s] by (auto simp: session_admissible_def gone_def ended_def max_active_generation_def dv_terminal_def)

lemma deactivation_fresh:
  assumes "told s ts" "\<not> dv_terminal s" "ds_id s' = ds_id s"
  shows "nt_task_id (deactivation_task s') \<notin> nt_task_id ` set ts"
proof
  assume "nt_task_id (deactivation_task s') \<in> nt_task_id ` set ts"
  then obtain t where "t \<in> set ts" "nt_task_id t = Deactivate_id (ds_id s) (ds_generation s')"
    using assms(3) by (auto simp: deactivation_task_def)
  then show False using assms(1,2) by (auto simp: told_def task_session_def is_deactivation_def)
qed

lemma end_binding_works:
  assumes "control_ok (w_db w)" "s \<in> set (c_device_sessions (w_db w))" "\<not> dv_terminal s" "may_end now st s"
  shows "end_binding now s st reason actor action w =
      (w\<lparr>w_db := end_db actor action (gone now st reason s) (w_db w)\<rparr>, Inr (gone now st reason s, [(ds_id s, ds_generation s)]))"
    and "control_ok (end_db actor action (gone now st reason s) (w_db w))"
proof -
  let ?d = "w_db w" and ?s = "gone now st reason s"
  have rows: "sessions_admissible (c_device_sessions ?d)" "\<forall>x \<in> set (c_device_sessions ?d). session_shape x" "told s (c_tasks ?d)"
    "session_admissible s"
    using assms(1,2) by (auto simp: control_ok_def tables_ok_def sessions_admissible_def list_all_iff)
  note inc = terminal_increment [OF rows(4) assms(3)] and g = gone_terminal [OF assms(4)]
  have adm: "sessions_admissible (put_row ds_id ?s (c_device_sessions ?d))"
    by (rule admissible_put [OF rows(1) assms(2) rows(2)]) (use rows(4) assms(3) g gone_admissible in auto)
  let ?d1 = "?d\<lparr>c_device_sessions := put_row ds_id ?s (c_device_sessions ?d)\<rparr>"
  have save: "save_session ?s ?d = Inr ?d1" using adm by (simp add: save_session_def store_sessions_def)
  have task: "insert_task (deactivation_task ?s) ?d1 = Inr (?d1\<lparr>c_tasks := c_tasks ?d @ [deactivation_task ?s]\<rparr>)"
    using deactivation_fresh [OF rows(3) assms(3), of ?s] by (simp add: insert_task_def)
  have e: "end_db actor action ?s ?d = (let d2 = ?d1\<lparr>c_tasks := c_tasks ?d @ [deactivation_task ?s]\<rparr> in
      d2\<lparr>c_audits := c_audits d2 @ [\<lparr>au_actor = actor, au_action = action, au_target = ds_id ?s\<rparr>]\<rparr>)"
    by (simp add: end_db_def)
  show "end_binding now s st reason actor action w =
      (w\<lparr>w_db := end_db actor action ?s ?d\<rparr>, Inr (?s, [(ds_id s, ds_generation s)]))"
    using assms(3) inc save task
    by (simp add: end_binding_def act_bind_def lift_res_def ret_def save_with_task_def modify_def add_audit_def Let_def end_db_def gone_def)
  have "told_step s ?s (deactivation_task ?s)" unfolding gone_def by (rule told_end [OF assms(3,4) inc])
  from Tell [OF assms(2) this save task] have "control_ok (?d1\<lparr>c_tasks := c_tasks ?d @ [deactivation_task ?s]\<rparr>)"
    using assms(1) by (rule control_step_ok)
  from control_step_ok [OF control_table_step.Audit this] show "control_ok (end_db actor action ?s ?d)" unfolding e Let_def .
qed

text \<open>What is left when rows have been ended one after the other.\<close>

definition ends_as :: "time \<Rightarrow> device_status \<Rightarrow> string \<Rightarrow> device_session set \<Rightarrow> control_db \<Rightarrow> control_db \<Rightarrow> bool" where
  "ends_as now st reason X d d' \<longleftrightarrow> control_ok d' \<and>
     set (c_device_sessions d') = gone now st reason ` X \<union> (set (c_device_sessions d) - X) \<and>
     (\<exists>ts. c_tasks d' = c_tasks d @ ts \<and> set ts = deactivation_task ` gone now st reason ` X) \<and>
     c_devices d' = c_devices d \<and> c_sessions d' = c_sessions d \<and> c_nodes d' = c_nodes d \<and> c_tokens d' = c_tokens d"

lemma ends_as_none: "control_ok d \<Longrightarrow> ends_as now st reason {} d d"
  by (auto simp: ends_as_def)

lemma ends_as_one:
  assumes "control_ok d" "s \<in> set (c_device_sessions d)" "control_ok (end_db actor action (gone now st reason s) d)"
  shows "ends_as now st reason {s} d (end_db actor action (gone now st reason s) d)"
proof -
  have "set (put_row ds_id (gone now st reason s) (c_device_sessions d)) =
      insert (gone now st reason s) (set (c_device_sessions d) - {s})"
    using keyedD [OF control_ok_keyed [OF assms(1)] _ assms(2)] assms(2) by (auto simp: put_row_mem)
  then show ?thesis using assms(3) by (auto simp: ends_as_def end_db_def)
qed

lemma ends_as_trans:
  "ends_as now st reason X d d' \<Longrightarrow> ends_as now st reason Y d' d'' \<Longrightarrow> Y \<subseteq> set (c_device_sessions d) - X \<Longrightarrow>
   gone now st reason ` X \<inter> Y = {} \<Longrightarrow> ends_as now st reason (X \<union> Y) d d''"
  unfolding ends_as_def by (auto simp: image_Un)

text \<open>A loop that ends the rows of \<open>P\<close> and passes over the others.\<close>

definition end_if :: "(device_session \<Rightarrow> bool) \<Rightarrow> time \<Rightarrow> device_status \<Rightarrow> string \<Rightarrow> (device_session \<Rightarrow> uuid option) \<Rightarrow> string \<Rightarrow>
    device_session \<Rightarrow> (device_session \<times> revoked list) dact" where
  "end_if P now st reason actor action b = (if P b then end_binding now b st reason (actor b) action else ret (b, []))"

lemma end_each_none: "(\<And>s. s \<in> set ss \<Longrightarrow> \<not> P s) \<Longrightarrow> end_each (end_if P now st reason actor action) ss w = (w, Inr (ss, []))"
  by (induction ss) (auto simp: end_if_def ret_def act_bind_def)

lemma end_each_works:
  assumes "control_ok (w_db w)" "set ss \<subseteq> set (c_device_sessions (w_db w))" "distinct (map ds_id ss)"
    "\<And>s. s \<in> set ss \<Longrightarrow> P s \<Longrightarrow> \<not> dv_terminal s \<and> may_end now st s"
  shows "\<exists>d'. end_each (end_if P now st reason actor action) ss w =
      (w\<lparr>w_db := d'\<rparr>, Inr (map (\<lambda>s. if P s then gone now st reason s else s) ss,
        map (\<lambda>s. (ds_id s, ds_generation s)) (filter P ss))) \<and>
      ends_as now st reason {s \<in> set ss. P s} (w_db w) d'"
  using assms
proof (induction ss arbitrary: w)
  case Nil
  then show ?case by (auto simp: ret_def intro!: exI [of _ "w_db w"] ends_as_none)
next
  case (Cons s ss)
  show ?case
  proof (cases "P s")
    case False
    then have "{x \<in> set (s # ss). P x} = {x \<in> set ss. P x}" by auto
    then show ?thesis using Cons.IH [of w] Cons.prems False by (auto simp: end_if_def act_bind_def ret_def)
  next
    case True
    have s: "s \<in> set (c_device_sessions (w_db w))" "\<not> dv_terminal s" "may_end now st s" using Cons.prems(2,4) True by auto
    let ?f = "end_if P now st reason actor action" and ?d1 = "end_db (actor s) action (gone now st reason s) (w_db w)"
    let ?out = "(map (\<lambda>s. if P s then gone now st reason s else s) ss, map (\<lambda>s. (ds_id s, ds_generation s)) (filter P ss))"
    note one = end_binding_works [OF Cons.prems(1) s, where reason = reason and actor = "actor s" and action = action]
    note e1 = ends_as_one [OF Cons.prems(1) s(1) one(2)]
    have ss: "x \<noteq> s \<and> x \<in> set (c_device_sessions ?d1)" if "x \<in> set ss" for x
    proof -
      have "x \<noteq> s" using that Cons.prems(3) by auto
      then show ?thesis using that e1 Cons.prems(2) by (auto simp: ends_as_def)
    qed
    have "\<exists>d'. end_each ?f ss (w\<lparr>w_db := ?d1\<rparr>) = (w\<lparr>w_db := ?d1\<rparr>\<lparr>w_db := d'\<rparr>, Inr ?out) \<and>
        ends_as now st reason {x \<in> set ss. P x} (w_db (w\<lparr>w_db := ?d1\<rparr>)) d'"
      by (rule Cons.IH) (use one(2) ss Cons.prems(3,4) in auto)
    then obtain d' where d': "end_each ?f ss (w\<lparr>w_db := ?d1\<rparr>) = (w\<lparr>w_db := d'\<rparr>, Inr ?out)"
      "ends_as now st reason {x \<in> set ss. P x} ?d1 d'" by auto
    have "ends_as now st reason ({s} \<union> {x \<in> set ss. P x}) (w_db w) d'"
    proof (rule ends_as_trans [OF e1 d'(2)])
      show "{x \<in> set ss. P x} \<subseteq> set (c_device_sessions (w_db w)) - {s}" using ss Cons.prems(2) by auto
      have "dv_terminal (gone now st reason s)" by (rule gone_terminal [OF s(3)])
      then show "gone now st reason ` {s} \<inter> {x \<in> set ss. P x} = {}" using Cons.prems(4) by auto
    qed
    moreover have "{x \<in> set (s # ss). P x} = {s} \<union> {x \<in> set ss. P x}" using True by auto
    moreover have "?f s w = (w\<lparr>w_db := ?d1\<rparr>, Inr (gone now st reason s, [(ds_id s, ds_generation s)]))"
      using one(1) True by (simp add: end_if_def)
    ultimately show ?thesis using d'(1) True by (auto simp: act_bind_def ret_def)
  qed
qed

lemma end_ifs:
  "stop_binding now b reason actor action = end_if (\<lambda>_. True) now DS_stopped reason (\<lambda>b. Some (case actor of None \<Rightarrow> ds_user_id b | Some a \<Rightarrow> a)) action b"
  "expire_binding now b reason = end_if (\<lambda>_. True) now DS_expired reason (\<lambda>b. Some (ds_user_id b)) ''device_session.expire'' b"
  by (simp_all add: end_if_def stop_binding_def expire_binding_def)

lemma end_loops:
  "expire_claimed now = end_each (end_if (\<lambda>b. ds_expires b \<le> now) now DS_expired ''session_expired''
     (\<lambda>b. Some (ds_user_id b)) ''device_session.expire'')"
  "rebind now token ids = end_each (end_if (\<lambda>b. ds_id b \<in> set ids) now DS_stopped ''rebound''
     (\<lambda>b. Some (tk_user_id token)) ''device_session.rebound'')"
  "end_each (\<lambda>b. expire_binding now b reason) = end_each (end_if (\<lambda>_. True) now DS_expired reason
     (\<lambda>b. Some (ds_user_id b)) ''device_session.expire'')"
  "end_each (\<lambda>b. stop_binding now b reason actor action) = end_each (end_if (\<lambda>_. True) now DS_stopped reason
     (\<lambda>b. Some (case actor of None \<Rightarrow> ds_user_id b | Some a \<Rightarrow> a)) action)"
  unfolding expire_claimed_def rebind_def by (rule arg_cong [where f = end_each], rule ext,
    simp add: end_if_def expire_binding_def stop_binding_def)+

section \<open>Stops and expiries\<close>

lemma find_session:
  "get_device_session d i = Some s \<Longrightarrow> s \<in> set (c_device_sessions d) \<and> ds_id s = i"
  unfolding get_device_session_def by (rule find_row_Some)

lemma close_relays_eq:
  "close_relays sv rs w = (if sv_hub sv then w\<lparr>w_hub := fold (\<lambda>r. dr_close_binding (fst r) (snd r) 1008) rs (w_hub w)\<rparr> else w, Inr ())"
  by (induction rs arbitrary: w) (auto simp: close_relays_def ret_def act_bind_def close_relay_def)

lemma commit_ended_works:
  assumes "m w = (w', Inr (s', r # rs))"
  shows "commit_ended sv m w =
    (w'\<lparr>w_saved := w_db w', w_hub := if sv_hub sv then fold (\<lambda>r. dr_close_binding (fst r) (snd r) 1008) (r # rs) (w_hub w') else w_hub w'\<rparr>,
     Inr s')"
  using assms by (simp add: commit_ended_def act_bind_def commit_def close_relays_eq ret_def)

abbreviation relay_key :: "uuid \<Rightarrow> int \<Rightarrow> relay_binding" where
  "relay_key i g \<equiv> \<lparr>rb_kind = Device_control, rb_binding_id = i, rb_generation = g\<rparr>"

lemma closed_pair:
  "pair_of (hub_pairs (dr_close_binding i g code h)) k = (if k = relay_key i g then [] else pair_of (hub_pairs h) k)"
  by (simp add: dr_close_binding_def close_pair_def Let_def pair_of_delete)

lemma closed_pairs:
  "pair_of (hub_pairs (fold (\<lambda>r. dr_close_binding (fst r) (snd r) code) rs h)) k =
     (if k \<in> (\<lambda>r. relay_key (fst r) (snd r)) ` set rs then [] else pair_of (hub_pairs h) k)"
  by (induction rs arbitrary: h) (auto simp: closed_pair)

definition may_stop :: "user_row \<Rightarrow> token_row \<Rightarrow> device_session \<Rightarrow> bool" where
  "may_stop user token s \<longleftrightarrow>
     (if tk_type token = ''device'' then tk_device_id token = Some (ds_device_id s)
      else tk_type token = ''user'' \<and> (u_role user = ''admin'' \<or> ds_user_id s = u_id user))"

lemma route_stop_works:
  assumes "control_ok (w_saved w)" "get_device_session (w_saved w) i = Some s" "\<not> dv_terminal s" "may_stop user token s" "sv_hub sv"
  shows "\<exists>actor action d'. d' = end_db actor action (gone now DS_stopped reason s) (w_saved w) \<and> control_ok d' \<and>
    run_request (route_stop sv now user token i reason) w =
      (w\<lparr>w_db := d', w_saved := d', w_hub := dr_close_binding i (ds_generation s) 1008 (w_hub w)\<rparr>, Inr (gone now DS_stopped reason s))"
proof -
  note row = find_session [OF assms(2)]
  let ?w = "w\<lparr>w_db := w_saved w\<rparr>"
  have end1: "end_binding now s DS_stopped reason actor action ?w =
      (?w\<lparr>w_db := end_db actor action (gone now DS_stopped reason s) (w_saved w)\<rparr>,
       Inr (gone now DS_stopped reason s, [(ds_id s, ds_generation s)]))"
    "control_ok (end_db actor action (gone now DS_stopped reason s) (w_saved w))" for actor action
    using end_binding_works [where w = ?w and s = s and now = now and st = DS_stopped and reason = reason and actor = actor
        and action = action] assms(1,3) row
    by (simp_all add: may_end_def)
  have fin: "run_request (commit_ended sv (stop_binding now s reason actor action)) w =
      (w\<lparr>w_db := end_db (Some a) action (gone now DS_stopped reason s) (w_saved w),
         w_saved := end_db (Some a) action (gone now DS_stopped reason s) (w_saved w),
         w_hub := dr_close_binding i (ds_generation s) 1008 (w_hub w)\<rparr>, Inr (gone now DS_stopped reason s))"
    if "a = (case actor of None \<Rightarrow> ds_user_id s | Some a \<Rightarrow> a)" for actor action a
    unfolding stop_binding_def that [symmetric]
    using commit_ended_works [where sv = sv and w = ?w and m = "end_binding now s DS_stopped reason (Some a) action", OF end1(1)]
      assms(5) row
    by (simp add: run_request_def)
  have q: "run_request (route_stop sv now user token i reason) w =
      (if tk_type token = ''device'' then run_request (commit_ended sv (stop_binding now s reason None ''device_session.stop'')) w
       else if u_role user = ''admin'' then run_request (commit_ended sv (stop_binding now s reason (Some (u_id user)) ''device_session.admin_stop'')) w
       else run_request (commit_ended sv (stop_binding now s reason None ''device_session.stop'')) w)"
    using assms(2,4) unfolding route_stop_def dv_stop_by_device_def dv_stop_by_admin_def dv_stop_by_user_def may_stop_def
    by (auto simp: run_request_def act_bind_assoc step_simps require_device_session_def require_session_def split: if_splits)
  note user = fin [where a = "ds_user_id s" and actor = None] and admin = fin [where a = "u_id user" and actor = "Some (u_id user)"]
  show ?thesis
  proof (cases "tk_type token = ''device'' \<or> u_role user \<noteq> ''admin''")
    case True
    then have "run_request (route_stop sv now user token i reason) w =
        run_request (commit_ended sv (stop_binding now s reason None ''device_session.stop'')) w" unfolding q by auto
    then show ?thesis using user end1(2) by auto
  next
    case False
    then have "run_request (route_stop sv now user token i reason) w =
        run_request (commit_ended sv (stop_binding now s reason (Some (u_id user)) ''device_session.admin_stop'')) w"
      unfolding q by auto
    then show ?thesis using admin end1(2) by auto
  qed
qed

lemma expire_due_works:
  assumes "control_ok (w_saved w)"
  shows "\<exists>d'. run_request (dv_expire_due sv now) w =
      (w\<lparr>w_db := d', w_saved := d', w_hub := if sv_hub sv then fold (\<lambda>r. dr_close_binding (fst r) (snd r) 1008)
        (map (\<lambda>s. (ds_id s, ds_generation s)) (list_due (w_saved w) now)) (w_hub w) else w_hub w\<rparr>, Inr (length (list_due (w_saved w) now))) \<and>
    ends_as now DS_expired ''session_expired'' (set (list_due (w_saved w) now)) (w_saved w) d'"
proof -
  let ?w = "w\<lparr>w_db := w_saved w\<rparr>" and ?due = "list_due (w_saved w) now"
  have "set ?due \<subseteq> set (c_device_sessions (w_db ?w))" "distinct (map ds_id ?due)"
    "\<And>s. s \<in> set ?due \<Longrightarrow> True \<Longrightarrow> \<not> dv_terminal s \<and> may_end now DS_expired s"
    using control_ok_keyed [OF assms] by (auto simp: list_due_rows may_end_def)
  from end_each_works [where w = ?w and P = "\<lambda>_. True" and reason = "''session_expired''" and actor = "\<lambda>b. Some (ds_user_id b)"
      and action = "''device_session.expire''", OF _ this] assms obtain d' where
    d': "end_each (\<lambda>b. expire_binding now b ''session_expired'') ?due ?w =
      (w\<lparr>w_db := d'\<rparr>, Inr (map (gone now DS_expired ''session_expired'') ?due, map (\<lambda>s. (ds_id s, ds_generation s)) ?due))"
    "ends_as now DS_expired ''session_expired'' (set ?due) (w_saved w) d'"
    unfolding end_loops by auto
  have none: "?due = [] \<Longrightarrow> end_each (\<lambda>b. expire_binding now b ''session_expired'') ?due ?w = (?w, Inr ([], []))"
    by (simp add: ret_def)
  show ?thesis
  proof (cases "?due = []")
    case True
    with none ends_as_none [OF assms] show ?thesis
      by (intro exI [of _ "w_saved w"]) (simp add: dv_expire_due_def run_request_def step_simps act_bind_def ret_def query_def)
  next
    case False
    with d' show ?thesis
      by (intro exI [of _ d']) (simp add: dv_expire_due_def run_request_def act_bind_def ret_def query_def commit_def close_relays_eq)
  qed
qed

lemma no_more_due:
  assumes "control_ok d" "ends_as now DS_expired reason (set (list_due d now)) d d'"
  shows "list_due d' now = []"
proof -
  have "set (list_due d' now) = {}"
    using assms(2) gone_terminal [of now DS_expired _ reason] unfolding list_due_rows ends_as_def may_end_def by auto
  then show ?thesis by simp
qed

section \<open>The device's requests\<close>

text \<open>The checks of every request of the device, up to the lease.\<close>

lemma require_device_works:
  "get_device_session (w_db w) i = Some s \<Longrightarrow> tk_type token = ''device'' \<Longrightarrow> tk_device_id token = Some (ds_device_id s) \<Longrightarrow>
   require_device_session token i w = (w, Inr s)"
  by (simp add: require_device_session_def require_session_def act_bind_def query_def check_def ret_def)

lemma not_expired_works: "now < ds_expires s \<Longrightarrow> \<not> dv_terminal s \<Longrightarrow> require_not_expired sv now s w = (w, Inr s)"
  by (auto simp: require_not_expired_def dv_expire_if_needed_def act_bind_def ret_def check_def dv_terminal_def terminal_device_statuses_def
      api_error_def throw_def)

definition leased :: "time \<Rightarrow> device_session \<Rightarrow> bool" where
  "leased now s \<longleftrightarrow> ds_status s = DS_active \<and> now < ds_expires s \<and> (\<exists>l. ds_lease s = Some l \<and> now < l)"

lemma active_works: "leased now s \<Longrightarrow> require_active_generation sv now s (ds_generation s) w = (w, Inr s)"
  by (auto simp: leased_def require_active_generation_def require_generation_def step_simps act_bind_Inr [OF not_expired_works]
      live_statuses ret_def)

lemma stale_device:
  "get_device_session (w_db w) i = Some s \<Longrightarrow> tk_type token = ''device'' \<Longrightarrow> tk_device_id token = Some (ds_device_id s) \<Longrightarrow>
   g \<noteq> ds_generation s \<Longrightarrow>
   act_bind (require_device_session token i) (\<lambda>s. act_bind (require_generation s g) (f s)) w =
     (w, Inl (ApiError ''DEVICE_CONTROL_GENERATION_MISMATCH'' 409))"
  by (simp add: act_bind_Inr [OF require_device_works] require_generation_def step_simps)

text \<open>Well-formed tables have one holder at most, so a lock is granted.\<close>

lemma no_holder:
  assumes "control_ok d" "s \<in> set (c_device_sessions d)" "\<not> dv_terminal s"
  shows "find_machine_lock d (ds_device_id s) (ds_id s) = None"
proof -
  have "x = s" if "x \<in> set (c_device_sessions d)" "ds_device_id x = ds_device_id s" "\<not> dv_terminal x" for x
    using assms that unique_indexD [of "\<lambda>s. \<not> dv_terminal s" ds_device_id "c_device_sessions d" ds_id x s]
    by (auto simp: control_ok_def tables_ok_def sessions_admissible_def)
  then show ?thesis by (auto simp: find_machine_lock_def find_None_iff dest: live_statuses)
qed

lemma lock_works:
  assumes "control_ok (w_saved w)" "get_device_session (w_saved w) i = Some s" "leased now s" "ds_lock s = None"
    "tk_type token = ''device''" "tk_device_id token = Some (ds_device_id s)"
  shows "\<exists>d'. run_request (dv_acquire_lock sv now token i (ds_generation s)) w =
      (w\<lparr>w_db := d', w_saved := d'\<rparr>, Inr (s\<lparr>ds_lock := Some now\<rparr>)) \<and>
    get_device_session d' i = Some (s\<lparr>ds_lock := Some now\<rparr>) \<and> c_tasks d' = c_tasks (w_saved w)"
proof -
  let ?w = "w\<lparr>w_db := w_saved w\<rparr>" and ?d = "w_saved w" and ?s = "s\<lparr>ds_lock := Some now\<rparr>"
  note row = find_session [OF assms(2)]
  have live: "\<not> dv_terminal s" using assms(3) by (auto simp: leased_def dest: live_statuses)
  have rows: "sessions_admissible (c_device_sessions ?d)" "\<forall>x \<in> set (c_device_sessions ?d). session_shape x" "session_admissible s"
    using assms(1) row by (auto simp: control_ok_def tables_ok_def sessions_admissible_def list_all_iff)
  have "sessions_admissible (put_row ds_id ?s (c_device_sessions ?d))"
    by (rule admissible_put [OF rows(1) _ rows(2)]) (use row rows(3) live in \<open>auto simp: session_admissible_def\<close>)
  then have save: "save_session ?s ?d = Inr (?d\<lparr>c_device_sessions := put_row ds_id ?s (c_device_sessions ?d)\<rparr>)"
    by (simp add: save_session_def store_sessions_def)
  have find: "get_device_session (?d\<lparr>c_device_sessions := put_row ds_id ?s (c_device_sessions ?d), c_audits := as\<rparr>) i = Some ?s" for as
    using assms(2) row by (simp add: get_device_session_def find_put_row)
  have start: "act_bind (require_device_session token i) f ?w = f s ?w" for f :: "_ \<Rightarrow> 'b dact"
    by (rule act_bind_Inr [OF require_device_works]) (use assms in auto)
  show ?thesis
    unfolding run_request_def dv_acquire_lock_def start act_bind_Inr [OF active_works [OF assms(3)]]
    by (rule exI [of _ "?d\<lparr>c_device_sessions := put_row ds_id ?s (c_device_sessions ?d), c_audits := c_audits ?d @
      [\<lparr>au_actor = Some (ds_user_id s), au_action = ''device_session.lock'', au_target = i\<rparr>]\<rparr>"])
      (use assms(4) no_holder [OF assms(1) _ live] row save find in
        \<open>simp add: Let_def step_simps act_bind_def [of "modify _"] modify_def act_bind_def [of "catch _ _ _"] catch_def commit_def ret_def\<close>)
qed

text \<open>
  The task of a renewal is named by the end of the lease. A lease that already reaches the end of the session
  cannot be renewed: the task exists, and the unique index refuses the second one.
\<close>

lemma renew_refused:
  assumes "control_ok (w_saved w)" "get_device_session (w_saved w) i = Some s" "leased now s" "ds_lease s = Some (ds_expires s)"
    "ds_expires s \<le> now + seconds (cs_lease sv)" "tk_type token = ''device''" "tk_device_id token = Some (ds_device_id s)"
  shows "run_request (dv_renew sv now token i (ds_generation s)) w = (w\<lparr>w_db := w_saved w\<rparr>, Inl integrity_error)"
proof -
  let ?w = "w\<lparr>w_db := w_saved w\<rparr>"
  note row = find_session [OF assms(2)]
  have "told s (c_tasks (w_saved w))" using assms(1) row by (auto simp: control_ok_def tables_ok_def)
  then have known: "Update_id i (ds_generation s) (lease_identity (ds_expires s)) \<in> nt_task_id ` set (c_tasks (w_saved w))"
    using assms(4) row by (auto simp: told_def)
  have lease: "lease_end sv now s = ds_expires s" using assms(5) by (simp add: lease_end_def)
  have start: "act_bind (require_device_session token i) f ?w = f s ?w" for f :: "_ \<Rightarrow> 'b dact"
    by (rule act_bind_Inr [OF require_device_works]) (use assms in auto)
  have refuse: "act_bind (save_with_task (s\<lparr>ds_lease := Some (ds_expires s)\<rparr>)
      (update_task (s\<lparr>ds_lease := Some (ds_expires s)\<rparr>) (ds_expires s) caps)) f ?w = (?w, Inl integrity_error)"
    for caps and f :: "_ \<Rightarrow> 'b dact"
    using known row
    by (auto simp: act_bind_def save_with_task_def modify_def save_session_def store_sessions_def insert_task_def update_task_def bind_res_def)
  show ?thesis
    unfolding run_request_def dv_renew_def start act_bind_Inr [OF active_works [OF assms(3)]] Let_def lease
    by (simp add: save_with_context_update_def step_simps refuse act_bind_assoc)
qed

lemma new_generation_works:
  assumes "increment_generation s False = Inr s1" "save_session s' (w_db w) = Inr d1"
    "get_tool_session d1 (ds_reference_id s') = Some tool" "insert_task (activation_task s' tool) d1 = Inr d2"
    "s' = s1\<lparr>ds_status := DS_pending_device, ds_lease := None\<rparr>"
  shows "\<exists>as. new_generation s action w = (w\<lparr>w_db := d2\<lparr>c_audits := as\<rparr>, w_saved := d2\<lparr>c_audits := as\<rparr>\<rparr>, Inr s')"
  unfolding new_generation_def assms(1) modify_step Let_def require_tool_session_def enqueue_activation_def act_bind_assoc
    assms(5) [symmetric]
  using assms(2-4) by (auto simp: step_simps modify_step ret_def)

lemma reconnect_works:
  assumes "control_ok (w_saved w)" "get_device_session (w_saved w) i = Some s" "relay_eligible s" "now < ds_expires s"
    "ds_generation s < max_active_generation" "get_tool_session (w_saved w) (ds_reference_id s) = Some tool"
    "tk_type token = ''device''" "tk_device_id token = Some (ds_device_id s)"
  shows "\<exists>d' s'. run_request (dv_reconnect sv now token i (ds_generation s)) w = (w\<lparr>w_db := d', w_saved := d'\<rparr>, Inr s') \<and>
    get_device_session d' i = Some s' \<and> \<not> dv_terminal s' \<and> ds_generation s' = ds_generation s + 1 \<and> ds_device_id s' = ds_device_id s \<and>
    ds_user_id s' = ds_user_id s"
proof -
  let ?w = "w\<lparr>w_db := w_saved w\<rparr>" and ?d = "w_saved w"
  let ?s = "s\<lparr>ds_generation := ds_generation s + 1, ds_status := DS_pending_device, ds_lease := None\<rparr>"
  let ?d1 = "?d\<lparr>c_device_sessions := put_row ds_id ?s (c_device_sessions ?d)\<rparr>"
  let ?d2 = "?d1\<lparr>c_tasks := c_tasks ?d @ [activation_task ?s tool]\<rparr>"
  note row = find_session [OF assms(2)]
  have live: "\<not> dv_terminal s" using assms(3) by (auto simp: relay_eligible_def dest: live_statuses)
  have rows: "sessions_admissible (c_device_sessions ?d)" "\<forall>x \<in> set (c_device_sessions ?d). session_shape x" "session_admissible s"
    "told s (c_tasks ?d)"
    using assms(1) row by (auto simp: control_ok_def tables_ok_def sessions_admissible_def list_all_iff)
  have "sessions_admissible (put_row ds_id ?s (c_device_sessions ?d))"
    by (rule admissible_put [OF rows(1) _ rows(2)])
      (use row rows(3) live assms(5) in \<open>auto simp: session_admissible_def dv_terminal_def terminal_device_statuses_def max_active_generation_def\<close>)
  then have save: "save_session ?s ?d = Inr ?d1" by (simp add: save_session_def store_sessions_def)
  have "Activate_id i (ds_generation s + 1) \<notin> nt_task_id ` set (c_tasks ?d)"
  proof
    assume "Activate_id i (ds_generation s + 1) \<in> nt_task_id ` set (c_tasks ?d)"
    then obtain t where "t \<in> set (c_tasks ?d)" "nt_task_id t = Activate_id i (ds_generation s + 1)" by (metis imageE)
    then show False using rows(4) row by (auto simp: told_def task_session_def task_generation_def)
  qed
  then have task: "insert_task (activation_task ?s tool) ?d1 = Inr ?d2" using row by (simp add: insert_task_def activation_task_def)
  have inc: "increment_generation s False = Inr (s\<lparr>ds_generation := ds_generation s + 1\<rparr>)"
    using assms(5) by (simp add: increment_generation_def)
  have start: "act_bind (require_device_session token i) f ?w = f s ?w" for f :: "_ \<Rightarrow> 'b dact"
    by (rule act_bind_Inr [OF require_device_works]) (use assms in auto)
  have tool: "get_tool_session ?d1 (ds_reference_id s) = Some tool" using assms(6) by (simp add: get_tool_session_def)
  obtain as where "new_generation s ''device_session.reconnect'' ?w =
      (?w\<lparr>w_db := ?d2\<lparr>c_audits := as\<rparr>, w_saved := ?d2\<lparr>c_audits := as\<rparr>\<rparr>, Inr ?s)"
    using new_generation_works [where w = ?w and s' = ?s and ?d1.0 = ?d1 and ?d2.0 = ?d2 and action = "''device_session.reconnect''", OF inc]
      save tool task by auto
  then have run: "run_request (dv_reconnect sv now token i (ds_generation s)) w =
      (w\<lparr>w_db := ?d2\<lparr>c_audits := as\<rparr>, w_saved := ?d2\<lparr>c_audits := as\<rparr>\<rparr>, Inr ?s)"
    unfolding run_request_def dv_reconnect_def start require_generation_def
    using assms(3) by (auto simp: step_simps act_bind_Inr [OF not_expired_works [OF assms(4) live]] relay_eligible_def)
  have "get_device_session (?d2\<lparr>c_audits := as\<rparr>) i = Some ?s" using assms(2) row by (simp add: get_device_session_def find_put_row)
  with run show ?thesis
    by (intro exI [of _ "?d2\<lparr>c_audits := as\<rparr>"] exI [of _ ?s]) (simp add: dv_terminal_def terminal_device_statuses_def)
qed

end
