(* ===== verification/Device_Bindings.thy ===== *)
theory Device_Bindings
  imports Device_Results
begin

text \<open>
  The claim of a remote session by a device, from its guards to the new binding, and the way from a binding
  to the relay: who gets onto the hub and who no longer does.
\<close>

section \<open>The guards of a claim\<close>

definition claimable :: "service \<Rightarrow> control_db \<Rightarrow> token_row \<Rightarrow> uuid \<Rightarrow> pystr list \<Rightarrow> session_row \<Rightarrow> device_row \<Rightarrow> bool" where
  "claimable sv d token tool_id capabilities t x \<longleftrightarrow>
     cs_enabled sv \<and> (cs_mode sv = full_trust \<longrightarrow> capabilities = full_trust_device_capabilities) \<and>
     tk_type token = ''device'' \<and> tk_device_id token = Some (ud_id x) \<and>
     get_tool_session d tool_id = Some t \<and> s_user_id t = tk_user_id token \<and>
     get_device d (ud_id x) = Some x \<and> ud_user_id x = tk_user_id token \<and> ud_status x = ''active'' \<and> ud_platform x = ''macos'' \<and>
     s_tool_type t = ''claude'' \<and> s_status t \<in> set active_tool_statuses \<and> s_device_protocol t = Some 1 \<and>
     (\<exists>n. get_device_node d (s_node_id t) = Some n \<and> n_status n \<in> set available_node_statuses \<and>
       supports_device_control sv (n_capabilities n) (s_backend t) None)"

lemma decides_token: "decides w (require_control_token token) (\<lambda>i. tk_type token = ''device'' \<and> tk_device_id token = Some i)"
  by (auto simp: decides_def require_control_token_def ret_def api_error_def throw_def split: option.splits)

lemma decides_device:
  "decides w (require_owned_device u i) (\<lambda>x. get_device (w_db w) i = Some x \<and> ud_user_id x = u \<and> ud_status x = ''active'')"
  by (auto simp: decides_def require_owned_device_def act_bind_def query_def not_found_def ret_def api_error_def throw_def split: option.splits)

lemma decides_tool: "decides w (require_owned_tool_session u i) (\<lambda>t. get_tool_session (w_db w) i = Some t \<and> s_user_id t = u)"
  by (auto simp: decides_def require_owned_tool_session_def act_bind_def query_def not_found_def ret_def api_error_def throw_def
      split: option.splits)

lemma decides_claimable: "decides w (validate_claimable t)
    (\<lambda>_. s_tool_type t = ''claude'' \<and> s_status t \<in> set active_tool_statuses \<and> s_device_protocol t = Some 1)"
  by (auto simp: decides_def validate_claimable_def act_bind_def check_def ret_def api_error_def throw_def)

lemma decides_node: "decides w (require_claim_node sv t) (\<lambda>_. \<exists>n. get_device_node (w_db w) (s_node_id t) = Some n \<and>
    n_status n \<in> set available_node_statuses \<and> supports_device_control sv (n_capabilities n) (s_backend t) None)"
  by (auto simp: decides_def require_claim_node_def act_bind_def query_def check_def ret_def api_error_def throw_def split: option.splits)

lemma get_device_id: "get_device d i = Some x \<Longrightarrow> ud_id x = i \<and> get_device d (ud_id x) = Some x"
  by (auto simp: get_device_def dest: find_row_Some)

lemma claim_guards:
  "(\<exists>t x. claimable sv (w_db w) token tool_id caps t x \<and> dv_claim sv now i token tool_id caps w = claim_bind sv now i token t x w) \<or>
   (\<nexists>t x. claimable sv (w_db w) token tool_id caps t x) \<and> (\<exists>c n. dv_claim sv now i token tool_id caps w = (w, Inl (ApiError c n)))"
proof -
  let ?d = "w_db w"
  let ?ask = "act_bind (check (cs_enabled sv) ''DEVICE_CONTROL_DISABLED'' 503) (\<lambda>_.
     act_bind (check (cs_mode sv = full_trust \<longrightarrow> caps = full_trust_device_capabilities) ''DEVICE_CONTROL_DEVICE_UPGRADE_REQUIRED'' 409) (\<lambda>_.
     act_bind (require_control_token token) (\<lambda>device_id.
     act_bind (claim_device token device_id tool_id) (\<lambda>p.
     act_bind (require_claim_node sv (fst p)) (\<lambda>_. ret p)))))"
  have run: "dv_claim sv now i token tool_id caps = act_bind ?ask (\<lambda>p. claim_bind sv now i token (fst p) (snd p))"
    by (simp add: dv_claim_def act_bind_assoc ret_bind case_prod_unfold)
  have "decides w ?ask (\<lambda>p. claimable sv ?d token tool_id caps (fst p) (snd p))"
    unfolding claim_device_def
    by (rule decides_cong [OF decides_bind [OF decides_check decides_bind [OF decides_check decides_bind [OF decides_token
      decides_bind [OF decides_bind [OF decides_tool decides_bind [OF decides_device decides_bind [OF decides_check
      decides_bind [OF decides_claimable decides_ret]]]] decides_bind [OF decides_node decides_ret]]]]]])
     (auto simp: claimable_def dest: get_device_id)
  then show ?thesis unfolding run decides_def act_bind_def by fastforce
qed

section \<open>The binding of a claim\<close>

definition competes :: "session_row \<Rightarrow> device_row \<Rightarrow> device_session \<Rightarrow> bool" where
  "competes t x s \<longleftrightarrow> \<not> dv_terminal s \<and> (ds_tool_session_id s = Some (s_id t) \<or> ds_device_id s = ud_id x)"

definition binds :: "session_row \<Rightarrow> device_row \<Rightarrow> device_session \<Rightarrow> bool" where
  "binds t x s \<longleftrightarrow> \<not> dv_terminal s \<and> ds_tool_session_id s = Some (s_id t) \<and> ds_device_id s = ud_id x"

lemma competitors: "set (list_live_for_binding d (s_id t) (ud_id x)) = {s \<in> set (c_device_sessions d). competes t x s}"
  by (auto simp: list_live_for_binding_def list_live_rows competes_def)

lemma live_unique:
  assumes "control_ok d" "a \<in> set (c_device_sessions d)" "b \<in> set (c_device_sessions d)" "\<not> dv_terminal a" "\<not> dv_terminal b"
  shows "ds_device_id a = ds_device_id b \<Longrightarrow> a = b"
    and "ds_tool_session_id a = ds_tool_session_id b \<Longrightarrow> ds_tool_session_id a \<noteq> None \<Longrightarrow> a = b"
proof -
  have s: "unique_index (\<lambda>s. \<not> dv_terminal s) ds_device_id (c_device_sessions d)" "distinct (map ds_id (c_device_sessions d))"
    "unique_index (\<lambda>s. ds_tool_session_id s \<noteq> None \<and> \<not> dv_terminal s) ds_tool_session_id (c_device_sessions d)"
    using assms(1) by (auto simp: control_ok_def tables_ok_def sessions_admissible_def)
  show "ds_device_id a = ds_device_id b \<Longrightarrow> a = b" using unique_indexD [OF s(1,2) assms(2,3)] assms(4,5) by blast
  show "ds_tool_session_id a = ds_tool_session_id b \<Longrightarrow> ds_tool_session_id a \<noteq> None \<Longrightarrow> a = b"
    using unique_indexD [OF s(3,2) assms(2,3)] assms(4,5) by metis
qed

lemma find_SomeD: "List.find Q xs = Some a \<Longrightarrow> a \<in> set xs \<and> Q a"
  by (auto simp: find_Some_iff)

lemma find_only: "y \<in> set xs \<Longrightarrow> Q y \<Longrightarrow> (\<And>z. z \<in> set xs \<Longrightarrow> Q z \<Longrightarrow> z = y) \<Longrightarrow> List.find Q xs = Some y"
  by (cases "List.find Q xs") (metis find_None_iff, metis find_SomeD)

lemma filter_map_sieve:
  "(\<And>x. x \<in> set xs \<Longrightarrow> P x \<Longrightarrow> \<not> Q (f x)) \<Longrightarrow> (\<And>x. x \<in> set xs \<Longrightarrow> \<not> P x \<Longrightarrow> Q x) \<Longrightarrow>
   filter Q (map (\<lambda>x. if P x then f x else x) xs) = filter (\<lambda>x. \<not> P x) xs"
  by (induction xs) auto

lemma claim_bindings_works:
  fixes t :: session_row and x :: device_row and now d defines "ss \<equiv> list_live_for_binding d (s_id t) (ud_id x)"
  assumes "control_ok d" "w_db w = d"
  shows "\<exists>d1. claim_bindings now (s_id t) (ud_id x) w =
      (w\<lparr>w_db := d1\<rparr>, Inr (filter (\<lambda>b. \<not> ds_expires b \<le> now) ss, map (\<lambda>s. (ds_id s, ds_generation s)) (filter (\<lambda>b. ds_expires b \<le> now) ss))) \<and>
    ends_as now DS_expired ''session_expired'' {s \<in> set ss. ds_expires s \<le> now} d d1 \<and>
    ((\<forall>s \<in> set ss. \<not> ds_expires s \<le> now) \<longrightarrow> d1 = d)"
proof -
  let ?P = "\<lambda>b. ds_expires b \<le> now"
  let ?f = "end_if ?P now DS_expired ''session_expired'' (\<lambda>b. Some (ds_user_id b)) ''device_session.expire''"
  have sub: "set ss \<subseteq> set (c_device_sessions (w_db w))" "distinct (map ds_id ss)"
    and end1: "\<And>s. s \<in> set ss \<Longrightarrow> ?P s \<Longrightarrow> \<not> dv_terminal s \<and> may_end now DS_expired s"
    using control_ok_keyed [OF assms(2)] assms(3)
    by (auto simp: ss_def competitors competes_def may_end_def list_live_for_binding_def list_live_rows)
  have live: "\<not> dv_terminal s" if "s \<in> set ss" for s using that unfolding ss_def competitors by (simp add: competes_def)
  have sieve: "filter (\<lambda>b. \<not> dv_terminal b) (map (\<lambda>s. if ?P s then gone now DS_expired ''session_expired'' s else s) ss) =
      filter (\<lambda>b. \<not> ?P b) ss"
    by (rule filter_map_sieve) (use live in \<open>auto simp: may_end_def intro!: gone_terminal\<close>)
  have run: "claim_bindings now (s_id t) (ud_id x) w =
      act_bind (end_each ?f ss) (\<lambda>(rows, revoked). ret (filter (\<lambda>b. \<not> dv_terminal b) rows, revoked)) w"
    using assms(3) by (simp add: claim_bindings_def step_simps end_loops ss_def)
  show ?thesis
  proof (cases "\<forall>s \<in> set ss. \<not> ?P s")
    case True
    then have e: "{s \<in> set ss. ?P s} = {}" "filter ?P ss = []" by auto
    have f: "filter (\<lambda>b. \<not> ?P b) ss = ss" "filter (\<lambda>b. \<not> dv_terminal b) ss = ss"
      using True live by (simp_all add: filter_True)
    show ?thesis unfolding run e f using end_each_none [of ss ?P now DS_expired] True assms(2,3)
      by (intro exI [of _ d]) (simp add: act_bind_def ret_def ends_as_none f)
  next
    case False
    obtain d1 where d1: "end_each ?f ss w = (w\<lparr>w_db := d1\<rparr>, Inr (map (\<lambda>s. if ?P s then gone now DS_expired ''session_expired'' s else s) ss,
        map (\<lambda>s. (ds_id s, ds_generation s)) (filter ?P ss)))"
      "ends_as now DS_expired ''session_expired'' {s \<in> set ss. ?P s} (w_db w) d1"
      using end_each_works [of w ss ?P now DS_expired "''session_expired''" "\<lambda>b. Some (ds_user_id b)" "''device_session.expire''", OF _ sub end1]
        assms(2,3) by blast
    with False show ?thesis unfolding run using sieve assms(3)
      by (intro exI [of _ d1]) (auto simp: act_bind_def ret_def)
  qed
qed

lemma claim_new_works:
  fixes sv now i token t x defines "s \<equiv> new_device_session sv now i (tk_user_id token) x t (cs_mode sv)"
  assumes "control_ok (w_db w)" "unused i (w_db w)" "cs_mode sv = per_application \<or> cs_mode sv = full_trust"
    "\<And>b. b \<in> set (c_device_sessions (w_db w)) \<Longrightarrow> \<not> competes t x b"
  shows "\<exists>d'. claim_new sv now i token t x revoked w =
      (w\<lparr>w_db := d', w_saved := d', w_hub := if sv_hub sv then fold (\<lambda>r. dr_close_binding (fst r) (snd r) 1008) revoked (w_hub w) else w_hub w\<rparr>,
       Inr (s, revoked)) \<and>
    c_device_sessions d' = c_device_sessions (w_db w) @ [s] \<and> c_tasks d' = c_tasks (w_db w) @ [activation_task s t]"
proof -
  let ?d = "w_db w"
  let ?d1 = "?d\<lparr>c_device_sessions := c_device_sessions ?d @ [s]\<rparr>"
  let ?d2 = "?d1\<lparr>c_tasks := c_tasks ?d @ [activation_task s t]\<rparr>"
  have other: False if "b \<in> set (c_device_sessions ?d)" "\<not> dv_terminal b" "ds_tool_session_id b = Some (s_id t) \<or> ds_device_id b = ud_id x" for b
    using assms(5) [OF that(1)] that(2,3) by (simp add: competes_def)
  have new: "session_admissible s" "ds_lock s = None" "ds_id s = i" "ds_device_id s = ud_id x" "ds_tool_session_id s = Some (s_id t)"
    "ds_generation s = 1"
    using assms(4) by (auto simp: s_def new_device_session_def session_admissible_def max_active_generation_def max_generation_def)
  have "sessions_admissible (c_device_sessions ?d @ [s])"
    using assms(2,3) new
    by (auto simp: control_ok_def tables_ok_def sessions_admissible_def unique_index_append unused_def dest: other)
  then have ins: "insert_session s ?d = Inr ?d1" by (simp add: insert_session_def store_sessions_def)
  have "Activate_id i 1 \<notin> nt_task_id ` set (c_tasks ?d)"
  proof
    assume "Activate_id i 1 \<in> nt_task_id ` set (c_tasks ?d)"
    then obtain u where "u \<in> set (c_tasks ?d)" "nt_task_id u = Activate_id i 1" by (metis imageE)
    then show False using assms(3) by (auto simp: unused_def task_session_def image_iff split: task_id.splits)
  qed
  then have task: "insert_task (activation_task s t) ?d1 = Inr ?d2" using new by (simp add: insert_task_def activation_task_def)
  obtain as where as: "catch
      (act_bind (modify (insert_session s)) (\<lambda>_. act_bind (enqueue_activation s t) (\<lambda>_.
       act_bind (add_audit (Some (tk_user_id token)) ''device_session.claim'' s) (\<lambda>_.
       act_bind (if cs_mode sv = full_trust then add_audit (Some (ds_user_id s)) ''device_session.full_trust_authorized'' s else ret ()) (\<lambda>_. commit)))))
      integrity_error h w = (w\<lparr>w_db := ?d2\<lparr>c_audits := as\<rparr>, w_saved := ?d2\<lparr>c_audits := as\<rparr>\<rparr>, Inr ())" for h
    using ins task
    by (cases "cs_mode sv = full_trust")
      (simp_all add: catch_def modify_step enqueue_activation_def step_simps commit_def)
  show ?thesis unfolding claim_new_def s_def [symmetric] Let_def
    by (rule exI [of _ "?d2\<lparr>c_audits := as\<rparr>"])
      (simp add: act_bind_def [of "catch _ _ _"] as act_bind_def [of "close_relays _ _"] close_relays_eq ret_def)
qed

lemma new_binds: "binds t x (new_device_session sv now i u x t mode)"
  by (simp add: binds_def new_device_session_def dv_terminal_def terminal_device_statuses_def)

lemma ends_as_live:
  assumes "ends_as now st reason X d d'" "\<And>s. s \<in> X \<Longrightarrow> may_end now st s" "\<not> dv_terminal b"
  shows "b \<in> set (c_device_sessions d') \<longleftrightarrow> b \<in> set (c_device_sessions d) \<and> b \<notin> X"
  using assms gone_terminal unfolding ends_as_def by fastforce

lemma ends_as_unused:
  assumes "ends_as now st reason X d d'" "X \<subseteq> set (c_device_sessions d)" "unused i d"
  shows "unused i d'"
proof -
  have "ds_id ` set (c_device_sessions d') \<subseteq> ds_id ` set (c_device_sessions d)"
    using assms(1,2) unfolding ends_as_def by auto
  moreover have "task_session u \<in> ds_id ` X" if "u \<in> deactivation_task ` gone now st reason ` X" for u
    using that by (auto simp: task_session_def deactivation_task_def)
  ultimately show ?thesis using assms unfolding ends_as_def unused_def by fastforce
qed

text \<open>What a claim did: it found its binding, or made it and ended every other one of the session and the device.\<close>

definition claimed :: "service \<Rightarrow> time \<Rightarrow> uuid \<Rightarrow> token_row \<Rightarrow> session_row \<Rightarrow> device_row \<Rightarrow> control_world \<Rightarrow>
    device_session \<Rightarrow> revoked list \<Rightarrow> control_world \<Rightarrow> bool" where
  "claimed sv now i token t x w s revoked w' \<longleftrightarrow>
     s \<in> set (c_device_sessions (w_saved w')) \<and> binds t x s \<and>
     (if s \<in> set (c_device_sessions (w_saved w)) then now < ds_expires s \<and> revoked = [] \<and> w_saved w' = w_saved w \<and> w_hub w' = w_hub w
      else s = new_device_session sv now i (tk_user_id token) x t (cs_mode sv) \<and>
        set revoked = (\<lambda>b. (ds_id b, ds_generation b)) ` {b \<in> set (c_device_sessions (w_saved w)). competes t x b} \<and>
        w_hub w' = (if sv_hub sv then fold (\<lambda>r. dr_close_binding (fst r) (snd r) 1008) revoked (w_hub w) else w_hub w))"

lemma rebind_works:
  assumes "control_ok (w_db w)" "set ss \<subseteq> {s \<in> set (c_device_sessions (w_db w)). \<not> dv_terminal s}" "distinct (map ds_id ss)"
    "\<And>s. s \<in> set ss \<Longrightarrow> ds_id s \<in> set ids"
  shows "\<exists>d' rows. rebind now token ids ss w = (w\<lparr>w_db := d'\<rparr>, Inr (rows, map (\<lambda>s. (ds_id s, ds_generation s)) ss)) \<and>
    ends_as now DS_stopped ''rebound'' (set ss) (w_db w) d'"
proof -
  let ?P = "\<lambda>b. ds_id b \<in> set ids"
  have p: "filter ?P ss = ss" "{s \<in> set ss. ?P s} = set ss" using assms(4) by (auto simp: filter_True)
  have may: "\<And>s. s \<in> set ss \<Longrightarrow> ?P s \<Longrightarrow> \<not> dv_terminal s \<and> may_end now DS_stopped s" and sub: "set ss \<subseteq> set (c_device_sessions (w_db w))"
    using assms(2) by (auto simp: may_end_def)
  have "\<exists>d'. end_each (end_if ?P now DS_stopped ''rebound'' (\<lambda>b. Some (tk_user_id token)) ''device_session.rebound'') ss w =
      (w\<lparr>w_db := d'\<rparr>, Inr (map (\<lambda>s. if ?P s then gone now DS_stopped ''rebound'' s else s) ss,
        map (\<lambda>s. (ds_id s, ds_generation s)) (filter ?P ss))) \<and>
      ends_as now DS_stopped ''rebound'' {s \<in> set ss. ?P s} (w_db w) d'"
    by (rule end_each_works [OF assms(1) sub assms(3)], rule may)
  then show ?thesis unfolding end_loops p by metis
qed

lemma claim_bind_works:
  assumes "control_ok (w_saved w)" "unused i (w_saved w)" "cs_mode sv = per_application \<or> cs_mode sv = full_trust" "w_db w = w_saved w"
  shows "\<exists>w' s revoked. claim_bind sv now i token t x w = (w', Inr (s, revoked)) \<and> w_db w' = w_saved w' \<and> claimed sv now i token t x w s revoked w'"
proof -
  let ?d = "w_saved w" and ?ss = "list_live_for_binding (w_saved w) (s_id t) (ud_id x)"
  let ?L = "filter (\<lambda>b. \<not> ds_expires b \<le> now) ?ss" and ?E = "filter (\<lambda>b. ds_expires b \<le> now) ?ss"
  let ?rv = "map (\<lambda>s. (ds_id s, ds_generation s))"
  let ?T = "List.find (\<lambda>b. ds_tool_session_id b = Some (s_id t)) ?L" and ?C = "List.find (\<lambda>b. ds_device_id b = ud_id x) ?L"
  obtain d1 where d1: "claim_bindings now (s_id t) (ud_id x) w = (w\<lparr>w_db := d1\<rparr>, Inr (?L, ?rv ?E))"
    "ends_as now DS_expired ''session_expired'' {s \<in> set ?ss. ds_expires s \<le> now} ?d d1"
    "(\<forall>s \<in> set ?ss. \<not> ds_expires s \<le> now) \<longrightarrow> d1 = ?d"
    using claim_bindings_works [OF assms(1,4)] by blast
  have ss: "s \<in> set ?ss \<longleftrightarrow> s \<in> set (c_device_sessions ?d) \<and> competes t x s" for s using competitors [of ?d t x] by auto
  have uniq: "a = b" if "a \<in> set ?ss" "b \<in> set ?ss" "ds_device_id a = ds_device_id b \<or> ds_tool_session_id a = Some k \<and> ds_tool_session_id b = Some k" for a b k
  proof -
    have r: "a \<in> set (c_device_sessions ?d)" "b \<in> set (c_device_sessions ?d)" "\<not> dv_terminal a" "\<not> dv_terminal b"
      using that(1,2) unfolding ss competes_def by blast+
    show ?thesis using that(3) live_unique [OF assms(1) r] by (elim disjE) simp_all
  qed
  show ?thesis
  proof (cases "\<exists>s. s \<in> set ?L \<and> binds t x s")
    case True
    then obtain s where s: "s \<in> set ?L" "binds t x s" by blast
    have all: "b = s" if "b \<in> set ?ss" for b
      using uniq [of b s "s_id t"] that s by (auto simp: ss competes_def binds_def)
    have T: "?T = Some s" "?C = Some s" by (rule find_only; use s all in \<open>auto simp: binds_def\<close>)+
    have e: "\<forall>s \<in> set ?ss. \<not> ds_expires s \<le> now" using all s(1) by auto
    then have "?E = []" "d1 = ?d" using d1(3) by (auto simp: filter_empty_conv)
    then have "claim_bind sv now i token t x w = (w, Inr (s, []))"
      using d1(1) assms(4) unfolding claim_bind_def by (simp add: act_bind_def Let_def T commit_def ret_def)
    moreover have "claimed sv now i token t x w s [] w" using s ss by (auto simp: claimed_def)
    ultimately show ?thesis using assms(4) by blast
  next
    case False
    let ?ids = "map ds_id (case_option [] (\<lambda>t. [t]) ?T @ case_option [] (\<lambda>c. [c]) ?C)"
    have split: "claim_bind sv now i token t x w =
        act_bind (rebind now token ?ids ?L) (\<lambda>(_, more). claim_new sv now i token t x (?rv ?E @ more)) (w\<lparr>w_db := d1\<rparr>)"
    proof -
      have "ds_id a \<noteq> ds_id b" if "?T = Some a" "?C = Some b" for a b
      proof
        assume id: "ds_id a = ds_id b"
        have m: "a \<in> set ?L" "ds_tool_session_id a = Some (s_id t)" "b \<in> set ?L" "ds_device_id b = ud_id x"
          using that by (auto dest!: find_SomeD)
        then have "a = b" using keyedD [OF control_ok_keyed [OF assms(1)] _ _ id] ss by auto
        then show False using m False ss by (auto simp: binds_def competes_def)
      qed
      then show ?thesis using d1(1) unfolding claim_bind_def
        by (auto simp: act_bind_def [of "claim_bindings _ _ _"] Let_def split: option.splits)
    qed
    have ids: "ds_id b \<in> set ?ids" if "b \<in> set ?L" for b
    proof -
      have "competes t x b" using that ss by auto
      then consider "ds_tool_session_id b = Some (s_id t)" | "ds_device_id b = ud_id x" by (auto simp: competes_def)
      then show ?thesis
      proof cases
        case 1
        then have "?T = Some b" using that uniq by (intro find_only) auto
        then show ?thesis by simp
      next
        case 2
        then have "?C = Some b" using that uniq by (intro find_only) auto
        then show ?thesis by simp
      qed
    qed
    have E: "{s \<in> set ?ss. ds_expires s \<le> now} \<subseteq> set (c_device_sessions ?d)" using ss by auto
    have exp: "may_end now DS_expired s" if "s \<in> {s \<in> set ?ss. ds_expires s \<le> now}" for s using that by (auto simp: may_end_def)
    have L1: "set ?L \<subseteq> {s \<in> set (c_device_sessions d1). \<not> dv_terminal s}"
      using ends_as_live [OF d1(2) exp] ss by (auto simp: competes_def)
    have ok1: "control_ok d1" using d1(2) by (simp add: ends_as_def)
    have dis: "distinct (map ds_id ?L)"
      using control_ok_keyed [OF assms(1)] by (auto simp: list_live_for_binding_def list_live_rows distinct_map_filter)
    obtain d2 rows where d2: "rebind now token ?ids ?L (w\<lparr>w_db := d1\<rparr>) = (w\<lparr>w_db := d1\<rparr>\<lparr>w_db := d2\<rparr>, Inr (rows, ?rv ?L))"
      "ends_as now DS_stopped ''rebound'' (set ?L) d1 d2"
      using rebind_works [where w = "w\<lparr>w_db := d1\<rparr>" and ss = ?L and ids = ?ids and now = now and token = token] ok1 L1 dis ids by auto
    let ?w2 = "w\<lparr>w_db := d2\<rparr>" and ?new = "new_device_session sv now i (tk_user_id token) x t (cs_mode sv)"
    have fresh: "unused i (w_db ?w2)"
      using ends_as_unused [OF d2(2) _ ends_as_unused [OF d1(2) E assms(2)]] L1 by auto
    have none: "\<not> competes t x b" if "b \<in> set (c_device_sessions (w_db ?w2))" for b
    proof
      assume c: "competes t x b"
      then have live: "\<not> dv_terminal b" by (simp add: competes_def)
      have "b \<in> set (c_device_sessions ?d)" "b \<notin> set ?L" "\<not> (b \<in> set ?ss \<and> ds_expires b \<le> now)"
        using that ends_as_live [OF d2(2) _ live] ends_as_live [OF d1(2) exp live] by (auto simp: may_end_def)
      then show False using c ss by auto
    qed
    have ok2: "control_ok (w_db ?w2)" using d2(2) by (simp add: ends_as_def)
    obtain d' where d': "claim_new sv now i token t x (?rv ?E @ ?rv ?L) ?w2 =
        (?w2\<lparr>w_db := d', w_saved := d', w_hub := if sv_hub sv then fold (\<lambda>r. dr_close_binding (fst r) (snd r) 1008) (?rv ?E @ ?rv ?L) (w_hub ?w2) else w_hub ?w2\<rparr>,
         Inr (?new, ?rv ?E @ ?rv ?L))" "c_device_sessions d' = c_device_sessions d2 @ [?new]"
      using claim_new_works [OF ok2 fresh assms(3) none, where token = token and revoked = "?rv ?E @ ?rv ?L" and now = now] by auto
    have "set (?rv ?E @ ?rv ?L) = (\<lambda>b. (ds_id b, ds_generation b)) ` {b \<in> set (c_device_sessions ?d). competes t x b}"
      using ss by (auto simp: image_iff)
    moreover have "?new \<notin> set (c_device_sessions ?d)" using assms(2) by (force simp: unused_def)
    ultimately show ?thesis using d' d2(1) by (auto simp: split act_bind_def claimed_def new_binds)
  qed
qed

section \<open>Onto the relay\<close>

lemma socket_cases:
  "run_request (dv_relay_socket sv now released i ticket ws) w =
     (case (released, ticket) of
        (True, Some raw) \<Rightarrow>
          (case dr_consume_ticket now (w_store w) (cs_hash sv raw) of (store, claims) \<Rightarrow>
             (case claims of
                Some c \<Rightarrow>
                  if db_device_session_id (dc_binding c) = i \<and> relay_claims_current (w_saved w) now c
                  then (w\<lparr>w_db := w_saved w, w_store := store, w_hub := fst (dr_connect (w_hub w) c ws)\<rparr>, Inr (snd (dr_connect (w_hub w) c ws)))
                  else (w\<lparr>w_db := w_saved w, w_store := store, w_hub := close_socket ws 1008 (w_hub w)\<rparr>, Inr Rejected)
              | None \<Rightarrow> (w\<lparr>w_db := w_saved w, w_store := store, w_hub := close_socket ws 1008 (w_hub w)\<rparr>, Inr Rejected)))
      | _ \<Rightarrow> (w\<lparr>w_db := w_saved w, w_hub := close_socket ws 1008 (w_hub w)\<rparr>, Inr Rejected))"
  by (auto simp: dv_relay_socket_def run_request_def refuse_socket_def take_ticket_def join_hub_def act_bind_def query_def
      split: option.splits prod.splits)

lemma consumed_ticket:
  "dr_consume_ticket now st h = (st', Some c) \<longleftrightarrow>
     (\<exists>t. map_of (dr_tickets st) h = Some (c, t) \<and> now < t) \<and> st' = st\<lparr>dr_tickets := AList.delete h (dr_tickets st)\<rparr>"
  by (auto simp: dr_consume_ticket_def dict_pop_def not_le split: prod.splits option.splits if_splits)

lemma socket_admitted:
  assumes "run_request (dv_relay_socket sv now released i ticket ws) w = (w', Inr (Registered k))"
  shows "\<exists>raw c t. ticket = Some raw \<and> map_of (dr_tickets (w_store w)) (cs_hash sv raw) = Some (c, t) \<and> now < t \<and>
    db_device_session_id (dc_binding c) = i \<and> relay_claims_current (w_saved w) now c \<and>
    map_of (dr_tickets (w_store w')) (cs_hash sv raw) = None"
  using assms unfolding socket_cases
  by (auto simp: consumed_ticket delete_conv split: bool.splits option.splits prod.splits if_splits)

lemma socket_refused:
  assumes "\<And>raw c t. ticket = Some raw \<Longrightarrow> map_of (dr_tickets (w_store w)) (cs_hash sv raw) = Some (c, t) \<Longrightarrow>
      \<not> relay_claims_current (w_saved w) now c"
  shows "\<exists>w'. run_request (dv_relay_socket sv now released i ticket ws) w = (w', Inr Rejected) \<and>
    hub_pairs (w_hub w') = hub_pairs (w_hub w) \<and> hub_endpoints (w_hub w') = hub_endpoints (w_hub w)"
  using assms unfolding socket_cases
  by (auto simp: consumed_ticket close_socket_def split: bool.splits option.splits prod.splits)

end
