(* ===== verification/Device_Samples.thy ===== *)
theory Device_Samples
  imports Device_Bindings
begin

text \<open>A small installation of device control and runs of it: a claim, a connection, both ends on the relay.\<close>

section \<open>A small installation\<close>

definition dx_settings :: control_settings where
  "dx_settings = \<lparr>cs_enabled = True, cs_mode = full_trust, cs_max_ttl = 60, cs_lease = 60, cs_v2 = True, cs_material_ttl = 30,
     cs_ticket_ttl = 30, cs_hash = (\<lambda>x. x)\<rparr>"

definition dx_token :: token_row where
  "dx_token = \<lparr>tk_id = 9, tk_user_id = 1, tk_type = ''device'', tk_device_id = Some 2, tk_status = ''active'', tk_expires = 10 ^ 12\<rparr>"

definition dx_user :: user_row where "dx_user = \<lparr>u_id = 1, u_role = ''user'', u_status = ''active''\<rparr>"

definition dx_device :: device_row where
  "dx_device = \<lparr>ud_id = 2, ud_user_id = 1, ud_name = [109], ud_platform = ''macos'', ud_status = ''active''\<rparr>"

definition dx_session :: "uuid \<Rightarrow> session_row" where
  "dx_session i = \<lparr>s_id = i, s_user_id = 1, s_node_id = 6, s_status = ''running'', s_tool_type = ''claude'',
     s_runtime_resource = Some [114], s_tmux = None, s_device_protocol = Some 1, s_tool_account_id = 5, s_backend = [98],
     s_workspace_id = 8, s_updated = 0\<rparr>"

definition dx_node :: node_row where
  "dx_node = \<lparr>n_id = 6, n_status = ''healthy'', n_policy = [],
     n_capabilities = [(lit ''device_control'', JObject [(lit ''supported'', JBool True), (lit ''protocol_versions'', JArray [JInt 1]),
       (lit ''platforms'', JArray [JString (lit ''macos'')]), (lit ''backends'', JArray [JString [98]]),
       (lit ''capabilities'', JArray (map JString device_v2_capabilities))])],
     n_wireguard_ip = None, n_ssh_user = None, n_ssh_port = None\<rparr>"

definition dx_db :: control_db where
  "dx_db = \<lparr>c_devices = [dx_device], c_sessions = [dx_session 4, dx_session 5], c_nodes = [dx_node],
     c_workspaces = [\<lparr>ws_id = 8, ws_display_name = [112]\<rparr>], c_tokens = [dx_token], c_device_sessions = [], c_approvals = [],
     c_tasks = [], c_audits = []\<rparr>"

definition dx_world :: control_world where
  "dx_world = \<lparr>w_db = dx_db, w_saved = dx_db, w_store = dr_new_store, w_hub = dr_new_hub\<rparr>"

definition dx_claim :: "uuid \<Rightarrow> uuid \<Rightarrow> control_request" where
  "dx_claim i tool = Claim_session i dx_token tool full_trust_device_capabilities"

definition dx_claimed :: control_world where "dx_claimed = control_serve dx_settings 1000 (dx_claim 50 4) dx_world"
definition dx_active :: control_world where
  "dx_active = control_serve dx_settings 2000 (Device_connected dx_token 50 1) dx_claimed"

definition dx_row :: "device_status \<Rightarrow> time option \<Rightarrow> device_session" where
  "dx_row status lease = \<lparr>ds_id = 50, ds_user_id = 1, ds_device_id = 2, ds_tool_session_id = Some 4, ds_reference_id = 4, ds_node_id = 6,
     ds_platform = ''macos'', ds_status = status, ds_generation = 1, ds_mode = full_trust, ds_policy_version = 1,
     ds_authorized = Some 1000, ds_lease = lease, ds_expires = 60001000, ds_lock = None, ds_stopped = None, ds_reason = None,
     ds_created = 1000\<rparr>"

lemma dx_rows:
  "c_device_sessions (w_saved dx_claimed) = [dx_row DS_pending_device None]"
  "c_device_sessions (w_saved dx_active) = [dx_row DS_active (Some 60001000)]"
  "map nt_task_id (c_tasks (w_saved dx_active)) = [Activate_id 50 1, Update_id 50 1 60001000]"
  by code_simp+


lemma dx_control_ok: "control_ok (w_saved dx_world)"
  by (simp add: control_ok_def tables_ok_def dx_world_def dx_db_def sessions_admissible_def unique_index_def)

lemma dx_fresh: "unused 50 (w_saved dx_world)" "fresh_id (dx_claim 50 4) (w_saved dx_world)"
  by (simp_all add: unused_def dx_world_def dx_db_def fresh_id_def dx_claim_def)

lemma dx_evolves: "control_evolves dx_settings dx_world dx_claimed" "control_evolves dx_settings dx_world dx_active"
proof -
  show c: "control_evolves dx_settings dx_world dx_claimed"
    unfolding dx_claimed_def by (rule control_evolves.Serve [OF control_evolves.Same dx_fresh(2)])
  show "control_evolves dx_settings dx_world dx_active"
    unfolding dx_active_def by (rule control_evolves.Serve [OF c]) (simp add: fresh_id_def)
qed

lemma dx_active_ok: "control_ok (w_saved dx_active)" "control_ok (w_saved dx_claimed)"
  using control_evolves_ok dx_evolves dx_control_ok by blast+

text \<open>Both ends of the session register their keys, take their tickets to the socket and meet on the hub.\<close>

definition dx_ticketed :: control_world where
  "dx_ticketed = fold (control_serve dx_settings 3000)
     [Register_device [1] [2] dx_token 50 1 [3], Register_proxy [1] [4] dx_node 50 1 [5], Register_device [1] [2] dx_token 50 1 [3]] dx_active"

definition dx_joined :: control_world where
  "dx_joined = fold (control_serve dx_settings 3000) [Relay_socket True 50 (Some [2]) 20, Relay_socket True 50 (Some [4]) 21] dx_ticketed"

definition dx_claims :: dr_claims where
  "dx_claims = \<lparr>dc_binding = relay_binding_of (dx_row DS_active (Some 60001000)), dc_role = Device, dc_credential_id = Some 9\<rparr>"

lemma dx_tickets:
  "map_of (dr_tickets (w_store dx_ticketed)) [2] = Some (dx_claims, 30003000)"
  "snd (run_request (dv_relay_socket (service_with dx_settings False) 3000 True 50 (Some [2]) 20) dx_ticketed) = Inr (Registered 0)"
  "w_saved dx_ticketed = w_saved dx_active"
  by code_simp+

lemma dx_joined_pair:
  "map fst (pair_of (hub_pairs (w_hub dx_joined)) (relay_key 50 1)) = [Device, Proxy]"
  "w_saved dx_joined = w_saved dx_active"
  by code_simp+

lemma dx_session_row:
  "get_device_session (w_saved dx_active) 50 = Some (dx_row DS_active (Some 60001000))"
  "get_tool_session (w_saved dx_active) 4 = Some (dx_session 4)"
  by code_simp+

lemma dx_row_simps [simp]:
  "ds_id (dx_row st l) = 50" "ds_device_id (dx_row st l) = 2" "ds_user_id (dx_row st l) = 1" "ds_status (dx_row st l) = st"
  "ds_generation (dx_row st l) = 1" "ds_lease (dx_row st l) = l" "ds_expires (dx_row st l) = 60001000" "ds_lock (dx_row st l) = None"
  "ds_reference_id (dx_row st l) = 4" "dv_terminal (dx_row DS_active l) = False"
  by (simp_all add: dx_row_def dv_terminal_def terminal_device_statuses_def)

lemma dx_token_simps [simp]: "tk_type dx_token = ''device''" "tk_device_id dx_token = Some 2"
  by (simp_all add: dx_token_def)

end
