(* ===== verification/Device_Contract.thy ===== *)
theory Device_Contract
  imports Device_Samples
begin

text \<open>The properties of device control, each with a run that shows it at work.\<close>

section \<open>Requests served\<close>

lemma stop_served:
  assumes "control_ok (w_saved w)" "get_device_session (w_saved w) i = Some s" "\<not> dv_terminal s" "may_stop user token s"
  shows "\<exists>d'. control_serve cs now (Stop_session user token i reason) w =
      w\<lparr>w_db := d', w_saved := d', w_hub := dr_close_binding i (ds_generation s) 1008 (w_hub w)\<rparr> \<and> control_ok d' \<and>
    get_device_session d' i = Some (gone now DS_stopped reason s) \<and>
    c_tasks d' = c_tasks (w_saved w) @ [deactivation_task (gone now DS_stopped reason s)]"
proof -
  have hub: "sv_hub (service_with cs True)" by (simp add: service_with_def control_settings.defs)
  obtain actor action d' where d': "d' = end_db actor action (gone now DS_stopped reason s) (w_saved w)" "control_ok d'"
    "run_request (route_stop (service_with cs True) now user token i reason) w =
      (w\<lparr>w_db := d', w_saved := d', w_hub := dr_close_binding i (ds_generation s) 1008 (w_hub w)\<rparr>, Inr (gone now DS_stopped reason s))"
    using route_stop_works [OF assms hub] by blast
  have "get_device_session d' i = Some (gone now DS_stopped reason s)"
    using find_session [OF assms(2)] assms(2) by (simp add: d'(1) end_db_def get_device_session_def find_put_row)
  then show ?thesis using d' by (intro exI [of _ d']) (simp add: control_serve_def run_discard end_db_def)
qed

lemma claim_keeps_ok:
  assumes "control_ok (w_saved w)" "unused i (w_saved w)"
  shows "control_ok (w_saved (fst (run_request (dv_claim sv now i token tool_id caps) w)))"
proof -
  let ?w = "w\<lparr>w_db := w_saved w\<rparr>"
  obtain w' r where m: "dv_claim sv now i token tool_id caps ?w = (w', r)" by (cases "dv_claim sv now i token tool_id caps ?w")
  have "runs (w_saved w) ?w" "control_keyed (w_db ?w) \<and> sees {} {i} ?w"
    using control_ok_keyed [OF assms(1)] assms(2) by (simp_all add: runs_def sees_def)
  from keepsD [OF keeps_claim this m] show ?thesis
    using control_run_ok [OF _ assms(1)] by (simp add: run_request_def m runs_def)
qed

lemma dx_claimable:
  "claimable (service_with dx_settings True) (w_saved dx_world) dx_token 4 full_trust_device_capabilities (dx_session 4) dx_device"
proof -
  have node: "get_device_node (w_saved dx_world) 6 = Some dx_node" "get_tool_session (w_saved dx_world) 4 = Some (dx_session 4)"
    "get_device (w_saved dx_world) 2 = Some dx_device" "cs_enabled (service_with dx_settings True)"
    "supports_device_control (service_with dx_settings True) (n_capabilities dx_node) (s_backend (dx_session 4)) None"
    by code_simp+
  show ?thesis
    unfolding claimable_def
    by (intro conjI exI [of _ dx_node])
      (use node in \<open>simp_all add: dx_token_def dx_session_def dx_device_def dx_node_def active_tool_statuses_def available_node_statuses_def\<close>)
qed

section \<open>Every run\<close>

text \<open>
  C1. In every run - requests, the other services on their tables, deleted tool sessions and the relay hub, in any order -
  the tables of device control stay well-formed: one live session per device and per tool session, one lock holder per
  device, the lease, the lock and the end of a session as its status says, unique task ids, the tasks of a session in the
  order of its generations with the deactivation last, one deactivation task for every ended session.
\<close>

theorem device_tables_stay_well_formed:
  assumes "control_evolves cs w w'" "control_ok (w_saved w)"
  shows "control_ok (w_saved w')"
  using assms by (rule control_evolves_ok)

theorem device_tables_stay_well_formed_witness: "control_ok (w_saved dx_active)"
  using device_tables_stay_well_formed [OF dx_evolves(2) dx_control_ok] .

text \<open>
  Every request of device control refines the abstract machine: what it leaves in the database, committed or rolled
  back, comes from steps that admit a session, move one along its life with or without telling the node, replace
  approvals, write an audit or delete ended sessions.
\<close>

theorem device_requests_refine_machine:
  assumes "control_keyed (w_saved w)" "fresh_id q (w_saved w)"
  shows "control_table_step\<^sup>*\<^sup>* (w_saved w) (w_saved (control_serve cs now q w))"
  using assms by (rule control_serve_runs)

theorem device_requests_refine_machine_witness: "control_table_step\<^sup>*\<^sup>* (w_saved dx_world) (w_saved dx_claimed)"
  using device_requests_refine_machine [OF control_ok_keyed [OF dx_control_ok] dx_fresh(2)] by (simp add: dx_claimed_def)

text \<open>
  C3. A session keeps its parties, its mode and its end; its generation never falls, within a generation its status only
  advances, a lock is kept to the end, and an ended session never changes again. A session that is gone has ended:
  a deactivation of its generation or a later one is on record.
\<close>

theorem device_session_history:
  assumes "control_evolves cs w w'" "control_ok (w_saved w)" "s \<in> set (c_device_sessions (w_saved w))"
  shows "(\<exists>s' \<in> set (c_device_sessions (w_saved w')). follows s s') \<or> passed (w_saved w') (ds_id s) (ds_generation s)"
  using control_evolves_later [OF assms(1,2)] assms(3) by (simp add: later_def fate_def)

theorem device_session_history_witness:
  "(\<exists>s' \<in> set (c_device_sessions (w_saved dx_active)). follows (dx_row DS_pending_device None) s') \<or>
   passed (w_saved dx_active) 50 1"
proof -
  have "control_evolves dx_settings dx_claimed dx_active"
    unfolding dx_active_def by (rule control_evolves.Serve [OF control_evolves.Same]) (simp add: fresh_id_def)
  from device_session_history [OF this dx_active_ok(2), of "dx_row DS_pending_device None"] dx_rows(1) show ?thesis by simp
qed

section \<open>Ends\<close>

text \<open>
  C4. Who may stop a live session can: the request commits the stopped session in its next generation, without lease and
  lock, appends the deactivation task of that generation, and closes the relay pair of the generation that ended.
\<close>

theorem device_stop_succeeds:
  assumes "control_ok (w_saved w)" "get_device_session (w_saved w) i = Some s" "\<not> dv_terminal s" "may_stop user token s"
  shows "let w' = control_serve cs now (Stop_session user token i reason) w; s' = gone now DS_stopped reason s in
    get_device_session (w_saved w') i = Some s' \<and> c_tasks (w_saved w') = c_tasks (w_saved w) @ [deactivation_task s'] \<and>
    pair_of (hub_pairs (w_hub w')) (relay_key i (ds_generation s)) = [] \<and>
    (\<forall>k. k \<noteq> relay_key i (ds_generation s) \<longrightarrow> pair_of (hub_pairs (w_hub w')) k = pair_of (hub_pairs (w_hub w)) k)"
proof -
  note stopped = stop_served [OF assms, of cs now reason]
  then show ?thesis by (auto simp: Let_def closed_pair)
qed

lemma dx_may_stop: "may_stop dx_user dx_token (dx_row st l)"
  by (simp add: may_stop_def)

theorem device_stop_succeeds_witness:
  "pair_of (hub_pairs (w_hub dx_joined)) (relay_key 50 1) \<noteq> [] \<and>
   (let w' = control_serve dx_settings 4000 (Stop_session dx_user dx_token 50 ''done'') dx_joined in
    pair_of (hub_pairs (w_hub w')) (relay_key 50 1) = [] \<and>
    get_device_session (w_saved w') 50 = Some (gone 4000 DS_stopped ''done'' (dx_row DS_active (Some 60001000))))"
proof -
  have "control_ok (w_saved dx_joined)" "get_device_session (w_saved dx_joined) 50 = Some (dx_row DS_active (Some 60001000))"
    using dx_active_ok dx_session_row by (simp_all add: dx_joined_pair)
  from device_stop_succeeds [OF this _ dx_may_stop, of dx_settings 4000 "''done''"] dx_joined_pair(1) show ?thesis
    by (auto simp: Let_def)
qed

text \<open>
  C29. The expiry loop always comes through: it ends exactly the live sessions past their absolute end, each with its
  deactivation task, leaves every other session as it was, returns their number, and nothing is due afterwards.
\<close>

theorem device_expiry_completes:
  assumes "control_ok (w_saved w)"
  shows "\<exists>w'. run_request (dv_expire_due sv now) w = (w', Inr (length (list_due (w_saved w) now))) \<and>
    list_due (w_saved w') now = [] \<and>
    set (c_device_sessions (w_saved w')) =
      (\<lambda>s. if \<not> dv_terminal s \<and> ds_expires s \<le> now then gone now DS_expired ''session_expired'' s else s) ` set (c_device_sessions (w_saved w)) \<and>
    (\<exists>ts. c_tasks (w_saved w') = c_tasks (w_saved w) @ ts \<and>
      set ts = (\<lambda>s. deactivation_task (gone now DS_expired ''session_expired'' s)) ` set (list_due (w_saved w) now))"
proof -
  obtain w' where w': "run_request (dv_expire_due sv now) w = (w', Inr (length (list_due (w_saved w) now)))"
    "ends_as now DS_expired ''session_expired'' (set (list_due (w_saved w) now)) (w_saved w) (w_saved w')"
    using expire_due_works [OF assms, of sv now] by auto
  show ?thesis using w'(1) no_more_due [OF assms w'(2)] w'(2)
    by (intro exI [of _ w']) (auto simp: ends_as_def list_due_rows image_image)
qed

theorem device_expiry_completes_witness:
  "list_due (w_saved dx_active) 60001000 \<noteq> [] \<and>
   list_due (w_saved (fst (run_request (dv_expire_due (service_with dx_settings False) 60001000) dx_active))) 60001000 = []"
proof -
  have "dx_row DS_active (Some 60001000) \<in> set (list_due (w_saved dx_active) 60001000)" by (simp add: list_due_rows dx_rows)
  with device_expiry_completes [OF dx_active_ok(1), of "service_with dx_settings False" 60001000] show ?thesis by auto
qed

section \<open>Claims\<close>

text \<open>
  C5. A claim succeeds exactly when the session and the device of the token can be bound, otherwise it is refused and
  changes nothing. It returns the one live binding of the two: the one that existed and is not past its end, with nothing
  changed, or a new one, after every competing binding of the session and the device has been ended and, where the
  service has the hub, cut off the relay.
\<close>

theorem device_claim_decides:
  assumes "control_ok (w_saved w)" "unused i (w_saved w)" "cs_mode sv = per_application \<or> cs_mode sv = full_trust"
  shows "(\<exists>t x s revoked w'. claimable sv (w_saved w) token tool_id caps t x \<and>
      run_request (dv_claim sv now i token tool_id caps) w = (w', Inr (s, revoked)) \<and> claimed sv now i token t x w s revoked w' \<and>
      (\<forall>b \<in> set (c_device_sessions (w_saved w')). competes t x b \<longrightarrow> b = s)) \<or>
    (\<nexists>t x. claimable sv (w_saved w) token tool_id caps t x) \<and>
      (\<exists>c n. run_request (dv_claim sv now i token tool_id caps) w = (w\<lparr>w_db := w_saved w\<rparr>, Inl (ApiError c n)))"
proof -
  let ?w = "w\<lparr>w_db := w_saved w\<rparr>"
  show ?thesis
    using claim_guards [of sv ?w token tool_id caps now i]
  proof (elim disjE exE conjE)
    fix t x
    assume ok: "claimable sv (w_db ?w) token tool_id caps t x" and run: "dv_claim sv now i token tool_id caps ?w = claim_bind sv now i token t x ?w"
    obtain w' s revoked where b: "claim_bind sv now i token t x ?w = (w', Inr (s, revoked))" "w_db w' = w_saved w'"
      "claimed sv now i token t x ?w s revoked w'"
      using claim_bind_works [where w = ?w and i = i and sv = sv and now = now and token = token and t = t and x = x, OF _ _ assms(3)]
        assms(1,2) by auto
    have c: "claimed sv now i token t x w s revoked w'" using b(3) by (simp add: claimed_def)
    have ok': "control_ok (w_saved w')"
      using claim_keeps_ok [OF assms(1,2), of sv now token tool_id caps] run b(1) by (simp add: run_request_def)
    have "b = s" if "b \<in> set (c_device_sessions (w_saved w'))" "competes t x b" for b
      using live_unique [OF ok' that(1), of s] that(2) c by (auto simp: claimed_def competes_def binds_def)
    moreover have "run_request (dv_claim sv now i token tool_id caps) w = (w', Inr (s, revoked))"
      using run b(1,2) by (cases w') (simp add: run_request_def)
    ultimately show ?thesis using ok c by auto
  qed (auto simp: run_request_def)
qed

theorem device_claim_decides_witness:
  "\<exists>s w'. run_request (dv_claim (service_with dx_settings True) 1000 50 dx_token 4 full_trust_device_capabilities) dx_world =
      (w', Inr (s, [])) \<and> binds (dx_session 4) dx_device s"
proof -
  let ?sv = "service_with dx_settings True"
  have sv: "cs_mode ?sv = full_trust" by (simp add: service_with_def control_settings.defs dx_settings_def)
  have ok: "claimable ?sv (w_saved dx_world) dx_token 4 full_trust_device_capabilities (dx_session 4) dx_device" by (rule dx_claimable)
  have only: "t = dx_session 4 \<and> x = dx_device" if "claimable ?sv (w_saved dx_world) dx_token 4 caps t x" for t x caps
    using that ok by (auto simp: claimable_def)
  from device_claim_decides [where sv = ?sv and now = 1000 and token = dx_token and tool_id = 4 and caps = full_trust_device_capabilities,
      OF dx_control_ok dx_fresh(1)] sv ok
  obtain t x s revoked w' where c: "claimable ?sv (w_saved dx_world) dx_token 4 full_trust_device_capabilities t x"
    "run_request (dv_claim ?sv 1000 50 dx_token 4 full_trust_device_capabilities) dx_world = (w', Inr (s, revoked))"
    "claimed ?sv 1000 50 dx_token t x dx_world s revoked w'"
    by auto
  have "revoked = []" "binds t x s" using c(3) by (auto simp: claimed_def dx_world_def dx_db_def split: if_splits)
  with c(2) only [OF c(1)] show ?thesis by auto
qed

section \<open>The device's requests\<close>

text \<open>
  A leased session without the lock always gets it: well-formed tables have no other holder on the device. Nothing else
  of the session changes and the node is not told.
\<close>

theorem device_lock_granted:
  assumes "control_ok (w_saved w)" "get_device_session (w_saved w) i = Some s" "leased now s" "ds_lock s = None"
    "tk_type token = ''device''" "tk_device_id token = Some (ds_device_id s)"
  shows "\<exists>w'. run_request (dv_acquire_lock sv now token i (ds_generation s)) w = (w', Inr (s\<lparr>ds_lock := Some now\<rparr>)) \<and>
    get_device_session (w_saved w') i = Some (s\<lparr>ds_lock := Some now\<rparr>) \<and> c_tasks (w_saved w') = c_tasks (w_saved w) \<and>
    w_hub w' = w_hub w \<and> w_store w' = w_store w"
  using lock_works [OF assms, of sv] by auto

lemma dx_leased: "now < 60001000 \<Longrightarrow> leased now (dx_row DS_active (Some 60001000))"
  by (simp add: leased_def)

theorem device_lock_granted_witness:
  "\<exists>w'. run_request (dv_acquire_lock (service_with dx_settings False) 4000 dx_token 50 1) dx_active =
    (w', Inr ((dx_row DS_active (Some 60001000))\<lparr>ds_lock := Some 4000\<rparr>))"
  using device_lock_granted [OF dx_active_ok(1) dx_session_row(1) dx_leased, of 4000 dx_token "service_with dx_settings False"]
  by auto

text \<open>
  C30. A lease that already reaches the end of its session cannot be renewed again: the task of the renewal has the id of
  the one that granted the lease, the insertion breaks the unique index, and the request fails with an unhandled
  integrity error although the session is leased.
\<close>

theorem device_renew_collides:
  assumes "control_ok (w_saved w)" "get_device_session (w_saved w) i = Some s" "leased now s" "ds_lease s = Some (ds_expires s)"
    "ds_expires s \<le> now + seconds (cs_lease sv)" "tk_type token = ''device''" "tk_device_id token = Some (ds_device_id s)"
  shows "run_request (dv_renew sv now token i (ds_generation s)) w = (w\<lparr>w_db := w_saved w\<rparr>, Inl integrity_error)"
  using assms by (rule renew_refused)

theorem device_renew_collides_witness:
  "run_request (dv_renew (service_with dx_settings False) 30000000 dx_token 50 1) dx_active =
    (dx_active\<lparr>w_db := w_saved dx_active\<rparr>, Inl integrity_error)"
proof -
  have "cs_lease (service_with dx_settings False) = 60" by (simp add: service_with_def control_settings.defs dx_settings_def)
  then show ?thesis
    using device_renew_collides [OF dx_active_ok(1) dx_session_row(1) dx_leased, of 30000000 "service_with dx_settings False" dx_token]
    by (simp add: seconds_def)
qed

text \<open>
  Every request of the device that names another generation than the current one is refused with a generation
  mismatch and changes nothing.
\<close>

theorem device_generation_fences:
  assumes "get_device_session (w_saved w) i = Some s" "tk_type token = ''device''" "tk_device_id token = Some (ds_device_id s)"
    "g \<noteq> ds_generation s"
  shows "\<forall>q \<in> {dv_mark_connected sv now token i g, dv_approve sv now fresh token i g items, dv_acquire_lock sv now token i g,
      dv_renew sv now token i g, dv_reconnect sv now token i g, dv_abort_action sv now token i g}.
    run_request q w = (w\<lparr>w_db := w_saved w\<rparr>, Inl (ApiError ''DEVICE_CONTROL_GENERATION_MISMATCH'' 409))"
proof -
  let ?w = "w\<lparr>w_db := w_saved w\<rparr>"
  have stale: "act_bind (require_device_session token i) (\<lambda>s. act_bind (require_generation s g) (f s)) ?w =
      (?w, Inl (ApiError ''DEVICE_CONTROL_GENERATION_MISMATCH'' 409))" for f :: "device_session \<Rightarrow> unit \<Rightarrow> device_session dact"
    by (rule stale_device) (use assms in auto)
  show ?thesis
    unfolding dv_mark_connected_def dv_approve_def dv_acquire_lock_def dv_renew_def dv_reconnect_def dv_abort_action_def
      require_active_generation_def act_bind_assoc run_request_def
    by (simp add: stale)
qed

theorem device_generation_fences_witness:
  "run_request (dv_renew (service_with dx_settings False) 3000 dx_token 50 2) dx_active =
    (dx_active\<lparr>w_db := w_saved dx_active\<rparr>, Inl (ApiError ''DEVICE_CONTROL_GENERATION_MISMATCH'' 409))"
  using device_generation_fences [OF dx_session_row(1), of dx_token 2 "service_with dx_settings False" 3000] by simp

text \<open>
  The last generation is kept for the end: a session whose generation has no active successor cannot reconnect or
  abort an action, and can still be stopped, in the largest generation.
\<close>

theorem device_generation_bounded:
  assumes "control_ok (w_saved w)" "get_device_session (w_saved w) i = Some s" "ds_status s = DS_active" "now < ds_expires s"
    "ds_generation s = max_active_generation" "tk_type token = ''device''" "tk_device_id token = Some (ds_device_id s)"
  shows "snd (run_request (dv_reconnect sv now token i (ds_generation s)) w) = Inl (ApiError ''DEVICE_CONTROL_GENERATION_EXHAUSTED'' 409) \<and>
    snd (run_request (dv_abort_action sv now token i (ds_generation s)) w) = Inl (ApiError ''DEVICE_CONTROL_GENERATION_EXHAUSTED'' 409) \<and>
    map_option ds_generation (get_device_session (w_saved (control_serve cs now (Stop_session user token i reason) w)) i) = Some max_generation"
proof -
  let ?w = "w\<lparr>w_db := w_saved w\<rparr>"
  have live: "\<not> dv_terminal s" using assms(3) by (rule live_statuses)
  have start: "act_bind (require_device_session token i) f ?w = f s ?w" for f :: "_ \<Rightarrow> 'b dact"
    by (rule act_bind_Inr [OF require_device_works]) (use assms in auto)
  have "increment_generation s False = Inl (ApiError ''DEVICE_CONTROL_GENERATION_EXHAUSTED'' 409)"
    using assms(5) by (simp add: increment_generation_def)
  then have "new_generation s action ?w = (?w, Inl (ApiError ''DEVICE_CONTROL_GENERATION_EXHAUSTED'' 409))" for action
    by (simp add: new_generation_def act_bind_def lift_res_def throw_def)
  moreover have "may_stop user token s" using assms(6,7) by (simp add: may_stop_def)
  ultimately show ?thesis
    using stop_served [OF assms(1,2) live, of user token cs now reason] assms(3,5)
    by (auto simp: run_request_def dv_reconnect_def dv_abort_action_def start require_generation_def step_simps
        act_bind_Inr [OF not_expired_works [OF assms(4) live]] max_active_generation_def split: prod.splits)
qed

definition dx_last_row :: device_session where
  "dx_last_row = (dx_row DS_active (Some 60001000))\<lparr>ds_generation := max_active_generation\<rparr>"

definition dx_last :: control_world where
  "dx_last = dx_world\<lparr>w_saved := dx_db\<lparr>c_device_sessions := [dx_last_row], c_tasks := [update_task dx_last_row 60001000 []]\<rparr>\<rparr>"

lemma dx_last_ok: "control_ok (w_saved dx_last)" "get_device_session (w_saved dx_last) 50 = Some dx_last_row"
proof -
  show "control_ok (w_saved dx_last)"
    by (simp add: control_ok_def tables_ok_def dx_last_def dx_db_def sessions_admissible_def unique_index_def session_admissible_def
        dx_last_row_def session_shape_def told_def task_session_def task_generation_def is_deactivation_def update_task_def
        max_active_generation_def max_generation_def dx_row_def dv_terminal_def terminal_device_statuses_def)
  show "get_device_session (w_saved dx_last) 50 = Some dx_last_row"
    by (simp add: dx_last_def get_device_session_def find_row_def dx_last_row_def)
qed

theorem device_generation_bounded_witness:
  "snd (run_request (dv_reconnect (service_with dx_settings False) 3000 dx_token 50 max_active_generation) dx_last) =
    Inl (ApiError ''DEVICE_CONTROL_GENERATION_EXHAUSTED'' 409)"
  using device_generation_bounded [OF dx_last_ok, of 3000 dx_token "service_with dx_settings False"]
  by (simp add: dx_last_row_def)

section \<open>The relay\<close>

text \<open>
  C31. A reconnect starts a generation and leaves the relay pair of the one before on the hub; the stop that follows
  closes the new generation only. The session has ended and the old pair still forwards.
\<close>

theorem device_reconnect_leaves_relay:
  fixes w cs now token i s defines "w1 \<equiv> control_serve cs now (Reconnect token i (ds_generation s)) w"
  assumes "control_ok (w_saved w)" "get_device_session (w_saved w) i = Some s" "relay_eligible s" "now < ds_expires s"
    "ds_generation s < max_active_generation" "get_tool_session (w_saved w) (ds_reference_id s) = Some tool"
    "tk_type token = ''device''" "tk_device_id token = Some (ds_device_id s)"
  shows "let w2 = control_serve cs later_on (Stop_session user token i reason) w1 in
    map_option ds_status (get_device_session (w_saved w2) i) = Some DS_stopped \<and>
    pair_of (hub_pairs (w_hub w2)) (relay_key i (ds_generation s)) = pair_of (hub_pairs (w_hub w)) (relay_key i (ds_generation s)) \<and>
    pair_of (hub_pairs (w_hub w2)) (relay_key i (ds_generation s + 1)) = []"
proof -
  obtain d' s' where r: "run_request (dv_reconnect (service_with cs False) now token i (ds_generation s)) w = (w\<lparr>w_db := d', w_saved := d'\<rparr>, Inr s')"
    "get_device_session d' i = Some s'" "\<not> dv_terminal s'" "ds_generation s' = ds_generation s + 1" "ds_device_id s' = ds_device_id s"
    using reconnect_works [OF assms(2-9)] by blast
  have w1: "w1 = w\<lparr>w_db := d', w_saved := d'\<rparr>" by (simp add: w1_def control_serve_def run_discard r(1))
  have "control_evolves cs w w1" unfolding w1_def by (rule control_evolves.Serve [OF control_evolves.Same]) (simp add: fresh_id_def)
  then have "control_ok (w_saved w1)" using assms(2) by (rule control_evolves_ok)
  moreover have "may_stop user token s'" using assms(8,9) r(5) by (simp add: may_stop_def)
  ultimately obtain d2 where d2: "control_serve cs later_on (Stop_session user token i reason) w1 =
      w1\<lparr>w_db := d2, w_saved := d2, w_hub := dr_close_binding i (ds_generation s') 1008 (w_hub w1)\<rparr>"
    "get_device_session d2 i = Some (gone later_on DS_stopped reason s')"
    using stop_served [of w1 i s' user token cs later_on reason] r(2,3) w1 by auto
  show ?thesis unfolding d2(1) Let_def using d2(2) r(4) w1 by (simp add: closed_pair)
qed

theorem device_reconnect_leaves_relay_witness:
  "let w2 = control_serve dx_settings 5000 (Stop_session dx_user dx_token 50 ''done'') (control_serve dx_settings 4000 (Reconnect dx_token 50 1) dx_joined) in
    map_option ds_status (get_device_session (w_saved w2) 50) = Some DS_stopped \<and> pair_of (hub_pairs (w_hub w2)) (relay_key 50 1) \<noteq> []"
  using device_reconnect_leaves_relay [of dx_joined 50 "dx_row DS_active (Some 60001000)" 4000 "dx_session 4" dx_token dx_settings 5000 dx_user "''done''"]
    dx_active_ok(1) dx_session_row dx_joined_pair
  by (auto simp: relay_eligible_def max_active_generation_def max_generation_def Let_def)

text \<open>
  A ticket that the database confirms: its binding is that of the stored session, party by party and with its
  generation, the session is live and before its absolute end, the device, the node and the tool session are there in
  a state that allows the connection, and the ticket of a device names its own device token, active and unexpired,
  while that of a proxy names none.
\<close>

definition ticket_confirmed :: "control_db \<Rightarrow> time \<Rightarrow> dr_claims \<Rightarrow> bool" where
  "ticket_confirmed d now c \<longleftrightarrow>
     (\<exists>s x n t. find_row ds_id (db_device_session_id (dc_binding c)) (c_device_sessions d) = Some s \<and>
        dc_binding c = \<lparr>db_user_id = ds_user_id s, db_device_id = ds_device_id s, db_tool_session_id = ds_reference_id s,
          db_device_session_id = ds_id s, db_node_id = ds_node_id s, db_generation = ds_generation s\<rparr> \<and>
        (ds_status s = DS_pending_device \<or> ds_status s = DS_pending_user_approval \<or> ds_status s = DS_active) \<and> now < ds_expires s \<and>
        find_row ud_id (ds_device_id s) (c_devices d) = Some x \<and> ud_status x = ''active'' \<and>
        find_row n_id (ds_node_id s) (c_nodes d) = Some n \<and> (n_status n = ''healthy'' \<or> n_status n = ''degraded'') \<and>
        find_row s_id (ds_reference_id s) (c_sessions d) = Some t \<and>
        (s_status t = ''running'' \<or> s_status t = ''active'' \<or> s_status t = ''detached'') \<and>
        (case dc_role c of
           Proxy \<Rightarrow> dc_credential_id c = None
         | Device \<Rightarrow> (\<exists>i tk. dc_credential_id c = Some i \<and> find_row tk_id i (c_tokens d) = Some tk \<and> tk_status tk = ''active'' \<and>
             tk_type tk = ''device'' \<and> tk_device_id tk = Some (ds_device_id s) \<and> now < tk_expires tk)))"

lemma relay_claims_confirmed: "relay_claims_current d now c \<longleftrightarrow> ticket_confirmed d now c"
proof (cases "get_device_session d (db_device_session_id (dc_binding c))")
  case None
  then show ?thesis by (simp add: relay_claims_current_def ticket_confirmed_def get_device_session_def)
next
  case (Some s)
  have id: "ds_id s = db_device_session_id (dc_binding c)" using find_session [OF Some] by simp
  have b: "dc_binding c = \<lparr>db_user_id = ds_user_id s, db_device_id = ds_device_id s, db_tool_session_id = ds_reference_id s,
      db_device_session_id = ds_id s, db_node_id = ds_node_id s, db_generation = ds_generation s\<rparr> \<longleftrightarrow>
    ds_user_id s = db_user_id (dc_binding c) \<and> ds_device_id s = db_device_id (dc_binding c) \<and>
    ds_reference_id s = db_tool_session_id (dc_binding c) \<and> ds_node_id s = db_node_id (dc_binding c) \<and>
    ds_generation s = db_generation (dc_binding c)"
    using id by (cases "dc_binding c") auto
  have cred: "credential_current d now c \<longleftrightarrow> (case dc_role c of
      Proxy \<Rightarrow> dc_credential_id c = None
    | Device \<Rightarrow> (\<exists>i tk. dc_credential_id c = Some i \<and> find_row tk_id i (c_tokens d) = Some tk \<and> tk_status tk = ''active'' \<and>
        tk_type tk = ''device'' \<and> tk_device_id tk = Some (db_device_id (dc_binding c)) \<and> now < tk_expires tk))"
    by (auto simp: credential_current_def get_token_def split: dr_role.split option.split)
  have rows: "(case (get_device d x, get_device_node d n, get_tool_session d t) of
      (Some x, Some n, Some t) \<Rightarrow>
        ud_status x = ''active'' \<and> n_status n \<in> set available_node_statuses \<and> s_status t \<in> set active_tool_statuses
    | _ \<Rightarrow> False) \<longleftrightarrow>
    (\<exists>x' n' t'. find_row ud_id x (c_devices d) = Some x' \<and> ud_status x' = ''active'' \<and> find_row n_id n (c_nodes d) = Some n' \<and>
       (n_status n' = ''healthy'' \<or> n_status n' = ''degraded'') \<and> find_row s_id t (c_sessions d) = Some t' \<and>
       (s_status t' = ''running'' \<or> s_status t' = ''active'' \<or> s_status t' = ''detached''))" for x n t
    by (auto simp: get_device_def get_device_node_def get_tool_session_def available_node_statuses_def active_tool_statuses_def
        split: option.split)
  have find: "find_row ds_id (db_device_session_id (dc_binding c)) (c_device_sessions d) = Some s"
    using Some by (simp add: get_device_session_def)
  have elig: "relay_eligible s \<longleftrightarrow> ds_status s = DS_pending_device \<or> ds_status s = DS_pending_user_approval \<or> ds_status s = DS_active"
    by (simp add: relay_eligible_def)
  show ?thesis
  proof (cases "ds_user_id s = db_user_id (dc_binding c) \<and> ds_device_id s = db_device_id (dc_binding c) \<and>
      ds_reference_id s = db_tool_session_id (dc_binding c) \<and> ds_node_id s = db_node_id (dc_binding c) \<and>
      ds_generation s = db_generation (dc_binding c)")
    case False
    then have "\<not> relay_claims_current d now c" unfolding relay_claims_current_def Let_def Some option.case by blast
    moreover have "\<not> ticket_confirmed d now c" using False unfolding b [symmetric] ticket_confirmed_def find option.inject by blast
    ultimately show ?thesis by blast
  next
    case True
    note eq = conjunct1 [OF conjunct2 [OF True]] conjunct1 [OF conjunct2 [OF conjunct2 [OF True]]]
      conjunct1 [OF conjunct2 [OF conjunct2 [OF conjunct2 [OF True]]]]
    note bind = True [folded b]
    have l: "relay_claims_current d now c \<longleftrightarrow> relay_eligible s \<and> now < ds_expires s \<and>
        (case (get_device d (db_device_id (dc_binding c)), get_device_node d (db_node_id (dc_binding c)),
            get_tool_session d (db_tool_session_id (dc_binding c))) of
           (Some x, Some n, Some t) \<Rightarrow>
             ud_status x = ''active'' \<and> n_status n \<in> set available_node_statuses \<and> s_status t \<in> set active_tool_statuses
         | _ \<Rightarrow> False) \<and> credential_current d now c"
      unfolding relay_claims_current_def Let_def Some option.case using True by blast
    show ?thesis unfolding l rows cred elig ticket_confirmed_def find option.inject
      unfolding eq [symmetric] using bind by blast
  qed
qed

text \<open>
  C21. A socket gets onto the relay hub exactly when the release gate is open and it brings a stored, unexpired ticket for
  the session of the route that the database confirms - parties, generation, states of session, device, node and tool
  session and, for a device, its credential - and the hub takes it. The ticket is then used up, and nothing else has
  changed.
\<close>

theorem device_relay_admits_current:
  "run_request (dv_relay_socket sv now released i ticket ws) w = (w', Inr (Registered k)) \<longleftrightarrow>
    released \<and> (\<exists>raw c t hub. ticket = Some raw \<and> map_of (dr_tickets (w_store w)) (cs_hash sv raw) = Some (c, t) \<and> now < t \<and>
      db_device_session_id (dc_binding c) = i \<and> ticket_confirmed (w_saved w) now c \<and>
      dr_connect (w_hub w) c ws = (hub, Registered k) \<and>
      w' = w\<lparr>w_db := w_saved w, w_store := (w_store w)\<lparr>dr_tickets := AList.delete (cs_hash sv raw) (dr_tickets (w_store w))\<rparr>,
        w_hub := hub\<rparr>)"
proof (cases "released \<and> ticket \<noteq> None")
  case False
  then show ?thesis by (cases released; cases ticket) (simp_all add: socket_cases)
next
  case True
  then obtain raw where r: "released" "ticket = Some raw" by auto
  obtain st claims where m: "dr_consume_ticket now (w_store w) (cs_hash sv raw) = (st, claims)"
    by (cases "dr_consume_ticket now (w_store w) (cs_hash sv raw)")
  show ?thesis
  proof (cases claims)
    case None
    then have "\<not> (\<exists>c t. map_of (dr_tickets (w_store w)) (cs_hash sv raw) = Some (c, t) \<and> now < t)"
      using m by (auto simp: dr_consume_ticket_def dict_pop_def split: if_splits)
    then show ?thesis by (auto simp: socket_cases r m None)
  next
    case (Some c)
    then have t: "\<exists>t. map_of (dr_tickets (w_store w)) (cs_hash sv raw) = Some (c, t) \<and> now < t"
      "st = (w_store w)\<lparr>dr_tickets := AList.delete (cs_hash sv raw) (dr_tickets (w_store w))\<rparr>"
      using m consumed_ticket by blast+
    obtain hub res where h: "dr_connect (w_hub w) c ws = (hub, res)" by (cases "dr_connect (w_hub w) c ws")
    obtain t where t': "map_of (dr_tickets (w_store w)) (cs_hash sv raw) = Some (c, t)" "now < t" using t(1) by blast
    show ?thesis using t' h by (auto simp: socket_cases r m Some relay_claims_confirmed t(2))
  qed
qed

theorem device_relay_admits_current_witness: "ticket_confirmed (w_saved dx_ticketed) 3000 dx_claims"
proof -
  let ?run = "run_request (dv_relay_socket (service_with dx_settings False) 3000 True 50 (Some [2]) 20) dx_ticketed"
  have "?run = (fst ?run, Inr (Registered 0))" using dx_tickets(2) by (metis prod.collapse)
  from this [unfolded device_relay_admits_current] show ?thesis
    using dx_tickets(1) by (auto simp: service_with_def control_settings.defs dx_settings_def)
qed

text \<open>
  C20. Once a generation of a session is over - the session has moved to a later one, has ended or is gone - its tickets are
  worthless for good: whatever happens in between, no socket gets onto the hub with one.
\<close>

theorem device_relay_fenced:
  assumes "control_ok (w_saved w)" "outdated (w_saved w) i g" "control_evolves cs w w'"
    "map_of (dr_tickets (w_store w')) (cs_hash sv raw) = Some (c, t)"
    "db_device_session_id (dc_binding c) = i" "db_generation (dc_binding c) = g"
  shows "\<exists>w''. run_request (dv_relay_socket sv now released j (Some raw) ws) w' = (w'', Inr Rejected) \<and>
    hub_pairs (w_hub w'') = hub_pairs (w_hub w') \<and> hub_endpoints (w_hub w'') = hub_endpoints (w_hub w')"
proof -
  note l = control_evolves_later [OF assms(3,1)]
  have "outdated (w_saved w') (db_device_session_id (dc_binding c)) (db_generation (dc_binding c))"
    using outdated_later [OF conjunct2 [OF l] assms(2)] assms(5,6) by simp
  then have "\<not> relay_claims_current (w_saved w') now c"
    by (rule outdated_not_current [OF control_ok_keyed [OF conjunct1 [OF l]]])
  then show ?thesis using assms(4) by (intro socket_refused) auto
qed

theorem device_relay_fenced_witness:
  "let w' = control_serve dx_settings 4000 (Stop_session dx_user dx_token 50 ''done'') dx_ticketed in
    map_of (dr_tickets (w_store w')) [2] \<noteq> None \<and>
    snd (run_request (dv_relay_socket (service_with dx_settings False) 5000 True 50 (Some [2]) 20) w') = Inr Rejected"
proof -
  let ?s = "dx_row DS_active (Some 60001000)" and ?w = "control_serve dx_settings 4000 (Stop_session dx_user dx_token 50 ''done'') dx_ticketed"
  have "control_ok (w_saved dx_ticketed)" "get_device_session (w_saved dx_ticketed) 50 = Some ?s"
    using dx_active_ok dx_session_row dx_tickets(3) by simp_all
  from stop_served [OF this _ dx_may_stop, of dx_settings 4000 "''done''"]
  have w: "control_ok (w_saved ?w)" "get_device_session (w_saved ?w) 50 = Some (gone 4000 DS_stopped ''done'' ?s)"
    "map_of (dr_tickets (w_store ?w)) [2] = Some (dx_claims, 30003000)"
    using dx_tickets(1) by auto
  have "outdated (w_saved ?w) 50 1"
    using find_session [OF w(2)] by (auto simp: outdated_def intro!: bexI [of _ "gone 4000 DS_stopped ''done'' ?s"])
  from device_relay_fenced [OF w(1) this control_evolves.Same, of "service_with dx_settings False" "[2]" dx_claims 30003000 5000 True 50 20] w(3)
  show ?thesis by (auto simp: Let_def dx_claims_def relay_binding_of_def service_with_def control_settings.defs dx_settings_def)
qed

end
