(* ===== verification/Attachments.thy ===== *)
theory Attachments
  imports Rows
begin

text \<open>
  Leases for the transfer of attachments into a session (\<open>services/session_attachment.py\<close>,
  \<open>models/session_attachment.py\<close>): a node asks for one, the node reports the cleanup with a receipt, and the end
  of a session or the revocation of a device takes the open ones back.
\<close>

section \<open>Rows\<close>

datatype lease_status = Issued | Cleanup_pending | Lease_cleaned | Lease_expired | Lease_revoked | Lease_rejected

datatype receipt_status = Cleaned | Cleaning | Unknown | Refused

record attachment_lease =
  al_id :: uuid
  al_session_id :: uuid
  al_user_id :: uuid
  al_node_id :: uuid
  al_device_id :: uuid
  al_key_id :: uuid
  al_backend :: pystr
  al_resource :: "pystr option"
  al_scope :: uuid
  al_status :: lease_status
  al_expires :: time
  al_max_bytes :: int
  al_max_entries :: int
  al_invalidated :: "time option"
  al_reason :: "string option"
  al_cleaned :: "time option"

record cleanup_receipt =
  rc_lease_id :: uuid
  rc_receipt_id :: uuid
  rc_session_id :: uuid
  rc_node_id :: uuid
  rc_device_id :: uuid
  rc_key_id :: uuid
  rc_status :: receipt_status
  rc_batches :: int
  rc_observed :: time

record attachment_db =
  t_sessions :: "session_row list"
  t_accounts :: "account_row list"
  t_devices :: "device_row list"
  t_keys :: "key_row list"
  t_leases :: "attachment_lease list"
  t_receipts :: "cleanup_receipt list"
  t_audits :: "audit_row list"

type_synonym attachment_world = "attachment_db tx"

type_synonym 'a aact = "(attachment_world, 'a) step"

definition lease_seconds :: int where "lease_seconds = 300"
definition max_attachment_bytes :: int where "max_attachment_bytes = 256 * 1024 * 1024"
definition max_attachment_entries :: int where "max_attachment_entries = 32"

definition live_lease_states :: "lease_status list" where "live_lease_states = [Issued, Cleanup_pending]"

definition lease_live :: "attachment_lease \<Rightarrow> bool" where "lease_live l \<longleftrightarrow> al_status l \<in> set live_lease_states"

text \<open>The check constraint and the two unique indexes of the receipts.\<close>

definition receipts_admissible :: "cleanup_receipt list \<Rightarrow> bool" where
  "receipts_admissible rs \<longleftrightarrow> list_all (\<lambda>r. 0 \<le> rc_batches r \<and> rc_batches r \<le> 32) rs \<and>
     distinct (map rc_lease_id rs) \<and> distinct (map rc_receipt_id rs)"

definition store_receipts :: "cleanup_receipt list \<Rightarrow> attachment_db \<Rightarrow> attachment_db res" where
  "store_receipts rs d = (if receipts_admissible rs then Inr (d\<lparr>t_receipts := rs\<rparr>) else Inl integrity_error)"

section \<open>Requests\<close>

record admission_request =
  aq_node_id :: uuid
  aq_session_id :: uuid
  aq_device_id :: uuid
  aq_key_id :: uuid
  aq_lease_id :: uuid

record cleanup_request =
  cq_node_id :: uuid
  cq_session_id :: uuid
  cq_device_id :: uuid
  cq_key_id :: uuid
  cq_lease_id :: uuid
  cq_status :: receipt_status
  cq_batches :: int
  cq_receipt_id :: uuid

definition attachment_error :: "string \<Rightarrow> nat \<Rightarrow> 'a aact" where
  "attachment_error code status = api_error code status"

definition transfer_capable :: "node_row \<Rightarrow> bool" where
  "transfer_capable n =
     (case map_of (n_capabilities n) (lit ''session_attachment_transfer'') of
        Some (JObject c) \<Rightarrow> map_of c (lit ''supported'') = Some (JBool True) \<and> map_of c (lit ''protocol_version'') = Some (JInt 1)
      | _ \<Rightarrow> False)"

definition attachment_backends :: "pystr list" where "attachment_backends = [lit ''native'', lit ''docker_sandbox'']"

definition attachable_statuses :: "string list" where "attachable_statuses = [''running'', ''active'']"

definition attached_device :: "attachment_db \<Rightarrow> uuid \<Rightarrow> uuid \<Rightarrow> device_row option" where
  "attached_device d i user_id = List.find (\<lambda>x. ud_id x = i \<and> ud_user_id x = user_id \<and> ud_status x = ''active'') (t_devices d)"

definition attached_key :: "attachment_db \<Rightarrow> uuid \<Rightarrow> uuid \<Rightarrow> key_row option" where
  "attached_key d i device_id = List.find (\<lambda>k. k_id k = i \<and> k_device_id k = device_id \<and> k_status k = ''active'') (t_keys d)"

definition require_runtime :: "node_row \<Rightarrow> uuid \<Rightarrow> session_row aact" where
  "require_runtime node session_id =
     act_bind (query (\<lambda>d. find_row s_id session_id (t_sessions d))) (\<lambda>row.
     case row of
       None \<Rightarrow> attachment_error ''COMMON_NOT_FOUND'' 404
     | Some s \<Rightarrow>
         act_bind (check (s_node_id s = n_id node) ''ATTACHMENT_NODE_MISMATCH'' 403) (\<lambda>_.
         act_bind (check (s_tool_type s = ''claude'') ''SESSION_TOOL_UNSUPPORTED'' 409) (\<lambda>_.
         act_bind (check (s_status s \<in> set attachable_statuses \<and> s_tmux s \<noteq> None \<and> s_tmux s \<noteq> Some []) ''SESSION_NOT_ATTACHABLE'' 409) (\<lambda>_.
         act_bind (check (s_backend s \<in> set attachment_backends) ''SESSION_RUNTIME_UNSUPPORTED'' 409) (\<lambda>_.
         act_bind (query (\<lambda>d. find_row ta_id (s_tool_account_id s) (t_accounts d))) (\<lambda>account.
         act_bind (check (case account of None \<Rightarrow> False | Some a \<Rightarrow> ta_user_id a = s_user_id s \<and> ta_tool_type a = ''claude'' \<and> ta_status a = ''active'')
           ''SESSION_ACCOUNT_UNAVAILABLE'' 409) (\<lambda>_.
         ret s)))))))"

text \<open>The live leases of the session: those past their end expire, one that is not refuses the admission.\<close>

definition expire_lease :: "time \<Rightarrow> attachment_lease \<Rightarrow> attachment_lease" where
  "expire_lease now l = l\<lparr>al_status := Lease_expired, al_invalidated := Some now, al_reason := Some ''lease_expired''\<rparr>"

fun expire_leases :: "time \<Rightarrow> attachment_lease list \<Rightarrow> unit aact" where
  "expire_leases now [] = ret ()"
| "expire_leases now (l # ls) =
     (if al_expires l \<le> now
      then act_bind (modify (\<lambda>d. Inr (d\<lparr>t_leases := put_row al_id (expire_lease now l) (t_leases d)\<rparr>))) (\<lambda>_. expire_leases now ls)
      else attachment_error ''ATTACHMENT_LEASE_CONCURRENT'' 409)"

definition new_lease :: "time \<Rightarrow> uuid \<Rightarrow> uuid \<Rightarrow> node_row \<Rightarrow> session_row \<Rightarrow> device_row \<Rightarrow> key_row \<Rightarrow> attachment_lease" where
  "new_lease now scope i node s x k =
     \<lparr>al_id = i, al_session_id = s_id s, al_user_id = s_user_id s, al_node_id = n_id node, al_device_id = ud_id x, al_key_id = k_id k,
      al_backend = s_backend s, al_resource = s_runtime_resource s, al_scope = scope, al_status = Issued,
      al_expires = now + seconds lease_seconds, al_max_bytes = max_attachment_bytes, al_max_entries = max_attachment_entries,
      al_invalidated = None, al_reason = None, al_cleaned = None\<rparr>"

definition require_attached_device :: "uuid \<Rightarrow> uuid \<Rightarrow> device_row aact" where
  "require_attached_device i user_id =
     act_bind (query (\<lambda>d. attached_device d i user_id)) (\<lambda>device.
     case device of None \<Rightarrow> attachment_error ''DEVICE_REVOKED'' 403 | Some x \<Rightarrow> ret x)"

definition require_attached_key :: "uuid \<Rightarrow> uuid \<Rightarrow> key_row aact" where
  "require_attached_key i device_id =
     act_bind (query (\<lambda>d. attached_key d i device_id)) (\<lambda>key.
     case key of None \<Rightarrow> attachment_error ''SSH_KEY_REVOKED'' 403 | Some k \<Rightarrow> ret k)"

text \<open>The checks of an admission, up to the leases of the session.\<close>

definition admission_subject :: "node_row \<Rightarrow> admission_request \<Rightarrow> (session_row \<times> device_row \<times> key_row) aact" where
  "admission_subject node q =
     act_bind (check (list_all (\<lambda>i. i \<noteq> 0) [aq_node_id q, aq_session_id q, aq_device_id q, aq_key_id q, aq_lease_id q])
       ''ATTACHMENT_INVALID_IDENTITY'' 422) (\<lambda>_.
     act_bind (check (n_id node = aq_node_id q) ''ATTACHMENT_NODE_MISMATCH'' 403) (\<lambda>_.
     act_bind (check (transfer_capable node) ''NODE_SESSION_ATTACHMENT_TRANSFER_UNSUPPORTED'' 409) (\<lambda>_.
     act_bind (check (n_status node \<in> {''healthy'', ''degraded''}) ''NODE_UNAVAILABLE'' 409) (\<lambda>_.
     act_bind (require_runtime node (aq_session_id q)) (\<lambda>s.
     act_bind (require_attached_device (aq_device_id q) (s_user_id s)) (\<lambda>x.
     act_bind (require_attached_key (aq_key_id q) (ud_id x)) (\<lambda>k.
     act_bind (query (\<lambda>d. find_row al_id (aq_lease_id q) (t_leases d))) (\<lambda>existing.
     act_bind (check (existing = None) ''ATTACHMENT_LEASE_REPLAY'' 409) (\<lambda>_.
     ret (s, x, k))))))))))"

definition at_admit :: "time \<Rightarrow> uuid \<Rightarrow> node_row \<Rightarrow> admission_request \<Rightarrow> attachment_lease aact" where
  "at_admit now scope node q =
     act_bind (admission_subject node q) (\<lambda>(s, x, k).
     act_bind (query (\<lambda>d. filter (\<lambda>l. al_session_id l = s_id s \<and> lease_live l) (t_leases d))) (\<lambda>leases.
     act_bind (expire_leases now leases) (\<lambda>_.
     let l = new_lease now scope (aq_lease_id q) node s x k in
     act_bind (modify (\<lambda>d. Inr (d\<lparr>t_leases := t_leases d @ [l],
       t_audits := t_audits d @ [\<lparr>au_actor = None, au_action = ''node_api.attach_exact_attachment_admit'', au_target = al_id l\<rparr>]\<rparr>))) (\<lambda>_.
     act_bind commit (\<lambda>_.
     ret l)))))"

section \<open>Cleanup\<close>

definition identity_current :: "attachment_db \<Rightarrow> attachment_lease \<Rightarrow> bool" where
  "identity_current d l \<longleftrightarrow>
     (case find_row s_id (al_session_id l) (t_sessions d) of
        None \<Rightarrow> False
      | Some s \<Rightarrow> s_user_id s = al_user_id l \<and> s_node_id s = al_node_id l \<and> s_tool_type s = ''claude'' \<and>
          s_status s \<in> set attachable_statuses \<and> s_backend s = al_backend l) \<and>
     attached_device d (al_device_id l) (al_user_id l) \<noteq> None \<and> attached_key d (al_key_id l) (al_device_id l) \<noteq> None"

definition receipt_data :: "cleanup_receipt \<Rightarrow> cleanup_request" where
  "receipt_data r =
     \<lparr>cq_node_id = rc_node_id r, cq_session_id = rc_session_id r, cq_device_id = rc_device_id r, cq_key_id = rc_key_id r,
      cq_lease_id = rc_lease_id r, cq_status = rc_status r, cq_batches = rc_batches r, cq_receipt_id = rc_receipt_id r\<rparr>"

definition cleanup_status :: "receipt_status \<Rightarrow> lease_status" where
  "cleanup_status st = (case st of Cleaned \<Rightarrow> Lease_cleaned | Cleaning \<Rightarrow> Cleanup_pending | Unknown \<Rightarrow> Cleanup_pending | Refused \<Rightarrow> Lease_rejected)"

definition settle_lease :: "time \<Rightarrow> receipt_status \<Rightarrow> attachment_lease \<Rightarrow> attachment_lease" where
  "settle_lease now st l =
     (let l1 = l\<lparr>al_status := cleanup_status st\<rparr> in
      if st = Cleaned then l1\<lparr>al_cleaned := Some now\<rparr>
      else if st = Refused then
        l1\<lparr>al_invalidated := (case al_invalidated l of None \<Rightarrow> Some now | Some t \<Rightarrow> Some t),
           al_reason := (case al_reason l of None \<Rightarrow> Some ''cleanup_rejected'' | Some [] \<Rightarrow> Some ''cleanup_rejected'' | Some t \<Rightarrow> Some t)\<rparr>
      else l1)"

definition settled_status :: "time \<Rightarrow> attachment_db \<Rightarrow> attachment_lease \<Rightarrow> receipt_status \<Rightarrow> receipt_status" where
  "settled_status now d l st = (if lease_live l \<and> identity_current d l \<and> now < al_expires l then st else Refused)"

definition settled_receipt :: "time \<Rightarrow> cleanup_request \<Rightarrow> attachment_lease \<Rightarrow> receipt_status \<Rightarrow> cleanup_receipt option \<Rightarrow> cleanup_receipt" where
  "settled_receipt now q l st known =
     (case known of
        None \<Rightarrow> \<lparr>rc_lease_id = al_id l, rc_receipt_id = cq_receipt_id q, rc_session_id = al_session_id l, rc_node_id = al_node_id l,
          rc_device_id = al_device_id l, rc_key_id = al_key_id l, rc_status = st, rc_batches = cq_batches q, rc_observed = now\<rparr>
      | Some r \<Rightarrow> r\<lparr>rc_status := st, rc_batches := cq_batches q, rc_observed := now\<rparr>)"

definition settle :: "time \<Rightarrow> cleanup_request \<Rightarrow> attachment_lease \<Rightarrow> cleanup_receipt option \<Rightarrow> cleanup_request aact" where
  "settle now q l known =
     act_bind (query (\<lambda>d. settled_status now d l (cq_status q))) (\<lambda>st.
     let r = settled_receipt now q l st known in
     act_bind (modify (\<lambda>d. store_receipts (case known of None \<Rightarrow> t_receipts d @ [r] | Some _ \<Rightarrow> put_row rc_lease_id r (t_receipts d))
       (d\<lparr>t_leases := put_row al_id (settle_lease now st l) (t_leases d)\<rparr>))) (\<lambda>_.
     act_bind commit (\<lambda>_.
     ret (receipt_data r))))"

definition at_cleanup :: "time \<Rightarrow> node_row \<Rightarrow> cleanup_request \<Rightarrow> cleanup_request aact" where
  "at_cleanup now node q =
     act_bind (check (list_all (\<lambda>i. i \<noteq> 0) [cq_node_id q, cq_session_id q, cq_device_id q, cq_key_id q, cq_lease_id q, cq_receipt_id q])
       ''ATTACHMENT_INVALID_IDENTITY'' 422) (\<lambda>_.
     act_bind (check (n_id node = cq_node_id q) ''ATTACHMENT_NODE_MISMATCH'' 403) (\<lambda>_.
     act_bind (query (\<lambda>d. find_row al_id (cq_lease_id q) (t_leases d))) (\<lambda>lease.
     case lease of None \<Rightarrow> attachment_error ''ATTACHMENT_LEASE_NOT_FOUND'' 404 | Some l \<Rightarrow>
     act_bind (check (al_node_id l = n_id node \<and> al_session_id l = cq_session_id q \<and> al_device_id l = cq_device_id q \<and> al_key_id l = cq_key_id q)
       ''ATTACHMENT_IDENTITY_CHANGED'' 403) (\<lambda>_.
     act_bind (query (\<lambda>d. find_row rc_lease_id (al_id l) (t_receipts d))) (\<lambda>known.
     case known of
       None \<Rightarrow> settle now q l None
     | Some r \<Rightarrow>
         act_bind (check (rc_receipt_id r = cq_receipt_id q) ''ATTACHMENT_RECEIPT_REPLAY'' 409) (\<lambda>_.
         if rc_status r = Cleaned \<or> rc_status r = cq_status q then act_bind commit (\<lambda>_. ret (receipt_data r))
         else
           act_bind (check (rc_status r \<in> {Cleaning, Unknown} \<and> cq_status q = Cleaned) ''ATTACHMENT_RECEIPT_CONFLICT'' 409) (\<lambda>_.
           settle now q l (Some r))))))))"

section \<open>Invalidation\<close>

definition revoke_lease :: "time \<Rightarrow> string \<Rightarrow> attachment_lease \<Rightarrow> attachment_lease" where
  "revoke_lease now reason l = l\<lparr>al_status := Lease_revoked, al_invalidated := Some now, al_reason := Some (take 64 reason)\<rparr>"

definition at_invalidate :: "time \<Rightarrow> (attachment_lease \<Rightarrow> bool) \<Rightarrow> string \<Rightarrow> nat aact" where
  "at_invalidate now scope reason =
     act_bind (query (\<lambda>d. filter (\<lambda>l. scope l \<and> lease_live l) (t_leases d))) (\<lambda>leases.
     act_bind (modify (\<lambda>d. Inr (d\<lparr>t_leases := fold (\<lambda>l. put_row al_id (revoke_lease now reason l)) leases (t_leases d)\<rparr>))) (\<lambda>_.
     ret (length leases)))"

definition invalidate_for_session :: "time \<Rightarrow> uuid \<Rightarrow> string \<Rightarrow> nat aact" where
  "invalidate_for_session now i = at_invalidate now (\<lambda>l. al_session_id l = i)"

definition invalidate_for_device :: "time \<Rightarrow> uuid \<Rightarrow> string \<Rightarrow> nat aact" where
  "invalidate_for_device now i = at_invalidate now (\<lambda>l. al_device_id l = i)"

end
