(* ===== verification/Attachment_Life.thy ===== *)
theory Attachment_Life
  imports Attachments
begin

text \<open>
  What holds of the attachment leases: who is admitted, what a receipt does, and the life of a lease in every
  sequence of requests while the other services change sessions, devices and keys.
\<close>

section \<open>Admission\<close>

definition admittable :: "attachment_db \<Rightarrow> node_row \<Rightarrow> admission_request \<Rightarrow> session_row \<Rightarrow> device_row \<Rightarrow> key_row \<Rightarrow> bool" where
  "admittable d node q s x k \<longleftrightarrow>
     0 \<notin> {aq_node_id q, aq_session_id q, aq_device_id q, aq_key_id q, aq_lease_id q} \<and> n_id node = aq_node_id q \<and>
     transfer_capable node \<and> n_status node \<in> {''healthy'', ''degraded''} \<and>
     find_row s_id (aq_session_id q) (t_sessions d) = Some s \<and> s_node_id s = n_id node \<and> s_tool_type s = ''claude'' \<and>
     s_status s \<in> set attachable_statuses \<and> s_tmux s \<noteq> None \<and> s_tmux s \<noteq> Some [] \<and> s_backend s \<in> set attachment_backends \<and>
     (\<exists>a. find_row ta_id (s_tool_account_id s) (t_accounts d) = Some a \<and> ta_user_id a = s_user_id s \<and> ta_tool_type a = ''claude'' \<and>
       ta_status a = ''active'') \<and>
     attached_device d (aq_device_id q) (s_user_id s) = Some x \<and> attached_key d (aq_key_id q) (ud_id x) = Some k \<and>
     find_row al_id (aq_lease_id q) (t_leases d) = None"

lemma admittable_session: "admittable d node q s x k \<Longrightarrow> find_row s_id (aq_session_id q) (t_sessions d) = Some s"
  unfolding admittable_def by blast

lemma decides_runtime:
  "decides w (require_runtime node i) (\<lambda>s. find_row s_id i (t_sessions (w_db w)) = Some s \<and> s_node_id s = n_id node \<and>
     s_tool_type s = ''claude'' \<and> s_status s \<in> set attachable_statuses \<and> s_tmux s \<noteq> None \<and> s_tmux s \<noteq> Some [] \<and>
     s_backend s \<in> set attachment_backends \<and>
     (\<exists>a. find_row ta_id (s_tool_account_id s) (t_accounts (w_db w)) = Some a \<and> ta_user_id a = s_user_id s \<and>
       ta_tool_type a = ''claude'' \<and> ta_status a = ''active''))"
proof (cases "find_row s_id i (t_sessions (w_db w))")
  case None
  then show ?thesis
    by (simp add: decides_def require_runtime_def act_bind_def query_def attachment_error_def api_error_def throw_def)
next
  case (Some s)
  have "decides w (act_bind (check (s_node_id s = n_id node) ''ATTACHMENT_NODE_MISMATCH'' 403) (\<lambda>_.
         act_bind (check (s_tool_type s = ''claude'') ''SESSION_TOOL_UNSUPPORTED'' 409) (\<lambda>_.
         act_bind (check (s_status s \<in> set attachable_statuses \<and> s_tmux s \<noteq> None \<and> s_tmux s \<noteq> Some []) ''SESSION_NOT_ATTACHABLE'' 409) (\<lambda>_.
         act_bind (check (s_backend s \<in> set attachment_backends) ''SESSION_RUNTIME_UNSUPPORTED'' 409) (\<lambda>_.
         act_bind (query (\<lambda>d. find_row ta_id (s_tool_account_id s) (t_accounts d))) (\<lambda>account.
         act_bind (check (case account of None \<Rightarrow> False | Some a \<Rightarrow> ta_user_id a = s_user_id s \<and> ta_tool_type a = ''claude'' \<and> ta_status a = ''active'')
           ''SESSION_ACCOUNT_UNAVAILABLE'' 409) (\<lambda>_.
         ret s)))))))
    (\<lambda>s'. s' = s \<and> s_node_id s = n_id node \<and> s_tool_type s = ''claude'' \<and>
      s_status s \<in> set attachable_statuses \<and> s_tmux s \<noteq> None \<and> s_tmux s \<noteq> Some [] \<and> s_backend s \<in> set attachment_backends \<and>
     (\<exists>a. find_row ta_id (s_tool_account_id s) (t_accounts (w_db w)) = Some a \<and> ta_user_id a = s_user_id s \<and>
       ta_tool_type a = ''claude'' \<and> ta_status a = ''active''))"
    by (rule decides_cong [OF decides_bind [OF decides_check decides_bind [OF decides_check decides_bind [OF decides_check
        decides_bind [OF decides_check decides_bind [OF decides_query decides_bind [OF decides_check decides_ret]]]]]]])
      (auto split: option.splits)
  then show ?thesis using Some by (auto simp: decides_def require_runtime_def act_bind_def [of "query _"] query_def)
qed

lemma decides_attached_device:
  "decides w (require_attached_device i u) (\<lambda>x. attached_device (w_db w) i u = Some x)"
  by (auto simp: decides_def require_attached_device_def act_bind_def query_def attachment_error_def api_error_def throw_def ret_def
      split: option.splits)

lemma decides_attached_key:
  "decides w (require_attached_key i u) (\<lambda>x. attached_key (w_db w) i u = Some x)"
  by (auto simp: decides_def require_attached_key_def act_bind_def query_def attachment_error_def api_error_def throw_def ret_def
      split: option.splits)

lemma decides_subject:
  "decides w (admission_subject node q) (\<lambda>(s, x, k). admittable (w_db w) node q s x k)"
  unfolding admission_subject_def
  by (rule decides_cong [OF decides_bind [OF decides_check decides_bind [OF decides_check decides_bind [OF decides_check
      decides_bind [OF decides_check decides_bind [OF decides_runtime decides_bind [OF decides_attached_device
      decides_bind [OF decides_attached_key decides_bind [OF decides_query decides_bind [OF decides_check decides_ret]]]]]]]]]])
    (auto simp: admittable_def)

lemma expire_leases_due:
  "(\<And>l. l \<in> set ls \<Longrightarrow> al_expires l \<le> now) \<Longrightarrow> expire_leases now ls w =
     (w\<lparr>w_db := (w_db w)\<lparr>t_leases := fold (\<lambda>l. put_row al_id (expire_lease now l)) ls (t_leases (w_db w))\<rparr>\<rparr>, Inr ())"
  by (induction ls arbitrary: w) (auto simp: ret_def act_bind_def modify_def)

lemma expire_leases_concurrent:
  "l \<in> set ls \<Longrightarrow> now < al_expires l \<Longrightarrow>
   \<exists>w'. expire_leases now ls w = (w', Inl (ApiError ''ATTACHMENT_LEASE_CONCURRENT'' 409)) \<and> w_saved w' = w_saved w"
proof (induction ls arbitrary: w)
  case (Cons a ls)
  show ?case
  proof (cases "al_expires a \<le> now")
    case True
    then have "l \<in> set ls" using Cons.prems by auto
    from Cons.IH [OF this Cons.prems(2), of "w\<lparr>w_db := (w_db w)\<lparr>t_leases := put_row al_id (expire_lease now a) (t_leases (w_db w))\<rparr>\<rparr>"] True
    show ?thesis by (auto simp: act_bind_def modify_def)
  qed (simp add: attachment_error_def api_error_def throw_def)
qed simp

text \<open>What an admission leaves.\<close>

definition holds_back :: "session_row \<Rightarrow> attachment_lease \<Rightarrow> bool" where
  "holds_back s l \<longleftrightarrow> al_session_id l = s_id s \<and> lease_live l"

lemma holds_back_filter: "filter (\<lambda>l. al_session_id l = s_id s \<and> lease_live l) ls = filter (holds_back s) ls"
  by (simp add: holds_back_def cong: filter_cong)

lemma expire_lease_id: "al_id (expire_lease now l) = al_id l"
  by (simp add: expire_lease_def)

definition admitted :: "time \<Rightarrow> session_row \<Rightarrow> attachment_lease \<Rightarrow> attachment_db \<Rightarrow> attachment_db" where
  "admitted now s l d =
     d\<lparr>t_leases := map (\<lambda>l. if holds_back s l then expire_lease now l else l) (t_leases d) @ [l],
       t_audits := t_audits d @ [\<lparr>au_actor = None, au_action = ''node_api.attach_exact_attachment_admit'', au_target = al_id l\<rparr>]\<rparr>"

lemma admission_cases:
  assumes "distinct (map al_id (t_leases (w_saved w)))"
  obtains (granted) s x k where "admittable (w_saved w) node q s x k"
      "\<forall>l \<in> set (t_leases (w_saved w)). holds_back s l \<longrightarrow> al_expires l \<le> now"
      "run_request (at_admit now scope node q) w =
        (let d = admitted now s (new_lease now scope (aq_lease_id q) node s x k) (w_saved w) in
         (w\<lparr>w_db := d, w_saved := d\<rparr>, Inr (new_lease now scope (aq_lease_id q) node s x k)))"
    | (refused) c n where "\<And>s x k. admittable (w_saved w) node q s x k \<Longrightarrow>
        \<exists>l \<in> set (t_leases (w_saved w)). holds_back s l \<and> now < al_expires l"
      "run_request (at_admit now scope node q) w = (w\<lparr>w_db := w_saved w\<rparr>, Inl (ApiError c n))"
proof -
  let ?w = "w\<lparr>w_db := w_saved w\<rparr>" and ?ls = "\<lambda>s. filter (\<lambda>l. al_session_id l = s_id s \<and> lease_live l) (t_leases (w_saved w))"
  from decides_subject [of ?w node q] consider
      (subject) s x k where "admission_subject node q ?w = (?w, Inr (s, x, k))" "admittable (w_saved w) node q s x k"
    | (none) c n where "\<And>s x k. \<not> admittable (w_saved w) node q s x k" "admission_subject node q ?w = (?w, Inl (ApiError c n))"
    unfolding decides_def by auto
  then show thesis
  proof cases
    case subject
    have only: "s' = s" if "admittable (w_saved w) node q s' x' k'" for s' x' k'
      using admittable_session [OF that] admittable_session [OF subject(2)] by simp
    show thesis
    proof (cases "\<forall>l \<in> set (t_leases (w_saved w)). holds_back s l \<longrightarrow> al_expires l \<le> now")
      case True
      then have "expire_leases now (?ls s) ?w =
          (?w\<lparr>w_db := (w_saved w)\<lparr>t_leases := map (\<lambda>l. if holds_back s l then expire_lease now l else l) (t_leases (w_saved w))\<rparr>\<rparr>, Inr ())"
        using fold_put_filter [where key = al_id and f = "expire_lease now" and P = "holds_back s", OF assms expire_lease_id]
        by (subst expire_leases_due) (auto simp: holds_back_filter)
      then have run: "run_request (at_admit now scope node q) w =
        (let d = admitted now s (new_lease now scope (aq_lease_id q) node s x k) (w_saved w) in
         (w\<lparr>w_db := d, w_saved := d\<rparr>, Inr (new_lease now scope (aq_lease_id q) node s x k)))"
        by (simp add: run_request_def at_admit_def act_bind_def subject(1) query_def modify_def commit_def ret_def Let_def admitted_def)
      show thesis by (rule granted [OF subject(2) True run])
    next
      case False
      then obtain l where l: "l \<in> set (?ls s)" "now < al_expires l" by (auto simp: holds_back_def not_le)
      from expire_leases_concurrent [OF this, of ?w] obtain w' where
        "expire_leases now (?ls s) ?w = (w', Inl (ApiError ''ATTACHMENT_LEASE_CONCURRENT'' 409))" "w_saved w' = w_saved w" by auto
      then have "run_request (at_admit now scope node q) w = (w'\<lparr>w_db := w_saved w\<rparr>, Inl (ApiError ''ATTACHMENT_LEASE_CONCURRENT'' 409))"
        by (simp add: run_request_def at_admit_def act_bind_def subject(1) query_def)
      moreover have "w'\<lparr>w_db := w_saved w\<rparr> = w\<lparr>w_db := w_saved w\<rparr>" using \<open>w_saved w' = w_saved w\<close> by (cases w, cases w') simp
      moreover have "\<exists>l \<in> set (t_leases (w_saved w)). holds_back s' l \<and> now < al_expires l" if "admittable (w_saved w) node q s' x' k'" for s' x' k'
        using only [OF that] l by (auto simp: holds_back_def)
      ultimately show thesis using refused by metis
    qed
  next
    case none
    then show thesis by (intro refused [of c n]) (auto simp: at_admit_def run_request_def act_bind_def)
  qed
qed

section \<open>Cleanup\<close>

definition same_parties :: "cleanup_request \<Rightarrow> attachment_lease \<Rightarrow> bool" where
  "same_parties q l \<longleftrightarrow> al_id l = cq_lease_id q \<and> al_node_id l = cq_node_id q \<and> al_session_id l = cq_session_id q \<and>
     al_device_id l = cq_device_id q \<and> al_key_id l = cq_key_id q"

definition cleanup_gate :: "node_row \<Rightarrow> cleanup_request \<Rightarrow> attachment_lease \<Rightarrow> bool" where
  "cleanup_gate node q l \<longleftrightarrow> 0 \<notin> {cq_node_id q, cq_session_id q, cq_device_id q, cq_key_id q, cq_lease_id q, cq_receipt_id q} \<and>
     n_id node = cq_node_id q \<and> same_parties q l"

definition settled_db :: "time \<Rightarrow> cleanup_request \<Rightarrow> attachment_lease \<Rightarrow> attachment_db \<Rightarrow> attachment_db" where
  "settled_db now q l d =
     (let known = find_row rc_lease_id (al_id l) (t_receipts d); st = settled_status now d l (cq_status q); r = settled_receipt now q l st known in
      d\<lparr>t_leases := put_row al_id (settle_lease now st l) (t_leases d),
        t_receipts := (case known of None \<Rightarrow> t_receipts d @ [r] | Some _ \<Rightarrow> put_row rc_lease_id r (t_receipts d))\<rparr>)"

definition may_settle :: "cleanup_request \<Rightarrow> cleanup_receipt option \<Rightarrow> bool" where
  "may_settle q known \<longleftrightarrow> (case known of None \<Rightarrow> True | Some r \<Rightarrow> rc_receipt_id r = cq_receipt_id q \<and> rc_status r \<in> {Cleaning, Unknown} \<and> cq_status q = Cleaned)"

lemma settle_run:
  assumes "w_db w = d" "w_saved w = d" "known = find_row rc_lease_id (al_id l) (t_receipts d)"
  shows "settle now q l known w =
    (if receipts_admissible (t_receipts (settled_db now q l d))
     then (w\<lparr>w_db := settled_db now q l d, w_saved := settled_db now q l d\<rparr>,
       Inr (receipt_data (settled_receipt now q l (settled_status now d l (cq_status q)) known)))
     else (w, Inl integrity_error))"
  using assms
  by (cases known) (auto simp: settle_def settled_db_def act_bind_def query_def modify_def store_receipts_def commit_def ret_def Let_def)

text \<open>A report of a cleanup: it repeats what is on record, settles the lease, or is refused and changes nothing.\<close>

lemma cleanup_run:
  assumes "find_row al_id (cq_lease_id q) (t_leases (w_saved w)) = Some l" "cleanup_gate node q l"
  shows "run_request (at_cleanup now node q) w =
    (case find_row rc_lease_id (al_id l) (t_receipts (w_saved w)) of
       None \<Rightarrow> run_request (settle now q l None) w
     | Some r \<Rightarrow> if rc_receipt_id r \<noteq> cq_receipt_id q then (w\<lparr>w_db := w_saved w\<rparr>, Inl (ApiError ''ATTACHMENT_RECEIPT_REPLAY'' 409))
         else if rc_status r = Cleaned \<or> rc_status r = cq_status q then (w\<lparr>w_db := w_saved w\<rparr>, Inr (receipt_data r))
         else if rc_status r \<in> {Cleaning, Unknown} \<and> cq_status q = Cleaned then run_request (settle now q l (Some r)) w
         else (w\<lparr>w_db := w_saved w\<rparr>, Inl (ApiError ''ATTACHMENT_RECEIPT_CONFLICT'' 409)))"
  using assms
  by (cases "find_row rc_lease_id (al_id l) (t_receipts (w_saved w))")
    (auto simp: cleanup_gate_def same_parties_def at_cleanup_def run_request_def act_simps attachment_error_def api_error_def throw_def ret_def)

lemma cleanup_stopped:
  assumes "\<And>l. find_row al_id (cq_lease_id q) (t_leases (w_saved w)) = Some l \<Longrightarrow> \<not> cleanup_gate node q l"
  shows "\<exists>e. run_request (at_cleanup now node q) w = (w\<lparr>w_db := w_saved w\<rparr>, Inl e)"
proof (cases "find_row al_id (cq_lease_id q) (t_leases (w_saved w))")
  case None
  then show ?thesis by (simp add: at_cleanup_def run_request_def act_simps attachment_error_def api_error_def throw_def)
next
  case (Some l)
  then show ?thesis using assms [OF Some] find_row_Some [OF Some]
    by (auto simp: at_cleanup_def run_request_def act_simps cleanup_gate_def same_parties_def)
qed

lemma cleanup_cases:
  obtains (repeated) l r where "find_row al_id (cq_lease_id q) (t_leases (w_saved w)) = Some l" "cleanup_gate node q l"
      "find_row rc_lease_id (al_id l) (t_receipts (w_saved w)) = Some r" "rc_receipt_id r = cq_receipt_id q"
      "rc_status r = Cleaned \<or> rc_status r = cq_status q"
      "run_request (at_cleanup now node q) w = (w\<lparr>w_db := w_saved w\<rparr>, Inr (receipt_data r))"
    | (settled) l where "find_row al_id (cq_lease_id q) (t_leases (w_saved w)) = Some l" "cleanup_gate node q l"
      "may_settle q (find_row rc_lease_id (al_id l) (t_receipts (w_saved w)))"
      "receipts_admissible (t_receipts (settled_db now q l (w_saved w)))"
      "run_request (at_cleanup now node q) w =
        (let d = settled_db now q l (w_saved w) in (w\<lparr>w_db := d, w_saved := d\<rparr>,
          Inr (receipt_data (settled_receipt now q l (settled_status now (w_saved w) l (cq_status q))
            (find_row rc_lease_id (al_id l) (t_receipts (w_saved w)))))))"
    | (refused) e where "run_request (at_cleanup now node q) w = (w\<lparr>w_db := w_saved w\<rparr>, Inl e)"
proof (cases "\<exists>l. find_row al_id (cq_lease_id q) (t_leases (w_saved w)) = Some l \<and> cleanup_gate node q l")
  case False
  then show thesis using cleanup_stopped [of q w node now] refused by blast
next
  case True
  then obtain l where l: "find_row al_id (cq_lease_id q) (t_leases (w_saved w)) = Some l" "cleanup_gate node q l" by blast
  let ?known = "find_row rc_lease_id (al_id l) (t_receipts (w_saved w))" and ?d = "settled_db now q l (w_saved w)"
  note run = cleanup_run [OF l, of now]
  have settle: "run_request (settle now q l ?known) w =
    (if receipts_admissible (t_receipts ?d)
     then (w\<lparr>w_db := ?d, w_saved := ?d\<rparr>, Inr (receipt_data (settled_receipt now q l (settled_status now (w_saved w) l (cq_status q)) ?known)))
     else (w\<lparr>w_db := w_saved w\<rparr>, Inl integrity_error))"
    by (simp add: run_request_def settle_run [where d = "w_saved w"])
  show thesis
  proof (cases "may_settle q ?known \<and> (\<forall>r. ?known = Some r \<longrightarrow> rc_status r \<noteq> cq_status q)")
    case True
    then have e: "run_request (at_cleanup now node q) w = run_request (settle now q l ?known) w"
      unfolding run by (auto simp: may_settle_def split: option.splits)
    show thesis
    proof (cases "receipts_admissible (t_receipts ?d)")
      case ok: True
      show thesis by (rule settled [OF l conjunct1 [OF True] ok]) (simp add: e settle ok Let_def)
    next
      case False
      then show thesis using e settle by (intro refused [of integrity_error]) simp
    qed
  next
    case False
    then obtain r where r: "?known = Some r" by (auto simp: may_settle_def split: option.splits)
    show thesis
    proof (cases "rc_receipt_id r = cq_receipt_id q \<and> (rc_status r = Cleaned \<or> rc_status r = cq_status q)")
      case True
      then show thesis using r run by (intro repeated [OF l r]) auto
    next
      case no: False
      then have "\<exists>e. run_request (at_cleanup now node q) w = (w\<lparr>w_db := w_saved w\<rparr>, Inl e)"
        using False r unfolding run by (auto simp: may_settle_def)
      then show thesis using refused by blast
    qed
  qed
qed

section \<open>Invalidation\<close>

lemma revoke_lease_id: "al_id (revoke_lease now reason l) = al_id l"
  by (simp add: revoke_lease_def)

lemma invalidate_run:
  assumes "distinct (map al_id (t_leases (w_db w)))"
  shows "at_invalidate now P reason w =
    (w\<lparr>w_db := (w_db w)\<lparr>t_leases := map (\<lambda>l. if P l \<and> lease_live l then revoke_lease now reason l else l) (t_leases (w_db w))\<rparr>\<rparr>,
     Inr (length (filter (\<lambda>l. P l \<and> lease_live l) (t_leases (w_db w)))))"
  using fold_put_filter [where key = al_id and f = "revoke_lease now reason" and P = "\<lambda>l. P l \<and> lease_live l", OF assms revoke_lease_id]
  by (simp add: at_invalidate_def act_simps modify_step ret_def)

section \<open>Runs\<close>

text \<open>
  The services that end a session or revoke a device invalidate the leases in their own transaction; what they
  do to their tables is a step of the others.
\<close>

datatype attachment_request =
    Ask_lease uuid node_row admission_request
  | Report_cleanup node_row cleanup_request
  | End_session uuid string
  | Revoke_device uuid string

fun attachment_step :: "time \<Rightarrow> attachment_request \<Rightarrow> unit aact" where
  "attachment_step now (Ask_lease scope node q) = discard (at_admit now scope node q)"
| "attachment_step now (Report_cleanup node q) = discard (at_cleanup now node q)"
| "attachment_step now (End_session i reason) = act_bind (invalidate_for_session now i reason) (\<lambda>_. commit)"
| "attachment_step now (Revoke_device i reason) = act_bind (invalidate_for_device now i reason) (\<lambda>_. commit)"

definition attachment_serve :: "time \<Rightarrow> attachment_request \<Rightarrow> attachment_world \<Rightarrow> attachment_world" where
  "attachment_serve now q w = fst (run_request (attachment_step now q) w)"

inductive attachment_evolves :: "attachment_world \<Rightarrow> attachment_world \<Rightarrow> bool" for w where
  Same: "attachment_evolves w w"
| Serve: "attachment_evolves w w' \<Longrightarrow> attachment_evolves w (attachment_serve now q w')"
| Others: "attachment_evolves w w' \<Longrightarrow> t_leases d = t_leases (w_saved w') \<Longrightarrow> t_receipts d = t_receipts (w_saved w') \<Longrightarrow>
    attachment_evolves w (w'\<lparr>w_db := d, w_saved := d\<rparr>)"

definition lease_shape :: "attachment_lease \<Rightarrow> bool" where
  "lease_shape l \<longleftrightarrow> (al_cleaned l \<noteq> None \<longleftrightarrow> al_status l = Lease_cleaned) \<and>
     (al_invalidated l \<noteq> None \<longleftrightarrow> al_status l \<in> {Lease_expired, Lease_revoked, Lease_rejected})"

text \<open>The receipt on record and the status of its lease.\<close>

definition receipt_fits :: "cleanup_receipt option \<Rightarrow> attachment_lease \<Rightarrow> bool" where
  "receipt_fits known l \<longleftrightarrow>
     (case known of
        None \<Rightarrow> al_status l \<in> {Issued, Lease_expired, Lease_revoked}
      | Some r \<Rightarrow> rc_session_id r = al_session_id l \<and> rc_node_id r = al_node_id l \<and> rc_device_id r = al_device_id l \<and> rc_key_id r = al_key_id l \<and>
          (case rc_status r of
             Cleaned \<Rightarrow> al_status l = Lease_cleaned
           | Refused \<Rightarrow> al_status l = Lease_rejected
           | _ \<Rightarrow> al_status l \<in> {Cleanup_pending, Lease_expired, Lease_revoked}))"

definition attachments_ok :: "attachment_db \<Rightarrow> bool" where
  "attachments_ok d \<longleftrightarrow> distinct (map al_id (t_leases d)) \<and> unique_index lease_live al_session_id (t_leases d) \<and>
     receipts_admissible (t_receipts d) \<and> rc_lease_id ` set (t_receipts d) \<subseteq> al_id ` set (t_leases d) \<and>
     (\<forall>l \<in> set (t_leases d). lease_shape l \<and> receipt_fits (find_row rc_lease_id (al_id l) (t_receipts d)) l)"

text \<open>How a lease goes on: who it is for and until when never changes, and what is over is over.\<close>

definition lease_follows :: "attachment_lease \<Rightarrow> attachment_lease \<Rightarrow> bool" where
  "lease_follows l l' \<longleftrightarrow>
     (al_id l', al_session_id l', al_user_id l', al_node_id l', al_device_id l', al_key_id l', al_backend l', al_resource l', al_scope l',
      al_expires l', al_max_bytes l', al_max_entries l') =
     (al_id l, al_session_id l, al_user_id l, al_node_id l, al_device_id l, al_key_id l, al_backend l, al_resource l, al_scope l,
      al_expires l, al_max_bytes l, al_max_entries l) \<and>
     (\<not> lease_live l \<longrightarrow> \<not> lease_live l' \<and> al_invalidated l' = al_invalidated l \<and> al_cleaned l' = al_cleaned l) \<and>
     (al_status l \<in> {Lease_cleaned, Lease_rejected} \<longrightarrow> al_status l' = al_status l)"

lemma lease_follows_refl: "lease_follows l l"
  by (simp add: lease_follows_def)

lemma lease_follows_trans: "lease_follows l l' \<Longrightarrow> lease_follows l' l'' \<Longrightarrow> lease_follows l l''"
  unfolding lease_follows_def by auto

lemma change_follows:
  assumes "lease_shape l" "lease_live l"
  shows "lease_follows l (expire_lease now l)" "lease_shape (expire_lease now l)" "\<not> lease_live (expire_lease now l)"
    "lease_follows l (revoke_lease now reason l)" "lease_shape (revoke_lease now reason l)" "\<not> lease_live (revoke_lease now reason l)"
  using assms by (auto simp: lease_follows_def lease_shape_def expire_lease_def revoke_lease_def lease_live_def live_lease_states_def)

lemma change_fits:
  assumes "receipt_fits known l" "lease_live l"
  shows "receipt_fits known (expire_lease now l)" "receipt_fits known (revoke_lease now reason l)"
  using assms
  by (auto simp: receipt_fits_def expire_lease_def revoke_lease_def lease_live_def live_lease_states_def split: option.splits receipt_status.splits)

section \<open>The requests keep them\<close>

definition attachment_moves :: "attachment_db \<Rightarrow> attachment_db \<Rightarrow> bool" where
  "attachment_moves d d' \<longleftrightarrow> attachments_ok d' \<and> (\<forall>l \<in> set (t_leases d). \<exists>l' \<in> set (t_leases d'). lease_follows l l')"

lemma attachments_okD:
  assumes "attachments_ok d"
  shows "distinct (map al_id (t_leases d))" "unique_index lease_live al_session_id (t_leases d)" "receipts_admissible (t_receipts d)"
    "l \<in> set (t_leases d) \<Longrightarrow> lease_shape l" "l \<in> set (t_leases d) \<Longrightarrow> receipt_fits (find_row rc_lease_id (al_id l) (t_receipts d)) l"
    "rc_lease_id ` set (t_receipts d) \<subseteq> al_id ` set (t_leases d)"
  using assms by (auto simp: attachments_ok_def)

text \<open>Each lease is changed where it stands.\<close>

lemma moves_map:
  assumes "attachments_ok d" "t_leases d' = map f (t_leases d)" "receipts_admissible (t_receipts d')"
    "rc_lease_id ` set (t_receipts d') \<subseteq> al_id ` set (t_leases d)"
    "\<And>l. al_id (f l) = al_id l" "\<And>l. al_session_id (f l) = al_session_id l"
    "\<And>l. l \<in> set (t_leases d) \<Longrightarrow> lease_follows l (f l) \<and> lease_shape (f l) \<and> (lease_live (f l) \<longrightarrow> lease_live l) \<and>
       receipt_fits (find_row rc_lease_id (al_id l) (t_receipts d')) (f l)"
  shows "attachment_moves d d'"
proof -
  have "unique_index lease_live al_session_id (map f (t_leases d))"
    by (rule unique_index_map [where P = lease_live]) (use assms(6,7) attachments_okD(2) [OF assms(1)] in auto)
  then have "attachments_ok d'"
    using assms(2-5,7) attachments_okD(1) [OF assms(1)] by (simp add: attachments_ok_def image_image comp_def)
  then show ?thesis using assms(2,7) by (auto simp: attachment_moves_def)
qed

lemma moves_change:
  assumes "attachments_ok d"
    "\<And>l. f l = l \<or> lease_live l \<and> (\<exists>now. f l = expire_lease now l) \<or> lease_live l \<and> (\<exists>now reason. f l = revoke_lease now reason l)"
  shows "attachment_moves d (d\<lparr>t_leases := map f (t_leases d)\<rparr>)"
proof -
  have keys: "al_id (f l) = al_id l \<and> al_session_id (f l) = al_session_id l" for l
    using assms(2) [of l] by (auto simp: expire_lease_def revoke_lease_def)
  have step: "lease_follows l (f l) \<and> lease_shape (f l) \<and> (lease_live (f l) \<longrightarrow> lease_live l) \<and>
      receipt_fits (find_row rc_lease_id (al_id l) (t_receipts d)) (f l)" if "l \<in> set (t_leases d)" for l
    using assms(2) [of l] attachments_okD(4,5) [OF assms(1) that] change_follows change_fits lease_follows_refl by metis
  show ?thesis
    by (rule moves_map [OF assms(1), where f = f]) (use attachments_okD(3,6) [OF assms(1)] keys step in auto)
qed

lemma attachments_ok_same: "attachments_ok d \<Longrightarrow> t_leases d' = t_leases d \<Longrightarrow> t_receipts d' = t_receipts d \<Longrightarrow> attachments_ok d'"
  by (simp add: attachments_ok_def)

lemma moves_refl: "attachments_ok d \<Longrightarrow> attachment_moves d d"
  by (auto simp: attachment_moves_def intro: lease_follows_refl)

lemma moves_trans: "attachment_moves d d' \<Longrightarrow> attachment_moves d' d'' \<Longrightarrow> attachment_moves d d''"
  unfolding attachment_moves_def by (meson lease_follows_trans)

text \<open>The new lease of an admission.\<close>

lemma moves_admitted:
  assumes "attachments_ok d" "admittable d node q s x k"
  shows "attachment_moves d (admitted now s (new_lease now scope (aq_lease_id q) node s x k) d)"
proof -
  let ?l = "new_lease now scope (aq_lease_id q) node s x k" and ?f = "\<lambda>l. if holds_back s l then expire_lease now l else l"
  let ?d = "d\<lparr>t_leases := map ?f (t_leases d)\<rparr>"
  have m: "attachment_moves d ?d" by (rule moves_change [OF assms(1)]) (auto simp: holds_back_def)
  then have ok: "attachments_ok ?d" by (simp add: attachment_moves_def)
  have new: "al_id ?l \<notin> al_id ` set (t_leases d)" using assms(2) by (simp add: admittable_def find_row_None new_lease_def)
  then have fresh: "al_id ?l \<notin> al_id ` set (t_leases ?d)" by (auto simp: image_image expire_lease_id if_distrib cong: if_cong)
  have alone: "\<not> lease_live l" if "l \<in> set (t_leases ?d)" "al_session_id l = al_session_id ?l" for l
    using that by (auto simp: holds_back_def new_lease_def expire_lease_def lease_live_def live_lease_states_def split: if_splits)
  have none: "find_row rc_lease_id (al_id ?l) (t_receipts d) = None"
    using new attachments_okD(6) [OF assms(1)] by (auto simp: find_row_None)
  have "attachments_ok (d\<lparr>t_leases := map ?f (t_leases d) @ [?l]\<rparr>)"
    using ok fresh alone none
    by (auto simp: attachments_ok_def unique_index_append lease_shape_def receipt_fits_def new_lease_def)
  then show ?thesis using m by (auto simp: attachment_moves_def admitted_def attachments_ok_def)
qed

text \<open>A report of a cleanup changes the lease and its receipt together.\<close>

lemma settle_lease_keys:
  "al_id (settle_lease now st l) = al_id l" "al_session_id (settle_lease now st l) = al_session_id l"
  by (simp_all add: settle_lease_def Let_def)

lemma settled_status_cases:
  "settled_status now d l st = Refused \<or> lease_live l \<and> settled_status now d l st = st"
  by (simp add: settled_status_def)

lemma settle_follows:
  assumes "lease_shape l" "receipt_fits known l" "known = None \<or> (\<exists>r. known = Some r \<and> rc_status r \<in> {Cleaning, Unknown})"
    "st = Refused \<or> lease_live l"
  shows "lease_follows l (settle_lease now st l)" "lease_shape (settle_lease now st l)"
    "lease_live (settle_lease now st l) \<Longrightarrow> lease_live l"
    "receipt_fits (Some (settled_receipt now q l st known)) (settle_lease now st l)"
proof -
  have open_l: "al_status l \<notin> {Lease_cleaned, Lease_rejected}"
    using assms(2,3) by (auto simp: receipt_fits_def split: option.splits receipt_status.splits)
  then have inv: "al_invalidated l \<noteq> None \<longleftrightarrow> al_status l \<in> {Lease_expired, Lease_revoked}" "al_cleaned l = None"
    using assms(1) by (auto simp: lease_shape_def)
  show "lease_follows l (settle_lease now st l)" "lease_shape (settle_lease now st l)" "lease_live (settle_lease now st l) \<Longrightarrow> lease_live l"
    using assms(4) open_l inv
    by (cases st; cases "al_status l"; force simp: lease_follows_def lease_shape_def settle_lease_def cleanup_status_def Let_def lease_live_def
        live_lease_states_def split: option.splits)+
  show "receipt_fits (Some (settled_receipt now q l st known)) (settle_lease now st l)"
    using assms(2) by (cases st; cases known) (auto simp: receipt_fits_def settled_receipt_def settle_lease_def cleanup_status_def Let_def)
qed

lemma put_row_as_map:
  assumes "distinct (map key rows)" "l \<in> set rows"
  shows "put_row key (f l) rows = (if key (f l) = key l then map (\<lambda>x. if key x = key l then f x else x) rows else put_row key (f l) rows)"
proof -
  have "x = l" if "x \<in> set rows" "key x = key l" for x using that assms by (auto simp: distinct_map dest: inj_onD)
  then show ?thesis by (auto simp: put_row_def)
qed

lemma settled_receipt_lease: "rc_lease_id (settled_receipt now q l st None) = al_id l"
  by (simp add: settled_receipt_def)

lemma settled_receipts:
  "find_row rc_lease_id i (t_receipts (settled_db now q l d)) =
    (if i = al_id l then Some (settled_receipt now q l (settled_status now d l (cq_status q)) (find_row rc_lease_id (al_id l) (t_receipts d)))
     else find_row rc_lease_id i (t_receipts d))"
proof (cases "find_row rc_lease_id (al_id l) (t_receipts d)")
  case None
  then have "t_receipts (settled_db now q l d) = t_receipts d @ [settled_receipt now q l (settled_status now d l (cq_status q)) None]"
    by (simp add: settled_db_def Let_def)
  then show ?thesis using None settled_receipt_lease
    by (cases "find_row rc_lease_id i (t_receipts d)") (auto simp: find_row_append find_row_single)
next
  case (Some r)
  then have "r \<in> set (t_receipts d)" "rc_lease_id r = al_id l" using find_row_Some by fastforce+
  then show ?thesis using Some by (auto simp: settled_db_def Let_def find_put_row settled_receipt_def)
qed

lemma moves_settled:
  assumes "attachments_ok d" "find_row al_id i (t_leases d) = Some l"
    "may_settle q (find_row rc_lease_id (al_id l) (t_receipts d))" "receipts_admissible (t_receipts (settled_db now q l d))"
  shows "attachment_moves d (settled_db now q l d)"
proof -
  let ?known = "find_row rc_lease_id (al_id l) (t_receipts d)" and ?st = "settled_status now d l (cq_status q)"
  let ?f = "\<lambda>x. if al_id x = al_id l then settle_lease now ?st x else x" and ?d = "settled_db now q l d"
  have l: "l \<in> set (t_leases d)" using find_row_Some [OF assms(2)] by blast
  have same: "x = l" if "x \<in> set (t_leases d)" "al_id x = al_id l" for x
    using that l attachments_okD(1) [OF assms(1)] by (auto simp: distinct_map dest: inj_onD)
  have leases: "t_leases ?d = map ?f (t_leases d)"
    using put_row_as_map [where key = al_id and f = "settle_lease now ?st", OF attachments_okD(1) [OF assms(1)] l]
    by (simp add: settled_db_def Let_def settle_lease_keys)
  have "?known = None \<or> (\<exists>r. ?known = Some r \<and> rc_status r \<in> {Cleaning, Unknown})"
    using assms(3) by (auto simp: may_settle_def split: option.splits)
  note s = settle_follows [OF attachments_okD(4,5) [OF assms(1) l] this, of ?st now]
  have st: "?st = Refused \<or> lease_live l" using settled_status_cases by blast
  have each: "lease_follows x (?f x) \<and> lease_shape (?f x) \<and> (lease_live (?f x) \<longrightarrow> lease_live x) \<and>
      receipt_fits (find_row rc_lease_id (al_id x) (t_receipts ?d)) (?f x)" if x: "x \<in> set (t_leases d)" for x
  proof (cases "al_id x = al_id l")
    case True
    then show ?thesis using s [OF st] same [OF x True] by (simp add: settled_receipts)
  next
    case False
    then show ?thesis using attachments_okD(4,5) [OF assms(1) x] by (simp add: settled_receipts lease_follows_refl)
  qed
  have "rc_lease_id ` set (t_receipts ?d) \<subseteq> insert (al_id l) (rc_lease_id ` set (t_receipts d))"
  proof
    fix j assume "j \<in> rc_lease_id ` set (t_receipts ?d)"
    then have "find_row rc_lease_id j (t_receipts ?d) \<noteq> None" by (simp add: find_row_None)
    then show "j \<in> insert (al_id l) (rc_lease_id ` set (t_receipts d))"
      by (auto simp: settled_receipts split: if_splits dest: find_row_Some)
  qed
  then have ids: "rc_lease_id ` set (t_receipts ?d) \<subseteq> al_id ` set (t_leases d)" using attachments_okD(6) [OF assms(1)] l by auto
  show ?thesis
    by (rule moves_map [where f = ?f, OF assms(1) leases assms(4) ids _ _ each]) (auto simp: settle_lease_keys)
qed

end
