(* ===== verification/Attachment_Contract.thy ===== *)
theory Attachment_Contract
  imports Attachment_Life
begin

text \<open>The properties of the attachment leases, each with a run that shows it at work.\<close>

section \<open>Sequences of requests\<close>

lemma invalidate_serve:
  assumes "attachments_ok (w_saved w)"
  shows "attachment_moves (w_saved w) (w_saved (fst (run_request (act_bind (at_invalidate now P reason) (\<lambda>_. commit)) w)))"
proof -
  let ?d = "w_saved w" and ?f = "\<lambda>l. if P l \<and> lease_live l then revoke_lease now reason l else l"
  have "at_invalidate now P reason (w\<lparr>w_db := ?d\<rparr>) =
    (w\<lparr>w_db := ?d\<lparr>t_leases := map ?f (t_leases ?d)\<rparr>\<rparr>, Inr (length (filter (\<lambda>l. P l \<and> lease_live l) (t_leases ?d))))"
    using invalidate_run [of "w\<lparr>w_db := ?d\<rparr>" now P reason] attachments_okD(1) [OF assms] by simp
  then have "w_saved (fst (run_request (act_bind (at_invalidate now P reason) (\<lambda>_. commit)) w)) = ?d\<lparr>t_leases := map ?f (t_leases ?d)\<rparr>"
    by (simp add: run_request_def act_bind_Inr commit_def)
  moreover have "attachment_moves ?d (?d\<lparr>t_leases := map ?f (t_leases ?d)\<rparr>)"
    by (rule moves_change [OF assms]) auto
  ultimately show ?thesis by simp
qed

lemma serve_moves:
  assumes "attachments_ok (w_saved w)"
  shows "attachment_moves (w_saved w) (w_saved (attachment_serve now q w))"
proof (cases q)
  case (Ask_lease scope node r)
  show ?thesis
  proof (cases rule: admission_cases [OF attachments_okD(1) [OF assms], where node = node and q = r and now = now and scope = scope])
    case (1 s x k)
    then show ?thesis using moves_admitted [OF assms 1(1), of now scope]
      by (simp add: attachment_serve_def Ask_lease run_discard Let_def)
  next
    case (2 c n)
    then show ?thesis using moves_refl [OF assms] by (simp add: attachment_serve_def Ask_lease run_discard)
  qed
next
  case (Report_cleanup node r)
  show ?thesis
  proof (cases rule: cleanup_cases [where q = r and w = w and node = node and now = now])
    case (repeated l x)
    then show ?thesis using moves_refl [OF assms] by (simp add: attachment_serve_def Report_cleanup run_discard)
  next
    case (settled l)
    then show ?thesis using moves_settled [OF assms settled(1,3,4)]
      by (simp add: attachment_serve_def Report_cleanup run_discard Let_def)
  next
    case (refused e)
    then show ?thesis using moves_refl [OF assms] by (simp add: attachment_serve_def Report_cleanup run_discard)
  qed
qed (use invalidate_serve [OF assms] in \<open>simp_all add: attachment_serve_def invalidate_for_session_def invalidate_for_device_def\<close>)

lemma evolves_moves: "attachment_evolves w w' \<Longrightarrow> attachments_ok (w_saved w) \<Longrightarrow> attachment_moves (w_saved w) (w_saved w')"
proof (induction rule: attachment_evolves.induct)
  case (Serve w' now q)
  then show ?case by (meson attachment_moves_def moves_trans serve_moves)
next
  case (Others w' d)
  then have m: "attachment_moves (w_saved w) (w_saved w')" by blast
  then have "attachment_moves (w_saved w') d"
    using attachments_ok_same [OF _ Others(2,3)] Others(2) lease_follows_refl by (auto simp: attachment_moves_def)
  then show ?case using moves_trans [OF m] by simp
qed (simp add: moves_refl)

text \<open>The lease of a request, before and after.\<close>

lemma invalidate_lease:
  assumes "distinct (map al_id (t_leases (w_saved w)))"
  shows "find_row al_id i (t_leases (w_saved (fst (run_request (act_bind (at_invalidate now P reason) (\<lambda>_. commit)) w)))) =
    map_option (\<lambda>l. if P l \<and> lease_live l then revoke_lease now reason l else l) (find_row al_id i (t_leases (w_saved w)))"
  using invalidate_run [of "w\<lparr>w_db := w_saved w\<rparr>" now P reason] assms
  by (simp add: run_request_def act_bind_Inr commit_def find_row_map revoke_lease_id)

lemma admitted_lease:
  assumes "find_row al_id i (t_leases d) = Some l"
  shows "find_row al_id i (t_leases (admitted now s new d)) = Some (if holds_back s l then expire_lease now l else l)"
  using assms by (simp add: admitted_def find_row_append find_row_map expire_lease_id)

lemma settled_lease:
  "find_row al_id i (t_leases (settled_db now q l d)) =
    (if i = al_id l \<and> find_row al_id i (t_leases d) \<noteq> None then Some (settle_lease now (settled_status now d l (cq_status q)) l)
     else find_row al_id i (t_leases d))"
  by (simp add: settled_db_def Let_def find_put_row settle_lease_keys)

lemma settle_cleans:
  "al_status (settle_lease now (settled_status now d l st) l) = Lease_cleaned \<longleftrightarrow>
    st = Cleaned \<and> lease_live l \<and> now < al_expires l \<and> identity_current d l"
  by (cases st) (auto simp: settle_lease_def settled_status_def cleanup_status_def Let_def)

section \<open>A small installation\<close>

definition ax_node :: node_row where
  "ax_node = \<lparr>n_id = 6, n_status = ''healthy'', n_policy = [],
     n_capabilities = [(lit ''session_attachment_transfer'', JObject [(lit ''supported'', JBool True), (lit ''protocol_version'', JInt 1)])],
     n_wireguard_ip = None, n_ssh_user = None, n_ssh_port = None\<rparr>"

definition ax_session :: session_row where
  "ax_session = \<lparr>s_id = 4, s_user_id = 1, s_node_id = 6, s_status = ''running'', s_tool_type = ''claude'', s_runtime_resource = None,
     s_tmux = Some [116], s_device_protocol = None, s_tool_account_id = 5, s_backend = lit ''native'', s_workspace_id = 8, s_updated = 0\<rparr>"

definition ax_db :: attachment_db where
  "ax_db = \<lparr>t_sessions = [ax_session], t_accounts = [\<lparr>ta_id = 5, ta_user_id = 1, ta_tool_type = ''claude'', ta_status = ''active''\<rparr>],
     t_devices = [\<lparr>ud_id = 2, ud_user_id = 1, ud_name = [], ud_platform = ''macos'', ud_status = ''active''\<rparr>],
     t_keys = [\<lparr>k_id = 3, k_device_id = 2, k_status = ''active'', k_created = 0\<rparr>], t_leases = [], t_receipts = [], t_audits = []\<rparr>"

definition ax_world :: attachment_world where "ax_world = \<lparr>w_db = ax_db, w_saved = ax_db\<rparr>"

definition ax_ask :: "uuid \<Rightarrow> admission_request" where
  "ax_ask i = \<lparr>aq_node_id = 6, aq_session_id = 4, aq_device_id = 2, aq_key_id = 3, aq_lease_id = i\<rparr>"

definition ax_report :: "receipt_status \<Rightarrow> cleanup_request" where
  "ax_report st = \<lparr>cq_node_id = 6, cq_session_id = 4, cq_device_id = 2, cq_key_id = 3, cq_lease_id = 50, cq_status = st, cq_batches = 1,
     cq_receipt_id = 70\<rparr>"

definition ax_leased :: attachment_world where "ax_leased = attachment_serve 1000 (Ask_lease 60 ax_node (ax_ask 50)) ax_world"

definition ax_lease :: attachment_lease where "ax_lease = new_lease 1000 60 50 ax_node ax_session (hd (t_devices ax_db)) (hd (t_keys ax_db))"

lemma ax_leases: "t_leases (w_saved ax_leased) = [ax_lease]" "t_receipts (w_saved ax_leased) = []" "w_db ax_leased = w_saved ax_leased"
  "lease_live ax_lease" "al_id ax_lease = 50" "al_session_id ax_lease = 4" "al_status ax_lease = Issued"
  by code_simp+

lemma ax_ok: "attachments_ok (w_saved ax_world)"
  by (simp add: ax_world_def ax_db_def attachments_ok_def unique_index_def receipts_admissible_def)

lemma ax_leased_run: "attachment_evolves ax_world ax_leased"
  unfolding ax_leased_def by (rule attachment_evolves.Serve [OF attachment_evolves.Same])

lemma ax_leased_ok: "attachments_ok (w_saved ax_leased)"
  using evolves_moves [OF ax_leased_run ax_ok] by (simp add: attachment_moves_def)

section \<open>Properties\<close>

text \<open>
  C17. A node gets a lease exactly when it may act for the session, the device and the key of its request and every live
  lease of the session has run out. The lease is new, ends after five minutes and takes over from those, which expire; a
  refusal changes nothing.
\<close>

theorem attachment_admission_exact:
  assumes "attachments_ok (w_saved w)"
  shows "if \<exists>s x k. admittable (w_saved w) node q s x k \<and> (\<forall>l \<in> set (t_leases (w_saved w)). holds_back s l \<longrightarrow> al_expires l \<le> now)
    then \<exists>s x k. admittable (w_saved w) node q s x k \<and> run_request (at_admit now scope node q) w =
      (let l = new_lease now scope (aq_lease_id q) node s x k; d = admitted now s l (w_saved w) in (w\<lparr>w_db := d, w_saved := d\<rparr>, Inr l))
    else \<exists>c n. run_request (at_admit now scope node q) w = (w\<lparr>w_db := w_saved w\<rparr>, Inl (ApiError c n))"
proof (cases rule: admission_cases [OF attachments_okD(1) [OF assms], where node = node and q = q and now = now and scope = scope])
  case (1 s x k)
  then show ?thesis unfolding Let_def by metis
next
  case (2 c n)
  then show ?thesis by (meson not_le)
qed

theorem attachment_admission_exact_witness:
  "snd (run_request (at_admit 2000 60 ax_node (ax_ask 51)) ax_leased) = Inl (ApiError ''ATTACHMENT_LEASE_CONCURRENT'' 409)"
proof -
  have "snd (run_request (at_admit 2000 60 ax_node (ax_ask 51)) ax_leased) = Inl (ApiError ''ATTACHMENT_LEASE_CONCURRENT'' 409)" by code_simp
  then show ?thesis using attachment_admission_exact [OF ax_leased_ok, of ax_node "ax_ask 51" 2000 60] by (auto split: if_splits)
qed

text \<open>
  C15. In every sequence of requests, revocations and changes by other services there is at most one live lease per session,
  the receipts agree with their leases, and a lease keeps the parties, limits and end it was given; once it is not live, it
  never is again, and the instant it was invalidated or cleaned stays.
\<close>

theorem attachment_history:
  assumes "attachment_evolves w w'" "attachments_ok (w_saved w)" "find_row al_id i (t_leases (w_saved w)) = Some l"
  shows "attachments_ok (w_saved w') \<and> (\<exists>l'. find_row al_id i (t_leases (w_saved w')) = Some l' \<and> lease_follows l l')"
proof -
  have m: "attachment_moves (w_saved w) (w_saved w')" by (rule evolves_moves [OF assms(1,2)])
  have l: "l \<in> set (t_leases (w_saved w))" "al_id l = i" using find_row_Some [OF assms(3)] by auto
  then obtain l' where l': "l' \<in> set (t_leases (w_saved w'))" "lease_follows l l'" using m by (auto simp: attachment_moves_def)
  then have "al_id l' = i" using l(2) by (simp add: lease_follows_def)
  then have "find_row al_id i (t_leases (w_saved w')) = Some l'"
    using find_row_unique [OF _ l'(1)] m attachments_okD(1) [of "w_saved w'"] by (auto simp: attachment_moves_def)
  then show ?thesis using m l'(2) by (auto simp: attachment_moves_def)
qed

definition ax_revoked :: attachment_world where "ax_revoked = attachment_serve 2000 (Revoke_device 2 ''lost'') ax_leased"

lemma ax_revoked_run: "attachment_evolves ax_world ax_revoked"
  unfolding ax_revoked_def by (rule attachment_evolves.Serve [OF ax_leased_run])

theorem attachment_history_witness:
  "map_option al_invalidated (find_row al_id 50 (t_leases (w_saved (attachment_serve 3000 (Report_cleanup ax_node (ax_report Cleaned)) ax_revoked)))) =
     Some (Some 2000)"
proof -
  let ?l = "hd (t_leases (w_saved ax_revoked))"
  have l: "find_row al_id 50 (t_leases (w_saved ax_revoked)) = Some ?l" "\<not> lease_live ?l" "al_invalidated ?l = Some 2000" by code_simp+
  have ok: "attachments_ok (w_saved ax_revoked)" using evolves_moves [OF ax_revoked_run ax_ok] by (simp add: attachment_moves_def)
  show ?thesis
    using attachment_history [OF attachment_evolves.Serve [OF attachment_evolves.Same] ok l(1), of 3000 "Report_cleanup ax_node (ax_report Cleaned)"] l(2,3)
    by (auto simp: lease_follows_def)
qed

text \<open>What the lease names is stored: the session of its user on its node, live and in its backend, the device and the key.\<close>

definition identity_stored :: "attachment_db \<Rightarrow> attachment_lease \<Rightarrow> bool" where
  "identity_stored d l \<longleftrightarrow>
     (\<exists>s x k. find_row s_id (al_session_id l) (t_sessions d) = Some s \<and> s_user_id s = al_user_id l \<and> s_node_id s = al_node_id l \<and>
        s_tool_type s = ''claude'' \<and> (s_status s = ''running'' \<or> s_status s = ''active'') \<and> s_backend s = al_backend l \<and>
        x \<in> set (t_devices d) \<and> ud_id x = al_device_id l \<and> ud_user_id x = al_user_id l \<and> ud_status x = ''active'' \<and>
        k \<in> set (t_keys d) \<and> k_id k = al_key_id l \<and> k_device_id k = al_device_id l \<and> k_status k = ''active'')"

lemma identity_rows: "identity_current d l \<longleftrightarrow> identity_stored d l"
proof -
  have "attached_device d i u \<noteq> None \<longleftrightarrow> (\<exists>x \<in> set (t_devices d). ud_id x = i \<and> ud_user_id x = u \<and> ud_status x = ''active'')" for i u
    unfolding attached_device_def find_None_iff by blast
  moreover have "attached_key d i u \<noteq> None \<longleftrightarrow> (\<exists>k \<in> set (t_keys d). k_id k = i \<and> k_device_id k = u \<and> k_status k = ''active'')" for i u
    unfolding attached_key_def find_None_iff by blast
  ultimately show ?thesis unfolding identity_current_def identity_stored_def
    by (cases "find_row s_id (al_session_id l) (t_sessions d)") (auto simp: attachable_statuses_def)
qed

text \<open>
  C16. A lease becomes cleaned in one way only: its own node reports the cleanup for the same session, device and key while
  the lease is live and has not run out and session, device and key are still what they were.
\<close>

theorem attachment_cleaned_only_current:
  assumes "attachments_ok (w_saved w)" "find_row al_id i (t_leases (w_saved w)) = Some l" "al_status l \<noteq> Lease_cleaned"
    "find_row al_id i (t_leases (w_saved (attachment_serve now q w))) = Some l'" "al_status l' = Lease_cleaned"
  shows "\<exists>node r. q = Report_cleanup node r \<and> cleanup_gate node r l \<and> cq_status r = Cleaned \<and> lease_live l \<and> now < al_expires l \<and>
    identity_current (w_saved w) l \<and> identity_stored (w_saved w) l"
proof (cases q)
  case (Ask_lease scope node r)
  have False
  proof (cases rule: admission_cases [OF attachments_okD(1) [OF assms(1)], where node = node and q = r and now = now and scope = scope])
    case (1 s x k)
    then show ?thesis using assms(3-5) admitted_lease [OF assms(2)]
      by (auto simp: attachment_serve_def Ask_lease run_discard Let_def expire_lease_def split: if_splits)
  next
    case (2 c n)
    then show ?thesis using assms by (simp add: attachment_serve_def Ask_lease run_discard)
  qed
  then show ?thesis ..
next
  case (Report_cleanup node r)
  show ?thesis
  proof (cases rule: cleanup_cases [where q = r and w = w and node = node and now = now])
    case (settled k)
    then have l': "find_row al_id i (t_leases (settled_db now r k (w_saved w))) = Some l'"
      using assms(4) by (simp add: attachment_serve_def Report_cleanup run_discard Let_def)
    then have "i = al_id k" using assms(2,3,5) by (auto simp: settled_lease split: if_splits)
    then have "k = l" "l' = settle_lease now (settled_status now (w_saved w) l (cq_status r)) l"
      using l' assms(2) settled(1) find_row_Some [OF settled(1)] by (auto simp: settled_lease)
    then show ?thesis using assms(5) settled(2) Report_cleanup by (auto simp: settle_cleans identity_rows)
  qed (use assms(2-5) in \<open>auto simp: attachment_serve_def Report_cleanup run_discard\<close>)
next
  case (End_session s reason)
  then show ?thesis using assms(2-5) invalidate_lease [OF attachments_okD(1) [OF assms(1)]]
    by (auto simp: attachment_serve_def invalidate_for_session_def revoke_lease_def split: if_splits)
next
  case (Revoke_device x reason)
  then show ?thesis using assms(2-5) invalidate_lease [OF attachments_okD(1) [OF assms(1)]]
    by (auto simp: attachment_serve_def invalidate_for_device_def revoke_lease_def split: if_splits)
qed

definition ax_cleaned :: attachment_world where "ax_cleaned = attachment_serve 2000 (Report_cleanup ax_node (ax_report Cleaned)) ax_leased"

theorem attachment_cleaned_only_current_witness: "al_status ax_lease \<noteq> Lease_cleaned \<and> identity_current (w_saved ax_leased) ax_lease"
proof -
  let ?l' = "hd (t_leases (w_saved ax_cleaned))"
  have r: "find_row al_id 50 (t_leases (w_saved ax_cleaned)) = Some ?l'" "al_status ?l' = Lease_cleaned" by code_simp+
  have l: "find_row al_id 50 (t_leases (w_saved ax_leased)) = Some ax_lease" "al_status ax_lease \<noteq> Lease_cleaned"
    using ax_leases by (simp_all add: find_row_single)
  show ?thesis using attachment_cleaned_only_current [OF ax_leased_ok l r(1) [unfolded ax_cleaned_def] r(2) [unfolded ax_cleaned_def]] l(2) by simp
qed

text \<open>
  C18. A report repeated word for word is answered with the first answer when the receipt keeps its status or is clean. When
  the server has turned the report down, the repetition is a conflict: the node that lost the answer does not get it again.
\<close>

theorem cleanup_report_repeated:
  assumes "run_request (at_cleanup now node q) w = (w', Inr answer)"
  shows "run_request (at_cleanup now' node q) w' =
    (if cq_status answer = Cleaned \<or> cq_status answer = cq_status q then (w', Inr answer)
     else (w', Inl (ApiError ''ATTACHMENT_RECEIPT_CONFLICT'' 409)))"
proof (cases rule: cleanup_cases [where q = q and w = w and node = node and now = now])
  case (repeated l r)
  then have w': "w' = w\<lparr>w_db := w_saved w\<rparr>" "answer = receipt_data r" using assms by auto
  show ?thesis using repeated w' cleanup_run [of q w' l node now'] by (auto simp: receipt_data_def)
next
  case (settled l)
  let ?known = "find_row rc_lease_id (al_id l) (t_receipts (w_saved w))" and ?st = "settled_status now (w_saved w) l (cq_status q)"
  let ?l = "settle_lease now ?st l" and ?r = "settled_receipt now q l ?st ?known" and ?d = "settled_db now q l (w_saved w)"
  have w': "w' = w\<lparr>w_db := ?d, w_saved := ?d\<rparr>" "answer = receipt_data ?r" using assms settled(5) by (simp_all add: Let_def)
  have l: "al_id l = cq_lease_id q" using settled(2) by (simp add: cleanup_gate_def same_parties_def)
  have parties: "cleanup_gate node q ?l" using settled(2) by (auto simp: cleanup_gate_def same_parties_def settle_lease_def Let_def)
  have found: "find_row al_id (cq_lease_id q) (t_leases (w_saved w')) = Some ?l" using settled(1) l w'(1) by (simp add: settled_lease)
  have r: "find_row rc_lease_id (al_id ?l) (t_receipts (w_saved w')) = Some ?r" using w'(1) by (simp add: settled_receipts settle_lease_keys)
  have "rc_receipt_id ?r = cq_receipt_id q" "rc_status ?r = ?st"
    using settled(3) by (auto simp: settled_receipt_def may_settle_def split: option.splits)
  moreover have "cq_status answer = rc_status ?r" using w'(2) by (simp add: receipt_data_def)
  moreover have "?st = Refused \<or> ?st = cq_status q" by (simp add: settled_status_def)
  ultimately show ?thesis using cleanup_run [OF found parties, of now'] r w' by auto
next
  case (refused e)
  then show ?thesis using assms by simp
qed

text \<open>The report arrives after the device was revoked.\<close>

theorem cleanup_report_repeated_witness:
  "let p = run_request (at_cleanup 3000 ax_node (ax_report Cleaned)) ax_revoked in
    map_sum id cq_status (snd p) = Inr Refused \<and>
    snd (run_request (at_cleanup 4000 ax_node (ax_report Cleaned)) (fst p)) = Inl (ApiError ''ATTACHMENT_RECEIPT_CONFLICT'' 409)"
proof -
  let ?p = "run_request (at_cleanup 3000 ax_node (ax_report Cleaned)) ax_revoked"
  have a: "snd ?p = Inr ((ax_report Cleaned)\<lparr>cq_status := Refused\<rparr>)" by code_simp
  then have "?p = (fst ?p, Inr ((ax_report Cleaned)\<lparr>cq_status := Refused\<rparr>))" by (metis prod.collapse)
  from cleanup_report_repeated [OF this, of 4000] a show ?thesis by (simp add: Let_def) (simp add: ax_report_def)
qed

end
