(* ===== verification/Node_Capability.thy ===== *)
theory Node_Capability
  imports Rows
begin

text \<open>
  What a node may claim of itself: the capabilities of a heartbeat, brought into the form that the other services
  trust (\<open>_normalize_runtime_capabilities\<close> in \<open>services/nodes.py\<close>, \<open>services/session_lifecycle_capability.py\<close>,
  \<open>services/skills/runtime_capability.py\<close>), and the health that follows from them.
\<close>

section \<open>Dictionaries\<close>

type_synonym json_dict = "(pystr \<times> json) list"

definition json_get :: "json_dict \<Rightarrow> string \<Rightarrow> json option" where "json_get d k = map_of d (lit k)"

text \<open>\<open>d[k] = v\<close> and \<open>d.pop(k, None)\<close>\<close>

fun json_set :: "string \<Rightarrow> json \<Rightarrow> json_dict \<Rightarrow> json_dict" where
  "json_set k v [] = [(lit k, v)]"
| "json_set k v ((k', v') # d) = (if k' = lit k then (k', v) # d else (k', v') # json_set k v d)"

definition json_pop :: "string \<Rightarrow> json_dict \<Rightarrow> json_dict" where "json_pop k d = filter (\<lambda>(k', v). k' \<noteq> lit k) d"

definition json_is :: "json_dict \<Rightarrow> string \<Rightarrow> json \<Rightarrow> bool" where "json_is d k v \<longleftrightarrow> json_get d k = Some v"

section \<open>Capabilities\<close>

definition runtime_backends :: "string list" where "runtime_backends = [''native'', ''docker_sandbox'']"

text \<open>\<open>normalize_session_lifecycle\<close>\<close>

definition lifecycle_entry :: "json option \<Rightarrow> bool" where
  "lifecycle_entry v \<longleftrightarrow>
     (case v of
        Some (JObject e) \<Rightarrow> set (map fst e) = {lit ''supported'', lit ''protocol_version''} \<and> json_is e ''supported'' (JBool True) \<and>
          json_is e ''protocol_version'' (JInt 1)
      | _ \<Rightarrow> False)"

definition normalize_session_lifecycle :: "json \<Rightarrow> json_dict" where
  "normalize_session_lifecycle v =
     (case v of
        JObject d \<Rightarrow> map (\<lambda>b. (lit b, JObject [(lit ''supported'', JBool True), (lit ''protocol_version'', JInt 1)]))
          (filter (\<lambda>b. lifecycle_entry (json_get d b)) runtime_backends)
      | _ \<Rightarrow> [])"

text \<open>\<open>valid_backend_report\<close>, \<open>_normalize_backend\<close>, \<open>normalize_skill_capabilities\<close>\<close>

definition valid_backend_report :: "json option \<Rightarrow> bool" where
  "valid_backend_report v \<longleftrightarrow>
     (case v of
        Some (JObject r) \<Rightarrow> list_all (\<lambda>k. json_is r k (JInt 1)) [''protocol_version'', ''manifest_version''] \<and>
          list_all (\<lambda>k. json_is r k (JBool True)) [''writable_copies'', ''finalization'', ''recovery'']
      | _ \<Rightarrow> False)"

definition normalize_backend :: "json option \<Rightarrow> json" where
  "normalize_backend v =
     (case v of
        Some (JObject r) \<Rightarrow> JObject (if json_is r ''deployment_protocol_version'' (JInt 1) then r else json_pop ''deployment_protocol_version'' r)
      | _ \<Rightarrow> JNull)"

definition normalize_skill_capabilities :: "json \<Rightarrow> json_dict" where
  "normalize_skill_capabilities v =
     (case v of
        JObject d \<Rightarrow> map (\<lambda>b. (lit b, normalize_backend (json_get d b))) (filter (\<lambda>b. valid_backend_report (json_get d b)) runtime_backends)
      | _ \<Rightarrow> [])"

text \<open>The bridge of the browser: an old report without admission fields, a full one, or a broken one.\<close>

definition admission_fields :: "string list" where
  "admission_fields = [''configured_enabled'', ''effective_enabled'', ''node_execution_allowed'']"

definition clear_bridge :: "json_dict \<Rightarrow> json_dict" where
  "clear_bridge b = json_set ''backends'' (JArray []) (json_set ''protocol_versions'' (JArray []) (json_set ''supported'' (JBool False) b))"

definition json_bool :: "json option \<Rightarrow> bool option" where
  "json_bool v = (case v of Some (JBool b) \<Rightarrow> Some b | _ \<Rightarrow> None)"

definition normalize_bridge :: "bool \<Rightarrow> bool option \<Rightarrow> json_dict \<Rightarrow> json_dict" where
  "normalize_bridge gate configured_enabled b =
     (let present = filter (\<lambda>k. json_get b k \<noteq> None) admission_fields in
      if present \<noteq> [] \<and> present \<noteq> admission_fields then
        clear_bridge (json_set ''node_execution_allowed'' (JBool False) (json_set ''effective_enabled'' (JBool False) b))
      else if present = admission_fields then
        let configured = (case configured_enabled of Some c \<Rightarrow> Some c | None \<Rightarrow> json_bool (json_get b ''configured_enabled''));
            effective = json_bool (json_get b ''effective_enabled''); allowed = json_bool (json_get b ''node_execution_allowed'');
            valid = configured \<noteq> None \<and> effective \<noteq> None \<and> allowed \<noteq> None;
            c = valid \<and> configured = Some True; e = valid \<and> effective = Some True \<and> c; x = e \<and> allowed = Some True \<and> gate;
            b' = json_set ''node_execution_allowed'' (JBool x) (json_set ''effective_enabled'' (JBool e) (json_set ''configured_enabled'' (JBool c) b))
        in if x then b' else clear_bridge b'
      else if \<not> gate then clear_bridge b
      else b)"

definition valid_attach :: "json option \<Rightarrow> bool" where
  "valid_attach v \<longleftrightarrow> (case v of Some (JObject a) \<Rightarrow> json_is a ''supported'' (JBool True) \<and> json_is a ''protocol_version'' (JInt 1) | _ \<Rightarrow> False)"

definition normalize_field :: "string \<Rightarrow> (json \<Rightarrow> json) \<Rightarrow> json_dict \<Rightarrow> json_dict" where
  "normalize_field k f d = (case json_get d k of None \<Rightarrow> d | Some v \<Rightarrow> json_set k (f v) d)"

definition normalize_attach :: "string \<Rightarrow> json_dict \<Rightarrow> json_dict" where
  "normalize_attach k d = (if valid_attach (json_get d k) then d else json_pop k d)"

definition normalize_runtime_capabilities :: "bool \<Rightarrow> bool option \<Rightarrow> json \<Rightarrow> json_dict" where
  "normalize_runtime_capabilities gate configured_enabled v =
     (case v of
        JObject d \<Rightarrow>
          normalize_field ''ego_browser_bridge'' (\<lambda>b. case b of JObject p \<Rightarrow> JObject (normalize_bridge gate configured_enabled p) | _ \<Rightarrow> b)
            (normalize_field ''skill_manager'' (\<lambda>s. JObject (normalize_skill_capabilities s))
              (normalize_attach ''session_attach''
                (normalize_attach ''binding_attach''
                  (normalize_field ''session_lifecycle'' (\<lambda>s. JObject (normalize_session_lifecycle s)) d))))
      | _ \<Rightarrow> [])"

section \<open>Health\<close>

record runtime_report =
  rr_docker_ok :: bool
  rr_tmux_ok :: bool
  rr_active_sessions :: int
  rr_browser_sessions :: int
  rr_containers :: int
  rr_capabilities :: json_dict

definition runtime_is_healthy :: "pystr list \<Rightarrow> runtime_report \<Rightarrow> bool" where
  "runtime_is_healthy allowed r \<longleftrightarrow>
     rr_tmux_ok r \<and>
     (if rr_capabilities r = [] then rr_docker_ok r
      else case json_get (rr_capabilities r) ''backends'' of
          Some (JArray xs) \<Rightarrow> list_ex (\<lambda>x. case x of JString s \<Rightarrow> s \<in> set allowed | _ \<Rightarrow> False) xs
        | _ \<Rightarrow> False)"

section \<open>Lookups\<close>

lemma get_set: "json_get (json_set k v d) k' = (if k' = k then Some v else json_get d k')"
  by (induction k v d rule: json_set.induct) (auto simp: json_get_def)

lemma get_pop: "json_get (json_pop k d) k' = (if k' = k then None else json_get d k')"
  by (induction d) (auto simp: json_get_def json_pop_def split: if_splits)

lemma get_field: "json_get (normalize_field k f d) k' = (if k' = k then map_option f (json_get d k) else json_get d k')"
  by (simp add: normalize_field_def get_set split: option.splits)

lemma get_attach: "json_get (normalize_attach k d) k' = (if k' = k \<and> \<not> valid_attach (json_get d k) then None else json_get d k')"
  by (simp add: normalize_attach_def get_pop)

lemma get_clear:
  "json_get (clear_bridge b) k = (if k = ''supported'' then Some (JBool False) else if k \<in> {''protocol_versions'', ''backends''} then Some (JArray [])
    else json_get b k)"
  by (simp add: clear_bridge_def get_set)

lemma normalized_capability:
  "json_get (normalize_runtime_capabilities gate c (JObject d)) k =
    (if k = ''ego_browser_bridge'' then
       map_option (\<lambda>b. case b of JObject p \<Rightarrow> JObject (normalize_bridge gate c p) | _ \<Rightarrow> b) (json_get d k)
     else if k = ''skill_manager'' then map_option (\<lambda>s. JObject (normalize_skill_capabilities s)) (json_get d k)
     else if k = ''session_lifecycle'' then map_option (\<lambda>s. JObject (normalize_session_lifecycle s)) (json_get d k)
     else if k \<in> {''session_attach'', ''binding_attach''} \<and> \<not> valid_attach (json_get d k) then None
     else json_get d k)"
  by (auto simp: normalize_runtime_capabilities_def get_field get_attach)

lemma get_backends:
  "json_get (map (\<lambda>b. (lit b, f b)) (filter P bs)) k = (if k \<in> set bs \<and> P k then Some (f k) else None)"
  by (induction bs) (auto simp: json_get_def)

section \<open>What passes\<close>

definition bridge_runs :: "json_dict \<Rightarrow> bool" where "bridge_runs b \<longleftrightarrow> json_is b ''supported'' (JBool True)"

text \<open>A report that the server may believe: an old one, or one that agrees with the intent on record.\<close>

definition bridge_believed :: "bool \<Rightarrow> bool option \<Rightarrow> json_dict \<Rightarrow> bool" where
  "bridge_believed gate c b \<longleftrightarrow> gate \<and>
     (list_all (\<lambda>k. json_get b k = None) admission_fields \<or>
      json_is b ''effective_enabled'' (JBool True) \<and> json_is b ''node_execution_allowed'' (JBool True) \<and>
      (c = Some True \<and> json_get b ''configured_enabled'' \<noteq> None \<or> c = None \<and> json_is b ''configured_enabled'' (JBool True)))"

lemma bridge_believed_fields:
  "bridge_believed gate c b \<Longrightarrow> (\<forall>k \<in> set admission_fields. json_get b k = None) \<or> (\<forall>k \<in> set admission_fields. json_get b k \<noteq> None)"
  unfolding bridge_believed_def by (elim conjE disjE) (simp_all add: admission_fields_def json_is_def)

lemma json_bool_True: "json_bool v = Some True \<longleftrightarrow> v = Some (JBool True)" "json_bool v \<noteq> None \<longleftrightarrow> (\<exists>b. v = Some (JBool b))"
  "json_bool (Some (JBool b)) = Some b"
  by (auto simp: json_bool_def split: option.splits json.splits)

lemma bridge_runs_exact: "bridge_runs (normalize_bridge gate c b) \<longleftrightarrow> bridge_runs b \<and> bridge_believed gate c b"
proof -
  consider (old) "\<forall>k \<in> set admission_fields. json_get b k = None" | (full) "\<forall>k \<in> set admission_fields. json_get b k \<noteq> None"
    | (broken) k k' where "k \<in> set admission_fields" "json_get b k = None" "k' \<in> set admission_fields" "json_get b k' \<noteq> None" by blast
  then show ?thesis
  proof cases
    case old
    then have "filter (\<lambda>k. json_get b k \<noteq> None) admission_fields = []" by auto
    then show ?thesis using old
      by (auto simp: normalize_bridge_def admission_fields_def bridge_runs_def json_is_def get_clear bridge_believed_def)
  next
    case full
    then have "filter (\<lambda>k. json_get b k \<noteq> None) admission_fields = admission_fields" by (auto simp: filter_id_conv)
    then show ?thesis using full
      by (cases c) (auto simp: normalize_bridge_def Let_def bridge_runs_def json_is_def get_clear get_set bridge_believed_def json_bool_True
          admission_fields_def)
  next
    case broken
    let ?present = "filter (\<lambda>k. json_get b k \<noteq> None) admission_fields"
    have "k \<notin> set ?present" "k' \<in> set ?present" using broken by simp_all
    then have "?present \<noteq> admission_fields" "?present \<noteq> []" using broken(1) by (metis, metis empty_iff list.set(1))
    moreover have "\<not> bridge_believed gate c b" using bridge_believed_fields broken by metis
    ultimately show ?thesis by (simp add: normalize_bridge_def bridge_runs_def json_is_def get_clear Let_def)
  qed
qed

text \<open>What the node has said under a key.\<close>

definition node_claim :: "json \<Rightarrow> string \<Rightarrow> json option" where
  "node_claim v k = (case v of JObject d \<Rightarrow> json_get d k | _ \<Rightarrow> None)"

text \<open>An attach protocol that is supported in version one.\<close>

definition version_one :: "json \<Rightarrow> bool" where
  "version_one v \<longleftrightarrow> (\<exists>a. v = JObject a \<and> map_of a (lit ''supported'') = Some (JBool True) \<and>
     map_of a (lit ''protocol_version'') = Some (JInt 1))"

text \<open>A complete report on managed skills; a deployment protocol other than version one is left out.\<close>

definition skill_report :: "json \<Rightarrow> json \<Rightarrow> bool" where
  "skill_report x y \<longleftrightarrow> (\<exists>a. x = JObject a \<and> map_of a (lit ''protocol_version'') = Some (JInt 1) \<and>
     map_of a (lit ''manifest_version'') = Some (JInt 1) \<and> map_of a (lit ''writable_copies'') = Some (JBool True) \<and>
     map_of a (lit ''finalization'') = Some (JBool True) \<and> map_of a (lit ''recovery'') = Some (JBool True) \<and>
     y = JObject (if map_of a (lit ''deployment_protocol_version'') = Some (JInt 1) then a
       else filter (\<lambda>(k, _). k \<noteq> lit ''deployment_protocol_version'') a))"

definition stop_report :: "json \<Rightarrow> bool" where
  "stop_report x \<longleftrightarrow> (\<exists>a. x = JObject a \<and> fst ` set a = {lit ''supported'', lit ''protocol_version''} \<and>
     map_of a (lit ''supported'') = Some (JBool True) \<and> map_of a (lit ''protocol_version'') = Some (JInt 1))"

lemma node_claim_result:
  "json_get (normalize_runtime_capabilities gate c v) k =
    (if k = ''ego_browser_bridge'' then
       map_option (\<lambda>b. case b of JObject p \<Rightarrow> JObject (normalize_bridge gate c p) | _ \<Rightarrow> b) (node_claim v k)
     else if k = ''skill_manager'' then map_option (\<lambda>s. JObject (normalize_skill_capabilities s)) (node_claim v k)
     else if k = ''session_lifecycle'' then map_option (\<lambda>s. JObject (normalize_session_lifecycle s)) (node_claim v k)
     else if k \<in> {''session_attach'', ''binding_attach''} \<and> \<not> valid_attach (node_claim v k) then None
     else node_claim v k)"
proof (cases v)
  case (JObject d)
  then show ?thesis by (simp add: node_claim_def normalized_capability)
qed (simp_all add: node_claim_def normalize_runtime_capabilities_def json_get_def)

lemma attach_result:
  assumes "k = ''binding_attach'' \<or> k = ''session_attach''"
  shows "json_get (normalize_runtime_capabilities gate c v) k = Some x \<longleftrightarrow> node_claim v k = Some x \<and> version_one x"
proof -
  have valid: "valid_attach (Some x) \<longleftrightarrow> version_one x" for x
    by (cases x) (simp_all add: valid_attach_def version_one_def json_is_def json_get_def)
  have "json_get (normalize_runtime_capabilities gate c v) k = (if valid_attach (node_claim v k) then node_claim v k else None)"
    using assms by (rule disjE) (simp_all add: node_claim_result)
  then show ?thesis by (cases "node_claim v k") (auto simp: valid)
qed

lemma backends_in: "b \<in> set runtime_backends \<longleftrightarrow> b = ''native'' \<or> b = ''docker_sandbox''"
  by (simp add: runtime_backends_def)

lemma skills_result:
  "json_get (normalize_skill_capabilities s) backend = Some y \<longleftrightarrow>
     (\<exists>d x. s = JObject d \<and> (backend = ''native'' \<or> backend = ''docker_sandbox'') \<and> json_get d backend = Some x \<and> skill_report x y)"
proof (cases s)
  case (JObject d)
  have valid: "(valid_backend_report (Some x) \<and> normalize_backend (Some x) = y) \<longleftrightarrow> skill_report x y" for x
    by (cases x) (auto simp: valid_backend_report_def normalize_backend_def skill_report_def json_is_def json_get_def json_pop_def)
  have none: "\<not> valid_backend_report None" by (simp add: valid_backend_report_def)
  have get: "json_get (normalize_skill_capabilities s) backend = Some y \<longleftrightarrow>
      (backend = ''native'' \<or> backend = ''docker_sandbox'') \<and>
      (valid_backend_report (json_get d backend) \<and> normalize_backend (json_get d backend) = y)"
    unfolding JObject normalize_skill_capabilities_def json.case get_backends backends_in by simp
  show ?thesis
  proof (cases "json_get d backend")
    case None
    then show ?thesis unfolding get using none JObject by simp
  next
    case (Some x)
    show ?thesis unfolding get Some valid using JObject Some by simp
  qed
qed (simp_all add: normalize_skill_capabilities_def json_get_def)

lemma lifecycle_result:
  "json_get (normalize_session_lifecycle s) backend = Some y \<longleftrightarrow>
     (\<exists>d x. s = JObject d \<and> (backend = ''native'' \<or> backend = ''docker_sandbox'') \<and> json_get d backend = Some x \<and> stop_report x \<and>
       y = JObject [(lit ''supported'', JBool True), (lit ''protocol_version'', JInt 1)])"
proof (cases s)
  case (JObject d)
  have valid: "lifecycle_entry (Some x) \<longleftrightarrow> stop_report x" for x
    by (cases x) (simp_all add: lifecycle_entry_def stop_report_def json_is_def json_get_def)
  have none: "\<not> lifecycle_entry None" by (simp add: lifecycle_entry_def)
  have get: "json_get (normalize_session_lifecycle s) backend = Some y \<longleftrightarrow>
      (backend = ''native'' \<or> backend = ''docker_sandbox'') \<and> lifecycle_entry (json_get d backend) \<and>
      y = JObject [(lit ''supported'', JBool True), (lit ''protocol_version'', JInt 1)]"
    unfolding JObject normalize_session_lifecycle_def json.case get_backends backends_in by auto
  show ?thesis
  proof (cases "json_get d backend")
    case None
    then show ?thesis unfolding get using none JObject by simp
  next
    case (Some x)
    show ?thesis unfolding get Some valid using JObject Some by simp
  qed
qed (simp_all add: normalize_session_lifecycle_def json_get_def)

text \<open>A bridge that is not an object stays what it is.\<close>

lemma bridge_result:
  "(\<exists>b. json_get (normalize_runtime_capabilities gate c v) ''ego_browser_bridge'' = Some (JObject b) \<and> bridge_runs b) \<longleftrightarrow>
   (\<exists>b. node_claim v ''ego_browser_bridge'' = Some (JObject b) \<and> bridge_runs b \<and> bridge_believed gate c b)"
proof (cases "node_claim v ''ego_browser_bridge''")
  case None
  then show ?thesis by (simp add: node_claim_result)
next
  case (Some x)
  then have get: "json_get (normalize_runtime_capabilities gate c v) ''ego_browser_bridge'' =
      Some (case x of JObject p \<Rightarrow> JObject (normalize_bridge gate c p) | _ \<Rightarrow> x)"
    by (simp add: node_claim_result)
  show ?thesis unfolding get Some by (cases x) (simp_all add: bridge_runs_exact)
qed

text \<open>
  C14. What a node says of itself is kept only as far as it may be believed, whatever value it sends. The bridge
  runs after a heartbeat exactly when the node sends a bridge that says so, the server lets bridges run and the
  report is one of the old form or agrees with the intent of the administrator. Each of the two attach protocols,
  for bindings and for sessions, stays exactly when it is supported in version one. A managed skills report and a
  stop intent are there exactly for the two backends with a complete report, in their own form. Every other
  capability stays as it was sent.
\<close>

theorem node_claims_exact:
  fixes v gate c defines "r \<equiv> normalize_runtime_capabilities gate c v"
  shows "((\<exists>b. json_get r ''ego_browser_bridge'' = Some (JObject b) \<and> bridge_runs b) \<longleftrightarrow>
      (\<exists>b. node_claim v ''ego_browser_bridge'' = Some (JObject b) \<and> bridge_runs b \<and> bridge_believed gate c b)) \<and>
    (json_get r ''binding_attach'' = Some x \<longleftrightarrow> node_claim v ''binding_attach'' = Some x \<and> version_one x) \<and>
    (json_get r ''session_attach'' = Some x \<longleftrightarrow> node_claim v ''session_attach'' = Some x \<and> version_one x) \<and>
    ((\<exists>s. json_get r ''skill_manager'' = Some (JObject s) \<and> json_get s backend = Some y) \<longleftrightarrow>
      (\<exists>s z. node_claim v ''skill_manager'' = Some (JObject s) \<and> (backend = ''native'' \<or> backend = ''docker_sandbox'') \<and>
        json_get s backend = Some z \<and> skill_report z y)) \<and>
    ((\<exists>l. json_get r ''session_lifecycle'' = Some (JObject l) \<and> json_get l backend = Some y) \<longleftrightarrow>
      (\<exists>l z. node_claim v ''session_lifecycle'' = Some (JObject l) \<and> (backend = ''native'' \<or> backend = ''docker_sandbox'') \<and>
        json_get l backend = Some z \<and> stop_report z \<and>
        y = JObject [(lit ''supported'', JBool True), (lit ''protocol_version'', JInt 1)])) \<and>
    (k \<in> {''ego_browser_bridge'', ''binding_attach'', ''session_attach'', ''skill_manager'', ''session_lifecycle''} \<or>
      json_get r k = node_claim v k)"
proof (intro conjI)
  show "(\<exists>b. json_get r ''ego_browser_bridge'' = Some (JObject b) \<and> bridge_runs b) \<longleftrightarrow>
      (\<exists>b. node_claim v ''ego_browser_bridge'' = Some (JObject b) \<and> bridge_runs b \<and> bridge_believed gate c b)"
    unfolding r_def by (rule bridge_result)
  show "json_get r ''binding_attach'' = Some x \<longleftrightarrow> node_claim v ''binding_attach'' = Some x \<and> version_one x"
    "json_get r ''session_attach'' = Some x \<longleftrightarrow> node_claim v ''session_attach'' = Some x \<and> version_one x"
    unfolding r_def by (rule attach_result, simp)+
  show "(\<exists>s. json_get r ''skill_manager'' = Some (JObject s) \<and> json_get s backend = Some y) \<longleftrightarrow>
      (\<exists>s z. node_claim v ''skill_manager'' = Some (JObject s) \<and> (backend = ''native'' \<or> backend = ''docker_sandbox'') \<and>
        json_get s backend = Some z \<and> skill_report z y)"
    by (auto simp: r_def node_claim_result skills_result)
  show "(\<exists>l. json_get r ''session_lifecycle'' = Some (JObject l) \<and> json_get l backend = Some y) \<longleftrightarrow>
      (\<exists>l z. node_claim v ''session_lifecycle'' = Some (JObject l) \<and> (backend = ''native'' \<or> backend = ''docker_sandbox'') \<and>
        json_get l backend = Some z \<and> stop_report z \<and>
        y = JObject [(lit ''supported'', JBool True), (lit ''protocol_version'', JInt 1)])"
    by (auto simp: r_def node_claim_result lifecycle_result)
  show "k \<in> {''ego_browser_bridge'', ''binding_attach'', ''session_attach'', ''skill_manager'', ''session_lifecycle''} \<or>
      json_get r k = node_claim v k"
    by (auto simp: r_def node_claim_result)
qed

text \<open>A node of the old form whose bridge the administrator has switched off.\<close>

definition nx_claims :: "json_dict" where
  "nx_claims = [(lit ''ego_browser_bridge'', JObject [(lit ''supported'', JBool True)]),
     (lit ''binding_attach'', JObject [(lit ''supported'', JBool True), (lit ''protocol_version'', JInt 2)])]"

theorem node_claims_exact_witness:
  "(\<exists>b. json_get (normalize_runtime_capabilities True (Some False) (JObject nx_claims)) ''ego_browser_bridge'' = Some (JObject b) \<and>
     bridge_runs b) \<and>
   json_get (normalize_runtime_capabilities True (Some False) (JObject nx_claims)) ''binding_attach'' \<noteq>
     Some (JObject [(lit ''supported'', JBool True), (lit ''protocol_version'', JInt 2)])"
proof -
  have c: "node_claim (JObject nx_claims) ''ego_browser_bridge'' = Some (JObject [(lit ''supported'', JBool True)])"
    "bridge_runs [(lit ''supported'', JBool True)]" "bridge_believed True (Some False) [(lit ''supported'', JBool True)]" by code_simp+
  have v: "\<not> version_one (JObject [(lit ''supported'', JBool True), (lit ''protocol_version'', JInt 2)])"
    by (simp add: version_one_def)
  note e = node_claims_exact [where v = "JObject nx_claims" and gate = True and c = "Some False"
      and x = "JObject [(lit ''supported'', JBool True), (lit ''protocol_version'', JInt 2)]"]
  show ?thesis
  proof
    show "\<exists>b. json_get (normalize_runtime_capabilities True (Some False) (JObject nx_claims)) ''ego_browser_bridge'' = Some (JObject b) \<and>
        bridge_runs b" using conjunct1 [OF e] c by blast
    show "json_get (normalize_runtime_capabilities True (Some False) (JObject nx_claims)) ''binding_attach'' \<noteq>
        Some (JObject [(lit ''supported'', JBool True), (lit ''protocol_version'', JInt 2)])"
      using conjunct1 [OF conjunct2 [OF e]] v by simp
  qed
qed

end
