(* ===== verification/Enrollment.thy ===== *)
theory Enrollment
  imports Node_Capability Digest
begin

text \<open>
  How a node joins and is managed (\<open>services/nodes.py\<close> up to the tasks, \<open>models/nodes.py\<close>, \<open>repositories/nodes.py\<close>):
  registration tokens, join codes and their exchange, the token of the node, heartbeats and the state of the node.

  The keyed hash, the sealed box and the digest of the library are fields of the settings; what other services do
  when a node goes away is recorded as a call. A request reads the clock once.
\<close>

section \<open>Tables\<close>

record node =
  nd_id :: uuid
  nd_name :: pystr
  nd_status :: string
  nd_region :: pystr
  nd_tags :: "pystr list"
  nd_weight :: int
  nd_wireguard_ip :: "pystr option"
  nd_wireguard_key :: "pystr option"
  nd_wireguard_endpoint :: "pystr option"
  nd_ssh_host :: "pystr option"
  nd_ssh_port :: "int option"
  nd_ssh_user :: "pystr option"
  nd_tools :: "pystr list"
  nd_allowed :: "pystr list"
  nd_default :: pystr
  nd_policy :: json_dict
  nd_capabilities :: json_dict
  nd_ego_enabled :: bool
  nd_registration :: "pystr option"
  nd_token :: "pystr option"
  nd_heartbeat :: "time option"
  nd_version :: "pystr option"

record node_heartbeat =
  hb_node_id :: uuid
  hb_version :: pystr
  hb_tools :: "pystr list"
  hb_resources :: json_dict
  hb_runtime :: runtime_report

record join_code =
  jc_id :: uuid
  jc_node_id :: uuid
  jc_issuer :: uuid
  jc_hash :: pystr
  jc_origin :: pystr
  jc_release :: "pystr option"
  jc_wrapper :: "pystr option"
  jc_skill :: "pystr option"
  jc_runtime :: "pystr option"
  jc_artifact :: "pystr option"
  jc_profile :: "pystr option"
  jc_ego :: "bool option"
  jc_expires :: time
  jc_consumed :: "time option"
  jc_revoked :: "time option"
  jc_exchange :: "pystr option"
  jc_sealed :: "bytes option"
  jc_result_expires :: "time option"

datatype node_call = Revoke_browser uuid string | Revoke_forwards uuid string

record node_db =
  e_nodes :: "node list"
  e_codes :: "join_code list"
  e_heartbeats :: "node_heartbeat list"
  e_referenced :: "uuid list"
  e_browser_history :: "uuid list"
  e_calls :: "node_call list"
  e_audits :: "audit_row list"

type_synonym node_world = "node_db tx"

type_synonym 'a nact = "(node_world, 'a) step"

definition node_statuses :: "string list" where
  "node_statuses = [''healthy'', ''degraded'', ''maintenance'', ''disabled'', ''offline'']"

text \<open>The primary keys, the unique indexes and the check of the status.\<close>

definition nodes_admissible :: "node list \<Rightarrow> bool" where
  "nodes_admissible ns \<longleftrightarrow> distinct (map nd_id ns) \<and> list_all (\<lambda>n. nd_status n \<in> set node_statuses) ns \<and>
     unique_index (\<lambda>n. nd_registration n \<noteq> None) nd_registration ns \<and> unique_index (\<lambda>n. nd_token n \<noteq> None) nd_token ns"

definition codes_admissible :: "join_code list \<Rightarrow> bool" where
  "codes_admissible cs \<longleftrightarrow> distinct (map jc_id cs) \<and> distinct (map jc_hash cs) \<and> unique_index (\<lambda>c. jc_exchange c \<noteq> None) jc_exchange cs"

definition store_nodes :: "node list \<Rightarrow> node_db \<Rightarrow> node_db res" where
  "store_nodes ns d = (if nodes_admissible ns then Inr (d\<lparr>e_nodes := ns\<rparr>) else Inl integrity_error)"

definition store_codes :: "join_code list \<Rightarrow> node_db \<Rightarrow> node_db res" where
  "store_codes cs d = (if codes_admissible cs then Inr (d\<lparr>e_codes := cs\<rparr>) else Inl integrity_error)"

definition get_node_row :: "node_db \<Rightarrow> uuid \<Rightarrow> node option" where "get_node_row d i = find_row nd_id i (e_nodes d)"

definition get_node_by_token_hash :: "node_db \<Rightarrow> pystr \<Rightarrow> node option" where
  "get_node_by_token_hash d h = List.find (\<lambda>n. nd_token n = Some h) (e_nodes d)"

definition code_by_hash :: "node_db \<Rightarrow> pystr \<Rightarrow> join_code option" where
  "code_by_hash d h = List.find (\<lambda>c. jc_hash c = h) (e_codes d)"

definition code_by_exchange :: "node_db \<Rightarrow> pystr \<Rightarrow> join_code option" where
  "code_by_exchange d x = List.find (\<lambda>c. jc_exchange c = Some x) (e_codes d)"

definition save_node :: "node \<Rightarrow> unit nact" where
  "save_node n = modify (\<lambda>d. store_nodes (put_row nd_id n (e_nodes d)) d)"

definition save_code :: "join_code \<Rightarrow> unit nact" where
  "save_code c = modify (\<lambda>d. store_codes (put_row jc_id c (e_codes d)) d)"

definition node_audit :: "uuid option \<Rightarrow> string \<Rightarrow> uuid \<Rightarrow> unit nact" where
  "node_audit actor action target =
     modify (\<lambda>d. Inr (d\<lparr>e_audits := e_audits d @ [\<lparr>au_actor = actor, au_action = action, au_target = target\<rparr>]\<rparr>))"

definition call_services :: "node_call list \<Rightarrow> unit nact" where
  "call_services cs = modify (\<lambda>d. Inr (d\<lparr>e_calls := e_calls d @ cs\<rparr>))"

section \<open>Settings and secrets\<close>

record node_settings =
  es_enrollment :: bool
  es_bridge :: bool
  es_origin :: pystr
  es_release :: pystr
  es_wrapper :: pystr
  es_skill :: pystr
  es_tree :: pystr
  es_offline_after :: int
  es_hash :: "pystr \<Rightarrow> pystr"
  es_seal :: "nat \<Rightarrow> pystr \<Rightarrow> bytes"
  es_open :: "bytes \<Rightarrow> pystr option"
  es_sha :: "bytes \<Rightarrow> pystr"

definition create_opaque_token :: "string \<Rightarrow> pystr \<Rightarrow> pystr" where
  "create_opaque_token kind random = lit kind @ lit ''_'' @ random"

definition sha256_prefix :: "pystr \<Rightarrow> pystr" where "sha256_prefix digest = lit ''sha256:'' @ digest"

text \<open>\<open>str\<close> of a UUID\<close>

definition hex_digit :: "nat \<Rightarrow> nat" where "hex_digit n = (if n < 10 then 48 + n else 87 + n)"

fun hex_text :: "nat \<Rightarrow> nat \<Rightarrow> pystr" where
  "hex_text 0 n = []"
| "hex_text (Suc k) n = hex_text k (n div 16) @ [hex_digit (n mod 16)]"

definition uuid_text :: "uuid \<Rightarrow> pystr" where
  "uuid_text i =
     (let h = hex_text 32 i; dash = lit ''-'' in
      take 8 h @ dash @ take 4 (drop 8 h) @ dash @ take 4 (drop 12 h) @ dash @ take 4 (drop 16 h) @ dash @ drop 20 h)"

text \<open>The lower case of the letters that a hexadecimal digest has.\<close>

definition ascii_lower :: "pystr \<Rightarrow> pystr" where
  "ascii_lower s = map (\<lambda>c. if 65 \<le> c \<and> c \<le> 90 then c + 32 else c) s"

section \<open>Join profiles\<close>

record join_profile =
  jp_origin :: pystr
  jp_release :: pystr
  jp_wrapper :: pystr
  jp_skill :: pystr
  jp_runtime :: "pystr option"
  jp_artifact :: pystr
  jp_digest :: pystr

definition intent_text :: "bool option \<Rightarrow> pystr" where
  "intent_text i = (case i of None \<Rightarrow> lit ''preserve'' | Some True \<Rightarrow> lit ''true'' | Some False \<Rightarrow> lit ''false'')"

definition join_profile_digest ::
  "node_settings \<Rightarrow> pystr \<Rightarrow> uuid \<Rightarrow> pystr \<Rightarrow> pystr \<Rightarrow> pystr \<Rightarrow> pystr option \<Rightarrow> pystr \<Rightarrow> bool option \<Rightarrow> pystr" where
  "join_profile_digest sv origin i release wrapper skill runtime artifact ego =
     es_sha sv (utf8 (join_with 0 [lit ''node-join-profile-v1'', origin, uuid_text i, release, wrapper, skill,
       (case runtime of None \<Rightarrow> [] | Some v \<Rightarrow> v), artifact, intent_text ego]))"

text \<open>The text of a reported digest; a value that is not printed as a hexadecimal text has none.\<close>

definition digest_text :: "json \<Rightarrow> pystr option" where
  "digest_text v = (case v of JString s \<Rightarrow> Some s | JInt i \<Rightarrow> Some (py_str i) | _ \<Rightarrow> None)"

definition reported_ok :: "json_dict \<Rightarrow> string \<Rightarrow> (json \<Rightarrow> bool) \<Rightarrow> bool" where
  "reported_ok b k ok = (case json_get b k of None \<Rightarrow> True | Some JNull \<Rightarrow> True | Some v \<Rightarrow> ok v)"

definition reported_bridge :: "node \<Rightarrow> json_dict" where
  "reported_bridge n = (case json_get (nd_capabilities n) ''ego_browser_bridge'' of Some (JObject b) \<Rightarrow> b | _ \<Rightarrow> [])"

definition join_profile_of :: "node_settings \<Rightarrow> node \<Rightarrow> bool option \<Rightarrow> join_profile nact" where
  "join_profile_of sv n ego =
     (let b = reported_bridge n; artifact = sha256_prefix (es_tree sv) in
     act_bind (check (reported_ok b ''wrapper_version'' (\<lambda>v. v = JString (es_wrapper sv))) ''NODE_JOIN_CODE_PROFILE_MISMATCH'' 409) (\<lambda>_.
     act_bind (check (reported_ok b ''skill_version'' (\<lambda>v. v = JString (es_skill sv))) ''NODE_JOIN_CODE_PROFILE_MISMATCH'' 409) (\<lambda>_.
     act_bind (check (reported_ok b ''skill_tree_sha256'' (\<lambda>v. map_option sha256_prefix (digest_text v) = Some artifact))
       ''NODE_JOIN_CODE_PROFILE_MISMATCH'' 409) (\<lambda>_.
     ret \<lparr>jp_origin = es_origin sv, jp_release = es_release sv, jp_wrapper = es_wrapper sv, jp_skill = es_skill sv,
       jp_runtime = nd_version n, jp_artifact = artifact,
       jp_digest = join_profile_digest sv (es_origin sv) (nd_id n) (es_release sv) (es_wrapper sv) (es_skill sv) (nd_version n) artifact ego\<rparr>))))"

definition filled :: "pystr option \<Rightarrow> bool" where "filled v \<longleftrightarrow> v \<noteq> None \<and> v \<noteq> Some []"

definition join_profile_is_complete :: "join_code \<Rightarrow> bool" where
  "join_profile_is_complete c \<longleftrightarrow> list_all filled [Some (jc_origin c), jc_release c, jc_wrapper c, jc_skill c, jc_artifact c, jc_profile c]"

definition valid_join_exchange_id :: "pystr \<Rightarrow> bool" where
  "valid_join_exchange_id x \<longleftrightarrow> 16 \<le> length x \<and> length x \<le> 128 \<and>
     list_all (\<lambda>c. 48 \<le> c \<and> c \<le> 57 \<or> 65 \<le> c \<and> c \<le> 90 \<or> 97 \<le> c \<and> c \<le> 122 \<or> c = 45 \<or> c = 95) x"

definition valid_join_code :: "pystr \<Rightarrow> bool" where
  "valid_join_code s \<longleftrightarrow> 16 \<le> length s \<and> length s \<le> 4096 \<and> list_all (\<lambda>c. 33 \<le> c \<and> c \<noteq> 127) s"

section \<open>Join codes\<close>

definition require_node :: "uuid \<Rightarrow> node nact" where
  "require_node i =
     act_bind (query (\<lambda>d. get_node_row d i)) (\<lambda>n. case n of None \<Rightarrow> api_error ''COMMON_NOT_FOUND'' 404 | Some n \<Rightarrow> ret n)"

definition require_enrollment :: "node_settings \<Rightarrow> unit nact" where
  "require_enrollment sv = check (es_enrollment sv) ''EGO_BROWSER_ENROLLMENT_DISABLED'' 503"

record issue_result =
  ir_node :: node
  ir_code :: pystr
  ir_expires :: time
  ir_ego :: "bool option"
  ir_profile :: join_profile

definition new_join_code ::
  "node_settings \<Rightarrow> uuid \<Rightarrow> user_row \<Rightarrow> node \<Rightarrow> pystr \<Rightarrow> join_profile \<Rightarrow> bool option \<Rightarrow> pystr option \<Rightarrow> time \<Rightarrow> join_code" where
  "new_join_code sv i actor n raw p ego x expires =
     \<lparr>jc_id = i, jc_node_id = nd_id n, jc_issuer = u_id actor, jc_hash = es_hash sv raw, jc_origin = jp_origin p, jc_release = Some (jp_release p),
      jc_wrapper = Some (jp_wrapper p), jc_skill = Some (jp_skill p), jc_runtime = jp_runtime p, jc_artifact = Some (jp_artifact p),
      jc_profile = Some (jp_digest p), jc_ego = ego, jc_expires = expires, jc_consumed = None, jc_revoked = None, jc_exchange = x,
      jc_sealed = None, jc_result_expires = None\<rparr>"

text \<open>The entry in the audit log flushes the new row, before the block that would handle a conflict.\<close>

definition issue_join_code ::
  "node_settings \<Rightarrow> time \<Rightarrow> uuid \<Rightarrow> pystr \<Rightarrow> user_row \<Rightarrow> uuid \<Rightarrow> int \<Rightarrow> bool option \<Rightarrow> pystr option \<Rightarrow> issue_result nact" where
  "issue_join_code sv now i random actor node_id expires_in ego x =
     act_bind (require_enrollment sv) (\<lambda>_.
     act_bind (check (u_role actor = ''admin'') ''COMMON_FORBIDDEN'' 403) (\<lambda>_.
     act_bind (check (60 \<le> expires_in \<and> expires_in \<le> 1800) ''NODE_JOIN_CODE_INVALID'' 422) (\<lambda>_.
     act_bind (check (case x of None \<Rightarrow> True | Some x \<Rightarrow> valid_join_exchange_id x) ''NODE_JOIN_CODE_INVALID'' 422) (\<lambda>_.
     act_bind (query (\<lambda>d. case x of None \<Rightarrow> None | Some x \<Rightarrow> code_by_exchange d x)) (\<lambda>bound.
     act_bind (check (bound = None) ''NODE_JOIN_CODE_EXCHANGE_CONFLICT'' 409) (\<lambda>_.
     act_bind (require_node node_id) (\<lambda>n.
     act_bind (join_profile_of sv n ego) (\<lambda>p.
     let raw = lit ''jcode_'' @ random; expires = now + seconds expires_in; c = new_join_code sv i actor n raw p ego x expires in
     act_bind (modify (\<lambda>d. store_codes (e_codes d @ [c]) d)) (\<lambda>_.
     act_bind (node_audit (Some (u_id actor)) ''nodes.join_code.issued'' (nd_id n)) (\<lambda>_.
     act_bind (catch commit integrity_error
       (act_bind rollback (\<lambda>_. case x of None \<Rightarrow> throw integrity_error | Some _ \<Rightarrow> api_error ''NODE_JOIN_CODE_EXCHANGE_CONFLICT'' 409))) (\<lambda>_.
     ret \<lparr>ir_node = n, ir_code = raw, ir_expires = expires, ir_ego = ego, ir_profile = p\<rparr>)))))))))))"

definition pending :: "join_code \<Rightarrow> bool" where "pending c \<longleftrightarrow> jc_consumed c = None \<and> jc_revoked c = None"

definition revoked_code :: "time \<Rightarrow> join_code \<Rightarrow> join_code" where "revoked_code now c = c\<lparr>jc_revoked := Some now\<rparr>"

definition revocable :: "node_db \<Rightarrow> uuid \<Rightarrow> pystr option \<Rightarrow> string \<times> join_code list" where
  "revocable d i x =
     (case x of
        None \<Rightarrow> (''revoked'', filter (\<lambda>c. jc_node_id c = i \<and> pending c) (e_codes d))
      | Some x \<Rightarrow>
          (case List.find (\<lambda>c. jc_node_id c = i \<and> jc_exchange c = Some x) (e_codes d) of
             None \<Rightarrow> (''missing'', [])
           | Some c \<Rightarrow> if jc_consumed c \<noteq> None then (''consumed'', []) else (''revoked'', if jc_revoked c \<noteq> None then [] else [c])))"

definition revoke_join_codes :: "time \<Rightarrow> user_row \<Rightarrow> uuid \<Rightarrow> pystr option \<Rightarrow> string nact" where
  "revoke_join_codes now actor i x =
     act_bind (check (u_role actor = ''admin'') ''COMMON_FORBIDDEN'' 403) (\<lambda>_.
     act_bind (require_node i) (\<lambda>_.
     act_bind (check (case x of None \<Rightarrow> True | Some x \<Rightarrow> valid_join_exchange_id x) ''NODE_JOIN_CODE_INVALID'' 422) (\<lambda>_.
     act_bind (query (\<lambda>d. revocable d i x)) (\<lambda>(state, cs).
     act_bind (modify (\<lambda>d. store_codes (fold (\<lambda>c. put_row jc_id (revoked_code now c)) cs (e_codes d)) d)) (\<lambda>_.
     act_bind (node_audit (Some (u_id actor)) ''nodes.join_code.revoked'' i) (\<lambda>_.
     act_bind commit (\<lambda>_.
     ret state)))))))"

record exchange_request =
  xq_node_id :: "uuid option"
  xq_version :: pystr
  xq_code :: "pystr option"
  xq_exchange :: pystr
  xq_release :: "pystr option"
  xq_wrapper :: "pystr option"
  xq_skill :: "pystr option"
  xq_runtime :: "pystr option"
  xq_artifact :: "pystr option"
  xq_profile :: "pystr option"
  xq_ego :: "bool option"

record exchange_result =
  xr_node :: node
  xr_token :: pystr
  xr_exchange :: pystr
  xr_origin :: pystr
  xr_release :: pystr
  xr_wrapper :: pystr
  xr_skill :: pystr
  xr_runtime :: "pystr option"
  xr_artifact :: pystr
  xr_profile :: pystr
  xr_intent :: "bool option"

definition or_empty :: "pystr option \<Rightarrow> pystr" where "or_empty v = (case v of None \<Rightarrow> [] | Some s \<Rightarrow> s)"

definition exchange_result_of :: "join_code \<Rightarrow> node \<Rightarrow> pystr \<Rightarrow> pystr \<Rightarrow> exchange_result" where
  "exchange_result_of c n token x =
     \<lparr>xr_node = n, xr_token = token, xr_exchange = x, xr_origin = jc_origin c, xr_release = or_empty (jc_release c),
      xr_wrapper = or_empty (jc_wrapper c), xr_skill = or_empty (jc_skill c), xr_runtime = jc_runtime c,
      xr_artifact = or_empty (jc_artifact c), xr_profile = or_empty (jc_profile c), xr_intent = jc_ego c\<rparr>"

text \<open>What a node must send back: some values it may leave out, its own artifacts it may not.\<close>

definition agrees :: "'a option \<Rightarrow> 'a option \<Rightarrow> bool" where
  "agrees expected supplied \<longleftrightarrow> expected = None \<or> supplied = None \<or> supplied = expected"

definition echoes :: "join_code \<Rightarrow> exchange_request \<Rightarrow> bool" where
  "echoes c q \<longleftrightarrow> agrees (jc_release c) (xq_release q) \<and> agrees (jc_runtime c) (xq_runtime q) \<and> agrees (jc_profile c) (xq_profile q) \<and>
     list_all (\<lambda>(expected, supplied). supplied \<noteq> None \<and> supplied = expected)
       [(jc_wrapper c, xq_wrapper q), (jc_skill c, xq_skill q), (jc_artifact c, xq_artifact q)] \<and>
     (xq_ego q = None \<or> xq_ego q = jc_ego c)"

definition profile_current :: "node_settings \<Rightarrow> join_code \<Rightarrow> bool" where
  "profile_current sv c \<longleftrightarrow> jc_release c = Some (es_release sv) \<and> jc_wrapper c = Some (es_wrapper sv) \<and> jc_skill c = Some (es_skill sv) \<and>
     jc_artifact c = Some (sha256_prefix (es_tree sv))"

definition profile_intact :: "node_settings \<Rightarrow> join_code \<Rightarrow> bool" where
  "profile_intact sv c \<longleftrightarrow> ascii_lower (or_empty (jc_profile c)) =
     join_profile_digest sv (jc_origin c) (jc_node_id c) (or_empty (jc_release c)) (or_empty (jc_wrapper c)) (or_empty (jc_skill c)) (jc_runtime c)
       (or_empty (jc_artifact c)) (jc_ego c)"

definition validate_join_exchange_record ::
  "node_settings \<Rightarrow> join_code \<Rightarrow> pystr option \<Rightarrow> bool \<Rightarrow> exchange_request \<Rightarrow> node nact" where
  "validate_join_exchange_record sv c expected_hash require_echo q =
     act_bind (check (expected_hash = None \<or> expected_hash = Some (jc_hash c)) ''NODE_JOIN_CODE_EXCHANGE_CONFLICT'' 409) (\<lambda>_.
     act_bind (check (join_profile_is_complete c) ''NODE_JOIN_CODE_PROFILE_INCOMPLETE'' 409) (\<lambda>_.
     act_bind (check (jc_revoked c = None) ''NODE_JOIN_CODE_REVOKED'' 410) (\<lambda>_.
     act_bind (check (xq_node_id q = None \<or> xq_node_id q = Some (jc_node_id c)) ''NODE_JOIN_CODE_INVALID'' 409) (\<lambda>_.
     act_bind (query (\<lambda>d. get_node_row d (jc_node_id c))) (\<lambda>found.
     case found of None \<Rightarrow> api_error ''NODE_NOT_FOUND'' 404 | Some n \<Rightarrow>
     act_bind (check (nd_status n \<noteq> ''disabled'') ''NODE_NOT_FOUND'' 404) (\<lambda>_.
     act_bind (check (jc_origin c = es_origin sv) ''NODE_JOIN_CODE_PROFILE_MISMATCH'' 409) (\<lambda>_.
     act_bind (check (profile_current sv c) ''NODE_JOIN_CODE_PROFILE_MISMATCH'' 409) (\<lambda>_.
     act_bind (check (profile_intact sv c) ''NODE_JOIN_CODE_PROFILE_MISMATCH'' 409) (\<lambda>_.
     act_bind (check (\<not> require_echo \<or> echoes c q) ''NODE_JOIN_CODE_PROFILE_MISMATCH'' 409) (\<lambda>_.
     ret n))))))))))"

definition consumed_join_exchange_result ::
  "node_settings \<Rightarrow> time \<Rightarrow> join_code \<Rightarrow> node \<Rightarrow> pystr \<Rightarrow> exchange_result nact" where
  "consumed_join_exchange_result sv now c n x =
     (case jc_sealed c of
        None \<Rightarrow> api_error ''UNKNOWN_RESULT'' 503
      | Some sealed \<Rightarrow>
          act_bind (check (jc_consumed c \<noteq> None) ''UNKNOWN_RESULT'' 503) (\<lambda>_.
          act_bind (check (jc_exchange c = Some x) ''NODE_JOIN_CODE_REPLAYED'' 409) (\<lambda>_.
          case jc_result_expires c of None \<Rightarrow> api_error ''UNKNOWN_RESULT'' 503 | Some t \<Rightarrow>
          act_bind (check (now < t) ''NODE_JOIN_CODE_EXPIRED'' 410) (\<lambda>_.
          case es_open sv sealed of None \<Rightarrow> api_error ''UNKNOWN_RESULT'' 503 | Some raw \<Rightarrow>
          act_bind (check (nd_token n = Some (es_hash sv raw)) ''UNKNOWN_RESULT'' 503) (\<lambda>_.
          ret (exchange_result_of c n raw x))))))"

definition recover_join_exchange ::
  "node_settings \<Rightarrow> time \<Rightarrow> uuid \<Rightarrow> pystr \<Rightarrow> exchange_request \<Rightarrow> exchange_result nact" where
  "recover_join_exchange sv now attempted expected_hash q =
     act_bind rollback (\<lambda>_.
     act_bind (query (\<lambda>d. code_by_exchange d (xq_exchange q))) (\<lambda>found.
     case found of None \<Rightarrow> api_error ''UNKNOWN_RESULT'' 503 | Some c \<Rightarrow>
     act_bind (check (jc_id c = attempted \<and> jc_hash c = expected_hash) ''NODE_JOIN_CODE_EXCHANGE_CONFLICT'' 409) (\<lambda>_.
     act_bind (validate_join_exchange_record sv c (Some expected_hash) True q) (\<lambda>n.
     consumed_join_exchange_result sv now c n (xq_exchange q)))))"

definition enrolled :: "time \<Rightarrow> pystr \<Rightarrow> pystr \<Rightarrow> node \<Rightarrow> node" where
  "enrolled now v h n =
     n\<lparr>nd_token := Some h, nd_registration := None, nd_version := Some v, nd_status := ''healthy'', nd_heartbeat := Some now\<rparr>"

definition joined :: "time \<Rightarrow> exchange_request \<Rightarrow> pystr \<Rightarrow> join_code \<Rightarrow> node \<Rightarrow> node" where
  "joined now q h c n =
     (enrolled now (xq_version q) h n)\<lparr>nd_ego_enabled :=
        (case jc_ego c of None \<Rightarrow> nd_ego_enabled n
         | Some b \<Rightarrow> if nd_token n = None \<or> xq_ego q \<noteq> None then b else nd_ego_enabled n)\<rparr>"

definition consumed_code :: "time \<Rightarrow> pystr \<Rightarrow> bytes \<Rightarrow> join_code \<Rightarrow> join_code" where
  "consumed_code now x sealed c =
     c\<lparr>jc_exchange := Some x, jc_consumed := Some now, jc_sealed := Some sealed, jc_result_expires := Some (now + seconds (24 * 3600))\<rparr>"

definition consume_join_code ::
  "node_settings \<Rightarrow> time \<Rightarrow> pystr \<Rightarrow> nat \<Rightarrow> exchange_request \<Rightarrow> join_code \<Rightarrow> node \<Rightarrow> exchange_result nact" where
  "consume_join_code sv now random nonce q c n =
     (let x = xq_exchange q; raw = create_opaque_token ''node'' random; c' = consumed_code now x (es_seal sv nonce raw) c;
          n' = joined now q (es_hash sv raw) c n in
      act_bind (save_code (c\<lparr>jc_exchange := Some x\<rparr>)) (\<lambda>_.
      act_bind (save_node n') (\<lambda>_.
      act_bind (save_code c') (\<lambda>_.
      act_bind (node_audit None ''node_api.join_code.exchange'' (nd_id n)) (\<lambda>_.
      act_bind commit (\<lambda>_.
      ret (exchange_result_of c' n' raw x)))))))"

definition exchange_record :: "node_settings \<Rightarrow> exchange_request \<Rightarrow> node_db \<Rightarrow> join_code option" where
  "exchange_record sv q d =
     (case xq_code q of
        None \<Rightarrow> List.find (\<lambda>c. jc_exchange c = Some (xq_exchange q) \<and> jc_consumed c \<noteq> None) (e_codes d)
      | Some raw \<Rightarrow> code_by_hash d (es_hash sv raw))"

text \<open>The checks of an exchange, up to the state of the code.\<close>

definition exchange_subject :: "node_settings \<Rightarrow> exchange_request \<Rightarrow> (join_code \<times> node) nact" where
  "exchange_subject sv q =
     act_bind (require_enrollment sv) (\<lambda>_.
     act_bind (check (case xq_code q of None \<Rightarrow> True | Some raw \<Rightarrow> valid_join_code raw) ''NODE_JOIN_CODE_INVALID'' 422) (\<lambda>_.
     act_bind (check (valid_join_exchange_id (xq_exchange q)) ''NODE_JOIN_CODE_INVALID'' 422) (\<lambda>_.
     act_bind (query (\<lambda>d. code_by_exchange d (xq_exchange q))) (\<lambda>bound.
     act_bind (query (exchange_record sv q)) (\<lambda>found.
     act_bind (check (xq_code q = None \<or> bound = None \<or> map_option jc_id found = map_option jc_id bound) ''NODE_JOIN_CODE_EXCHANGE_CONFLICT'' 409) (\<lambda>_.
     case found of None \<Rightarrow> api_error ''NODE_JOIN_CODE_INVALID'' 401 | Some c \<Rightarrow>
     act_bind (validate_join_exchange_record sv c (map_option (es_hash sv) (xq_code q)) (xq_code q \<noteq> None) q) (\<lambda>n.
     ret (c, n))))))))"

definition exchange_join_code :: "node_settings \<Rightarrow> time \<Rightarrow> pystr \<Rightarrow> nat \<Rightarrow> exchange_request \<Rightarrow> exchange_result nact" where
  "exchange_join_code sv now random nonce q =
     act_bind (exchange_subject sv q) (\<lambda>(c, n).
     if jc_consumed c \<noteq> None then consumed_join_exchange_result sv now c n (xq_exchange q)
     else
       act_bind (check (now < jc_expires c) ''NODE_JOIN_CODE_EXPIRED'' 410) (\<lambda>_.
       catch (consume_join_code sv now random nonce q c n) integrity_error (recover_join_exchange sv now (jc_id c) (jc_hash c) q)))"

section \<open>Registration and authentication\<close>

definition validate_runtime_settings :: "pystr list \<Rightarrow> pystr \<Rightarrow> unit nact" where
  "validate_runtime_settings allowed backend =
     act_bind (check (allowed \<noteq> [] \<and> set allowed \<subseteq> set (map lit runtime_backends)) ''COMMON_VALIDATION_ERROR'' 422) (\<lambda>_.
     check (backend \<in> set allowed) ''COMMON_VALIDATION_ERROR'' 422)"

text \<open>The new node of a request: what the request does not give is empty.\<close>

definition new_node :: "uuid \<Rightarrow> node \<Rightarrow> pystr \<Rightarrow> node" where
  "new_node i given h =
     given\<lparr>nd_id := i, nd_status := ''offline'', nd_capabilities := [], nd_registration := Some h, nd_token := None, nd_heartbeat := None,
       nd_version := None\<rparr>"

definition create_node :: "node_settings \<Rightarrow> uuid \<Rightarrow> pystr \<Rightarrow> user_row \<Rightarrow> node \<Rightarrow> (node \<times> pystr) nact" where
  "create_node sv i random actor given =
     act_bind (validate_runtime_settings (nd_allowed given) (nd_default given)) (\<lambda>_.
     let raw = create_opaque_token ''nreg'' random; n = new_node i given (es_hash sv raw) in
     act_bind (modify (\<lambda>d. store_nodes (e_nodes d @ [n]) d)) (\<lambda>_.
     act_bind (node_audit (Some (u_id actor)) ''nodes.create'' i) (\<lambda>_.
     act_bind commit (\<lambda>_.
     ret (n, raw)))))"

definition rotate_registration_token :: "node_settings \<Rightarrow> pystr \<Rightarrow> user_row \<Rightarrow> uuid \<Rightarrow> (node \<times> pystr) nact" where
  "rotate_registration_token sv random actor i =
     act_bind (require_node i) (\<lambda>n.
     let raw = create_opaque_token ''nreg'' random; n' = n\<lparr>nd_registration := Some (es_hash sv raw)\<rparr> in
     act_bind (save_node n') (\<lambda>_.
     act_bind (node_audit (Some (u_id actor)) ''nodes.rotate_registration_token'' i) (\<lambda>_.
     act_bind commit (\<lambda>_.
     ret (n', raw)))))"

definition register_node :: "node_settings \<Rightarrow> time \<Rightarrow> pystr \<Rightarrow> uuid \<Rightarrow> pystr \<Rightarrow> pystr \<Rightarrow> (node \<times> pystr) nact" where
  "register_node sv now random i registration_token v =
     act_bind (require_node i) (\<lambda>n.
     act_bind (check (nd_registration n = Some (es_hash sv registration_token)) ''COMMON_UNAUTHORIZED'' 401) (\<lambda>_.
     act_bind (check (nd_status n \<noteq> ''disabled'') ''NODE_UNHEALTHY'' 403) (\<lambda>_.
     let raw = create_opaque_token ''node'' random; n' = enrolled now v (es_hash sv raw) n in
     act_bind (save_node n') (\<lambda>_.
     act_bind (node_audit None ''node_api.register'' i) (\<lambda>_.
     act_bind commit (\<lambda>_.
     ret (n', raw)))))))"

definition authenticate_node_token :: "node_settings \<Rightarrow> pystr \<Rightarrow> node nact" where
  "authenticate_node_token sv token =
     act_bind (query (\<lambda>d. get_node_by_token_hash d (es_hash sv token))) (\<lambda>found.
     case found of None \<Rightarrow> api_error ''COMMON_UNAUTHORIZED'' 401 | Some n \<Rightarrow>
     act_bind (check (nd_status n \<noteq> ''disabled'') ''NODE_UNHEALTHY'' 403) (\<lambda>_.
     ret n))"

section \<open>Heartbeats and state\<close>

record heartbeat_request =
  hq_node_id :: uuid
  hq_version :: pystr
  hq_tools :: "pystr list"
  hq_wireguard_ip :: "pystr option"
  hq_wireguard_key :: "pystr option"
  hq_wireguard_endpoint :: "pystr option"
  hq_resources :: json_dict
  hq_runtime :: runtime_report

definition given_or :: "'a option \<Rightarrow> 'a option \<Rightarrow> 'a option" where
  "given_or new old = (case new of None \<Rightarrow> old | Some _ \<Rightarrow> new)"

definition beat_node :: "node_settings \<Rightarrow> time \<Rightarrow> heartbeat_request \<Rightarrow> node \<Rightarrow> node" where
  "beat_node sv now q n =
     (let keep = (\<lambda>new old. if filled new then new else old);
          caps = normalize_runtime_capabilities (es_bridge sv) (Some (nd_ego_enabled n)) (JObject (rr_capabilities (hq_runtime q))) in
      n\<lparr>nd_version := Some (hq_version q), nd_tools := hq_tools q, nd_wireguard_ip := keep (hq_wireguard_ip q) (nd_wireguard_ip n),
        nd_wireguard_key := keep (hq_wireguard_key q) (nd_wireguard_key n),
        nd_wireguard_endpoint := keep (hq_wireguard_endpoint q) (nd_wireguard_endpoint n), nd_heartbeat := Some now,
        nd_capabilities := caps,
        nd_status := (if runtime_is_healthy (nd_allowed n) (hq_runtime q) then ''healthy'' else ''degraded'')\<rparr>)"

definition submit_heartbeat :: "node_settings \<Rightarrow> time \<Rightarrow> node \<Rightarrow> heartbeat_request \<Rightarrow> unit nact" where
  "submit_heartbeat sv now n q =
     act_bind (check (nd_id n = hq_node_id q) ''COMMON_FORBIDDEN'' 403) (\<lambda>_.
     act_bind (save_node (beat_node sv now q n)) (\<lambda>_.
     act_bind (modify (\<lambda>d. Inr (d\<lparr>e_heartbeats := e_heartbeats d @ [\<lparr>hb_node_id = nd_id n, hb_version = hq_version q, hb_tools = hq_tools q,
       hb_resources = hq_resources q, hb_runtime = hq_runtime q\<rparr>]\<rparr>))) (\<lambda>_.
     commit)))"

text \<open>The route authenticates the node first.\<close>

definition route_heartbeat :: "node_settings \<Rightarrow> time \<Rightarrow> pystr \<Rightarrow> heartbeat_request \<Rightarrow> unit nact" where
  "route_heartbeat sv now token q = act_bind (authenticate_node_token sv token) (\<lambda>n. submit_heartbeat sv now n q)"

definition stale :: "node_settings \<Rightarrow> time \<Rightarrow> node \<Rightarrow> bool" where
  "stale sv now n \<longleftrightarrow> nd_status n \<in> {''healthy'', ''degraded''} \<and>
     (case nd_heartbeat n of None \<Rightarrow> False | Some t \<Rightarrow> t < now - seconds (es_offline_after sv))"

definition mark_stale_nodes :: "node_settings \<Rightarrow> time \<Rightarrow> node list \<Rightarrow> nat nact" where
  "mark_stale_nodes sv now ns =
     (let gone = filter (stale sv now) ns in
      if gone = [] then ret 0
      else
        act_bind (modify (\<lambda>d. store_nodes (fold (\<lambda>n. put_row nd_id (n\<lparr>nd_status := ''offline''\<rparr>)) gone (e_nodes d)) d)) (\<lambda>_.
        act_bind (call_services (map (\<lambda>n. Revoke_browser (nd_id n) ''node_heartbeat_lost'') gone)) (\<lambda>_.
        act_bind commit (\<lambda>_.
        ret (length gone)))))"

definition expire_stale_nodes :: "node_settings \<Rightarrow> time \<Rightarrow> nat nact" where
  "expire_stale_nodes sv now = act_bind (query e_nodes) (mark_stale_nodes sv now)"

definition list_nodes :: "node_settings \<Rightarrow> time \<Rightarrow> node list nact" where
  "list_nodes sv now = act_bind (query e_nodes) (\<lambda>ns. act_bind (mark_stale_nodes sv now ns) (\<lambda>_. query e_nodes))"

definition get_node :: "node_settings \<Rightarrow> time \<Rightarrow> uuid \<Rightarrow> node nact" where
  "get_node sv now i =
     act_bind (require_node i) (\<lambda>n. act_bind (mark_stale_nodes sv now [n]) (\<lambda>_. require_node i))"

record node_change =
  nc_name :: "pystr option"
  nc_status :: "string option"
  nc_tags :: "pystr list option"
  nc_weight :: "int option"
  nc_tools :: "pystr list option"
  nc_allowed :: "pystr list option"
  nc_default :: "pystr option"
  nc_policy :: "json_dict option"
  nc_wireguard_ip :: "pystr option"
  nc_wireguard_key :: "pystr option"
  nc_wireguard_endpoint :: "pystr option"
  nc_ssh_host :: "pystr option"
  nc_ssh_port :: "int option"
  nc_ssh_user :: "pystr option"
  nc_ego_enabled :: "bool option"

definition get_or :: "'a option \<Rightarrow> 'a \<Rightarrow> 'a" where "get_or new old = (case new of None \<Rightarrow> old | Some x \<Rightarrow> x)"

definition changed_node :: "node_change \<Rightarrow> node \<Rightarrow> node" where
  "changed_node c n =
     n\<lparr>nd_name := get_or (nc_name c) (nd_name n), nd_status := get_or (nc_status c) (nd_status n), nd_tags := get_or (nc_tags c) (nd_tags n),
       nd_weight := get_or (nc_weight c) (nd_weight n), nd_tools := get_or (nc_tools c) (nd_tools n),
       nd_allowed := get_or (nc_allowed c) (nd_allowed n), nd_default := get_or (nc_default c) (nd_default n),
       nd_policy := get_or (nc_policy c) (nd_policy n), nd_wireguard_ip := given_or (nc_wireguard_ip c) (nd_wireguard_ip n),
       nd_wireguard_key := given_or (nc_wireguard_key c) (nd_wireguard_key n),
       nd_wireguard_endpoint := given_or (nc_wireguard_endpoint c) (nd_wireguard_endpoint n),
       nd_ssh_host := given_or (nc_ssh_host c) (nd_ssh_host n), nd_ssh_port := given_or (nc_ssh_port c) (nd_ssh_port n),
       nd_ssh_user := given_or (nc_ssh_user c) (nd_ssh_user n), nd_ego_enabled := get_or (nc_ego_enabled c) (nd_ego_enabled n)\<rparr>"

definition update_node :: "user_row \<Rightarrow> uuid \<Rightarrow> node_change \<Rightarrow> node nact" where
  "update_node actor i c =
     act_bind (require_node i) (\<lambda>n.
     act_bind (validate_runtime_settings (get_or (nc_allowed c) (nd_allowed n)) (get_or (nc_default c) (nd_default n))) (\<lambda>_.
     act_bind (call_services (case nc_status c of None \<Rightarrow> [] | Some st \<Rightarrow>
       if st \<in> {''healthy'', ''degraded'', ''active''} then [] else [Revoke_browser i ''node_unavailable'', Revoke_forwards i ''node_revoked''])) (\<lambda>_.
     act_bind (save_node (changed_node c n)) (\<lambda>_.
     act_bind (node_audit (Some (u_id actor)) ''nodes.update'' i) (\<lambda>_.
     act_bind commit (\<lambda>_.
     ret (changed_node c n)))))))"

definition status_change :: "string \<Rightarrow> node_change" where
  "status_change st =
     \<lparr>nc_name = None, nc_status = Some st, nc_tags = None, nc_weight = None, nc_tools = None, nc_allowed = None, nc_default = None,
      nc_policy = None, nc_wireguard_ip = None, nc_wireguard_key = None, nc_wireguard_endpoint = None, nc_ssh_host = None, nc_ssh_port = None,
      nc_ssh_user = None, nc_ego_enabled = None\<rparr>"

definition set_maintenance :: "user_row \<Rightarrow> uuid \<Rightarrow> node nact" where
  "set_maintenance actor i = update_node actor i (status_change ''maintenance'')"

definition disable_node :: "user_row \<Rightarrow> uuid \<Rightarrow> node nact" where
  "disable_node actor i =
     act_bind (update_node actor i (status_change ''disabled'')) (\<lambda>n.
     act_bind (save_node (n\<lparr>nd_token := None, nd_registration := None\<rparr>)) (\<lambda>_.
     act_bind commit (\<lambda>_.
     ret (n\<lparr>nd_token := None, nd_registration := None\<rparr>))))"

text \<open>The codes and the heartbeats of a node go with it.\<close>

definition without_node :: "uuid \<Rightarrow> node_db \<Rightarrow> node_db" where
  "without_node i d =
     d\<lparr>e_nodes := filter (\<lambda>n. nd_id n \<noteq> i) (e_nodes d), e_codes := filter (\<lambda>c. jc_node_id c \<noteq> i) (e_codes d),
       e_heartbeats := filter (\<lambda>h. hb_node_id h \<noteq> i) (e_heartbeats d)\<rparr>"

definition delete_node :: "user_row \<Rightarrow> uuid \<Rightarrow> unit nact" where
  "delete_node actor i =
     act_bind (require_node i) (\<lambda>n.
     act_bind (check (nd_status n = ''disabled'') ''NODE_DELETE_REQUIRES_DISABLED'' 409) (\<lambda>_.
     act_bind (query (\<lambda>d. i \<in> set (e_referenced d))) (\<lambda>referenced.
     act_bind (check (\<not> referenced) ''NODE_DELETE_BLOCKED'' 409) (\<lambda>_.
     act_bind (query (\<lambda>d. i \<in> set (e_browser_history d))) (\<lambda>history.
     act_bind (check (\<not> history) ''NODE_DELETE_BROWSER_BINDING_HISTORY'' 409) (\<lambda>_.
     act_bind (node_audit (Some (u_id actor)) ''nodes.delete'' i) (\<lambda>_.
     act_bind (modify (\<lambda>d. Inr (without_node i d))) (\<lambda>_.
     commit))))))))"

end
