(* ===== verification/Enrollment_Life.thy ===== *)
theory Enrollment_Life
  imports Enrollment
begin

text \<open>
  What holds of the nodes and their join codes in every sequence of requests: the tables stay well-formed, and a code
  that is consumed or revoked never changes again.
\<close>

section \<open>Tables\<close>

definition code_shape :: "join_code \<Rightarrow> bool" where
  "code_shape c \<longleftrightarrow>
     (if jc_consumed c = None then jc_sealed c = None \<and> jc_result_expires c = None
      else jc_revoked c = None \<and> jc_exchange c \<noteq> None \<and> jc_sealed c \<noteq> None \<and> jc_result_expires c \<noteq> None)"

definition nodes_ok :: "node_db \<Rightarrow> bool" where
  "nodes_ok d \<longleftrightarrow> nodes_admissible (e_nodes d) \<and> codes_admissible (e_codes d) \<and> list_all code_shape (e_codes d) \<and>
     jc_node_id ` set (e_codes d) \<subseteq> nd_id ` set (e_nodes d)"

text \<open>How a join code goes on: what it stands for stays, and once it is used or revoked nothing changes.\<close>

definition code_follows :: "join_code \<Rightarrow> join_code \<Rightarrow> bool" where
  "code_follows c c' \<longleftrightarrow>
     (jc_id c', jc_node_id c', jc_issuer c', jc_hash c', jc_origin c', jc_release c', jc_wrapper c', jc_skill c', jc_runtime c', jc_artifact c',
      jc_profile c', jc_ego c', jc_expires c') =
     (jc_id c, jc_node_id c, jc_issuer c, jc_hash c, jc_origin c, jc_release c, jc_wrapper c, jc_skill c, jc_runtime c, jc_artifact c,
      jc_profile c, jc_ego c, jc_expires c) \<and>
     (pending c \<or> c' = c)"

lemma code_follows_refl: "code_follows c c"
  by (simp add: code_follows_def)

lemma code_follows_trans: "code_follows c c' \<Longrightarrow> code_follows c' c'' \<Longrightarrow> code_follows c c''"
  unfolding code_follows_def by auto

text \<open>A code of now is a code of then, gone on, or it has been issued since.\<close>

definition code_from :: "node_db \<Rightarrow> join_code \<Rightarrow> bool" where
  "code_from d0 c' \<longleftrightarrow> (\<exists>c \<in> set (e_codes d0). code_follows c c') \<or>
     jc_id c' \<notin> jc_id ` set (e_codes d0) \<and> jc_hash c' \<notin> jc_hash ` set (e_codes d0)"

definition nodes_since :: "node_db \<Rightarrow> node_db \<Rightarrow> bool" where
  "nodes_since d0 d \<longleftrightarrow> nodes_ok d \<and> list_all (code_from d0) (e_codes d)"

lemma nodes_okD:
  assumes "nodes_ok d"
  shows "distinct (map nd_id (e_nodes d))" "nodes_admissible (e_nodes d)" "codes_admissible (e_codes d)" "distinct (map jc_id (e_codes d))"
    "distinct (map jc_hash (e_codes d))" "unique_index (\<lambda>c. jc_exchange c \<noteq> None) jc_exchange (e_codes d)"
    "c \<in> set (e_codes d) \<Longrightarrow> code_shape c"
  using assms by (auto simp: nodes_ok_def nodes_admissible_def codes_admissible_def list_all_iff)

lemma code_from_same:
  assumes "nodes_ok d0" "code_from d0 c'" "c \<in> set (e_codes d0)" "jc_id c' = jc_id c \<or> jc_hash c' = jc_hash c"
  shows "code_follows c c'"
proof -
  obtain b where b: "b \<in> set (e_codes d0)" "code_follows b c'" using assms(2-4) by (auto simp: code_from_def)
  then have "jc_id c' = jc_id b" "jc_hash c' = jc_hash b" by (simp_all add: code_follows_def)
  then have "b = c"
    using assms(3,4) b(1) nodes_okD(4,5) [OF assms(1)] by (auto simp: distinct_map dest: inj_onD)
  then show ?thesis using b(2) by simp
qed

lemma since_refl: "nodes_ok d \<Longrightarrow> nodes_since d d"
  by (auto simp: nodes_since_def list_all_iff code_from_def intro: code_follows_refl)

lemma since_same: "nodes_since d0 d \<Longrightarrow> e_nodes d' = e_nodes d \<Longrightarrow> e_codes d' = e_codes d \<Longrightarrow> nodes_since d0 d'"
  by (simp add: nodes_since_def nodes_ok_def)

lemma code_from_follows: "code_from d0 c \<Longrightarrow> code_follows c c' \<Longrightarrow> code_from d0 c'"
  unfolding code_from_def by (elim disjE) (auto intro: code_follows_trans simp: code_follows_def)

lemma since_map_codes:
  assumes "nodes_since d0 d" "\<And>c. c \<in> set (e_codes d) \<Longrightarrow> code_follows c (f c) \<and> code_shape (f c)" "codes_admissible (map f (e_codes d))"
  shows "nodes_since d0 (d\<lparr>e_codes := map f (e_codes d)\<rparr>)"
proof -
  have "code_from d0 (f c) \<and> code_shape (f c) \<and> jc_node_id (f c) \<in> nd_id ` set (e_nodes d)" if "c \<in> set (e_codes d)" for c
  proof -
    have "code_from d0 c" "jc_node_id c \<in> nd_id ` set (e_nodes d)"
      using assms(1) that by (auto simp: nodes_since_def nodes_ok_def list_all_iff)
    then show ?thesis using assms(2) [OF that] code_from_follows by (auto simp: code_follows_def)
  qed
  then show ?thesis using assms(1,3) by (auto simp: nodes_since_def nodes_ok_def list_all_iff)
qed

lemma since_put_code:
  assumes "nodes_since d0 d" "c \<in> set (e_codes d)" "code_follows c c'" "code_shape c'" "codes_admissible (put_row jc_id c' (e_codes d))"
  shows "nodes_since d0 (d\<lparr>e_codes := put_row jc_id c' (e_codes d)\<rparr>)"
  unfolding put_row_def
proof (rule since_map_codes [OF assms(1)])
  fix x assume x: "x \<in> set (e_codes d)"
  have "nodes_ok d" using assms(1) by (simp add: nodes_since_def)
  then have "x = c" if "jc_id x = jc_id c'"
    using that x assms(2,3) nodes_okD(4) by (auto simp: code_follows_def distinct_map dest: inj_onD)
  moreover have "code_shape x" using nodes_okD(7) [OF \<open>nodes_ok d\<close> x] .
  ultimately show "code_follows x (if jc_id x = jc_id c' then c' else x) \<and> code_shape (if jc_id x = jc_id c' then c' else x)"
    using assms(3,4) code_follows_refl by auto
qed (use assms(5) in \<open>simp add: put_row_def\<close>)

section \<open>Requests\<close>

definition since :: "node_db \<Rightarrow> node_world \<Rightarrow> bool" where
  "since d0 w \<longleftrightarrow> nodes_since d0 (w_db w) \<and> nodes_since d0 (w_saved w)"

lemma keeps_since_modify:
  assumes "\<And>d d'. nodes_since d0 d \<Longrightarrow> g d = Inr d' \<Longrightarrow> nodes_since d0 d'"
  shows "keeps (since d0) P (modify g) (\<lambda>_ _. True)"
  by (rule keeps_modify) (use assms in \<open>auto simp: since_def\<close>)

lemma keeps_since_same:
  assumes "\<And>d d'. g d = Inr d' \<Longrightarrow> e_nodes d' = e_nodes d \<and> e_codes d' = e_codes d"
  shows "keeps (since d0) P (modify g) (\<lambda>_ _. True)"
  by (rule keeps_since_modify) (use assms since_same in blast)

lemma since_store_nodes: "nodes_since d0 d \<Longrightarrow> store_nodes ns d = Inr d' \<Longrightarrow> nd_id ` set (e_nodes d) \<subseteq> nd_id ` set ns \<Longrightarrow> nodes_since d0 d'"
proof -
  assume a: "nodes_since d0 d" "store_nodes ns d = Inr d'" "nd_id ` set (e_nodes d) \<subseteq> nd_id ` set ns"
  then have "d' = d\<lparr>e_nodes := ns\<rparr>" "nodes_admissible ns" by (simp_all add: store_nodes_def split: if_splits)
  moreover have "jc_node_id ` set (e_codes d) \<subseteq> nd_id ` set ns" using a(1,3) unfolding nodes_since_def nodes_ok_def by (meson subset_trans)
  ultimately show ?thesis using a(1) by (simp add: nodes_since_def nodes_ok_def)
qed

lemma keeps_save_node: "keeps (since d0) P (save_node n) (\<lambda>_ _. True)"
  unfolding save_node_def by (rule keeps_since_modify) (erule since_store_nodes, assumption, simp add: put_row_image)

lemma keeps_node_audit: "keeps (since d0) P (node_audit actor a t) (\<lambda>_ _. True)" "keeps (since d0) P (call_services cs) (\<lambda>_ _. True)"
  unfolding node_audit_def call_services_def by (rule keeps_since_same; auto)+

lemma keeps_since_commit: "keeps (since d0) P commit (\<lambda>_ _. True)" "keeps (since d0) P rollback (\<lambda>_ _. True)"
  by (auto simp: keeps_def commit_def rollback_def since_def)

lemmas keeps_rest = keeps_any_query keeps_any_ret keeps_any_check keeps_throw keeps_save_node keeps_node_audit keeps_since_commit

text \<open>A request that leaves the codes alone.\<close>

lemma keeps_require_enrolled_node:
  "keeps I P (require_node i) (\<lambda>n w. P w \<and> n \<in> set (e_nodes (w_db w)) \<and> nd_id n = i)"
  by (auto simp: keeps_def require_node_def act_bind_def query_def get_node_row_def api_error_def throw_def ret_def
      split: option.splits dest: find_row_Some)

lemma keeps_join_profile: "keeps I P (join_profile_of sv n ego) (\<lambda>_. P)"
  by (auto simp: keeps_def join_profile_of_def act_simps act_bind_def check_def ret_def api_error_def throw_def Let_def split: if_splits)

lemma keeps_require_any: "keeps I P (require_node i) (\<lambda>_ _. True)"
  by (rule keeps_post [OF keeps_require_enrolled_node]) simp

lemma keeps_validate_settings: "keeps I P (validate_runtime_settings a b) (\<lambda>_ _. True)"
  unfolding validate_runtime_settings_def by (rule keeps_seq keeps_any_check)+

lemma keeps_authenticate: "keeps I P (authenticate_node_token sv t) (\<lambda>_ _. True)"
  unfolding authenticate_node_token_def by (intro keeps_seq keeps_option keeps_rest)

lemma keeps_store_nodes:
  assumes "\<And>d. nd_id ` set (e_nodes d) \<subseteq> nd_id ` set (g d)"
  shows "keeps (since d0) P (modify (\<lambda>d. store_nodes (g d) d)) (\<lambda>_ _. True)"
  by (rule keeps_since_modify) (use since_store_nodes assms in blast)

lemma keeps_mark_stale: "keeps (since d0) P (mark_stale_nodes sv now ns) (\<lambda>_ _. True)"
  unfolding mark_stale_nodes_def Let_def
  by (intro keeps_if keeps_seq keeps_store_nodes keeps_rest) (simp add: fold_put_image)

lemma keeps_node_requests:
  "keeps (since d0) P (create_node sv i random actor given) (\<lambda>_ _. True)"
  "keeps (since d0) P (rotate_registration_token sv random actor i) (\<lambda>_ _. True)"
  "keeps (since d0) P (register_node sv now random i token v) (\<lambda>_ _. True)"
  "keeps (since d0) P (submit_heartbeat sv now n q) (\<lambda>_ _. True)"
  "keeps (since d0) P (update_node actor i c) (\<lambda>_ _. True)"
  unfolding create_node_def rotate_registration_token_def register_node_def submit_heartbeat_def update_node_def Let_def
  by (intro keeps_seq keeps_validate_settings keeps_require_any keeps_store_nodes keeps_since_same keeps_rest; auto)+

lemma keeps_node_routes:
  "keeps (since d0) P (route_heartbeat sv now token q) (\<lambda>_ _. True)"
  "keeps (since d0) P (expire_stale_nodes sv now) (\<lambda>_ _. True)"
  "keeps (since d0) P (list_nodes sv now) (\<lambda>_ _. True)"
  "keeps (since d0) P (get_node sv now i) (\<lambda>_ _. True)"
  "keeps (since d0) P (disable_node actor i) (\<lambda>_ _. True)"
  unfolding route_heartbeat_def expire_stale_nodes_def list_nodes_def get_node_def disable_node_def
  by (intro keeps_seq keeps_authenticate keeps_mark_stale keeps_require_any keeps_node_requests keeps_rest)+

lemma since_without_node: "nodes_since d0 d \<Longrightarrow> nodes_since d0 (without_node i d)"
  by (auto simp: nodes_since_def nodes_ok_def without_node_def nodes_admissible_def codes_admissible_def list_all_iff distinct_map_filter
      intro: unique_index_filter)

lemma keeps_delete_node: "keeps (since d0) P (delete_node actor i) (\<lambda>_ _. True)"
  unfolding delete_node_def
  by (intro keeps_seq keeps_require_any keeps_rest keeps_since_modify) (auto intro: since_without_node)

text \<open>A request that changes them.\<close>

lemmas check_first = keeps_bind [OF keeps_any_check]
lemmas query_first = keeps_bind [OF keeps_any_query]

lemma keeps_issue:
  assumes "i \<notin> jc_id ` set (e_codes d0)" "es_hash sv (lit ''jcode_'' @ random) \<notin> jc_hash ` set (e_codes d0)"
  shows "keeps (since d0) P (issue_join_code sv now i random actor node_id expires_in ego x) (\<lambda>_ _. True)"
proof -
  let ?known = "\<lambda>(n :: node) w. n \<in> set (e_nodes (w_db w))"
  have add: "keeps (since d0) (?known n) (modify (\<lambda>d. store_codes (e_codes d @ [new_join_code sv i actor n (lit ''jcode_'' @ random) p ego x t]) d))
      (\<lambda>_ _. True)" for n p t
  proof (rule keeps_modify)
    fix w d assume w: "since d0 w" "?known n w"
      "store_codes (e_codes (w_db w) @ [new_join_code sv i actor n (lit ''jcode_'' @ random) p ego x t]) (w_db w) = Inr d"
    let ?c = "new_join_code sv i actor n (lit ''jcode_'' @ random) p ego x t"
    have "d = (w_db w)\<lparr>e_codes := e_codes (w_db w) @ [?c]\<rparr>" "codes_admissible (e_codes (w_db w) @ [?c])"
      using w(3) by (simp_all add: store_codes_def split: if_splits)
    moreover have "code_shape ?c" "code_from d0 ?c" "jc_node_id ?c \<in> nd_id ` set (e_nodes (w_db w))"
      using assms w(2) by (auto simp: new_join_code_def code_shape_def code_from_def)
    ultimately have "nodes_since d0 d" using w(1) by (simp add: since_def nodes_since_def nodes_ok_def)
    then show "since d0 (w\<lparr>w_db := d\<rparr>) \<and> True" using w(1) by (simp add: since_def)
  qed
  have catch_commit: "keeps (since d0) Q (catch commit integrity_error h) (\<lambda>_ _. True)" for Q h
    by (auto simp: keeps_def catch_def commit_def since_def)
  show ?thesis
    unfolding issue_join_code_def require_enrollment_def Let_def
    by (rule check_first query_first)+
      (rule keeps_bind [OF keeps_require_enrolled_node], rule keeps_bind [OF keeps_join_profile], rule keeps_bind [OF keeps_pre [OF add]], simp,
        rule keeps_seq keeps_rest catch_commit, rule keeps_seq keeps_rest catch_commit,
        rule keeps_seq keeps_rest catch_commit, rule keeps_seq keeps_rest catch_commit, rule keeps_rest)
qed

lemma revocable_pending:
  "c \<in> set (snd (revocable d i x)) \<Longrightarrow> c \<in> set (e_codes d) \<and> pending c"
  "distinct (map jc_id (e_codes d)) \<Longrightarrow> distinct (map jc_id (snd (revocable d i x)))"
  by (auto simp: revocable_def pending_def distinct_map_filter find_Some_iff split: option.splits if_splits)

lemma revoked_follows: "pending c \<Longrightarrow> code_shape c \<Longrightarrow> code_follows c (revoked_code now c) \<and> code_shape (revoked_code now c)"
  by (simp add: code_follows_def code_shape_def revoked_code_def pending_def)

lemma keeps_revoke_codes: "keeps (since d0) P (revoke_join_codes now actor i x) (\<lambda>_ _. True)"
proof -
  have change: "keeps (since d0) (\<lambda>w. revocable (w_db w) i x = (st, cs))
      (modify (\<lambda>d. store_codes (fold (\<lambda>c. put_row jc_id (revoked_code now c)) cs (e_codes d)) d)) (\<lambda>_ _. True)" for st cs
  proof (rule keeps_modify)
    fix w d assume w: "since d0 w" "revocable (w_db w) i x = (st, cs)"
      "store_codes (fold (\<lambda>c. put_row jc_id (revoked_code now c)) cs (e_codes (w_db w))) (w_db w) = Inr d"
    let ?f = "\<lambda>y. case List.find (\<lambda>x. jc_id x = jc_id y) cs of None \<Rightarrow> y | Some x \<Rightarrow> revoked_code now x"
    have ok: "nodes_ok (w_db w)" using w(1) by (simp add: since_def nodes_since_def)
    have cs: "\<And>c. c \<in> set cs \<Longrightarrow> c \<in> set (e_codes (w_db w)) \<and> pending c" "distinct (map jc_id cs)"
      using revocable_pending [where d = "w_db w" and i = i and x = x] nodes_okD(4) [OF ok] w(2) by auto
    have "fold (\<lambda>c. put_row jc_id (revoked_code now c)) cs (e_codes (w_db w)) = map ?f (e_codes (w_db w))"
      by (rule fold_put_find [OF cs(2)]) (simp add: revoked_code_def)
    then have d: "d = (w_db w)\<lparr>e_codes := map ?f (e_codes (w_db w))\<rparr>" "codes_admissible (map ?f (e_codes (w_db w)))"
      using w(3) by (simp_all add: store_codes_def split: if_splits)
    have each: "code_follows c (?f c) \<and> code_shape (?f c)" if c: "c \<in> set (e_codes (w_db w))" for c
    proof (cases "List.find (\<lambda>x. jc_id x = jc_id c) cs")
      case None
      then show ?thesis using nodes_okD(7) [OF ok c] by (simp add: code_follows_refl)
    next
      case (Some b)
      then have b: "b \<in> set cs" "jc_id b = jc_id c" by (auto simp: find_Some_iff)
      then have "b = c" using cs(1) c nodes_okD(4) [OF ok] by (auto simp: distinct_map dest: inj_onD)
      then show ?thesis using Some cs(1) [OF b(1)] revoked_follows nodes_okD(7) [OF ok c] by simp
    qed
    have "nodes_since d0 d" unfolding d(1) using w(1) each d(2) by (intro since_map_codes) (auto simp: since_def)
    then show "since d0 (w\<lparr>w_db := d\<rparr>) \<and> True" using w(1) by (simp add: since_def)
  qed
  show ?thesis
    unfolding revoke_join_codes_def
    by (rule check_first, rule keeps_seq [OF keeps_require_any], rule check_first, rule keeps_bind [OF keeps_query], rule keeps_prod,
        rule keeps_bind [OF keeps_pre [OF change]], simp, (rule keeps_seq keeps_rest)+)
qed

end
