(* ===== verification/Enrollment_Exchange.thy ===== *)
theory Enrollment_Exchange
  imports Enrollment_Life
begin

text \<open>
  The exchange of a join code, exactly: who gets a token, who gets the same token again, and what is left behind.
\<close>

section \<open>The checks\<close>

text \<open>The code is for the release, the wrapper, the skill and the tree that the server has, and its profile digest is its own.\<close>

definition validated :: "node_settings \<Rightarrow> node_db \<Rightarrow> join_code \<Rightarrow> bool \<Rightarrow> exchange_request \<Rightarrow> node \<Rightarrow> bool" where
  "validated sv d c require_echo q n \<longleftrightarrow>
     join_profile_is_complete c \<and> jc_revoked c = None \<and> (xq_node_id q = None \<or> xq_node_id q = Some (jc_node_id c)) \<and>
     get_node_row d (jc_node_id c) = Some n \<and> nd_status n \<noteq> ''disabled'' \<and> jc_origin c = es_origin sv \<and>
     jc_release c = Some (es_release sv) \<and> jc_wrapper c = Some (es_wrapper sv) \<and> jc_skill c = Some (es_skill sv) \<and>
     jc_artifact c = Some (sha256_prefix (es_tree sv)) \<and>
     ascii_lower (or_empty (jc_profile c)) =
       join_profile_digest sv (es_origin sv) (jc_node_id c) (es_release sv) (es_wrapper sv) (es_skill sv) (jc_runtime c)
         (sha256_prefix (es_tree sv)) (jc_ego c) \<and>
     (require_echo \<longrightarrow> echoes c q)"

lemma validated_code:
  "validated sv d c require_echo q n \<longleftrightarrow>
     join_profile_is_complete c \<and> jc_revoked c = None \<and> (xq_node_id q = None \<or> xq_node_id q = Some (jc_node_id c)) \<and>
     get_node_row d (jc_node_id c) = Some n \<and> nd_status n \<noteq> ''disabled'' \<and> jc_origin c = es_origin sv \<and> profile_current sv c \<and>
     profile_intact sv c \<and> (require_echo \<longrightarrow> echoes c q)"
  by (auto simp: validated_def profile_current_def profile_intact_def or_empty_def)

lemma decides_validated:
  "decides w (validate_join_exchange_record sv c h e q) (\<lambda>n. (h = None \<or> h = Some (jc_hash c)) \<and> validated sv (w_db w) c e q n)"
proof -
  have tail: "decides w
      (case get_node_row (w_db w) (jc_node_id c) of None \<Rightarrow> api_error ''NODE_NOT_FOUND'' 404 | Some n \<Rightarrow>
       act_bind (check (nd_status n \<noteq> ''disabled'') ''NODE_NOT_FOUND'' 404) (\<lambda>_.
       act_bind (check (jc_origin c = es_origin sv) ''NODE_JOIN_CODE_PROFILE_MISMATCH'' 409) (\<lambda>_.
       act_bind (check (profile_current sv c) ''NODE_JOIN_CODE_PROFILE_MISMATCH'' 409) (\<lambda>_.
       act_bind (check (profile_intact sv c) ''NODE_JOIN_CODE_PROFILE_MISMATCH'' 409) (\<lambda>_.
       act_bind (check (\<not> e \<or> echoes c q) ''NODE_JOIN_CODE_PROFILE_MISMATCH'' 409) (\<lambda>_.
       ret n))))))
      (\<lambda>n. get_node_row (w_db w) (jc_node_id c) = Some n \<and> nd_status n \<noteq> ''disabled'' \<and> jc_origin c = es_origin sv \<and> profile_current sv c \<and>
        profile_intact sv c \<and> (e \<longrightarrow> echoes c q))"
    by (cases "get_node_row (w_db w) (jc_node_id c)") (auto simp: decides_def api_error_def throw_def act_simps ret_def)
  show ?thesis
    unfolding validate_join_exchange_record_def
    by (rule decides_cong [OF decides_bind [OF decides_check decides_bind [OF decides_check decides_bind [OF decides_check
        decides_bind [OF decides_check decides_bind [OF decides_query]]]]]]) (use tail in \<open>auto simp: validated_code\<close>)
qed

definition may_exchange :: "node_settings \<Rightarrow> node_db \<Rightarrow> exchange_request \<Rightarrow> join_code \<Rightarrow> node \<Rightarrow> bool" where
  "may_exchange sv d q c n \<longleftrightarrow>
     es_enrollment sv \<and> (\<forall>raw. xq_code q = Some raw \<longrightarrow> valid_join_code raw) \<and> valid_join_exchange_id (xq_exchange q) \<and>
     exchange_record sv q d = Some c \<and>
     (xq_code q = None \<or> code_by_exchange d (xq_exchange q) = None \<or> Some (jc_id c) = map_option jc_id (code_by_exchange d (xq_exchange q))) \<and>
     validated sv d c (xq_code q \<noteq> None) q n"

lemma record_hash: "exchange_record sv q d = Some c \<Longrightarrow> xq_code q = Some raw \<Longrightarrow> jc_hash c = es_hash sv raw"
  by (auto simp: exchange_record_def code_by_hash_def find_Some_iff)

lemma decides_exchange: "decides w (exchange_subject sv q) (\<lambda>(c, n). may_exchange sv (w_db w) q c n)"
proof -
  let ?d = "w_db w"
  have tail: "decides w
      (case exchange_record sv q ?d of None \<Rightarrow> api_error ''NODE_JOIN_CODE_INVALID'' 401 | Some c \<Rightarrow>
       act_bind (validate_join_exchange_record sv c (map_option (es_hash sv) (xq_code q)) (xq_code q \<noteq> None) q) (\<lambda>n. ret (c, n)))
      (\<lambda>(c, n). exchange_record sv q ?d = Some c \<and> validated sv ?d c (xq_code q \<noteq> None) q n)"
  proof (cases "exchange_record sv q ?d")
    case (Some c)
    have "decides w (act_bind (validate_join_exchange_record sv c (map_option (es_hash sv) (xq_code q)) (xq_code q \<noteq> None) q) (\<lambda>n. ret (c, n)))
        (\<lambda>z. \<exists>n. (map_option (es_hash sv) (xq_code q) = None \<or> map_option (es_hash sv) (xq_code q) = Some (jc_hash c)) \<and>
          validated sv ?d c (xq_code q \<noteq> None) q n \<and> z = (c, n))"
      by (rule decides_cong [OF decides_bind [OF decides_validated decides_ret]]) (auto simp: validated_def)
    then have "decides w (act_bind (validate_join_exchange_record sv c (map_option (es_hash sv) (xq_code q)) (xq_code q \<noteq> None) q) (\<lambda>n. ret (c, n)))
        (\<lambda>(c', n). exchange_record sv q ?d = Some c' \<and> validated sv ?d c' (xq_code q \<noteq> None) q n)"
      by (rule decides_cong) (use record_hash [OF Some] in \<open>auto simp: Some\<close>)
    then show ?thesis by (simp add: Some)
  qed (simp add: decides_def api_error_def throw_def)
  show ?thesis
    unfolding exchange_subject_def require_enrollment_def
    by (rule decides_cong [OF decides_bind [OF decides_check decides_bind [OF decides_check decides_bind [OF decides_check
        decides_bind [OF decides_query decides_bind [OF decides_query decides_bind [OF decides_check]]]]]]])
      (use tail in \<open>auto simp: may_exchange_def split: option.splits\<close>)
qed

lemma may_exchange_only: "may_exchange sv d q c n \<Longrightarrow> may_exchange sv d q c' n' \<Longrightarrow> c' = c \<and> n' = n"
  by (auto simp: may_exchange_def validated_def)

lemma exchange_found:
  assumes "nodes_ok d" "may_exchange sv d q c n"
  shows "c \<in> set (e_codes d)" "code_by_exchange d (xq_exchange q) = None \<or> code_by_exchange d (xq_exchange q) = Some c"
    "find_row nd_id (jc_node_id c) (e_nodes d) = Some n" "jc_revoked c = None" "code_shape c"
proof -
  show c: "c \<in> set (e_codes d)" using assms(2)
    by (auto simp: may_exchange_def exchange_record_def code_by_hash_def find_Some_iff split: option.splits)
  have bound: "b \<in> set (e_codes d) \<and> jc_exchange b = Some (xq_exchange q)" if "code_by_exchange d (xq_exchange q) = Some b" for b
    using that by (auto simp: code_by_exchange_def find_Some_iff)
  show "code_by_exchange d (xq_exchange q) = None \<or> code_by_exchange d (xq_exchange q) = Some c"
  proof (cases "code_by_exchange d (xq_exchange q)")
    case (Some b)
    show ?thesis
    proof (cases "xq_code q")
      case None
      then have "jc_exchange c = Some (xq_exchange q)"
        using assms(2) by (auto simp: may_exchange_def exchange_record_def find_Some_iff)
      then have "b = c" using bound [OF Some] c by (intro unique_indexD [OF nodes_okD(6,4) [OF assms(1)]]) auto
      then show ?thesis using Some by simp
    next
      case code: (Some raw)
      then have "jc_id b = jc_id c" using assms(2) Some by (simp add: may_exchange_def)
      then have "b = c" using bound [OF Some] c nodes_okD(4) [OF assms(1)] by (auto simp: distinct_map dest: inj_onD)
      then show ?thesis using Some by simp
    qed
  qed simp
  show "find_row nd_id (jc_node_id c) (e_nodes d) = Some n" "jc_revoked c = None"
    using assms(2) by (simp_all add: may_exchange_def validated_def get_node_row_def)
  show "code_shape c" by (rule nodes_okD(7) [OF assms(1) c])
qed

section \<open>The first exchange\<close>

definition joined_db :: "node_settings \<Rightarrow> time \<Rightarrow> pystr \<Rightarrow> nat \<Rightarrow> exchange_request \<Rightarrow> join_code \<Rightarrow> node \<Rightarrow> node_db \<Rightarrow> node_db" where
  "joined_db sv now random nonce q c n d =
     (let raw = create_opaque_token ''node'' random in
      d\<lparr>e_nodes := put_row nd_id (joined now q (es_hash sv raw) c n) (e_nodes d),
        e_codes := put_row jc_id (consumed_code now (xq_exchange q) (es_seal sv nonce raw) c) (e_codes d),
        e_audits := e_audits d @ [\<lparr>au_actor = None, au_action = ''node_api.join_code.exchange'', au_target = nd_id n\<rparr>]\<rparr>)"

definition joined_result :: "node_settings \<Rightarrow> time \<Rightarrow> pystr \<Rightarrow> nat \<Rightarrow> exchange_request \<Rightarrow> join_code \<Rightarrow> node \<Rightarrow> exchange_result" where
  "joined_result sv now random nonce q c n =
     (let raw = create_opaque_token ''node'' random in
      exchange_result_of (consumed_code now (xq_exchange q) (es_seal sv nonce raw) c) (joined now q (es_hash sv raw) c n) raw (xq_exchange q))"

lemma put_exchange_admissible:
  assumes "nodes_ok d" "c \<in> set (e_codes d)" "code_by_exchange d x = None \<or> code_by_exchange d x = Some c"
    "jc_id c' = jc_id c" "jc_hash c' = jc_hash c" "jc_exchange c' = Some x"
  shows "codes_admissible (put_row jc_id c' (e_codes d))"
proof -
  have same: "y = c" if "y \<in> set (e_codes d)" "jc_id y = jc_id c" for y
    using that assms(2) nodes_okD(4) [OF assms(1)] by (auto simp: distinct_map dest: inj_onD)
  have other: "jc_exchange y \<noteq> Some x" if y: "y \<in> set (e_codes d)" "jc_id y \<noteq> jc_id c" for y
  proof
    assume ex: "jc_exchange y = Some x"
    then have "code_by_exchange d x \<noteq> None" using y(1) by (auto simp: code_by_exchange_def find_None_iff)
    then have "code_by_exchange d x = Some c" using assms(3) by (cases "code_by_exchange d x") simp_all
    then have "jc_exchange c = Some x" by (auto simp: code_by_exchange_def find_Some_iff)
    then have "y = c" using ex y(1) assms(2) by (intro unique_indexD [OF nodes_okD(6,4) [OF assms(1)]]) auto
    then show False using y(2) by simp
  qed
  have "unique_index (\<lambda>c. jc_exchange c \<noteq> None) jc_exchange (put_row jc_id c' (e_codes d))"
    by (rule unique_index_put_new [OF nodes_okD(6,4) [OF assms(1)]]) (use other assms(4,6) in auto)
  moreover have "map jc_hash (put_row jc_id c' (e_codes d)) = map jc_hash (e_codes d)" using same assms(4,5) by (auto simp: put_row_def)
  ultimately show ?thesis using nodes_okD(4,5) [OF assms(1)] by (simp add: codes_admissible_def)
qed

lemma consume_run:
  assumes "nodes_ok (w_saved w)" "w_db w = w_saved w" "may_exchange sv (w_saved w) q c n"
  shows "consume_join_code sv now random nonce q c n w =
    (let d = joined_db sv now random nonce q c n (w_saved w) in
     if nodes_admissible (e_nodes d) then (w\<lparr>w_db := d, w_saved := d\<rparr>, Inr (joined_result sv now random nonce q c n))
     else (w\<lparr>w_db := (w_saved w)\<lparr>e_codes := put_row jc_id (c\<lparr>jc_exchange := Some (xq_exchange q)\<rparr>) (e_codes (w_saved w))\<rparr>\<rparr>, Inl integrity_error))"
proof -
  let ?d = "w_saved w" and ?c1 = "c\<lparr>jc_exchange := Some (xq_exchange q)\<rparr>" and ?raw = "create_opaque_token ''node'' random"
  let ?c2 = "consumed_code now (xq_exchange q) (es_seal sv nonce ?raw) c"
  note found = exchange_found(1,2) [OF assms(1,3)]
  have "codes_admissible (put_row jc_id ?c1 (e_codes ?d))" "codes_admissible (put_row jc_id ?c2 (e_codes ?d))"
    by (rule put_exchange_admissible [OF assms(1) found]; simp add: consumed_code_def)+
  moreover have "put_row jc_id ?c2 (put_row jc_id ?c1 (e_codes ?d)) = put_row jc_id ?c2 (e_codes ?d)"
    by (rule put_row_twice) (simp add: consumed_code_def)
  ultimately show ?thesis
    by (simp add: consume_join_code_def save_code_def save_node_def node_audit_def act_simps modify_step ret_def store_codes_def store_nodes_def
        assms(2) joined_db_def joined_result_def Let_def)
qed

text \<open>When the storage refuses the token, the code is found as it was and there is no result to return.\<close>

lemma recover_run:
  assumes "nodes_ok (w_saved w)" "may_exchange sv (w_saved w) q c n" "jc_consumed c = None"
  shows "\<exists>e. recover_join_exchange sv now (jc_id c) (jc_hash c) q w = (w\<lparr>w_db := w_saved w\<rparr>, Inl e)"
proof -
  let ?w = "w\<lparr>w_db := w_saved w\<rparr>"
  have roll: "act_bind rollback f w = f () ?w" for f :: "unit \<Rightarrow> exchange_result nact"
    by (simp add: act_bind_def rollback_def)
  have none: "consumed_join_exchange_result sv now c m x v = (v, Inl (ApiError ''UNKNOWN_RESULT'' 503))" for m x v
    using exchange_found(5) [OF assms(1,2)] assms(3)
    by (simp add: code_shape_def consumed_join_exchange_result_def api_error_def throw_def)
  consider "code_by_exchange (w_saved w) (xq_exchange q) = None" | "code_by_exchange (w_saved w) (xq_exchange q) = Some c"
    using exchange_found(2) [OF assms(1,2)] by auto
  then show ?thesis
  proof cases
    case 1
    then show ?thesis by (simp add: recover_join_exchange_def roll act_simps api_error_def throw_def)
  next
    case 2
    consider m where "validate_join_exchange_record sv c (Some (jc_hash c)) True q ?w = (?w, Inr m)"
      | k j where "validate_join_exchange_record sv c (Some (jc_hash c)) True q ?w = (?w, Inl (ApiError k j))"
      using decides_validated [of ?w sv c "Some (jc_hash c)" True q] by (auto simp: decides_def)
    then show ?thesis
      by cases (simp_all add: recover_join_exchange_def roll act_simps 2 act_bind_Inr act_bind_Inl none)
  qed
qed

section \<open>Every exchange\<close>

definition recoverable :: "node_settings \<Rightarrow> time \<Rightarrow> join_code \<Rightarrow> node \<Rightarrow> pystr \<Rightarrow> pystr \<Rightarrow> bool" where
  "recoverable sv now c n x raw \<longleftrightarrow> jc_consumed c \<noteq> None \<and> jc_exchange c = Some x \<and>
     (\<exists>t. jc_result_expires c = Some t \<and> now < t) \<and> (\<exists>sealed. jc_sealed c = Some sealed \<and> es_open sv sealed = Some raw) \<and>
     nd_token n = Some (es_hash sv raw)"

lemma decides_recoverable:
  assumes "jc_consumed c \<noteq> None"
  shows "decides w (consumed_join_exchange_result sv now c n x) (\<lambda>r. \<exists>raw. recoverable sv now c n x raw \<and> r = exchange_result_of c n raw x)"
proof -
  consider "jc_sealed c = None" | "jc_result_expires c = None" | s t where "jc_sealed c = Some s" "jc_result_expires c = Some t"
    by (cases "jc_sealed c"; cases "jc_result_expires c") auto
  then show ?thesis
  proof cases
    case (3 s t)
    then show ?thesis using assms
      by (cases "es_open sv s")
        (auto simp: decides_def consumed_join_exchange_result_def act_simps api_error_def throw_def ret_def recoverable_def)
  qed (auto simp: decides_def consumed_join_exchange_result_def act_simps api_error_def throw_def recoverable_def split: option.splits)
qed

definition may_join :: "node_settings \<Rightarrow> time \<Rightarrow> pystr \<Rightarrow> nat \<Rightarrow> exchange_request \<Rightarrow> node_db \<Rightarrow> join_code \<Rightarrow> node \<Rightarrow> bool" where
  "may_join sv now random nonce q d c n \<longleftrightarrow> may_exchange sv d q c n \<and> jc_consumed c = None \<and> now < jc_expires c \<and>
     nodes_admissible (e_nodes (joined_db sv now random nonce q c n d))"

definition may_recover :: "node_settings \<Rightarrow> time \<Rightarrow> exchange_request \<Rightarrow> node_db \<Rightarrow> join_code \<Rightarrow> node \<Rightarrow> pystr \<Rightarrow> bool" where
  "may_recover sv now q d c n raw \<longleftrightarrow> may_exchange sv d q c n \<and> recoverable sv now c n (xq_exchange q) raw"

lemma exchange_used:
  fixes c :: join_code
  assumes "exchange_subject sv q (w\<lparr>w_db := w_saved w\<rparr>) = (w\<lparr>w_db := w_saved w\<rparr>, Inr (c, n))" "jc_consumed c \<noteq> None"
  shows "(\<exists>raw. recoverable sv now c n (xq_exchange q) raw \<and>
      run_request (exchange_join_code sv now random nonce q) w = (w\<lparr>w_db := w_saved w\<rparr>, Inr (exchange_result_of c n raw (xq_exchange q)))) \<or>
    (\<forall>raw. \<not> recoverable sv now c n (xq_exchange q) raw) \<and>
      (\<exists>e. run_request (exchange_join_code sv now random nonce q) w = (w\<lparr>w_db := w_saved w\<rparr>, Inl e))"
proof -
  let ?w = "w\<lparr>w_db := w_saved w\<rparr>"
  have run: "run_request (exchange_join_code sv now random nonce q) w =
      (case consumed_join_exchange_result sv now c n (xq_exchange q) ?w of (w', r) \<Rightarrow> (w'\<lparr>w_db := w_saved w'\<rparr>, r))"
    by (simp add: run_request_def exchange_join_code_def act_bind_def [of "exchange_subject sv q"] assms)
  consider (yes) raw where "recoverable sv now c n (xq_exchange q) raw"
      "consumed_join_exchange_result sv now c n (xq_exchange q) ?w = (?w, Inr (exchange_result_of c n raw (xq_exchange q)))"
    | (no) k j where "\<And>raw. \<not> recoverable sv now c n (xq_exchange q) raw"
      "consumed_join_exchange_result sv now c n (xq_exchange q) ?w = (?w, Inl (ApiError k j))"
    using decides_recoverable [OF assms(2), of ?w sv now n "xq_exchange q"] unfolding decides_def by metis
  then show ?thesis by cases (auto simp: run)
qed

lemma exchange_unused:
  fixes c :: join_code
  assumes "nodes_ok (w_saved w)" "exchange_subject sv q (w\<lparr>w_db := w_saved w\<rparr>) = (w\<lparr>w_db := w_saved w\<rparr>, Inr (c, n))"
    "may_exchange sv (w_saved w) q c n" "jc_consumed c = None"
  shows "if may_join sv now random nonce q (w_saved w) c n
    then run_request (exchange_join_code sv now random nonce q) w =
      (let d = joined_db sv now random nonce q c n (w_saved w) in (w\<lparr>w_db := d, w_saved := d\<rparr>, Inr (joined_result sv now random nonce q c n)))
    else \<exists>e. run_request (exchange_join_code sv now random nonce q) w = (w\<lparr>w_db := w_saved w\<rparr>, Inl e)"
proof -
  let ?w = "w\<lparr>w_db := w_saved w\<rparr>" and ?d = "w_saved w"
  let ?w1 = "?w\<lparr>w_db := ?d\<lparr>e_codes := put_row jc_id (c\<lparr>jc_exchange := Some (xq_exchange q)\<rparr>) (e_codes ?d)\<rparr>\<rparr>"
  have run: "run_request (exchange_join_code sv now random nonce q) w =
    (if now < jc_expires c
     then run_request (catch (consume_join_code sv now random nonce q c n) integrity_error
       (recover_join_exchange sv now (jc_id c) (jc_hash c) q)) w
     else (?w, Inl (ApiError ''NODE_JOIN_CODE_EXPIRED'' 410)))"
    by (simp add: run_request_def exchange_join_code_def act_bind_def [of "exchange_subject sv q"] assms act_simps)
  obtain e where "recover_join_exchange sv now (jc_id c) (jc_hash c) q ?w1 = (?w, Inl e)"
    using recover_run [of ?w1 sv q c n now] assms by auto
  then show ?thesis
    using consume_run [of ?w sv q c n now random nonce] assms
    by (subst (1 2) run) (simp add: may_join_def run_request_def catch_def Let_def)
qed

lemma exchange_cases:
  assumes "nodes_ok (w_saved w)"
  obtains (joins) c n where "may_join sv now random nonce q (w_saved w) c n"
      "run_request (exchange_join_code sv now random nonce q) w =
        (let d = joined_db sv now random nonce q c n (w_saved w) in (w\<lparr>w_db := d, w_saved := d\<rparr>, Inr (joined_result sv now random nonce q c n)))"
    | (recovers) c n raw where "may_recover sv now q (w_saved w) c n raw"
      "run_request (exchange_join_code sv now random nonce q) w = (w\<lparr>w_db := w_saved w\<rparr>, Inr (exchange_result_of c n raw (xq_exchange q)))"
    | (refused) e where "\<And>c n. \<not> may_join sv now random nonce q (w_saved w) c n" "\<And>c n raw. \<not> may_recover sv now q (w_saved w) c n raw"
      "run_request (exchange_join_code sv now random nonce q) w = (w\<lparr>w_db := w_saved w\<rparr>, Inl e)"
proof -
  let ?w = "w\<lparr>w_db := w_saved w\<rparr>" and ?d = "w_saved w"
  consider (some) c n where "exchange_subject sv q ?w = (?w, Inr (c, n))" "may_exchange sv ?d q c n"
    | (none) k j where "\<And>c n. \<not> may_exchange sv ?d q c n" "exchange_subject sv q ?w = (?w, Inl (ApiError k j))"
    using decides_exchange [of ?w sv q] unfolding decides_def by auto
  then show thesis
  proof cases
    case none
    then show thesis
      by (intro refused) (auto simp: may_join_def may_recover_def run_request_def exchange_join_code_def act_bind_Inl)
  next
    case some
    have join: "\<not> may_join sv now random nonce q ?d c' n'" if "\<not> may_join sv now random nonce q ?d c n" for c' n'
      using that may_exchange_only [OF some(2), of c' n'] by (metis may_join_def)
    have recover: "recoverable sv now c n (xq_exchange q) raw" if "may_recover sv now q ?d c' n' raw" for c' n' raw
      using that may_exchange_only [OF some(2), of c' n'] by (metis may_recover_def)
    show thesis
    proof (cases "jc_consumed c = None")
      case True
      then have "\<not> may_recover sv now q ?d c' n' raw" for c' n' raw using recover [of c' n' raw] by (auto simp: recoverable_def)
      then show thesis using exchange_unused [OF assms some True, of now random nonce] join joins refused by metis
    next
      case False
      then have "\<not> may_join sv now random nonce q ?d c n" by (simp add: may_join_def)
      then show thesis
        using exchange_used [OF some(1) False, of now random nonce] recover join recovers refused some(2) by (metis may_recover_def)
    qed
  qed
qed

end
