(* ===== verification/Enrollment_Contract.thy ===== *)
theory Enrollment_Contract
  imports Enrollment_Exchange
begin

text \<open>The properties of enrollment, each with a run that shows it at work.\<close>

section \<open>Sequences of requests\<close>

datatype node_request =
    Create_node uuid pystr user_row node
  | Rotate_token pystr user_row uuid
  | Issue_code uuid pystr user_row uuid int "bool option" "pystr option"
  | Revoke_codes user_row uuid "pystr option"
  | Exchange_code pystr nat exchange_request
  | Register_node pystr uuid pystr pystr
  | Heartbeat pystr heartbeat_request
  | List_nodes
  | Get_node uuid
  | Expire_stale
  | Update_node user_row uuid node_change
  | Disable_node user_row uuid
  | Delete_node user_row uuid

fun node_step :: "node_settings \<Rightarrow> time \<Rightarrow> node_request \<Rightarrow> unit nact" where
  "node_step sv now (Create_node i random actor given) = discard (create_node sv i random actor given)"
| "node_step sv now (Rotate_token random actor i) = discard (rotate_registration_token sv random actor i)"
| "node_step sv now (Issue_code i random actor node_id expires_in ego x) =
     discard (issue_join_code sv now i random actor node_id expires_in ego x)"
| "node_step sv now (Revoke_codes actor i x) = discard (revoke_join_codes now actor i x)"
| "node_step sv now (Exchange_code random nonce q) = discard (exchange_join_code sv now random nonce q)"
| "node_step sv now (Register_node random i token v) = discard (register_node sv now random i token v)"
| "node_step sv now (Heartbeat token q) = route_heartbeat sv now token q"
| "node_step sv now List_nodes = discard (list_nodes sv now)"
| "node_step sv now (Get_node i) = discard (get_node sv now i)"
| "node_step sv now Expire_stale = discard (expire_stale_nodes sv now)"
| "node_step sv now (Update_node actor i c) = discard (update_node actor i c)"
| "node_step sv now (Disable_node actor i) = discard (disable_node actor i)"
| "node_step sv now (Delete_node actor i) = delete_node actor i"

definition node_serve :: "node_settings \<Rightarrow> time \<Rightarrow> node_request \<Rightarrow> node_world \<Rightarrow> node_world" where
  "node_serve sv now q w = fst (run_request (node_step sv now q) w)"

text \<open>A new join code has an id and a hash that no code of the start has.\<close>

fun fresh_draw :: "node_settings \<Rightarrow> node_db \<Rightarrow> node_request \<Rightarrow> bool" where
  "fresh_draw sv d (Issue_code i random actor node_id expires_in ego x) \<longleftrightarrow>
     i \<notin> jc_id ` set (e_codes d) \<and> es_hash sv (lit ''jcode_'' @ random) \<notin> jc_hash ` set (e_codes d)"
| "fresh_draw sv d _ \<longleftrightarrow> True"

inductive node_evolves :: "node_settings \<Rightarrow> node_world \<Rightarrow> node_world \<Rightarrow> bool" for sv w where
  Same: "node_evolves sv w w"
| Serve: "node_evolves sv w w' \<Longrightarrow> fresh_draw sv (w_saved w) q \<Longrightarrow> node_evolves sv w (node_serve sv now q w')"
| Others: "node_evolves sv w w' \<Longrightarrow> e_nodes d = e_nodes (w_saved w') \<Longrightarrow> e_codes d = e_codes (w_saved w') \<Longrightarrow>
    node_evolves sv w (w'\<lparr>w_db := d, w_saved := d\<rparr>)"

lemma since_joined:
  assumes "nodes_since d0 d" "may_join sv now random nonce q d c n"
  shows "nodes_since d0 (joined_db sv now random nonce q c n d)"
proof -
  let ?raw = "create_opaque_token ''node'' random"
  let ?n = "joined now q (es_hash sv ?raw) c n" and ?c = "consumed_code now (xq_exchange q) (es_seal sv nonce ?raw) c"
  let ?d = "d\<lparr>e_nodes := put_row nd_id ?n (e_nodes d)\<rparr>"
  have ok: "nodes_ok d" "may_exchange sv d q c n" "jc_consumed c = None"
    using assms by (simp_all add: nodes_since_def may_join_def)
  note f = exchange_found [OF ok(1,2)]
  have "nodes_admissible (put_row nd_id ?n (e_nodes d))" using assms(2) by (simp add: may_join_def joined_db_def Let_def)
  then have "store_nodes (put_row nd_id ?n (e_nodes d)) d = Inr ?d" by (simp add: store_nodes_def)
  then have d1: "nodes_since d0 ?d" using since_store_nodes [OF assms(1)] by (simp add: put_row_image)
  have "nodes_since d0 (?d\<lparr>e_codes := put_row jc_id ?c (e_codes ?d)\<rparr>)"
  proof (rule since_put_code [OF d1, of c])
    show "codes_admissible (put_row jc_id ?c (e_codes ?d))"
      using put_exchange_admissible [OF ok(1) f(1,2)] by (simp add: consumed_code_def)
  qed (use f ok(3) in \<open>simp_all add: code_follows_def consumed_code_def pending_def code_shape_def\<close>)
  then show ?thesis by (rule since_same) (simp_all add: joined_db_def Let_def)
qed

lemma since_run:
  assumes "keeps (since d0) (\<lambda>_. True) m (\<lambda>_ _. True)" "nodes_since d0 (w_saved w)"
  shows "nodes_since d0 (w_saved (fst (run_request m w)))"
proof -
  obtain w' r where r: "m (w\<lparr>w_db := w_saved w\<rparr>) = (w', r)" by (cases "m (w\<lparr>w_db := w_saved w\<rparr>)")
  have "since d0 (w\<lparr>w_db := w_saved w\<rparr>)" using assms(2) by (simp add: since_def)
  then have "since d0 w'" using keepsD [OF assms(1) _ _ r] by blast
  then show ?thesis using r by (simp add: run_request_def since_def)
qed

lemma serve_since:
  assumes "nodes_since d0 (w_saved w)" "fresh_draw sv d0 q"
  shows "nodes_since d0 (w_saved (node_serve sv now q w))"
proof (cases q)
  case (Exchange_code random nonce r)
  have ok: "nodes_ok (w_saved w)" using assms(1) by (simp add: nodes_since_def)
  show ?thesis
    by (cases rule: exchange_cases [OF ok, where sv = sv and now = now and random = random and nonce = nonce and q = r])
      (use assms(1) since_joined in \<open>auto simp: node_serve_def Exchange_code run_discard Let_def\<close>)
next
  case (Issue_code i random actor node_id expires_in ego x)
  then show ?thesis unfolding node_serve_def using assms by (auto intro!: since_run keeps_discard keeps_issue)
qed (use assms(1) in \<open>auto simp: node_serve_def intro!: since_run keeps_discard keeps_revoke_codes keeps_node_requests keeps_node_routes
  keeps_delete_node\<close>)

lemma evolves_since: "node_evolves sv w w' \<Longrightarrow> nodes_ok (w_saved w) \<Longrightarrow> nodes_since (w_saved w) (w_saved w')"
proof (induction rule: node_evolves.induct)
  case (Others w' d)
  then show ?case using since_same by auto
qed (simp_all add: since_refl serve_since)

section \<open>After an exchange\<close>

lemma exchange_runs:
  assumes "nodes_ok (w_saved w)" "run_request (exchange_join_code sv now random nonce q) w = (w1, Inr r)"
  obtains c n raw where "may_exchange sv (w_saved w) q c n" "nodes_since (w_saved w) (w_saved w1)" "xr_token r = raw" "xr_exchange r = xq_exchange q"
    "\<exists>n'. find_row nd_id (jc_node_id c) (e_nodes (w_saved w1)) = Some n' \<and> nd_token n' = Some (es_hash sv raw) \<and> nd_status n' \<noteq> ''disabled'' \<and>
      xr_node r = n'"
    "\<exists>c1 \<in> set (e_codes (w_saved w1)). code_follows c c1 \<and> jc_consumed c1 \<noteq> None \<and> jc_exchange c1 = Some (xq_exchange q) \<and>
      (\<exists>sealed. jc_sealed c1 = Some sealed \<and> (es_open sv sealed = Some raw \<or> (\<exists>k. sealed = es_seal sv k raw)))"
proof (cases rule: exchange_cases [OF assms(1), where sv = sv and now = now and random = random and nonce = nonce and q = q])
  case (1 c n)
  let ?raw = "create_opaque_token ''node'' random"
  let ?c = "consumed_code now (xq_exchange q) (es_seal sv nonce ?raw) c" and ?n = "joined now q (es_hash sv ?raw) c n"
  have w1: "w_saved w1 = joined_db sv now random nonce q c n (w_saved w)" "r = joined_result sv now random nonce q c n"
    using 1(2) assms(2) by (auto simp: Let_def)
  have may: "may_exchange sv (w_saved w) q c n" "jc_consumed c = None" using 1(1) by (simp_all add: may_join_def)
  note f = exchange_found [OF assms(1) may(1)]
  have "find_row nd_id (jc_node_id c) (put_row nd_id ?n (e_nodes (w_saved w))) = Some ?n"
    using f(3) find_row_Some [OF f(3)] by (simp add: find_put_row joined_def enrolled_def)
  moreover have "?c \<in> set (put_row jc_id ?c (e_codes (w_saved w)))"
    using f(1) by (rule put_row_in) (simp add: consumed_code_def)
  moreover have "code_follows c ?c" using f(4) may(2) by (simp add: code_follows_def consumed_code_def pending_def)
  ultimately show thesis
    using since_joined [OF since_refl [OF assms(1)] 1(1)] w1
    by (intro that [of c n ?raw] may(1) bexI [of _ ?c])
      (auto simp: joined_db_def joined_result_def exchange_result_of_def joined_def enrolled_def Let_def consumed_code_def)
next
  case (2 c n raw)
  then have may: "may_exchange sv (w_saved w) q c n" and rec: "recoverable sv now c n (xq_exchange q) raw"
    by (simp_all add: may_recover_def)
  note f = exchange_found [OF assms(1) may]
  have "nd_status n \<noteq> ''disabled''" using may by (simp add: may_exchange_def validated_def)
  then show thesis using 2(2) assms(2) rec f since_refl [OF assms(1)]
    by (intro that [of c n raw] may bexI [of _ c]) (auto simp: exchange_result_of_def recoverable_def code_follows_refl)
next
  case (3 e)
  then show thesis using assms(2) by simp
qed

lemma same_code_later:
  assumes "nodes_ok d0" "nodes_since d0 d" "c \<in> set (e_codes d0)" "\<not> pending c" "c' \<in> set (e_codes d)" "jc_id c' = jc_id c \<or> jc_hash c' = jc_hash c"
  shows "c' = c"
proof -
  have "code_from d0 c'" using assms(2,5) by (simp add: nodes_since_def list_all_iff)
  then have "code_follows c c'" by (rule code_from_same [OF assms(1) _ assms(3,6)])
  then show ?thesis using assms(4) unfolding code_follows_def by blast
qed

lemma found_by_hash: "exchange_record sv q d = Some c \<Longrightarrow> xq_code q = Some raw \<Longrightarrow> c \<in> set (e_codes d) \<and> jc_hash c = es_hash sv raw"
  by (auto simp: exchange_record_def code_by_hash_def find_Some_iff)

lemma may_exchange_record: "may_exchange sv d q c n \<Longrightarrow> exchange_record sv q d = Some c"
  by (simp add: may_exchange_def)

lemma nodes_ok_token:
  assumes "nodes_ok d" "n \<in> set (e_nodes d)" "nd_token n = Some h"
  shows "get_node_by_token_hash d h = Some n"
proof -
  have u: "unique_index (\<lambda>n. nd_token n \<noteq> None) nd_token (e_nodes d)" using assms(1) by (simp add: nodes_ok_def nodes_admissible_def)
  have "m = n" if "m \<in> set (e_nodes d)" "nd_token m = Some h" for m
  proof -
    have "nd_token m \<noteq> None" "nd_token n \<noteq> None" "nd_token m = nd_token n" using that(2) assms(3) by simp_all
    then show ?thesis by (rule unique_indexD [OF u nodes_okD(1) [OF assms(1)] that(1) assms(2)])
  qed
  then show ?thesis unfolding get_node_by_token_hash_def by (rule find_the [where P = "\<lambda>n. nd_token n = Some h", OF assms(2,3)])
qed

text \<open>What an exchange that may join or recover does.\<close>

lemma validated_consumed: "validated sv d (consumed_code now x sealed c) e q n \<longleftrightarrow> validated sv d c e q n"
  by (simp add: validated_def consumed_code_def join_profile_is_complete_def profile_current_def profile_intact_def echoes_def)

lemma join_run:
  assumes "nodes_ok (w_saved w)" "may_join sv now random nonce q (w_saved w) c n"
  shows "run_request (exchange_join_code sv now random nonce q) w =
    (let d = joined_db sv now random nonce q c n (w_saved w) in (w\<lparr>w_db := d, w_saved := d\<rparr>, Inr (joined_result sv now random nonce q c n)))"
proof -
  have may: "may_exchange sv (w_saved w) q c n" "jc_consumed c = None" using assms(2) by (simp_all add: may_join_def)
  note only = may_exchange_only [OF may(1)]
  show ?thesis
  proof (cases rule: exchange_cases [OF assms(1), where sv = sv and now = now and random = random and nonce = nonce and q = q])
    case (1 c' n')
    then have "may_exchange sv (w_saved w) q c' n'" by (simp add: may_join_def)
    then have "c' = c \<and> n' = n" by (rule only)
    then show ?thesis using 1(2) by simp
  next
    case (2 c' n' raw)
    then have "may_exchange sv (w_saved w) q c' n'" by (simp add: may_recover_def)
    then have "c' = c" using only by blast
    then show ?thesis using 2(1) may(2) by (simp add: may_recover_def recoverable_def)
  next
    case (3 e)
    then show ?thesis using assms(2) by blast
  qed
qed

lemma recovery_run:
  assumes "nodes_ok (w_saved w)" "may_recover sv now q (w_saved w) c n raw"
  shows "run_request (exchange_join_code sv now random nonce q) w = (w\<lparr>w_db := w_saved w\<rparr>, Inr (exchange_result_of c n raw (xq_exchange q)))"
proof -
  have may: "may_exchange sv (w_saved w) q c n" "recoverable sv now c n (xq_exchange q) raw" using assms(2) by (simp_all add: may_recover_def)
  note only = may_exchange_only [OF may(1)]
  show ?thesis
  proof (cases rule: exchange_cases [OF assms(1), where sv = sv and now = now and random = random and nonce = nonce and q = q])
    case (1 c' n')
    then have "may_exchange sv (w_saved w) q c' n'" by (simp add: may_join_def)
    then have "c' = c" using only by blast
    then show ?thesis using 1(1) may(2) by (simp add: may_join_def recoverable_def)
  next
    case (2 c' n' raw')
    then have "may_exchange sv (w_saved w) q c' n'" by (simp add: may_recover_def)
    then have "c' = c \<and> n' = n" by (rule only)
    moreover then have "raw' = raw" using 2(1) may(2) by (auto simp: may_recover_def recoverable_def)
    ultimately show ?thesis using 2(2) by simp
  next
    case (3 e)
    then show ?thesis using assms(2) by blast
  qed
qed

lemma exchange_again:
  assumes "nodes_ok d" "c \<in> set (e_codes d)" "jc_exchange c = Some (xq_exchange q)" "jc_consumed c \<noteq> None"
    "\<And>raw. xq_code q = Some raw \<Longrightarrow> valid_join_code raw \<and> jc_hash c = es_hash sv raw" "es_enrollment sv" "valid_join_exchange_id (xq_exchange q)"
    "validated sv d c (xq_code q \<noteq> None) q n"
  shows "may_exchange sv d q c n"
proof -
  have only: "y = c" if "y \<in> set (e_codes d)" "jc_exchange y = Some (xq_exchange q)" for y
  proof -
    have "jc_exchange y \<noteq> None" "jc_exchange c \<noteq> None" "jc_exchange y = jc_exchange c" using that(2) assms(3) by simp_all
    then show ?thesis by (rule unique_indexD [OF nodes_okD(6,4) [OF assms(1)] that(1) assms(2)])
  qed
  have bound: "code_by_exchange d (xq_exchange q) = Some c"
    unfolding code_by_exchange_def
    by (rule find_the [where P = "\<lambda>c. jc_exchange c = Some (xq_exchange q)", OF assms(2,3)]) (rule only)
  have "exchange_record sv q d = Some c"
  proof (cases "xq_code q")
    case None
    have "List.find (\<lambda>c. jc_exchange c = Some (xq_exchange q) \<and> jc_consumed c \<noteq> None) (e_codes d) = Some c"
      by (rule find_the [OF assms(2)]) (use assms(3,4) only in simp_all)
    then show ?thesis by (simp add: exchange_record_def None)
  next
    case (Some raw)
    have h: "jc_hash c = es_hash sv raw" using assms(5) [OF Some] by simp
    have "List.find (\<lambda>c. jc_hash c = es_hash sv raw) (e_codes d) = Some c"
    proof (rule find_the [where P = "\<lambda>c. jc_hash c = es_hash sv raw", OF assms(2) h])
      fix y assume "y \<in> set (e_codes d)" "jc_hash y = es_hash sv raw"
      then show "y = c" using h assms(2) nodes_okD(5) [OF assms(1)] by (metis distinct_map inj_onD)
    qed
    then show ?thesis by (simp add: exchange_record_def code_by_hash_def Some)
  qed
  then show ?thesis using assms(5-8) bound by (simp add: may_exchange_def)
qed

section \<open>A small installation\<close>

definition nx_settings :: node_settings where
  "nx_settings = \<lparr>es_enrollment = True, es_bridge = True, es_origin = [111], es_release = [114], es_wrapper = [119], es_skill = [115],
     es_tree = [116], es_offline_after = 90, es_hash = (\<lambda>s. 104 # s), es_seal = (\<lambda>k s. k # s), es_open = (\<lambda>b. Some (tl b)),
     es_sha = (\<lambda>b. [97])\<rparr>"

definition nx_admin :: user_row where "nx_admin = \<lparr>u_id = 1, u_role = ''admin'', u_status = ''active''\<rparr>"

definition nx_node :: node where
  "nx_node = \<lparr>nd_id = 6, nd_name = [110], nd_status = ''offline'', nd_region = [], nd_tags = [], nd_weight = 100, nd_wireguard_ip = None,
     nd_wireguard_key = None, nd_wireguard_endpoint = None, nd_ssh_host = None, nd_ssh_port = None, nd_ssh_user = None, nd_tools = [],
     nd_allowed = [[110]], nd_default = [110], nd_policy = [], nd_capabilities = [], nd_ego_enabled = False,
     nd_registration = None, nd_token = None, nd_heartbeat = None, nd_version = None\<rparr>"

definition nx_exchange_id :: "nat \<Rightarrow> pystr" where "nx_exchange_id k = replicate 15 97 @ [k]"

definition nx_raw :: pystr where "nx_raw = lit ''jcode_'' @ replicate 12 98"

definition nx_code :: join_code where
  "nx_code = \<lparr>jc_id = 70, jc_node_id = 6, jc_issuer = 1, jc_hash = 104 # nx_raw, jc_origin = [111], jc_release = Some [114],
     jc_wrapper = Some [119], jc_skill = Some [115], jc_runtime = None, jc_artifact = Some (sha256_prefix [116]), jc_profile = Some [97],
     jc_ego = Some True, jc_expires = 900001000, jc_consumed = None, jc_revoked = None, jc_exchange = Some (nx_exchange_id 97),
     jc_sealed = None, jc_result_expires = None\<rparr>"

definition nx_db :: node_db where
  "nx_db = \<lparr>e_nodes = [nx_node], e_codes = [nx_code], e_heartbeats = [], e_referenced = [], e_browser_history = [], e_calls = [], e_audits = []\<rparr>"

definition nx_world :: node_world where "nx_world = \<lparr>w_db = nx_db, w_saved = nx_db\<rparr>"

definition nx_request :: "nat \<Rightarrow> exchange_request" where
  "nx_request k = \<lparr>xq_node_id = Some 6, xq_version = [49], xq_code = Some nx_raw, xq_exchange = nx_exchange_id k,
     xq_release = None, xq_wrapper = Some [119], xq_skill = Some [115], xq_runtime = None, xq_artifact = Some (sha256_prefix [116]),
     xq_profile = None, xq_ego = None\<rparr>"

lemma nx_ok: "nodes_ok (w_saved nx_world)"
  by (simp add: nx_world_def nx_db_def nodes_ok_def nodes_admissible_def codes_admissible_def unique_index_def nx_node_def node_statuses_def
      nx_code_def code_shape_def)

lemma nx_may_join:
  assumes "k \<in> {97, 98}"
  shows "may_join nx_settings 2000 [120] 5 (nx_request k) (w_saved nx_world) nx_code nx_node"
proof -
  have "valid_join_exchange_id (nx_exchange_id k)" "valid_join_code nx_raw" using assms
    by (auto simp: valid_join_exchange_id_def nx_exchange_id_def valid_join_code_def nx_raw_def lit_def list_all_iff)
  moreover have "code_by_exchange nx_db (nx_exchange_id k) = (if k = 97 then Some nx_code else None)"
    by (auto simp: code_by_exchange_def nx_db_def nx_code_def nx_exchange_id_def)
  moreover have "exchange_record nx_settings (nx_request k) nx_db = Some nx_code"
    by (simp add: exchange_record_def nx_request_def code_by_hash_def nx_db_def nx_code_def nx_settings_def)
  moreover have "validated nx_settings nx_db nx_code True (nx_request k) nx_node"
    by (simp add: validated_def join_profile_is_complete_def filled_def nx_code_def nx_request_def get_node_row_def nx_db_def find_row_def nx_node_def
        nx_settings_def profile_current_def profile_intact_def join_profile_digest_def or_empty_def ascii_lower_def echoes_def agrees_def
        sha256_prefix_def lit_def)
  ultimately have "may_exchange nx_settings nx_db (nx_request k) nx_code nx_node"
    by (auto simp: may_exchange_def nx_settings_def nx_request_def)
  then show ?thesis
    by (simp add: may_join_def nx_world_def nx_code_def joined_db_def Let_def nx_db_def put_row_def nx_node_def joined_def enrolled_def
        nodes_admissible_def unique_index_def node_statuses_def)
qed

definition nx_joined :: node_world where "nx_joined = fst (run_request (exchange_join_code nx_settings 2000 [120] 5 (nx_request 97)) nx_world)"

definition nx_result :: exchange_result where
  "nx_result = joined_result nx_settings 2000 [120] 5 (nx_request 97) nx_code nx_node"

lemma nx_joins: "run_request (exchange_join_code nx_settings 2000 [120] 5 (nx_request 97)) nx_world = (nx_joined, Inr nx_result)"
  using join_run [OF nx_ok nx_may_join [of 97]] by (simp add: nx_joined_def nx_result_def Let_def)

lemma nx_joined_db: "w_saved nx_joined = joined_db nx_settings 2000 [120] 5 (nx_request 97) nx_code nx_node nx_db"
  using join_run [OF nx_ok nx_may_join [of 97]] by (simp add: nx_joined_def Let_def nx_world_def)

text \<open>The code of the installation, before and after it is used.\<close>

definition nx_used :: join_code where "nx_used = hd (e_codes (w_saved nx_joined))"

lemma nx_used_code: "e_codes (w_saved nx_joined) = [nx_used]" "jc_id nx_used = 70" "\<not> pending nx_used" "jc_hash nx_used = 104 # nx_raw"
  by (simp_all add: nx_used_def nx_joined_db joined_db_def Let_def nx_db_def put_row_def consumed_code_def nx_code_def pending_def)

lemma nx_joined_ok: "nodes_ok (w_saved nx_joined)"
  using since_joined [OF since_refl [OF nx_ok] nx_may_join [of 97]] by (simp add: nx_joined_db nodes_since_def nx_world_def)

lemma nx_validated:
  assumes "get_node_row d 6 = Some n" "nd_status n \<noteq> ''disabled''"
  shows "validated nx_settings d nx_code True (nx_request k) n"
  using assms
  by (simp add: validated_def join_profile_is_complete_def filled_def nx_code_def nx_request_def nx_settings_def profile_current_def
      profile_intact_def join_profile_digest_def or_empty_def ascii_lower_def echoes_def agrees_def sha256_prefix_def lit_def)

lemma joined_keys: "nd_id (joined now q h c n) = nd_id n" "nd_token (joined now q h c n) = Some h" "nd_status (joined now q h c n) = ''healthy''"
  by (simp_all add: joined_def enrolled_def)

lemma nx_row: "get_node_row (w_saved nx_joined) 6 = Some (xr_node nx_result)" "nd_status (xr_node nx_result) = ''healthy''"
  "nd_token (xr_node nx_result) = Some (es_hash nx_settings (xr_token nx_result))" "nd_id (xr_node nx_result) = 6"
  "xr_token nx_result = create_opaque_token ''node'' [120]"
proof -
  let ?n = "joined 2000 (nx_request 97) (es_hash nx_settings (create_opaque_token ''node'' [120])) nx_code nx_node"
  have r: "xr_node nx_result = ?n" "xr_token nx_result = create_opaque_token ''node'' [120]"
    by (simp_all add: nx_result_def joined_result_def exchange_result_of_def Let_def)
  have i: "nd_id nx_node = 6" by (simp add: nx_node_def)
  have "e_nodes (w_saved nx_joined) = put_row nd_id ?n [nx_node]" by (simp add: nx_joined_db joined_db_def Let_def nx_db_def)
  then show "get_node_row (w_saved nx_joined) 6 = Some (xr_node nx_result)"
    by (simp add: get_node_row_def r find_put_row joined_keys i find_row_single)
  show "nd_status (xr_node nx_result) = ''healthy''" "nd_token (xr_node nx_result) = Some (es_hash nx_settings (xr_token nx_result))"
    "nd_id (xr_node nx_result) = 6" "xr_token nx_result = create_opaque_token ''node'' [120]"
    by (simp_all add: r joined_keys i)
qed

lemma nx_valid: "k \<in> {97, 98} \<Longrightarrow> valid_join_exchange_id (nx_exchange_id k)" "valid_join_code nx_raw"
  by (auto simp: valid_join_exchange_id_def nx_exchange_id_def valid_join_code_def nx_raw_def lit_def list_all_iff)

lemma nx_replay:
  "run_request (exchange_join_code nx_settings 9000 [121] 7 (nx_request 97)) nx_joined =
    (nx_joined\<lparr>w_db := w_saved nx_joined\<rparr>, Inr (exchange_result_of nx_used (xr_node nx_result) (xr_token nx_result) (nx_exchange_id 97)))"
proof -
  have used: "nx_used = consumed_code 2000 (nx_exchange_id 97) (es_seal nx_settings 5 (xr_token nx_result)) nx_code"
    by (simp add: nx_used_def nx_joined_db joined_db_def Let_def nx_db_def put_row_def consumed_code_def nx_row(5) nx_request_def)
  have "validated nx_settings (w_saved nx_joined) nx_used True (nx_request 97) (xr_node nx_result)"
    unfolding used validated_consumed by (rule nx_validated [OF nx_row(1)]) (simp add: nx_row)
  then have "may_exchange nx_settings (w_saved nx_joined) (nx_request 97) nx_used (xr_node nx_result)"
    using nx_valid by (intro exchange_again [OF nx_joined_ok])
      (auto simp: nx_used_code nx_request_def used consumed_code_def nx_settings_def nx_code_def)
  moreover have "recoverable nx_settings 9000 nx_used (xr_node nx_result) (nx_exchange_id 97) (xr_token nx_result)"
    using nx_row(3) by (simp add: recoverable_def used consumed_code_def nx_settings_def seconds_def)
  ultimately show ?thesis
    using recovery_run [OF nx_joined_ok, of nx_settings 9000 "nx_request 97" nx_used "xr_node nx_result" "xr_token nx_result" "[121]" 7]
    by (simp add: may_recover_def nx_request_def)
qed

section \<open>Properties\<close>




text \<open>
  C9. An exchange does exactly this: an open, current, unexpired code whose node is not disabled is consumed and its node gets a new
  token; a consumed one gives the same token again to the same exchange within its window; everything else is refused and
  changes nothing.
\<close>

theorem join_code_exchange_exact:
  assumes "nodes_ok (w_saved w)"
  shows "if \<exists>c n. may_join sv now random nonce q (w_saved w) c n
    then \<exists>c n. may_join sv now random nonce q (w_saved w) c n \<and> run_request (exchange_join_code sv now random nonce q) w =
      (let d = joined_db sv now random nonce q c n (w_saved w) in (w\<lparr>w_db := d, w_saved := d\<rparr>, Inr (joined_result sv now random nonce q c n)))
    else if \<exists>c n raw. may_recover sv now q (w_saved w) c n raw
    then \<exists>c n raw. may_recover sv now q (w_saved w) c n raw \<and>
      run_request (exchange_join_code sv now random nonce q) w = (w\<lparr>w_db := w_saved w\<rparr>, Inr (exchange_result_of c n raw (xq_exchange q)))
    else \<exists>e. run_request (exchange_join_code sv now random nonce q) w = (w\<lparr>w_db := w_saved w\<rparr>, Inl e)"
proof (cases rule: exchange_cases [OF assms, where sv = sv and now = now and random = random and nonce = nonce and q = q])
  case (1 c n)
  then show ?thesis by metis
next
  case (2 c n raw)
  then have "\<not> may_join sv now random nonce q (w_saved w) c' n'" for c' n'
    using may_exchange_only [of sv "w_saved w" q c n c' n'] by (auto simp: may_join_def may_recover_def recoverable_def)
  then show ?thesis using 2 by metis
next
  case (3 e)
  then show ?thesis by metis
qed

theorem join_code_exchange_exact_witness:
  "fst (run_request (exchange_join_code nx_settings 2000 [120] 5 (nx_request 97)) nx_world) \<noteq> nx_world"
proof -
  have "\<exists>c n. may_join nx_settings 2000 [120] 5 (nx_request 97) (w_saved nx_world) c n" using nx_may_join [of 97] by blast
  then have "\<exists>r. snd (run_request (exchange_join_code nx_settings 2000 [120] 5 (nx_request 97)) nx_world) = Inr r"
    using join_code_exchange_exact [OF nx_ok, of nx_settings 2000 "[120]" 5 "nx_request 97"] by (auto simp: Let_def)
  moreover have "pending nx_code" by (simp add: pending_def nx_code_def)
  then have "e_codes (w_saved nx_world) = [nx_code]" "nx_code \<noteq> nx_used"
    using nx_used_code(3) by (auto simp: nx_world_def nx_db_def)
  ultimately show ?thesis using nx_joins nx_used_code(1) by auto
qed





text \<open>
  C6. A join code is worth one token: whatever happens in between, whoever presents the code again gets that token, under the exchange
  of the first, or nothing, and nothing is changed.
\<close>

theorem join_code_single_use:
  assumes "\<And>k s. es_open sv (es_seal sv k s) = Some s" "nodes_ok (w_saved w)"
    "run_request (exchange_join_code sv now random nonce q) w = (w1, Inr r)" "node_evolves sv w1 w2"
    "run_request (exchange_join_code sv later_on random2 nonce2 q2) w2 = (w3, Inr r2)" "xq_code q = Some raw" "xq_code q2 = Some raw"
  shows "xr_token r2 = xr_token r \<and> xr_exchange r2 = xr_exchange r \<and> w_saved w3 = w_saved w2"
proof -
  obtain c n t where c: "may_exchange sv (w_saved w) q c n" "nodes_since (w_saved w) (w_saved w1)" "xr_token r = t" "xr_exchange r = xq_exchange q"
    "\<exists>c1 \<in> set (e_codes (w_saved w1)). code_follows c c1 \<and> jc_consumed c1 \<noteq> None \<and> jc_exchange c1 = Some (xq_exchange q) \<and>
      (\<exists>sealed. jc_sealed c1 = Some sealed \<and> (es_open sv sealed = Some t \<or> (\<exists>k. sealed = es_seal sv k t)))"
    by (rule exchange_runs [OF assms(2,3)])
  then obtain c1 sealed where c1: "c1 \<in> set (e_codes (w_saved w1))" "code_follows c c1" "jc_consumed c1 \<noteq> None"
    "jc_exchange c1 = Some (xq_exchange q)" "jc_sealed c1 = Some sealed" "es_open sv sealed = Some t" using assms(1) by auto
  have ok1: "nodes_ok (w_saved w1)" using c(2) by (simp add: nodes_since_def)
  have since: "nodes_since (w_saved w1) (w_saved w2)" by (rule evolves_since [OF assms(4) ok1])
  then have ok2: "nodes_ok (w_saved w2)" by (simp add: nodes_since_def)
  have "jc_hash c1 = es_hash sv raw" using c1(2) record_hash [OF may_exchange_record [OF c(1)] assms(6)] by (simp add: code_follows_def)
  then have same: "c2 = c1" if "may_exchange sv (w_saved w2) q2 c2 n2" for c2 n2
    using found_by_hash [OF may_exchange_record [OF that] assms(7)] same_code_later [OF ok1 since c1(1)] c1(3) by (simp add: pending_def)
  show ?thesis
  proof (cases rule: exchange_cases [OF ok2, where sv = sv and now = later_on and random = random2 and nonce = nonce2 and q = q2])
    case (1 c2 n2)
    then show ?thesis using same c1(3) by (auto simp: may_join_def)
  next
    case (2 c2 n2 u)
    then have "c2 = c1" "recoverable sv later_on c2 n2 (xq_exchange q2) u" using same by (auto simp: may_recover_def)
    then show ?thesis using 2(2) assms(5) c1 c(3,4) by (auto simp: recoverable_def exchange_result_of_def)
  next
    case (3 e)
    then show ?thesis using assms(5) by simp
  qed
qed

theorem join_code_single_use_witness:
  "map_sum id xr_token (snd (run_request (exchange_join_code nx_settings 9000 [121] 7 (nx_request 97)) nx_joined)) = Inr (xr_token nx_result)"
proof -
  have open_seal: "es_open nx_settings (es_seal nx_settings k t) = Some t" for k t by (simp add: nx_settings_def)
  show ?thesis
    using join_code_single_use [OF open_seal nx_ok nx_joins node_evolves.Same nx_replay, of nx_raw] nx_replay by (simp add: nx_request_def)
qed


text \<open>
  C11. Revoking the codes of a node ends them for good: no code that was open then gets a token in any later run.
\<close>

theorem revoked_codes_worthless:
  assumes "nodes_ok (w_saved w)" "run_request (revoke_join_codes now actor i None) w = (w1, Inr state)" "node_evolves sv w1 w2"
    "c \<in> set (e_codes (w_saved w))" "jc_node_id c = i" "pending c" "jc_hash c = es_hash sv raw" "xq_code q = Some raw"
  shows "\<exists>e. run_request (exchange_join_code sv later_on random nonce q) w2 = (w2\<lparr>w_db := w_saved w2\<rparr>, Inl e)"
proof -
  have ok1: "nodes_since (w_saved w) (w_saved w1)" using since_run [OF keeps_revoke_codes since_refl [OF assms(1)]] assms(2) by (metis fst_conv)
  then have ok: "nodes_ok (w_saved w1)" by (simp add: nodes_since_def)
  have since: "nodes_since (w_saved w1) (w_saved w2)" by (rule evolves_since [OF assms(3) ok])
  then have ok2: "nodes_ok (w_saved w2)" by (simp add: nodes_since_def)
  have "e_codes (w_saved w1) =
      fold (\<lambda>c. put_row jc_id (revoked_code now c)) (filter (\<lambda>c. jc_node_id c = i \<and> pending c) (e_codes (w_saved w))) (e_codes (w_saved w))"
    using assms(2)
    by (auto simp: run_request_result result revoke_join_codes_def require_node_def revocable_def node_audit_def store_codes_def split: option.splits if_splits)
  moreover have "\<dots> = map (\<lambda>y. if jc_node_id y = i \<and> pending y then revoked_code now y else y) (e_codes (w_saved w))"
    by (rule fold_put_filter [OF nodes_okD(4) [OF assms(1)]]) (simp add: revoked_code_def)
  ultimately have "e_codes (w_saved w1) = map (\<lambda>y. if jc_node_id y = i \<and> pending y then revoked_code now y else y) (e_codes (w_saved w))"
    by simp
  then have c: "revoked_code now c \<in> set (e_codes (w_saved w1))" using assms(4-6) by auto
  have "jc_revoked c2 \<noteq> None" if "may_exchange sv (w_saved w2) q c2 n" for c2 n
  proof -
    have "c2 \<in> set (e_codes (w_saved w2))" "jc_hash c2 = jc_hash (revoked_code now c)"
      using found_by_hash [OF may_exchange_record [OF that] assms(8)] assms(7) by (simp_all add: revoked_code_def)
    then have "c2 = revoked_code now c" using same_code_later [OF ok since c] by (simp add: pending_def revoked_code_def)
    then show ?thesis by (simp add: revoked_code_def)
  qed
  then have none: "\<not> may_exchange sv (w_saved w2) q c2 n" for c2 n using exchange_found(4) [OF ok2] by blast
  show ?thesis
    by (cases rule: exchange_cases [OF ok2, where sv = sv and now = later_on and random = random and nonce = nonce and q = q])
      (use none in \<open>auto simp: may_join_def may_recover_def\<close>)
qed

definition nx_revoked :: node_world where "nx_revoked = fst (run_request (revoke_join_codes 1500 nx_admin 6 None) nx_world)"

lemma nx_revokes: "run_request (revoke_join_codes 1500 nx_admin 6 None) nx_world = (nx_revoked, Inr ''revoked'')"
proof -
  have "snd (run_request (revoke_join_codes 1500 nx_admin 6 None) nx_world) = Inr ''revoked''"
    by (simp add: run_request_def revoke_join_codes_def require_node_def act_bind_assoc act_simps modify_step revocable_def store_codes_def
        node_audit_def ret_def commit_def nx_admin_def get_node_row_def nx_world_def nx_db_def find_row_def nx_node_def nx_code_def pending_def
        codes_admissible_def unique_index_def put_row_def revoked_code_def)
  then show ?thesis by (simp add: nx_revoked_def prod_eq_iff)
qed

theorem revoked_codes_worthless_witness:
  "\<exists>e. run_request (exchange_join_code nx_settings 2000 [120] 5 (nx_request 97)) nx_revoked = (nx_revoked\<lparr>w_db := w_saved nx_revoked\<rparr>, Inl e)"
  by (rule revoked_codes_worthless [OF nx_ok nx_revokes node_evolves.Same, where sv = nx_settings and c = nx_code and raw = nx_raw])
    (simp_all add: nx_world_def nx_db_def nx_code_def pending_def nx_settings_def nx_request_def)


text \<open>
  An exchange leaves its node with one token: afterwards a token authenticates the node exactly when it is that of the answer, up to
  the hash, so the token of before is worthless.
\<close>

theorem exchange_replaces_token:
  assumes "nodes_ok (w_saved w)" "run_request (exchange_join_code sv now random nonce q) w = (w1, Inr r)"
  shows "(\<exists>m. snd (run_request (authenticate_node_token sv token) w1) = Inr m \<and> nd_id m = nd_id (xr_node r)) \<longleftrightarrow>
    es_hash sv token = es_hash sv (xr_token r)"
proof -
  have c: "nodes_since (w_saved w) (w_saved w1) \<and> (\<exists>i. find_row nd_id i (e_nodes (w_saved w1)) = Some (xr_node r)) \<and>
      nd_token (xr_node r) = Some (es_hash sv (xr_token r)) \<and> nd_status (xr_node r) \<noteq> ''disabled''"
    by (rule exchange_runs [OF assms]) metis
  from this have n: "xr_node r \<in> set (e_nodes (w_saved w1))" "nd_token (xr_node r) = Some (es_hash sv (xr_token r))" "nd_status (xr_node r) \<noteq> ''disabled''"
    using c by (auto dest: find_row_Some)
  have ok: "nodes_ok (w_saved w1)" using c by (simp add: nodes_since_def)
  have run: "snd (run_request (authenticate_node_token sv token) w1) =
    (case get_node_by_token_hash (w_saved w1) (es_hash sv token) of None \<Rightarrow> Inl (ApiError ''COMMON_UNAUTHORIZED'' 401)
     | Some m \<Rightarrow> if nd_status m \<noteq> ''disabled'' then Inr m else Inl (ApiError ''NODE_UNHEALTHY'' 403))"
    by (simp add: run_request_def authenticate_node_token_def act_simps api_error_def throw_def ret_def split: option.splits)
  show ?thesis
  proof
    assume "\<exists>m. snd (run_request (authenticate_node_token sv token) w1) = Inr m \<and> nd_id m = nd_id (xr_node r)"
    then obtain m where m: "get_node_by_token_hash (w_saved w1) (es_hash sv token) = Some m" "nd_id m = nd_id (xr_node r)"
      unfolding run by (auto split: option.splits if_splits)
    then have "m \<in> set (e_nodes (w_saved w1))" "nd_token m = Some (es_hash sv token)" by (auto simp: get_node_by_token_hash_def find_Some_iff)
    moreover then have "m = xr_node r" using m(2) n(1) nodes_okD(1) [OF ok] by (auto simp: distinct_map dest: inj_onD)
    ultimately show "es_hash sv token = es_hash sv (xr_token r)" using n(2) by simp
  next
    assume "es_hash sv token = es_hash sv (xr_token r)"
    then show "\<exists>m. snd (run_request (authenticate_node_token sv token) w1) = Inr m \<and> nd_id m = nd_id (xr_node r)"
      using nodes_ok_token [OF ok n(1)] n(2,3) by (simp add: run)
  qed
qed

theorem exchange_replaces_token_witness:
  "\<not> (\<exists>m. snd (run_request (authenticate_node_token nx_settings [1]) nx_joined) = Inr m \<and> nd_id m = 6)"
  using exchange_replaces_token [OF nx_ok nx_joins, of "[1]"] nx_row(4,5) by (simp add: nx_settings_def create_opaque_token_def lit_def)


text \<open>
  C13. A node in maintenance leaves it with its next heartbeat: the heartbeat sets the status from the health of the runtime alone.
\<close>

theorem heartbeat_ends_maintenance:
  assumes "nodes_ok (w_saved w)" "get_node_row (w_saved w) i = Some n" "nd_status n = ''maintenance''" "nd_token n = Some (es_hash sv token)"
    "hq_node_id q = i"
  shows "map_option nd_status (get_node_row (w_saved (node_serve sv now (Heartbeat token q) w)) i) =
    Some (if runtime_is_healthy (nd_allowed n) (hq_runtime q) then ''healthy'' else ''degraded'')"
proof -
  let ?d = "w_saved w" and ?n = "beat_node sv now q n"
  have n: "n \<in> set (e_nodes ?d)" "nd_id n = i" using assms(2) by (auto simp: get_node_row_def dest: find_row_Some)
  have keys: "nd_id ?n = nd_id n" "nd_token ?n = nd_token n" "nd_registration ?n = nd_registration n"
    "nd_status ?n = (if runtime_is_healthy (nd_allowed n) (hq_runtime q) then ''healthy'' else ''degraded'')"
    by (simp_all add: beat_node_def Let_def)
  have old: "nodes_admissible (e_nodes ?d)" by (rule nodes_okD(2) [OF assms(1)])
  have "unique_index (\<lambda>n. nd_token n \<noteq> None) nd_token (put_row nd_id ?n (e_nodes ?d))"
    "unique_index (\<lambda>n. nd_registration n \<noteq> None) nd_registration (put_row nd_id ?n (e_nodes ?d))"
    by (rule unique_index_put [OF _ _ n(1) keys(1)]; use old keys in \<open>simp add: nodes_admissible_def\<close>)+
  moreover have "nd_status ?n \<in> set node_statuses" by (simp add: keys(4) node_statuses_def)
  then have "list_all (\<lambda>n. nd_status n \<in> set node_statuses) (put_row nd_id ?n (e_nodes ?d))"
    using old by (auto simp: nodes_admissible_def list_all_iff put_row_mem)
  ultimately have "nodes_admissible (put_row nd_id ?n (e_nodes ?d))" using old by (simp add: nodes_admissible_def)
  moreover have "get_node_by_token_hash ?d (es_hash sv token) = Some n" by (rule nodes_ok_token [OF assms(1) n(1) assms(4)])
  ultimately have "e_nodes (w_saved (node_serve sv now (Heartbeat token q) w)) = put_row nd_id ?n (e_nodes ?d)"
    using assms(3,5) n(2)
    by (simp add: node_serve_def run_request_def route_heartbeat_def authenticate_node_token_def submit_heartbeat_def save_node_def act_bind_assoc act_simps
        modify_step store_nodes_def commit_def)
  moreover have "find_row nd_id i (put_row nd_id ?n (e_nodes ?d)) = Some ?n" using assms(2) keys(1) n(2) by (simp add: get_node_row_def find_put_row)
  ultimately show ?thesis using keys(4) by (simp add: get_node_row_def)
qed

definition nx_maintained :: node_world where
  "nx_maintained = nx_world\<lparr>w_saved := nx_db\<lparr>e_nodes := [nx_node\<lparr>nd_status := ''maintenance'', nd_token := Some [104, 1]\<rparr>]\<rparr>\<rparr>"

definition nx_beat :: heartbeat_request where
  "nx_beat = \<lparr>hq_node_id = 6, hq_version = [50], hq_tools = [], hq_wireguard_ip = None, hq_wireguard_key = None, hq_wireguard_endpoint = None,
     hq_resources = [], hq_runtime = \<lparr>rr_docker_ok = True, rr_tmux_ok = True, rr_active_sessions = 0, rr_browser_sessions = 0, rr_containers = 0,
       rr_capabilities = []\<rparr>\<rparr>"

theorem heartbeat_ends_maintenance_witness:
  "map_option nd_status (get_node_row (w_saved (node_serve nx_settings 9000 (Heartbeat [1] nx_beat) nx_maintained)) 6) = Some ''healthy''"
proof -
  let ?n = "nx_node\<lparr>nd_status := ''maintenance'', nd_token := Some [104, 1]\<rparr>"
  have "nodes_ok (w_saved nx_maintained)"
    using nx_ok by (simp add: nx_maintained_def nx_world_def nx_db_def nodes_ok_def nodes_admissible_def unique_index_def nx_node_def node_statuses_def)
  moreover have "get_node_row (w_saved nx_maintained) 6 = Some ?n"
    by (simp add: nx_maintained_def get_node_row_def find_row_def nx_node_def)
  ultimately show ?thesis using heartbeat_ends_maintenance [of nx_maintained 6 ?n nx_settings "[1]" nx_beat 9000]
    by (simp add: nx_settings_def nx_beat_def runtime_is_healthy_def)
qed


text \<open>
  C12. A code that was issued for one exchange can be consumed under another: the exchange of the code is overwritten, and revoking the
  first one then finds no code.
\<close>

theorem prebound_code_moves:
  assumes "nodes_ok (w_saved w)" "may_join sv now random nonce q (w_saved w) c n" "jc_exchange c = Some x" "x \<noteq> xq_exchange q"
    "valid_join_exchange_id x" "u_role actor = ''admin''"
  shows "snd (run_request (revoke_join_codes later_on actor (jc_node_id c) (Some x))
    (fst (run_request (exchange_join_code sv now random nonce q) w))) = Inr ''missing''"
proof -
  let ?c = "consumed_code now (xq_exchange q) (es_seal sv nonce (create_opaque_token ''node'' random)) c"
  let ?w1 = "fst (run_request (exchange_join_code sv now random nonce q) w)"
  have w1: "w_saved ?w1 = joined_db sv now random nonce q c n (w_saved w)" using join_run [OF assms(1,2)] by (simp add: Let_def)
  have ok1: "nodes_ok (w_saved ?w1)" using since_joined [OF since_refl [OF assms(1)] assms(2)] by (simp add: w1 nodes_since_def)
  have may: "may_exchange sv (w_saved w) q c n" using assms(2) by (simp add: may_join_def)
  note f = exchange_found [OF assms(1) may]
  have "jc_exchange y \<noteq> Some x" if "y \<in> set (e_codes (w_saved ?w1))" for y
  proof
    assume x: "jc_exchange y = Some x"
    have "y = ?c \<or> y \<in> set (e_codes (w_saved w)) \<and> jc_id y \<noteq> jc_id c"
      using that by (auto simp: w1 joined_db_def Let_def put_row_mem consumed_code_def)
    then have y: "y \<in> set (e_codes (w_saved w))" "jc_id y \<noteq> jc_id c" using x assms(4) by (auto simp: consumed_code_def)
    have "jc_exchange y \<noteq> None" "jc_exchange c \<noteq> None" "jc_exchange y = jc_exchange c" using x assms(3) by simp_all
    then have "y = c" by (rule unique_indexD [OF nodes_okD(6,4) [OF assms(1)] y(1) f(1)])
    then show False using y(2) by simp
  qed
  then have none: "List.find (\<lambda>y. jc_node_id y = jc_node_id c \<and> jc_exchange y = Some x) (e_codes (w_saved ?w1)) = None"
    by (auto simp: find_None_iff)
  have "jc_node_id c \<in> nd_id ` set (e_nodes (w_saved ?w1))"
    using find_row_Some [OF f(3)] by (force simp: w1 joined_db_def Let_def put_row_image)
  then obtain m where "get_node_row (w_saved ?w1) (jc_node_id c) = Some m"
    using find_row_None [of nd_id "jc_node_id c" "e_nodes (w_saved ?w1)"] by (auto simp: get_node_row_def)
  moreover have "codes_admissible (e_codes (w_saved ?w1))" by (rule nodes_okD(3) [OF ok1])
  ultimately show ?thesis using none assms(5,6)
    by (simp add: run_request_def revoke_join_codes_def require_node_def act_bind_assoc act_simps modify_step revocable_def store_codes_def
        node_audit_def ret_def)
qed

theorem prebound_code_moves_witness:
  "snd (run_request (revoke_join_codes 9000 nx_admin 6 (Some (nx_exchange_id 97)))
    (fst (run_request (exchange_join_code nx_settings 2000 [120] 5 (nx_request 98)) nx_world))) = Inr ''missing''"
  using prebound_code_moves [OF nx_ok nx_may_join [of 98], of "nx_exchange_id 97" nx_admin 9000] nx_valid(1) [of 97]
  by (simp add: nx_code_def nx_request_def nx_exchange_id_def nx_admin_def)


end
