(* ===== verification/Spec2Isabelle.thy ===== *)
theory Spec2Isabelle
  imports Migration Composition History Objects Metering Relay_Hub Forward_Contract Device_Contract Attachment_Contract Enrollment_Contract
begin

text \<open>
  Verification of the core logic of the control plane, the Python package \<open>src/src/agent_remote_server\<close>.

  The server brings users, their devices and remote nodes together. A node joins with a code and reports what it can do
  (enrollment). On a node runs the session of a tool; a device can take control of it (device control), open ports of it
  (port forwarding), put files into it (attachments). The bytes of device and browser control go through relays of this
  process, for which one-time tickets are issued. Beside this the server keeps the skills of a user: directory trees
  with three-way merges, explicit resolutions of conflicts, a content store and the retirement of old history.

  \<^bold>\<open>Shared ground.\<close>
  \<^item> \<open>Prelude\<close>: Python text as lists of code points, UTF-8, exceptions as the left summand of \<open>res\<close>, loops that may
    raise (\<open>fold_res\<close>), and lemmas on lists and association lists.
  \<^item> \<open>Request\<close>: a request of a service as a function on a world with an open transaction (\<open>w_db\<close>) and the committed
    state (\<open>w_saved\<close>). A raise or the end of the request throws away what was not committed. Triples and inversion rules
    over requests carry the proofs about the services.
  \<^item> \<open>Rows\<close>: the rows of users, devices, keys, nodes, tool sessions and settings that several services read
    (\<open>models/\<close>); \<open>Envelope\<close> has the JSON values.

  \<^bold>\<open>Skill trees\<close> (\<open>skill_manager/\<close>, \<open>schemas/skill_*.py\<close>).
  \<^item> \<open>Manifest\<close>, \<open>Links\<close> (\<open>schemas/skill_manifest.py\<close>): paths, entries, the checks of a tree, the resolution of its
    symbolic links. In a checked tree every ordinary link ends at an entry of the tree that is no link (C37).
  \<^item> \<open>Digest\<close> (\<open>manifest.py\<close>): the bytes a tree is hashed over determine the tree (C38). \<open>Content\<close>
    (\<open>storage/validation.py\<close>, \<open>policy.py\<close>): the verification of contents in one pass and in blocks.
  \<^item> \<open>Merge\<close> (\<open>merge.py\<close>), \<open>Scopes\<close> and \<open>Directory_Merge\<close> (\<open>directory_merge.py\<close>): a merge loses no update, for one tree
    and for a whole directory merged unit by unit (C8, C23). \<open>Resolution\<close> (\<open>resolution.py\<close>), \<open>Migration\<close>
    (\<open>migration_resolution.py\<close>) and \<open>Composition\<close> (\<open>materialization.py\<close>, \<open>tree_diff.py\<close>, \<open>rules.py\<close>) build on them; C39
    says path by path what a composed directory is.
  \<^item> \<open>Worklist\<close>, \<open>Retention\<close>, \<open>History\<close> (\<open>retention/\<close>): the protection of reachable objects and the groups of identities
    that may retire together, as closures of graphs (C26, C40).
  \<^item> \<open>Objects\<close> (\<open>storage/filesystem.py\<close>, \<open>objects.py\<close>, \<open>deletion.py\<close>): uploads leave published objects alone and
    collection spares what is protected (C34, C35).

  \<^bold>\<open>Relays and stores.\<close>
  \<^item> \<open>One_Time\<close> states the contract of a store of one-time values as a locale; \<open>Stores\<close> has the in-process stores
    (\<open>ego_browser/relay/store.py\<close>, \<open>device_control/relay_store.py\<close>, \<open>port_forwarding/tokens.py\<close>) and discharges it for each.
  \<^item> \<open>Envelope\<close> (\<open>ego_browser/relay/envelope.py\<close>): exactly the well-formed frames pass (C32). \<open>Metering\<close>: the forwarding
    loops keep to the rate (C33), proved once in a locale for all three senders.
  \<^item> \<open>Pairing\<close>, \<open>Relay_Hub\<close> (\<open>ego_browser/relay/hub.py\<close>, \<open>device_control/relay_hub.py\<close>): the hubs as step relations whose
    steps are the locked sections; sockets meet only within a generation and in opposite roles (C27).

  \<^bold>\<open>Port forwarding.\<close> \<open>Forward_Model\<close> and \<open>Forwards\<close> are \<open>services/port_forwards.py\<close> with its repository and rows. \<open>Forward_Writers\<close> has
  everyone else who writes the table: \<open>services/port_forward_revocation.py\<close>, the cascades of the foreign keys, and the
  flush of a row that was read without a lock. \<open>Forward_Life\<close> is an abstract machine for the table; each request refines it
  (C2). \<open>Forward_Results\<close> inverts requests, which gives the exact condition of a connection (C28). \<open>Forward_Safety\<close> composes
  runs of all writers: the history of a row (C19), well-formedness (C36), repeatable creation (C24). \<open>Forward_Cleanup\<close> is
  \<open>port_forwarding/cleanup.py\<close> (C25); \<open>Forward_Contract\<close> has the properties, C22 among them: a token opens a forward once.

  \<^bold>\<open>Device control.\<close> \<open>Device_Model\<close>, \<open>Device_Sessions\<close>, \<open>Device_Service\<close> and \<open>Device_Relay\<close> are \<open>services/device_sessions.py\<close>,
  \<open>services/device_relay.py\<close> and the routes of \<open>api/device_sessions.py\<close> that join them with the hub; every flush checks the
  constraints of the tables. \<open>Device_Life\<close> is their abstract machine, \<open>Device_Safety\<close> its invariant (C1) and history (C3),
  \<open>Device_Results\<close> and \<open>Device_Bindings\<close> say what a stop, the expiry, a claim and a socket do (C4, C29, C5, C21), and that a generation
  that is over stays shut (C20). C30 and C31 show two defects.

  \<^bold>\<open>Attachments and enrollment.\<close> \<open>Attachments\<close> and \<open>Attachment_Life\<close> are \<open>services/session_attachment.py\<close> (C15 to C18).
  \<open>Node_Capability\<close> and \<open>Enrollment\<close> are the node service up to the tasks (\<open>services/nodes.py\<close>): what a heartbeat may claim
  (C14), the exchange of join codes, exactly (C9), once (C6), recoverably (C10) and never after a revocation (C11), in
  tables that stay well-formed (C7). C12 and C13 show two defects.

  \<^bold>\<open>What is a parameter.\<close> Hashes, the sealed box, \<open>json.loads\<close>, the NFC test and the verdict of the release gate are
  arguments of the definitions or fields of the settings. Where a property needs more of them than that they are functions, it is a
  hypothesis: that a sealed text opens to what was sealed, that a random token or identifier has not been drawn before. Random values
  are arguments of a request; a run that draws fresh ones carries the set of those already drawn.

  \<^bold>\<open>Interleaving.\<close> A request is one step. This is right for the rows it locks (\<open>SELECT ... FOR UPDATE\<close>) and for the
  stores and hubs, whose operations hold a lock. The other rows it reads may change before and after it. For forwards the requests that
  lock nothing (stop, list, get, issue of a connection) are also modelled as late writers: they write, at any later point of
  the run, the columns they changed of the row they had read. A request reads the clock once.

  \<^bold>\<open>Bounds.\<close> The worklists of the retention carry fuel, the size of the graph; every node is added once, and
  \<open>worklist_returns\<close> shows it is enough. A reconciliation pass carries a number of rounds, and C25 says how many it needs.
  All other loops are structural or have a measure. Sizes, ports, times (in microseconds) and
  counters are unbounded integers, as in Python; the limits of columns and fields are checks of the code. Floating
  point numbers of the rate limiter are real numbers.

  \<^bold>\<open>What is not modelled.\<close> Routes and schemas beyond the ones named, queries over other tables, the Redis variants of stores and buses,
  logging and audit details; the services of sessions, identity, tool accounts, workspaces and browser bindings, and the database
  side of the skills, which orchestrate the functions modelled here. Their effect on the modelled tables is in the runs: rows of
  theirs change arbitrarily, their revocations and deletions are steps. The result handlers of node tasks call a dozen
  other components and are left out.
\<close>

end
